(* ===== verification/Q_Prelude.thy ===== *)
theory Q_Prelude
  imports Main "HOL-Library.Word"
begin

text \<open>
  Shared vocabulary of the development.

  The C functions of the repository share one calling convention: they return a
  status, every failing check jumps to the label \<open>BYE\<close> (macros \<open>go_BYE\<close>, \<open>cBYE\<close> and
  \<open>chk_range\<close> of \<open>macros.h\<close>) and results are handed back through pointers.  A C
  function is therefore a state transformer returning an outcome: \<open>Ret\<close> with the
  results, \<open>Bye\<close> for a negative status, \<open>Fault\<close> for an array access outside its
  bounds (undefined behaviour in C).  The state is kept on every outcome, since
  the meta data is a shared memory map whose partial updates survive an error.

  The theory also holds the weakest-precondition calculus used for these
  programs, and generic facts on bounded scans and list updates.
\<close>

subsection \<open>Outcomes and programs\<close>

datatype 'a outcome = Ret 'a | Bye | Fault

type_synonym ('s, 'a) prog = "'s \<Rightarrow> 'a outcome \<times> 's"

type_synonym byte = "8 word"
type_synonym I1 = "8 word"
type_synonym I2 = "16 word"
type_synonym I4 = "32 word"
type_synonym I8 = "64 word"

named_theorems wp_simps \<open>equations of the weakest-precondition calculus\<close>
named_theorems prog_defs \<open>definitions of the program combinators\<close>

definition ret :: "'a \<Rightarrow> ('s, 'a) prog" where
  [prog_defs]: "ret x = (\<lambda>s. (Ret x, s))"

definition bye :: "('s, 'a) prog" where
  [prog_defs]: "bye = (\<lambda>s. (Bye, s))"

definition fault :: "('s, 'a) prog" where
  [prog_defs]: "fault = (\<lambda>s. (Fault, s))"

definition bind :: "('s, 'a) prog \<Rightarrow> ('a \<Rightarrow> ('s, 'b) prog) \<Rightarrow> ('s, 'b) prog" where
  [prog_defs]: "bind p f = (\<lambda>s. case p s of
      (Ret a, s') \<Rightarrow> f a s' | (Bye, s') \<Rightarrow> (Bye, s') | (Fault, s') \<Rightarrow> (Fault, s'))"

definition seq :: "('s, unit) prog \<Rightarrow> ('s, 'b) prog \<Rightarrow> ('s, 'b) prog" where
  [prog_defs]: "seq p q = bind p (\<lambda>_. q)"

definition gets :: "('s \<Rightarrow> 'a) \<Rightarrow> ('s, 'a) prog" where
  [prog_defs]: "gets f = (\<lambda>s. (Ret (f s), s))"

definition modify :: "('s \<Rightarrow> 's) \<Rightarrow> ('s, unit) prog" where
  [prog_defs]: "modify f = (\<lambda>s. (Ret (), f s))"

text \<open>\<open>guard b\<close> is \<open>if ( ! b ) { go_BYE(-1); }\<close>; \<open>within b\<close> is the side condition of an
  array access.\<close>

definition guard :: "bool \<Rightarrow> ('s, unit) prog" where
  [prog_defs]: "guard b = (if b then ret () else bye)"

definition within :: "bool \<Rightarrow> ('s, unit) prog" where
  [prog_defs]: "within b = (if b then ret () else fault)"

text \<open>\<open>ignore p\<close> runs \<open>p\<close> and drops its status, as a call whose status is not
  passed to \<open>cBYE\<close>; the flag tells whether the status was non-negative.\<close>

definition ignore :: "('s, 'a) prog \<Rightarrow> ('s, 'a option) prog" where
  [prog_defs]: "ignore p = (\<lambda>s. case p s of
      (Ret a, s') \<Rightarrow> (Ret (Some a), s') | (Bye, s') \<Rightarrow> (Ret None, s') | (Fault, s') \<Rightarrow> (Fault, s'))"

text \<open>A pure computation that may fail, used as a program.\<close>

definition lift_out :: "'a outcome \<Rightarrow> ('s, 'a) prog" where
  [prog_defs]: "lift_out r = (\<lambda>s. (r, s))"

definition of_option :: "'a option \<Rightarrow> ('s, 'a) prog" where
  [prog_defs]: "of_option r = (case r of None \<Rightarrow> bye | Some x \<Rightarrow> ret x)"

text \<open>The loop \<open>for each x of a list\<close>, leaving at the first error.\<close>

fun for_each :: "('a \<Rightarrow> ('s, unit) prog) \<Rightarrow> 'a list \<Rightarrow> ('s, unit) prog" where
  "for_each f [] = ret ()"
| "for_each f (x # xs) = seq (f x) (for_each f xs)"

subsection \<open>Weakest preconditions\<close>

text \<open>\<open>wp p Q E s\<close>: run from \<open>s\<close>, the program does not fault, a result satisfies \<open>Q\<close>
  and an error leaves a state satisfying \<open>E\<close>.\<close>

definition wp :: "('s, 'a) prog \<Rightarrow> ('a \<Rightarrow> 's \<Rightarrow> bool) \<Rightarrow> ('s \<Rightarrow> bool) \<Rightarrow> 's \<Rightarrow> bool" where
  "wp p Q E s = (case p s of (Ret a, s') \<Rightarrow> Q a s' | (Bye, s') \<Rightarrow> E s' | (Fault, s') \<Rightarrow> False)"

lemma wp_ret [wp_simps]: "wp (ret x) Q E = Q x"
  by (simp add: wp_def ret_def fun_eq_iff)

lemma wp_bye [wp_simps]: "wp bye Q E s = E s"
  by (simp add: wp_def bye_def)

lemma wp_fault [wp_simps]: "wp fault Q E s = False"
  by (simp add: wp_def fault_def)

lemma wp_bind [wp_simps]: "wp (bind p f) Q E = wp p (\<lambda>a. wp (f a) Q E) E"
  by (simp add: wp_def bind_def fun_eq_iff split: prod.splits outcome.splits)

lemma wp_seq [wp_simps]: "wp (seq p q) Q E = wp p (\<lambda>_. wp q Q E) E"
  by (simp add: seq_def wp_bind)

lemma wp_gets [wp_simps]: "wp (gets f) Q E = (\<lambda>s. Q (f s) s)"
  by (simp add: wp_def gets_def fun_eq_iff)

lemma wp_modify [wp_simps]: "wp (modify f) Q E = (\<lambda>s. Q () (f s))"
  by (simp add: wp_def modify_def fun_eq_iff)

lemma wp_guard [wp_simps]: "wp (guard b) Q E s = (if b then Q () s else E s)"
  by (simp add: guard_def wp_simps)

lemma wp_within [wp_simps]: "wp (within b) Q E s = (b \<and> Q () s)"
  by (simp add: within_def wp_simps)

lemma wp_ignore [wp_simps]: "wp (ignore p) Q E s = wp p (\<lambda>a. Q (Some a)) (Q None) s"
  by (simp add: wp_def ignore_def split: prod.splits outcome.splits)

lemma wp_lift_out [wp_simps]:
  "wp (lift_out r) Q E s = (case r of Ret a \<Rightarrow> Q a s | Bye \<Rightarrow> E s | Fault \<Rightarrow> False)"
  by (simp add: wp_def lift_out_def split: outcome.splits)

lemma wp_of_option [wp_simps]:
  "wp (of_option r) Q E s = (case r of Some a \<Rightarrow> Q a s | None \<Rightarrow> E s)"
  by (simp add: of_option_def wp_simps split: option.splits)

lemma wp_if [wp_simps]: "wp (if b then p else q) Q E s = (if b then wp p Q E s else wp q Q E s)"
  by simp

lemma wp_case_option [wp_simps]:
  "wp (case x of None \<Rightarrow> p | Some y \<Rightarrow> q y) Q E s =
   (case x of None \<Rightarrow> wp p Q E s | Some y \<Rightarrow> wp (q y) Q E s)"
  by (simp split: option.splits)

lemma wp_case_prod [wp_simps]:
  "wp (case x of (a, b) \<Rightarrow> p a b) Q E s = (case x of (a, b) \<Rightarrow> wp (p a b) Q E s)"
  by (simp split: prod.splits)

lemma wp_mono:
  assumes "wp p Q E s"
    and "\<And>a s'. Q a s' \<Longrightarrow> Q' a s'" and "\<And>s'. E s' \<Longrightarrow> E' s'"
  shows "wp p Q' E' s"
  using assms by (auto simp: wp_def split: prod.splits outcome.splits)

lemma wp_conj:
  assumes "wp p Q E s" and "wp p Q' E' s"
  shows "wp p (\<lambda>a s'. Q a s' \<and> Q' a s') (\<lambda>s'. E s' \<and> E' s') s"
  using assms by (auto simp: wp_def split: prod.splits outcome.splits)

lemma wp_seqI:
  assumes "wp p (\<lambda>_. I) E s" and "\<And>s'. I s' \<Longrightarrow> wp q Q E s'"
  shows "wp (seq p q) Q E s"
  unfolding wp_seq by (rule wp_mono[OF assms(1)]) (simp_all add: assms(2))

lemma wp_bindI:
  assumes "wp p (\<lambda>_. I) E s" and "\<And>a s'. I s' \<Longrightarrow> wp (f a) Q E s'"
  shows "wp (bind p f) Q E s"
  unfolding wp_bind by (rule wp_mono[OF assms(1)]) (simp_all add: assms(2))

lemma wp_for_each:
  assumes "\<And>x s. x \<in> set xs \<Longrightarrow> I s \<Longrightarrow> wp (f x) (\<lambda>_. I) E s" and "I s"
  shows "wp (for_each f xs) (\<lambda>_. I) E s"
  using assms
proof (induction xs arbitrary: s)
  case (Cons x xs)
  have step: "wp (f x) (\<lambda>_. I) E s" using Cons.prems by simp
  have rest: "wp (for_each f xs) (\<lambda>_. I) E s'" if "I s'" for s'
    using that Cons.IH Cons.prems(1) by simp
  show ?case
    unfolding for_each.simps wp_seq by (rule wp_mono[OF step]) (simp_all add: rest)
qed (simp add: wp_ret)

lemma wp_for_each_upt:
  assumes "\<And>k s. k < n \<Longrightarrow> I k s \<Longrightarrow> wp (f k) (\<lambda>_. I (Suc k)) E s" and "I m s" and "m \<le> n"
  shows "wp (for_each f [m..<n]) (\<lambda>_. I n) E s"
  using assms(2,3)
proof (induction "n - m" arbitrary: m s)
  case 0
  then show ?case by (simp add: wp_ret)
next
  case (Suc d)
  then have m: "m < n" by simp
  have step: "wp (f m) (\<lambda>_. I (Suc m)) E s" using assms(1)[OF m] Suc.prems(1) .
  have rest: "wp (for_each f [Suc m..<n]) (\<lambda>_. I n) E s'" if "I (Suc m) s'" for s'
    using Suc.hyps(1)[of "Suc m" s'] Suc.hyps(2) m that by simp
  show ?case
    unfolding upt_conv_Cons[OF m] for_each.simps wp_seq
    by (rule wp_mono[OF step]) (simp_all add: rest)
qed

lemma wp_Ret: "wp p Q E s \<Longrightarrow> p s = (Ret a, s') \<Longrightarrow> Q a s'"
  by (simp add: wp_def)

lemma wp_no_Fault: "wp p Q E s \<Longrightarrow> fst (p s) \<noteq> Fault"
  by (auto simp: wp_def split: prod.splits)

lemma wp_Ret_result: "wp p Q (\<lambda>_. False) s \<Longrightarrow> \<exists>a s'. p s = (Ret a, s') \<and> Q a s'"
  by (auto simp: wp_def split: prod.splits outcome.splits)

lemma wp_Bye_result: "wp p (\<lambda>_ _. False) E s \<Longrightarrow> \<exists>s'. p s = (Bye, s') \<and> E s'"
  by (auto simp: wp_def split: prod.splits outcome.splits)

lemma wp_frame: "wp p (\<lambda>_. I) I s \<Longrightarrow> I (snd (p s))"
  by (auto simp: wp_def split: prod.splits outcome.splits)

subsection \<open>Programs that do not fault and keep an invariant\<close>

definition preserves :: "('s \<Rightarrow> bool) \<Rightarrow> ('s, 'a) prog \<Rightarrow> bool" where
  "preserves I p \<longleftrightarrow> (\<forall>s. I s \<longrightarrow> wp p (\<lambda>_. I) I s)"

lemma preservesD: "preserves I p \<Longrightarrow> I s \<Longrightarrow> wp p (\<lambda>_. I) I s"
  by (simp add: preserves_def)

lemma preservesI: "(\<And>s. I s \<Longrightarrow> wp p (\<lambda>_. I) I s) \<Longrightarrow> preserves I p"
  by (simp add: preserves_def)

lemma preserves_bind:
  assumes "preserves I p" and "\<And>a. preserves I (f a)"
  shows "preserves I (bind p f)"
proof (rule preservesI)
  fix s assume "I s"
  then have step: "wp p (\<lambda>_. I) I s" by (rule preservesD[OF assms(1)])
  show "wp (bind p f) (\<lambda>_. I) I s"
    unfolding wp_bind by (rule wp_mono[OF step]) (simp_all add: preservesD[OF assms(2)])
qed

subsection \<open>Bounded scans\<close>

text \<open>\<open>find_from P lo hi\<close> is the loop \<open>for ( i = lo; i < hi; i++ ) { if ( P i ) { r = i; break; } }\<close>.\<close>

function find_from :: "(nat \<Rightarrow> bool) \<Rightarrow> nat \<Rightarrow> nat \<Rightarrow> nat option" where
  "find_from P lo hi =
     (if lo < hi then (if P lo then Some lo else find_from P (Suc lo) hi) else None)"
  by auto
termination by (relation "measure (\<lambda>(P, lo, hi). hi - lo)") auto

declare find_from.simps [simp del]

lemma find_from_Some:
  "find_from P lo hi = Some i \<Longrightarrow> lo \<le> i \<and> i < hi \<and> P i \<and> (\<forall>j. lo \<le> j \<and> j < i \<longrightarrow> \<not> P j)"
proof (induction P lo hi rule: find_from.induct)
  case (1 P lo hi)
  then show ?case
    by (subst (asm) (2) find_from.simps) (auto split: if_splits simp: Suc_le_eq not_less_eq_eq
        dest: le_neq_implies_less)
qed

lemma find_from_None: "find_from P lo hi = None \<longleftrightarrow> (\<forall>i. lo \<le> i \<and> i < hi \<longrightarrow> \<not> P i)"
proof (induction P lo hi rule: find_from.induct)
  case (1 P lo hi)
  then show ?case
    by (subst find_from.simps) (auto simp: Suc_le_eq dest: le_neq_implies_less)
qed

lemma find_from_cong:
  "(\<And>i. lo \<le> i \<Longrightarrow> i < hi \<Longrightarrow> P i = Q i) \<Longrightarrow> find_from P lo hi = find_from Q lo hi"
proof (induction P lo hi rule: find_from.induct)
  case (1 P lo hi)
  then show ?case
    by (subst (1 2) find_from.simps) auto
qed

text \<open>The two loops by which a look-up starts at a hashed position and wraps around.\<close>

definition circ_find :: "(nat \<Rightarrow> bool) \<Rightarrow> nat \<Rightarrow> nat \<Rightarrow> nat option" where
  "circ_find P start n =
     (case find_from P start n of Some i \<Rightarrow> Some i | None \<Rightarrow> find_from P 0 start)"

lemma circ_find_Some:
  assumes "circ_find P start n = Some i" and "start \<le> n"
  shows "i < n \<and> P i"
  using assms find_from_Some[of P start n i] find_from_Some[of P 0 start i]
  by (auto simp: circ_find_def split: option.splits)

lemma circ_find_None:
  assumes "start \<le> n"
  shows "circ_find P start n = None \<longleftrightarrow> (\<forall>i < n. \<not> P i)"
proof
  assume *: "circ_find P start n = None"
  then have "find_from P start n = None" "find_from P 0 start = None"
    by (auto simp: circ_find_def split: option.splits)
  then show "\<forall>i < n. \<not> P i"
    using find_from_None by (metis le0 not_less)
next
  assume "\<forall>i < n. \<not> P i"
  then have "find_from P start n = None" "find_from P 0 start = None"
    using assms by (auto simp: find_from_None)
  then show "circ_find P start n = None"
    by (simp add: circ_find_def)
qed

lemma circ_find_unique:
  assumes "start \<le> n" and "i < n" and "P i" and "\<And>j. j < n \<Longrightarrow> P j \<Longrightarrow> j = i"
  shows "circ_find P start n = Some i"
proof (cases "circ_find P start n")
  case None
  then show ?thesis using circ_find_None[OF assms(1)] assms(2,3) by blast
next
  case (Some j)
  then show ?thesis using circ_find_Some[OF Some assms(1)] assms(4) by simp
qed

subsection \<open>C integers used as identifiers\<close>

abbreviation INT_MIN :: int where "INT_MIN \<equiv> - 2147483648"
abbreviation INT_MAX :: int where "INT_MAX \<equiv> 2147483647"
abbreviation LLONG_MIN :: int where "LLONG_MIN \<equiv> - 9223372036854775808"
abbreviation LLONG_MAX :: int where "LLONG_MAX \<equiv> 9223372036854775807"

text \<open>Conversion of a wider value to \<open>int\<close>: two's complement truncation.\<close>

definition to_int32 :: "int \<Rightarrow> int" where
  "to_int32 x = (x + 2147483648) mod 4294967296 - 2147483648"

lemma to_int32_id: "INT_MIN \<le> x \<Longrightarrow> x \<le> INT_MAX \<Longrightarrow> to_int32 x = x"
  by (simp add: to_int32_def)

lemma to_int32_range: "INT_MIN \<le> to_int32 x \<and> to_int32 x \<le> INT_MAX"
  unfolding to_int32_def
  using pos_mod_sign[of 4294967296 "x + 2147483648"] pos_mod_bound[of 4294967296 "x + 2147483648"]
  by linarith

text \<open>C division truncates towards zero.\<close>

definition c_div :: "int \<Rightarrow> int \<Rightarrow> int" where
  "c_div a b = (if (a < 0) = (b < 0) then \<bar>a\<bar> div \<bar>b\<bar> else - (\<bar>a\<bar> div \<bar>b\<bar>))"

lemma c_div_pos [simp]: "0 \<le> a \<Longrightarrow> 0 < b \<Longrightarrow> c_div a b = a div b"
  by (simp add: c_div_def)

text \<open>\<open>chk_range(i, 0, n)\<close> and the side condition of \<open>xs[i]\<close>.\<close>

definition in_range :: "int \<Rightarrow> 'a list \<Rightarrow> bool" where
  "in_range i xs \<longleftrightarrow> 0 \<le> i \<and> i < int (length xs)"

lemma list_update_again: "i \<noteq> k \<Longrightarrow> xs[k := a, i := b, k := c] = xs[i := b, k := c]"
  by (metis list_update_overwrite list_update_swap)

lemma nth_update_if: "j < length xs \<Longrightarrow> xs[i := x] ! j = (if i = j then x else xs ! j)"
  by (auto simp: nth_list_update)

lemma in_range_nat: "in_range i xs \<longleftrightarrow> 0 \<le> i \<and> nat i < length xs"
  by (auto simp: in_range_def)

lemma in_range_update [simp]: "in_range i (xs[j := x]) = in_range i xs"
  by (simp add: in_range_def)

end
