(* ===== verification/Q_CString.thy ===== *)
theory Q_CString
  imports Q_Prelude
begin

text \<open>
  C strings and the string helpers of the program: what the sources use of
  \<open>ctype.h\<close>, \<open>strtoll\<close>, \<open>strstr\<close>, \<open>strsep\<close> and \<open>sprintf("%d")\<close>, and the functions of
  \<open>dir_utils/auxil.c\<close> and \<open>dir_utils/extract_S.c\<close> built on them.  A C string is a list of
  characters without a terminating zero; a pointer that the code compares with \<open>NULL\<close>
  is a \<open>string option\<close>.  An output buffer of a C function is returned as a string.
\<close>

subsection \<open>The C library\<close>

definition code :: "char \<Rightarrow> nat" where
  "code c = of_char c"

definition isdigit :: "char \<Rightarrow> bool" where
  "isdigit c \<longleftrightarrow> 48 \<le> code c \<and> code c \<le> 57"

definition isspace :: "char \<Rightarrow> bool" where
  "isspace c \<longleftrightarrow> code c = 32 \<or> (9 \<le> code c \<and> code c \<le> 13)"

definition isalnum :: "char \<Rightarrow> bool" where
  "isalnum c \<longleftrightarrow> isdigit c \<or> (65 \<le> code c \<and> code c \<le> 90) \<or> (97 \<le> code c \<and> code c \<le> 122)"

definition digit_char :: "nat \<Rightarrow> char" where
  "digit_char d = char_of (48 + d)"

definition digit_val :: "char \<Rightarrow> int" where
  "digit_val c = int (code c) - 48"

definition dec_val :: "string \<Rightarrow> int" where
  "dec_val ds = foldl (\<lambda>a c. a * 10 + digit_val c) 0 ds"

text \<open>\<open>strtoll(s, &endptr, 10)\<close>: the saturated value and the rest \<open>endptr\<close> points to.\<close>

definition strtoll :: "string \<Rightarrow> int \<times> string" where
  "strtoll s = (let t = dropWhile isspace s;
       neg = (t \<noteq> [] \<and> hd t = CHR ''-'');
       u = (if t \<noteq> [] \<and> (hd t = CHR ''-'' \<or> hd t = CHR ''+'') then tl t else t);
       ds = takeWhile isdigit u;
       v = (if neg then - dec_val ds else dec_val ds)
     in if ds = [] then (0, s)
        else (max LLONG_MIN (min LLONG_MAX v), dropWhile isdigit u))"

fun dec_nat :: "nat \<Rightarrow> string" where
  "dec_nat n = (if n < 10 then [digit_char n] else dec_nat (n div 10) @ [digit_char (n mod 10)])"

declare dec_nat.simps [simp del]

text \<open>\<open>sprintf(buf, "%d", i)\<close>.\<close>

definition dec_int :: "int \<Rightarrow> string" where
  "dec_int i = (if i < 0 then CHR ''-'' # dec_nat (nat (- i)) else dec_nat (nat i))"

text \<open>\<open>strncmp(s, p, strlen(p)) == 0\<close>.\<close>

definition starts_with :: "string \<Rightarrow> string \<Rightarrow> bool" where
  "starts_with p s \<longleftrightarrow> take (length p) s = p"

text \<open>\<open>strstr\<close>: the suffix of the haystack that starts at the first occurrence.\<close>

fun strstr :: "string \<Rightarrow> string \<Rightarrow> string option" where
  "strstr [] n = (if n = [] then Some [] else None)"
| "strstr (c # cs) n = (if starts_with n (c # cs) then Some (c # cs) else strstr cs n)"

text \<open>\<open>strsep\<close>: the token and the pointer left behind (\<open>None\<close> is \<open>NULL\<close>).\<close>

fun strsep :: "string \<Rightarrow> string \<Rightarrow> string \<times> string option" where
  "strsep delim [] = ([], None)"
| "strsep delim (c # cs) =
     (if c \<in> set delim then ([], Some cs)
      else (let (tok, rest) = strsep delim cs in (c # tok, rest)))"

subsection \<open>dir\_utils/auxil.c\<close>

definition stob :: "string option \<Rightarrow> bool option" where
  "stob X = (case X of None \<Rightarrow> None
     | Some s \<Rightarrow> if length s \<noteq> 1 then None
                 else if hd s = CHR ''0'' then Some False
                 else if hd s = CHR ''1'' then Some True
                 else None)"

definition stoi :: "string option \<Rightarrow> int option" where
  "stoi X = (case X of None \<Rightarrow> None
     | Some s \<Rightarrow> if s = [] then None else Some (to_int32 (fst (strtoll s))))"

text \<open>The first loop of \<open>read_nth_val\<close>: pass \<open>n\<close> delimiters.\<close>

fun skip_delims :: "char \<Rightarrow> nat \<Rightarrow> string \<Rightarrow> string option" where
  "skip_delims delim 0 s = Some s"
| "skip_delims delim (Suc n) [] = None"
| "skip_delims delim (Suc n) (c # cs) =
     (if c = delim then skip_delims delim n cs else skip_delims delim (Suc n) cs)"

definition read_nth_val :: "string \<Rightarrow> char \<Rightarrow> nat \<Rightarrow> nat \<Rightarrow> string option" where
  "read_nth_val in_str delim n len_out_str =
     (case skip_delims delim n in_str of
        None \<Rightarrow> None
      | Some rest \<Rightarrow>
          (let cptr = (if rest \<noteq> [] \<and> hd rest = delim then tl rest else rest);
               val = takeWhile (\<lambda>c. c \<noteq> delim) cptr
           in if length val > len_out_str then None else Some val))"

text \<open>The number of fields is counted with the fixed character \<open>':'\<close>, the cutting is
  done with \<open>delim\<close>.  For the empty string the outputs stay as the caller set them, here
  empty.\<close>

fun break_loop :: "string \<Rightarrow> nat \<Rightarrow> string option \<Rightarrow> string list option" where
  "break_loop delim 0 bak = Some []"
| "break_loop delim (Suc n) None = None"
| "break_loop delim (Suc n) (Some s) =
     (let (cptr, bak) = strsep delim s
      in if cptr = [] then None
         else (case break_loop delim n bak of None \<Rightarrow> None | Some Y \<Rightarrow> Some (cptr # Y)))"

definition break_str :: "string option \<Rightarrow> string \<Rightarrow> string list option" where
  "break_str X delim = (case X of None \<Rightarrow> None
     | Some s \<Rightarrow> if s = [] then Some []
                 else break_loop delim (Suc (length (filter (\<lambda>c. c = CHR '':'') s))) (Some s))"

text \<open>\<open>explode\<close> collects the current field character by character.\<close>

fun explode_loop :: "string \<Rightarrow> string \<Rightarrow> string list" where
  "explode_loop cur [] = [cur]"
| "explode_loop cur (c # cs) =
     (if c = CHR '':'' then cur # explode_loop [] cs else explode_loop (cur @ [c]) cs)"

definition explode :: "string \<Rightarrow> char \<Rightarrow> string list" where
  "explode in_X delim = explode_loop [] in_X"

definition extract_name_value ::
  "string option \<Rightarrow> string option \<Rightarrow> string option \<Rightarrow> string option option" where
  "extract_name_value in_str start stop = (case (in_str, start, stop) of
       (Some s, Some st, Some sp) \<Rightarrow>
         if st = [] \<or> sp = [] then None
         else (case strstr s st of
             None \<Rightarrow> Some None
           | Some cptr1 \<Rightarrow>
               (let cptr2 = drop (length st) cptr1
                in (case strstr cptr2 sp of
                      None \<Rightarrow> Some (Some cptr2)
                    | Some cptr3 \<Rightarrow>
                        if cptr3 = cptr2 then Some None
                        else Some (Some (take (length cptr2 - length cptr3) cptr2)))))
     | _ \<Rightarrow> None)"

text \<open>\<open>setup_for_bvec_unpack\<close>: number of blocks and block size (the buffer is an
  allocation of that size).\<close>

definition setup_for_bvec_unpack :: "int \<Rightarrow> (int \<times> int) option" where
  "setup_for_bvec_unpack n = (let sz = 8; block_size = 1048576 in
     if (block_size div sz) * sz \<noteq> block_size then None
     else (let num_blocks = to_int32 (c_div n block_size)
           in Some (if to_int32 (num_blocks * block_size) \<noteq> n then to_int32 (num_blocks + 1)
                    else num_blocks, block_size)))"

text \<open>Integer square root, for \<open>(int) sqrt((double) n)\<close> on 32-bit \<open>n\<close>, where the double
  computation is exact after truncation.\<close>

fun isqrt_loop :: "nat \<Rightarrow> nat \<Rightarrow> nat" where
  "isqrt_loop n 0 = 0"
| "isqrt_loop n (Suc r) = (if Suc r * Suc r \<le> n then Suc r else isqrt_loop n r)"

definition isqrt :: "nat \<Rightarrow> nat" where
  "isqrt n = isqrt_loop n n"

definition is_prime :: "nat \<Rightarrow> bool" where
  "is_prime n = (if n = 0 then False else if n \<le> 3 then True
     else find_from (\<lambda>j. n mod j = 0) 2 (isqrt n) = None)"

text \<open>\<open>strip_trailing_slash\<close>: the loop runs from the last character downwards.\<close>

fun strip_loop :: "nat \<Rightarrow> string \<Rightarrow> string" where
  "strip_loop 0 s = s"
| "strip_loop (Suc i) s = (if s ! i = CHR ''/'' then strip_loop i (take i s) else s)"

definition strip_trailing_slash :: "string option \<Rightarrow> int \<Rightarrow> string option" where
  "strip_trailing_slash in_str out_len = (case in_str of None \<Rightarrow> None
     | Some s \<Rightarrow>
         if out_len \<le> 0 then None
         else if int (length s) \<ge> out_len then None
         else (let r = strip_loop (length s) s in if r = [] then None else Some r))"

subsection \<open>dir\_utils/extract\_S.c\<close>

text \<open>The outcome holds \<open>None\<close> for \<open>is_null\<close> and \<open>Some\<close> of the output otherwise.\<close>

definition extract_S :: "string option \<Rightarrow> string \<Rightarrow> string \<Rightarrow> int \<Rightarrow> string option outcome" where
  "extract_S X start_str stop_str len_output = (case X of None \<Rightarrow> Ret None
     | Some x \<Rightarrow> (case strstr x start_str of None \<Rightarrow> Ret None
         | Some Y \<Rightarrow>
             (let Z = drop (length start_str) Y
              in (case strstr Z stop_str of None \<Rightarrow> Ret None
                  | Some W \<Rightarrow>
                      (let len = length Z - length W
                       in if int len \<ge> len_output - 1 then Bye
                          else Ret (Some (take len Z)))))))"

end
