(* ===== verification/Q_Types.thy ===== *)
theory Q_Types
  imports Q_CString
begin

text \<open>
  The meta data types of \<open>qtypes.h\<close> and the pure functions on them in
  \<open>dir_dbutils/aux_meta.c\<close> and \<open>dir_dbutils/dbauxil.c\<close>: blank records, the names of
  types and sort orders, sizes of column types, the legality of names, and the
  tables that translate operator names.
\<close>

subsection \<open>qtypes.h\<close>

record TBL_REC =
  nR :: int
  tbl_name :: string
  tbl_dispname :: string
  is_dict_tbl :: bool

datatype SORT_TYPE = unknown | ascending | descending | unsorted

datatype FLD_TYPE = xunknown | B | I1 | I2 | I4 | I8 | F4 | F8 | clob

datatype AUX_TYPE = undef | nn

record FLD_REC =
  tbl_id :: int
  ddir_id :: int
  is_external :: bool
  sort_type :: SORT_TYPE
  parent_id :: int
  nn_fld_id :: int
  fldtype :: FLD_TYPE
  auxtype :: AUX_TYPE
  fld_name :: string
  filename :: string
  fld_dispname :: string
  dict_tbl_id :: int
  alias_of_fld_id :: int
  cnt :: int

record META_KEY_VAL =
  mkey :: int
  mval :: int

abbreviation MAX_LEN_DIR_NAME :: nat where "MAX_LEN_DIR_NAME \<equiv> 511"
abbreviation MAX_LEN_FILE_NAME :: nat where "MAX_LEN_FILE_NAME \<equiv> 15"
abbreviation MAX_LEN_FLD_NAME :: nat where "MAX_LEN_FLD_NAME \<equiv> 31"
abbreviation MAX_LEN_FLD_DISP_NAME :: nat where "MAX_LEN_FLD_DISP_NAME \<equiv> 127"
abbreviation MAX_LEN_TBL_NAME :: nat where "MAX_LEN_TBL_NAME \<equiv> 31"
abbreviation MAX_LEN_TBL_DISP_NAME :: nat where "MAX_LEN_TBL_DISP_NAME \<equiv> 127"

subsection \<open>Blank records\<close>

definition zero_tbl_rec :: TBL_REC where
  "zero_tbl_rec = \<lparr>nR = 0, tbl_name = [], tbl_dispname = [], is_dict_tbl = False\<rparr>"

definition zero_fld_rec :: FLD_REC where
  "zero_fld_rec = \<lparr>tbl_id = -1, ddir_id = INT_MIN, is_external = False, sort_type = unknown,
     parent_id = -1, nn_fld_id = -1, fldtype = xunknown, auxtype = undef,
     fld_name = [], filename = [], fld_dispname = [],
     dict_tbl_id = INT_MIN, alias_of_fld_id = INT_MIN, cnt = LLONG_MIN\<rparr>"

lemma zero_fld_rec_simps [simp]:
  "tbl_id zero_fld_rec = -1" "parent_id zero_fld_rec = -1" "nn_fld_id zero_fld_rec = -1"
  "auxtype zero_fld_rec = undef" "fld_name zero_fld_rec = []" "filename zero_fld_rec = []"
  "ddir_id zero_fld_rec = INT_MIN" "is_external zero_fld_rec = False"
  "alias_of_fld_id zero_fld_rec = INT_MIN" "dict_tbl_id zero_fld_rec = INT_MIN"
  "fldtype zero_fld_rec = xunknown" "sort_type zero_fld_rec = unknown"
  "cnt zero_fld_rec = LLONG_MIN" "fld_dispname zero_fld_rec = []"
  by (simp_all add: zero_fld_rec_def)

lemma zero_tbl_rec_simps [simp]:
  "nR zero_tbl_rec = 0" "tbl_name zero_tbl_rec = []" "tbl_dispname zero_tbl_rec = []"
  "is_dict_tbl zero_tbl_rec = False"
  by (simp_all add: zero_tbl_rec_def)

text \<open>\<open>copy_fld_meta\<close> and \<open>copy_tbl_meta\<close> overwrite a record; the alias of the
  destination survives and its dictionary is dropped.\<close>

definition copy_fld_meta :: "FLD_REC \<Rightarrow> FLD_REC \<Rightarrow> FLD_REC" where
  "copy_fld_meta dst src = dst\<lparr>tbl_id := tbl_id src, ddir_id := ddir_id src,
     is_external := is_external src, sort_type := sort_type src,
     parent_id := parent_id src, nn_fld_id := nn_fld_id src, fldtype := fldtype src,
     auxtype := auxtype src, fld_name := fld_name src, filename := filename src,
     fld_dispname := fld_dispname src, dict_tbl_id := INT_MIN, cnt := cnt src\<rparr>"

definition copy_tbl_meta :: "TBL_REC \<Rightarrow> TBL_REC \<Rightarrow> TBL_REC" where
  "copy_tbl_meta dst src = dst\<lparr>nR := nR src, is_dict_tbl := is_dict_tbl src,
     tbl_name := tbl_name src, tbl_dispname := tbl_dispname src\<rparr>"

subsection \<open>Names of types\<close>

fun mk_str_sort_type :: "SORT_TYPE \<Rightarrow> string" where
  "mk_str_sort_type unknown = ''unknown''"
| "mk_str_sort_type unsorted = ''unsorted''"
| "mk_str_sort_type ascending = ''ascending''"
| "mk_str_sort_type descending = ''descending''"

fun mk_str_fldtype :: "FLD_TYPE \<Rightarrow> string option" where
  "mk_str_fldtype B = Some ''B''"
| "mk_str_fldtype I1 = Some ''I1''"
| "mk_str_fldtype I2 = Some ''I2''"
| "mk_str_fldtype I4 = Some ''I4''"
| "mk_str_fldtype F4 = Some ''F4''"
| "mk_str_fldtype I8 = Some ''I8''"
| "mk_str_fldtype F8 = Some ''F8''"
| "mk_str_fldtype clob = Some ''clob''"
| "mk_str_fldtype xunknown = None"

fun get_fld_sz :: "FLD_TYPE \<Rightarrow> int option" where
  "get_fld_sz B = None"
| "get_fld_sz I1 = Some 1"
| "get_fld_sz I2 = Some 2"
| "get_fld_sz I4 = Some 4"
| "get_fld_sz F4 = Some 4"
| "get_fld_sz I8 = Some 8"
| "get_fld_sz F8 = Some 8"
| "get_fld_sz clob = None"
| "get_fld_sz xunknown = None"

definition unstr_fldtype :: "string option \<Rightarrow> FLD_TYPE option" where
  "unstr_fldtype str = (case str of None \<Rightarrow> None
     | Some s \<Rightarrow>
         if s = ''B'' then Some B
         else if s = ''I1'' then Some I1
         else if s = ''I2'' then Some I2
         else if s = ''I4'' then Some I4
         else if s = ''F4'' then Some F4
         else if s = ''I8'' then Some I8
         else if s = ''F8'' then Some F8
         else if s = ''clob'' then Some clob
         else if s = ''str'' then Some I8
         else None)"

definition unstr_auxtype :: "string option \<Rightarrow> AUX_TYPE option" where
  "unstr_auxtype str = (case str of None \<Rightarrow> None
     | Some s \<Rightarrow> if s = ''nn'' then Some nn else if s = ''undef'' then Some undef else None)"

fun FLD_TYPE_code :: "FLD_TYPE \<Rightarrow> int" where
  "FLD_TYPE_code xunknown = 0" | "FLD_TYPE_code B = 1" | "FLD_TYPE_code I1 = 2"
| "FLD_TYPE_code I2 = 3" | "FLD_TYPE_code I4 = 4" | "FLD_TYPE_code I8 = 5"
| "FLD_TYPE_code F4 = 6" | "FLD_TYPE_code F8 = 7" | "FLD_TYPE_code clob = 8"

definition fld_meta_to_str :: "FLD_REC \<Rightarrow> string option \<Rightarrow> string option" where
  "fld_meta_to_str fld_meta buffer = (case buffer of None \<Rightarrow> None
     | Some buf \<Rightarrow> if buf \<noteq> [] then None
         else if filename fld_meta = [] then None
         else Some (''filename='' @ filename fld_meta @ '':fldtype='' @
                    dec_int (FLD_TYPE_code (fldtype fld_meta))))"

definition nl :: string where "nl = [char_of (10::nat)]"

definition line :: "string \<Rightarrow> string \<Rightarrow> string" where
  "line k v = k @ '','' @ v @ nl"

text \<open>\<open>pr_fld_meta\<close> prints the record; the value is the text on standard output and
  whether the status is zero (an unprintable type stops after the dictionary line).\<close>

definition pr_fld_meta :: "FLD_REC \<Rightarrow> string \<times> bool" where
  "pr_fld_meta X = (let
       dict = (if fldtype X = I4 \<and> dict_tbl_id X \<ge> 0 then dec_int (dict_tbl_id X) else ''-1'');
       head = line ''tbl_id'' (dec_int (tbl_id X)) @ line ''name'' (fld_name X) @
              line ''dispname'' (fld_dispname X) @ line ''filename'' (filename X) @
              line ''dict_tbl_id'' dict
     in if fldtype X \<in> {xunknown, B, clob} then (head, False)
        else (head @ line ''fldtype'' (the (mk_str_fldtype (fldtype X))) @
              line ''sort'' (mk_str_sort_type (sort_type X)) @
              line ''parent_id'' (dec_int (parent_id X)) @
              line ''nn_fld_id'' (dec_int (nn_fld_id X)) @
              line ''is_external'' (if is_external X then ''1'' else ''0''), True))"

subsection \<open>Legal names\<close>

definition name_char :: "char \<Rightarrow> bool" where
  "name_char c \<longleftrightarrow> isalnum c \<or> c = CHR ''_''"

definition chk_tbl_name :: "string option \<Rightarrow> bool" where
  "chk_tbl_name X = (case X of None \<Rightarrow> False
     | Some s \<Rightarrow> s \<noteq> [] \<and> length s \<le> MAX_LEN_TBL_NAME \<and> list_all name_char s)"

text \<open>\<open>is_aux\<close>: 0 for a primary field, 1 for an auxiliary field, anything else fails.\<close>

definition chk_fld_name :: "string option \<Rightarrow> int \<Rightarrow> bool" where
  "chk_fld_name in_X is_aux = (case in_X of None \<Rightarrow> False
     | Some s \<Rightarrow> s \<noteq> [] \<and> length s \<le> MAX_LEN_FLD_NAME \<and> list_all name_char s \<and>
         (if is_aux = 0 then True
          else if is_aux = 1 then starts_with ''_nn_'' s \<or> starts_with ''_sz_'' s
          else False))"

fun mk_name_aux_fld :: "string option \<Rightarrow> AUX_TYPE \<Rightarrow> string option" where
  "mk_name_aux_fld None _ = None"
| "mk_name_aux_fld (Some fld) nn =
     (if length fld + length ''_nn_'' > MAX_LEN_FLD_NAME then None
      else if chk_fld_name (Some (''_nn_'' @ fld)) 1 then Some (''_nn_'' @ fld) else None)"
| "mk_name_aux_fld (Some fld) undef = None"

subsection \<open>Operator names and small checks of dbauxil.c\<close>

definition mk_mjoin_op :: "string option \<Rightarrow> int option" where
  "mk_mjoin_op str = (case str of None \<Rightarrow> None
     | Some s \<Rightarrow>
         if s = ''sum'' then Some 100
         else if s = ''min'' then Some 200
         else if s = ''max'' then Some 300
         else if s = ''reg'' then Some 500
         else if s = ''or'' then Some 600
         else if s = ''and'' then Some 700
         else if s = ''cnt'' then Some 800
         else None)"

definition mk_iop :: "string option \<Rightarrow> int option" where
  "mk_iop str = (case str of None \<Rightarrow> None
     | Some s \<Rightarrow>
         if s = ''+'' then Some 100
         else if s = ''-'' then Some 200
         else if s = ''*'' then Some 300
         else if s = ''/'' then Some 400
         else if s = ''>'' then Some 500
         else if s = ''<'' then Some 600
         else if s = ''>='' then Some 700
         else if s = ''<='' then Some 800
         else if s = ''!='' then Some 900
         else if s = ''=='' then Some 1000
         else if s = ''&&'' then Some 201
         else if s = ''||'' then Some 101
         else None)"

definition mk_int_auxtype :: "string option \<Rightarrow> int option" where
  "mk_int_auxtype str = (case str of None \<Rightarrow> None
     | Some s \<Rightarrow> if s = [] then None
         else if s = ''nn'' then Some 1 else if s = ''sz'' then Some 2 else None)"

text \<open>\<open>pr_disp_name\<close> writes the display name with backslashes and quotes escaped.\<close>

fun pr_disp_name :: "string \<Rightarrow> string" where
  "pr_disp_name [] = []"
| "pr_disp_name (c # cs) =
     (if c = CHR 92 \<or> c = CHR 34 then [CHR 92, c] else [c]) @ pr_disp_name cs"

definition chk_aux_info :: "string \<Rightarrow> bool" where
  "chk_aux_info aux_info = (let
       cnt_open_sq_bracket = length (filter (\<lambda>c. c = CHR ''['') aux_info);
       cnt_close_sq_bracket = length (filter (\<lambda>c. c = CHR '']'') aux_info)
     in \<not> (cnt_open_sq_bracket = 0 \<or> cnt_open_sq_bracket \<noteq> cnt_close_sq_bracket))"

text \<open>\<open>mk_offset\<close>: running offsets of variable length entries; without entries the code still
  writes \<open>offset[0]\<close>.\<close>

fun offset_loop :: "int \<Rightarrow> int list \<Rightarrow> int list" where
  "offset_loop acc [] = []"
| "offset_loop acc (sz # szs) = acc # offset_loop (acc + sz) szs"

definition mk_offset :: "int list \<Rightarrow> int list outcome" where
  "mk_offset szptr = (if szptr = [] then Fault else Ret (offset_loop 0 szptr))"

definition get_file_size_B :: "int \<Rightarrow> int option" where
  "get_file_size_B n = (if n \<le> 0 then None else (let
       nbytes = n div 8;
       nbytes = (if nbytes * 8 \<noteq> n then nbytes + 1 else nbytes);
       nKB = nbytes div 1024;
       nKB = (if nKB * 1024 \<noteq> nbytes then nKB + 1 else nKB)
     in Some (nKB * 1024)))"

text \<open>\<open>partition\<close>: the block size and the number of chunks; \<open>num_chunks\<close> is an \<open>int\<close>.\<close>

definition partition_work :: "int \<Rightarrow> int \<Rightarrow> int \<Rightarrow> (int \<times> int) option" where
  "partition_work num_to_divide min_block_size max_num_chunks =
     (if num_to_divide \<le> 0 then None
      else if min_block_size \<le> 0 then None
      else (let
          num_chunks = to_int32 (num_to_divide div min_block_size);
          num_chunks = (if num_chunks = 0 then 1 else num_chunks);
          num_chunks = (if max_num_chunks > 0 \<and> num_chunks > max_num_chunks
                        then max_num_chunks else num_chunks);
          block_size = c_div num_to_divide num_chunks
        in if num_to_divide - block_size * num_chunks \<ge> block_size then None
           else if block_size * (num_chunks + 1) < num_to_divide then None
           else Some (block_size, num_chunks)))"

end
