(* ===== verification/Q_Hash.thy ===== *)
theory Q_Hash
  imports Q_Types
begin

text \<open>
  String hashing: \<open>dir_utils/md5c.c\<close>, \<open>dir_utils/mddriver.c\<close> (\<open>my_MDString\<close>),
  \<open>dir_utils/mix.c\<close> and \<open>dir_utils/hash_string.c\<close>.  The C code declares the 32-bit word
  type \<open>UINT4\<close> of MD5 as \<open>unsigned long int\<close>, which has 64 bits on the LP64 platforms the
  program is built for; the model keeps that width.
\<close>

unbundle bit_operations_syntax

subsection \<open>md5c.c\<close>

type_synonym UINT4 = "64 word"

record MD5_CTX =
  md_state :: "UINT4 list"
  md_count0 :: UINT4
  md_count1 :: UINT4
  md_buffer :: "byte list"

definition PADDING :: "byte list" where
  "PADDING = 0x80 # replicate 63 0"

definition md_F :: "UINT4 \<Rightarrow> UINT4 \<Rightarrow> UINT4 \<Rightarrow> UINT4" where
  "md_F x y z = (x AND y) OR (NOT x AND z)"

definition md_G :: "UINT4 \<Rightarrow> UINT4 \<Rightarrow> UINT4 \<Rightarrow> UINT4" where
  "md_G x y z = (x AND z) OR (y AND NOT z)"

definition md_H :: "UINT4 \<Rightarrow> UINT4 \<Rightarrow> UINT4 \<Rightarrow> UINT4" where
  "md_H x y z = x XOR y XOR z"

definition md_I :: "UINT4 \<Rightarrow> UINT4 \<Rightarrow> UINT4 \<Rightarrow> UINT4" where
  "md_I x y z = y XOR (x OR NOT z)"

definition ROTATE_LEFT :: "UINT4 \<Rightarrow> nat \<Rightarrow> UINT4" where
  "ROTATE_LEFT x n = push_bit n x OR drop_bit (32 - n) x"

text \<open>The body shared by the macros \<open>FF\<close>, \<open>GG\<close>, \<open>HH\<close> and \<open>II\<close>.\<close>

definition md_op ::
  "(UINT4 \<Rightarrow> UINT4 \<Rightarrow> UINT4 \<Rightarrow> UINT4) \<Rightarrow> UINT4 \<Rightarrow> UINT4 \<Rightarrow> UINT4 \<Rightarrow> UINT4 \<Rightarrow> UINT4 \<Rightarrow> nat \<Rightarrow> UINT4 \<Rightarrow> UINT4" where
  "md_op fn a b c d x s ac = (let a = a + (fn b c d + x + ac); a = ROTATE_LEFT a s in a + b)"

text \<open>Index into the block, shift and constant of the sixteen lines of each round, in
  the order of the code.\<close>

definition round1 :: "(nat \<times> nat \<times> UINT4) list" where
  "round1 = [
     (0, 7, 0xd76aa478), (1, 12, 0xe8c7b756), (2, 17, 0x242070db), (3, 22, 0xc1bdceee),
     (4, 7, 0xf57c0faf), (5, 12, 0x4787c62a), (6, 17, 0xa8304613), (7, 22, 0xfd469501),
     (8, 7, 0x698098d8), (9, 12, 0x8b44f7af), (10, 17, 0xffff5bb1), (11, 22, 0x895cd7be),
     (12, 7, 0x6b901122), (13, 12, 0xfd987193), (14, 17, 0xa679438e), (15, 22, 0x49b40821)]"

definition round2 :: "(nat \<times> nat \<times> UINT4) list" where
  "round2 = [
     (1, 5, 0xf61e2562), (6, 9, 0xc040b340), (11, 14, 0x265e5a51), (0, 20, 0xe9b6c7aa),
     (5, 5, 0xd62f105d), (10, 9, 0x2441453), (15, 14, 0xd8a1e681), (4, 20, 0xe7d3fbc8),
     (9, 5, 0x21e1cde6), (14, 9, 0xc33707d6), (3, 14, 0xf4d50d87), (8, 20, 0x455a14ed),
     (13, 5, 0xa9e3e905), (2, 9, 0xfcefa3f8), (7, 14, 0x676f02d9), (12, 20, 0x8d2a4c8a)]"

definition round3 :: "(nat \<times> nat \<times> UINT4) list" where
  "round3 = [
     (5, 4, 0xfffa3942), (8, 11, 0x8771f681), (11, 16, 0x6d9d6122), (14, 23, 0xfde5380c),
     (1, 4, 0xa4beea44), (4, 11, 0x4bdecfa9), (7, 16, 0xf6bb4b60), (10, 23, 0xbebfbc70),
     (13, 4, 0x289b7ec6), (0, 11, 0xeaa127fa), (3, 16, 0xd4ef3085), (6, 23, 0x4881d05),
     (9, 4, 0xd9d4d039), (12, 11, 0xe6db99e5), (15, 16, 0x1fa27cf8), (2, 23, 0xc4ac5665)]"

definition round4 :: "(nat \<times> nat \<times> UINT4) list" where
  "round4 = [
     (0, 6, 0xf4292244), (7, 10, 0x432aff97), (14, 15, 0xab9423a7), (5, 21, 0xfc93a039),
     (12, 6, 0x655b59c3), (3, 10, 0x8f0ccc92), (10, 15, 0xffeff47d), (1, 21, 0x85845dd1),
     (8, 6, 0x6fa87e4f), (15, 10, 0xfe2ce6e0), (6, 15, 0xa3014314), (13, 21, 0x4e0811a1),
     (4, 6, 0xf7537e82), (11, 10, 0xbd3af235), (2, 15, 0x2ad7d2bb), (9, 21, 0xeb86d391)]"

text \<open>Line \<open>i\<close> of a round assigns to \<open>a\<close>, \<open>d\<close>, \<open>c\<close>, \<open>b\<close> in turn: the roles of the four
  variables move by one place after each line.\<close>

fun md_round ::
  "(UINT4 \<Rightarrow> UINT4 \<Rightarrow> UINT4 \<Rightarrow> UINT4) \<Rightarrow> UINT4 list \<Rightarrow> (nat \<times> nat \<times> UINT4) list \<Rightarrow>
     UINT4 \<times> UINT4 \<times> UINT4 \<times> UINT4 \<Rightarrow> UINT4 \<times> UINT4 \<times> UINT4 \<times> UINT4" where
  "md_round fn x [] (a, b, c, d) = (a, b, c, d)"
| "md_round fn x ((k, s, ac) # ls) (a, b, c, d) =
     (let a = md_op fn a b c d (x ! k) s ac in md_round fn x ls (d, a, b, c))"

definition Encode_word :: "UINT4 \<Rightarrow> byte list" where
  "Encode_word w = [ucast (w AND 0xff), ucast (drop_bit 8 w AND 0xff),
     ucast (drop_bit 16 w AND 0xff), ucast (drop_bit 24 w AND 0xff)]"

definition Encode :: "UINT4 list \<Rightarrow> byte list" where
  "Encode input = concat (map Encode_word input)"

fun Decode :: "byte list \<Rightarrow> UINT4 list" where
  "Decode (p # q # r # s # rest) =
     (ucast p OR push_bit 8 (ucast q) OR push_bit 16 (ucast r) OR push_bit 24 (ucast s)) # Decode rest"
| "Decode _ = []"

definition MD5Transform :: "UINT4 list \<Rightarrow> byte list \<Rightarrow> UINT4 list" where
  "MD5Transform state block = (let
       x = Decode block;
       r0 = (state ! 0, state ! 1, state ! 2, state ! 3);
       r1 = md_round md_F x round1 r0;
       r2 = md_round md_G x round2 r1;
       r3 = md_round md_H x round3 r2;
       (a, b, c, d) = md_round md_I x round4 r3
     in [state ! 0 + a, state ! 1 + b, state ! 2 + c, state ! 3 + d])"

definition MD5Init :: "MD5_CTX \<Rightarrow> MD5_CTX" where
  "MD5Init ctx = ctx\<lparr>md_count0 := 0, md_count1 := 0,
     md_state := [0x67452301, 0xefcdab89, 0x98badcfe, 0x10325476]\<rparr>"

text \<open>\<open>MD5_memcpy\<close> into the buffer at an index.\<close>

definition MD5_memcpy :: "byte list \<Rightarrow> nat \<Rightarrow> byte list \<Rightarrow> byte list" where
  "MD5_memcpy output index input =
     take index output @ input @ drop (index + length input) output"

text \<open>The loop \<open>for (i = partLen; i + 63 < inputLen; i += 64)\<close>, on the input from \<open>i\<close> on:
  the new state and what is left.\<close>

fun md_blocks :: "UINT4 list \<Rightarrow> byte list \<Rightarrow> UINT4 list \<times> byte list" where
  "md_blocks st input =
     (if 63 < length input then md_blocks (MD5Transform st (take 64 input)) (drop 64 input)
      else (st, input))"

declare md_blocks.simps [simp del]

definition MD5Update :: "MD5_CTX \<Rightarrow> byte list \<Rightarrow> MD5_CTX" where
  "MD5Update ctx input = (let
       inputLen = of_nat (length input) :: 32 word;
       index = unat (drop_bit 3 (md_count0 ctx) AND 0x3F);
       bits = push_bit 3 (ucast inputLen) :: UINT4;
       count0 = md_count0 ctx + bits;
       count1 = (if count0 < bits then md_count1 ctx + 1 else md_count1 ctx)
                + drop_bit 29 (ucast inputLen);
       partLen = 64 - index
     in if partLen \<le> length input then
          (let buf = MD5_memcpy (md_buffer ctx) index (take partLen input);
               (st, rest) = md_blocks (MD5Transform (md_state ctx) buf) (drop partLen input)
           in ctx\<lparr>md_state := st, md_count0 := count0, md_count1 := count1,
                  md_buffer := MD5_memcpy buf 0 rest\<rparr>)
        else ctx\<lparr>md_count0 := count0, md_count1 := count1,
                 md_buffer := MD5_memcpy (md_buffer ctx) index input\<rparr>)"

text \<open>\<open>MD5Final\<close>: the digest (the context is then erased).\<close>

definition MD5Final :: "MD5_CTX \<Rightarrow> byte list" where
  "MD5Final ctx = (let
       bits = Encode [md_count0 ctx, md_count1 ctx];
       index = unat (drop_bit 3 (md_count0 ctx) AND 0x3f);
       padLen = (if index < 56 then 56 - index else 120 - index);
       ctx1 = MD5Update ctx (take padLen PADDING);
       ctx2 = MD5Update ctx1 bits
     in Encode (md_state ctx2))"

subsection \<open>mddriver.c\<close>

definition hex_digit :: "byte \<Rightarrow> byte" where
  "hex_digit n = (if n < 10 then 48 + n else 87 + n)"

text \<open>\<open>my_MDPrint\<close>: two hexadecimal digits per byte.\<close>

definition my_MDPrint :: "byte list \<Rightarrow> byte list" where
  "my_MDPrint digest = concat (map (\<lambda>b. [hex_digit (drop_bit 4 b), hex_digit (b AND 0xf)]) digest)"

definition string_bytes :: "string \<Rightarrow> byte list" where
  "string_bytes s = map of_char s"

text \<open>The context lives on the stack: its buffer is whatever the stack held, here \<open>junk\<close>.\<close>

definition my_MDString :: "byte list \<Rightarrow> string \<Rightarrow> byte list" where
  "my_MDString junk in_string = my_MDPrint (MD5Final (MD5Update
     (MD5Init \<lparr>md_state = [], md_count0 = 0, md_count1 = 0, md_buffer = junk\<rparr>)
     (string_bytes in_string)))"

subsection \<open>mix.c\<close>

definition mix_I4 :: "32 word \<Rightarrow> 32 word" where
  "mix_I4 a = (let
       a = (a + 0x7ed55d16) + push_bit 12 a;
       a = (a XOR 0xc761c23c) XOR drop_bit 19 a;
       a = (a + 0x165667b1) + push_bit 5 a;
       a = (a + 0xd3a2646c) XOR push_bit 9 a;
       a = (a + 0xfd7046c5) + push_bit 3 a;
       a = (a XOR 0xb55a4f09) XOR drop_bit 16 a
     in a)"

definition mix_I8 :: "64 word \<Rightarrow> 32 word" where
  "mix_I8 a = (let
       i1 = ucast (drop_bit 32 a);
       i2 = ucast (drop_bit 32 (push_bit 32 a))
     in mix_I4 i1 XOR mix_I4 i2)"

subsection \<open>hash\_string.c\<close>

text \<open>The inner loop packs up to eight characters (sign extended, as \<open>char\<close> is signed)
  into one word and stops at the terminating zero.\<close>

fun pack8 :: "nat \<Rightarrow> byte list \<Rightarrow> 64 word \<Rightarrow> 64 word \<times> byte list" where
  "pack8 j [] acc = (acc, [])"
| "pack8 j (c # cs) acc =
     (if j < 8 then pack8 (Suc j) cs (acc OR push_bit (j * 8) (scast c)) else (acc, c # cs))"

fun fill_ull :: "nat \<Rightarrow> byte list \<Rightarrow> 64 word list" where
  "fill_ull 0 cptr = []"
| "fill_ull (Suc n) cptr = (let (u, cptr') = pack8 0 cptr 0 in u # fill_ull n cptr')"

fun fold_ull :: "64 word \<Rightarrow> 64 word list \<Rightarrow> 64 word" where
  "fold_ull acc [] = acc"
| "fold_ull acc (u # us) = (if u = 0 then acc else fold_ull (acc XOR ucast (mix_I8 u)) us)"

definition int_hash_string :: "string option \<Rightarrow> (64 word) option" where
  "int_hash_string original = (case original of None \<Rightarrow> None
     | Some s \<Rightarrow> if s = [] then Some 0
         else (let ull = fill_ull 16 (my_MDString (replicate 64 0) s)
               in Some (fold_ull (hd ull) (tl ull))))"

definition hash_string_UI4 :: "string option \<Rightarrow> (32 word) option" where
  "hash_string_UI4 str = map_option (\<lambda>u. ucast (u AND 0xFFFFFFFF)) (int_hash_string str)"

definition hash_string_UI8 :: "string option \<Rightarrow> (64 word) option" where
  "hash_string_UI8 str = int_hash_string str"

text \<open>\<open>ext_hash_string\<close> prints the hash and the string.\<close>

definition ext_hash_string :: "string option \<Rightarrow> string \<Rightarrow> string option" where
  "ext_hash_string in_string hashtype =
     (if hashtype = ''I4'' then
        (case hash_string_UI4 in_string of None \<Rightarrow> None
         | Some u \<Rightarrow> Some (dec_int (uint u) @ '','' @ the in_string @ '' '' @ nl))
      else if hashtype = ''I8'' then
        (case int_hash_string in_string of None \<Rightarrow> None
         | Some u \<Rightarrow> Some (dec_int (sint u) @ '','' @ the in_string @ '' '' @ nl))
      else None)"

lemma hash_string_UI4_Some: "\<exists>h. hash_string_UI4 (Some s) = Some h"
  by (simp add: hash_string_UI4_def int_hash_string_def Let_def)

end
