(* ===== verification/Q_Store.thy ===== *)
theory Q_Store
  imports Q_Hash
begin

text \<open>
  The state of the program and its storage layer: the memory mapped meta data
  (\<open>meta_globals.h\<close>), the directory variables of \<open>q.c\<close>, the files of the data directories,
  and the functions that reach a column's file by changing into its directory
  (\<open>dir_utils/mmap.c\<close>, \<open>dir_dbutils/dbauxil.c\<close>, \<open>mk_file.c\<close>, \<open>open_temp_file.c\<close>,
  \<open>mk_temp_file.c\<close>).

  The file system is a partial function from absolute paths to bytes.  A relative
  name is resolved against the working directory of the process by appending it;
  symbolic links, \<open>..\<close> and file permissions are not modelled.  \<open>env_dirs\<close> tells which
  directories exist, \<open>env_free\<close> and \<open>env_avail\<close> are the answers of \<open>statvfs\<close>, and
  \<open>env_tmp\<close> lists the suffixes \<open>mkstemp\<close> will try; \<open>env_usec\<close> is the clock \<open>gettimeofday\<close> reads.
\<close>

subsection \<open>State\<close>

record q_state =
  g_tbls :: "TBL_REC list"
  g_ht_tbl :: "META_KEY_VAL list"
  g_flds :: "FLD_REC list"
  g_ht_fld :: "META_KEY_VAL list"
  g_ddirs :: "string list"
  g_data_dir :: "string"
  g_cwd :: string
  g_alt_ddir_id :: int
  p_cwd :: string
  files :: "string \<Rightarrow> byte list option"
  env_dirs :: "string \<Rightarrow> bool"
  env_free :: "string \<Rightarrow> nat option"
  env_avail :: "string \<Rightarrow> nat option"
  env_tmp :: "string list"
  env_usec :: nat

type_synonym 'a q_prog = "(q_state, 'a) prog"

definition fld_at :: "int \<Rightarrow> FLD_REC q_prog" where
  "fld_at i = (\<lambda>s. if in_range i (g_flds s) then (Ret (g_flds s ! nat i), s) else (Fault, s))"

definition tbl_at :: "int \<Rightarrow> TBL_REC q_prog" where
  "tbl_at i = (\<lambda>s. if in_range i (g_tbls s) then (Ret (g_tbls s ! nat i), s) else (Fault, s))"

definition set_fld :: "int \<Rightarrow> (FLD_REC \<Rightarrow> FLD_REC) \<Rightarrow> unit q_prog" where
  "set_fld i f = (\<lambda>s. if in_range i (g_flds s)
     then (Ret (), s\<lparr>g_flds := (g_flds s)[nat i := f (g_flds s ! nat i)]\<rparr>) else (Fault, s))"

definition set_tbl :: "int \<Rightarrow> (TBL_REC \<Rightarrow> TBL_REC) \<Rightarrow> unit q_prog" where
  "set_tbl i f = (\<lambda>s. if in_range i (g_tbls s)
     then (Ret (), s\<lparr>g_tbls := (g_tbls s)[nat i := f (g_tbls s ! nat i)]\<rparr>) else (Fault, s))"

definition ddir_at :: "int \<Rightarrow> string q_prog" where
  "ddir_at i = (\<lambda>s. if in_range i (g_ddirs s) then (Ret (g_ddirs s ! nat i), s) else (Fault, s))"

definition chk_tbl_range :: "int \<Rightarrow> unit q_prog" where
  "chk_tbl_range i = bind (gets g_tbls) (\<lambda>ts. guard (in_range i ts))"

definition chk_fld_range :: "int \<Rightarrow> unit q_prog" where
  "chk_fld_range i = bind (gets g_flds) (\<lambda>fs. guard (in_range i fs))"

text \<open>\<open>if ( ( x == NULL ) || ( *x == '\0' ) ) { go_BYE(-1); }\<close>\<close>

definition arg_given :: "string option \<Rightarrow> string q_prog" where
  "arg_given x = (case x of None \<Rightarrow> bye | Some s \<Rightarrow> if s = [] then bye else ret s)"

lemma wp_accessors [wp_simps]:
  "wp (fld_at i) Q E s = (in_range i (g_flds s) \<and> Q (g_flds s ! nat i) s)"
  "wp (tbl_at i) Q' E s = (in_range i (g_tbls s) \<and> Q' (g_tbls s ! nat i) s)"
  "wp (ddir_at i) Q'' E s = (in_range i (g_ddirs s) \<and> Q'' (g_ddirs s ! nat i) s)"
  "wp (set_fld i f) R E s = (in_range i (g_flds s) \<and>
     R () (s\<lparr>g_flds := (g_flds s)[nat i := f (g_flds s ! nat i)]\<rparr>))"
  "wp (set_tbl i g) R E s = (in_range i (g_tbls s) \<and>
     R () (s\<lparr>g_tbls := (g_tbls s)[nat i := g (g_tbls s ! nat i)]\<rparr>))"
  "wp (chk_tbl_range i) R E s = (if in_range i (g_tbls s) then R () s else E s)"
  "wp (chk_fld_range i) R E s = (if in_range i (g_flds s) then R () s else E s)"
  by (simp_all add: wp_def fld_at_def tbl_at_def ddir_at_def set_fld_def set_tbl_def
      chk_tbl_range_def chk_fld_range_def prog_defs)

lemma wp_arg_given [wp_simps]:
  "wp (arg_given x) Q E s = (case x of None \<Rightarrow> E s | Some v \<Rightarrow> if v = [] then E s else Q v s)"
  by (simp add: arg_given_def wp_simps split: option.splits)

subsection \<open>Files and directories\<close>

definition resolve :: "string \<Rightarrow> string \<Rightarrow> string" where
  "resolve dir f = (if f \<noteq> [] \<and> hd f = CHR ''/'' then f else dir @ ''/'' @ f)"

text \<open>\<open>chdir\<close>: its status; the working directory moves only when the directory exists.\<close>

definition chdir :: "string \<Rightarrow> bool q_prog" where
  "chdir d = (\<lambda>s. if env_dirs s (resolve (p_cwd s) d)
     then (Ret True, s\<lparr>p_cwd := resolve (p_cwd s) d\<rparr>) else (Ret False, s))"

definition chdir_ignored :: "string \<Rightarrow> unit q_prog" where
  "chdir_ignored d = bind (chdir d) (\<lambda>_. ret ())"

definition unlink :: "string \<Rightarrow> unit q_prog" where
  "unlink f = modify (\<lambda>s. s\<lparr>files := (files s)(resolve (p_cwd s) f := None)\<rparr>)"

text \<open>\<open>rs_mmap\<close>: the path that is mapped and its bytes (an empty file maps to \<open>NULL\<close>
  and size 0).  A writable map is written through with \<open>write_map\<close>.\<close>

definition rs_mmap :: "string \<Rightarrow> bool \<Rightarrow> (string \<times> byte list) q_prog" where
  "rs_mmap file_name is_write = (\<lambda>s.
     case files s (resolve (p_cwd s) file_name) of
       None \<Rightarrow> (Bye, s) | Some bs \<Rightarrow> (Ret (resolve (p_cwd s) file_name, bs), s))"

definition write_map :: "string \<Rightarrow> byte list \<Rightarrow> unit q_prog" where
  "write_map path bs = modify (\<lambda>s. s\<lparr>files := (files s)(path := Some bs)\<rparr>)"

text \<open>The size check of \<open>chk_file_size\<close> compares a \<open>size_t\<close> with a \<open>long long\<close>: both are
  taken modulo \<open>2 ^ 64\<close>.  For a bit column the status of \<open>get_file_size_B\<close> is not
  looked at and \<open>filesz\<close> keeps its initial value \<open>-1\<close>; for the other types \<open>fldsz\<close>
  does.\<close>

definition size_t :: "int \<Rightarrow> int" where
  "size_t x = x mod 18446744073709551616"

definition chk_file_size :: "string \<Rightarrow> int \<Rightarrow> FLD_TYPE \<Rightarrow> unit q_prog" where
  "chk_file_size fname n ft = (if ft = clob then ret () else
     bind (rs_mmap fname False) (\<lambda>(p, X).
     seq (guard (X \<noteq> []))
      (if ft = B then
         (case get_file_size_B n of
            Some filesz \<Rightarrow> guard (size_t (int (length X)) = size_t filesz)
          | None \<Rightarrow> seq (guard (size_t (int (length X)) = size_t (-1))) bye)
       else
         (case get_fld_sz ft of
            Some fldsz \<Rightarrow> guard (size_t (fldsz * n) = size_t (int (length X)))
          | None \<Rightarrow> seq (guard (size_t (- n) = size_t (int (length X)))) bye))))"

text \<open>Enter the directory of a column: the data directory for a negative id, an
  alternative data directory otherwise.\<close>

definition enter_ddir :: "int \<Rightarrow> unit q_prog" where
  "enter_ddir d = (if d < 0 then bind (gets g_data_dir) chdir_ignored
     else bind (ddir_at d) (\<lambda>alt_data_dir.
       seq (guard (alt_data_dir \<noteq> [])) (chdir_ignored alt_data_dir)))"

definition leave_ddir :: "unit q_prog" where
  "leave_ddir = bind (gets g_cwd) chdir_ignored"

definition get_data :: "FLD_REC \<Rightarrow> bool \<Rightarrow> (string \<times> byte list) q_prog" where
  "get_data fld_rec is_write =
     seq (guard (filename fld_rec \<noteq> []))
    (seq (if ddir_id fld_rec \<ge> 0 then
            bind (gets g_ddirs) (\<lambda>ds. seq (guard (in_range (ddir_id fld_rec) ds))
              (seq (guard (ds ! nat (ddir_id fld_rec) \<noteq> []))
                (chdir_ignored (ds ! nat (ddir_id fld_rec)))))
          else bind (gets g_data_dir) (\<lambda>d. seq (guard (d \<noteq> [])) (chdir_ignored d)))
    (bind (rs_mmap (filename fld_rec) is_write) (\<lambda>(path, X).
     seq (guard (X \<noteq> []))
    (seq leave_ddir
     (ret (path, X))))))"

definition q_mmap :: "int \<Rightarrow> string \<Rightarrow> bool \<Rightarrow> (string \<times> byte list) q_prog" where
  "q_mmap d fname is_write =
     seq (enter_ddir d)
    (bind (rs_mmap fname is_write) (\<lambda>r.
     seq leave_ddir (ret r)))"

text \<open>\<open>q_re_mmap\<close> stretches a mapped file.  The filler bytes are the value of the
  enumerator \<open>I1\<close>, which the code passes as the constant to store.\<close>

definition q_re_mmap :: "int \<Rightarrow> string \<Rightarrow> nat \<Rightarrow> nat \<Rightarrow> bool \<Rightarrow> (string \<times> byte list) q_prog" where
  "q_re_mmap d fname old_filesize new_filesize is_write =
     seq (guard (new_filesize > 0))
    (seq (guard (old_filesize > 0))
    (seq (guard (new_filesize > old_filesize))
    (seq (enter_ddir d)
    (seq (modify (\<lambda>s. let path = resolve (p_cwd s) fname;
                          old = (case files s path of None \<Rightarrow> [] | Some bs \<Rightarrow> bs);
                          fill = replicate (new_filesize - old_filesize)
                                   (of_int (FLD_TYPE_code I1) :: byte)
                      in s\<lparr>files := (files s)(path := Some (old @ fill))\<rparr>))
    (bind (rs_mmap fname is_write) (\<lambda>r.
     seq leave_ddir (ret r)))))))"

definition q_delete :: "int \<Rightarrow> string \<Rightarrow> unit q_prog" where
  "q_delete d fname = seq (enter_ddir d) (seq (unlink fname) leave_ddir)"

text \<open>\<open>q_trunc\<close>: for size 0 the file is unlinked first, in the working directory at
  the time of the call.\<close>

definition q_trunc :: "int \<Rightarrow> string \<Rightarrow> nat \<Rightarrow> unit q_prog" where
  "q_trunc d fname filesz =
     seq (if filesz = 0 then unlink fname else ret ())
    (seq (guard (fname \<noteq> []))
    (seq (enter_ddir d)
    (bind (gets (\<lambda>s. (resolve (p_cwd s) fname, files s (resolve (p_cwd s) fname)))) (\<lambda>(path, r).
     bind (of_option r) (\<lambda>bs.
     seq (guard (filesz \<le> length bs))
    (seq (if filesz < length bs then write_map path (take filesz bs) else ret ())
     leave_ddir))))))"

subsection \<open>Temporary files\<close>

definition get_free_space :: "string \<Rightarrow> nat q_prog" where
  "get_free_space dir = bind (gets (\<lambda>s. env_free s dir)) of_option"

definition avail_space :: "string \<Rightarrow> nat q_prog" where
  "avail_space dir = bind (gets (\<lambda>s. env_avail s dir)) of_option"

text \<open>\<open>mkstemp\<close>: the first suffix whose file does not exist; when every suffix fails no
  file is created and the template keeps its name (the code does not look at the
  descriptor).\<close>

fun mkstemp_pick :: "(string \<Rightarrow> byte list option) \<Rightarrow> string \<Rightarrow> string list \<Rightarrow> string option" where
  "mkstemp_pick fs dir [] = None"
| "mkstemp_pick fs dir (x # xs) =
     (if fs (resolve dir (''_tempf_'' @ x)) = None then Some (''_tempf_'' @ x)
      else mkstemp_pick fs dir xs)"

definition mkstemp :: "string q_prog" where
  "mkstemp = (\<lambda>s. case mkstemp_pick (files s) (p_cwd s) (env_tmp s) of
       None \<Rightarrow> (Ret ''_tempf_XXXXXX'', s)
     | Some f \<Rightarrow> (Ret f, s\<lparr>files := (files s)(resolve (p_cwd s) f := Some [])\<rparr>))"

definition open_temp_file :: "string \<Rightarrow> string \<Rightarrow> nat \<Rightarrow> string q_prog" where
  "open_temp_file cwd dir filesize =
     seq (if filesize > 0 then bind (avail_space dir) (\<lambda>space_available.
            guard (space_available > filesize)) else ret ())
    (bind (chdir dir) (\<lambda>ok.
     seq (guard ok)
    (bind mkstemp (\<lambda>fname.
     bind (chdir cwd) (\<lambda>back.
     seq (guard back) (ret fname))))))"

text \<open>\<open>mk_file\<close> creates a file of the given size: all but the last byte is a hole,
  the last byte is written.  The result of \<open>lseek\<close> is kept in an \<open>int\<close> and compared
  with \<open>-1\<close>.\<close>

definition mk_file :: "string \<Rightarrow> string \<Rightarrow> string \<Rightarrow> nat \<Rightarrow> unit q_prog" where
  "mk_file cwd dir fname filesize =
     seq (guard (filesize > 0))
    (bind (chdir dir) (\<lambda>ok.
     seq (guard ok)
    (bind (gets (\<lambda>s. resolve (p_cwd s) fname)) (\<lambda>path.
     seq (write_map path [])
    (seq (guard (to_int32 (int filesize - 1) \<noteq> -1))
    (seq (write_map path (replicate filesize 0))
    (bind (chdir cwd) (\<lambda>back. guard back))))))))"

text \<open>\<open>mk_temp_file\<close>: name and directory id of a new file of \<open>filesz\<close> bytes.\<close>

definition mk_temp_file :: "nat \<Rightarrow> (string \<times> int) q_prog" where
  "mk_temp_file filesz =
     bind (gets g_alt_ddir_id) (\<lambda>alt.
     bind (if alt < 0 then bind (gets g_data_dir) (\<lambda>d. ret (d, -1))
           else bind (ddir_at alt) (\<lambda>dir.
             if filesz > 0 then bind (get_free_space dir) (\<lambda>free_space.
               ret (dir, if free_space < filesz then -1 else alt))
             else ret (dir, alt))) (\<lambda>(dir, d).
     bind (gets g_cwd) (\<lambda>cwd.
     bind (open_temp_file cwd dir filesz) (\<lambda>opfile.
     seq (mk_file cwd dir opfile filesz)
     (ret (opfile, d))))))"

subsection \<open>Frame rules\<close>

text \<open>The storage functions leave the meta data alone: a predicate of the meta data
  that holds before holds after, whatever the outcome.\<close>

definition meta_only :: "(q_state \<Rightarrow> bool) \<Rightarrow> bool" where
  "meta_only I \<longleftrightarrow> (\<forall>s c f. I (s\<lparr>p_cwd := c, files := f\<rparr>) = I s)"

lemma meta_onlyD: "meta_only I \<Longrightarrow> I (s\<lparr>p_cwd := c, files := f\<rparr>) = I s"
  by (simp add: meta_only_def)

lemma meta_only_updates:
  assumes "meta_only I"
  shows "I (s\<lparr>p_cwd := c\<rparr>) = I s" and "I (s\<lparr>files := f\<rparr>) = I s"
  using meta_onlyD[OF assms, where s = s and c = c and f = "files s"]
    meta_onlyD[OF assms, where s = s and c = "p_cwd s" and f = f] by simp_all

lemma wp_chdir_ignored:
  "meta_only I \<Longrightarrow> I s \<Longrightarrow> wp (chdir_ignored d) (\<lambda>_. I) E s"
  by (simp add: chdir_ignored_def wp_def prog_defs chdir_def meta_only_updates)

lemma wp_leave_ddir: "meta_only I \<Longrightarrow> I s \<Longrightarrow> wp leave_ddir (\<lambda>_. I) E s"
  by (simp add: leave_ddir_def wp_bind wp_gets wp_chdir_ignored)

lemma wp_unlink: "meta_only I \<Longrightarrow> I s \<Longrightarrow> wp (unlink f) (\<lambda>_. I) E s"
  by (simp add: unlink_def wp_modify meta_only_updates)

lemma wp_rs_mmap: "I s \<Longrightarrow> wp (rs_mmap f w) (\<lambda>_. I) I s"
  by (simp add: rs_mmap_def wp_def split: option.splits)

lemma wp_chk_file_size: "I s \<Longrightarrow> wp (chk_file_size f n ft) (\<lambda>_. I) I s"
  unfolding chk_file_size_def
  by (simp add: wp_simps, intro impI, rule wp_mono[OF wp_rs_mmap[of I]])
    (auto simp: wp_simps split: option.splits)

end
