(* ===== verification/Q_Lookup.thy ===== *)
theory Q_Lookup
  imports Q_Store
begin

text \<open>
  Finding tables, fields, free slots and data directories: \<open>dir_ro_verbs/is_tbl.c\<close>,
  \<open>dir_ro_verbs/is_fld.c\<close>, \<open>get_empty_tbl\<close> of \<open>dir_wr_verbs/add_tbl.c\<close>, \<open>get_empty_fld\<close> of
  \<open>dir_wr_verbs/add_fld.c\<close> and \<open>get_ddir_id\<close> of \<open>dir_dbutils/aux_meta.c\<close>.  Tables and fields
  live in arrays of slots; a slot with an empty name is free.  The interface
  \<open>slot_array\<close> states what the two arrays have in common and is interpreted on both.
\<close>

subsection \<open>Probing\<close>

text \<open>The two loops of a look-up that starts at \<open>start\<close>; a start beyond the array makes
  the second loop run past its end.\<close>

definition circ_scan :: "(nat \<Rightarrow> bool) \<Rightarrow> nat \<Rightarrow> nat \<Rightarrow> nat option q_prog" where
  "circ_scan P start n = (case find_from P start n of
       Some i \<Rightarrow> ret (Some i)
     | None \<Rightarrow> (case find_from P 0 (min start n) of
           Some i \<Rightarrow> ret (Some i)
         | None \<Rightarrow> if start \<le> n then ret None else fault))"

lemma circ_scan_in_bounds: "start \<le> n \<Longrightarrow> circ_scan P start n = ret (circ_find P start n)"
  by (auto simp: circ_scan_def circ_find_def min_def split: option.splits)

definition probe_start :: "META_KEY_VAL list \<Rightarrow> 32 word \<Rightarrow> nat q_prog" where
  "probe_start ht hashval =
     seq (within (ht \<noteq> [])) (ret (nat (max 0 (mval (ht ! (unat hashval mod length ht))))))"

subsection \<open>is\_tbl and is\_fld\<close>

definition is_tbl :: "string option \<Rightarrow> (int \<times> TBL_REC) q_prog" where
  "is_tbl tbl =
     bind (of_option (hash_string_UI4 tbl)) (\<lambda>hashval.
     bind (gets g_ht_tbl) (\<lambda>ht.
     bind (probe_start ht hashval) (\<lambda>startloc.
     bind (gets g_tbls) (\<lambda>ts.
     bind (circ_scan (\<lambda>i. Some (tbl_name (ts ! i)) = tbl) startloc (length ts)) (\<lambda>r.
     ret (case r of None \<Rightarrow> (INT_MIN, zero_tbl_rec) | Some i \<Rightarrow> (int i, ts ! i)))))))"

text \<open>The result of \<open>is_fld\<close>: id and record of the field, id and record of its nn field.\<close>

type_synonym fld_result = "(int \<times> FLD_REC) \<times> (int \<times> FLD_REC)"

definition no_fld :: fld_result where
  "no_fld = ((INT_MIN, zero_fld_rec), (INT_MIN, zero_fld_rec))"

definition with_nn :: "nat \<Rightarrow> fld_result q_prog" where
  "with_nn i = bind (gets g_flds) (\<lambda>fs.
     if nn_fld_id (fs ! i) \<ge> 0 then
       seq (within (in_range (nn_fld_id (fs ! i)) fs))
         (ret ((int i, fs ! i), (nn_fld_id (fs ! i), fs ! nat (nn_fld_id (fs ! i)))))
     else ret ((int i, fs ! i), (nn_fld_id (fs ! i), zero_fld_rec)))"

definition is_fld :: "string option \<Rightarrow> int \<Rightarrow> string option \<Rightarrow> fld_result q_prog" where
  "is_fld tbl in_tbl_id fld =
     bind (if in_tbl_id < 0 then bind (is_tbl tbl) (\<lambda>(tid, tbl_rec). ret tid)
           else ret in_tbl_id) (\<lambda>tid.
     if tid < 0 then ret no_fld else
     bind (of_option (hash_string_UI4 fld)) (\<lambda>hashval.
     bind (gets g_ht_fld) (\<lambda>ht.
     bind (probe_start ht hashval) (\<lambda>startloc.
     bind (gets g_flds) (\<lambda>fs.
     bind (circ_scan (\<lambda>i. tbl_id (fs ! i) = tid \<and> Some (fld_name (fs ! i)) = fld)
             startloc (length fs)) (\<lambda>r.
     case r of None \<Rightarrow> ret no_fld | Some i \<Rightarrow> with_nn i))))))"

subsection \<open>Free slots\<close>

definition start_slot :: "string option \<Rightarrow> nat \<Rightarrow> nat q_prog" where
  "start_slot name n = (case name of
       None \<Rightarrow> bind (gets env_usec) (\<lambda>u. seq (within (n \<noteq> 0)) (ret (u mod n)))
     | Some x \<Rightarrow> if x = [] then bind (gets env_usec) (\<lambda>u. seq (within (n \<noteq> 0)) (ret (u mod n)))
         else bind (of_option (hash_string_UI4 name)) (\<lambda>h.
           seq (within (n \<noteq> 0)) (ret (unat h mod n))))"

definition get_empty_tbl :: "string option \<Rightarrow> int q_prog" where
  "get_empty_tbl tbl = bind (gets g_tbls) (\<lambda>tbls.
     bind (start_slot tbl (length tbls)) (\<lambda>startidx.
     bind (circ_scan (\<lambda>i. tbl_name (tbls ! i) = []) startidx (length tbls)) (\<lambda>r.
     bind (of_option r) (\<lambda>i. ret (int i)))))"

definition get_empty_fld :: "string option \<Rightarrow> int q_prog" where
  "get_empty_fld fld = bind (gets g_flds) (\<lambda>flds.
     bind (start_slot fld (length flds)) (\<lambda>startidx.
     bind (circ_scan (\<lambda>i. fld_name (flds ! i) = []) startidx (length flds)) (\<lambda>r.
     bind (of_option r) (\<lambda>i. ret (int i)))))"

subsection \<open>Data directories\<close>

definition get_ddir_id :: "string option \<Rightarrow> bool \<Rightarrow> int q_prog" where
  "get_ddir_id in_data_dir add_if_missing = (case in_data_dir of None \<Rightarrow> bye
     | Some d \<Rightarrow>
        seq (guard (d \<noteq> [] \<and> hd d = CHR ''/''))
       (bind (of_option (strip_trailing_slash in_data_dir (int MAX_LEN_DIR_NAME + 1))) (\<lambda>data_dir.
        bind (gets g_ddirs) (\<lambda>ddirs.
        case find_from (\<lambda>i. ddirs ! i = data_dir) 0 (length ddirs) of
          Some i \<Rightarrow> ret (int i)
        | None \<Rightarrow>
            if add_if_missing then
              (case find_from (\<lambda>i. ddirs ! i = []) 0 (length ddirs) of
                 Some i \<Rightarrow> seq (modify (\<lambda>s. s\<lparr>g_ddirs := ddirs[i := data_dir]\<rparr>)) (ret (int i))
               | None \<Rightarrow> bye)
            else bye))))"

subsection \<open>The slot array interface\<close>

text \<open>An array of records with a key; some keys mark a free slot and \<open>blank\<close> is the
  record stored in a released slot.\<close>

locale slot_array =
  fixes key :: "'r \<Rightarrow> 'k" and vacant :: "'k \<Rightarrow> bool" and blank :: 'r
  assumes vacant_blank: "vacant (key blank)"
begin

definition unique_keys :: "'r list \<Rightarrow> bool" where
  "unique_keys rs \<longleftrightarrow> (\<forall>i < length rs. \<forall>j < length rs.
     \<not> vacant (key (rs ! i)) \<longrightarrow> key (rs ! i) = key (rs ! j) \<longrightarrow> i = j)"

definition lookup :: "'r list \<Rightarrow> 'k \<Rightarrow> nat option" where
  "lookup rs k = find_from (\<lambda>i. key (rs ! i) = k) 0 (length rs)"

lemma probe_is_lookup:
  assumes "unique_keys rs" and "\<not> vacant k" and "start \<le> length rs"
  shows "circ_find (\<lambda>i. key (rs ! i) = k) start (length rs) = lookup rs k"
proof (cases "lookup rs k")
  case None
  then have "circ_find (\<lambda>i. key (rs ! i) = k) start (length rs) = None"
    using assms(3) unfolding lookup_def by (simp add: find_from_None circ_find_None)
  then show ?thesis using None by simp
next
  case (Some i)
  then have i: "i < length rs" "key (rs ! i) = k"
    using find_from_Some unfolding lookup_def by fastforce+
  have "circ_find (\<lambda>i. key (rs ! i) = k) start (length rs) = Some i"
    using assms i by (intro circ_find_unique) (auto simp: unique_keys_def)
  then show ?thesis using Some by simp
qed

lemma unique_store:
  assumes "unique_keys rs" and "\<And>j. j < length rs \<Longrightarrow> j \<noteq> i \<Longrightarrow> key (rs ! j) \<noteq> key r"
  shows "unique_keys (rs[i := r])"
proof (cases "i < length rs")
  case True
  have "a = b" if "a < length rs" "b < length rs" "\<not> vacant (key (rs[i := r] ! a))"
    "key (rs[i := r] ! a) = key (rs[i := r] ! b)" for a b
    using that assms True unfolding unique_keys_def
    by (cases "a = i"; cases "b = i") (auto simp: nth_list_update)
  then show ?thesis unfolding unique_keys_def length_list_update by blast
qed (use assms(1) in \<open>simp add: list_update_beyond\<close>)

lemma unique_blank: "unique_keys rs \<Longrightarrow> unique_keys (rs[i := blank])"
  using vacant_blank unfolding unique_keys_def
  by (cases "i < length rs") (auto simp: nth_list_update list_update_beyond)

lemma lookup_store:
  assumes "i < length rs" and "\<And>j. j < length rs \<Longrightarrow> j \<noteq> i \<Longrightarrow> key (rs ! j) \<noteq> key r"
  shows "lookup (rs[i := r]) (key r) = Some i"
proof -
  have "circ_find (\<lambda>j. key (rs[i := r] ! j) = key r) 0 (length (rs[i := r])) = Some i"
    using assms by (intro circ_find_unique) (auto simp: nth_list_update split: if_splits)
  moreover have "find_from P 0 0 = None" for P
    by (simp add: find_from_None)
  ultimately show ?thesis
    by (simp add: lookup_def circ_find_def split: option.splits)
qed

end

text \<open>Tables are keyed by their name, fields by table and name.\<close>

definition fld_key :: "FLD_REC \<Rightarrow> int \<times> string" where
  "fld_key r = (tbl_id r, fld_name r)"

interpretation tbl_slots: slot_array tbl_name "\<lambda>n. n = []" zero_tbl_rec
  by unfold_locales simp

interpretation fld_slots: slot_array fld_key "\<lambda>k. snd k = []" zero_fld_rec
  by unfold_locales (simp add: fld_key_def)

subsection \<open>What a look-up returns\<close>

text \<open>The hash arrays hold start positions inside the arrays they index.\<close>

definition ht_ok :: "q_state \<Rightarrow> bool" where
  "ht_ok s \<longleftrightarrow> g_ht_tbl s \<noteq> [] \<and> g_ht_fld s \<noteq> [] \<and> g_tbls s \<noteq> [] \<and> g_flds s \<noteq> [] \<and>
     (\<forall>e \<in> set (g_ht_tbl s). mval e \<le> int (length (g_tbls s))) \<and>
     (\<forall>e \<in> set (g_ht_fld s). mval e \<le> int (length (g_flds s)))"

definition tbl_found :: "q_state \<Rightarrow> string \<Rightarrow> int \<times> TBL_REC \<Rightarrow> bool" where
  "tbl_found s x = (\<lambda>(i, r).
     (i = INT_MIN \<and> r = zero_tbl_rec \<and> (\<forall>j < length (g_tbls s). tbl_name (g_tbls s ! j) \<noteq> x)) \<or>
     (in_range i (g_tbls s) \<and> r = g_tbls s ! nat i \<and> tbl_name r = x))"

definition fld_found :: "q_state \<Rightarrow> int \<Rightarrow> string \<Rightarrow> int \<times> FLD_REC \<Rightarrow> bool" where
  "fld_found s t x = (\<lambda>(i, r).
     (i = INT_MIN \<and> r = zero_fld_rec \<and>
        (\<forall>j < length (g_flds s). \<not> (tbl_id (g_flds s ! j) = t \<and> fld_name (g_flds s ! j) = x))) \<or>
     (in_range i (g_flds s) \<and> r = g_flds s ! nat i \<and> tbl_id r = t \<and> fld_name r = x))"

definition nn_links_ok :: "FLD_REC list \<Rightarrow> bool" where
  "nn_links_ok fs \<longleftrightarrow> (\<forall>f \<in> set fs. nn_fld_id f \<ge> 0 \<longrightarrow> in_range (nn_fld_id f) fs)"

definition nn_of :: "q_state \<Rightarrow> FLD_REC \<Rightarrow> FLD_REC" where
  "nn_of s r = (if nn_fld_id r \<ge> 0 then g_flds s ! nat (nn_fld_id r) else zero_fld_rec)"

lemma probe_in_bounds:
  assumes "ht \<noteq> []" and "\<forall>e \<in> set ht. mval e \<le> int n"
  shows "\<exists>st. probe_start ht h s = (Ret st, s) \<and> st \<le> n"
proof -
  have "unat h mod length ht < length ht" using assms(1) by simp
  then have "mval (ht ! (unat h mod length ht)) \<le> int n" using assms(2) by simp
  then show ?thesis using assms(1) by (simp add: probe_start_def prog_defs)
qed

lemma is_tbl_result:
  assumes "ht_ok s"
  shows "\<exists>r. is_tbl (Some x) s = (Ret r, s) \<and> tbl_found s x r"
proof -
  obtain h where h: "hash_string_UI4 (Some x) = Some h" using hash_string_UI4_Some by blast
  obtain st where st: "probe_start (g_ht_tbl s) h s = (Ret st, s)" "st \<le> length (g_tbls s)"
    using probe_in_bounds[of "g_ht_tbl s" "length (g_tbls s)" h s] assms by (auto simp: ht_ok_def)
  let ?c = "circ_find (\<lambda>i. tbl_name (g_tbls s ! i) = x) st (length (g_tbls s))"
  have "is_tbl (Some x) s = (Ret (case ?c of None \<Rightarrow> (INT_MIN, zero_tbl_rec)
      | Some i \<Rightarrow> (int i, g_tbls s ! i)), s)"
    using st by (simp add: is_tbl_def h of_option_def bind_def gets_def ret_def circ_scan_in_bounds)
  moreover have "tbl_found s x (case ?c of None \<Rightarrow> (INT_MIN, zero_tbl_rec)
      | Some i \<Rightarrow> (int i, g_tbls s ! i))"
    using circ_find_Some[OF _ st(2)] circ_find_None[OF st(2)]
    by (fastforce simp: tbl_found_def in_range_def split: option.splits)
  ultimately show ?thesis by blast
qed

lemma with_nn_result:
  assumes "nn_links_ok (g_flds s)" and "i < length (g_flds s)"
  shows "with_nn i s = (Ret ((int i, g_flds s ! i),
           (nn_fld_id (g_flds s ! i), nn_of s (g_flds s ! i))), s)"
  using assms by (auto simp: with_nn_def nn_of_def nn_links_ok_def prog_defs)

lemma is_fld_result:
  assumes "ht_ok s" and "nn_links_ok (g_flds s)" and "t \<ge> 0"
  shows "\<exists>i r. fld_found s t x (i, r) \<and>
     is_fld tbl t (Some x) s =
       (Ret (if i < 0 then no_fld else ((i, r), (nn_fld_id r, nn_of s r))), s)"
proof -
  let ?fs = "g_flds s"
  obtain h where h: "hash_string_UI4 (Some x) = Some h" using hash_string_UI4_Some by blast
  obtain st where st: "probe_start (g_ht_fld s) h s = (Ret st, s)" "st \<le> length ?fs"
    using probe_in_bounds[of "g_ht_fld s" "length ?fs" h s] assms by (auto simp: ht_ok_def)
  let ?c = "circ_find (\<lambda>i. tbl_id (?fs ! i) = t \<and> fld_name (?fs ! i) = x) st (length ?fs)"
  have run: "is_fld tbl t (Some x) s = (case ?c of None \<Rightarrow> ret no_fld | Some i \<Rightarrow> with_nn i) s"
    using st assms(3)
    by (simp add: is_fld_def h of_option_def bind_def gets_def ret_def circ_scan_in_bounds
        split: option.splits)
  show ?thesis
  proof (cases ?c)
    case None
    then have "is_fld tbl t (Some x) s = (Ret no_fld, s)" using run by (simp add: ret_def)
    moreover have "fld_found s t x (INT_MIN, zero_fld_rec)"
      using None circ_find_None[OF st(2)] by (simp add: fld_found_def)
    ultimately show ?thesis by (intro exI[of _ INT_MIN] exI[of _ zero_fld_rec]) simp
  next
    case (Some i)
    then have "i < length ?fs" "tbl_id (?fs ! i) = t" "fld_name (?fs ! i) = x"
      using circ_find_Some[OF Some st(2)] by auto
    then show ?thesis
      using run Some with_nn_result[OF assms(2), of i]
      by (intro exI[of _ "int i"] exI[of _ "?fs ! i"]) (auto simp: fld_found_def in_range_def)
  qed
qed

subsection \<open>Rules for the calculus\<close>

lemma wp_is_tbl:
  assumes "ht_ok s" and "\<And>r. tbl_found s x r \<Longrightarrow> Q r s"
  shows "wp (is_tbl (Some x)) Q E s"
  using is_tbl_result[OF assms(1), of x] assms(2) by (auto simp: wp_def)

lemma wp_is_fld:
  assumes "ht_ok s" and "nn_links_ok (g_flds s)" and "t \<ge> 0"
    and "\<And>i r. fld_found s t x (i, r) \<Longrightarrow>
           Q (if i < 0 then no_fld else ((i, r), (nn_fld_id r, nn_of s r))) s"
  shows "wp (is_fld tbl t (Some x)) Q E s"
  using is_fld_result[OF assms(1-3), of x tbl] assms(4) by (auto simp: wp_def)

lemma is_tbl_NULL: "is_tbl None s = (Bye, s)"
  by (simp add: is_tbl_def hash_string_UI4_def int_hash_string_def prog_defs)

lemma start_slot_result:
  assumes "n \<noteq> 0"
  shows "\<exists>st. start_slot name n s = (Ret st, s) \<and> st \<le> n"
proof -
  have m: "k mod n \<le> n" for k :: nat using assms by (simp add: less_imp_le)
  show ?thesis
  proof (cases name)
    case (Some x)
    obtain h where "hash_string_UI4 (Some x) = Some h" using hash_string_UI4_Some by blast
    then show ?thesis using Some m assms by (simp add: start_slot_def prog_defs)
  qed (use m assms in \<open>simp add: start_slot_def prog_defs\<close>)
qed

lemma wp_get_empty_tbl:
  assumes "g_tbls s \<noteq> []"
    and "\<And>i. in_range i (g_tbls s) \<Longrightarrow> tbl_name (g_tbls s ! nat i) = [] \<Longrightarrow> Q i s"
    and "(\<forall>i < length (g_tbls s). tbl_name (g_tbls s ! i) \<noteq> []) \<Longrightarrow> E s"
  shows "wp (get_empty_tbl x) Q E s"
proof -
  obtain st where st: "start_slot x (length (g_tbls s)) s = (Ret st, s)" "st \<le> length (g_tbls s)"
    using start_slot_result assms(1) by (metis length_0_conv)
  let ?c = "circ_find (\<lambda>i. tbl_name (g_tbls s ! i) = []) st (length (g_tbls s))"
  have "wp (get_empty_tbl x) Q E s = (case ?c of None \<Rightarrow> E s | Some i \<Rightarrow> Q (int i) s)"
    using st by (simp add: get_empty_tbl_def wp_def prog_defs circ_scan_in_bounds split: option.splits)
  moreover have "Q (int i) s" if "?c = Some i" for i
    using circ_find_Some[OF that st(2)] assms(2)[of "int i"] by (simp add: in_range_def)
  moreover have "E s" if "?c = None"
    using that circ_find_None[OF st(2)] assms(3) by simp
  ultimately show ?thesis by (simp split: option.splits)
qed

lemma wp_get_empty_fld:
  assumes "g_flds s \<noteq> []"
    and "\<And>i. in_range i (g_flds s) \<Longrightarrow> fld_name (g_flds s ! nat i) = [] \<Longrightarrow> Q i s"
    and "(\<forall>i < length (g_flds s). fld_name (g_flds s ! i) \<noteq> []) \<Longrightarrow> E s"
  shows "wp (get_empty_fld x) Q E s"
proof -
  obtain st where st: "start_slot x (length (g_flds s)) s = (Ret st, s)" "st \<le> length (g_flds s)"
    using start_slot_result assms(1) by (metis length_0_conv)
  let ?c = "circ_find (\<lambda>i. fld_name (g_flds s ! i) = []) st (length (g_flds s))"
  have "wp (get_empty_fld x) Q E s = (case ?c of None \<Rightarrow> E s | Some i \<Rightarrow> Q (int i) s)"
    using st by (simp add: get_empty_fld_def wp_def prog_defs circ_scan_in_bounds split: option.splits)
  moreover have "Q (int i) s" if "?c = Some i" for i
    using circ_find_Some[OF that st(2)] assms(2)[of "int i"] by (simp add: in_range_def)
  moreover have "E s" if "?c = None"
    using that circ_find_None[OF st(2)] assms(3) by simp
  ultimately show ?thesis by (simp split: option.splits)
qed

subsection \<open>Look-up refines the slot array\<close>

text \<open>When names are unique the answer of a look-up depends on the array alone: neither
  the hash function nor the hash array matters.\<close>

definition tbl_answer :: "TBL_REC list \<Rightarrow> string \<Rightarrow> int \<times> TBL_REC" where
  "tbl_answer ts x = (case tbl_slots.lookup ts x of
     None \<Rightarrow> (INT_MIN, zero_tbl_rec) | Some i \<Rightarrow> (int i, ts ! i))"

definition fld_answer :: "q_state \<Rightarrow> int \<Rightarrow> string \<Rightarrow> fld_result" where
  "fld_answer s t x = (case fld_slots.lookup (g_flds s) (t, x) of
     None \<Rightarrow> no_fld
   | Some i \<Rightarrow> ((int i, g_flds s ! i), (nn_fld_id (g_flds s ! i), nn_of s (g_flds s ! i))))"

lemma tbl_lookup_Some:
  assumes "tbl_slots.unique_keys ts" and "x \<noteq> []" and "i < length ts" and "tbl_name (ts ! i) = x"
  shows "tbl_slots.lookup ts x = Some i"
proof -
  have "circ_find (\<lambda>i. tbl_name (ts ! i) = x) 0 (length ts) = Some i"
    using assms by (intro circ_find_unique) (auto simp: tbl_slots.unique_keys_def)
  then show ?thesis using tbl_slots.probe_is_lookup[of ts x 0] assms by simp
qed

lemma fld_lookup_Some:
  assumes "fld_slots.unique_keys fs" and "x \<noteq> []" and "i < length fs" and "fld_key (fs ! i) = (t, x)"
  shows "fld_slots.lookup fs (t, x) = Some i"
proof -
  have "circ_find (\<lambda>i. fld_key (fs ! i) = (t, x)) 0 (length fs) = Some i"
    using assms by (intro circ_find_unique) (auto simp: fld_slots.unique_keys_def)
  then show ?thesis using fld_slots.probe_is_lookup[of fs "(t, x)" 0] assms by simp
qed

lemma is_tbl_lookup:
  assumes "ht_ok s" and "tbl_slots.unique_keys (g_tbls s)" and "x \<noteq> []"
  shows "is_tbl (Some x) s = (Ret (tbl_answer (g_tbls s) x), s)"
proof -
  obtain i r where ir: "is_tbl (Some x) s = (Ret (i, r), s)" "tbl_found s x (i, r)"
    using is_tbl_result[OF assms(1)] by fastforce
  have "tbl_answer (g_tbls s) x = (i, r)"
  proof (cases "i = INT_MIN")
    case True
    then have "tbl_slots.lookup (g_tbls s) x = None" "r = zero_tbl_rec"
      using ir(2) by (auto simp: tbl_found_def in_range_def tbl_slots.lookup_def find_from_None)
    then show ?thesis using True by (simp add: tbl_answer_def)
  next
    case False
    then have "in_range i (g_tbls s)" "r = g_tbls s ! nat i" "tbl_name (g_tbls s ! nat i) = x"
      using ir(2) by (auto simp: tbl_found_def)
    then show ?thesis
      using tbl_lookup_Some[OF assms(2,3), of "nat i"] by (auto simp: tbl_answer_def in_range_def)
  qed
  then show ?thesis using ir(1) by simp
qed

lemma is_fld_lookup:
  assumes "ht_ok s" and "nn_links_ok (g_flds s)" and "fld_slots.unique_keys (g_flds s)"
    and "t \<ge> 0" and "x \<noteq> []"
  shows "is_fld tbl t (Some x) s = (Ret (fld_answer s t x), s)"
proof -
  obtain i r where ir: "fld_found s t x (i, r)"
    "is_fld tbl t (Some x) s = (Ret (if i < 0 then no_fld else ((i, r), (nn_fld_id r, nn_of s r))), s)"
    using is_fld_result[OF assms(1,2,4)] by blast
  have "fld_answer s t x = (if i < 0 then no_fld else ((i, r), (nn_fld_id r, nn_of s r)))"
  proof (cases "i = INT_MIN")
    case True
    then have "fld_slots.lookup (g_flds s) (t, x) = None"
      using ir(1) by (auto simp: fld_found_def in_range_def fld_slots.lookup_def find_from_None fld_key_def)
    then show ?thesis using True by (simp add: fld_answer_def)
  next
    case False
    then have "in_range i (g_flds s)" "r = g_flds s ! nat i" "fld_key (g_flds s ! nat i) = (t, x)"
      using ir(1) by (auto simp: fld_found_def fld_key_def)
    then show ?thesis
      using fld_lookup_Some[OF assms(3,5), of "nat i" t] by (auto simp: fld_answer_def in_range_def)
  qed
  then show ?thesis using ir(2) by simp
qed

end
