(* ===== verification/Q_Verbs.thy ===== *)
theory Q_Verbs
  imports Q_Lookup
begin

text \<open>
  The verbs of the program that change or read the meta data: one definition per C
  function of \<open>dir_wr_verbs\<close>, \<open>dir_ro_verbs\<close> and \<open>dir_dbutils/add_aux_fld.c\<close>, with the checks,
  array accesses, calls and early exits in the order of the code.  An argument
  that the code compares with \<open>NULL\<close> is a \<open>string option\<close>; results handed back through
  pointers are the value of the program.
\<close>

subsection \<open>Deleting fields and tables\<close>

text \<open>Remove the file of a field from the directory the field names.\<close>

definition unlink_storage :: "FLD_REC \<Rightarrow> unit q_prog" where
  "unlink_storage r =
     seq (enter_ddir (ddir_id r)) (seq (unlink (filename r)) leave_ddir)"

text \<open>The loop meant to delete aliases: it inspects \<open>g_flds[fld_id]\<close> in every round.\<close>

definition del_aliases :: "int \<Rightarrow> unit q_prog" where
  "del_aliases fid = bind (fld_at fid) (\<lambda>r.
     if alias_of_fld_id r < 0 then
       bind (gets g_flds) (\<lambda>fs. for_each (\<lambda>i. bind (fld_at fid) (\<lambda>r.
         if alias_of_fld_id r = fid then set_fld fid (\<lambda>_. zero_fld_rec) else ret ()))
         [0..<length fs])
     else ret ())"

text \<open>The part of \<open>del_fld\<close> after the checks: release the field \<open>fid\<close>, whose record is \<open>r\<close>,
  and its nn field \<open>nnid\<close>.\<close>

definition release_nn :: "int \<Rightarrow> unit q_prog" where
  "release_nn nnid = (if nnid \<ge> 0 then
       bind (fld_at nnid) (\<lambda>nr.
         seq (if \<not> is_external nr then unlink_storage nr else ret ())
           (set_fld nnid (\<lambda>_. zero_fld_rec)))
     else ret ())"

definition release_fld :: "int \<Rightarrow> int \<Rightarrow> FLD_REC \<Rightarrow> unit q_prog" where
  "release_fld fid nnid r =
     seq (if \<not> is_external r \<and> alias_of_fld_id r < 0 then unlink_storage r else ret ())
    (seq (set_fld fid (\<lambda>_. zero_fld_rec))
    (seq (del_aliases fid)
     (release_nn nnid)))"

text \<open>The check against deleting an auxiliary field directly.\<close>

definition del_checked :: "bool \<Rightarrow> int \<times> int \<Rightarrow> unit q_prog" where
  "del_checked is_external_call = (\<lambda>(fid, nnid). if fid < 0 then ret () else
     bind (fld_at fid) (\<lambda>r.
     seq (if is_external_call \<and> auxtype r \<noteq> undef
          then bind (fld_at (parent_id r)) (\<lambda>p. guard (fld_name p = []))
          else ret ())
     (release_fld fid nnid r)))"

definition del_fld_in :: "string option \<Rightarrow> string option \<Rightarrow> int \<Rightarrow> bool \<Rightarrow> int \<Rightarrow> unit q_prog" where
  "del_fld_in tbl fld in_fld_id is_external_call tid = (if tid < 0 then ret () else
     bind (if in_fld_id < 0
           then bind (arg_given fld) (\<lambda>_.
                bind (is_fld tbl tid fld) (\<lambda>r. ret (fst (fst r), fst (snd r))))
           else bind (fld_at in_fld_id) (\<lambda>r.
                seq (if nn_fld_id r \<ge> 0 then bind (fld_at (nn_fld_id r)) (\<lambda>_. ret ()) else ret ())
                  (ret (in_fld_id, nn_fld_id r))))
       (del_checked is_external_call))"

definition del_fld :: "string option \<Rightarrow> int \<Rightarrow> string option \<Rightarrow> int \<Rightarrow> bool \<Rightarrow> unit q_prog" where
  "del_fld tbl in_tbl_id fld in_fld_id is_external_call =
     bind (if in_tbl_id < 0
           then bind (arg_given tbl) (\<lambda>_. bind (is_tbl tbl) (\<lambda>r. ret (fst r)))
           else ret in_tbl_id)
       (del_fld_in tbl fld in_fld_id is_external_call)"

text \<open>\<open>iter_del_fld\<close> deletes a list of fields separated by colons.\<close>

definition iter_del_fld :: "string option \<Rightarrow> string \<Rightarrow> unit q_prog" where
  "iter_del_fld tbl fld =
     (if CHR '':'' \<in> set fld then
        bind (of_option (break_str (Some fld) '':'')) (\<lambda>Y.
          for_each (\<lambda>y. del_fld tbl (-1) (Some y) (-1) True) Y)
      else del_fld tbl (-1) (Some fld) (-1) True)"

text \<open>Delete every primary field of a table; the nn fields go with them.\<close>

definition del_tbl_flds :: "int \<Rightarrow> unit q_prog" where
  "del_tbl_flds tid = bind (gets g_flds) (\<lambda>fs.
     for_each (\<lambda>i. bind (fld_at (int i)) (\<lambda>r.
       if tbl_id r = tid \<and> parent_id r < 0 then del_fld None tid None (int i) True else ret ()))
     [0..<length fs])"

definition del_tbl_id :: "int \<Rightarrow> unit q_prog" where
  "del_tbl_id tid = (if tid < 0 then ret () else
     bind (gets g_flds) (\<lambda>fs.
     seq (case find_from (\<lambda>i. dict_tbl_id (fs ! i) = tid) 0 (length fs) of
            None \<Rightarrow> ret ()
          | Some i \<Rightarrow> bind (tbl_at (tbl_id (fs ! i))) (\<lambda>_. bye))
    (seq (del_tbl_flds tid)
     (set_tbl tid (\<lambda>_. zero_tbl_rec)))))"

definition del_tbl :: "string option \<Rightarrow> int \<Rightarrow> unit q_prog" where
  "del_tbl tbl in_tbl_id =
     bind (if in_tbl_id < 0
           then bind (arg_given tbl) (\<lambda>_. bind (is_tbl tbl) (\<lambda>r. ret (fst r)))
           else ret in_tbl_id)
       del_tbl_id"

definition iter_del_tbl :: "string \<Rightarrow> unit q_prog" where
  "iter_del_tbl tbl =
     (if CHR '':'' \<in> set tbl then
        bind (of_option (break_str (Some tbl) '':'')) (\<lambda>Y. for_each (\<lambda>y. del_tbl (Some y) (-1)) Y)
      else del_tbl (Some tbl) (-1))"

subsection \<open>Adding tables and fields\<close>

definition add_tbl :: "string option \<Rightarrow> string option \<Rightarrow> (int \<times> TBL_REC) q_prog" where
  "add_tbl tbl str_nR =
     bind (arg_given tbl) (\<lambda>name.
     bind (case str_nR of
             None \<Rightarrow> ret 0
           | Some v \<Rightarrow> if v = [] then ret 0
               else seq (guard (\<not> fst (strtoll v) < 0)) (ret (fst (strtoll v)))) (\<lambda>n.
     seq (guard (chk_tbl_name tbl))
    (bind (is_tbl tbl) (\<lambda>(t, tbl_rec).
     bind (if t \<ge> 0 then seq (del_tbl None t) (ret t) else get_empty_tbl tbl) (\<lambda>tid.
     seq (set_tbl tid (\<lambda>r. r\<lparr>tbl_name := name\<rparr>))
    (seq (set_tbl tid (\<lambda>r. r\<lparr>nR := n\<rparr>))
    (bind (tbl_at tid) (\<lambda>r. ret (tid, r)))))))))"

text \<open>The part of \<open>add_fld\<close> that fills the chosen slot; a failing check leaves it half
  filled.\<close>

definition fill_fld ::
  "int \<Rightarrow> int \<Rightarrow> string \<Rightarrow> int \<Rightarrow> string \<Rightarrow> FLD_TYPE \<Rightarrow> int \<Rightarrow> (int \<times> FLD_REC) q_prog" where
  "fill_fld fid tid name d fname ft len =
     seq (set_fld fid (\<lambda>_. zero_fld_rec\<lparr>tbl_id := tid, is_external := False,
            sort_type := unknown, parent_id := INT_MIN, nn_fld_id := INT_MIN,
            fldtype := ft, auxtype := undef\<rparr>))
    (seq (if len < 0 then set_fld fid (\<lambda>r. r\<lparr>cnt := -1\<rparr>)
          else seq (guard (ft = clob)) (seq (guard (\<not> len < 2)) (set_fld fid (\<lambda>r. r\<lparr>cnt := len\<rparr>))))
    (seq (guard (length fname \<le> MAX_LEN_FILE_NAME))
    (seq (set_fld fid (\<lambda>r. r\<lparr>filename := fname\<rparr>))
    (seq (set_fld fid (\<lambda>r. r\<lparr>ddir_id := d\<rparr>))
    (seq (guard (length name \<le> MAX_LEN_FLD_NAME))
    (seq (set_fld fid (\<lambda>r. r\<lparr>fld_name := name\<rparr>))
    (bind (fld_at fid) (\<lambda>r. ret (fid, r)))))))))"

definition add_fld ::
  "int \<Rightarrow> string option \<Rightarrow> int \<Rightarrow> string \<Rightarrow> FLD_TYPE \<Rightarrow> int \<Rightarrow> (int \<times> FLD_REC) q_prog" where
  "add_fld tid fld d fname ft len =
     seq (guard (\<not> tid < 0))
    (bind (arg_given fld) (\<lambda>name.
     seq (guard (chk_fld_name fld 0))
    (seq (enter_ddir d)
    (bind (tbl_at tid) (\<lambda>t.
     seq (chk_file_size fname (nR t) ft)
    (seq leave_ddir
    (bind (is_fld None tid fld) (\<lambda>((i, fld_rec), nnf).
     bind (if i \<ge> 0 then seq (del_fld None tid None i True) (ret i) else get_empty_fld fld) (\<lambda>fid.
     fill_fld fid tid name d fname ft len)))))))))"

text \<open>\<open>ext_add_fld\<close>: the verb; the results of \<open>is_tbl\<close>, \<open>is_fld\<close>, \<open>extract_S\<close> and \<open>del_fld\<close> are not
  checked (a failing \<open>extract_S\<close> leaves \<open>is_null\<close> true).\<close>

definition extract_checked :: "string option \<Rightarrow> string \<Rightarrow> string q_prog" where
  "extract_checked spec start =
     bind (ignore (lift_out (extract_S spec start '']'' 1024))) (\<lambda>r.
       case r of Some (Some v) \<Rightarrow> ret v | _ \<Rightarrow> bye)"

definition ext_add_fld :: "string option \<Rightarrow> string option \<Rightarrow> string option \<Rightarrow> (int \<times> FLD_REC) q_prog" where
  "ext_add_fld tbl fld fldspec =
     bind (ignore (is_tbl tbl)) (\<lambda>rt.
     bind (ret (case rt of None \<Rightarrow> INT_MIN | Some (t, tbl_rec) \<Rightarrow> t)) (\<lambda>tid.
     seq (chk_tbl_range tid)
    (bind (ignore (is_fld None tid fld)) (\<lambda>rf.
     bind (ret (case rf of None \<Rightarrow> (INT_MIN, zero_fld_rec) | Some (f, nnf) \<Rightarrow> f)) (\<lambda>(i, fld_rec).
     seq (if i \<ge> 0 then
            bind (extract_checked fldspec ''filename=['') (\<lambda>fname.
            seq (guard (filename fld_rec \<noteq> fname))
           (bind (ignore (del_fld None tid None i True)) (\<lambda>_. ret ())))
          else ret ())
    (bind (extract_checked fldspec ''fldtype=['') (\<lambda>str_fldtype.
     bind (of_option (unstr_fldtype (Some str_fldtype))) (\<lambda>ft.
     bind (extract_checked fldspec ''filename=['') (\<lambda>fname.
     bind (ignore (lift_out (extract_S fldspec ''len=['' '']'' 1024))) (\<lambda>rl.
     bind (case rl of
             Some (Some str_len) \<Rightarrow>
               seq (guard (snd (strtoll str_len) = []))
              (seq (guard (\<not> to_int32 (fst (strtoll str_len)) < 2))
               (ret (to_int32 (fst (strtoll str_len)))))
           | _ \<Rightarrow> ret (-1)) (\<lambda>len.
     add_fld tid fld (-1) fname ft len)))))))))))"

subsection \<open>Auxiliary fields\<close>

definition del_aux_fld :: "int \<Rightarrow> AUX_TYPE \<Rightarrow> unit q_prog" where
  "del_aux_fld primary_fld_id at =
     seq (chk_fld_range primary_fld_id)
    (seq (guard (at = nn))
    (bind (fld_at primary_fld_id) (\<lambda>r.
     bind (ret (nn_fld_id r)) (\<lambda>aux_fld_id.
     seq (set_fld primary_fld_id (\<lambda>r. r\<lparr>nn_fld_id := -1\<rparr>))
    (if aux_fld_id \<ge> 0 then
       seq (if \<not> is_external r then bind (fld_at aux_fld_id) (\<lambda>a. unlink (filename a)) else ret ())
         (set_fld aux_fld_id (\<lambda>_. zero_fld_rec))
     else ret ())))))"

text \<open>The part of \<open>add_aux_fld\<close> after the look-ups: check the size of the file, pick the slot
  and connect the two fields.\<close>

definition link_aux :: "int \<Rightarrow> string \<Rightarrow> int \<times> int \<times> int \<Rightarrow> int q_prog" where
  "link_aux d fname = (\<lambda>(tid, fid, nn0).
     bind (tbl_at tid) (\<lambda>t.
     bind (q_mmap d fname False) (\<lambda>pX.
     seq (guard (size_t (nR t) = size_t (int (length (snd pX)))))
    (bind (fld_at fid) (\<lambda>r.
     bind (of_option (mk_name_aux_fld (Some (fld_name r)) nn)) (\<lambda>aux_fld.
     bind (if nn0 > 0 then ret nn0 else get_empty_fld (Some aux_fld)) (\<lambda>nnid.
     seq (set_fld nnid (\<lambda>_. zero_fld_rec))
    (seq (set_fld fid (\<lambda>r. r\<lparr>nn_fld_id := nnid\<rparr>))
    (seq (within (length fname \<le> MAX_LEN_FILE_NAME))
    (seq (set_fld nnid (\<lambda>r. r\<lparr>parent_id := fid, tbl_id := tid, is_external := False,
            auxtype := nn, fldtype := I1, fld_name := aux_fld, filename := fname, ddir_id := d\<rparr>))
     (ret nnid)))))))))))"

text \<open>\<open>add_aux_fld\<close>: the id of the auxiliary field.  An unknown auxiliary type would leave
  the local variable unset, hence the fault.\<close>

definition add_aux_fld ::
  "string option \<Rightarrow> int \<Rightarrow> string option \<Rightarrow> int \<Rightarrow> int \<Rightarrow> string option \<Rightarrow> string option \<Rightarrow> int q_prog" where
  "add_aux_fld tbl in_tbl_id fld in_fld_id d fname_arg str_auxtype =
     seq (if in_tbl_id < 0 then bind (arg_given tbl) (\<lambda>_. ret ()) else ret ())
    (seq (if in_fld_id < 0 then bind (arg_given fld) (\<lambda>_. ret ()) else ret ())
    (bind (arg_given str_auxtype) (\<lambda>_.
     bind (arg_given fname_arg) (\<lambda>fname.
     bind (if in_tbl_id \<ge> 0 \<and> in_fld_id \<ge> 0 then
             bind (fld_at in_fld_id) (\<lambda>r.
             seq (if nn_fld_id r \<ge> 0 then bind (fld_at (nn_fld_id r)) (\<lambda>_. ret ()) else ret ())
               (ret (in_tbl_id, in_fld_id, nn_fld_id r)))
           else
             bind (is_tbl tbl) (\<lambda>(t, tbl_rec).
             seq (chk_tbl_range t)
            (bind (is_fld tbl (-1) fld) (\<lambda>((i, fld_rec), (ni, nn_fld_rec)).
             seq (chk_fld_range i) (ret (t, i, ni)))))) (\<lambda>ids.
     seq (within (unstr_auxtype str_auxtype \<noteq> None))
    (seq (guard (unstr_auxtype str_auxtype = Some nn))
     (link_aux d fname ids)))))))"

definition drop_nn_fld :: "string option \<Rightarrow> string option \<Rightarrow> unit q_prog" where
  "drop_nn_fld tbl fld =
     bind (arg_given tbl) (\<lambda>_.
     bind (arg_given fld) (\<lambda>_.
     bind (is_tbl tbl) (\<lambda>(tid, tbl_rec).
     seq (chk_tbl_range tid)
    (bind (is_fld None tid fld) (\<lambda>((fid, fld_rec), (ni, nn_fld_rec)).
     seq (chk_fld_range fid)
    (bind (ignore (del_aux_fld fid nn)) (\<lambda>_. ret ())))))))"

definition mk_nn_fld ::
  "string option \<Rightarrow> string option \<Rightarrow> string option \<Rightarrow> string option \<Rightarrow> unit q_prog" where
  "mk_nn_fld src_tbl src_fld dst_tbl dst_fld =
     bind (arg_given src_tbl) (\<lambda>_.
     bind (arg_given src_fld) (\<lambda>_.
     bind (arg_given dst_tbl) (\<lambda>_.
     bind (arg_given dst_fld) (\<lambda>_.
     bind (is_tbl src_tbl) (\<lambda>(src_tbl_id, src_tbl_rec).
     seq (chk_tbl_range src_tbl_id)
    (bind (tbl_at src_tbl_id) (\<lambda>t1.
     bind (is_tbl dst_tbl) (\<lambda>(dst_tbl_id, dst_tbl_rec).
     seq (chk_tbl_range dst_tbl_id)
    (bind (tbl_at dst_tbl_id) (\<lambda>t2.
     seq (guard (nR t1 = nR t2))
    (bind (is_fld None src_tbl_id src_fld) (\<lambda>((src_fld_id, src_fld_rec), (nn_src_id, nn_src_rec)).
     seq (chk_fld_range src_fld_id)
    (seq (guard (fldtype src_fld_rec = I1))
    (seq (guard (\<not> nn_fld_id src_fld_rec \<ge> 0))
    (bind (is_fld None dst_tbl_id dst_fld) (\<lambda>((dst_fld_id, dst_fld_rec), (nn_dst_fld_id, nn_dst)).
     seq (chk_fld_range dst_fld_id)
    (seq (if nn_dst_fld_id \<ge> 0 then del_fld None dst_tbl_id None nn_dst_fld_id False else ret ())
    (bind (add_aux_fld None dst_tbl_id None dst_fld_id (ddir_id src_fld_rec)
             (Some (filename src_fld_rec)) (Some ''nn'')) (\<lambda>_.
     set_fld src_fld_id (\<lambda>_. zero_fld_rec))))))))))))))))))))"

subsection \<open>Renaming and moving\<close>

definition rename_tbl :: "string option \<Rightarrow> string option \<Rightarrow> unit q_prog" where
  "rename_tbl old_tbl new_tbl =
     bind (arg_given new_tbl) (\<lambda>new_name.
     bind (arg_given old_tbl) (\<lambda>old_name.
     seq (guard (new_name \<noteq> old_name))
    (bind (is_tbl old_tbl) (\<lambda>(old_tbl_id, old_tbl_rec).
     seq (chk_tbl_range old_tbl_id)
    (bind (is_tbl new_tbl) (\<lambda>(new_tbl_id, new_tbl_rec).
     seq (if new_tbl_id \<ge> 0 then bind (ignore (del_tbl None new_tbl_id)) (\<lambda>_. ret ()) else ret ())
    (seq (guard (chk_tbl_name new_tbl))
     (set_tbl old_tbl_id (\<lambda>r. r\<lparr>tbl_name := new_name\<rparr>)))))))))"

text \<open>Renaming an auxiliary field breaks the connection to its parent.\<close>

definition detach_aux :: "int \<Rightarrow> FLD_REC \<Rightarrow> unit q_prog" where
  "detach_aux old_fld_id r = (if parent_id r \<ge> 0 then
     bind (fld_at (parent_id r)) (\<lambda>p.
     seq (guard (nn_fld_id p = old_fld_id))
    (seq (guard (fldtype r = I1 \<or> fldtype r = B))
    (seq (set_fld (parent_id r) (\<lambda>p. p\<lparr>nn_fld_id := -1\<rparr>))
     (set_fld old_fld_id (\<lambda>r. r\<lparr>parent_id := -1, auxtype := undef\<rparr>)))))
     else ret ())"

text \<open>The new name, and the new name of the nn field.\<close>

definition rename_names :: "string \<Rightarrow> int \<Rightarrow> int \<Rightarrow> unit q_prog" where
  "rename_names new_name old_fld_id nn_old_fld_id =
     seq (guard (chk_fld_name (Some new_name) 0))
    (seq (set_fld old_fld_id (\<lambda>r. r\<lparr>fld_name := new_name\<rparr>))
    (if nn_old_fld_id \<ge> 0 then
       seq (guard (length new_name + length ''_nn_'' \<le> MAX_LEN_FLD_NAME))
         (set_fld nn_old_fld_id (\<lambda>r. r\<lparr>fld_name := ''_nn_'' @ new_name\<rparr>))
     else ret ()))"

definition rename_fld :: "string option \<Rightarrow> string option \<Rightarrow> string option \<Rightarrow> unit q_prog" where
  "rename_fld tbl old_fld new_fld =
     bind (arg_given tbl) (\<lambda>_.
     bind (arg_given new_fld) (\<lambda>new_name.
     bind (arg_given old_fld) (\<lambda>old_name.
     seq (guard (new_name \<noteq> old_name))
    (bind (is_tbl tbl) (\<lambda>(tid, tbl_rec).
     seq (chk_tbl_range tid)
    (bind (is_fld None tid old_fld) (\<lambda>((old_fld_id, old_fld_rec), (nn_old_fld_id, nn_old)).
     seq (chk_fld_range old_fld_id)
    (bind (is_fld None tid new_fld) (\<lambda>((new_fld_id, new_fld_rec), nn_new).
     bind (fld_at old_fld_id) (\<lambda>r.
     seq (detach_aux old_fld_id r)
    (seq (if new_fld_id \<ge> 0 then del_fld None tid None new_fld_id True else ret ())
     (rename_names new_name old_fld_id nn_old_fld_id))))))))))))"

definition mv_fld :: "string option \<Rightarrow> string option \<Rightarrow> string option \<Rightarrow> unit q_prog" where
  "mv_fld src_tbl src_fld dst_tbl =
     bind (arg_given src_tbl) (\<lambda>_.
     bind (arg_given src_fld) (\<lambda>_.
     bind (arg_given dst_tbl) (\<lambda>_.
     bind (is_tbl src_tbl) (\<lambda>(src_tbl_id, src_tbl_rec).
     seq (chk_tbl_range src_tbl_id)
    (bind (tbl_at src_tbl_id) (\<lambda>t1.
     bind (is_tbl dst_tbl) (\<lambda>(dst_tbl_id, dst_tbl_rec).
     seq (chk_tbl_range dst_tbl_id)
    (bind (tbl_at dst_tbl_id) (\<lambda>t2.
     seq (guard (nR t1 = nR t2))
    (bind (is_fld None src_tbl_id src_fld) (\<lambda>((src_fld_id, src_fld_rec), (nn_src_fld_id, nn_src_rec)).
     seq (chk_fld_range src_fld_id)
    (bind (add_fld dst_tbl_id src_fld (ddir_id src_fld_rec) (filename src_fld_rec)
             (fldtype src_fld_rec) (-1)) (\<lambda>(dst_fld_id, dst_fld_rec).
     bind (fld_at src_fld_id) (\<lambda>r.
     seq (set_fld dst_fld_id (\<lambda>d. d\<lparr>sort_type := sort_type r\<rparr>))
    (seq (if nn_src_fld_id \<ge> 0 then
            bind (add_aux_fld None dst_tbl_id None dst_fld_id (ddir_id nn_src_rec)
                    (Some (filename nn_src_rec)) (Some ''nn'')) (\<lambda>_. ret ())
          else ret ())
    (seq (set_fld src_fld_id (\<lambda>_. zero_fld_rec))
    (if nn_src_fld_id \<ge> 0 then set_fld nn_src_fld_id (\<lambda>_. zero_fld_rec) else ret ())))))))))))))))))"

subsection \<open>Row counts and attributes\<close>

definition set_nR :: "string option \<Rightarrow> string option \<Rightarrow> unit q_prog" where
  "set_nR tbl str_nR =
     bind (arg_given str_nR) (\<lambda>v.
     seq (guard (\<not> fst (strtoll v) \<le> 0))
    (bind (arg_given tbl) (\<lambda>_.
     bind (is_tbl tbl) (\<lambda>(tid, tbl_rec).
     seq (chk_tbl_range tid)
     (set_tbl tid (\<lambda>r. r\<lparr>nR := fst (strtoll v)\<rparr>))))))"

definition get_nR :: "string option \<Rightarrow> int q_prog" where
  "get_nR tbl =
     bind (is_tbl tbl) (\<lambda>(tid, tbl_rec).
     seq (chk_tbl_range tid)
    (bind (tbl_at tid) (\<lambda>r. ret (nR r))))"

definition int_get_nR :: "int \<Rightarrow> int q_prog" where
  "int_get_nR tid = seq (chk_tbl_range tid) (bind (tbl_at tid) (\<lambda>r. ret (nR r)))"

definition is_nn_fld :: "string option \<Rightarrow> string option \<Rightarrow> (int \<times> string) q_prog" where
  "is_nn_fld tbl fld =
     bind (arg_given tbl) (\<lambda>_.
     bind (arg_given fld) (\<lambda>_.
     bind (is_tbl tbl) (\<lambda>(tid, tbl_rec).
     seq (chk_tbl_range tid)
    (bind (is_fld None tid fld) (\<lambda>((fid, fld_rec), (ni, nn_rec)).
     seq (chk_fld_range fid)
    (bind (fld_at fid) (\<lambda>r.
     ret (nn_fld_id r, if nn_fld_id r \<ge> 0 then ''1,'' @ dec_int (nn_fld_id r) else ''0,-1''))))))))"

text \<open>The branches of \<open>int_set_meta\<close>, one per attribute.\<close>

definition set_dict_tbl_id :: "int \<Rightarrow> string \<Rightarrow> unit q_prog" where
  "set_dict_tbl_id fid val =
     bind (ret (to_int32 (fst (strtoll val)))) (\<lambda>dict.
     seq (guard (snd (strtoll val) = []))
    (bind (fld_at fid) (\<lambda>r.
     seq (guard (fldtype r = I1 \<or> fldtype r = I2 \<or> fldtype r = I4))
    (bind (gets g_tbls) (\<lambda>ts.
     seq (guard (\<not> dict > int (length ts)))
     (set_fld fid (\<lambda>r. r\<lparr>dict_tbl_id := dict\<rparr>)))))))"

definition set_cnt :: "int \<Rightarrow> string \<Rightarrow> unit q_prog" where
  "set_cnt fid val =
     bind (ret (fst (strtoll val))) (\<lambda>c.
     seq (guard (snd (strtoll val) = []))
    (bind (fld_at fid) (\<lambda>r.
     bind (tbl_at (tbl_id r)) (\<lambda>t.
     seq (guard (\<not> c > nR t))
    (seq (guard (\<not> (c < 0 \<and> c \<noteq> -1)))
     (set_fld fid (\<lambda>r. r\<lparr>cnt := c\<rparr>)))))))"

definition set_fldtype :: "int \<Rightarrow> string \<Rightarrow> unit q_prog" where
  "set_fldtype fid val =
     bind (of_option (unstr_fldtype (Some val))) (\<lambda>ft.
     bind (fld_at fid) (\<lambda>r.
     if fldtype r = ft then ret () else set_fld fid (\<lambda>r. r\<lparr>fldtype := ft\<rparr>)))"

definition unstr_sort_type :: "string \<Rightarrow> SORT_TYPE option" where
  "unstr_sort_type val =
     (if val = ''unknown'' then Some unknown
      else if val = ''ascending'' then Some ascending
      else if val = ''descending'' then Some descending
      else if val = ''unsorted'' then Some unsorted
      else None)"

definition set_sort_type :: "int \<Rightarrow> string \<Rightarrow> unit q_prog" where
  "set_sort_type fid val =
     bind (of_option (unstr_sort_type val)) (\<lambda>st. set_fld fid (\<lambda>r. r\<lparr>sort_type := st\<rparr>))"

definition set_is_dict_tbl :: "int \<Rightarrow> int \<Rightarrow> string \<Rightarrow> unit q_prog" where
  "set_is_dict_tbl tid fid val =
     seq (guard (\<not> fid \<ge> 0))
     (if val = ''true'' then set_tbl tid (\<lambda>r. r\<lparr>is_dict_tbl := True\<rparr>)
      else if val = ''false'' then set_tbl tid (\<lambda>r. r\<lparr>is_dict_tbl := False\<rparr>)
      else bye)"

definition set_disp_name :: "int \<Rightarrow> int \<Rightarrow> string \<Rightarrow> unit q_prog" where
  "set_disp_name tid fid val =
     (if fid < 0 then
        seq (guard (length val \<le> MAX_LEN_TBL_DISP_NAME))
       (bind (gets g_tbls) (\<lambda>ts.
        seq (guard (list_all (\<lambda>t. tbl_dispname t \<noteq> val) ts))
        (set_tbl tid (\<lambda>r. r\<lparr>tbl_dispname := val\<rparr>))))
      else
        seq (guard (length val \<le> MAX_LEN_FLD_DISP_NAME))
       (bind (gets g_flds) (\<lambda>fs.
        seq (guard (list_all (\<lambda>f. \<not> (tbl_id f = tid \<and> fld_dispname f = val)) fs))
        (set_fld fid (\<lambda>r. r\<lparr>fld_dispname := val\<rparr>)))))"

definition int_set_meta :: "int \<Rightarrow> int \<Rightarrow> string option \<Rightarrow> string option \<Rightarrow> unit q_prog" where
  "int_set_meta tid fid attr_arg value_arg =
     bind (of_option attr_arg) (\<lambda>attr.
     bind (arg_given value_arg) (\<lambda>val.
     if attr = ''dict_tbl_id'' then set_dict_tbl_id fid val
     else if attr = ''cnt'' then set_cnt fid val
     else if attr = ''fldtype'' then set_fldtype fid val
     else if attr = ''sort_type'' then set_sort_type fid val
     else if attr = ''is_dict_tbl'' then set_is_dict_tbl tid fid val
     else if attr = ''disp_name'' then set_disp_name tid fid val
     else bye))"

definition set_meta ::
  "string option \<Rightarrow> string option \<Rightarrow> string option \<Rightarrow> string option \<Rightarrow> unit q_prog" where
  "set_meta tbl fld attr val =
     bind (is_tbl tbl) (\<lambda>(tid, tbl_rec).
     seq (chk_tbl_range tid)
    (bind (if fld = None \<or> fld = Some [] then ret INT_MIN
           else bind (is_fld None tid fld) (\<lambda>((fid, fld_rec), nnf).
                seq (chk_fld_range fid) (ret fid))) (\<lambda>fid.
     int_set_meta tid fid attr val)))"

definition int_get_meta :: "int \<Rightarrow> int \<Rightarrow> string option \<Rightarrow> string q_prog" where
  "int_get_meta tid fid attr_arg =
     seq (chk_tbl_range tid)
    (seq (chk_fld_range fid)
    (bind (fld_at fid) (\<lambda>r.
     seq (guard (tbl_id r = tid))
    (bind (of_option attr_arg) (\<lambda>attr.
     if attr = ''sort_type'' then ret (mk_str_sort_type (sort_type r))
     else if attr = ''is_external'' then ret (dec_int (if is_external r then 1 else 0))
     else if attr = ''dict_tbl_id'' then ret (dec_int (dict_tbl_id r))
     else bye)))))"

definition get_meta :: "string option \<Rightarrow> string option \<Rightarrow> string option \<Rightarrow> string q_prog" where
  "get_meta tbl fld attr =
     bind (is_tbl tbl) (\<lambda>(tid, tbl_rec).
     seq (chk_tbl_range tid)
    (bind (if fld = None \<or> fld = Some [] then ret INT_MIN
           else bind (is_fld None tid fld) (\<lambda>((fid, fld_rec), nnf).
                seq (chk_fld_range fid) (ret fid))) (\<lambda>fid.
     int_get_meta tid fid attr)))"

subsection \<open>Duplicating a field\<close>

text \<open>The copy of the nn data is mapped in the data directory and the status of that
  map is not checked: when it fails the bytes go to the map still held for \<open>f2\<close>.\<close>

definition copy_nn_data :: "string \<Rightarrow> string \<times> byte list \<Rightarrow> byte list \<Rightarrow> unit q_prog" where
  "copy_nn_data nn_opfile Y nn_X =
     bind (gets g_data_dir) (\<lambda>dd.
     seq (chdir_ignored dd)
    (bind (ignore (rs_mmap nn_opfile True)) (\<lambda>m.
     seq leave_ddir
    (bind (ret (case m of Some y \<Rightarrow> y | None \<Rightarrow> Y)) (\<lambda>(path, bs).
     seq (within (length nn_X \<le> length bs))
     (write_map path (nn_X @ drop (length nn_X) bs)))))))"

definition dup_fld :: "string option \<Rightarrow> string option \<Rightarrow> string option \<Rightarrow> unit q_prog" where
  "dup_fld tbl f1 f2 =
     bind (arg_given tbl) (\<lambda>_.
     bind (arg_given f1) (\<lambda>name1.
     bind (arg_given f2) (\<lambda>name2.
     seq (guard (name1 \<noteq> name2))
    (bind (is_tbl tbl) (\<lambda>(tid, tbl_rec).
     seq (chk_tbl_range tid)
    (bind (is_fld None tid f2) (\<lambda>((f2_id0, f2_rec), nn2).
     seq (if f2_id0 \<ge> 0 then del_fld None tid None f2_id0 True else ret ())
    (bind (is_fld None tid f1) (\<lambda>((f1_id, f1_rec), nn1).
     seq (chk_fld_range f1_id)
    (bind (fld_at f1_id) (\<lambda>r1.
     bind (get_data r1 False) (\<lambda>(xpath, X).
     bind (mk_temp_file (length X)) (\<lambda>(opfile, d).
     bind (q_mmap d opfile True) (\<lambda>(ypath, Y0).
     seq (within (length X \<le> length Y0))
    (seq (write_map ypath (X @ drop (length X) Y0))
    (bind (get_empty_fld f2) (\<lambda>f2_id.
     seq (within (length name2 \<le> MAX_LEN_FLD_NAME))
    (seq (set_fld f2_id (\<lambda>_. r1\<lparr>is_external := False, nn_fld_id := -1, fld_name := name2,
            filename := opfile, fld_dispname := [], ddir_id := d\<rparr>))
    (bind (fld_at f1_id) (\<lambda>r1'.
     if nn_fld_id r1' \<ge> 0 then
       bind (fld_at (nn_fld_id r1')) (\<lambda>nr.
       bind (get_data nr False) (\<lambda>(nn_xpath, nn_X).
       bind (mk_temp_file (length nn_X)) (\<lambda>(nn_opfile, nn_d).
       seq (copy_nn_data nn_opfile (ypath, X @ drop (length X) Y0) nn_X)
      (bind (add_aux_fld None tid None f2_id nn_d (Some nn_opfile) (Some ''nn'')) (\<lambda>_. ret ())))))
     else guard (chk_fld_name f2 0)))))))))))))))))))))"

end
