(* ===== verification/Q_Invariant.thy ===== *)
theory Q_Invariant
  imports Q_Verbs
begin

text \<open>
  The invariant of the meta data and its preservation by the verbs.  Every field
  slot is either blank or belongs to a live table; a primary field and its nn field
  point at each other; names and file names fit their buffers; directories are
  known.  The first part is about the array of fields alone, the second lifts it to
  the programs through the weakest-precondition calculus.
\<close>

subsection \<open>Fields\<close>

definition live_tbl :: "TBL_REC list \<Rightarrow> int \<Rightarrow> bool" where
  "live_tbl ts t \<longleftrightarrow> in_range t ts \<and> tbl_name (ts ! nat t) \<noteq> []"

definition local_ok :: "TBL_REC list \<Rightarrow> string list \<Rightarrow> FLD_REC \<Rightarrow> bool" where
  "local_ok ts ds f \<longleftrightarrow>
     (tbl_id f = -1 \<or> live_tbl ts (tbl_id f)) \<and>
     (fld_name f \<noteq> [] \<longrightarrow> tbl_id f \<noteq> -1) \<and>
     (dict_tbl_id f \<ge> 0 \<longrightarrow> tbl_id f \<noteq> -1) \<and>
     (ddir_id f \<ge> 0 \<longrightarrow> in_range (ddir_id f) ds \<and> ds ! nat (ddir_id f) \<noteq> []) \<and>
     length (fld_name f) \<le> MAX_LEN_FLD_NAME \<and> length (filename f) \<le> MAX_LEN_FILE_NAME"

definition link_ok :: "FLD_REC list \<Rightarrow> nat \<Rightarrow> bool" where
  "link_ok fs i \<longleftrightarrow>
     (nn_fld_id (fs ! i) \<ge> 0 \<longrightarrow> auxtype (fs ! i) = undef \<and> fld_name (fs ! i) \<noteq> [] \<and>
        (\<exists>k < length fs. nn_fld_id (fs ! i) = int k \<and> auxtype (fs ! k) = nn \<and>
           parent_id (fs ! k) = int i \<and> tbl_id (fs ! k) = tbl_id (fs ! i) \<and> fld_name (fs ! k) \<noteq> [])) \<and>
     (auxtype (fs ! i) = nn \<longrightarrow>
        (\<exists>p < length fs. parent_id (fs ! i) = int p \<and> nn_fld_id (fs ! p) = int i)) \<and>
     (auxtype (fs ! i) = undef \<longrightarrow> parent_id (fs ! i) < 0)"

definition fields_ok :: "TBL_REC list \<Rightarrow> string list \<Rightarrow> FLD_REC list \<Rightarrow> bool" where
  "fields_ok ts ds fs \<longleftrightarrow>
     (\<forall>i < length fs. local_ok ts ds (fs ! i)) \<and> (\<forall>i < length fs. link_ok fs i)"

text \<open>A slot without links, to or from it.\<close>

definition unlinked :: "FLD_REC \<Rightarrow> bool" where
  "unlinked f \<longleftrightarrow> auxtype f = undef \<and> nn_fld_id f < 0"

lemma fields_ok_local: "fields_ok ts ds fs \<Longrightarrow> i < length fs \<Longrightarrow> local_ok ts ds (fs ! i)"
  by (simp add: fields_ok_def)

lemma fields_ok_link: "fields_ok ts ds fs \<Longrightarrow> i < length fs \<Longrightarrow> link_ok fs i"
  by (simp add: fields_ok_def)

lemma nn_partner:
  assumes "fields_ok ts ds fs" and "i < length fs" and "nn_fld_id (fs ! i) \<ge> 0"
  obtains k where "k < length fs" "nn_fld_id (fs ! i) = int k" "auxtype (fs ! k) = nn"
    "parent_id (fs ! k) = int i" "tbl_id (fs ! k) = tbl_id (fs ! i)" "fld_name (fs ! k) \<noteq> []"
    "auxtype (fs ! i) = undef" "fld_name (fs ! i) \<noteq> []" "k \<noteq> i" "nn_fld_id (fs ! k) < 0"
proof -
  have l: "link_ok fs i" using assms fields_ok_link by blast
  then obtain k where k: "k < length fs" "nn_fld_id (fs ! i) = int k" "auxtype (fs ! k) = nn"
    "parent_id (fs ! k) = int i" "tbl_id (fs ! k) = tbl_id (fs ! i)" "fld_name (fs ! k) \<noteq> []"
    using assms(3) unfolding link_ok_def by blast
  have u: "auxtype (fs ! i) = undef" "fld_name (fs ! i) \<noteq> []"
    using l assms(3) unfolding link_ok_def by blast+
  have "link_ok fs k" using assms(1) k(1) fields_ok_link by blast
  then have "nn_fld_id (fs ! k) < 0"
    using k(3) unfolding link_ok_def by (cases "nn_fld_id (fs ! k) \<ge> 0") auto
  moreover have "k \<noteq> i" using u k by auto
  ultimately show ?thesis using that k u by blast
qed

lemma aux_parent:
  assumes "fields_ok ts ds fs" and "i < length fs" and "auxtype (fs ! i) = nn"
  obtains p where "p < length fs" "parent_id (fs ! i) = int p" "nn_fld_id (fs ! p) = int i"
    "auxtype (fs ! p) = undef" "fld_name (fs ! p) \<noteq> []" "fld_name (fs ! i) \<noteq> []" "p \<noteq> i"
    "tbl_id (fs ! i) = tbl_id (fs ! p)" "nn_fld_id (fs ! i) < 0"
proof -
  obtain p where p: "p < length fs" "parent_id (fs ! i) = int p" "nn_fld_id (fs ! p) = int i"
    using assms fields_ok_link unfolding link_ok_def by blast
  obtain k where "nn_fld_id (fs ! p) = int k" "auxtype (fs ! p) = undef" "fld_name (fs ! p) \<noteq> []"
    "fld_name (fs ! k) \<noteq> []" "k \<noteq> p" "tbl_id (fs ! k) = tbl_id (fs ! p)" "nn_fld_id (fs ! k) < 0"
    by (rule nn_partner[OF assms(1) p(1)]) (use p(3) in auto)
  then show ?thesis using that[of p] p by auto
qed

lemma free_unlinked:
  assumes "fields_ok ts ds fs" and "i < length fs" and "fld_name (fs ! i) = []"
  shows "unlinked (fs ! i)"
proof (cases "auxtype (fs ! i)")
  case undef
  then show ?thesis
    using fields_ok_link[OF assms(1,2)] assms(3) by (auto simp: link_ok_def unlinked_def)
next
  case nn
  then show ?thesis using aux_parent[OF assms(1,2)] assms(3) by metis
qed

lemma primary_parent:
  assumes "fields_ok ts ds fs" and "i < length fs"
  shows "parent_id (fs ! i) < 0 \<longleftrightarrow> auxtype (fs ! i) = undef"
proof (cases "auxtype (fs ! i)")
  case nn
  obtain p where "parent_id (fs ! i) = int p" by (rule aux_parent[OF assms nn])
  then show ?thesis using nn by simp
qed (use assms in \<open>simp add: fields_ok_def link_ok_def\<close>)

subsection \<open>Updates of the array that keep the invariant\<close>

text \<open>Store a record without links in a slot without links.\<close>

lemma store_unlinked:
  assumes ok: "fields_ok ts ds fs" and i: "i < length fs" and u: "unlinked (fs ! i)"
    and r: "unlinked r" "parent_id r < 0" "local_ok ts ds r"
  shows "fields_ok ts ds (fs[i := r])"
proof -
  have link: "link_ok (fs[i := r]) j" if j: "j < length fs" for j
  proof (cases "j = i")
    case True
    then show ?thesis using i r by (auto simp: link_ok_def unlinked_def)
  next
    case False
    have "nn_fld_id (fs ! j) \<noteq> int i"
      using nn_partner[OF ok j] u unfolding unlinked_def
      by (metis AUX_TYPE.distinct(1) nat_int of_nat_0_le_iff)
    moreover have "parent_id (fs ! j) \<noteq> int i" if "auxtype (fs ! j) = nn"
      using aux_parent[OF ok j that] u unfolding unlinked_def
      by (metis nat_int not_less of_nat_0_le_iff)
    ultimately show ?thesis
      using fields_ok_link[OF ok j] False i unfolding link_ok_def
      by (simp add: nth_list_update_neq) (metis (no_types) nth_list_update_neq)
  qed
  show ?thesis
    using link ok r(3) i unfolding fields_ok_def by (auto simp: nth_list_update)
qed

text \<open>Change attributes of a field that carry no links.\<close>

definition same_links :: "FLD_REC \<Rightarrow> FLD_REC \<Rightarrow> bool" where
  "same_links r r' \<longleftrightarrow> (nn_fld_id r' = nn_fld_id r \<or> nn_fld_id r' < 0 \<and> nn_fld_id r < 0) \<and>
     parent_id r' = parent_id r \<and>
     auxtype r' = auxtype r \<and> tbl_id r' = tbl_id r \<and> (fld_name r \<noteq> [] \<longrightarrow> fld_name r' \<noteq> [])"

lemma store_same_links:
  assumes ok: "fields_ok ts ds fs" and i: "i < length fs"
    and r: "same_links (fs ! i) r" "local_ok ts ds r"
  shows "fields_ok ts ds (fs[i := r])"
proof -
  have same: "same_links (fs ! j) (fs[i := r] ! j)" for j
    using r(1) i by (cases "j = i") (auto simp: same_links_def)
  have nn: "nn_fld_id (fs[i := r] ! j) = nn_fld_id (fs ! j)" if "nn_fld_id (fs ! j) \<ge> 0 \<or> nn_fld_id (fs[i := r] ! j) \<ge> 0" for j
    using same[of j] that by (auto simp: same_links_def)
  have keep: "auxtype (fs[i := r] ! j) = auxtype (fs ! j)" "parent_id (fs[i := r] ! j) = parent_id (fs ! j)"
    "tbl_id (fs[i := r] ! j) = tbl_id (fs ! j)" "fld_name (fs ! j) \<noteq> [] \<Longrightarrow> fld_name (fs[i := r] ! j) \<noteq> []" for j
    using same[of j] by (auto simp: same_links_def)
  have link: "link_ok (fs[i := r]) j" if "j < length fs" for j
    using fields_ok_link[OF ok that] nn keep unfolding link_ok_def
    by (metis length_list_update of_nat_0_le_iff)
  show ?thesis
    using link ok r(2) i unfolding fields_ok_def by (auto simp: nth_list_update)
qed

text \<open>Cut the link between a primary field and its nn field.\<close>

lemma cut_link:
  assumes ok: "fields_ok ts ds fs" and p: "p < length fs" and k: "nn_fld_id (fs ! p) = int k"
  shows "fields_ok ts ds (fs[p := (fs ! p)\<lparr>nn_fld_id := -1\<rparr>,
           k := (fs ! k)\<lparr>parent_id := -1, auxtype := undef\<rparr>])"
    (is "fields_ok ts ds ?fs'")
proof -
  have kl: "k < length fs" "auxtype (fs ! k) = nn" "parent_id (fs ! k) = int p" "k \<noteq> p"
    "auxtype (fs ! p) = undef" "nn_fld_id (fs ! k) < 0"
    using nn_partner[OF ok p] k by (metis nat_int of_nat_0_le_iff)+
  have pp: "parent_id (fs ! p) < 0" using kl(5) primary_parent[OF ok p] by simp
  have link: "link_ok ?fs' j" if j: "j < length fs" for j
  proof -
    consider "j = p" | "j = k" | "j \<noteq> p" "j \<noteq> k" by blast
    then show ?thesis
    proof cases
      case 3
      have a: "nn_fld_id (fs ! j) \<noteq> int k"
        using nn_partner[OF ok j] kl(3) 3 by (metis nat_int of_nat_0_le_iff)
      have a': "nn_fld_id (fs ! j) \<noteq> int p"
        using nn_partner[OF ok j] kl(5) by (metis AUX_TYPE.distinct(1) nat_int of_nat_0_le_iff)
      have b: "parent_id (fs ! j) \<noteq> int p" if "auxtype (fs ! j) = nn"
        using aux_parent[OF ok j that] k 3 by (metis nat_int)
      have b': "parent_id (fs ! j) \<noteq> int k" if "auxtype (fs ! j) = nn"
        using aux_parent[OF ok j that] kl(2) by (metis AUX_TYPE.distinct(1) nat_int)
      show ?thesis
        using fields_ok_link[OF ok j] 3 a a' b b' unfolding link_ok_def
        by (simp add: nth_list_update_neq) (metis (no_types) nth_list_update_neq)
    qed (use p kl pp in \<open>simp_all add: link_ok_def\<close>)
  qed
  show ?thesis
    using link ok p kl(1) unfolding fields_ok_def local_ok_def by (auto simp: nth_list_update)
qed

text \<open>Make a record in a slot without links the nn field of a primary field.\<close>

lemma make_link:
  assumes ok: "fields_ok ts ds fs" and p: "p < length fs" and i: "i < length fs" and "p \<noteq> i"
    and up: "unlinked (fs ! p)" "fld_name (fs ! p) \<noteq> []" and ui: "unlinked (fs ! i)"
    and r: "auxtype r = nn" "parent_id r = int p" "nn_fld_id r < 0" "tbl_id r = tbl_id (fs ! p)"
      "fld_name r \<noteq> []" "local_ok ts ds r"
  shows "fields_ok ts ds (fs[p := (fs ! p)\<lparr>nn_fld_id := int i\<rparr>, i := r])"
    (is "fields_ok ts ds ?fs'")
proof -
  have pp: "parent_id (fs ! p) < 0" "auxtype (fs ! p) = undef"
    using up(1) primary_parent[OF ok p] by (auto simp: unlinked_def)
  have link: "link_ok ?fs' j" if j: "j < length fs" for j
  proof -
    consider "j = p" | "j = i" | "j \<noteq> p" "j \<noteq> i" by blast
    then show ?thesis
    proof cases
      case 1
      then show ?thesis using p i assms(4) up r pp by (auto simp: link_ok_def)
    next
      case 2
      have "?fs' ! i = r" "?fs' ! p = (fs ! p)\<lparr>nn_fld_id := int i\<rparr>" "p < length ?fs'"
        using p i assms(4) by simp_all
      then show ?thesis using 2 r by (auto simp: link_ok_def)
    next
      case 3
      have a: "nn_fld_id (fs ! j) \<noteq> int m" if "m = p \<or> m = i" for m
        using nn_partner[OF ok j] up(1) ui that unfolding unlinked_def
        by (metis AUX_TYPE.distinct(1) nat_int of_nat_0_le_iff)
      have b: "parent_id (fs ! j) \<noteq> int m" if "auxtype (fs ! j) = nn" "m = p \<or> m = i" for m
        using aux_parent[OF ok j that(1)] up(1) ui that(2) unfolding unlinked_def
        by (metis nat_int not_less of_nat_0_le_iff)
      show ?thesis
        using fields_ok_link[OF ok j] 3 a b unfolding link_ok_def
        by (simp add: nth_list_update_neq) (metis (no_types) nth_list_update_neq)
    qed
  qed
  show ?thesis
    using link ok p i r(6) unfolding fields_ok_def local_ok_def by (auto simp: nth_list_update)
qed

text \<open>Erase a primary field together with its nn field.\<close>

definition erase :: "FLD_REC list \<Rightarrow> nat \<Rightarrow> FLD_REC list" where
  "erase fs i = (if nn_fld_id (fs ! i) \<ge> 0
     then fs[i := zero_fld_rec, nat (nn_fld_id (fs ! i)) := zero_fld_rec]
     else fs[i := zero_fld_rec])"

lemma local_ok_zero [simp]: "local_ok ts ds zero_fld_rec"
  by (simp add: local_ok_def)

lemma unlinked_zero [simp]: "unlinked zero_fld_rec"
  by (simp add: unlinked_def)

lemma length_erase [simp]: "length (erase fs i) = length fs"
  by (simp add: erase_def)

lemma erase_ok:
  assumes ok: "fields_ok ts ds fs" and i: "i < length fs" and u: "auxtype (fs ! i) = undef"
  shows "fields_ok ts ds (erase fs i)"
proof (cases "nn_fld_id (fs ! i) \<ge> 0")
  case False
  then show ?thesis
    using store_unlinked[OF ok i] u by (simp add: erase_def unlinked_def)
next
  case True
  then obtain k where k: "k < length fs" "nn_fld_id (fs ! i) = int k" "k \<noteq> i" "nn_fld_id (fs ! k) < 0"
    using nn_partner[OF ok i] by metis
  let ?fs1 = "fs[i := (fs ! i)\<lparr>nn_fld_id := -1\<rparr>, k := (fs ! k)\<lparr>parent_id := -1, auxtype := undef\<rparr>]"
  have ok1: "fields_ok ts ds ?fs1" by (rule cut_link[OF ok i k(2)])
  have ok2: "fields_ok ts ds (?fs1[k := zero_fld_rec])"
    using k i by (intro store_unlinked[OF ok1]) (auto simp: unlinked_def)
  have "fields_ok ts ds (?fs1[k := zero_fld_rec, i := zero_fld_rec])"
    using k i u by (intro store_unlinked[OF ok2]) (auto simp: unlinked_def nth_list_update)
  then show ?thesis
    using True k by (simp add: erase_def list_update_swap)
qed

lemma erase_other:
  "j \<noteq> i \<Longrightarrow> (nn_fld_id (fs ! i) \<ge> 0 \<Longrightarrow> int j \<noteq> nn_fld_id (fs ! i)) \<Longrightarrow> erase fs i ! j = fs ! j"
  by (cases "nat (nn_fld_id (fs ! i)) = j") (auto simp: erase_def)

lemma erase_self: "i < length fs \<Longrightarrow> erase fs i ! i = zero_fld_rec"
  by (cases "nat (nn_fld_id (fs ! i)) = i") (auto simp: erase_def)

text \<open>Two fields never share an nn field.\<close>

lemma nn_inj:
  assumes "fields_ok ts ds fs" and "i < length fs" and "j < length fs"
    and "nn_fld_id (fs ! i) \<ge> 0" and "nn_fld_id (fs ! i) = nn_fld_id (fs ! j)"
  shows "i = j"
proof -
  obtain k where k: "nn_fld_id (fs ! i) = int k" "parent_id (fs ! k) = int i"
    by (rule nn_partner[OF assms(1,2,4)])
  obtain m where m: "nn_fld_id (fs ! j) = int m" "parent_id (fs ! m) = int j"
    by (rule nn_partner[OF assms(1,3)]) (use assms in auto)
  show ?thesis using k m assms(5) by simp
qed

end
