(* ===== verification/Q_Preserve.thy ===== *)
theory Q_Preserve
  imports Q_Invariant
begin

text \<open>
  The verbs keep the invariant of the meta data and never read outside an array.
  Each verb has a rule of the weakest-precondition calculus; the rules for deleting
  give the exact meta data afterwards.
\<close>

subsection \<open>The invariant of the state\<close>

definition meta_inv :: "q_state \<Rightarrow> bool" where
  "meta_inv s \<longleftrightarrow> ht_ok s \<and> fields_ok (g_tbls s) (g_ddirs s) (g_flds s) \<and>
     (g_alt_ddir_id s \<ge> 0 \<longrightarrow> in_range (g_alt_ddir_id s) (g_ddirs s) \<and>
        g_ddirs s ! nat (g_alt_ddir_id s) \<noteq> []) \<and>
     (\<forall>x \<in> set (env_tmp s). length x = 6)"

text \<open>\<open>flds_upd s fs s'\<close>: the meta data of \<open>s'\<close> is that of \<open>s\<close> with the fields \<open>fs\<close>.\<close>

definition meta_of :: "q_state \<Rightarrow> q_state" where
  "meta_of s = s\<lparr>p_cwd := [], files := (\<lambda>_. None)\<rparr>"

definition flds_upd :: "q_state \<Rightarrow> FLD_REC list \<Rightarrow> q_state \<Rightarrow> bool" where
  "flds_upd s fs s' \<longleftrightarrow> meta_of s' = meta_of (s\<lparr>g_flds := fs\<rparr>)"

lemma meta_of_simps [simp]:
  "meta_of (s\<lparr>p_cwd := c\<rparr>) = meta_of s" "meta_of (s\<lparr>files := f\<rparr>) = meta_of s"
  "meta_of (s\<lparr>g_flds := fs\<rparr>) = (meta_of s)\<lparr>g_flds := fs\<rparr>"
  "meta_of (s\<lparr>g_tbls := ts\<rparr>) = (meta_of s)\<lparr>g_tbls := ts\<rparr>"
  "g_flds (meta_of s) = g_flds s" "g_tbls (meta_of s) = g_tbls s" "g_ddirs (meta_of s) = g_ddirs s"
  "g_ht_tbl (meta_of s) = g_ht_tbl s" "g_ht_fld (meta_of s) = g_ht_fld s"
  "g_alt_ddir_id (meta_of s) = g_alt_ddir_id s" "env_tmp (meta_of s) = env_tmp s"
  "g_data_dir (meta_of s) = g_data_dir s" "g_cwd (meta_of s) = g_cwd s"
  by (simp_all add: meta_of_def)

lemma meta_of_cong:
  assumes "meta_of s = meta_of s'"
  shows "g_flds s = g_flds s'" "g_tbls s = g_tbls s'" "g_ddirs s = g_ddirs s'"
    "g_ht_tbl s = g_ht_tbl s'" "g_ht_fld s = g_ht_fld s'"
    "g_alt_ddir_id s = g_alt_ddir_id s'" "env_tmp s = env_tmp s'" "g_data_dir s = g_data_dir s'"
    "g_cwd s = g_cwd s'"
  using assms meta_of_simps(5-13) by metis+

lemma flds_updD:
  assumes "flds_upd s fs s'"
  shows "g_flds s' = fs" "g_tbls s' = g_tbls s" "g_ddirs s' = g_ddirs s"
    "g_ht_tbl s' = g_ht_tbl s" "g_ht_fld s' = g_ht_fld s"
    "g_alt_ddir_id s' = g_alt_ddir_id s" "env_tmp s' = env_tmp s" "g_data_dir s' = g_data_dir s"
    "g_cwd s' = g_cwd s"
  using meta_of_cong[OF assms[unfolded flds_upd_def]] by simp_all

lemma flds_upd_refl [simp]: "flds_upd s (g_flds s) s"
  by (simp add: flds_upd_def meta_of_def)

lemma flds_upd_self [simp]: "flds_upd s fs (s\<lparr>g_flds := fs\<rparr>)"
  by (simp add: flds_upd_def meta_of_def)

lemma flds_upd_set: "flds_upd s fs s' \<Longrightarrow> flds_upd s fs' (s'\<lparr>g_flds := fs'\<rparr>)"
  unfolding flds_upd_def by (simp only: meta_of_simps) simp

lemma flds_upd_trans: "flds_upd s fs s' \<Longrightarrow> flds_upd s' fs' s'' \<Longrightarrow> flds_upd s fs' s''"
  unfolding flds_upd_def by (simp only: meta_of_simps) simp

lemma meta_only_flds_upd: "meta_only (flds_upd s fs)"
  unfolding meta_only_def flds_upd_def by (simp add: meta_of_def)

lemma meta_only_meta_inv: "meta_only meta_inv"
  unfolding meta_only_def meta_inv_def ht_ok_def by simp

lemma meta_inv_flds:
  assumes "flds_upd s fs s'" and "meta_inv s" and "length fs = length (g_flds s)"
    and "fields_ok (g_tbls s) (g_ddirs s) fs"
  shows "meta_inv s'"
  using assms(2-4) flds_updD[OF assms(1)] unfolding meta_inv_def ht_ok_def
  by (metis length_0_conv)

lemma meta_inv_parts:
  assumes "meta_inv s"
  shows "ht_ok s" and "fields_ok (g_tbls s) (g_ddirs s) (g_flds s)" and "nn_links_ok (g_flds s)"
    and "g_flds s \<noteq> []" and "g_tbls s \<noteq> []"
proof -
  show 1: "ht_ok s" "fields_ok (g_tbls s) (g_ddirs s) (g_flds s)"
    using assms by (simp_all add: meta_inv_def)
  show "g_flds s \<noteq> []" "g_tbls s \<noteq> []" using 1(1) by (simp_all add: ht_ok_def)
  have "in_range (nn_fld_id (g_flds s ! i)) (g_flds s)"
    if "i < length (g_flds s)" "nn_fld_id (g_flds s ! i) \<ge> 0" for i
    using nn_partner[OF 1(2) that] by (metis in_range_def of_nat_0_le_iff of_nat_less_iff)
  then show "nn_links_ok (g_flds s)" unfolding nn_links_ok_def by (metis in_set_conv_nth)
qed

subsection \<open>Storage\<close>

lemma wp_enter_ddir:
  assumes "d \<ge> 0 \<Longrightarrow> in_range d (g_ddirs s) \<and> g_ddirs s ! nat d \<noteq> []" and "meta_only I" and "I s"
  shows "wp (enter_ddir d) (\<lambda>_. I) E s"
  using assms by (auto simp: enter_ddir_def wp_simps wp_chdir_ignored)

lemma wp_unlink_storage:
  assumes "local_ok ts (g_ddirs s) r" and "meta_only I" and "I s"
  shows "wp (unlink_storage r) (\<lambda>_. I) E s"
proof -
  have tail: "wp (seq (unlink (filename r)) leave_ddir) (\<lambda>_. I) E s'" if "I s'" for s'
    unfolding wp_seq
    by (rule wp_mono[OF wp_unlink[OF assms(2) that]]) (simp_all add: wp_leave_ddir assms(2))
  have "wp (enter_ddir (ddir_id r)) (\<lambda>_. I) E s"
    using assms by (intro wp_enter_ddir) (auto simp: local_ok_def)
  then show ?thesis
    unfolding unlink_storage_def wp_seq[of "enter_ddir (ddir_id r)"]
    by (rule wp_mono) (simp_all add: tail)
qed

lemma wp_q_mmap:
  assumes "d \<ge> 0 \<Longrightarrow> in_range d (g_ddirs s) \<and> g_ddirs s ! nat d \<noteq> []" and "meta_only I" and "I s"
  shows "wp (q_mmap d f w) (\<lambda>_. I) I s"
proof -
  have tail: "wp (bind (rs_mmap f w) (\<lambda>r. seq leave_ddir (ret r))) (\<lambda>_. I) I s'" if "I s'" for s'
    unfolding wp_bind wp_seq wp_ret
    by (rule wp_mono[OF wp_rs_mmap[of I, OF that]]) (simp_all add: wp_leave_ddir assms(2))
  have "wp (enter_ddir d) (\<lambda>_. I) I s" using assms by (rule wp_enter_ddir)
  then show ?thesis
    unfolding q_mmap_def wp_seq[of "enter_ddir d"] by (rule wp_mono) (simp_all add: tail)
qed

subsection \<open>Deleting a field\<close>

lemma wp_del_aliases:
  assumes "in_range i (g_flds s)" and "alias_of_fld_id (g_flds s ! nat i) = INT_MIN" and "Q () s"
  shows "wp (del_aliases i) Q E s"
proof -
  have "i \<noteq> INT_MIN" using assms(1) by (simp add: in_range_def)
  then have "wp (for_each (\<lambda>k. bind (fld_at i) (\<lambda>r. if alias_of_fld_id r = i
      then set_fld i (\<lambda>_. zero_fld_rec) else ret ())) [0..<length (g_flds s)]) (\<lambda>_ s'. s' = s) E s"
    by (intro wp_for_each) (use assms(1,2) in \<open>simp_all add: wp_simps\<close>)
  then have "wp (for_each (\<lambda>k. bind (fld_at i) (\<lambda>r. if alias_of_fld_id r = i
      then set_fld i (\<lambda>_. zero_fld_rec) else ret ())) [0..<length (g_flds s)]) Q E s"
    by (rule wp_mono) (use assms(3) in simp_all)
  then show ?thesis using assms(1,2) by (simp add: del_aliases_def wp_simps)
qed

text \<open>A field is deleted by id: it and its nn field are erased and nothing else of the
  meta data changes.  No error is possible, except for an auxiliary field in an
  external call.\<close>

lemma wp_release_nn:
  assumes "flds_upd s fs s1" and "k \<ge> 0 \<Longrightarrow> in_range k fs \<and> local_ok ts (g_ddirs s) (fs ! nat k)"
  shows "wp (release_nn k) (\<lambda>_. flds_upd s (if k \<ge> 0 then fs[nat k := zero_fld_rec] else fs)) E s1"
proof (cases "k \<ge> 0")
  case True
  have fin: "wp (set_fld k (\<lambda>_. zero_fld_rec)) (\<lambda>_. flds_upd s (fs[nat k := zero_fld_rec])) E s2"
    if "flds_upd s fs s2" for s2
    using flds_updD(1)[OF that] assms(2)[OF True] flds_upd_set[OF that] by (simp add: wp_accessors)
  have ul: "wp (unlink_storage (fs ! nat k)) (\<lambda>_. flds_upd s fs) E s1"
    using assms(2)[OF True] flds_updD(3)[OF assms(1)] meta_only_flds_upd assms(1)
    by (intro wp_unlink_storage) auto
  have "wp (unlink_storage (fs ! nat k))
      (\<lambda>_. wp (set_fld k (\<lambda>_. zero_fld_rec)) (\<lambda>_. flds_upd s (fs[nat k := zero_fld_rec])) E) E s1"
    by (rule wp_mono[OF ul]) (simp_all add: fin)
  then show ?thesis
    using True assms(2)[OF True] flds_updD(1)[OF assms(1)] fin[OF assms(1)]
    by (simp add: release_nn_def wp_bind wp_seq wp_accessors(1) wp_ret)
qed (use assms(1) in \<open>simp add: release_nn_def wp_ret\<close>)

lemma wp_release_fld:
  assumes inv: "meta_inv s" and f: "in_range fid (g_flds s)"
  shows "wp (release_fld fid (nn_fld_id (g_flds s ! nat fid)) (g_flds s ! nat fid))
    (\<lambda>_. flds_upd s (erase (g_flds s) (nat fid))) E s"
proof -
  let ?fs = "g_flds s" and ?r = "g_flds s ! nat fid"
  let ?k = "nn_fld_id ?r" and ?z = "(g_flds s)[nat fid := zero_fld_rec]"
  have i: "nat fid < length ?fs" "\<not> fid < 0" using f by (auto simp: in_range_def)
  have ok: "fields_ok (g_tbls s) (g_ddirs s) ?fs" using inv by (simp add: meta_inv_def)
  have nn: "in_range ?k ?z \<and> local_ok (g_tbls s) (g_ddirs s) (?z ! nat ?k)" if "?k \<ge> 0"
  proof -
    note k0 = that
    obtain k where k: "k < length ?fs" "?k = int k" "k \<noteq> nat fid"
      by (rule nn_partner[OF ok i(1) k0])
    then show ?thesis using fields_ok_local[OF ok k(1)] by (simp add: in_range_def)
  qed
  have last: "wp (release_nn ?k) (\<lambda>_. flds_upd s (erase ?fs (nat fid))) E s1" if "flds_upd s ?z s1" for s1
    using wp_release_nn[OF that nn] by (simp add: erase_def)
  have mid: "wp (seq (set_fld fid (\<lambda>_. zero_fld_rec)) (seq (del_aliases fid) (release_nn ?k)))
      (\<lambda>_. flds_upd s (erase ?fs (nat fid))) E s1" if s1: "flds_upd s ?fs s1" for s1
    using flds_updD(1)[OF s1] f i last[OF flds_upd_set[OF s1]]
    by (simp add: wp_seq wp_accessors wp_del_aliases)
  have ul: "wp (unlink_storage ?r) (\<lambda>_. flds_upd s ?fs) E s"
    by (rule wp_unlink_storage[OF fields_ok_local[OF ok i(1)] meta_only_flds_upd]) simp
  have "wp (unlink_storage ?r) (\<lambda>_. wp (seq (set_fld fid (\<lambda>_. zero_fld_rec))
      (seq (del_aliases fid) (release_nn ?k))) (\<lambda>_. flds_upd s (erase ?fs (nat fid))) E) E s"
    by (rule wp_mono[OF ul]) (simp_all add: mid)
  then show ?thesis
    using mid[OF flds_upd_refl]
    by (simp only: release_fld_def wp_seq[of "if _ then _ else ret ()"] wp_if wp_ret if_split) simp
qed

lemma del_fld_given_tbl: "t \<ge> 0 \<Longrightarrow> wp (del_fld tbl t fld i ext) Q E s = wp (del_fld_in tbl fld i ext t) Q E s"
  by (simp add: del_fld_def wp_bind wp_ret)

lemma del_fld_given_id:
  assumes "meta_inv s" and "t \<ge> 0" and "in_range i (g_flds s)"
  shows "wp (del_fld tbl t fld i ext) Q E s = wp (del_checked ext (i, nn_fld_id (g_flds s ! nat i))) Q E s"
proof -
  have i: "nat i < length (g_flds s)" "\<not> i < 0" using assms(3) by (auto simp: in_range_def)
  have "in_range (nn_fld_id (g_flds s ! nat i)) (g_flds s)" if "nn_fld_id (g_flds s ! nat i) \<ge> 0"
    using meta_inv_parts(3)[OF assms(1)] that i(1) by (simp add: nn_links_ok_def)
  then show ?thesis
    using assms i by (simp add: del_fld_given_tbl del_fld_in_def wp_bind wp_seq wp_ret wp_accessors wp_if)
qed

lemma wp_del_fld_id:
  assumes inv: "meta_inv s" and t: "0 \<le> tid" and f: "in_range fid (g_flds s)"
    and u: "ext \<Longrightarrow> auxtype (g_flds s ! nat fid) = undef"
  shows "wp (del_fld tbl tid fld fid ext) (\<lambda>_. flds_upd s (erase (g_flds s) (nat fid))) E s"
proof -
  have u': "(ext \<and> auxtype (g_flds s ! nat fid) \<noteq> undef) = False" and "\<not> fid < 0"
    using u f by (auto simp: in_range_def)
  then show ?thesis
    unfolding del_fld_given_id[OF inv t f]
    using f wp_release_fld[OF inv f] by (simp add: del_checked_def wp_bind wp_seq wp_ret wp_accessors u')
qed

lemma wp_del_fld_aux:
  assumes inv: "meta_inv s" and t: "0 \<le> tid" and f: "in_range fid (g_flds s)"
    and a: "auxtype (g_flds s ! nat fid) = nn" and E: "E s"
  shows "wp (del_fld tbl tid fld fid True) Q E s"
proof -
  have i: "nat fid < length (g_flds s)" "\<not> fid < 0" using f by (auto simp: in_range_def)
  obtain p where p: "p < length (g_flds s)" "parent_id (g_flds s ! nat fid) = int p"
    "fld_name (g_flds s ! p) \<noteq> []" "nn_fld_id (g_flds s ! nat fid) < 0"
    using aux_parent[OF meta_inv_parts(2)[OF inv] i(1) a] by metis
  then have "in_range (int p) (g_flds s)" by (simp add: in_range_def)
  then show ?thesis
    unfolding del_fld_given_id[OF inv t f]
    using i f a p E by (simp add: del_checked_def wp_bind wp_seq wp_accessors wp_guard)
qed

subsection \<open>Look-ups inside a program\<close>

lemma wp_bind_is_tbl:
  assumes "meta_inv s"
    and "\<And>i r. in_range i (g_tbls s) \<Longrightarrow> r = g_tbls s ! nat i \<Longrightarrow> tbl_name r = x \<Longrightarrow> wp (k (i, r)) Q E s"
    and "(\<forall>j < length (g_tbls s). tbl_name (g_tbls s ! j) \<noteq> x) \<Longrightarrow> wp (k (INT_MIN, zero_tbl_rec)) Q E s"
  shows "wp (bind (is_tbl (Some x)) k) Q E s"
  unfolding wp_bind
proof (rule wp_is_tbl[OF meta_inv_parts(1)[OF assms(1)]])
  fix r assume "tbl_found s x r"
  then show "wp (k r) Q E s"
    by (cases r) (auto simp: tbl_found_def assms(2,3))
qed

lemma wp_bind_is_fld:
  assumes "meta_inv s" and "t \<ge> 0"
    and "\<And>i r. in_range i (g_flds s) \<Longrightarrow> r = g_flds s ! nat i \<Longrightarrow> tbl_id r = t \<Longrightarrow> fld_name r = x \<Longrightarrow>
           wp (k ((i, r), (nn_fld_id r, nn_of s r))) Q E s"
    and "(\<forall>j < length (g_flds s). \<not> (tbl_id (g_flds s ! j) = t \<and> fld_name (g_flds s ! j) = x)) \<Longrightarrow>
           wp (k no_fld) Q E s"
  shows "wp (bind (is_fld tbl t (Some x)) k) Q E s"
  unfolding wp_bind
proof (rule wp_is_fld[OF meta_inv_parts(1,3)[OF assms(1)] assms(2)])
  fix i r assume *: "fld_found s t x (i, r)"
  show "wp (k (if i < 0 then no_fld else ((i, r), (nn_fld_id r, nn_of s r)))) Q E s"
  proof (cases "i < 0")
    case True
    then show ?thesis using * assms(4) by (auto simp: fld_found_def in_range_def)
  next
    case False
    then show ?thesis using * assms(3) by (auto simp: fld_found_def)
  qed
qed

lemma in_range_INT_MIN [simp]: "in_range INT_MIN xs = False"
  by (simp add: in_range_def)

lemma meta_inv_erase:
  assumes "meta_inv s" and "in_range i (g_flds s)" and "auxtype (g_flds s ! nat i) = undef"
    and "flds_upd s (erase (g_flds s) (nat i)) s'"
  shows "meta_inv s'"
  using assms meta_inv_parts(2)[OF assms(1)]
  by (intro meta_inv_flds[OF assms(4)] erase_ok) (auto simp: in_range_nat)

lemma wp_del_fld_id_inv:
  assumes "meta_inv s" and "0 \<le> tid" and "in_range fid (g_flds s)"
  shows "wp (del_fld tbl tid fld fid True) (\<lambda>_. meta_inv) meta_inv s"
proof (cases "auxtype (g_flds s ! nat fid)")
  case undef
  have "wp (del_fld tbl tid fld fid True) (\<lambda>_. flds_upd s (erase (g_flds s) (nat fid))) meta_inv s"
    using assms undef by (intro wp_del_fld_id) auto
  then show ?thesis
    by (rule wp_mono) (use meta_inv_erase[OF assms(1,3) undef] in simp_all)
next
  case nn
  then show ?thesis by (intro wp_del_fld_aux assms)
qed

text \<open>Deleting by name is deleting by id after the look-ups.\<close>

lemma del_fld_by_name:
  assumes "meta_inv s" and "t \<ge> 0" and "y \<noteq> []"
    and "\<And>i. in_range i (g_flds s) \<Longrightarrow> tbl_id (g_flds s ! nat i) = t \<Longrightarrow> fld_name (g_flds s ! nat i) = y \<Longrightarrow>
           wp (del_fld tbl t fld i True) Q E s"
    and "(\<forall>j < length (g_flds s). \<not> (tbl_id (g_flds s ! j) = t \<and> fld_name (g_flds s ! j) = y)) \<Longrightarrow> Q () s"
  shows "wp (del_fld tbl t (Some y) (-1) True) Q E s"
proof -
  let ?k = "\<lambda>r. bind (ret (fst (fst r), fst (snd r))) (del_checked True)"
  have "wp (bind (is_fld tbl t (Some y)) ?k) Q E s"
  proof (rule wp_bind_is_fld[OF assms(1,2)])
    fix i r assume i: "in_range i (g_flds s)" "r = g_flds s ! nat i" "tbl_id r = t" "fld_name r = y"
    then show "wp (?k ((i, r), nn_fld_id r, nn_of s r)) Q E s"
      using assms(4)[of i] del_fld_given_id[OF assms(1,2) i(1)] by (simp add: wp_bind wp_ret)
  qed (use assms(5) in \<open>simp add: no_fld_def wp_bind wp_ret del_checked_def\<close>)
  then show ?thesis
    using assms(2,3) by (simp add: del_fld_given_tbl del_fld_in_def wp_bind wp_arg_given)
qed

text \<open>Deleting by unique names is deleting by the ids the names stand for.\<close>

lemma wp_del_fld_named:
  assumes inv: "meta_inv s" and u: "tbl_slots.unique_keys (g_tbls s)" "fld_slots.unique_keys (g_flds s)"
    and x: "x \<noteq> []" and y: "y \<noteq> []"
    and t: "tbl_slots.lookup (g_tbls s) x = Some t" and i: "fld_slots.lookup (g_flds s) (int t, y) = Some i"
  shows "wp (del_fld (Some x) (-1) (Some y) (-1) True) Q E s = wp (del_fld None (int t) None (int i) True) Q E s"
proof -
  have ir: "in_range (int i) (g_flds s)"
    using find_from_Some[OF i[unfolded fld_slots.lookup_def]] by (simp add: in_range_def)
  have "is_tbl (Some x) s = (Ret (int t, g_tbls s ! t), s)"
    using is_tbl_lookup[OF meta_inv_parts(1)[OF inv] u(1) x] t by (simp add: tbl_answer_def)
  moreover have "is_fld (Some x) (int t) (Some y) s =
      (Ret ((int i, g_flds s ! i), (nn_fld_id (g_flds s ! i), nn_of s (g_flds s ! i))), s)"
    using is_fld_lookup[OF meta_inv_parts(1,3)[OF inv] u(2) _ y, of "int t"] i by (simp add: fld_answer_def)
  ultimately show ?thesis
    using x y del_fld_given_id[OF inv _ ir, of "int t" None None True Q E]
    by (simp add: del_fld_def del_fld_in_def wp_bind wp_arg_given wp_def[of "is_tbl _"] wp_def[of "is_fld _ _ _"] wp_ret)
qed

lemma wp_del_fld_name_inv:
  assumes "meta_inv s"
  shows "wp (del_fld (Some x) (-1) (Some y) (-1) True) (\<lambda>_. meta_inv) meta_inv s"
proof (cases "x = []")
  case True
  then show ?thesis using assms by (simp add: del_fld_def wp_bind wp_arg_given)
next
  case x: False
  have by_id: "wp (del_fld (Some x) t (Some y) (-1) True) (\<lambda>_. meta_inv) meta_inv s" if "t \<ge> 0" for t
  proof (cases "y = []")
    case True
    then show ?thesis
      using that assms by (simp add: del_fld_given_tbl del_fld_in_def wp_bind wp_arg_given)
  next
    case False
    then show ?thesis by (intro del_fld_by_name) (use assms that wp_del_fld_id_inv in auto)
  qed
  let ?k = "\<lambda>r. bind (ret (fst r)) (del_fld_in (Some x) (Some y) (-1) True)"
  have "wp (bind (is_tbl (Some x)) ?k) (\<lambda>_. meta_inv) meta_inv s"
  proof (rule wp_bind_is_tbl[OF assms])
    fix i r assume "in_range i (g_tbls s)"
    then show "wp (?k (i, r)) (\<lambda>_. meta_inv) meta_inv s"
      using by_id[of i] by (simp add: wp_bind wp_ret del_fld_given_tbl in_range_def)
  qed (use assms in \<open>simp add: wp_bind wp_ret del_fld_in_def\<close>)
  then show ?thesis
    using x by (simp add: del_fld_def wp_bind wp_arg_given)
qed

lemma iter_del_fld_inv: "preserves meta_inv (iter_del_fld (Some x) fld)"
proof (rule preservesI)
  fix s assume inv: "meta_inv s"
  have "wp (for_each (\<lambda>y. del_fld (Some x) (-1) (Some y) (-1) True) Y) (\<lambda>_. meta_inv) meta_inv s" for Y
    using inv by (rule wp_for_each[rotated]) (rule wp_del_fld_name_inv)
  then show "wp (iter_del_fld (Some x) fld) (\<lambda>_. meta_inv) meta_inv s"
    using inv wp_del_fld_name_inv
    by (simp add: iter_del_fld_def wp_bind wp_of_option wp_if split: option.splits)
qed

subsection \<open>Deleting a table\<close>

definition purge :: "int \<Rightarrow> FLD_REC list \<Rightarrow> FLD_REC list" where
  "purge t fs = map (\<lambda>f. if tbl_id f = t then zero_fld_rec else f) fs"

text \<open>The fields after \<open>k\<close> rounds of the loop.\<close>

definition purged_upto :: "int \<Rightarrow> FLD_REC list \<Rightarrow> nat \<Rightarrow> FLD_REC list \<Rightarrow> bool" where
  "purged_upto t fs k fs' \<longleftrightarrow> length fs' = length fs \<and>
     (\<forall>j < length fs. fs' ! j = fs ! j \<or> tbl_id (fs ! j) = t \<and> fs' ! j = zero_fld_rec) \<and>
     (\<forall>j < k. tbl_id (fs' ! j) = t \<longrightarrow> parent_id (fs' ! j) \<ge> 0)"

lemma purged_step:
  assumes ok: "fields_ok ts ds fs'" and "purged_upto t fs k fs'" and t: "t \<ge> 0" and k: "k < length fs"
    and r: "tbl_id (fs' ! k) = t" "parent_id (fs' ! k) < 0"
  shows "purged_upto t fs (Suc k) (erase fs' k)"
proof -
  have len: "length fs' = length fs" using assms(2) by (simp add: purged_upto_def)
  have z: "tbl_id (fs ! j) = t" if "j < length fs" "tbl_id (fs' ! j) = t" for j
    using assms(2) that t by (auto simp: purged_upto_def)
  have e: "erase fs' k ! j = fs' ! j \<or> tbl_id (fs ! j) = t \<and> erase fs' k ! j = zero_fld_rec"
    if j: "j < length fs" for j
  proof (cases "nn_fld_id (fs' ! k) \<ge> 0")
    case True
    obtain m where "m < length fs'" "nn_fld_id (fs' ! k) = int m" "tbl_id (fs' ! m) = tbl_id (fs' ! k)"
      by (rule nn_partner[OF ok _ True]) (use k len in auto)
    then show ?thesis
      using True z[OF k] z[of m] r(1) k j len by (auto simp: erase_def nth_list_update)
  next
    case False
    then show ?thesis using z[OF k] r(1) k j len by (auto simp: erase_def nth_list_update)
  qed
  have "erase fs' k ! k = zero_fld_rec" using k len by (simp add: erase_self)
  then have z1: "tbl_id (erase fs' k ! k) \<noteq> t" using t by simp
  have p: "tbl_id (fs' ! j) = t \<longrightarrow> parent_id (fs' ! j) \<ge> 0" if "j < k" for j
    using assms(2) that by (simp add: purged_upto_def)
  have "tbl_id (erase fs' k ! j) = t \<longrightarrow> parent_id (erase fs' k ! j) \<ge> 0" if "j < Suc k" for j
  proof (cases "j = k")
    case False
    then have "j < k" "j < length fs" using that k by auto
    then show ?thesis using e[of j] p[of j] t by auto
  qed (use z1 in simp)
  moreover have "erase fs' k ! j = fs ! j \<or> tbl_id (fs ! j) = t \<and> erase fs' k ! j = zero_fld_rec"
    if "j < length fs" for j
    using e[OF that] assms(2) that by (auto simp: purged_upto_def)
  ultimately show ?thesis using len unfolding purged_upto_def length_erase by blast
qed

lemma purged_all:
  assumes ok: "fields_ok ts ds fs'" and p: "purged_upto t fs (length fs) fs'" and t: "t \<ge> 0"
  shows "fs' = purge t fs"
proof (rule nth_equalityI)
  have len: "length fs' = length fs" using p by (simp add: purged_upto_def)
  then show "length fs' = length (purge t fs)" by (simp add: purge_def)
  fix j assume j: "j < length fs'"
  have "tbl_id (fs' ! j) \<noteq> t"
  proof
    assume tj: "tbl_id (fs' ! j) = t"
    then have "parent_id (fs' ! j) \<ge> 0" using p j len by (simp add: purged_upto_def)
    then have "auxtype (fs' ! j) = nn"
      using primary_parent[OF ok j] by (cases "auxtype (fs' ! j)") auto
    then obtain q where "q < length fs'" "tbl_id (fs' ! j) = tbl_id (fs' ! q)" "auxtype (fs' ! q) = undef"
      by (rule aux_parent[OF ok j])
    then show False
      using p len tj primary_parent[OF ok] by (metis not_le purged_upto_def)
  qed
  then show "fs' ! j = purge t fs ! j"
    using p j len by (auto simp: purged_upto_def purge_def)
qed

lemma wp_del_tbl_flds:
  assumes inv: "meta_inv s" and t: "t \<ge> 0"
  shows "wp (del_tbl_flds t) (\<lambda>_ s'. flds_upd s (purge t (g_flds s)) s' \<and> meta_inv s') E s"
proof -
  let ?fs = "g_flds s"
  define I where "I k s' \<longleftrightarrow> flds_upd s (g_flds s') s' \<and> meta_inv s' \<and> purged_upto t ?fs k (g_flds s')" for k s'
  have step: "wp (bind (fld_at (int k)) (\<lambda>r. if tbl_id r = t \<and> parent_id r < 0
      then del_fld None t None (int k) True else ret ())) (\<lambda>_. I (Suc k)) E s'"
    if k: "k < length ?fs" and I: "I k s'" for k s'
  proof -
    let ?f = "g_flds s'"
    have len: "length ?f = length ?fs" and inv': "meta_inv s'" and up: "flds_upd s ?f s'"
      and pu: "purged_upto t ?fs k ?f" using I by (auto simp: I_def purged_upto_def)
    have kr: "in_range (int k) ?f" using k len by (simp add: in_range_def)
    have ok: "fields_ok (g_tbls s') (g_ddirs s') ?f" using inv' by (rule meta_inv_parts)
    show ?thesis
    proof (cases "tbl_id (?f ! k) = t \<and> parent_id (?f ! k) < 0")
      case True
      have u: "auxtype (?f ! nat (int k)) = undef" using True primary_parent[OF ok] k len by simp
      have "I (Suc k) s''" if s'': "flds_upd s' (erase ?f k) s''" for s''
        using meta_inv_erase[OF inv' kr u] s'' flds_upd_trans[OF up s''] flds_updD(1)[OF s'']
          purged_step[OF ok pu t k] True by (simp add: I_def)
      moreover have "wp (del_fld None t None (int k) True) (\<lambda>_. flds_upd s' (erase ?f k)) E s'"
        using wp_del_fld_id[OF inv' t kr, where ext = True] u by simp
      ultimately have "wp (del_fld None t None (int k) True) (\<lambda>_. I (Suc k)) E s'"
        by (auto elim!: wp_mono)
      then show ?thesis using True kr by (simp add: wp_bind wp_accessors)
    next
      case False
      then have "I (Suc k) s'" using I by (auto simp: I_def purged_upto_def less_Suc_eq)
      then show ?thesis using False kr by (auto simp: wp_bind wp_accessors wp_ret)
    qed
  qed
  have "I 0 s" using inv by (simp add: I_def purged_upto_def)
  then have "wp (for_each (\<lambda>k. bind (fld_at (int k)) (\<lambda>r. if tbl_id r = t \<and> parent_id r < 0
      then del_fld None t None (int k) True else ret ())) [0..<length ?fs]) (\<lambda>_. I (length ?fs)) E s"
    using step by (intro wp_for_each_upt) auto
  then have "wp (for_each (\<lambda>k. bind (fld_at (int k)) (\<lambda>r. if tbl_id r = t \<and> parent_id r < 0
      then del_fld None t None (int k) True else ret ())) [0..<length ?fs])
      (\<lambda>_ s'. flds_upd s (purge t ?fs) s' \<and> meta_inv s') E s"
    by (rule wp_mono) (auto simp: I_def dest!: purged_all[OF meta_inv_parts(2) _ t])
  then show ?thesis by (simp add: del_tbl_flds_def wp_bind wp_gets)
qed

text \<open>The meta data after a table has been deleted.\<close>

definition tbl_dropped :: "int \<Rightarrow> q_state \<Rightarrow> q_state \<Rightarrow> bool" where
  "tbl_dropped t s s' \<longleftrightarrow> meta_of s' =
     meta_of (s\<lparr>g_flds := purge t (g_flds s), g_tbls := (g_tbls s)[nat t := zero_tbl_rec]\<rparr>)"

lemma length_purge [simp]: "length (purge t fs) = length fs"
  by (simp add: purge_def)

lemma tbl_droppedD:
  assumes "tbl_dropped t s s'"
  shows "g_flds s' = purge t (g_flds s)" "g_tbls s' = (g_tbls s)[nat t := zero_tbl_rec]"
    "g_ddirs s' = g_ddirs s" "g_ht_tbl s' = g_ht_tbl s" "g_ht_fld s' = g_ht_fld s"
    "g_alt_ddir_id s' = g_alt_ddir_id s" "env_tmp s' = env_tmp s"
  using meta_of_cong[OF assms[unfolded tbl_dropped_def]] by simp_all

text \<open>Changing the tables keeps the fields in order as long as the tables in use stay
  alive.\<close>

lemma fields_ok_tbls:
  assumes "fields_ok ts ds fs"
    and "\<And>i. i < length fs \<Longrightarrow> live_tbl ts (tbl_id (fs ! i)) \<Longrightarrow> live_tbl ts' (tbl_id (fs ! i))"
  shows "fields_ok ts' ds fs"
  using assms by (auto simp: fields_ok_def local_ok_def)

lemma meta_inv_tbls:
  assumes "meta_inv s" and "length ts = length (g_tbls s)"
    and "\<And>i. i < length (g_flds s) \<Longrightarrow> live_tbl (g_tbls s) (tbl_id (g_flds s ! i)) \<Longrightarrow>
           live_tbl ts (tbl_id (g_flds s ! i))"
  shows "meta_inv (s\<lparr>g_tbls := ts\<rparr>)"
  using assms fields_ok_tbls[OF meta_inv_parts(2)[OF assms(1)], of ts]
  by (auto simp: meta_inv_def ht_ok_def)

text \<open>Deleting a table fails, without any effect, when a field uses it as dictionary;
  otherwise the table and exactly its fields are erased.\<close>

lemma wp_del_tbl_id:
  assumes inv: "meta_inv s" and t: "in_range t (g_tbls s)"
    and used: "\<And>i. i < length (g_flds s) \<Longrightarrow> dict_tbl_id (g_flds s ! i) = t \<Longrightarrow> E s"
    and free: "\<And>s'. (\<forall>i < length (g_flds s). dict_tbl_id (g_flds s ! i) \<noteq> t) \<Longrightarrow>
      tbl_dropped t s s' \<Longrightarrow> meta_inv s' \<Longrightarrow> Q () s'"
  shows "wp (del_tbl_id t) Q E s"
proof -
  let ?fs = "g_flds s"
  have t0: "t \<ge> 0" "\<not> t < 0" using t by (auto simp: in_range_def)
  have ok: "fields_ok (g_tbls s) (g_ddirs s) ?fs" using inv by (rule meta_inv_parts)
  show ?thesis
  proof (cases "find_from (\<lambda>i. dict_tbl_id (?fs ! i) = t) 0 (length ?fs)")
    case (Some i)
    then have i: "i < length ?fs" "dict_tbl_id (?fs ! i) = t" using find_from_Some by fastforce+
    then have "in_range (tbl_id (?fs ! i)) (g_tbls s)"
      using fields_ok_local[OF ok i(1)] t0 by (auto simp: local_ok_def live_tbl_def)
    then show ?thesis
      using Some t0 used[OF i]
      by (simp add: del_tbl_id_def wp_bind wp_seq wp_gets wp_accessors wp_bye)
  next
    case None
    then have nd: "\<forall>i < length ?fs. dict_tbl_id (?fs ! i) \<noteq> t" by (simp add: find_from_None)
    have fin: "wp (set_tbl t (\<lambda>_. zero_tbl_rec)) Q E s1"
      if s1: "flds_upd s (purge t ?fs) s1" "meta_inv s1" for s1
    proof -
      let ?s2 = "s1\<lparr>g_tbls := (g_tbls s1)[nat t := zero_tbl_rec]\<rparr>"
      have e: "g_tbls s1 = g_tbls s" "g_flds s1 = purge t ?fs" using flds_updD[OF s1(1)] by auto
      have "tbl_dropped t s ?s2"
        using s1(1) e unfolding flds_upd_def tbl_dropped_def by simp
      moreover have "meta_inv ?s2"
        by (rule meta_inv_tbls[OF s1(2)]) (use e t0 in \<open>auto simp: purge_def live_tbl_def in_range_def\<close>)
      ultimately show ?thesis
        using free[OF nd] t e by (simp add: wp_accessors)
    qed
    have "wp (del_tbl_flds t) (\<lambda>_. wp (set_tbl t (\<lambda>_. zero_tbl_rec)) Q E) E s"
      by (rule wp_mono[OF wp_del_tbl_flds[OF inv t0(1)]]) (simp_all add: fin)
    then show ?thesis
      using None t0 by (simp add: del_tbl_id_def wp_bind wp_seq wp_gets wp_ret)
  qed
qed

lemma del_tbl_given_id: "t \<ge> 0 \<Longrightarrow> wp (del_tbl tbl t) Q E = wp (del_tbl_id t) Q E"
  by (simp add: del_tbl_def wp_bind wp_ret)

lemma wp_del_tbl_name:
  assumes inv: "meta_inv s" and "x \<noteq> []"
    and found: "\<And>t. in_range t (g_tbls s) \<Longrightarrow> tbl_name (g_tbls s ! nat t) = x \<Longrightarrow> wp (del_tbl_id t) Q E s"
    and absent: "(\<forall>j < length (g_tbls s). tbl_name (g_tbls s ! j) \<noteq> x) \<Longrightarrow> Q () s"
  shows "wp (del_tbl (Some x) (-1)) Q E s"
proof -
  have "wp (bind (is_tbl (Some x)) (\<lambda>r. bind (ret (fst r)) del_tbl_id)) Q E s"
    by (rule wp_bind_is_tbl[OF inv])
      (use found absent in \<open>auto simp: wp_bind wp_ret del_tbl_id_def\<close>)
  then show ?thesis using assms(2) by (simp add: del_tbl_def wp_bind wp_arg_given)
qed

lemma wp_del_tbl_id_inv:
  "meta_inv s \<Longrightarrow> in_range t (g_tbls s) \<Longrightarrow> wp (del_tbl_id t) (\<lambda>_. meta_inv) meta_inv s"
  by (rule wp_del_tbl_id) auto

lemma wp_del_tbl_name_inv:
  assumes "meta_inv s"
  shows "wp (del_tbl (Some x) (-1)) (\<lambda>_. meta_inv) meta_inv s"
proof (cases "x = []")
  case True
  then show ?thesis using assms by (simp add: del_tbl_def wp_bind wp_arg_given)
next
  case False
  then show ?thesis by (intro wp_del_tbl_name wp_del_tbl_id_inv assms)
qed

lemma iter_del_tbl_inv: "preserves meta_inv (iter_del_tbl tbl)"
proof (rule preservesI)
  fix s assume inv: "meta_inv s"
  have "wp (for_each (\<lambda>y. del_tbl (Some y) (-1)) Y) (\<lambda>_. meta_inv) meta_inv s" for Y
    using inv by (rule wp_for_each[rotated]) (rule wp_del_tbl_name_inv)
  then show "wp (iter_del_tbl tbl) (\<lambda>_. meta_inv) meta_inv s"
    using inv wp_del_tbl_name_inv
    by (simp add: iter_del_tbl_def wp_bind wp_of_option wp_if split: option.splits)
qed

end
