(* ===== verification/Q_Safety.thy ===== *)
theory Q_Safety
  imports Q_Preserve
begin

text \<open>
  Rules for the verbs that add, rename, move and describe tables and fields: they
  keep the invariant of the meta data and do not fault.  Where a verb needs its
  caller to avoid an input, the rule states it.
\<close>

subsection \<open>Tables\<close>

lemma wp_set_tbl_inv:
  assumes "meta_inv s" and "in_range t (g_tbls s)" and "\<And>r. tbl_name r \<noteq> [] \<Longrightarrow> tbl_name (f r) \<noteq> []"
  shows "wp (set_tbl t f) (\<lambda>_. meta_inv) E s"
proof -
  have "meta_inv (s\<lparr>g_tbls := (g_tbls s)[nat t := f (g_tbls s ! nat t)]\<rparr>)"
  proof (rule meta_inv_tbls[OF assms(1)])
    fix i assume "live_tbl (g_tbls s) (tbl_id (g_flds s ! i))"
    then show "live_tbl ((g_tbls s)[nat t := f (g_tbls s ! nat t)]) (tbl_id (g_flds s ! i))"
      using assms(3) by (cases "nat (tbl_id (g_flds s ! i)) = nat t")
        (auto simp: live_tbl_def in_range_nat)
  qed simp
  then show ?thesis using assms(2) by (simp add: wp_accessors)
qed

text \<open>What \<open>add_tbl\<close> leaves behind: the new table in slot \<open>t\<close>, the other tables as before.\<close>

definition tbl_added :: "q_state \<Rightarrow> string \<Rightarrow> int \<Rightarrow> int \<Rightarrow> TBL_REC \<Rightarrow> q_state \<Rightarrow> bool" where
  "tbl_added s x n t r s' \<longleftrightarrow> meta_inv s' \<and> in_range t (g_tbls s) \<and>
     (tbl_name (g_tbls s ! nat t) = x \<or>
        tbl_name (g_tbls s ! nat t) = [] \<and> (\<forall>j < length (g_tbls s). tbl_name (g_tbls s ! j) \<noteq> x)) \<and>
     g_tbls s' = (g_tbls s)[nat t := r] \<and> tbl_name r = x \<and> nR r = n \<and>
     g_flds s' = purge t (g_flds s)"

lemma purge_unused:
  assumes "fields_ok ts ds fs" and "\<not> live_tbl ts t" and "t \<ge> 0"
  shows "purge t fs = fs"
proof (rule nth_equalityI)
  fix i assume "i < length (purge t fs)"
  then have "local_ok ts ds (fs ! i)" using assms(1) by (simp add: fields_ok_local)
  then show "purge t fs ! i = fs ! i"
    using assms(2,3) \<open>i < length (purge t fs)\<close> by (auto simp: purge_def local_ok_def)
qed simp

text \<open>The row count a new table gets, and the four reasons to refuse a table: a negative
  row count, a bad name, a table of that name in use as a dictionary, no free slot.\<close>

definition rows_of :: "string option \<Rightarrow> int" where
  "rows_of v = (case v of None \<Rightarrow> 0 | Some w \<Rightarrow> fst (strtoll w))"

definition tbl_refused :: "q_state \<Rightarrow> string \<Rightarrow> string option \<Rightarrow> bool" where
  "tbl_refused s x v \<longleftrightarrow> rows_of v < 0 \<or> \<not> chk_tbl_name (Some x) \<or>
     (\<exists>j < length (g_tbls s). tbl_name (g_tbls s ! j) = x \<and>
        (\<exists>i < length (g_flds s). dict_tbl_id (g_flds s ! i) = int j)) \<or>
     (\<forall>j < length (g_tbls s). tbl_name (g_tbls s ! j) \<notin> {[], x})"

lemma wp_add_tbl:
  assumes inv: "meta_inv s" and x: "x \<noteq> []"
  shows "wp (add_tbl (Some x) v) (\<lambda>(t, r). tbl_added s x (rows_of v) t r)
           (\<lambda>s'. meta_of s' = meta_of s \<and> meta_inv s' \<and> tbl_refused s x v) s"
proof -
  define n where "n = rows_of v"
  let ?E = "\<lambda>s'. meta_of s' = meta_of s \<and> meta_inv s' \<and> tbl_refused s x v"
  let ?tail = "\<lambda>tid. seq (set_tbl tid (\<lambda>r. r\<lparr>tbl_name := x\<rparr>)) (seq (set_tbl tid (\<lambda>r. r\<lparr>nR := n\<rparr>))
     (bind (tbl_at tid) (\<lambda>r. ret (tid, r))))"
  have store: "wp (?tail t) (\<lambda>(t, r). tbl_added s x n t r) ?E s1"
    if s1: "meta_inv s1" and t: "in_range t (g_tbls s)" and len: "length (g_tbls s1) = length (g_tbls s)"
      and rest: "\<And>r. (g_tbls s1)[nat t := r] = (g_tbls s)[nat t := r]" and "g_flds s1 = purge t (g_flds s)"
      and old: "tbl_name (g_tbls s ! nat t) = x \<or>
        tbl_name (g_tbls s ! nat t) = [] \<and> (\<forall>j < length (g_tbls s). tbl_name (g_tbls s ! j) \<noteq> x)"
    for t s1
  proof -
    have tr: "in_range t (g_tbls s1)" "nat t < length (g_tbls s1)" "nat t < length (g_tbls s)"
      using t len by (auto simp: in_range_nat)
    have "meta_inv (s1\<lparr>g_tbls := (g_tbls s1)[nat t := (g_tbls s1 ! nat t)\<lparr>tbl_name := x, nR := n\<rparr>]\<rparr>)"
      using wp_set_tbl_inv[OF s1 tr(1), of "\<lambda>r. r\<lparr>tbl_name := x, nR := n\<rparr>"] x by (simp add: wp_accessors tr)
    then show ?thesis
      using tr t rest old that(5) by (simp add: wp_bind wp_seq wp_ret wp_accessors tbl_added_def)
  qed
  have found: "wp (del_tbl None t) (\<lambda>_. wp (?tail t) (\<lambda>(t, r). tbl_added s x n t r) ?E) ?E s"
    if t: "in_range t (g_tbls s)" and nm: "tbl_name (g_tbls s ! nat t) = x" for t
  proof -
    have t0: "t \<ge> 0" using t by (simp add: in_range_def)
    have "wp (?tail t) (\<lambda>(t, r). tbl_added s x n t r) ?E s'" if "tbl_dropped t s s'" "meta_inv s'" for s'
      by (rule store[OF that(2) t]) (use nm tbl_droppedD[OF that(1)] in simp_all)
    moreover have "?E s" if "i < length (g_flds s)" "dict_tbl_id (g_flds s ! i) = t" for i
    proof -
      have "nat t < length (g_tbls s)" "dict_tbl_id (g_flds s ! i) = int (nat t)"
        using that t by (auto simp: in_range_def)
      then show ?thesis using inv nm that unfolding tbl_refused_def by blast
    qed
    ultimately show ?thesis
      unfolding del_tbl_given_id[OF t0] by (intro wp_del_tbl_id[OF inv t]) auto
  qed
  have fresh: "wp (get_empty_tbl (Some x)) (\<lambda>t. wp (?tail t) (\<lambda>(t, r). tbl_added s x n t r) ?E) ?E s"
    if "\<forall>j < length (g_tbls s). tbl_name (g_tbls s ! j) \<noteq> x"
  proof (rule wp_get_empty_tbl)
    fix t assume t: "in_range t (g_tbls s)" "tbl_name (g_tbls s ! nat t) = []"
    then have "purge t (g_flds s) = g_flds s"
      by (intro purge_unused[OF meta_inv_parts(2)[OF inv]]) (auto simp: live_tbl_def in_range_def)
    then show "wp (?tail t) (\<lambda>(t, r). tbl_added s x n t r) ?E s"
      using t that by (intro store[OF inv]) auto
  qed (use inv meta_inv_parts that in \<open>auto simp: tbl_refused_def\<close>)
  have main: "wp (bind (is_tbl (Some x)) (\<lambda>(t, tbl_rec).
      bind (if t \<ge> 0 then seq (del_tbl None t) (ret t) else get_empty_tbl (Some x)) ?tail))
      (\<lambda>(t, r). tbl_added s x n t r) ?E s"
    by (rule wp_bind_is_tbl[OF inv])
      (use found fresh in \<open>auto simp: wp_bind wp_seq wp_ret in_range_def\<close>)
  show ?thesis
    using main inv x unfolding add_tbl_def wp_bind wp_arg_given n_def[symmetric]
    by (auto simp: wp_simps n_def rows_of_def strtoll_def tbl_refused_def split: option.splits)
qed

lemma tbl_added_unique:
  assumes a: "tbl_added s x n t r s'" and u: "tbl_slots.unique_keys (g_tbls s)" and x: "x \<noteq> []"
  shows "tbl_slots.unique_keys (g_tbls s')"
proof -
  have "tbl_name (g_tbls s ! j) \<noteq> tbl_name r" if "j < length (g_tbls s)" "j \<noteq> nat t" for j
    using a u x that unfolding tbl_added_def tbl_slots.unique_keys_def in_range_nat by metis
  then show ?thesis using tbl_slots.unique_store[OF u, of "nat t" r] a by (simp add: tbl_added_def)
qed

lemma tbl_added_answer:
  assumes a: "tbl_added s x n t r s'" and u: "tbl_slots.unique_keys (g_tbls s')" and x: "x \<noteq> []"
  shows "tbl_answer (g_tbls s') x = (t, r)"
proof -
  have "nat t < length (g_tbls s')" "g_tbls s' ! nat t = r" "tbl_name r = x" "t \<ge> 0"
    using a by (auto simp: tbl_added_def in_range_nat)
  then show ?thesis using tbl_lookup_Some[OF u x, of "nat t"] by (simp add: tbl_answer_def)
qed

lemma get_nR_run:
  "is_tbl (Some x) s = (Ret (t, r), s) \<Longrightarrow> in_range t (g_tbls s) \<Longrightarrow> g_tbls s ! nat t = r \<Longrightarrow>
   get_nR (Some x) s = (Ret (nR r), s)"
  by (simp add: get_nR_def bind_def seq_def chk_tbl_range_def gets_def guard_def tbl_at_def ret_def)

lemma set_nR_inv: "preserves meta_inv (set_nR (Some x) v)"
proof (rule preservesI)
  fix s assume inv: "meta_inv s"
  have "wp (bind (is_tbl (Some x)) (\<lambda>(tid, tbl_rec). seq (chk_tbl_range tid) (set_tbl tid f))) (\<lambda>_. meta_inv) meta_inv s"
    if "\<And>r. tbl_name (f r) = tbl_name r" for f
    by (rule wp_bind_is_tbl[OF inv])
      (use inv that in \<open>auto simp: wp_seq wp_accessors(6) intro: wp_set_tbl_inv\<close>)
  then show "wp (set_nR (Some x) v) (\<lambda>_. meta_inv) meta_inv s"
    using inv by (auto simp: set_nR_def wp_bind wp_seq wp_arg_given wp_guard split: option.splits)
qed

lemma rename_tbl_inv: "preserves meta_inv (rename_tbl (Some x) (Some y))"
proof (rule preservesI)
  fix s assume inv: "meta_inv s"
  let ?fin = "\<lambda>t. seq (guard (chk_tbl_name (Some y))) (set_tbl t (\<lambda>r. r\<lparr>tbl_name := y\<rparr>))"
  have fin: "wp (?fin t) (\<lambda>_. meta_inv) meta_inv s'"
    if "meta_inv s'" "in_range t (g_tbls s')" for s' t
    using that by (auto simp: wp_seq wp_guard chk_tbl_name_def intro!: wp_set_tbl_inv)
  have del: "wp (ignore (del_tbl None u)) (\<lambda>_. wp (?fin t) (\<lambda>_. meta_inv) meta_inv) meta_inv s"
    if t: "in_range t (g_tbls s)" and u: "in_range u (g_tbls s)" for t u
  proof -
    have "in_range t (g_tbls s')" if "tbl_dropped u s s'" for s'
      using tbl_droppedD(2)[OF that] t by simp
    then have "wp (del_tbl_id u) (\<lambda>_. wp (?fin t) (\<lambda>_. meta_inv) meta_inv) (wp (?fin t) (\<lambda>_. meta_inv) meta_inv) s"
      by (intro wp_del_tbl_id[OF inv u]) (auto intro!: fin inv t)
    then show ?thesis using u by (simp add: wp_ignore del_tbl_given_id in_range_def)
  qed
  have second: "wp (bind (is_tbl (Some y)) (\<lambda>(u, new_rec).
      seq (if u \<ge> 0 then bind (ignore (del_tbl None u)) (\<lambda>_. ret ()) else ret ()) (?fin t)))
      (\<lambda>_. meta_inv) meta_inv s" if "in_range t (g_tbls s)" for t
    by (rule wp_bind_is_tbl[OF inv]) (use del that fin[OF inv] in \<open>auto simp: wp_bind wp_seq wp_ret in_range_def\<close>)
  have "wp (bind (is_tbl (Some x)) (\<lambda>(t, old_rec). seq (chk_tbl_range t)
      (bind (is_tbl (Some y)) (\<lambda>(u, new_rec).
      seq (if u \<ge> 0 then bind (ignore (del_tbl None u)) (\<lambda>_. ret ()) else ret ()) (?fin t)))))
      (\<lambda>_. meta_inv) meta_inv s"
    by (rule wp_bind_is_tbl[OF inv]) (use second inv in \<open>auto simp: wp_seq[of "chk_tbl_range _"] wp_accessors\<close>)
  then show "wp (rename_tbl (Some x) (Some y)) (\<lambda>_. meta_inv) meta_inv s"
    using inv unfolding rename_tbl_def wp_bind[of "arg_given _"]
    by (simp add: wp_arg_given wp_seq[of "guard _"] wp_guard)
qed

subsection \<open>Adding a field\<close>

lemma store_inv:
  assumes "meta_inv s" and "in_range i (g_flds s)" and "unlinked (g_flds s ! nat i)"
    and "unlinked r" and "parent_id r < 0" and "local_ok (g_tbls s) (g_ddirs s) r"
  shows "meta_inv (s\<lparr>g_flds := (g_flds s)[nat i := r]\<rparr>)"
  using assms meta_inv_parts(2)[OF assms(1)]
  by (intro meta_inv_flds[OF flds_upd_set[OF flds_upd_refl] assms(1)] store_unlinked)
    (auto simp: in_range_nat)

definition ddir_ok :: "q_state \<Rightarrow> int \<Rightarrow> bool" where
  "ddir_ok s d \<longleftrightarrow> (d \<ge> 0 \<longrightarrow> in_range d (g_ddirs s) \<and> g_ddirs s ! nat d \<noteq> [])"

text \<open>The record \<open>add_fld\<close> stores.\<close>

definition new_fld :: "int \<Rightarrow> string \<Rightarrow> int \<Rightarrow> string \<Rightarrow> FLD_TYPE \<Rightarrow> int \<Rightarrow> FLD_REC" where
  "new_fld tid name d fname ft len = zero_fld_rec\<lparr>tbl_id := tid, is_external := False,
     sort_type := unknown, parent_id := INT_MIN, nn_fld_id := INT_MIN, fldtype := ft,
     auxtype := undef, cnt := (if len < 0 then -1 else len), filename := fname, ddir_id := d,
     fld_name := name\<rparr>"

text \<open>What \<open>add_fld\<close> leaves behind: an old field of that name is erased with its nn field,
  the new record is in slot \<open>i\<close>, the tables are as before.\<close>

definition fld_added :: "q_state \<Rightarrow> int \<Rightarrow> string \<Rightarrow> FLD_REC \<Rightarrow> int \<Rightarrow> q_state \<Rightarrow> bool" where
  "fld_added s tid name r i s' \<longleftrightarrow> meta_inv s' \<and> in_range i (g_flds s) \<and>
     (\<exists>fs. flds_upd s (fs[nat i := r]) s' \<and>
       (fs = erase (g_flds s) (nat i) \<and> tbl_id (g_flds s ! nat i) = tid \<and>
          fld_name (g_flds s ! nat i) = name \<and> auxtype (g_flds s ! nat i) = undef \<or>
        fs = g_flds s \<and> fld_name (g_flds s ! nat i) = [] \<and>
          (\<forall>j < length (g_flds s). \<not> (tbl_id (g_flds s ! j) = tid \<and> fld_name (g_flds s ! j) = name))))"

lemma wp_fill_fld:
  assumes inv: "meta_inv s" and i: "in_range i (g_flds s)" and u: "unlinked (g_flds s ! nat i)"
    and t: "live_tbl (g_tbls s) tid" and d: "ddir_ok s d" and nm: "name \<noteq> []"
  shows "wp (fill_fld i tid name d fname ft len)
    (\<lambda>(j, r) s'. j = i \<and> r = new_fld tid name d fname ft len \<and> meta_inv s' \<and>
       flds_upd s ((g_flds s)[nat i := r]) s') meta_inv s"
proof -
  have i': "nat i < length (g_flds s)" using i by (simp add: in_range_nat)
  have part: "meta_inv (s\<lparr>g_flds := (g_flds s)[nat i := r]\<rparr>)"
    if "unlinked r" "parent_id r < 0" "tbl_id r = tid" "dict_tbl_id r = INT_MIN"
      "ddir_id r = d \<or> ddir_id r < 0"
      "length (fld_name r) \<le> MAX_LEN_FLD_NAME" "length (filename r) \<le> MAX_LEN_FILE_NAME" for r
    using that t d by (intro store_inv[OF inv i u]) (auto simp: local_ok_def ddir_ok_def live_tbl_def in_range_def)
  show ?thesis
    using i i' by (auto simp: fill_fld_def wp_simps new_fld_def unlinked_def intro!: part)
qed

lemma fld_added_old:
  assumes inv: "meta_inv s" and s1: "flds_upd s (g_flds s) s1" and i: "in_range i (g_flds s)"
    and t: "live_tbl (g_tbls s) tid" and d: "ddir_ok s d" and nm: "name \<noteq> []"
    and old: "tbl_id (g_flds s ! nat i) = tid" "fld_name (g_flds s ! nat i) = name"
  shows "wp (del_fld None tid None i True) (\<lambda>_. wp (fill_fld i tid name d fname ft len)
    (\<lambda>(i, r) s'. r = new_fld tid name d fname ft len \<and> fld_added s tid name r i s') meta_inv) meta_inv s1"
proof -
  let ?Q = "\<lambda>(i, r) s'. r = new_fld tid name d fname ft len \<and> fld_added s tid name r i s'"
  have e: "g_flds s1 = g_flds s" "g_tbls s1 = g_tbls s" "g_ddirs s1 = g_ddirs s" using flds_updD[OF s1] by auto
  have inv1: "meta_inv s1" using meta_inv_flds[OF s1 inv] meta_inv_parts(2)[OF inv] by simp
  have t0: "0 \<le> tid" using t by (simp add: live_tbl_def in_range_def)
  have i': "in_range i (g_flds s1)" "nat i < length (g_flds s)" using i e by (auto simp: in_range_nat)
  show ?thesis
  proof (cases "auxtype (g_flds s ! nat i)")
    case nn
    then show ?thesis using e by (intro wp_del_fld_aux[OF inv1 t0 i'(1)] inv1) simp
  next
    case undef
    have "wp (fill_fld i tid name d fname ft len) ?Q meta_inv s2"
      if s2: "flds_upd s1 (erase (g_flds s) (nat i)) s2" for s2
    proof -
      have e2: "g_flds s2 = erase (g_flds s) (nat i)" "g_tbls s2 = g_tbls s" "g_ddirs s2 = g_ddirs s"
        using flds_updD[OF s2] e by auto
      have inv2: "meta_inv s2" using meta_inv_erase[OF inv1 i'(1)] undef e s2 by simp
      have "erase (g_flds s) (nat i) ! nat i = zero_fld_rec" using i'(2) by (rule erase_self)
      then have "wp (fill_fld i tid name d fname ft len) (\<lambda>(j, r) s'. j = i \<and>
          r = new_fld tid name d fname ft len \<and> meta_inv s' \<and>
          flds_upd s2 ((g_flds s2)[nat i := r]) s') meta_inv s2"
        using i'(2) e2 t d nm i by (intro wp_fill_fld[OF inv2]) (auto simp: ddir_ok_def in_range_def)
      then show ?thesis
        by (rule wp_mono)
          (use i old undef e2 flds_upd_trans[OF flds_upd_trans[OF s1 s2]] in \<open>auto simp: fld_added_def\<close>)
    qed
    moreover have "wp (del_fld None tid None i True) (\<lambda>_. flds_upd s1 (erase (g_flds s) (nat i))) meta_inv s1"
      using wp_del_fld_id[OF inv1 t0 i'(1), where ext = True] undef e by simp
    ultimately show ?thesis by (auto elim!: wp_mono)
  qed
qed

lemma fld_added_new:
  assumes inv: "meta_inv s" and s1: "flds_upd s (g_flds s) s1"
    and t: "live_tbl (g_tbls s) tid" and d: "ddir_ok s d" and nm: "name \<noteq> []"
    and new: "\<forall>j < length (g_flds s). \<not> (tbl_id (g_flds s ! j) = tid \<and> fld_name (g_flds s ! j) = name)"
  shows "wp (get_empty_fld x) (\<lambda>i. wp (fill_fld i tid name d fname ft len)
    (\<lambda>(i, r) s'. r = new_fld tid name d fname ft len \<and> fld_added s tid name r i s') meta_inv) meta_inv s1"
proof -
  have e: "g_flds s1 = g_flds s" "g_tbls s1 = g_tbls s" "g_ddirs s1 = g_ddirs s" using flds_updD[OF s1] by auto
  have inv1: "meta_inv s1" using meta_inv_flds[OF s1 inv] meta_inv_parts(2)[OF inv] by simp
  show ?thesis
  proof (rule wp_get_empty_fld)
    fix i assume i: "in_range i (g_flds s1)" "fld_name (g_flds s1 ! nat i) = []"
    have u: "unlinked (g_flds s1 ! nat i)"
      using free_unlinked[OF meta_inv_parts(2)[OF inv1]] i by (simp add: in_range_nat)
    have "wp (fill_fld i tid name d fname ft len) (\<lambda>(j, r) s'. j = i \<and>
        r = new_fld tid name d fname ft len \<and> meta_inv s' \<and>
        flds_upd s1 ((g_flds s1)[nat i := r]) s') meta_inv s1"
      using t d nm e by (intro wp_fill_fld[OF inv1 i(1) u]) (auto simp: ddir_ok_def)
    then show "wp (fill_fld i tid name d fname ft len)
        (\<lambda>(i, r) s'. r = new_fld tid name d fname ft len \<and> fld_added s tid name r i s') meta_inv s1"
      by (rule wp_mono) (use i new e flds_upd_trans[OF s1] in \<open>auto simp: fld_added_def\<close>)
  qed (use inv1 meta_inv_parts in auto)
qed

lemma wp_add_fld:
  assumes inv: "meta_inv s" and t: "live_tbl (g_tbls s) tid" and d: "ddir_ok s d"
  shows "wp (add_fld tid (Some name) d fname ft len)
    (\<lambda>(i, r) s'. r = new_fld tid name d fname ft len \<and> fld_added s tid name r i s') meta_inv s"
    (is "wp _ ?Q _ _")
proof (cases "name = []")
  case True
  then show ?thesis using inv by (simp add: add_fld_def wp_seq wp_bind wp_guard wp_arg_given)
next
  case nm: False
  have t0: "0 \<le> tid" "in_range tid (g_tbls s)" using t by (auto simp: live_tbl_def in_range_def)
  let ?J = "flds_upd s (g_flds s)"
  let ?look = "bind (is_fld None tid (Some name)) (\<lambda>((i, fld_rec), nnf).
     bind (if i \<ge> 0 then seq (del_fld None tid None i True) (ret i) else get_empty_fld (Some name)) (\<lambda>fid.
     fill_fld fid tid name d fname ft len))"
  have J: "?J s'\<Longrightarrow> meta_inv s'" for s'
    using meta_inv_flds[OF _ inv] meta_inv_parts(2)[OF inv] by simp
  have look: "wp ?look ?Q meta_inv s1" if s1: "?J s1" for s1
  proof (rule wp_bind_is_fld[OF J[OF s1] t0(1)])
    fix i r assume "in_range i (g_flds s1)" "r = g_flds s1 ! nat i" "tbl_id r = tid" "fld_name r = name"
    then show "wp ((\<lambda>((i, fld_rec), nnf). bind (if i \<ge> 0 then seq (del_fld None tid None i True) (ret i)
        else get_empty_fld (Some name)) (\<lambda>fid. fill_fld fid tid name d fname ft len))
        ((i, r), nn_fld_id r, nn_of s1 r)) ?Q meta_inv s1"
      using fld_added_old[OF inv s1 _ t d nm, of i] flds_updD(1)[OF s1]
      by (simp add: wp_bind wp_seq wp_ret in_range_def)
  qed (use fld_added_new[OF inv s1 t d nm] flds_updD(1)[OF s1] in \<open>simp add: no_fld_def wp_bind\<close>)
  have leave: "wp (seq leave_ddir ?look) ?Q meta_inv s1" if "?J s1" for s1
    by (rule wp_seqI[where I = ?J]) (use that look in \<open>auto intro: wp_leave_ddir meta_only_flds_upd\<close>)
  have chk: "wp (seq (chk_file_size fname n ft) (seq leave_ddir ?look)) ?Q meta_inv s1" if s1: "?J s1" for s1 n
  proof (rule wp_seqI[where I = ?J])
    show "wp (chk_file_size fname n ft) (\<lambda>_. ?J) meta_inv s1"
      by (rule wp_mono[OF wp_chk_file_size[of ?J, OF s1]]) (auto intro: J)
  qed (rule leave)
  have acc: "wp (bind (tbl_at tid) (\<lambda>t. seq (chk_file_size fname (nR t) ft) (seq leave_ddir ?look))) ?Q meta_inv s1"
    if "?J s1" for s1
    using chk[OF that] t0 flds_updD(2)[OF that] by (simp add: wp_bind[of "tbl_at tid"] wp_accessors)
  have "wp (seq (enter_ddir d) (bind (tbl_at tid) (\<lambda>t. seq (chk_file_size fname (nR t) ft) (seq leave_ddir ?look))))
      ?Q meta_inv s"
    by (rule wp_seqI[where I = ?J]) (use d acc in \<open>auto simp: ddir_ok_def intro: wp_enter_ddir meta_only_flds_upd\<close>)
  then show ?thesis
    using nm t0 inv unfolding add_fld_def wp_seq[of "guard _"] wp_bind[of "arg_given _"]
    by (simp add: wp_guard wp_arg_given)
qed

lemma unique_erase: "fld_slots.unique_keys fs \<Longrightarrow> fld_slots.unique_keys (erase fs i)"
  by (simp add: erase_def fld_slots.unique_blank)

lemma erase_nth:
  "length (erase fs i) = length fs" "j < length fs \<Longrightarrow> erase fs i ! j = fs ! j \<or> erase fs i ! j = zero_fld_rec"
  by (auto simp: erase_def) (metis nth_list_update_eq nth_list_update_neq length_list_update)+

lemma fld_added_unique:
  assumes a: "fld_added s tid name r i s'" and u: "fld_slots.unique_keys (g_flds s)"
    and r: "fld_key r = (tid, name)" and y: "name \<noteq> []"
  shows "fld_slots.unique_keys (g_flds s')"
proof -
  obtain fs where fs: "g_flds s' = fs[nat i := r]" "in_range i (g_flds s)"
    and c: "fs = erase (g_flds s) (nat i) \<and> fld_key (g_flds s ! nat i) = (tid, name) \<or>
      fs = g_flds s \<and> (\<forall>j < length (g_flds s). fld_key (g_flds s ! j) \<noteq> (tid, name))"
    using a unfolding fld_added_def fld_key_def by (auto dest: flds_updD(1))
  have z: "fld_key zero_fld_rec \<noteq> (tid, name)" using y by (auto simp: fld_key_def)
  have uq: "j = nat i" if "fld_key (g_flds s ! nat i) = (tid, name)" "j < length (g_flds s)"
    "fld_key (g_flds s ! j) = (tid, name)" for j
    using u that y fs(2) unfolding fld_slots.unique_keys_def in_range_nat by fastforce
  have "fld_key (fs ! j) \<noteq> fld_key r" if "j < length fs" "j \<noteq> nat i" for j
    using c that z uq erase_nth[where fs = "g_flds s" and i = "nat i"] r by metis
  moreover have "fld_slots.unique_keys fs" using c u unique_erase by metis
  ultimately show ?thesis unfolding fs(1) by (intro fld_slots.unique_store)
qed

lemma fld_added_answer:
  assumes a: "fld_added s tid name r i s'" and u: "fld_slots.unique_keys (g_flds s')"
    and r: "fld_key r = (tid, name)" and y: "name \<noteq> []"
  shows "fld_answer s' tid name = ((i, r), (nn_fld_id r, nn_of s' r))"
proof -
  have i: "i \<ge> 0" "nat i < length (g_flds s')" "g_flds s' ! nat i = r"
    using a by (auto simp: fld_added_def in_range_nat erase_nth dest!: flds_updD(1))
  then show ?thesis using fld_lookup_Some[OF u y, of "nat i" tid] r by (simp add: fld_answer_def)
qed

subsection \<open>Auxiliary fields\<close>

text \<open>The state with the nn link of one field taken away: \<open>mk_nn_fld\<close> calls \<open>add_aux_fld\<close>
  while the link still names the slot it has just erased.\<close>

definition cut_nn :: "int \<Rightarrow> q_state \<Rightarrow> q_state" where
  "cut_nn i s = s\<lparr>g_flds := (g_flds s)[nat i := (g_flds s ! nat i)\<lparr>nn_fld_id := -1\<rparr>]\<rparr>"

definition aux_rec :: "int \<Rightarrow> int \<Rightarrow> string \<Rightarrow> int \<Rightarrow> string \<Rightarrow> FLD_REC" where
  "aux_rec fid tid name d fname = zero_fld_rec\<lparr>parent_id := fid, tbl_id := tid,
     is_external := False, auxtype := nn, fldtype := I1, fld_name := ''_nn_'' @ name,
     filename := fname, ddir_id := d\<rparr>"

definition aux_added :: "q_state \<Rightarrow> int \<Rightarrow> int \<Rightarrow> string \<Rightarrow> int \<Rightarrow> q_state \<Rightarrow> bool" where
  "aux_added s fid d fname k s' \<longleftrightarrow> meta_inv s' \<and> in_range k (g_flds s) \<and> k \<noteq> fid \<and>
     (let r = g_flds s ! nat fid in
      flds_upd s ((g_flds s)[nat fid := r\<lparr>nn_fld_id := k\<rparr>, nat k := aux_rec fid (tbl_id r) (fld_name r) d fname]) s' \<and>
      fld_name (g_flds s ! nat k) = [])"

lemma meta_inv_cut:
  assumes "meta_inv s" and "in_range i (g_flds s)" and "unlinked (g_flds s ! nat i)"
  shows "meta_inv (cut_nn i s)"
proof -
  have i: "nat i < length (g_flds s)" using assms(2) by (simp add: in_range_nat)
  have "parent_id (g_flds s ! nat i) < 0"
    using primary_parent[OF meta_inv_parts(2)[OF assms(1)] i] assms(3) by (simp add: unlinked_def)
  moreover have "local_ok (g_tbls s) (g_ddirs s) (g_flds s ! nat i)"
    using fields_ok_local[OF meta_inv_parts(2)[OF assms(1)] i] .
  ultimately show ?thesis
    unfolding cut_nn_def
    by (intro store_inv[OF assms]) (use assms(3) in \<open>auto simp: unlinked_def local_ok_def\<close>)
qed

lemma link_step:
  assumes cut: "meta_inv (cut_nn fid s)" and f: "in_range fid (g_flds s)"
    and r: "auxtype (g_flds s ! nat fid) = undef" "fld_name (g_flds s ! nat fid) \<noteq> []"
    and k: "in_range k (g_flds s)" "k \<noteq> fid" "fld_name (g_flds s ! nat k) = []"
    and d: "ddir_ok s d" and len: "length fname \<le> MAX_LEN_FILE_NAME"
      "length (fld_name (g_flds s ! nat fid)) + 4 \<le> MAX_LEN_FLD_NAME"
    and s1: "flds_upd s (g_flds s) s1" and tid: "tid = tbl_id (g_flds s ! nat fid)"
  shows "wp (seq (set_fld k (\<lambda>_. zero_fld_rec)) (seq (set_fld fid (\<lambda>r. r\<lparr>nn_fld_id := k\<rparr>))
    (seq (within (length fname \<le> MAX_LEN_FILE_NAME))
    (seq (set_fld k (\<lambda>r. r\<lparr>parent_id := fid, tbl_id := tid, is_external := False, auxtype := nn,
       fldtype := I1, fld_name := ''_nn_'' @ fld_name (g_flds s ! nat fid), filename := fname, ddir_id := d\<rparr>))
     (ret k))))) (aux_added s fid d fname) E s1"
proof -
  let ?fs = "g_flds s" and ?i = "nat fid" and ?k = "nat k"
  let ?r = "?fs ! ?i"
  let ?gs = "?fs[?i := ?r\<lparr>nn_fld_id := -1\<rparr>]"
  let ?a = "aux_rec fid (tbl_id ?r) (fld_name ?r) d fname"
  have n: "?i < length ?fs" "?k < length ?fs" "?i \<noteq> ?k" "int ?k = k" "int ?i = fid" "k \<ge> 0" "fid \<ge> 0"
    using f k by (auto simp: in_range_def)
  have e: "g_flds s1 = ?fs" using flds_updD[OF s1] by auto
  have ok0: "fields_ok (g_tbls s) (g_ddirs s) ?gs" using meta_inv_parts(2)[OF cut] by (simp add: cut_nn_def)
  have lo: "local_ok (g_tbls s) (g_ddirs s) ?r"
    using fields_ok_local[OF ok0, of ?i] n by (simp add: local_ok_def)
  have "unlinked (?gs ! ?k)" using free_unlinked[OF ok0, of ?k] n k(3) by simp
  then have "fields_ok (g_tbls s) (g_ddirs s) (?gs[?i := (?gs ! ?i)\<lparr>nn_fld_id := int ?k\<rparr>, ?k := ?a])"
    using n r d len lo
    by (intro make_link[OF ok0]) (auto simp: unlinked_def aux_rec_def local_ok_def ddir_ok_def live_tbl_def)
  then have ok: "fields_ok (g_tbls s) (g_ddirs s) (?fs[?i := ?r\<lparr>nn_fld_id := k\<rparr>, ?k := ?a])"
    using n by simp
  have up: "flds_upd s (?fs[?i := ?r\<lparr>nn_fld_id := k\<rparr>, ?k := ?a])
      (s1\<lparr>g_flds := ?fs[?i := ?r\<lparr>nn_fld_id := k\<rparr>, ?k := ?a]\<rparr>)"
    by (rule flds_upd_set[OF s1])
  have "ht_ok s" "g_flds s \<noteq> []" using cut by (auto simp: cut_nn_def meta_inv_def ht_ok_def)
  then have inv: "meta_inv (s1\<lparr>g_flds := ?fs[?i := ?r\<lparr>nn_fld_id := k\<rparr>, ?k := ?a]\<rparr>)"
    using ok cut flds_updD[OF s1] by (simp add: meta_inv_def cut_nn_def ht_ok_def)
  have arr: "?fs[?k := zero_fld_rec, ?i := ?r\<lparr>nn_fld_id := k\<rparr>, ?k := ?a] =
      ?fs[?i := ?r\<lparr>nn_fld_id := k\<rparr>, ?k := ?a]"
    using n by (intro list_update_again)
  show ?thesis
    using n f k len e inv up arr tid
    by (simp add: wp_simps aux_added_def Let_def aux_rec_def nth_list_update)
qed

lemma mk_name_aux_fld_Some:
  "mk_name_aux_fld (Some x) nn = Some y \<Longrightarrow> y = ''_nn_'' @ x \<and> length x + 4 \<le> MAX_LEN_FLD_NAME"
  by (auto split: if_splits)

lemma wp_link_aux:
  assumes cut: "meta_inv (cut_nn fid s)" and f: "in_range fid (g_flds s)"
    and r: "auxtype (g_flds s ! nat fid) = undef" "fld_name (g_flds s ! nat fid) \<noteq> []"
    and old: "nn0 > 0 \<Longrightarrow> in_range nn0 (g_flds s) \<and> fld_name (g_flds s ! nat nn0) = []"
    and d: "ddir_ok s d" and len: "length fname \<le> MAX_LEN_FILE_NAME"
    and tid: "tid = tbl_id (g_flds s ! nat fid)"
  shows "wp (link_aux d fname (tid, fid, nn0)) (aux_added s fid d fname) (flds_upd s (g_flds s)) s"
proof -
  let ?J = "flds_upd s (g_flds s)" and ?r = "g_flds s ! nat fid"
  let ?fin = "\<lambda>aux k. seq (set_fld k (\<lambda>_. zero_fld_rec)) (seq (set_fld fid (\<lambda>r. r\<lparr>nn_fld_id := k\<rparr>))
    (seq (within (length fname \<le> MAX_LEN_FILE_NAME))
    (seq (set_fld k (\<lambda>r. r\<lparr>parent_id := fid, tbl_id := tid, is_external := False, auxtype := nn,
       fldtype := I1, fld_name := aux, filename := fname, ddir_id := d\<rparr>)) (ret k))))"
  have i: "nat fid < length (g_flds s)" using f by (simp add: in_range_nat)
  have "live_tbl (g_tbls s) (tbl_id ?r)"
    using fields_ok_local[OF meta_inv_parts(2)[OF cut], of "nat fid"] r(2) i
    by (auto simp: cut_nn_def local_ok_def)
  then have t: "in_range tid (g_tbls s)" using tid by (simp add: live_tbl_def)
  have pick: "wp (bind (if nn0 > 0 then ret nn0 else get_empty_fld (Some aux)) (?fin aux))
      (aux_added s fid d fname) ?J s1"
    if s1: "?J s1" and aux: "mk_name_aux_fld (Some (fld_name ?r)) nn = Some aux" for s1 aux
  proof -
    have nm: "aux = ''_nn_'' @ fld_name ?r" "length (fld_name ?r) + 4 \<le> MAX_LEN_FLD_NAME"
      using mk_name_aux_fld_Some[OF aux] by auto
    have fin: "wp (?fin aux k) (aux_added s fid d fname) ?J s1"
      if "in_range k (g_flds s)" "fld_name (g_flds s ! nat k) = []" for k
      using that nm r by (simp only: nm(1)) (rule link_step[OF cut f r _ _ _ d len nm(2) s1 tid], auto)
    have ne: "g_flds s1 \<noteq> []" using i flds_updD(1)[OF s1] by auto
    have "wp (get_empty_fld (Some aux)) (\<lambda>k. wp (?fin aux k) (aux_added s fid d fname) ?J) ?J s1"
      by (rule wp_get_empty_fld[OF ne]) (use fin flds_updD(1)[OF s1] s1 in simp_all)
    then show ?thesis using fin old by (simp only: wp_bind wp_if wp_ret if_split) auto
  qed
  have name: "wp (bind (fld_at fid) (\<lambda>r. bind (of_option (mk_name_aux_fld (Some (fld_name r)) nn)) (\<lambda>aux.
      bind (if nn0 > 0 then ret nn0 else get_empty_fld (Some aux)) (?fin aux))))
      (aux_added s fid d fname) ?J s1" if "?J s1" for s1
    using pick[OF that] that f flds_updD(1)[OF that]
    by (simp only: wp_bind[of "fld_at _"] wp_bind[of "of_option _"] wp_accessors wp_of_option) (simp split: option.splits)
  have map: "wp (bind (q_mmap d fname False) (\<lambda>pX. seq (guard (size_t n = size_t (int (length (snd pX)))))
      (bind (fld_at fid) (\<lambda>r. bind (of_option (mk_name_aux_fld (Some (fld_name r)) nn)) (\<lambda>aux.
      bind (if nn0 > 0 then ret nn0 else get_empty_fld (Some aux)) (?fin aux))))))
      (aux_added s fid d fname) ?J s" for n
    by (rule wp_bindI[where I = ?J])
      (use d name in \<open>auto simp: ddir_ok_def wp_seq[of "guard _"] wp_guard intro!: wp_q_mmap meta_only_flds_upd\<close>)
  show ?thesis
    using map t by (simp add: link_aux_def wp_bind[of "tbl_at _"] wp_accessors)
qed

lemma wp_add_aux_fld:
  assumes cut: "meta_inv (cut_nn fid s)" and f: "in_range fid (g_flds s)"
    and r: "auxtype (g_flds s ! nat fid) = undef" "fld_name (g_flds s ! nat fid) \<noteq> []"
    and old: "nn_fld_id (g_flds s ! nat fid) \<ge> 0 \<Longrightarrow> in_range (nn_fld_id (g_flds s ! nat fid)) (g_flds s) \<and>
      fld_name (g_flds s ! nat (nn_fld_id (g_flds s ! nat fid))) = []"
    and d: "ddir_ok s d" and len: "length fname \<le> MAX_LEN_FILE_NAME"
    and tid: "tid = tbl_id (g_flds s ! nat fid)" "tid \<ge> 0"
  shows "wp (add_aux_fld None tid None fid d (Some fname) (Some ''nn''))
    (aux_added s fid d fname) (flds_upd s (g_flds s)) s"
proof (cases "fname = []")
  case True
  then show ?thesis
    using tid f by (simp add: add_aux_fld_def wp_seq wp_bind wp_arg_given wp_ret in_range_def)
next
  case False
  have "wp (link_aux d fname (tid, fid, nn_fld_id (g_flds s ! nat fid))) (aux_added s fid d fname)
      (flds_upd s (g_flds s)) s"
    by (rule wp_link_aux[OF cut f r _ d len tid(1)]) (use old in auto)
  then show ?thesis
    using False tid(2) f old
    by (auto simp: add_aux_fld_def wp_simps unstr_auxtype_def in_range_def)
qed

lemma store_links_inv:
  assumes "meta_inv s" and "in_range i (g_flds s)" and "same_links (g_flds s ! nat i) r"
    and "local_ok (g_tbls s) (g_ddirs s) r"
  shows "meta_inv (s\<lparr>g_flds := (g_flds s)[nat i := r]\<rparr>)"
  using assms meta_inv_parts(2)[OF assms(1)]
  by (intro meta_inv_flds[OF flds_upd_self assms(1)] store_same_links) (auto simp: in_range_nat)

text \<open>Dropping the nn field of a field.\<close>

lemma wp_del_aux_fld:
  assumes inv: "meta_inv s" and f: "in_range fid (g_flds s)"
  shows "wp (del_aux_fld fid nn) (\<lambda>_. meta_inv) E s"
proof -
  let ?fs = "g_flds s" and ?i = "nat fid"
  let ?r = "?fs ! ?i"
  have i: "?i < length ?fs" using f by (simp add: in_range_nat)
  have ok: "fields_ok (g_tbls s) (g_ddirs s) ?fs" using inv by (rule meta_inv_parts)
  show ?thesis
  proof (cases "nn_fld_id ?r \<ge> 0")
    case False
    have "local_ok (g_tbls s) (g_ddirs s) (?r\<lparr>nn_fld_id := -1\<rparr>)"
      using fields_ok_local[OF ok i] by (simp add: local_ok_def)
    then have "meta_inv (s\<lparr>g_flds := ?fs[?i := ?r\<lparr>nn_fld_id := -1\<rparr>]\<rparr>)"
      using False by (intro store_links_inv[OF inv f]) (auto simp: same_links_def)
    then show ?thesis using False f by (simp add: del_aux_fld_def wp_simps)
  next
    case True
    obtain k where k: "k < length ?fs" "nn_fld_id ?r = int k" "k \<noteq> ?i" "nn_fld_id (?fs ! k) < 0"
      by (rule nn_partner[OF ok i True])
    let ?gs = "?fs[?i := ?r\<lparr>nn_fld_id := -1\<rparr>, k := (?fs ! k)\<lparr>parent_id := -1, auxtype := undef\<rparr>]"
    have ok2: "fields_ok (g_tbls s) (g_ddirs s) (?gs[k := zero_fld_rec])"
      using k i by (intro store_unlinked[OF cut_link[OF ok i k(2)]]) (auto simp: unlinked_def)
    let ?s1 = "s\<lparr>g_flds := ?fs[?i := ?r\<lparr>nn_fld_id := -1\<rparr>]\<rparr>"
    have fin: "wp (set_fld (int k) (\<lambda>_. zero_fld_rec)) (\<lambda>_. meta_inv) E s'"
      if "flds_upd s (g_flds ?s1) s'" for s'
      using flds_updD(1)[OF that] k meta_inv_flds[OF flds_upd_set[OF that] inv] ok2
      by (simp add: wp_accessors in_range_def)
    have "wp (unlink f) (\<lambda>_. wp (set_fld (int k) (\<lambda>_. zero_fld_rec)) (\<lambda>_. meta_inv) E) E ?s1" for f
      by (rule wp_mono[OF wp_unlink[OF meta_only_flds_upd]]) (auto intro: fin)
    then show ?thesis
      using f k fin[of ?s1] by (simp add: del_aux_fld_def wp_bind wp_seq wp_guard wp_ret wp_accessors in_range_def)
  qed
qed

lemma drop_nn_fld_inv: "preserves meta_inv (drop_nn_fld (Some x) (Some y))"
proof (rule preservesI)
  fix s assume inv: "meta_inv s"
  have second: "wp (bind (is_fld None t (Some y)) (\<lambda>((fid, fld_rec), (ni, nn_fld_rec)).
      seq (chk_fld_range fid) (bind (ignore (del_aux_fld fid nn)) (\<lambda>_. ret ())))) (\<lambda>_. meta_inv) meta_inv s"
    if "t \<ge> 0" for t
    by (rule wp_bind_is_fld[OF inv that])
      (use inv wp_del_aux_fld in \<open>auto simp: wp_bind wp_seq wp_ret wp_accessors(7) wp_ignore no_fld_def\<close>)
  have "wp (bind (is_tbl (Some x)) (\<lambda>(t, r). seq (chk_tbl_range t)
      (bind (is_fld None t (Some y)) (\<lambda>((fid, fld_rec), (ni, nn_fld_rec)).
      seq (chk_fld_range fid) (bind (ignore (del_aux_fld fid nn)) (\<lambda>_. ret ())))))) (\<lambda>_. meta_inv) meta_inv s"
    by (rule wp_bind_is_tbl[OF inv])
      (use inv second in \<open>auto simp: wp_seq[of "chk_tbl_range _"] wp_accessors(6) in_range_def\<close>)
  then show "wp (drop_nn_fld (Some x) (Some y)) (\<lambda>_. meta_inv) meta_inv s"
    using inv unfolding drop_nn_fld_def wp_bind[of "arg_given _"] by (simp add: wp_arg_given)
qed

end
