(* ===== verification/Q_Moves.thy ===== *)
theory Q_Moves
  imports Q_Safety
begin

text \<open>
  Rules for renaming and moving fields, for adding a field by its specification, for
  turning a field into an nn field, and for the attribute verbs.
\<close>

subsection \<open>Finding a field by the names of table and field\<close>

lemma wp_find_tbl:
  assumes inv: "meta_inv s" and E: "E s"
    and found: "\<And>t. in_range t (g_tbls s) \<Longrightarrow> tbl_name (g_tbls s ! nat t) = x \<Longrightarrow> 0 \<le> t \<Longrightarrow> wp (k t) Q E s"
  shows "wp (bind (is_tbl (Some x)) (\<lambda>(t, tbl_rec). seq (chk_tbl_range t) (k t))) Q E s"
  by (rule wp_bind_is_tbl[OF inv])
    (use found E in \<open>auto simp: wp_seq wp_accessors(6) in_range_def\<close>)

lemma wp_find_fld:
  assumes inv: "meta_inv s" and E: "E s" and t: "0 \<le> t"
    and found: "\<And>i r. in_range i (g_flds s) \<Longrightarrow> r = g_flds s ! nat i \<Longrightarrow> tbl_id r = t \<Longrightarrow> fld_name r = y \<Longrightarrow>
      wp (k i r (nn_fld_id r) (nn_of s r)) Q E s"
  shows "wp (bind (is_fld tbl t (Some y)) (\<lambda>((i, r), (ni, nr)). seq (chk_fld_range i) (k i r ni nr))) Q E s"
  by (rule wp_bind_is_fld[OF inv t])
    (use found E in \<open>auto simp: wp_seq wp_accessors(7) no_fld_def\<close>)

lemma wp_bind_tbl_at:
  "in_range t (g_tbls s) \<Longrightarrow> wp (k (g_tbls s ! nat t)) Q E s \<Longrightarrow> wp (bind (tbl_at t) k) Q E s"
  by (simp add: wp_bind wp_accessors)

lemma wp_bind_fld_at:
  "in_range i (g_flds s) \<Longrightarrow> wp (k (g_flds s ! nat i)) Q E s \<Longrightarrow> wp (bind (fld_at i) k) Q E s"
  by (simp add: wp_bind wp_accessors)

lemma wp_seq_guard: "(b \<Longrightarrow> wp p Q E s) \<Longrightarrow> E s \<Longrightarrow> wp (seq (guard b) p) Q E s"
  by (simp add: wp_seq wp_guard)

lemma wp_bind_arg:
  "(x \<noteq> [] \<Longrightarrow> wp (k x) Q E s) \<Longrightarrow> E s \<Longrightarrow> wp (bind (arg_given (Some x)) k) Q E s"
  by (simp add: wp_bind wp_arg_given)

lemmas wp_steps = wp_bind_arg wp_bind_tbl_at wp_bind_fld_at wp_seq_guard

subsection \<open>Renaming a field\<close>

text \<open>The last steps of \<open>rename_fld\<close>: the new name and the name of the nn field.\<close>

lemma wp_rename_names:
  assumes inv: "meta_inv s" and f: "in_range fid (g_flds s)" and t: "tbl_id (g_flds s ! nat fid) \<noteq> -1"
    and y: "y \<noteq> []"
    and k: "k \<ge> 0 \<Longrightarrow> in_range k (g_flds s) \<and> tbl_id (g_flds s ! nat k) \<noteq> -1 \<and> k \<noteq> fid"
  shows "wp (rename_names y fid k) (\<lambda>_. meta_inv) meta_inv s"
proof -
  have ok: "fields_ok (g_tbls s) (g_ddirs s) (g_flds s)" using inv by (rule meta_inv_parts)
  have lo: "local_ok (g_tbls s) (g_ddirs s) ((g_flds s ! nat j)\<lparr>fld_name := z\<rparr>)"
    if "in_range j (g_flds s)" "tbl_id (g_flds s ! nat j) \<noteq> -1" "length z \<le> MAX_LEN_FLD_NAME" for j z
    using fields_ok_local[OF ok, of "nat j"] that by (auto simp: local_ok_def in_range_nat)
  let ?s1 = "s\<lparr>g_flds := (g_flds s)[nat fid := (g_flds s ! nat fid)\<lparr>fld_name := y\<rparr>]\<rparr>"
  have inv1: "meta_inv ?s1" if "length y \<le> MAX_LEN_FLD_NAME"
    using that y t f by (intro store_links_inv[OF inv f] lo) (auto simp: same_links_def)
  have inv2: "meta_inv (?s1\<lparr>g_flds := (g_flds ?s1)[nat k := (g_flds ?s1 ! nat k)\<lparr>fld_name := ''_nn_'' @ y\<rparr>]\<rparr>)"
    if "length y + 4 \<le> MAX_LEN_FLD_NAME" "k \<ge> 0"
  proof -
    have kk: "in_range k (g_flds s)" "tbl_id (g_flds s ! nat k) \<noteq> -1" "nat k \<noteq> nat fid"
      using k[OF that(2)] f by (auto simp: in_range_def)
    then show ?thesis
      using that lo[OF kk(1,2), of "''_nn_'' @ y"]
      by (intro store_links_inv[OF inv1]) (auto simp: same_links_def)
  qed
  show ?thesis
    using f k inv inv1 inv2 by (auto simp: rename_names_def wp_simps chk_fld_name_def)
qed

lemma wp_rename_rest:
  assumes inv: "meta_inv s" and f: "in_range fid (g_flds s)" and tid: "tbl_id (g_flds s ! nat fid) = tid" "0 \<le> tid"
    and y: "y \<noteq> []" and k: "k \<ge> 0 \<Longrightarrow> nn_fld_id (g_flds s ! nat fid) = k"
    and prim: "auxtype (g_flds s ! nat fid) = undef"
    and j: "j \<ge> 0 \<Longrightarrow> in_range j (g_flds s) \<and> j \<noteq> fid"
  shows "wp (seq (if j \<ge> 0 then del_fld None tid None j True else ret ()) (rename_names y fid k))
    (\<lambda>_. meta_inv) meta_inv s"
    (is "wp (seq ?del ?rest) _ _ _")
proof -
  let ?fs = "g_flds s" and ?i = "nat fid"
  have i: "?i < length ?fs" "fid \<ge> 0" using f by (auto simp: in_range_def)
  have ok: "fields_ok (g_tbls s) (g_ddirs s) ?fs" using inv by (rule meta_inv_parts)
  have kk: "in_range k ?fs \<and> tbl_id (?fs ! nat k) \<noteq> -1 \<and> k \<noteq> fid \<and> auxtype (?fs ! nat k) = nn" if k0: "k \<ge> 0"
  proof -
    obtain m where "m < length ?fs" "nn_fld_id (?fs ! ?i) = int m" "tbl_id (?fs ! m) = tbl_id (?fs ! ?i)"
      "m \<noteq> ?i" "auxtype (?fs ! m) = nn"
      by (rule nn_partner[OF ok i(1)]) (use k[OF k0] k0 in auto)
    then show ?thesis using k[OF k0] tid by (auto simp: in_range_def)
  qed
  have rest: "wp ?rest (\<lambda>_. meta_inv) meta_inv s" by (rule wp_rename_names[OF inv f _ y]) (use tid kk in auto)
  have "wp (seq (del_fld None tid None j True) ?rest) (\<lambda>_. meta_inv) meta_inv s" if j0: "j \<ge> 0"
  proof (cases "auxtype (?fs ! nat j)")
    case nn
    then show ?thesis using j[OF j0] unfolding wp_seq by (intro wp_del_fld_aux[OF inv tid(2)] inv) auto
  next
    case undef
    have jr: "in_range j ?fs" "nat j < length ?fs" "?i \<noteq> nat j" using j[OF j0] i by (auto simp: in_range_nat)
    have nj: "int ?i \<noteq> nn_fld_id (?fs ! nat j)" if "nn_fld_id (?fs ! nat j) \<ge> 0"
      using nn_partner[OF ok jr(2) that] prim by (metis AUX_TYPE.distinct(1) nat_int)
    have ki: "erase ?fs (nat j) ! nat k = ?fs ! nat k" if k0: "k \<ge> 0"
    proof (rule erase_other)
      show "nat k \<noteq> nat j" using kk[OF k0] undef by auto
      show "int (nat k) \<noteq> nn_fld_id (?fs ! nat j)" if "nn_fld_id (?fs ! nat j) \<ge> 0"
        using nn_inj[OF ok i(1) jr(2)] k[OF k0] k0 jr(3) by auto
    qed
    have "wp ?rest (\<lambda>_. meta_inv) meta_inv s1" if s1: "flds_upd s (erase ?fs (nat j)) s1" for s1
      by (rule wp_rename_names[OF meta_inv_erase[OF inv jr(1) undef s1] _ _ y])
        (use flds_updD(1)[OF s1] f tid kk ki erase_other[OF jr(3) nj] in \<open>auto simp: in_range_def\<close>)
    then show ?thesis
      by (rule wp_seqI[rotated]) (use wp_del_fld_id[OF inv tid(2) jr(1)] undef in auto)
  qed
  then show ?thesis using rest by (simp add: wp_seq wp_ret)
qed

lemma rename_fld_inv: "preserves meta_inv (rename_fld (Some x) (Some z) (Some y))"
proof (rule preservesI)
  fix s assume inv: "meta_inv s"
  let ?fs = "g_flds s"
  have ok: "fields_ok (g_tbls s) (g_ddirs s) ?fs" using inv by (rule meta_inv_parts)
  let ?rest = "\<lambda>t fid k j. seq (if j \<ge> 0 then del_fld None t None j True else ret ()) (rename_names y fid k)"
  have main: "wp (bind (fld_at i) (\<lambda>r. seq (detach_aux i r) (?rest t i k j))) (\<lambda>_. meta_inv) meta_inv s"
    if i: "in_range i ?fs" and t: "0 \<le> t" "tbl_id (?fs ! nat i) = t" and k: "k = nn_fld_id (?fs ! nat i)"
      and y: "y \<noteq> []" and j: "j \<ge> 0 \<Longrightarrow> in_range j ?fs \<and> j \<noteq> i" for t i k j
  proof (cases "auxtype (?fs ! nat i)")
    case undef
    then have "\<not> parent_id (?fs ! nat i) \<ge> 0" using primary_parent[OF ok, of "nat i"] i by (simp add: in_range_nat)
    moreover have "wp (?rest t i k j) (\<lambda>_. meta_inv) meta_inv s"
      using i t k y j undef by (intro wp_rename_rest[OF inv]) auto
    ultimately show ?thesis
      using i by (simp add: detach_aux_def wp_bind wp_seq[of "ret ()"] wp_ret wp_accessors(1))
  next
    case nn
    have ni: "nat i < length ?fs" "i = int (nat i)" using i by (auto simp: in_range_def)
    obtain p where p: "p < length ?fs" "parent_id (?fs ! nat i) = int p" "nn_fld_id (?fs ! p) = int (nat i)"
      "p \<noteq> nat i" "nn_fld_id (?fs ! nat i) < 0"
      by (rule aux_parent[OF ok ni(1) nn])
    let ?gs = "?fs[p := (?fs ! p)\<lparr>nn_fld_id := -1\<rparr>, nat i := (?fs ! nat i)\<lparr>parent_id := -1, auxtype := undef\<rparr>]"
    have "fields_ok (g_tbls s) (g_ddirs s) ?gs" by (rule cut_link[OF ok p(1,3)])
    then have inv1: "meta_inv (s\<lparr>g_flds := ?gs\<rparr>)" by (intro meta_inv_flds[OF flds_upd_self inv]) auto
    have "wp (?rest t i k j) (\<lambda>_. meta_inv) meta_inv (s\<lparr>g_flds := ?gs\<rparr>)"
      using i ni t k y j p by (intro wp_rename_rest[OF inv1]) auto
    moreover have "in_range (int p) ?fs" using p(1) by (simp add: in_range_def)
    ultimately show ?thesis
      using i p inv ni by (simp add: detach_aux_def wp_bind wp_seq[of "bind _ _"] wp_seq[of "guard _"]
          wp_seq[of "set_fld _ _"] wp_guard wp_accessors)
  qed
  let ?new = "\<lambda>t i k. bind (is_fld None t (Some y)) (\<lambda>((j, new_rec), nn_new).
      bind (fld_at i) (\<lambda>r. seq (detach_aux i r) (?rest t i k j)))"
  have new: "wp (?new t i k) (\<lambda>_. meta_inv) meta_inv s"
    if "in_range i ?fs" "r = ?fs ! nat i" "tbl_id r = t" "fld_name r = z" "0 \<le> t" "k = nn_fld_id r"
      "y \<noteq> []" "y \<noteq> z" for t i r k
  proof (rule wp_bind_is_fld[OF inv \<open>0 \<le> t\<close>], goal_cases)
    case (1 j q)
    then show ?case unfolding prod.case by (intro main) (use that in auto)
  next
    case 2
    then show ?case unfolding no_fld_def prod.case by (intro main) (use that in auto)
  qed
  have "wp (bind (is_tbl (Some x)) (\<lambda>(t, tbl_rec). seq (chk_tbl_range t)
      (bind (is_fld None t (Some z)) (\<lambda>((i, r), (k, nn_old)). seq (chk_fld_range i) (?new t i k)))))
      (\<lambda>_. meta_inv) meta_inv s" if "y \<noteq> []" "y \<noteq> z"
    by (intro wp_find_tbl wp_find_fld inv new) (use that in auto)
  then show "wp (rename_fld (Some x) (Some z) (Some y)) (\<lambda>_. meta_inv) meta_inv s"
    using inv unfolding rename_fld_def wp_bind[of "arg_given _"] wp_seq[of "guard _"]
    by (simp add: wp_arg_given wp_guard)
qed

subsection \<open>Adding a field by specification\<close>

lemma extract_S_no_Fault: "extract_S X st sp n \<noteq> Fault"
  by (simp add: extract_S_def Let_def split: option.splits)

lemma wp_extract_checked:
  assumes "\<And>v. Q v s" and "E s"
  shows "wp (extract_checked spec st) Q E s"
  using assms unfolding extract_checked_def
  by (auto simp: wp_bind wp_ignore wp_lift_out wp_ret wp_bye extract_S_def Let_def split: option.splits)

text \<open>The table name must be given: an empty one is taken for the first free slot.\<close>

lemma ext_add_fld_inv:
  assumes x: "x \<noteq> []"
  shows "preserves meta_inv (ext_add_fld (Some x) (Some y) spec)"
proof (rule preservesI)
  fix s assume inv: "meta_inv s"
  let ?add = "\<lambda>t. bind (extract_checked spec ''fldtype=['') (\<lambda>str_fldtype.
     bind (of_option (unstr_fldtype (Some str_fldtype))) (\<lambda>ft.
     bind (extract_checked spec ''filename=['') (\<lambda>fname.
     bind (ignore (lift_out (extract_S spec ''len=['' '']'' 1024))) (\<lambda>rl.
     bind (case rl of
             Some (Some str_len) \<Rightarrow>
               seq (guard (snd (strtoll str_len) = []))
              (seq (guard (\<not> to_int32 (fst (strtoll str_len)) < 2))
               (ret (to_int32 (fst (strtoll str_len)))))
           | _ \<Rightarrow> ret (-1)) (\<lambda>len.
     add_fld t (Some y) (-1) fname ft len)))))"
  have one: "wp (add_fld t (Some y) (-1) fname ft len) (\<lambda>_. meta_inv) meta_inv s'"
    if "meta_inv s'" "live_tbl (g_tbls s') t" for s' t fname ft len
    by (rule wp_mono[OF wp_add_fld[OF that]]) (auto simp: ddir_ok_def fld_added_def)
  have add: "wp (?add t) (\<lambda>_. meta_inv) meta_inv s'" if "meta_inv s'" "live_tbl (g_tbls s') t" for s' t
    unfolding wp_bind by (intro wp_extract_checked)
      (use that one in \<open>auto simp: wp_bind wp_of_option wp_ignore wp_lift_out wp_seq wp_guard wp_ret
         extract_S_no_Fault intro!: wp_extract_checked split: option.splits outcome.splits\<close>)
  let ?old = "\<lambda>t i r. if i \<ge> 0 then bind (extract_checked spec ''filename=['') (\<lambda>fname.
     seq (guard (filename r \<noteq> fname)) (bind (ignore (del_fld None t None i True)) (\<lambda>_. ret ()))) else ret ()"
  have del: "wp (seq (?old t i r) (?add t)) (\<lambda>_. meta_inv) meta_inv s"
    if t: "live_tbl (g_tbls s) t" and i: "i \<ge> 0 \<Longrightarrow> in_range i (g_flds s)" for t i r
  proof -
    let ?I = "\<lambda>s'. meta_inv s' \<and> live_tbl (g_tbls s') t"
    have t0: "0 \<le> t" using t by (simp add: live_tbl_def in_range_def)
    have "wp (del_fld None t None i True) (\<lambda>_. ?I) ?I s" if i0: "i \<ge> 0"
    proof (cases "auxtype (g_flds s ! nat i)")
      case nn
      then show ?thesis using t by (intro wp_del_fld_aux[OF inv t0 i[OF i0]] conjI inv) auto
    next
      case undef
      have I: "?I s'" if "flds_upd s (erase (g_flds s) (nat i)) s'" for s'
        using meta_inv_erase[OF inv i[OF i0] undef that] flds_updD(2)[OF that] t by simp
      show ?thesis
        by (rule wp_mono[OF wp_del_fld_id[OF inv t0 i[OF i0], where ext = True and E = ?I]]) (use undef I in auto)
    qed
    then have "wp (?old t i r) (\<lambda>_. ?I) meta_inv s"
      using inv t by (auto simp: wp_ret wp_seq wp_guard wp_bind wp_ignore intro!: wp_extract_checked)
    then show ?thesis by (rule wp_seqI) (use add in auto)
  qed
  let ?k = "\<lambda>t. bind (ignore (is_fld None t (Some y))) (\<lambda>rf.
     bind (ret (case rf of None \<Rightarrow> (INT_MIN, zero_fld_rec) | Some (f, nnf) \<Rightarrow> f)) (\<lambda>(i, fld_rec).
     seq (?old t i fld_rec) (?add t)))"
  have fld: "wp (?k t) (\<lambda>_. meta_inv) meta_inv s" if t: "live_tbl (g_tbls s) t" for t
  proof -
    have t0: "0 \<le> t" using t by (simp add: live_tbl_def in_range_def)
    obtain i r where ir: "fld_found s t y (i, r)" "is_fld None t (Some y) s =
        (Ret (if i < 0 then no_fld else ((i, r), (nn_fld_id r, nn_of s r))), s)"
      using is_fld_result[OF meta_inv_parts(1,3)[OF inv] t0] by metis
    have "i \<ge> 0 \<Longrightarrow> in_range i (g_flds s)" using ir(1) by (auto simp: fld_found_def)
    then have "wp (seq (?old t i r) (?add t)) (\<lambda>_. meta_inv) meta_inv s" by (rule del[OF t])
    moreover have "wp (seq (?old t INT_MIN zero_fld_rec) (?add t)) (\<lambda>_. meta_inv) meta_inv s"
      by (rule del[OF t]) simp
    ultimately show ?thesis
      unfolding wp_bind wp_ignore wp_ret wp_def[of "is_fld _ _ _"] ir(2)
      by (auto simp: no_fld_def wp_bind[symmetric] split: if_splits)
  qed
  obtain t r where tr: "is_tbl (Some x) s = (Ret (t, r), s)" "tbl_found s x (t, r)"
    using is_tbl_result[OF meta_inv_parts(1)[OF inv], of x] by auto
  have "live_tbl (g_tbls s) t" if "in_range t (g_tbls s)"
    using that tr(2) x by (auto simp: tbl_found_def live_tbl_def)
  then show "wp (ext_add_fld (Some x) (Some y) spec) (\<lambda>_. meta_inv) meta_inv s"
    unfolding ext_add_fld_def wp_bind[of "ignore (is_tbl _)"] wp_ignore wp_def[of "is_tbl _"] tr(1)
    using fld[of t] inv by (simp add: wp_bind[of "ret _"] wp_ret wp_seq[of "chk_tbl_range _"] wp_accessors(6))
qed

subsection \<open>Attributes\<close>

lemma wp_set_fld_attr:
  assumes inv: "meta_inv s" and f: "in_range fid (g_flds s)" and t: "tbl_id (g_flds s ! nat fid) \<noteq> -1"
    and same: "\<And>r. same_links r (f r)" "\<And>r. fld_name (f r) = fld_name r" "\<And>r. filename (f r) = filename r"
      "\<And>r. ddir_id (f r) = ddir_id r"
  shows "wp (set_fld fid f) (\<lambda>_. meta_inv) E s"
proof -
  have "local_ok (g_tbls s) (g_ddirs s) (g_flds s ! nat fid)"
    using fields_ok_local[OF meta_inv_parts(2)[OF inv]] f by (simp add: in_range_nat)
  then have "local_ok (g_tbls s) (g_ddirs s) (f (g_flds s ! nat fid))"
    using t same by (simp add: local_ok_def same_links_def)
  then show ?thesis using f store_links_inv[OF inv f same(1)] by (simp add: wp_accessors)
qed

lemma wp_int_set_meta_fld:
  assumes inv: "meta_inv s" and f: "in_range fid (g_flds s)" and t: "tbl_id (g_flds s ! nat fid) = tid" "0 \<le> tid"
  shows "wp (int_set_meta tid fid attr val) (\<lambda>_. meta_inv) meta_inv s"
proof -
  have t1: "tbl_id (g_flds s ! nat fid) \<noteq> -1" using t by simp
  have tr: "in_range tid (g_tbls s)"
    using fields_ok_local[OF meta_inv_parts(2)[OF inv], of "nat fid"] f t
    by (auto simp: local_ok_def live_tbl_def in_range_nat)
  note attr = wp_set_fld_attr[OF inv f t1]
  have "wp (set_dict_tbl_id fid v) (\<lambda>_. meta_inv) meta_inv s" "wp (set_fldtype fid v) (\<lambda>_. meta_inv) meta_inv s"
    "wp (set_sort_type fid v) (\<lambda>_. meta_inv) meta_inv s" "wp (set_disp_name tid fid v) (\<lambda>_. meta_inv) meta_inv s" for v
    using inv f by (simp_all add: set_dict_tbl_id_def set_fldtype_def set_sort_type_def set_disp_name_def wp_bind wp_seq
        wp_guard wp_ret wp_gets wp_of_option wp_if wp_accessors(1) in_range_def attr same_links_def split: option.split)
  moreover have "wp (set_cnt fid v) (\<lambda>_. meta_inv) meta_inv s" for v
    using inv f t tr
    by (simp add: set_cnt_def wp_bind wp_seq wp_guard wp_ret wp_accessors(1,2) attr same_links_def)
  moreover have "wp (set_is_dict_tbl tid fid v) (\<lambda>_. meta_inv) meta_inv s" for v
    using inv f by (simp add: set_is_dict_tbl_def wp_seq wp_guard in_range_def)
  ultimately show ?thesis
    using inv by (simp add: int_set_meta_def wp_bind wp_of_option wp_arg_given wp_if wp_bye split: option.split)
qed

lemma wp_int_set_meta_tbl:
  assumes inv: "meta_inv s" and t: "in_range tid (g_tbls s)"
    and a: "attr \<noteq> Some ''dict_tbl_id''" "attr \<noteq> Some ''cnt''" "attr \<noteq> Some ''fldtype''" "attr \<noteq> Some ''sort_type''"
  shows "wp (int_set_meta tid INT_MIN attr val) (\<lambda>_. meta_inv) meta_inv s"
proof -
  have "wp (set_is_dict_tbl tid INT_MIN v) (\<lambda>_. meta_inv) meta_inv s"
    "wp (set_disp_name tid INT_MIN v) (\<lambda>_. meta_inv) meta_inv s" for v
    using inv t by (simp_all add: set_is_dict_tbl_def set_disp_name_def wp_seq wp_bind wp_gets wp_guard wp_bye
        wp_if wp_set_tbl_inv)
  then show ?thesis
    using inv a by (cases attr) (simp_all add: int_set_meta_def wp_bind wp_of_option wp_arg_given wp_if wp_bye
        split: option.split)
qed

definition fld_attr :: "string option \<Rightarrow> bool" where
  "fld_attr attr \<longleftrightarrow> attr \<in> {Some ''dict_tbl_id'', Some ''cnt'', Some ''fldtype'', Some ''sort_type''}"

lemma set_meta_inv:
  assumes "\<not> (fld_attr attr \<and> y = [])"
  shows "preserves meta_inv (set_meta (Some x) (Some y) attr val)"
proof (rule preservesI)
  fix s assume inv: "meta_inv s"
  let ?k = "\<lambda>t. bind (if Some y = None \<or> Some y = Some [] then ret INT_MIN
      else bind (is_fld None t (Some y)) (\<lambda>((fid, fld_rec), nnf). seq (chk_fld_range fid) (ret fid)))
      (\<lambda>fid. int_set_meta t fid attr val)"
  have "wp (?k t) (\<lambda>_. meta_inv) meta_inv s" if t: "in_range t (g_tbls s)" "0 \<le> t" for t
  proof (cases "y = []")
    case True
    then show ?thesis
      using assms wp_int_set_meta_tbl[OF inv t(1), of attr val] by (simp add: wp_bind wp_ret fld_attr_def)
  next
    case False
    have "wp (bind (is_fld None t (Some y)) (\<lambda>((fid, fld_rec), nnf). seq (chk_fld_range fid) (ret fid)))
        (\<lambda>fid. wp (int_set_meta t fid attr val) (\<lambda>_. meta_inv) meta_inv) meta_inv s"
      by (rule wp_bind_is_fld[OF inv t(2)])
        (use inv t wp_int_set_meta_fld in \<open>auto simp: wp_seq wp_accessors(7) wp_ret no_fld_def\<close>)
    then show ?thesis using False by (simp add: wp_bind[of "if _ then _ else _"] wp_bind[of "bind _ _"])
  qed
  then have "wp (bind (is_tbl (Some x)) (\<lambda>(t, tbl_rec). seq (chk_tbl_range t) (?k t))) (\<lambda>_. meta_inv) meta_inv s"
    by (intro wp_find_tbl inv) auto
  then show "wp (set_meta (Some x) (Some y) attr val) (\<lambda>_. meta_inv) meta_inv s"
    by (simp only: set_meta_def)
qed

subsection \<open>Turning a field into an nn field\<close>

lemma wp_clear_after_aux:
  assumes a: "aux_added s1 i d f k s'" and j: "in_range j (g_flds s1)" "j \<noteq> i" "0 \<le> i"
    and u: "unlinked (g_flds s1 ! nat j)" "fld_name (g_flds s1 ! nat j) \<noteq> []"
  shows "wp (set_fld j (\<lambda>_. zero_fld_rec)) (\<lambda>_. meta_inv) E s'"
proof -
  have inv: "meta_inv s'" and k: "in_range k (g_flds s1)" "fld_name (g_flds s1 ! nat k) = []"
    and up: "g_flds s' = (g_flds s1)[nat i := (g_flds s1 ! nat i)\<lparr>nn_fld_id := k\<rparr>,
      nat k := aux_rec i (tbl_id (g_flds s1 ! nat i)) (fld_name (g_flds s1 ! nat i)) d f]"
    using a flds_updD(1) by (auto simp: aux_added_def Let_def)
  have n: "nat j \<noteq> nat k" "nat j \<noteq> nat i" using u k j by (auto simp: in_range_def)
  then have "g_flds s' ! nat j = g_flds s1 ! nat j" using up by simp
  then have "meta_inv (s'\<lparr>g_flds := (g_flds s')[nat j := zero_fld_rec]\<rparr>)"
    using u up j by (intro store_inv[OF inv]) (auto simp: in_range_def)
  then show ?thesis using up j by (simp add: wp_accessors in_range_def)
qed

lemma wp_mk_nn_core:
  assumes inv: "meta_inv s" and i: "in_range i (g_flds s)" and r: "r = g_flds s ! nat i"
    and ri: "auxtype r = undef" "fld_name r \<noteq> []" "tbl_id r = t" "0 \<le> t"
    and j: "in_range j (g_flds s)" "j \<noteq> i" and q: "q = g_flds s ! nat j" "unlinked q" "fld_name q \<noteq> []"
  shows "wp (seq (if nn_fld_id r \<ge> 0 then del_fld None t None (nn_fld_id r) False else ret ())
    (bind (add_aux_fld None t None i (ddir_id q) (Some (filename q)) (Some ''nn''))
      (\<lambda>_. set_fld j (\<lambda>_. zero_fld_rec)))) (\<lambda>_. meta_inv) (\<lambda>s'. nn_fld_id r < 0 \<longrightarrow> meta_inv s') s"
    (is "wp _ _ ?E _")
proof -
  let ?fs = "g_flds s" and ?add = "bind (add_aux_fld None t None i (ddir_id q) (Some (filename q)) (Some ''nn''))
      (\<lambda>_. set_fld j (\<lambda>_. zero_fld_rec))"
  have ni: "nat i < length ?fs" "0 \<le> i" "nat j < length ?fs" "nat j \<noteq> nat i" using i j by (auto simp: in_range_def)
  have ok: "fields_ok (g_tbls s) (g_ddirs s) ?fs" using inv by (rule meta_inv_parts)
  have lq: "local_ok (g_tbls s) (g_ddirs s) q" using fields_ok_local[OF ok ni(3)] q(1) by simp
  have add: "wp ?add (\<lambda>_. meta_inv) ?E s1"
    if cut: "meta_inv (cut_nn i s1)" and e: "g_flds s1 ! nat i = r" "g_flds s1 ! nat j = q"
      "length (g_flds s1) = length ?fs" "g_ddirs s1 = g_ddirs s"
      and old: "nn_fld_id r \<ge> 0 \<Longrightarrow> in_range (nn_fld_id r) (g_flds s1) \<and> fld_name (g_flds s1 ! nat (nn_fld_id r)) = []"
      and err: "\<And>s'. flds_upd s1 (g_flds s1) s' \<Longrightarrow> ?E s'" for s1
  proof -
    have a: "wp (add_aux_fld None t None i (ddir_id q) (Some (filename q)) (Some ''nn''))
        (aux_added s1 i (ddir_id q) (filename q)) (flds_upd s1 (g_flds s1)) s1"
      using i e ri old lq by (intro wp_add_aux_fld[OF cut]) (auto simp: in_range_def ddir_ok_def local_ok_def)
    show ?thesis
      unfolding wp_bind
      by (rule wp_mono[OF a]) (use e j q ni err in \<open>auto simp: in_range_def intro!: wp_clear_after_aux\<close>)
  qed
  show ?thesis
  proof (cases "nn_fld_id r \<ge> 0")
    case False
    have "wp ?add (\<lambda>_. meta_inv) ?E s"
      by (rule add) (use inv i r ri q False meta_inv_flds[OF _ inv] ok in
        \<open>auto simp: unlinked_def intro!: meta_inv_cut\<close>)
    then show ?thesis using False by (simp add: wp_seq wp_ret)
  next
    case True
    obtain k where k: "k < length ?fs" "nn_fld_id r = int k" "auxtype (?fs ! k) = nn" "k \<noteq> nat i" "nn_fld_id (?fs ! k) < 0"
      using nn_partner[OF ok ni(1)] True r by metis
    have kj: "k \<noteq> nat j" using k q by (auto simp: unlinked_def)
    have "wp ?add (\<lambda>_. meta_inv) ?E s1" if s1: "flds_upd s (erase ?fs (nat (int k))) s1" for s1
    proof (rule add)
      have e: "g_flds s1 = ?fs[k := zero_fld_rec]" using flds_updD(1)[OF s1] k(5) by (simp add: erase_def)
      let ?gs = "?fs[nat i := r\<lparr>nn_fld_id := -1\<rparr>, k := (?fs ! k)\<lparr>parent_id := -1, auxtype := undef\<rparr>]"
      have "fields_ok (g_tbls s) (g_ddirs s) ?gs" using cut_link[OF ok ni(1), of k] k(2) r by simp
      then have "fields_ok (g_tbls s) (g_ddirs s) (?gs[k := zero_fld_rec])"
        by (rule store_unlinked) (use k ni in \<open>auto simp: unlinked_def\<close>)
      then have "fields_ok (g_tbls s) (g_ddirs s) (g_flds (cut_nn i s1))"
        using e k r by (simp add: cut_nn_def list_update_swap)
      moreover have "flds_upd s (g_flds (cut_nn i s1)) (cut_nn i s1)"
        unfolding cut_nn_def using flds_upd_set[OF s1] by simp
      ultimately show "meta_inv (cut_nn i s1)"
        using e by (intro meta_inv_flds[OF _ inv]) (auto simp: cut_nn_def)
      show "g_flds s1 ! nat i = r" "g_flds s1 ! nat j = q" "length (g_flds s1) = length ?fs"
        using e k(4) kj r q(1) by simp_all
      show "g_ddirs s1 = g_ddirs s" using flds_updD[OF s1] by simp
      show "in_range (nn_fld_id r) (g_flds s1) \<and> fld_name (g_flds s1 ! nat (nn_fld_id r)) = []"
        using k e by (simp add: in_range_def)
    qed (use True in simp)
    moreover have "wp (del_fld None t None (int k) False) (\<lambda>_. flds_upd s (erase ?fs (nat (int k)))) ?E s"
      using k by (intro wp_del_fld_id[OF inv ri(4)]) (auto simp: in_range_def)
    ultimately have "wp (seq (del_fld None t None (int k) False) ?add) (\<lambda>_. meta_inv) ?E s"
      by (intro wp_seqI)
    then show ?thesis using True k(2) by simp
  qed
qed

text \<open>All fields called \<open>y\<close> of tables called \<open>x\<close> are primary; some such field has an nn field.\<close>

definition named :: "q_state \<Rightarrow> string \<Rightarrow> string \<Rightarrow> nat \<Rightarrow> bool" where
  "named s x y i \<longleftrightarrow> i < length (g_flds s) \<and> fld_name (g_flds s ! i) = y \<and>
     tbl_name (g_tbls s ! nat (tbl_id (g_flds s ! i))) = x"

definition prim_named :: "q_state \<Rightarrow> string \<Rightarrow> string \<Rightarrow> bool" where
  "prim_named s x y \<longleftrightarrow> (\<forall>i < length (g_flds s). named s x y i \<longrightarrow> auxtype (g_flds s ! i) = undef)"

definition nn_named :: "q_state \<Rightarrow> string \<Rightarrow> string \<Rightarrow> bool" where
  "nn_named s x y \<longleftrightarrow> (\<exists>i < length (g_flds s). named s x y i \<and> nn_fld_id (g_flds s ! i) \<ge> 0)"

lemma wp_mk_nn_fld:
  assumes inv: "meta_inv s" and p: "prim_named s x1 y1" "prim_named s x2 y2" and ne: "(x1, y1) \<noteq> (x2, y2)"
  shows "wp (mk_nn_fld (Some x1) (Some y1) (Some x2) (Some y2)) (\<lambda>_. meta_inv)
    (\<lambda>s'. \<not> nn_named s x2 y2 \<longrightarrow> meta_inv s') s"
    (is "wp _ _ ?E _")
proof -
  let ?fs = "g_flds s"
  let ?core = "\<lambda>t j q i k. seq (if k \<ge> 0 then del_fld None t None k False else ret ())
    (bind (add_aux_fld None t None i (ddir_id q) (Some (filename q)) (Some ''nn''))
      (\<lambda>_. set_fld j (\<lambda>_. zero_fld_rec)))"
  have core: "wp (?core t2 j q i k) (\<lambda>_. meta_inv) ?E s"
    if t1: "in_range t1 (g_tbls s)" "tbl_name (g_tbls s ! nat t1) = x1"
      and t2: "in_range t2 (g_tbls s)" "tbl_name (g_tbls s ! nat t2) = x2"
      and j: "in_range j ?fs" "q = ?fs ! nat j" "tbl_id q = t1" "fld_name q = y1" "\<not> nn_fld_id q \<ge> 0"
      and i: "in_range i ?fs" "r = ?fs ! nat i" "tbl_id r = t2" "fld_name r = y2" "k = nn_fld_id r"
      and y: "y1 \<noteq> []" "y2 \<noteq> []" for t1 t2 j q i r k
  proof -
    have n: "named s x1 y1 (nat j)" "named s x2 y2 (nat i)"
      using t1 t2 i j by (auto simp: named_def in_range_nat)
    then have "auxtype q = undef" "auxtype r = undef" "j \<noteq> i"
      using p ne i j by (auto simp: prim_named_def named_def)
    then have "wp (?core t2 j q i k) (\<lambda>_. meta_inv) (\<lambda>s'. nn_fld_id r < 0 \<longrightarrow> meta_inv s') s"
      unfolding i(5)
      by (intro wp_mk_nn_core[OF inv i(1,2)]) (use i j t2 y in \<open>auto simp: unlinked_def in_range_def\<close>)
    then show ?thesis
      by (rule wp_mono) (use n(2) i in \<open>auto simp: nn_named_def named_def\<close>)
  qed
  have "?E s" using inv by simp
  then show ?thesis
    unfolding mk_nn_fld_def by (intro wp_steps wp_find_tbl[OF inv] wp_find_fld[OF inv] core) auto
qed

subsection \<open>Moving a field to another table\<close>

text \<open>A field of another table is untouched when a field is added.\<close>

lemma added_elsewhere:
  assumes inv: "meta_inv s" and a: "fld_added s t name r i s'" and t: "0 \<le> t" and j: "j < length (g_flds s)"
    and other: "tbl_id (g_flds s ! j) \<noteq> t" "fld_name (g_flds s ! j) \<noteq> []"
  shows "g_flds s' ! j = g_flds s ! j \<and> j \<noteq> nat i"
proof -
  let ?fs = "g_flds s"
  obtain fs where fs: "g_flds s' = fs[nat i := r]" "in_range i ?fs"
    "fs = erase ?fs (nat i) \<and> tbl_id (?fs ! nat i) = t \<or> fs = ?fs \<and> fld_name (?fs ! nat i) = []"
    using a flds_updD(1) unfolding fld_added_def by metis
  have i: "nat i < length ?fs" using fs(2) by (simp add: in_range_nat)
  have ne: "j \<noteq> nat i" using fs(3) other by auto
  have "erase ?fs (nat i) ! j = ?fs ! j" if "tbl_id (?fs ! nat i) = t"
  proof (rule erase_other[OF ne])
    show "int j \<noteq> nn_fld_id (?fs ! nat i)" if "nn_fld_id (?fs ! nat i) \<ge> 0"
      using nn_partner[OF meta_inv_parts(2)[OF inv] i that] other \<open>tbl_id (?fs ! nat i) = t\<close> by (metis nat_int)
  qed
  then show ?thesis using fs ne by auto
qed

lemma wp_erase_pair:
  assumes inv: "meta_inv s" and j: "in_range j (g_flds s)" and q: "g_flds s ! nat j = q" "auxtype q = undef"
  shows "wp (seq (set_fld j (\<lambda>_. zero_fld_rec)) (if nn_fld_id q \<ge> 0 then set_fld (nn_fld_id q) (\<lambda>_. zero_fld_rec)
    else ret ())) (\<lambda>_. meta_inv) E s"
proof -
  have jn: "nat j < length (g_flds s)" using j by (simp add: in_range_nat)
  have nn: "in_range (nn_fld_id q) (g_flds s)" if "nn_fld_id q \<ge> 0"
    using meta_inv_parts(3)[OF inv] that jn q(1) by (auto simp: nn_links_ok_def)
  have "meta_inv (s\<lparr>g_flds := erase (g_flds s) (nat j)\<rparr>)"
    using meta_inv_erase[OF inv j _ flds_upd_self] q by simp
  then show ?thesis
    using j nn q(1) by (auto simp: wp_seq wp_accessors wp_ret erase_def)
qed

lemma wp_mv_core:
  assumes inv: "meta_inv s" and j: "in_range j (g_flds s)" "q = g_flds s ! nat j" "tbl_id q = t1" "fld_name q = y"
    and u: "auxtype q = undef" and t: "live_tbl (g_tbls s) t2" "t1 \<noteq> t2" and y: "y \<noteq> []"
  shows "wp (bind (add_fld t2 (Some y) (ddir_id q) (filename q) (fldtype q) (-1)) (\<lambda>(i, dst_rec).
     bind (fld_at j) (\<lambda>r.
     seq (set_fld i (\<lambda>d. d\<lparr>sort_type := sort_type r\<rparr>))
    (seq (if nn_fld_id q \<ge> 0 then
            bind (add_aux_fld None t2 None i (ddir_id (nn_of s q)) (Some (filename (nn_of s q))) (Some ''nn'')) (\<lambda>_. ret ())
          else ret ())
    (seq (set_fld j (\<lambda>_. zero_fld_rec))
    (if nn_fld_id q \<ge> 0 then set_fld (nn_fld_id q) (\<lambda>_. zero_fld_rec) else ret ()))))))
    (\<lambda>_. meta_inv) meta_inv s"
proof -
  let ?fs = "g_flds s" and ?nq = "nn_of s q"
  let ?clear = "seq (set_fld j (\<lambda>_. zero_fld_rec))
    (if nn_fld_id q \<ge> 0 then set_fld (nn_fld_id q) (\<lambda>_. zero_fld_rec) else ret ())"
  let ?aux = "\<lambda>i. if nn_fld_id q \<ge> 0 then
     bind (add_aux_fld None t2 None i (ddir_id ?nq) (Some (filename ?nq)) (Some ''nn'')) (\<lambda>_. ret ()) else ret ()"
  have t0: "0 \<le> t2" using t by (simp add: live_tbl_def in_range_def)
  have jn: "nat j < length ?fs" using j by (simp add: in_range_nat)
  have ok: "fields_ok (g_tbls s) (g_ddirs s) ?fs" using inv by (rule meta_inv_parts)
  have lq: "local_ok (g_tbls s) (g_ddirs s) q" using fields_ok_local[OF ok jn] j(2) by simp
  have lnq: "local_ok (g_tbls s) (g_ddirs s) ?nq" if n0: "nn_fld_id q \<ge> 0"
  proof -
    have "in_range (nn_fld_id q) ?fs" using meta_inv_parts(3)[OF inv] n0 jn j(2) by (auto simp: nn_links_ok_def)
    then show ?thesis using fields_ok_local[OF ok] n0 by (simp add: nn_of_def in_range_nat)
  qed
  have rest: "wp (seq (set_fld i (\<lambda>d. d\<lparr>sort_type := x\<rparr>)) (seq (?aux i) ?clear)) (\<lambda>_. meta_inv) meta_inv s1"
    if a: "fld_added s t2 y (new_fld t2 y d f ft len) i s1" for i d f ft len s1 x
  proof -
    have inv1: "meta_inv s1" and ir: "in_range i ?fs" using a by (auto simp: fld_added_def)
    have l1: "length (g_flds s1) = length ?fs" and d1: "g_ddirs s1 = g_ddirs s"
      using a flds_updD unfolding fld_added_def by (metis length_erase length_list_update)+
    have ri: "g_flds s1 ! nat i = new_fld t2 y d f ft len"
      using a ir flds_updD(1) unfolding fld_added_def by (metis in_range_nat length_erase nth_list_update_eq)
    have qj: "g_flds s1 ! nat j = q" "nat j \<noteq> nat i"
      using added_elsewhere[OF inv a t0 jn] j t y by auto
    let ?s2 = "s1\<lparr>g_flds := (g_flds s1)[nat i := (new_fld t2 y d f ft len)\<lparr>sort_type := x\<rparr>]\<rparr>"
    have "wp (set_fld i (\<lambda>d. d\<lparr>sort_type := x\<rparr>)) (\<lambda>_. meta_inv) E s1" for E
      using ir l1 ri t0 by (intro wp_set_fld_attr[OF inv1]) (auto simp: in_range_def new_fld_def same_links_def)
    then have inv2: "meta_inv ?s2" using ir l1 ri by (simp add: wp_accessors in_range_def)
    have q2: "g_flds ?s2 ! nat j = q" using qj by simp
    have i2: "g_flds ?s2 ! nat i = (new_fld t2 y d f ft len)\<lparr>sort_type := x\<rparr>" "in_range i (g_flds ?s2)"
      using ir l1 by (auto simp: in_range_nat)
    have clear: "wp ?clear (\<lambda>_. meta_inv) meta_inv s3" if "meta_inv s3" "g_flds s3 ! nat j = q"
      "length (g_flds s3) = length ?fs" for s3
      by (rule wp_erase_pair[OF that(1)]) (use that j u in \<open>auto simp: in_range_def\<close>)
    have "wp (seq (?aux i) ?clear) (\<lambda>_. meta_inv) meta_inv ?s2"
    proof (cases "nn_fld_id q \<ge> 0")
      case False
      then show ?thesis using clear[OF inv2 q2] l1 by (simp add: wp_seq wp_ret)
    next
      case True
      have add: "wp (add_aux_fld None t2 None i (ddir_id ?nq) (Some (filename ?nq)) (Some ''nn''))
          (aux_added ?s2 i (ddir_id ?nq) (filename ?nq)) (flds_upd ?s2 (g_flds ?s2)) ?s2"
        by (rule wp_add_aux_fld[OF meta_inv_cut[OF inv2 i2(2)] i2(2)])
          (use i2 y t0 lnq[OF True] d1 in \<open>auto simp: new_fld_def unlinked_def ddir_ok_def local_ok_def\<close>)
      have fin: "wp ?clear (\<lambda>_. meta_inv) meta_inv s3" if s3: "aux_added ?s2 i d' f' k s3" for s3 d' f' k
      proof (rule clear)
        show "meta_inv s3" using s3 by (simp add: aux_added_def)
        have e3: "g_flds s3 = (g_flds ?s2)[nat i := (g_flds ?s2 ! nat i)\<lparr>nn_fld_id := k\<rparr>, nat k := aux_rec i
            (tbl_id (g_flds ?s2 ! nat i)) (fld_name (g_flds ?s2 ! nat i)) d' f']"
          "fld_name (g_flds ?s2 ! nat k) = []"
          using s3 flds_updD(1) unfolding aux_added_def Let_def by metis+
        have "nat k \<noteq> nat j" using e3(2) q2 j(4) y by auto
        then show "g_flds s3 ! nat j = q" "length (g_flds s3) = length ?fs"
          using e3(1) q2 qj(2) l1 by simp_all
      qed
      have "wp (add_aux_fld None t2 None i (ddir_id ?nq) (Some (filename ?nq)) (Some ''nn''))
          (\<lambda>_. wp ?clear (\<lambda>_. meta_inv) meta_inv) meta_inv ?s2"
        by (rule wp_mono[OF add]) (use fin meta_inv_flds[OF _ inv2] meta_inv_parts(2)[OF inv2] in auto)
      then show ?thesis using True by (simp add: wp_seq[of "bind _ _"] wp_bind wp_ret)
    qed
    then show ?thesis
      using ir l1 ri by (simp add: wp_seq[of "set_fld i _"] wp_accessors(4) in_range_def)
  qed
  have add: "wp (add_fld t2 (Some y) (ddir_id q) (filename q) (fldtype q) (-1)) (\<lambda>(i, r) s'.
      r = new_fld t2 y (ddir_id q) (filename q) (fldtype q) (-1) \<and> fld_added s t2 y r i s') meta_inv s"
    by (rule wp_add_fld[OF inv t(1)]) (use lq in \<open>auto simp: local_ok_def ddir_ok_def\<close>)
  have src: "in_range j (g_flds s')" if "fld_added s t2 y r i s'" for r i s'
    using that j(1) flds_updD(1) unfolding fld_added_def in_range_def by (metis length_erase length_list_update)
  show ?thesis
    unfolding wp_bind[of "add_fld _ _ _ _ _ _"]
  proof (rule wp_mono[OF add], goal_cases)
    case (1 a s')
    then obtain i where a: "a = (i, new_fld t2 y (ddir_id q) (filename q) (fldtype q) (-1))"
      "fld_added s t2 y (new_fld t2 y (ddir_id q) (filename q) (fldtype q) (-1)) i s'"
      by (cases a) auto
    show ?case unfolding a(1) prod.case by (intro wp_bind_fld_at rest[OF a(2)] src[OF a(2)])
  qed simp
qed

lemma wp_mv_fld:
  assumes inv: "meta_inv s" and p: "prim_named s x1 y" and ne: "x1 \<noteq> x2"
  shows "wp (mv_fld (Some x1) (Some y) (Some x2)) (\<lambda>_. meta_inv) meta_inv s"
proof -
  have live: "live_tbl (g_tbls s) t" if "in_range t (g_tbls s)" "tbl_name (g_tbls s ! nat t) = x2" "x2 \<noteq> []" for t
    using that by (simp add: live_tbl_def)
  have prim: "auxtype (g_flds s ! nat j) = undef"
    if "in_range j (g_flds s)" "tbl_id (g_flds s ! nat j) = t" "fld_name (g_flds s ! nat j) = y"
      "tbl_name (g_tbls s ! nat t) = x1" for j t
    using p that by (auto simp: prim_named_def named_def in_range_nat)
  show ?thesis
    unfolding mv_fld_def
    by (intro wp_steps wp_find_tbl[OF inv] wp_find_fld[OF inv] wp_mv_core[OF inv])
      (use inv ne live prim in auto)
qed

end
