(* ===== verification/Q_Machine.thy ===== *)
theory Q_Machine
  imports Q_Moves
begin

text \<open>
  The command loop of \<open>q.c\<close> for the verbs modelled here: initialisation of the meta
  data, the start of a call, dispatch on the arguments, and the states that
  sequences of calls can reach.
\<close>

subsection \<open>Initialisation\<close>

text \<open>The loops of \<open>init_meta_data\<close> over the freshly mapped arrays, whose lengths are those
  the five files are created with.\<close>

definition init_meta_data :: "q_state \<Rightarrow> q_state" where
  "init_meta_data s = s\<lparr>
     g_ht_tbl := replicate 1609 \<lparr>mkey = 0, mval = -1\<rparr>,
     g_tbls := replicate 256 zero_tbl_rec,
     g_ht_fld := replicate 4097 \<lparr>mkey = 0, mval = -1\<rparr>,
     g_flds := replicate 8192 zero_fld_rec,
     g_ddirs := replicate 8 [],
     g_alt_ddir_id := -1\<rparr>"

text \<open>The start of a call: the working directory is remembered and the alternative data
  directory, if the environment names one, is looked up or registered.\<close>

definition q_begin :: "string option \<Rightarrow> unit q_prog" where
  "q_begin alt_data_dir =
     seq (modify (\<lambda>s. s\<lparr>g_cwd := p_cwd s, g_alt_ddir_id := -1\<rparr>))
    (case alt_data_dir of None \<Rightarrow> ret ()
     | Some d \<Rightarrow> bind (get_ddir_id (Some d) True) (\<lambda>i. modify (\<lambda>s. s\<lparr>g_alt_ddir_id := i\<rparr>)))"

subsection \<open>Commands\<close>

datatype q_cmd =
    Add_tbl string string
  | Add_fld string string string
  | Delete_tbl string
  | Delete_fld string string
  | Set_nR string string
  | Rename_tbl string string
  | Rename_fld string string string
  | Is_tbl string
  | Is_fld string string
  | Get_nR string
  | Drop_nn_fld string string
  | Mk_nn_fld string string string string
  | Mv_fld string string string
  | Set_meta string string string string
  | Get_meta string string string
  | Is_nn_fld string string

text \<open>Dispatch on \<open>argv[1]\<close> and the number of arguments, for these verbs; the list is
  \<open>argv\<close> without the program name.\<close>

definition q_parse :: "string list \<Rightarrow> q_cmd option" where
  "q_parse argv = (case argv of [] \<Rightarrow> None | verb # args \<Rightarrow>
     if verb = ''add_tbl'' then
       (case args of [a, b] \<Rightarrow> Some (Add_tbl a b) | _ \<Rightarrow> None)
     else if verb = ''add_fld'' then
       (case args of [a, b, c] \<Rightarrow> Some (Add_fld a b c) | _ \<Rightarrow> None)
     else if verb = ''delete'' then
       (case args of [a] \<Rightarrow> Some (Delete_tbl a) | [a, b] \<Rightarrow> Some (Delete_fld a b) | _ \<Rightarrow> None)
     else if verb = ''set_nR'' then
       (case args of [a, b] \<Rightarrow> Some (Set_nR a b) | _ \<Rightarrow> None)
     else if verb = ''rename'' then
       (case args of [a, b] \<Rightarrow> Some (Rename_tbl a b) | [a, b, c] \<Rightarrow> Some (Rename_fld a b c) | _ \<Rightarrow> None)
     else if verb = ''is_tbl'' then
       (case args of [a] \<Rightarrow> Some (Is_tbl a) | _ \<Rightarrow> None)
     else if verb = ''get_nR'' then
       (case args of [a] \<Rightarrow> Some (Get_nR a) | _ \<Rightarrow> None)
     else if verb = ''drop_nn_fld'' then
       (case args of [a, b] \<Rightarrow> Some (Drop_nn_fld a b) | _ \<Rightarrow> None)
     else if verb = ''mk_nn_fld'' then
       (case args of [a, b, c, d] \<Rightarrow> Some (Mk_nn_fld a b c d) | _ \<Rightarrow> None)
     else if verb = ''is_fld'' then
       (case args of [a, b] \<Rightarrow> Some (Is_fld a b) | _ \<Rightarrow> None)
     else if verb = ''set_meta'' then
       (case args of [a, b, c, d] \<Rightarrow> Some (Set_meta a b c d) | _ \<Rightarrow> None)
     else if verb = ''get_meta'' then
       (case args of [a, b, c] \<Rightarrow> Some (Get_meta a b c) | _ \<Rightarrow> None)
     else if verb = ''is_nn_fld'' then
       (case args of [a, b] \<Rightarrow> Some (Is_nn_fld a b) | _ \<Rightarrow> None)
     else if verb = ''mv_fld'' then
       (case args of [a, b, c] \<Rightarrow> Some (Mv_fld a b c) | _ \<Rightarrow> None)
     else None)"

definition found_text :: "int \<Rightarrow> string" where
  "found_text i = (if i < 0 then ''0'' else ''1'') @ '','' @ dec_int i @ nl"

text \<open>The branch of each verb; the value is the result buffer.\<close>

fun q_exec :: "q_cmd \<Rightarrow> string q_prog" where
  "q_exec (Add_tbl a b) = bind (add_tbl (Some a) (Some b)) (\<lambda>_. ret [])"
| "q_exec (Add_fld a b c) = bind (ext_add_fld (Some a) (Some b) (Some c)) (\<lambda>_. ret [])"
| "q_exec (Delete_tbl a) = seq (iter_del_tbl a) (ret [])"
| "q_exec (Delete_fld a b) = seq (iter_del_fld (Some a) b) (ret [])"
| "q_exec (Set_nR a b) = seq (set_nR (Some a) (Some b)) (ret [])"
| "q_exec (Rename_tbl a b) = seq (rename_tbl (Some a) (Some b)) (ret [])"
| "q_exec (Rename_fld a b c) = seq (rename_fld (Some a) (Some b) (Some c)) (ret [])"
| "q_exec (Is_tbl a) = bind (is_tbl (Some a)) (\<lambda>(t, r). ret (found_text t))"
| "q_exec (Is_fld a b) = bind (is_fld (Some a) (-1) (Some b)) (\<lambda>((i, r), nnf). ret (found_text i))"
| "q_exec (Get_nR a) = bind (get_nR (Some a)) (\<lambda>n. ret (dec_int n @ nl))"
| "q_exec (Drop_nn_fld a b) = seq (drop_nn_fld (Some a) (Some b)) (ret [])"
| "q_exec (Mk_nn_fld a b c d) = seq (mk_nn_fld (Some a) (Some b) (Some c) (Some d)) (ret [])"
| "q_exec (Mv_fld a b c) = seq (mv_fld (Some a) (Some b) (Some c)) (ret [])"
| "q_exec (Set_meta a b c d) = seq (set_meta (Some a) (Some b) (Some c) (Some d)) (ret [])"
| "q_exec (Get_meta a b c) = get_meta (Some a) (Some b) (Some c)"
| "q_exec (Is_nn_fld a b) = bind (is_nn_fld (Some a) (Some b)) (\<lambda>(i, txt). ret txt)"

text \<open>One call of the program.\<close>

definition q_call :: "string option \<times> q_cmd \<Rightarrow> string q_prog" where
  "q_call = (\<lambda>(alt_data_dir, c). seq (q_begin alt_data_dir) (q_exec c))"

subsection \<open>Inputs the verbs rely on\<close>

text \<open>The inputs under which a verb keeps the meta data consistent; for most verbs any
  input.\<close>

fun q_safe :: "q_cmd \<Rightarrow> q_state \<Rightarrow> bool" where
  "q_safe (Add_fld a b c) s = (a \<noteq> [])"
| "q_safe (Set_meta a b c d) s = (\<not> (fld_attr (Some c) \<and> b = []))"
| "q_safe (Mk_nn_fld a b c d) s =
     (prim_named s a b \<and> prim_named s c d \<and> (a, b) \<noteq> (c, d) \<and> \<not> nn_named s c d)"
| "q_safe (Mv_fld a b c) s = (prim_named s a b \<and> a \<noteq> c)"
| "q_safe _ s = True"

subsection \<open>Machines that keep an invariant\<close>

text \<open>The final state of a list of commands, and that each of them was allowed.\<close>

fun run_all :: "('c \<Rightarrow> ('s, 'a) prog) \<Rightarrow> 'c list \<Rightarrow> 's \<Rightarrow> 's" where
  "run_all exec [] s = s"
| "run_all exec (c # cs) s = run_all exec cs (snd (exec c s))"

fun all_safe :: "('c \<Rightarrow> ('s, 'a) prog) \<Rightarrow> ('c \<Rightarrow> 's \<Rightarrow> bool) \<Rightarrow> 'c list \<Rightarrow> 's \<Rightarrow> bool" where
  "all_safe exec ok [] s = True"
| "all_safe exec ok (c # cs) s = (ok c s \<and> all_safe exec ok cs (snd (exec c s)))"

locale invariant_machine =
  fixes exec :: "'c \<Rightarrow> ('s, 'a) prog" and ok :: "'c \<Rightarrow> 's \<Rightarrow> bool" and inv :: "'s \<Rightarrow> bool"
  assumes keeps: "inv s \<Longrightarrow> ok c s \<Longrightarrow> wp (exec c) (\<lambda>_. inv) inv s"
begin

lemma step_inv: "inv s \<Longrightarrow> ok c s \<Longrightarrow> inv (snd (exec c s))"
  by (rule wp_frame[OF keeps])

lemma step_no_fault: "inv s \<Longrightarrow> ok c s \<Longrightarrow> fst (exec c s) \<noteq> Fault"
  by (rule wp_no_Fault[OF keeps])

lemma run_inv: "inv s \<Longrightarrow> all_safe exec ok cs s \<Longrightarrow> inv (run_all exec cs s)"
  by (induction cs arbitrary: s) (auto intro: step_inv)

lemma run_no_fault:
  assumes "inv s" and "all_safe exec ok (cs @ c # cs') s"
  shows "fst (exec c (run_all exec cs s)) \<noteq> Fault"
  using assms by (induction cs arbitrary: s) (auto simp: step_no_fault intro: step_inv)

end

subsection \<open>The verbs keep the invariant\<close>

lemma init_meta_data_inv:
  assumes "\<forall>x \<in> set (env_tmp s). length x = 6"
  shows "meta_inv (init_meta_data s)"
proof -
  have "fields_ok (replicate 256 zero_tbl_rec) (replicate 8 []) (replicate 8192 zero_fld_rec)"
    by (simp add: fields_ok_def link_ok_def)
  then show ?thesis
    using assms by (simp add: meta_inv_def init_meta_data_def ht_ok_def)
qed

lemma meta_inv_ddirs:
  assumes "meta_inv s" and "i < length (g_ddirs s)" and "g_ddirs s ! i = []" and "d \<noteq> []"
  shows "meta_inv (s\<lparr>g_ddirs := (g_ddirs s)[i := d]\<rparr>)"
proof -
  have keep: "in_range k (g_ddirs s) \<and> g_ddirs s ! nat k \<noteq> [] \<Longrightarrow>
      in_range k ((g_ddirs s)[i := d]) \<and> (g_ddirs s)[i := d] ! nat k \<noteq> []" for k
    using assms(3) by (cases "nat k = i") auto
  then have "fields_ok (g_tbls s) ((g_ddirs s)[i := d]) (g_flds s)"
    using meta_inv_parts(2)[OF assms(1)] unfolding fields_ok_def local_ok_def by blast
  then show ?thesis using assms(1) keep by (auto simp: meta_inv_def ht_ok_def)
qed

lemma meta_inv_env:
  assumes "meta_inv s" and "k \<ge> 0 \<Longrightarrow> in_range k (g_ddirs s) \<and> g_ddirs s ! nat k \<noteq> []"
  shows "meta_inv (s\<lparr>g_alt_ddir_id := k\<rparr>)" "meta_inv (s\<lparr>g_cwd := w\<rparr>)"
  using assms by (auto simp: meta_inv_def ht_ok_def)

lemma strip_trailing_slash_nonempty: "strip_trailing_slash x n = Some d \<Longrightarrow> d \<noteq> []"
  by (auto simp: strip_trailing_slash_def Let_def split: option.splits if_splits)

lemma wp_get_ddir_id:
  assumes inv: "meta_inv s"
  shows "wp (get_ddir_id (Some d) True)
    (\<lambda>i s'. meta_inv s' \<and> in_range i (g_ddirs s') \<and> g_ddirs s' ! nat i \<noteq> []) meta_inv s"
proof (cases "strip_trailing_slash (Some d) (int MAX_LEN_DIR_NAME + 1)")
  case None
  then show ?thesis using inv by (simp add: get_ddir_id_def wp_seq wp_bind wp_guard wp_of_option)
next
  case (Some x)
  then have x: "x \<noteq> []" by (rule strip_trailing_slash_nonempty)
  let ?ds = "g_ddirs s"
  let ?Q = "\<lambda>i s'. meta_inv s' \<and> in_range i (g_ddirs s') \<and> g_ddirs s' ! nat i \<noteq> []"
  have old: "?Q (int i) s" if "find_from (\<lambda>i. ?ds ! i = x) 0 (length ?ds) = Some i" for i
    using find_from_Some[OF that] inv x by (simp add: in_range_def)
  have new: "?Q (int i) (s\<lparr>g_ddirs := ?ds[i := x]\<rparr>)" if "find_from (\<lambda>i. ?ds ! i = []) 0 (length ?ds) = Some i" for i
    using find_from_Some[OF that] meta_inv_ddirs[OF inv _ _ x, of i] x by (simp add: in_range_def)
  have "wp (case find_from (\<lambda>i. ?ds ! i = x) 0 (length ?ds) of
          Some i \<Rightarrow> ret (int i)
        | None \<Rightarrow> (case find_from (\<lambda>i. ?ds ! i = []) 0 (length ?ds) of
                 Some i \<Rightarrow> seq (modify (\<lambda>s. s\<lparr>g_ddirs := ?ds[i := x]\<rparr>)) (ret (int i))
               | None \<Rightarrow> bye)) ?Q meta_inv s"
    using old new inv
    by (cases "find_from (\<lambda>i. ?ds ! i = x) 0 (length ?ds)"; cases "find_from (\<lambda>i. ?ds ! i = []) 0 (length ?ds)")
      (simp_all add: wp_ret wp_seq wp_modify wp_bye)
  then show ?thesis
    using inv Some by (simp add: get_ddir_id_def wp_seq[of "guard _"] wp_bind wp_guard wp_gets wp_of_option)
qed

lemma q_begin_inv: "preserves meta_inv (q_begin alt)"
proof (rule preservesI)
  fix s assume "meta_inv s"
  then have inv: "meta_inv (s\<lparr>g_cwd := p_cwd s, g_alt_ddir_id := -1\<rparr>)"
    by (intro meta_inv_env(1) meta_inv_env(2)[where k = "-1"]) auto
  have "wp (get_ddir_id (Some d) True) (\<lambda>i s'. meta_inv (s'\<lparr>g_alt_ddir_id := i\<rparr>)) meta_inv
      (s\<lparr>g_cwd := p_cwd s, g_alt_ddir_id := -1\<rparr>)" for d
    by (rule wp_mono[OF wp_get_ddir_id[OF inv]]) (auto intro: meta_inv_env)
  then show "wp (q_begin alt) (\<lambda>_. meta_inv) meta_inv s"
    using inv by (simp add: q_begin_def wp_seq wp_bind wp_modify wp_ret split: option.split)
qed

lemma wp_preserves_seq:
  "preserves I p \<Longrightarrow> I s \<Longrightarrow> wp (seq p (ret x)) (\<lambda>_. I) I s"
  by (simp add: preserves_def wp_seq wp_ret)

lemma wp_is_tbl_inv:
  assumes "meta_inv s"
  shows "wp (bind (is_tbl (Some a)) (\<lambda>(t, r). ret (f t))) (\<lambda>_. meta_inv) meta_inv s"
  by (rule wp_bind_is_tbl[OF assms]) (use assms in \<open>auto simp: wp_ret\<close>)

lemma wp_is_fld_inv:
  assumes "meta_inv s"
  shows "wp (bind (is_fld (Some a) (-1) (Some b)) (\<lambda>((i, r), nnf). ret (f i))) (\<lambda>_. meta_inv) meta_inv s"
proof -
  have by_id: "wp (bind (is_fld (Some a) t (Some b)) (\<lambda>((i, r), nnf). ret (f i))) (\<lambda>_. meta_inv) meta_inv s"
    if "t \<ge> 0" for t
    by (rule wp_bind_is_fld[OF assms that]) (use assms in \<open>auto simp: wp_ret no_fld_def\<close>)
  obtain t r where tr: "is_tbl (Some a) s = (Ret (t, r), s)" "tbl_found s a (t, r)"
    using is_tbl_result[OF meta_inv_parts(1)[OF assms], of a] by auto
  then have "is_fld (Some a) (-1) (Some b) s = (if t < 0 then (Ret no_fld, s) else is_fld (Some a) t (Some b) s)"
    by (simp add: is_fld_def[of _ "-1"] is_fld_def[of _ t] bind_def ret_def)
  then show ?thesis
    using by_id[of t] assms unfolding wp_bind wp_def[of "is_fld _ _ _"]
    by (simp add: wp_ret no_fld_def split: if_splits)
qed

lemma wp_get_nR_inv: "meta_inv s \<Longrightarrow> wp (get_nR (Some a)) (\<lambda>_. meta_inv) meta_inv s"
  unfolding get_nR_def by (intro wp_find_tbl wp_steps) (auto simp: wp_ret)

lemma wp_is_nn_fld_inv: "meta_inv s \<Longrightarrow> wp (is_nn_fld (Some a) (Some b)) (\<lambda>_. meta_inv) meta_inv s"
  unfolding is_nn_fld_def by (intro wp_steps wp_find_tbl wp_find_fld) (auto simp: wp_ret)

lemma wp_int_get_meta_inv:
  assumes "meta_inv s"
  shows "wp (int_get_meta t i attr) (\<lambda>_. meta_inv) meta_inv s"
  using assms by (simp add: int_get_meta_def wp_seq wp_bind wp_guard wp_of_option wp_ret wp_bye wp_if
      wp_accessors(1,6,7) split: option.split)

lemma wp_get_meta_inv:
  assumes inv: "meta_inv s"
  shows "wp (get_meta (Some a) (Some b) c) (\<lambda>_. meta_inv) meta_inv s"
proof -
  have id: "wp (bind (is_fld None t (Some b)) (\<lambda>((i, r), nnf). seq (chk_fld_range i) (ret i)))
      (\<lambda>i. wp (int_get_meta t i c) (\<lambda>_. meta_inv) meta_inv) meta_inv s" if "t \<ge> 0" for t
    by (rule wp_bind_is_fld[OF inv that])
      (use inv wp_int_get_meta_inv in \<open>auto simp: wp_seq wp_accessors(7) wp_ret no_fld_def\<close>)
  show ?thesis
    unfolding get_meta_def
    by (rule wp_find_tbl[OF inv]) (use inv id wp_int_get_meta_inv in \<open>auto simp: wp_bind[of "if _ then _ else _"] wp_bind[of "bind _ _"] wp_bind[of "ret _"] wp_ret\<close>)
qed

lemma q_exec_inv:
  assumes inv: "meta_inv s" and safe: "q_safe c s"
  shows "wp (q_exec c) (\<lambda>_. meta_inv) meta_inv s"
proof (cases c)
  case (Add_tbl a b)
  have "wp (add_tbl (Some a) (Some b)) (\<lambda>_. meta_inv) meta_inv s"
  proof (cases "a = []")
    case False
    show ?thesis by (rule wp_mono[OF wp_add_tbl[OF inv False]]) (auto simp: tbl_added_def)
  qed (use inv in \<open>simp add: add_tbl_def wp_bind wp_arg_given\<close>)
  then show ?thesis using Add_tbl by (simp add: wp_bind wp_ret)
next
  case (Add_fld a b c)
  then show ?thesis
    using safe preservesD[OF ext_add_fld_inv inv] by (simp add: wp_bind wp_ret)
next
  case (Mk_nn_fld a b c d)
  then have "wp (mk_nn_fld (Some a) (Some b) (Some c) (Some d)) (\<lambda>_. meta_inv) meta_inv s"
    by (intro wp_mono[OF wp_mk_nn_fld[OF inv]]) (use safe in auto)
  then show ?thesis using Mk_nn_fld by (simp add: wp_seq wp_ret)
next
  case (Mv_fld a b c)
  then show ?thesis using safe wp_mv_fld[OF inv] by (simp add: wp_seq wp_ret)
next
  case (Is_nn_fld a b)
  then show ?thesis using wp_is_nn_fld_inv[OF inv] by (simp add: wp_bind wp_ret case_prod_beta)
next
  case (Get_nR a)
  then show ?thesis using wp_get_nR_inv[OF inv] by (simp add: wp_bind wp_ret)
qed (use inv safe iter_del_tbl_inv iter_del_fld_inv set_nR_inv rename_tbl_inv rename_fld_inv drop_nn_fld_inv
      set_meta_inv wp_is_tbl_inv wp_is_fld_inv wp_get_meta_inv in
    \<open>simp_all add: wp_preserves_seq\<close>)

lemma q_call_keeps:
  assumes "meta_inv s" and "q_safe (snd c) (snd (q_begin (fst c) s))"
  shows "wp (q_call c) (\<lambda>_. meta_inv) meta_inv s"
proof -
  have b: "wp (q_begin (fst c)) (\<lambda>_. meta_inv) meta_inv s" using q_begin_inv assms(1) by (rule preservesD)
  have "wp (q_begin (fst c)) (\<lambda>_. wp (q_exec (snd c)) (\<lambda>_. meta_inv) meta_inv) meta_inv s"
  proof (cases "q_begin (fst c) s")
    case (Pair r s1)
    then have "meta_inv s1" "q_safe (snd c) s1" using wp_frame[OF b] assms(2) by simp_all
    then show ?thesis using b Pair q_exec_inv by (cases r) (simp_all add: wp_def[of "q_begin _"])
  qed
  then show ?thesis by (simp add: q_call_def case_prod_beta wp_seq)
qed

interpretation q_machine: invariant_machine q_call "\<lambda>c s. q_safe (snd c) (snd (q_begin (fst c) s))" meta_inv
  by unfold_locales (rule q_call_keeps)

subsection \<open>Reachable states\<close>

text \<open>States reached from an initialised store by calls with allowed inputs, while other
  programs may change files, directories and the working directory between calls.\<close>

inductive q_reach :: "q_state \<Rightarrow> bool" where
  init: "(\<forall>x \<in> set (env_tmp s). length x = 6) \<Longrightarrow> q_reach (init_meta_data s)"
| call: "q_reach s \<Longrightarrow> q_safe c (snd (q_begin alt s)) \<Longrightarrow> q_call (alt, c) s = (out, s') \<Longrightarrow> q_reach s'"
| env: "q_reach s \<Longrightarrow> q_reach (s\<lparr>files := f, p_cwd := w, env_dirs := e, env_usec := u\<rparr>)"

lemma q_reach_inv: "q_reach s \<Longrightarrow> meta_inv s"
proof (induction rule: q_reach.induct)
  case (call s c alt out s')
  then show ?case using q_machine.step_inv[of s "(alt, c)"] by simp
next
  case (env s f w e u)
  then show ?case by (simp add: meta_inv_def ht_ok_def)
qed (rule init_meta_data_inv)

subsection \<open>A small store\<close>

text \<open>One table with a field, its nn field and a dictionary-encoded field; one free table
  slot and two free field slots.\<close>

definition sample_fld :: FLD_REC where
  "sample_fld = zero_fld_rec\<lparr>tbl_id := 0, nn_fld_id := 1, fldtype := I4, fld_name := ''f1'', filename := ''_a''\<rparr>"

definition sample_nn :: FLD_REC where
  "sample_nn = zero_fld_rec\<lparr>tbl_id := 0, parent_id := 0, auxtype := nn, fldtype := I1,
     fld_name := ''_nn_f1'', filename := ''_b''\<rparr>"

definition sample_state :: q_state where
  "sample_state = \<lparr>
     g_tbls = [zero_tbl_rec\<lparr>tbl_name := ''t1'', nR := 4\<rparr>, zero_tbl_rec],
     g_ht_tbl = [\<lparr>mkey = 0, mval = -1\<rparr>],
     g_flds = [sample_fld, sample_nn, zero_fld_rec, zero_fld_rec],
     g_ht_fld = [\<lparr>mkey = 0, mval = -1\<rparr>],
     g_ddirs = [''/d1'', []],
     g_data_dir = ''/data'', g_cwd = ''/home'', g_alt_ddir_id = -1, p_cwd = ''/home'',
     files = (\<lambda>_. None), env_dirs = (\<lambda>_. True), env_free = (\<lambda>_. None), env_avail = (\<lambda>_. None),
     env_tmp = [''aaaaaa''], env_usec = 0\<rparr>"

lemma sample_simps [simp]:
  "g_tbls sample_state = [zero_tbl_rec\<lparr>tbl_name := ''t1'', nR := 4\<rparr>, zero_tbl_rec]"
  "g_flds sample_state = [sample_fld, sample_nn, zero_fld_rec, zero_fld_rec]"
  "g_ddirs sample_state = [''/d1'', []]" "g_alt_ddir_id sample_state = -1"
  "env_tmp sample_state = [''aaaaaa'']"
  by (simp_all add: sample_state_def)

lemma sample_inv: "meta_inv sample_state"
proof -
  have "ht_ok sample_state" by (simp add: ht_ok_def) (simp add: sample_state_def)
  moreover have "fields_ok (g_tbls sample_state) (g_ddirs sample_state) (g_flds sample_state)"
    by (simp add: fields_ok_def All_less_Suc local_ok_def live_tbl_def link_ok_def in_range_def
        Ex_less_Suc sample_fld_def sample_nn_def)
  ultimately show ?thesis by (simp add: meta_inv_def)
qed

lemma sample_reach: "q_reach (init_meta_data sample_state)"
  by (rule q_reach.init) simp

lemma sample_unique:
  "tbl_slots.unique_keys (g_tbls sample_state)" "fld_slots.unique_keys (g_flds sample_state)"
  by (simp_all add: tbl_slots.unique_keys_def fld_slots.unique_keys_def All_less_Suc fld_key_def
      sample_fld_def sample_nn_def)

lemma sample_answers:
  "tbl_answer (g_tbls sample_state) ''t1'' = (0, zero_tbl_rec\<lparr>tbl_name := ''t1'', nR := 4\<rparr>)"
  "fld_answer sample_state 0 ''f1'' = ((0, sample_fld), (1, sample_nn))"
  by (simp_all add: tbl_answer_def fld_answer_def tbl_slots.lookup_def fld_slots.lookup_def
      find_from.simps fld_key_def nn_of_def sample_fld_def)

text \<open>The same store with a second table that a field uses as its dictionary.\<close>

definition sample_dict :: q_state where
  "sample_dict = sample_state\<lparr>
     g_tbls := [zero_tbl_rec\<lparr>tbl_name := ''t1'', nR := 4\<rparr>, zero_tbl_rec\<lparr>tbl_name := ''d1'', nR := 2\<rparr>],
     g_flds := [sample_fld, sample_nn, zero_fld_rec\<lparr>tbl_id := 0, fldtype := I4, fld_name := ''f2'', dict_tbl_id := 1\<rparr>,
       zero_fld_rec]\<rparr>"

lemma sample_dict_inv: "meta_inv sample_dict"
proof -
  have "ht_ok sample_dict" by (simp add: ht_ok_def sample_dict_def sample_state_def)
  moreover have "fields_ok (g_tbls sample_dict) (g_ddirs sample_dict) (g_flds sample_dict)"
    by (simp add: sample_dict_def fields_ok_def All_less_Suc local_ok_def live_tbl_def link_ok_def in_range_def
        Ex_less_Suc sample_fld_def sample_nn_def)
  ultimately show ?thesis by (simp add: meta_inv_def) (simp add: sample_dict_def)
qed

lemma sample_dict_unique: "tbl_slots.unique_keys (g_tbls sample_dict)"
  by (simp add: sample_dict_def tbl_slots.unique_keys_def All_less_Suc)

end
