(* ===== verification/Q_Located.thy ===== *)
theory Q_Located
  imports Q_Moves
begin

text \<open>
  Exact effects of verbs that address a field by unique names.  \<open>located\<close> says that the
  names stand for a table slot and a field slot; it resolves the look-ups at the
  start of a verb and survives updates that keep name and table of the field.
\<close>

subsection \<open>Named fields\<close>

definition located :: "q_state \<Rightarrow> string \<Rightarrow> string \<Rightarrow> nat \<Rightarrow> nat \<Rightarrow> bool" where
  "located s x y t i \<longleftrightarrow> meta_inv s \<and> tbl_slots.unique_keys (g_tbls s) \<and>
     fld_slots.unique_keys (g_flds s) \<and> x \<noteq> [] \<and> y \<noteq> [] \<and>
     t < length (g_tbls s) \<and> tbl_name (g_tbls s ! t) = x \<and>
     i < length (g_flds s) \<and> fld_key (g_flds s ! i) = (int t, y)"

lemma locatedD:
  assumes "located s x y t i"
  shows "meta_inv s" "x \<noteq> []" "y \<noteq> []" "in_range (int t) (g_tbls s)" "in_range (int i) (g_flds s)"
    "tbl_id (g_flds s ! i) = int t" "fld_name (g_flds s ! i) = y"
  using assms by (auto simp: located_def in_range_def fld_key_def)

lemma located_is_tbl:
  assumes "located s x y t i"
  shows "is_tbl (Some x) s = (Ret (int t, g_tbls s ! t), s)"
  using assms is_tbl_lookup[OF meta_inv_parts(1), of s x] tbl_lookup_Some[of "g_tbls s" x t]
  by (simp add: located_def tbl_answer_def)

lemma located_is_fld:
  assumes "located s x y t i"
  shows "is_fld tbl (int t) (Some y) s =
    (Ret ((int i, g_flds s ! i), (nn_fld_id (g_flds s ! i), nn_of s (g_flds s ! i))), s)"
  using assms is_fld_lookup[OF meta_inv_parts(1,3), of s "int t" y tbl] fld_lookup_Some[of "g_flds s" y i "int t"]
  by (simp add: located_def fld_answer_def)

text \<open>The look-ups at the start of a verb.\<close>

lemma located_find_tbl:
  assumes "located s x y t i"
  shows "wp (bind (is_tbl (Some x)) (\<lambda>(t, tbl_rec). seq (chk_tbl_range t) (k t))) Q E s = wp (k (int t)) Q E s"
  using located_is_tbl[OF assms] locatedD(4)[OF assms]
  by (simp add: wp_bind wp_def[of "is_tbl _"] wp_seq wp_accessors)

lemma located_find_fld:
  assumes "located s x y t i"
  shows "wp (bind (is_fld tbl (int t) (Some y)) (\<lambda>((f, r), (ni, nr)). seq (chk_fld_range f) (k f r ni nr))) Q E s =
    wp (k (int i) (g_flds s ! i) (nn_fld_id (g_flds s ! i)) (nn_of s (g_flds s ! i))) Q E s"
  using located_is_fld[OF assms] locatedD(5)[OF assms]
  by (simp add: wp_bind wp_def[of "is_fld _ _ _"] wp_seq wp_accessors)

lemma located_keep:
  assumes l: "located s x y t i" and inv: "meta_inv s'" and ts: "g_tbls s' = g_tbls s"
    and len: "length (g_flds s') = length (g_flds s)" and i: "fld_key (g_flds s' ! i) = fld_key (g_flds s ! i)"
    and keys: "\<And>j. j < length (g_flds s) \<Longrightarrow>
      fld_key (g_flds s' ! j) = fld_key (g_flds s ! j) \<or> snd (fld_key (g_flds s' ! j)) = []"
  shows "located s' x y t i"
proof -
  have u: "fld_slots.unique_keys (g_flds s)" using l by (simp add: located_def)
  have "a = b" if "a < length (g_flds s)" "b < length (g_flds s)" "snd (fld_key (g_flds s' ! a)) \<noteq> []"
    "fld_key (g_flds s' ! a) = fld_key (g_flds s' ! b)" for a b
  proof -
    have "fld_key (g_flds s' ! a) = fld_key (g_flds s ! a)" "fld_key (g_flds s' ! b) = fld_key (g_flds s ! b)"
      using keys[OF that(1)] keys[OF that(2)] that(3,4) by auto
    then show ?thesis using u that unfolding fld_slots.unique_keys_def by simp
  qed
  then have "fld_slots.unique_keys (g_flds s')" unfolding fld_slots.unique_keys_def len by blast
  then show ?thesis using assms by (simp add: located_def)
qed

subsection \<open>Dropping the nn field\<close>

definition drop_nn :: "FLD_REC list \<Rightarrow> nat \<Rightarrow> FLD_REC list" where
  "drop_nn fs i = (if nn_fld_id (fs ! i) \<ge> 0
     then fs[i := (fs ! i)\<lparr>nn_fld_id := -1\<rparr>, nat (nn_fld_id (fs ! i)) := zero_fld_rec]
     else fs[i := (fs ! i)\<lparr>nn_fld_id := -1\<rparr>])"

lemma wp_del_aux_exact:
  assumes inv: "meta_inv s" and f: "in_range fid (g_flds s)"
  shows "wp (del_aux_fld fid nn) (\<lambda>_ s'. flds_upd s (drop_nn (g_flds s) (nat fid)) s' \<and> meta_inv s') (\<lambda>_. False) s"
proof -
  let ?r = "g_flds s ! nat fid"
  let ?s1 = "s\<lparr>g_flds := (g_flds s)[nat fid := ?r\<lparr>nn_fld_id := -1\<rparr>]\<rparr>"
  have k: "in_range (nn_fld_id ?r) (g_flds s)" if "nn_fld_id ?r \<ge> 0"
    using meta_inv_parts(3)[OF inv] f that by (auto simp: nn_links_ok_def in_range_nat)
  have fin: "wp (set_fld (nn_fld_id ?r) (\<lambda>_. zero_fld_rec)) (\<lambda>_. flds_upd s (drop_nn (g_flds s) (nat fid))) E s'"
    if "flds_upd s (g_flds ?s1) s'" "nn_fld_id ?r \<ge> 0" for s' E
    using flds_updD(1)[OF that(1)] k that(2) flds_upd_set[OF that(1)] by (simp add: wp_accessors drop_nn_def)
  have "wp (unlink g) (\<lambda>_. wp (set_fld (nn_fld_id ?r) (\<lambda>_. zero_fld_rec))
      (\<lambda>_. flds_upd s (drop_nn (g_flds s) (nat fid))) E) E ?s1" if "nn_fld_id ?r \<ge> 0" for g E
    by (rule wp_mono[OF wp_unlink[OF meta_only_flds_upd]]) (use that in \<open>auto intro: fin\<close>)
  then have "wp (del_aux_fld fid nn) (\<lambda>_. flds_upd s (drop_nn (g_flds s) (nat fid))) (\<lambda>_. False) s"
    using f k fin[of ?s1]
    by (simp add: del_aux_fld_def wp_bind wp_seq wp_guard wp_ret wp_accessors)
      (simp add: drop_nn_def wp_ret)
  from wp_conj[OF this wp_del_aux_fld[OF assms]] show ?thesis by simp
qed

lemma wp_drop_nn_fld:
  assumes l: "located s x y t i"
  shows "wp (drop_nn_fld (Some x) (Some y)) (\<lambda>_ s'. flds_upd s (drop_nn (g_flds s) i) s' \<and> meta_inv s') (\<lambda>_. False) s"
  using wp_del_aux_exact[OF locatedD(1,5)[OF l]] locatedD(2,3)[OF l]
  unfolding drop_nn_fld_def wp_bind[of "arg_given _"] wp_arg_given
  by (simp add: located_find_tbl[OF l] located_find_fld[OF l] wp_bind[of "ignore _"] wp_ignore wp_ret
      wp_def[of "del_aux_fld _ _"] split: prod.splits outcome.splits)

lemma located_dropped:
  assumes l: "located s x y t i" and s': "flds_upd s (drop_nn (g_flds s) i) s'" "meta_inv s'"
  shows "located s' x y t i \<and> nn_fld_id (g_flds s' ! i) = -1"
proof -
  have i: "i < length (g_flds s)" using l by (simp add: located_def)
  have ne: "nat (nn_fld_id (g_flds s ! i)) \<noteq> i" if "nn_fld_id (g_flds s ! i) \<ge> 0"
    by (rule nn_partner[OF meta_inv_parts(2)[OF locatedD(1)[OF l]] i that]) auto
  then have g: "g_flds s' ! i = (g_flds s ! i)\<lparr>nn_fld_id := -1\<rparr>"
    using flds_updD(1)[OF s'(1)] i by (simp add: drop_nn_def)
  moreover have "fld_key (g_flds s' ! j) = fld_key (g_flds s ! j) \<or> snd (fld_key (g_flds s' ! j)) = []"
    if "j < length (g_flds s)" for j
    using flds_updD(1)[OF s'(1)] that by (auto simp: drop_nn_def fld_key_def nth_update_if)
  moreover have "length (g_flds s') = length (g_flds s)" using flds_updD(1)[OF s'(1)] by (simp add: drop_nn_def)
  ultimately show ?thesis
    using located_keep[OF l s'(2)] flds_updD(2)[OF s'(1)] by (simp add: fld_key_def)
qed

lemma is_nn_fld_run:
  assumes l: "located s x y t i"
  shows "is_nn_fld (Some x) (Some y) s = (let k = nn_fld_id (g_flds s ! i) in
    (Ret (k, if k \<ge> 0 then ''1,'' @ dec_int k else ''0,-1''), s))"
  using located_is_tbl[OF l] located_is_fld[OF l, of None] locatedD(2-5)[OF l]
  by (simp add: is_nn_fld_def bind_def seq_def arg_given_def ret_def chk_tbl_range_def chk_fld_range_def
      gets_def guard_def fld_at_def Let_def)

subsection \<open>Attributes of a field\<close>

lemma unstr_mk_sort_type: "unstr_sort_type (mk_str_sort_type st) = Some st"
  by (cases st) (simp_all add: unstr_sort_type_def)

lemma set_sort_type_run:
  assumes l: "located s x y t i"
  shows "set_meta (Some x) (Some y) (Some ''sort_type'') (Some (mk_str_sort_type st)) s =
    (Ret (), s\<lparr>g_flds := (g_flds s)[i := (g_flds s ! i)\<lparr>sort_type := st\<rparr>]\<rparr>)"
proof -
  have "mk_str_sort_type st \<noteq> []" by (cases st) simp_all
  then show ?thesis
    using located_is_tbl[OF l] located_is_fld[OF l, of None] locatedD(2-5)[OF l]
    by (simp add: set_meta_def int_set_meta_def set_sort_type_def unstr_mk_sort_type bind_def seq_def arg_given_def
        of_option_def ret_def chk_tbl_range_def chk_fld_range_def gets_def guard_def set_fld_def)
qed

lemma get_sort_type_run:
  assumes l: "located s x y t i"
  shows "get_meta (Some x) (Some y) (Some ''sort_type'') s = (Ret (mk_str_sort_type (sort_type (g_flds s ! i))), s)"
  using located_is_tbl[OF l] located_is_fld[OF l, of None] locatedD(2-6)[OF l]
  by (simp add: get_meta_def int_get_meta_def bind_def seq_def of_option_def ret_def chk_tbl_range_def
      chk_fld_range_def gets_def guard_def fld_at_def)

lemma located_set_attr:
  assumes l: "located s x y t i" and r: "same_links (g_flds s ! i) r" "local_ok (g_tbls s) (g_ddirs s) r"
    "fld_key r = fld_key (g_flds s ! i)"
  shows "located (s\<lparr>g_flds := (g_flds s)[i := r]\<rparr>) x y t i"
proof (rule located_keep[OF l])
  show "meta_inv (s\<lparr>g_flds := (g_flds s)[i := r]\<rparr>)"
    using store_links_inv[OF locatedD(1,5)[OF l]] r by simp
qed (use l r(3) in \<open>auto simp: located_def nth_list_update\<close>)

end
