(* ===== verification/Q_Blocks.thy ===== *)
theory Q_Blocks
  imports Main
begin

text \<open>
  Hash functions that consume a message in blocks: the contract of a loop that compresses the blocks of a message one after
  the other and leaves the rest, and copies into a buffer.  Both hash functions of the program run such a loop.
\<close>

locale block_stream =
  fixes compress :: "'st \<Rightarrow> 'b list \<Rightarrow> 'st" and size :: nat and run :: "'st \<Rightarrow> 'b list \<Rightarrow> 'st \<times> 'b list"
  assumes size_pos: "0 < size"
    and run_more: "size \<le> length m \<Longrightarrow> run st m = run (compress st (take size m)) (drop size m)"
    and run_short: "length m < size \<Longrightarrow> run st m = (st, m)"
begin

lemma rest_length: "length (snd (run st m)) = length m mod size"
proof (induction "length m" arbitrary: st m rule: less_induct)
  case less
  then show ?case
  proof (cases "size \<le> length m")
    case True
    then have "length (snd (run (compress st (take size m)) (drop size m))) = (length m - size) mod size"
      using less[of "drop size m"] size_pos by simp
    then show ?thesis using True by (simp add: run_more le_mod_geq)
  qed (simp add: run_short)
qed

lemma run_append: "run st (a @ b) = run (fst (run st a)) (snd (run st a) @ b)"
proof (induction "length a" arbitrary: st a rule: less_induct)
  case less
  then show ?case
  proof (cases "size \<le> length a")
    case True
    then have "run (compress st (take size a)) (drop size a @ b) = run (fst (run st a)) (snd (run st a) @ b)"
      using less[of "drop size a"] size_pos by (simp add: run_more)
    then show ?thesis using True run_more[of "a @ b" st] by simp
  qed (simp add: run_short)
qed

lemma run_block: "length m = size \<Longrightarrow> run st m = (compress st m, [])"
  using size_pos by (simp add: run_more run_short)

text \<open>A message cut at a multiple of the block size.\<close>

lemma run_whole: "size dvd length a \<Longrightarrow> run st (a @ b) = run (fst (run st a)) b"
  using rest_length[of st a] by (simp add: run_append)

lemma run_split: "\<exists>blocks. m = blocks @ snd (run st m) \<and> size dvd length blocks \<and> fst (run st m) = fst (run st blocks)"
proof (induction "length m" arbitrary: st m rule: less_induct)
  case less
  show ?case
  proof (cases "size \<le> length m")
    case True
    then have l: "length (drop size m) < length m" using size_pos by simp
    obtain bl where bl: "drop size m = bl @ snd (run st m)" "size dvd length bl" "fst (run st m) = fst (run (compress st (take size m)) bl)"
      using less[OF l, of "compress st (take size m)"] True by (auto simp: run_more)
    have "m = (take size m @ bl) @ snd (run st m)" using bl(1) append_take_drop_id[of size m] by simp
    moreover have "size dvd length (take size m @ bl)" using bl(2) True by simp
    moreover have "fst (run st m) = fst (run st (take size m @ bl))" using bl(3) True run_whole[of "take size m" st bl] run_block[of "take size m" st] by simp
    ultimately show ?thesis by blast
  qed (auto simp: run_short intro!: exI[of _ "[]"] simp: size_pos)
qed

end

text \<open>A copy of bytes into a buffer at an index.\<close>

definition copy_at :: "'b list \<Rightarrow> nat \<Rightarrow> 'b list \<Rightarrow> 'b list" where
  "copy_at out k inp = take k out @ inp @ drop (k + length inp) out"

lemma copy_at_length [simp]: "k + length inp \<le> length out \<Longrightarrow> length (copy_at out k inp) = length out"
  by (simp add: copy_at_def)

lemma copy_at_take: "k + length inp \<le> length out \<Longrightarrow> take (k + length inp) (copy_at out k inp) = take k out @ inp"
  by (cases inp) (auto simp: copy_at_def min_def)

lemma copy_at_full: "k + length inp = length out \<Longrightarrow> copy_at out k inp = take k out @ inp"
  by (simp add: copy_at_def)

end
