(* ===== verification/Q_Digest.thy ===== *)
theory Q_Digest
  imports Q_Hash Q_Blocks
begin

text \<open>
  The streaming interface of \<open>md5c.c\<close> (\<open>MD5Init\<close>, \<open>MD5Update\<close>, \<open>MD5Final\<close>) against its
  specification: the compression function folded over the 64-byte blocks of the padded
  message.  The abstraction \<open>absorbs ctx m\<close> says that the context has consumed the bytes
  \<open>m\<close>; updating consumes more, and the digest depends on the bytes alone.
\<close>

unbundle bit_operations_syntax

subsection \<open>Blocks\<close>

interpretation md: block_stream MD5Transform 64 md_blocks
  by unfold_locales (simp_all add: md_blocks.simps)

lemma MD5_memcpy_copies: "MD5_memcpy = copy_at"
  by (simp add: fun_eq_iff MD5_memcpy_def copy_at_def)

lemmas md_blocks_rest = md.rest_length
lemmas md_blocks_append = md.run_append
lemmas md_blocks_short = md.run_short
lemmas md_blocks_one = md.run_more
lemmas memcpy_length [simp] = copy_at_length[where 'a = byte, folded MD5_memcpy_copies]
lemmas memcpy_take = copy_at_take[where 'a = byte, folded MD5_memcpy_copies]
lemmas memcpy_full = copy_at_full[where 'a = byte, folded MD5_memcpy_copies]

subsection \<open>Counting bits\<close>

lemma and_3F: "n AND 63 = n mod (64 :: nat)"
  using take_bit_eq_mask[of 6 n] by (simp add: take_bit_eq_mod mask_eq_exp_minus_1)

lemma bit_index: "unat (drop_bit 3 (of_nat (8 * n) :: 64 word) AND 0x3F) = n mod 64"
proof -
  have "(8 * n mod 18446744073709551616) div 8 = n mod 2305843009213693952"
    using mult_mod_right[of 8 n 2305843009213693952] by simp
  moreover have "n mod 2305843009213693952 mod 64 = n mod 64"
    by (rule mod_mod_cancel) simp
  ultimately show ?thesis
    by (simp add: unsigned_and_eq unsigned_drop_bit_eq unsigned_of_nat drop_bit_eq_div[where 'a = nat]
        take_bit_eq_mod and_3F del: of_nat_mult)
qed

lemma bit_count: "n < 2 ^ 32 \<Longrightarrow> push_bit 3 (ucast (of_nat n :: 32 word)) = (of_nat (8 * n) :: 64 word)"
  by (simp add: push_bit_eq_mult unsigned_of_nat take_bit_eq_mod mult.commute)

subsection \<open>What a context has consumed\<close>

definition md_iv :: "UINT4 list" where
  "md_iv = [0x67452301, 0xefcdab89, 0x98badcfe, 0x10325476]"

definition absorbs :: "MD5_CTX \<Rightarrow> byte list \<Rightarrow> bool" where
  "absorbs ctx m \<longleftrightarrow> md_state ctx = fst (md_blocks md_iv m) \<and> length (md_buffer ctx) = 64 \<and>
     take (length m mod 64) (md_buffer ctx) = snd (md_blocks md_iv m) \<and>
     md_count0 ctx = of_nat (8 * length m)"

lemma MD5Init_absorbs: "length (md_buffer ctx) = 64 \<Longrightarrow> absorbs (MD5Init ctx) []"
  by (simp add: absorbs_def MD5Init_def md_iv_def md_blocks_short)

lemma update_counts:
  assumes "absorbs ctx m" and "length input < 2 ^ 32"
  shows "md_count0 (MD5Update ctx input) = of_nat (8 * length (m @ input))"
proof -
  have "md_count0 (MD5Update ctx input) = md_count0 ctx + push_bit 3 (ucast (of_nat (length input) :: 32 word))"
    by (simp add: MD5Update_def Let_def split: prod.split)
  then show ?thesis
    using assms unfolding bit_count[OF assms(2)] by (simp add: absorbs_def distrib_left)
qed

lemma MD5Update_absorbs:
  assumes a: "absorbs ctx m" and len: "length input < 2 ^ 32"
  shows "absorbs (MD5Update ctx input) (m @ input)"
proof -
  let ?i = "length m mod 64"
  let ?part = "64 - ?i"
  have idx: "unat (drop_bit 3 (md_count0 ctx) AND 0x3F) = ?i"
    using a bit_index[of "length m"] by (simp add: absorbs_def)
  have buf: "length (md_buffer ctx) = 64" "take ?i (md_buffer ctx) = snd (md_blocks md_iv m)"
    and st: "md_state ctx = fst (md_blocks md_iv m)" using a by (auto simp: absorbs_def)
  have i: "?i < 64" "length (snd (md_blocks md_iv m)) = ?i" by (simp_all add: md_blocks_rest)
  show ?thesis
  proof (cases "?part \<le> length input")
    case True
    let ?buf = "MD5_memcpy (md_buffer ctx) ?i (take ?part input)"
    let ?r = "md_blocks (MD5Transform (md_state ctx) ?buf) (drop ?part input)"
    have full: "?buf = snd (md_blocks md_iv m) @ take ?part input"
      using True buf i by (subst memcpy_full) auto
    have lb: "length ?buf = 64" using True i unfolding full by simp
    have "md_blocks md_iv (m @ input) = md_blocks (md_state ctx) (?buf @ drop ?part input)"
      unfolding md_blocks_append[of _ m] st full by simp
    then have eq: "md_blocks md_iv (m @ input) = ?r"
      using md_blocks_one[of "?buf @ drop ?part input" "md_state ctx"] lb by simp
    have rl: "length (snd ?r) = length (m @ input) mod 64" using md_blocks_rest[of md_iv "m @ input"] eq by simp
    then have "length (snd ?r) \<le> 64" by simp
    then have "take (length (snd ?r)) (MD5_memcpy ?buf 0 (snd ?r)) = snd ?r"
      "length (MD5_memcpy ?buf 0 (snd ?r)) = 64"
      using memcpy_take[of 0 "snd ?r" ?buf] lb by simp_all
    moreover have "md_state (MD5Update ctx input) = fst ?r" "md_buffer (MD5Update ctx input) = MD5_memcpy ?buf 0 (snd ?r)"
      using True by (simp_all add: MD5Update_def idx Let_def split: prod.split)
    ultimately show ?thesis
      using update_counts[OF a len] eq rl by (simp add: absorbs_def)
  next
    case False
    then have sm: "?i + length input < 64" by simp
    have upd: "md_state (MD5Update ctx input) = md_state ctx"
      "md_buffer (MD5Update ctx input) = MD5_memcpy (md_buffer ctx) ?i input"
      using False by (simp_all add: MD5Update_def idx Let_def)
    have "md_blocks md_iv (m @ input) = (md_state ctx, snd (md_blocks md_iv m) @ input)"
      unfolding md_blocks_append[of _ m] st using sm i by (intro md_blocks_short) simp
    moreover have "length (m @ input) mod 64 = ?i + length input"
      using sm mod_add_left_eq[of "length m" 64 "length input"] by (simp only: length_append mod_less)
    ultimately show ?thesis
      using update_counts[OF a len] upd buf memcpy_take[of ?i input "md_buffer ctx"] sm by (simp add: absorbs_def)
  qed
qed

subsection \<open>The digest\<close>

text \<open>The padding: a one bit, zeros up to 56 modulo 64, and the number of bits.\<close>

definition pad_len :: "nat \<Rightarrow> nat" where
  "pad_len n = (if n mod 64 < 56 then 56 - n mod 64 else 120 - n mod 64)"

definition md_digest :: "byte list \<Rightarrow> byte list \<Rightarrow> byte list" where
  "md_digest m tail = Encode (fst (md_blocks md_iv (m @ take (pad_len (length m)) PADDING @ tail)))"

lemma Encode_length: "length (Encode ws) = 4 * length ws"
  by (induction ws) (simp_all add: Encode_def Encode_word_def)

lemma PADDING_length: "length PADDING = 64"
  by (simp add: PADDING_def)

lemma pad_len_bound: "pad_len n \<le> 64 \<and> (n + pad_len n) mod 64 = 56"
proof -
  have "(n + pad_len n) mod 64 = (n mod 64 + pad_len n) mod 64" by (simp add: mod_add_left_eq)
  moreover have "n mod 64 + pad_len n = 56 \<or> n mod 64 + pad_len n = 120"
    using mod_less_divisor[of 64 n] by (auto simp: pad_len_def)
  moreover have "pad_len n \<le> 64" by (auto simp: pad_len_def)
  ultimately show ?thesis by auto
qed

lemma MD5Final_digest:
  assumes "absorbs ctx m"
  shows "MD5Final ctx = md_digest m (Encode [md_count0 ctx, md_count1 ctx])"
proof -
  let ?pad = "take (pad_len (length m)) PADDING"
  have idx: "unat (drop_bit 3 (md_count0 ctx) AND 0x3f) = length m mod 64"
    using assms bit_index[of "length m"] by (simp add: absorbs_def)
  have "length ?pad < 2 ^ 32" using pad_len_bound[of "length m"] by (simp add: PADDING_length)
  then have "absorbs (MD5Update ctx ?pad) (m @ ?pad)" using MD5Update_absorbs[OF assms] by blast
  then have "absorbs (MD5Update (MD5Update ctx ?pad) (Encode [md_count0 ctx, md_count1 ctx]))
      ((m @ ?pad) @ Encode [md_count0 ctx, md_count1 ctx])"
    by (rule MD5Update_absorbs) (simp add: Encode_length)
  then show ?thesis
    by (simp add: MD5Final_def idx Let_def md_digest_def absorbs_def pad_len_def)
qed

text \<open>The length field of a message shorter than \<open>2 ^ 29\<close> bytes.\<close>

lemma update_count1:
  assumes "length input < 2 ^ 29" and "md_count0 ctx = 0" and "md_count1 ctx = 0"
  shows "md_count1 (MD5Update ctx input) = 0"
proof -
  have "unat (drop_bit 29 (ucast (of_nat (length input) :: 32 word)) :: 64 word) = 0"
    using assms(1) by (simp add: unsigned_drop_bit_eq unsigned_of_nat drop_bit_eq_div[where 'a = nat] take_bit_eq_mod)
  then have "drop_bit 29 (ucast (of_nat (length input) :: 32 word)) = (0 :: 64 word)"
    by (simp only: unsigned_eq_0_iff)
  then show ?thesis using assms(2,3) by (simp add: MD5Update_def Let_def split: prod.split)
qed

text \<open>C31: The digest of a string: whatever bytes the stack buffer held before, \<open>my_MDString\<close>
  prints the hexadecimal form of the compression function folded over the 64-byte blocks
  of the padded message, where the padding is a one bit, zeros up to 56 modulo 64 and the
  length in bits; the padded message is a whole number of blocks.\<close>

theorem my_MDString_is_digest:
  assumes "length junk = 64" and "length s < 2 ^ 29"
  shows "my_MDString junk s = my_MDPrint (md_digest (string_bytes s) (Encode [of_nat (8 * length s), 0])) \<and>
    64 dvd length (string_bytes s @ take (pad_len (length s)) PADDING @ Encode [of_nat (8 * length s), 0])"
proof -
  let ?start = "MD5Init \<lparr>md_state = [], md_count0 = 0, md_count1 = 0, md_buffer = junk\<rparr>"
  let ?fed = "MD5Update ?start (string_bytes s)"
  have len: "length (string_bytes s) = length s" by (simp add: string_bytes_def)
  have "absorbs ?start []" using assms(1) by (intro MD5Init_absorbs) simp
  then have a: "absorbs ?fed ([] @ string_bytes s)" by (rule MD5Update_absorbs) (use assms(2) len in simp)
  have "md_count1 ?fed = 0" using assms(2) len by (intro update_count1) (simp_all add: MD5Init_def)
  then have "my_MDString junk s = my_MDPrint (md_digest (string_bytes s) (Encode [of_nat (8 * length s), 0]))"
    using MD5Final_digest[OF a] a len by (simp add: my_MDString_def absorbs_def)
  moreover have "(length s + pad_len (length s) + 8) mod 64 = 0"
    using pad_len_bound[of "length s"] mod_add_left_eq[of "length s + pad_len (length s)" 64 8] by simp
  moreover have "pad_len (length s) \<le> 64" using pad_len_bound by blast
  ultimately show ?thesis by (simp add: len PADDING_length Encode_length dvd_eq_mod_eq_0 min_def add.assoc)
qed

theorem my_MDString_is_digest_witness:
  "my_MDString (replicate 64 7) ''abc'' =
     my_MDPrint (md_digest (string_bytes ''abc'') (Encode [of_nat (8 * length ''abc''), 0]))"
  using my_MDString_is_digest[of "replicate 64 7" "''abc''"] by simp

text \<open>Feeding a context in pieces is the same as feeding it at once: after any two
  updates the digest state is the one of the concatenated input, up to the part of the
  buffer that is overwritten before it is read.\<close>

theorem MD5Update_pieces:
  assumes "absorbs ctx m" and "length a + length b < 2 ^ 32"
  shows "absorbs (MD5Update (MD5Update ctx a) b) (m @ a @ b) \<and>
    md_state (MD5Update (MD5Update ctx a) b) = md_state (MD5Update ctx (a @ b)) \<and>
    md_count0 (MD5Update (MD5Update ctx a) b) = md_count0 (MD5Update ctx (a @ b)) \<and>
    take ((length m + length a + length b) mod 64) (md_buffer (MD5Update (MD5Update ctx a) b)) =
    take ((length m + length a + length b) mod 64) (md_buffer (MD5Update ctx (a @ b)))"
proof -
  have "absorbs (MD5Update ctx a) (m @ a)" using assms by (intro MD5Update_absorbs) auto
  then have "absorbs (MD5Update (MD5Update ctx a) b) ((m @ a) @ b)" using assms by (intro MD5Update_absorbs) auto
  moreover have "absorbs (MD5Update ctx (a @ b)) (m @ a @ b)" using assms by (intro MD5Update_absorbs) auto
  ultimately show ?thesis by (simp add: absorbs_def add.assoc)
qed

theorem MD5Update_pieces_witness:
  "absorbs (MD5Update (MD5Update (MD5Init \<lparr>md_state = [], md_count0 = 0, md_count1 = 0,
     md_buffer = replicate 64 0\<rparr>) [1, 2]) [3]) [1, 2, 3]"
  using MD5Update_pieces[OF MD5Init_absorbs, of "\<lparr>md_state = [], md_count0 = 0, md_count1 = 0,
     md_buffer = replicate 64 0\<rparr>" "[1, 2]" "[3]"] by simp

end
