(* ===== verification/Q_Text.thy ===== *)
theory Q_Text
  imports Q_Types
begin

text \<open>
  Correctness of the string helpers: printing and reading decimal numbers, names of
  types, cutting a string at separators, picking one field, stripping slashes and
  extracting a bracketed attribute.
\<close>

subsection \<open>Decimal numbers\<close>

lemma code_digit: "d < 10 \<Longrightarrow> code (digit_char d) = 48 + d"
  by (simp add: code_def digit_char_def)

lemma digit_char_facts [simp]:
  assumes "d < 10"
  shows "isdigit (digit_char d)" "digit_val (digit_char d) = int d" "\<not> isspace (digit_char d)"
    "digit_char d \<noteq> CHR ''-''" "digit_char d \<noteq> CHR ''+''"
proof -
  have c: "code (digit_char d) = 48 + d" by (rule code_digit[OF assms])
  then show "isdigit (digit_char d)" "digit_val (digit_char d) = int d" "\<not> isspace (digit_char d)"
    using assms by (auto simp: isdigit_def digit_val_def isspace_def)
  have "code CHR ''-'' = 45" "code CHR ''+'' = 43" by (simp_all add: code_def)
  then show "digit_char d \<noteq> CHR ''-''" "digit_char d \<noteq> CHR ''+''" using c by auto
qed

lemma dec_nat_digits: "list_all isdigit (dec_nat n) \<and> dec_nat n \<noteq> [] \<and> dec_val (dec_nat n) = int n"
proof (induction n rule: dec_nat.induct)
  case (1 n)
  show ?case
  proof (cases "n < 10")
    case True
    then show ?thesis by (simp add: dec_nat.simps[of n] dec_val_def)
  next
    case False
    then have ih: "list_all isdigit (dec_nat (n div 10))" "dec_val (dec_nat (n div 10)) = int (n div 10)"
      using 1 by auto
    have "dec_val (dec_nat n) = int (n div 10) * 10 + int (n mod 10)"
      using False ih(2) by (simp add: dec_nat.simps[of n] dec_val_def)
    also have "\<dots> = int n" unfolding of_nat_div of_nat_mod by simp
    finally show ?thesis using False ih(1) by (simp add: dec_nat.simps[of n])
  qed
qed

lemma digit_not_sign: "isdigit c \<Longrightarrow> c \<noteq> CHR ''-'' \<and> c \<noteq> CHR ''+'' \<and> \<not> isspace c"
  by (auto simp: isdigit_def isspace_def code_def)

lemma take_digits: "list_all isdigit ds \<Longrightarrow> takeWhile isdigit ds = ds \<and> dropWhile isdigit ds = []"
  by (simp add: takeWhile_eq_all_conv list_all_iff)

lemma strtoll_digits:
  assumes "list_all isdigit ds" and "ds \<noteq> []"
  shows "strtoll ds = (max LLONG_MIN (min LLONG_MAX (dec_val ds)), [])"
    and "strtoll (CHR ''-'' # ds) = (max LLONG_MIN (min LLONG_MAX (- dec_val ds)), [])"
proof -
  obtain c cs where c: "ds = c # cs" "isdigit c" using assms by (cases ds) auto
  have d: "takeWhile isdigit ds = ds" "dropWhile isdigit ds = []" using take_digits[OF assms(1)] by auto
  have "dropWhile isspace ds = ds" "hd ds \<noteq> CHR ''-''" "hd ds \<noteq> CHR ''+''"
    using c digit_not_sign[of c] by auto
  then show "strtoll ds = (max LLONG_MIN (min LLONG_MAX (dec_val ds)), [])"
    unfolding strtoll_def Let_def using d assms(2) by (simp del: takeWhile_eq_all_conv dropWhile_eq_Nil_conv)
  have "\<not> isspace CHR ''-''" by (simp add: isspace_def code_def)
  then show "strtoll (CHR ''-'' # ds) = (max LLONG_MIN (min LLONG_MAX (- dec_val ds)), [])"
    unfolding strtoll_def Let_def using d assms(2) by (simp del: takeWhile_eq_all_conv dropWhile_eq_Nil_conv)
qed

lemma strtoll_dec: "strtoll (dec_int i) = (max LLONG_MIN (min LLONG_MAX i), [])"
  using strtoll_digits[of "dec_nat (nat i)"] strtoll_digits[of "dec_nat (nat (- i))"]
    dec_nat_digits[of "nat i"] dec_nat_digits[of "nat (- i)"]
  by (simp add: dec_int_def)

text \<open>Printing a number with \<open>%d\<close> and reading it with \<open>strtoll\<close> consumes the whole string
  and gives the number back, saturated to the range of \<open>long long\<close>; \<open>stoi\<close> gives back every
  \<open>int\<close>.\<close>

theorem dec_int_round_trip:
  "strtoll (dec_int i) = (max LLONG_MIN (min LLONG_MAX i), []) \<and>
   (INT_MIN \<le> j \<and> j \<le> INT_MAX \<longrightarrow> stoi (Some (dec_int j)) = Some j)"
proof -
  have "dec_int j \<noteq> []" using dec_nat_digits by (auto simp: dec_int_def)
  then show ?thesis using strtoll_dec[of i] strtoll_dec[of j] by (auto simp: stoi_def to_int32_id)
qed

theorem dec_int_round_trip_witness: "stoi (Some (dec_int (-42))) = Some (-42)"
  using dec_int_round_trip[of 0 "-42"] by simp

subsection \<open>Names of types\<close>

text \<open>The string form of a field type is read back as that type, and every string that
  is accepted is the string form of the result, except \<open>str\<close>, an alias of \<open>I8\<close>.\<close>

theorem fldtype_round_trip:
  "(mk_str_fldtype ft = Some x \<longrightarrow> unstr_fldtype (Some x) = Some ft) \<and>
   (unstr_fldtype (Some y) = Some ft \<longrightarrow> mk_str_fldtype ft = Some y \<or> y = ''str'' \<and> ft = I8)"
  by (cases ft) (auto simp: unstr_fldtype_def split: if_splits)

theorem fldtype_round_trip_witness: "unstr_fldtype (Some ''clob'') = Some clob \<and> mk_str_fldtype F8 = Some ''F8''"
  using fldtype_round_trip[of clob "''clob''"] fldtype_round_trip[of F8 _ "''F8''"]
  by (simp add: unstr_fldtype_def)

subsection \<open>Cutting at separators\<close>

fun join :: "char \<Rightarrow> string list \<Rightarrow> string" where
  "join d [] = []"
| "join d [x] = x"
| "join d (x # xs) = x @ d # join d xs"

lemma explode_loop_not_Nil [simp]: "explode_loop cur s \<noteq> []"
  by (induction cur s rule: explode_loop.induct) simp_all

lemma join_Cons: "xs \<noteq> [] \<Longrightarrow> join d (x # xs) = x @ d # join d xs"
  by (cases xs) simp_all

lemma explode_loop_join:
  "join CHR '':'' (explode_loop cur s) = cur @ s \<and>
   (CHR '':'' \<notin> set cur \<longrightarrow> (\<forall>f \<in> set (explode_loop cur s). CHR '':'' \<notin> set f)) \<and>
   length (explode_loop cur s) = Suc (count_list s CHR '':'')"
  by (induction cur s rule: explode_loop.induct) (simp_all add: join_Cons)

abbreviation colons :: "string \<Rightarrow> nat" where "colons s \<equiv> length (filter (\<lambda>c. c = CHR '':'') s)"

lemma strsep_colon:
  "strsep '':'' s = (takeWhile (\<lambda>c. c \<noteq> CHR '':'') s,
     if CHR '':'' \<in> set s then Some (tl (dropWhile (\<lambda>c. c \<noteq> CHR '':'') s)) else None)"
  by (induction s) auto

lemma explode_loop_head:
  "explode_loop cur s = (cur @ takeWhile (\<lambda>c. c \<noteq> CHR '':'') s) #
     (if CHR '':'' \<in> set s then explode_loop [] (tl (dropWhile (\<lambda>c. c \<noteq> CHR '':'') s)) else [])"
  by (induction s arbitrary: cur) auto

lemma colons_tail:
  "CHR '':'' \<in> set s \<Longrightarrow> colons s = Suc (colons (tl (dropWhile (\<lambda>c. c \<noteq> CHR '':'') s)))"
  by (induction s) auto

lemma break_loop_explode:
  "break_loop '':'' (Suc (colons s)) (Some s) =
     (if [] \<in> set (explode_loop [] s) then None else Some (explode_loop [] s))"
proof (induction "colons s" arbitrary: s)
  case 0
  then have "CHR '':'' \<notin> set s" by (auto simp: filter_empty_conv)
  then show ?case
    using 0 explode_loop_head[of "[]" s] by (auto simp: strsep_colon)
next
  case (Suc n)
  let ?rest = "tl (dropWhile (\<lambda>c. c \<noteq> CHR '':'') s)"
  have c: "CHR '':'' \<in> set s" using Suc(2) by (auto simp: filter_empty_conv dest: arg_cong[of _ _ "\<lambda>n. n > 0"])
  then have n: "colons s = Suc (colons ?rest)" by (rule colons_tail)
  then have ih: "break_loop '':'' (Suc (colons ?rest)) (Some ?rest) =
      (if [] \<in> set (explode_loop [] ?rest) then None else Some (explode_loop [] ?rest))"
    using Suc by simp
  have e: "explode_loop [] s = takeWhile (\<lambda>c. c \<noteq> CHR '':'') s # explode_loop [] ?rest"
    using c explode_loop_head[of "[]" s] by simp
  have "break_loop '':'' (Suc k) (Some s) =
      (if takeWhile (\<lambda>c. c \<noteq> CHR '':'') s = [] then None
       else (case break_loop '':'' k (Some ?rest) of None \<Rightarrow> None
             | Some Y \<Rightarrow> Some (takeWhile (\<lambda>c. c \<noteq> CHR '':'') s # Y)))" for k
    using c by (simp add: strsep_colon)
  from this[of "colons s"] show ?case unfolding ih[folded n] e by (simp del: break_loop.simps)
qed

text \<open>\<open>explode\<close> cuts a string at its colons: joining the pieces gives the string back, no
  piece contains a colon, and there is one piece more than there are colons.  \<open>break_str\<close>
  cuts at the same places but refuses strings with an empty piece (and returns no piece
  for the empty string).\<close>

theorem explode_and_break:
  "join CHR '':'' (explode s d) = s \<and> (\<forall>f. f \<in> set (explode s d) \<longrightarrow> CHR '':'' \<notin> set f) \<and>
   length (explode s d) = Suc (count_list s CHR '':'') \<and>
   break_str (Some s) '':'' =
     (if s = [] then Some [] else if [] \<in> set (explode s d) then None else Some (explode s d))"
  using explode_loop_join[of "[]" s] break_loop_explode[of s]
  by (simp add: explode_def break_str_def del: break_loop.simps)

theorem explode_and_break_witness:
  "join CHR '':'' (explode ''a:bc'' CHR '':'') = ''a:bc'' \<and> break_str (Some ''a::b'') '':'' = None"
  using explode_and_break[of "''a:bc''" "CHR '':''"] explode_and_break[of "''a::b''" "CHR '':''"]
  by (simp add: explode_def)

subsection \<open>Picking one field\<close>

lemma skip_delims_field:
  "d \<notin> set x \<Longrightarrow> skip_delims d (Suc n) (x @ d # rest) = skip_delims d n rest"
  by (induction x) auto

lemma skip_delims_join:
  assumes "n < length fs" and "\<forall>f \<in> set fs. d \<notin> set f"
  shows "skip_delims d n (join d fs) = Some (join d (drop n fs))"
  using assms
proof (induction n arbitrary: fs)
  case (Suc n)
  then obtain x xs where fs: "fs = x # xs" "xs \<noteq> []" by (cases fs) fastforce+
  then show ?case using Suc by (simp add: join_Cons skip_delims_field)
qed simp

text \<open>On a line of non-empty fields \<open>read_nth_val\<close> returns the field asked for, whenever it
  exists and fits the output buffer.\<close>

theorem read_nth_val_field:
  assumes "n < length fs" and "\<forall>f \<in> set fs. f \<noteq> [] \<and> d \<notin> set f" and "length (fs ! n) \<le> len"
  shows "read_nth_val (join d fs) d n len = Some (fs ! n)"
proof -
  have skip: "skip_delims d n (join d fs) = Some (join d (drop n fs))"
    using assms by (intro skip_delims_join) auto
  have f: "fs ! n \<noteq> []" "d \<notin> set (fs ! n)" using assms(1,2) by auto
  have dr: "drop n fs = fs ! n # drop (Suc n) fs" using assms(1) by (simp add: Cons_nth_drop_Suc)
  obtain rest where rest: "join d (drop n fs) = fs ! n @ rest" "rest = [] \<or> hd rest = d"
    unfolding dr by (cases "drop (Suc n) fs") auto
  have "hd (fs ! n @ rest) \<noteq> d" using f by (cases "fs ! n") auto
  moreover have "takeWhile (\<lambda>c. c \<noteq> d) (fs ! n @ rest) = fs ! n"
    using f(2) rest(2) by (cases rest) (auto simp: takeWhile_append)
  ultimately show ?thesis using skip rest(1) assms(3) by (simp add: read_nth_val_def Let_def)
qed

theorem read_nth_val_field_witness: "read_nth_val ''ab,c,def'' CHR '','' 2 10 = Some ''def''"
  using read_nth_val_field[of 2 "[''ab'', ''c'', ''def'']" "CHR '',''" 10] by simp

subsection \<open>Trailing slashes\<close>

lemma strip_loop_spec:
  "strip_loop (length s) s = rev (dropWhile (\<lambda>c. c = CHR ''/'') (rev s))"
proof (induction s rule: rev_induct)
  case (snoc c s)
  then show ?case by simp
qed simp

lemma rev_dropWhile_split:
  "\<exists>k. s = rev (dropWhile (\<lambda>c. c = a) (rev s)) @ replicate k a"
proof -
  have "takeWhile (\<lambda>c. c = a) (rev s) = replicate (length (takeWhile (\<lambda>c. c = a) (rev s))) a"
    by (rule replicate_length_same[symmetric]) (auto dest: set_takeWhileD)
  moreover have "s = rev (dropWhile (\<lambda>c. c = a) (rev s)) @ rev (takeWhile (\<lambda>c. c = a) (rev s))"
    by (metis rev_append rev_rev_ident takeWhile_dropWhile_id)
  ultimately show ?thesis by (metis rev_replicate)
qed

text \<open>\<open>strip_trailing_slash\<close> succeeds exactly when the string fits the buffer and has a
  character other than a slash; the result is the string without its trailing slashes.\<close>

theorem strip_trailing_slash_spec:
  "strip_trailing_slash (Some s) n = Some r \<longleftrightarrow>
     0 < n \<and> int (length s) < n \<and> r \<noteq> [] \<and> last r \<noteq> CHR ''/'' \<and> (\<exists>k. s = r @ replicate k CHR ''/'')"
proof -
  let ?d = "rev (dropWhile (\<lambda>c. c = CHR ''/'') (rev s))"
  have d: "\<exists>k. s = ?d @ replicate k CHR ''/''" by (rule rev_dropWhile_split)
  have l: "last ?d \<noteq> CHR ''/''" if "?d \<noteq> []"
    using that hd_dropWhile[of "\<lambda>c. c = CHR ''/''" "rev s"] by (simp add: last_rev)
  have u: "r = ?d" if "s = r @ replicate k CHR ''/''" "r \<noteq> []" "last r \<noteq> CHR ''/''" for k
  proof -
    have "dropWhile (\<lambda>c. c = CHR ''/'') (rev s) = dropWhile (\<lambda>c. c = CHR ''/'') (rev r)"
      unfolding that(1) by (simp add: dropWhile_append)
    also have "\<dots> = rev r" using that(2,3) by (cases r rule: rev_cases) auto
    finally show ?thesis by simp
  qed
  have e1: "r \<noteq> [] \<and> r = ?d \<longleftrightarrow> r \<noteq> [] \<and> last r \<noteq> CHR ''/'' \<and> (\<exists>k. s = r @ replicate k CHR ''/'')"
    (is "?L = ?R")
  proof
    assume L: ?L
    then have "?d \<noteq> []" by blast
    from l[OF this] show ?R unfolding conjunct2[OF L] using d L by blast
  next
    assume R: ?R
    then obtain k where "s = r @ replicate k CHR ''/''" by blast
    from u[OF this] R show ?L by blast
  qed
  have e2: "strip_trailing_slash (Some s) n = Some r \<longleftrightarrow> 0 < n \<and> int (length s) < n \<and> r \<noteq> [] \<and> r = ?d"
    unfolding strip_loop_spec[symmetric]
    by (cases "strip_loop (length s) s = []") (auto simp: strip_trailing_slash_def Let_def)
  show ?thesis unfolding e2 e1 ..
qed

subsection \<open>Extracting an attribute\<close>

lemma starts_with_append: "starts_with p s \<longleftrightarrow> (\<exists>r. s = p @ r)"
  unfolding starts_with_def by (metis append_eq_conv_conj append_take_drop_id)

lemma strstr_Some:
  "strstr s p = Some r \<Longrightarrow> \<exists>pre. s = pre @ r \<and> starts_with p r \<and>
     (\<forall>k < length pre. \<not> starts_with p (drop k s))"
proof (induction s p rule: strstr.induct)
  case (2 c cs p)
  show ?case
  proof (cases "starts_with p (c # cs)")
    case False
    then obtain pre where "cs = pre @ r" "starts_with p r" "\<forall>k < length pre. \<not> starts_with p (drop k cs)"
      using 2 by auto
    then show ?thesis
      using False by (intro exI[of _ "c # pre"]) (auto simp: less_Suc_eq_0_disj)
  qed (use 2 in auto)
qed (auto simp: starts_with_def split: if_splits)

lemma strstr_None: "strstr s p = None \<Longrightarrow> k \<le> length s \<Longrightarrow> \<not> starts_with p (drop k s)"
  by (induction s p arbitrary: k rule: strstr.induct)
    (auto simp: starts_with_def drop_Cons split: if_splits nat.splits)

text \<open>What \<open>extract_S\<close> returns is the text between the first occurrence of the start marker
  and the next occurrence of the stop marker; it is shorter than the output buffer.  It
  returns nothing exactly when a marker is missing, and fails only when the text is too
  long.\<close>

theorem extract_S_spec:
  "case extract_S (Some x) st sp n of
     Ret (Some v) \<Rightarrow> \<exists>pre post. x = pre @ st @ v @ sp @ post \<and> int (length v) < n - 1 \<and>
        (\<forall>k < length pre. \<not> starts_with st (drop k x)) \<and>
        (\<forall>k < length v. \<not> starts_with sp (drop k (v @ sp @ post)))
   | Ret None \<Rightarrow> (\<forall>k \<le> length x. \<not> starts_with st (drop k x)) \<or>
        (\<exists>pre z. x = pre @ st @ z \<and> (\<forall>k < length pre. \<not> starts_with st (drop k x)) \<and>
           (\<forall>k \<le> length z. \<not> starts_with sp (drop k z)))
   | Bye \<Rightarrow> (\<exists>pre v post. x = pre @ st @ v @ sp @ post \<and> n - 1 \<le> int (length v))
   | Fault \<Rightarrow> False"
proof (cases "strstr x st")
  case None
  then show ?thesis using strstr_None by (auto simp: extract_S_def)
next
  case (Some Y)
  obtain pre z where Y: "x = pre @ Y" "Y = st @ z" "\<forall>k < length pre. \<not> starts_with st (drop k x)"
    using strstr_Some[OF Some] starts_with_append by blast
  show ?thesis
  proof (cases "strstr z sp")
    case None
    then have "\<forall>k \<le> length z. \<not> starts_with sp (drop k z)" using strstr_None by blast
    then have "\<exists>pre z. x = pre @ st @ z \<and> (\<forall>k < length pre. \<not> starts_with st (drop k x)) \<and>
        (\<forall>k \<le> length z. \<not> starts_with sp (drop k z))" using Y by blast
    moreover have "extract_S (Some x) st sp n = Ret None" using Some None Y(2) by (simp add: extract_S_def)
    ultimately show ?thesis by simp
  next
    case (Some W)
    obtain v post where v: "z = v @ W" "W = sp @ post" "\<forall>k < length v. \<not> starts_with sp (drop k z)"
      using strstr_Some[OF Some] starts_with_append by blast
    then have run: "extract_S (Some x) st sp n = (if int (length v) \<ge> n - 1 then Bye else Ret (Some v))"
      using Some \<open>strstr x st = Some Y\<close> Y(2) by (simp add: extract_S_def Let_def)
    have x: "x = pre @ st @ v @ sp @ post" using Y(1,2) v(1,2) by simp
    show ?thesis
    proof (cases "int (length v) \<ge> n - 1")
      case True
      then show ?thesis unfolding run using x by auto
    next
      case False
      have "\<forall>k < length v. \<not> starts_with sp (drop k (v @ sp @ post))" using v by simp
      then have "\<exists>pre post. x = pre @ st @ v @ sp @ post \<and> int (length v) < n - 1 \<and>
          (\<forall>k < length pre. \<not> starts_with st (drop k x)) \<and>
          (\<forall>k < length v. \<not> starts_with sp (drop k (v @ sp @ post)))"
        using x Y(3) False by (intro exI[of _ pre] exI[of _ post] conjI) simp_all
      then show ?thesis unfolding run using False by (simp only: if_False outcome.case option.case)
    qed
  qed
qed

theorem extract_S_spec_witness:
  "\<exists>pre post. ''fldtype=[I4]:x'' = pre @ ''fldtype=['' @ ''I4'' @ '']'' @ post"
proof -
  have "extract_S (Some ''fldtype=[I4]:x'') ''fldtype=['' '']'' 1024 = Ret (Some ''I4'')" by code_simp
  then show ?thesis using extract_S_spec[of "''fldtype=[I4]:x''" "''fldtype=[''" "'']''" 1024] by auto
qed

subsection \<open>Sizes and partitions\<close>

text \<open>The file of a bit vector of \<open>n\<close> bits has a whole number of kilobytes, holds all bits,
  and is the smallest such file; a non-positive \<open>n\<close> is refused.\<close>

theorem get_file_size_B_least:
  "case get_file_size_B n of
     None \<Rightarrow> n \<le> 0
   | Some b \<Rightarrow> 1024 dvd b \<and> n \<le> 8 * b \<and> 8 * (b - 1024) < n"
proof (cases "n \<le> 0")
  case False
  define m where "m = (if n div 8 * 8 \<noteq> n then n div 8 + 1 else n div 8)"
  define k where "k = (if m div 1024 * 1024 \<noteq> m then m div 1024 + 1 else m div 1024)"
  have m: "n \<le> 8 * m" "8 * (m - 1) < n" unfolding m_def by auto
  have k: "m \<le> 1024 * k" "1024 * (k - 1) < m" using m False unfolding k_def by auto
  have "1024 * (k - 1) \<le> m - 1" using k(2) by simp
  then have "8 * (k * 1024 - 1024) < n" using m(2) by (simp add: algebra_simps)
  moreover have "get_file_size_B n = Some (k * 1024)"
    using False by (simp add: get_file_size_B_def Let_def m_def k_def)
  ultimately show ?thesis using m k by simp
qed (simp add: get_file_size_B_def)

lemma div_times_le_int: "0 < (b :: int) \<Longrightarrow> a div b * b \<le> a"
  using pos_mod_sign[of b a] by (simp add: minus_mod_eq_div_mult[symmetric])

text \<open>The work partition: the number of chunks is the number of whole blocks of the
  minimal size (at least one, at most the limit if there is one); it is accepted exactly
  when the rest is smaller than a block, and then the chunks and one partial chunk cover
  everything and a block is not smaller than asked for unless there is just one.\<close>

theorem partition_work_spec:
  assumes "0 < n" and "0 < min_size" and "n div min_size \<le> INT_MAX"
    and "chunks = max 1 (n div min_size)"
    and "nc = (if 0 < limit \<and> limit < chunks then limit else chunks)"
  shows "partition_work n min_size limit = (if n mod nc < n div nc then Some (n div nc, nc) else None) \<and>
    1 \<le> nc \<and> n div nc * nc \<le> n \<and> (n mod nc < n div nc \<longrightarrow> n < n div nc * (nc + 1)) \<and>
    (n div nc < min_size \<longrightarrow> nc = 1)"
proof -
  have q: "0 \<le> n div min_size" using assms(1,2) by (simp add: pos_imp_zdiv_nonneg_iff)
  then have i: "to_int32 (n div min_size) = n div min_size" using assms(3) by (simp add: to_int32_id)
  have nc: "1 \<le> nc" using assms(4,5) by auto
  have md: "n - n div nc * nc = n mod nc" by (simp add: minus_div_mult_eq_mod)
  have md': "n = n div nc * nc + n mod nc" by simp
  have nn: "0 \<le> n mod nc" using nc by simp
  have c1: "(if n div min_size = 0 then 1 else n div min_size) = chunks" using assms(4) q by auto
  have c2: "(if limit > 0 \<and> chunks > limit then limit else chunks) = nc" using assms(5) by simp
  have c3: "c_div n nc = n div nc" using assms(1) nc by simp
  have run: "partition_work n min_size limit =
      (if n mod nc \<ge> n div nc then None
       else if n div nc * (nc + 1) < n then None else Some (n div nc, nc))"
    unfolding partition_work_def i Let_def c1 c2 c3 md using assms(1,2) by simp
  have cover: "n < n div nc * (nc + 1)" if "n mod nc < n div nc"
  proof -
    have "n div nc * (nc + 1) = n div nc * nc + n div nc" by (simp add: distrib_left)
    then show ?thesis using md' that by linarith
  qed
  have one: "nc = 1" if "n div nc < min_size"
  proof (rule ccontr)
    assume "nc \<noteq> 1"
    then have "nc \<le> n div min_size" using assms(4,5) nc by (auto split: if_splits)
    then have "nc * min_size \<le> n div min_size * min_size" using assms(2) by simp
    also have "\<dots> \<le> n" using assms(2) by (simp add: div_times_le_int)
    finally have "min_size * nc div nc \<le> n div nc" using nc by (intro zdiv_mono1) (simp_all add: mult.commute)
    then show False using that nc by simp
  qed
  have "n div nc * nc \<le> n" using md nn by linarith
  moreover have "partition_work n min_size limit = (if n mod nc < n div nc then Some (n div nc, nc) else None)"
    unfolding run using cover by fastforce
  ultimately show ?thesis using nc cover one by (intro conjI impI) simp_all
qed

theorem partition_work_spec_witness: "partition_work 1000 300 8 = Some (333, 3)"
proof -
  have "partition_work 1000 300 8 = (if 1000 mod 3 < 1000 div (3 :: int) then Some (1000 div 3, 3) else None)"
    by (rule partition_work_spec[where chunks = 3, THEN conjunct1]) simp_all
  then show ?thesis by simp
qed

subsection \<open>Primality\<close>

text \<open>\<open>is_prime\<close> stops its trial division one short of the square root: the square of a
  number without smaller divisors is accepted.\<close>

theorem is_prime_accepts_squares:
  assumes "1 < p" and "\<forall>j \<in> {2..<p}. \<not> j dvd p * p" and "isqrt (p * p) = p"
  shows "is_prime (p * p)"
proof -
  have "2 \<le> j \<and> j < p \<Longrightarrow> p * p mod j \<noteq> 0" for j
    using assms(2) by (auto simp: dvd_eq_mod_eq_0)
  then have "find_from (\<lambda>j. p * p mod j = 0) 2 (isqrt (p * p)) = None"
    unfolding assms(3) by (intro find_from_None[THEN iffD2] allI impI) simp
  moreover have "p * p \<noteq> 0" using assms(1) by simp
  ultimately show ?thesis by (simp add: is_prime_def)
qed

theorem is_prime_accepts_squares_witness: "is_prime (5 * 5)"
proof (rule is_prime_accepts_squares)
  show "\<forall>j \<in> {2..<5}. \<not> j dvd 5 * (5 :: nat)" by (simp add: atLeastLessThan_nat_numeral atLeastLessThan_empty)
  show "isqrt (5 * 5) = 5" by code_simp
qed simp

end
