(* ===== verification/Approx_Frequent.thy ===== *)
theory Approx_Frequent
  imports Q_Prelude "HOL-Library.Multiset" "HOL-Library.Log_Nat"
begin

text \<open>
  The approximate frequent-element counter of \<open>approxalgos/ApproxFrequent\<close>:
  \<open>sorted_array_to_id_freq.c\<close>, \<open>update_counter.c\<close> and \<open>approx_frequent.c\<close>.  The parallel
  arrays of ids and frequencies are one list of pairs that holds the active part of
  the counters.  Frequencies are values of the C type \<open>int\<close>, although the length of the input is
  a \<open>long long\<close>: every increment, sum and decrement wraps around (\<open>to_int32\<close>), and the theorems say up
  to which length of the input this does not happen.  Sorting a packet (the library call of the \<open>IPP\<close>
  build, \<open>qsort_asc_I4\<close> otherwise) is the parameter \<open>srt\<close>.
\<close>

type_synonym counter = "(int \<times> int) list"

subsection \<open>sorted\_array\_to\_id\_freq.c\<close>

text \<open>The loop over neighbouring elements with the running \<open>temp_freq\<close>; an empty packet would
  make the code read a value that is not there.\<close>

fun id_freq_loop :: "int \<Rightarrow> int list \<Rightarrow> counter option" where
  "id_freq_loop temp_freq [] = None"
| "id_freq_loop temp_freq [b] = Some [(b, temp_freq)]"
| "id_freq_loop temp_freq (b # b' # buf) =
     (if b = b' then id_freq_loop (to_int32 (temp_freq + 1)) (b' # buf)
      else map_option (Cons (b, temp_freq)) (id_freq_loop 1 (b' # buf)))"

definition sorted_array_to_id_freq :: "int list \<Rightarrow> counter option" where
  "sorted_array_to_id_freq buf = id_freq_loop 1 buf"

subsection \<open>update\_counter.c\<close>

text \<open>The first loop merges the counters with the packet.\<close>

fun merge_cntr :: "counter \<Rightarrow> counter \<Rightarrow> counter" where
  "merge_cntr ((ci, cf) # cs) ((bi, bf) # bs) =
     (if ci < bi then (ci, cf) # merge_cntr cs ((bi, bf) # bs)
      else if bi < ci then (bi, bf) # merge_cntr ((ci, cf) # cs) bs
      else (bi, to_int32 (bf + cf)) # merge_cntr cs bs)"
| "merge_cntr cs [] = cs"
| "merge_cntr [] bs = bs"

text \<open>One round of the second loop: decrement all counters, keep the positive ones.\<close>

definition drop_round :: "counter \<Rightarrow> counter" where
  "drop_round temp = filter (\<lambda>(i, f). f > 0) (map (\<lambda>(i, f). (i, to_int32 (f - 1))) temp)"

text \<open>Each round lowers a kept frequency by one, except that the smallest \<open>int\<close> wraps to the largest:
  counted as the unsigned number \<open>f - 1\<close> a frequency always goes down.\<close>

definition rounds_left :: "int \<Rightarrow> nat" where
  "rounds_left f = Suc (nat ((f - 1 + 2147483648) mod 4294967296))"

abbreviation weight :: "counter \<Rightarrow> nat" where
  "weight xs \<equiv> sum_list (map (\<lambda>p. rounds_left (snd p)) xs)"

lemma rounds_left_decrement: "to_int32 (f - 1) > 0 \<Longrightarrow> rounds_left (to_int32 (f - 1)) < rounds_left f"
proof -
  assume pos: "to_int32 (f - 1) > 0"
  define u where "u = (f - 1 + 2147483648) mod 4294967296"
  have "to_int32 (f - 1) = u - 2147483648" by (simp add: to_int32_def u_def)
  moreover have "u < 4294967296" by (simp add: u_def)
  ultimately show ?thesis using pos unfolding rounds_left_def u_def[symmetric] by simp
qed

lemma drop_round_weight: "xs \<noteq> [] \<Longrightarrow> weight (drop_round xs) < weight xs"
proof -
  have "weight (drop_round xs) + length xs \<le> weight xs"
  proof (induction xs)
    case (Cons p xs)
    have "1 \<le> rounds_left (snd p)" by (simp add: rounds_left_def)
    then show ?case using Cons rounds_left_decrement[of "snd p"] by (cases p) (auto simp: drop_round_def)
  qed (simp add: drop_round_def)
  then show "xs \<noteq> [] \<Longrightarrow> weight (drop_round xs) < weight xs" by (cases xs) auto
qed

function drop_loop :: "nat \<Rightarrow> counter \<Rightarrow> counter" where
  "drop_loop cntr_siz temp =
     (if length temp > cntr_siz then drop_loop cntr_siz (drop_round temp) else temp)"
  by auto
termination by (relation "measure (\<lambda>(n, xs). weight xs)") (auto intro!: drop_round_weight)

declare drop_loop.simps [simp del]

definition update_counter :: "nat \<Rightarrow> counter \<Rightarrow> counter \<Rightarrow> counter" where
  "update_counter cntr_siz cntr bf = drop_loop cntr_siz (merge_cntr cntr bf)"

subsection \<open>approx\_frequent.c\<close>

text \<open>Rounding of a positive number to the nearest \<open>double\<close>: a 53 bit mantissa, ties to even.
  The numbers that occur here are far from the limits of the exponent.\<close>

definition pow2 :: "int \<Rightarrow> rat" where
  "pow2 e = 2 powi e"

definition round_even :: "rat \<Rightarrow> int" where
  "round_even m = (let k = \<lfloor>m\<rfloor>; r = m - of_int k
     in if r < 1 / 2 then k else if r > 1 / 2 then k + 1 else if even k then k else k + 1)"

definition double :: "rat \<Rightarrow> rat" where
  "double x = (let (n, d) = quotient_of x; e = bitlen n - bitlen d - 53;
       e = (if x / pow2 e \<ge> 2 ^ 53 then e + 1 else e)
     in of_int (round_even (x / pow2 e)) * pow2 e)"

definition MAX_SZ :: int where "MAX_SZ = 200 * 1048576"

text \<open>The number of counters \<open>(long long)(1/eps)+1\<close> with \<open>eps = (double) err/eff_siz\<close>.\<close>

definition eps_of :: "int \<Rightarrow> int \<Rightarrow> rat" where
  "eps_of err eff_siz = double (double (of_int err) / double (of_int eff_siz))"

definition cntr_siz_of :: "rat \<Rightarrow> int" where
  "cntr_siz_of eps = (let c = \<lfloor>double (1 / eps)\<rfloor> + 1 in if c < 10000 then 10000 else c)"

text \<open>The loop that halves \<open>NUM_THREADS\<close> until the packets fit; \<open>None\<close> when it does not end.\<close>

fun halve_threads :: "int \<Rightarrow> nat \<Rightarrow> nat option" where
  "halve_threads cntr_siz nt =
     (if cntr_siz * (int nt + 2 + 6) > MAX_SZ
      then (if nt = 0 then None else halve_threads cntr_siz (nt div 2))
      else Some nt)"

declare halve_threads.simps [simp del]

text \<open>Filling the packets of one block.  Without a selection the packets are consecutive
  pieces of the input; the input is the list of values from \<open>current_loc_in_x\<close> on.\<close>

definition block_all :: "nat \<Rightarrow> nat \<Rightarrow> int list \<Rightarrow> int list list \<times> int list" where
  "block_all nt cs xs = (let packets = map (\<lambda>tid. take cs (drop (tid * cs) xs)) [0..<nt]
     in (packets, drop (sum_list (map length packets)) xs))"

text \<open>With a selection, elements with a zero in \<open>cfld\<close> are skipped; \<open>filled\<close> holds the complete
  packets, \<open>cur\<close> the one being filled.\<close>

fun block_sel :: "nat \<Rightarrow> nat \<Rightarrow> int list list \<Rightarrow> int list \<Rightarrow> (int \<times> int) list \<Rightarrow>
    int list list \<times> (int \<times> int) list" where
  "block_sel nt cs filled cur [] = (filled @ [cur], [])"
| "block_sel nt cs filled cur ((v, c) # rest) =
     (if \<not> length filled < nt then (filled @ [cur], (v, c) # rest)
      else if c = 0 then block_sel nt cs filled cur rest
      else if length (cur @ [v]) = cs then block_sel nt cs (filled @ [cur @ [v]]) [] rest
      else block_sel nt cs filled (cur @ [v]) rest)"

text \<open>Steps (1) to (3) for the packets of a block; the first empty packet ends the loop.\<close>

fun process_packets :: "(int list \<Rightarrow> int list) \<Rightarrow> nat \<Rightarrow> counter \<Rightarrow> int list list \<Rightarrow> counter option" where
  "process_packets srt cs cntr [] = Some cntr"
| "process_packets srt cs cntr (p # ps) =
     (if p = [] then Some cntr
      else (case sorted_array_to_id_freq (srt p) of
              None \<Rightarrow> None
            | Some bf \<Rightarrow> process_packets srt cs (update_counter cs cntr bf) ps))"

text \<open>The loop over the blocks; a block that consumes nothing would repeat for ever, which
  is \<open>None\<close>.\<close>

function block_loop :: "('a list \<Rightarrow> int list list \<times> 'a list) \<Rightarrow> (counter \<Rightarrow> int list list \<Rightarrow> counter option) \<Rightarrow>
    counter \<Rightarrow> 'a list \<Rightarrow> counter option" where
  "block_loop block process cntr xs =
     (if xs = [] then Some cntr
      else (case block xs of (packets, rest) \<Rightarrow>
        if length rest < length xs
        then (case process cntr packets of
                None \<Rightarrow> None
              | Some cntr' \<Rightarrow> block_loop block process cntr' rest)
        else None))"
  by pat_completeness auto
termination by (relation "measure (\<lambda>(b, p, c, xs). length xs)") auto

declare block_loop.simps [simp del]

text \<open>The main loop: with no selection, or one that selects everything, the first way of filling
  the packets is used.\<close>

definition count_blocks ::
  "(int list \<Rightarrow> int list) \<Rightarrow> int \<Rightarrow> nat \<Rightarrow> nat \<Rightarrow> int list \<Rightarrow> int list option \<Rightarrow> counter option" where
  "count_blocks srt eff_siz nt cs x cfld = (case cfld of
       Some c \<Rightarrow> if eff_siz = int (length x)
                 then block_loop (block_all nt cs) (process_packets srt cs) [] x
                 else block_loop (block_sel nt cs [] []) (process_packets srt cs) [] (zip x c)
     | None \<Rightarrow> block_loop (block_all nt cs) (process_packets srt cs) [] x)"

text \<open>\<open>approx_frequent\<close>: status, \<open>estimate_is_good\<close> and the written part of \<open>y\<close> and \<open>f\<close>.  All
  pointers but \<open>cfld\<close> are assumed to be given.\<close>

definition approx_frequent ::
  "(int list \<Rightarrow> int list) \<Rightarrow> int list \<Rightarrow> int list option \<Rightarrow> int \<Rightarrow> int \<Rightarrow> int \<Rightarrow> (int \<times> int \<times> counter) option" where
  "approx_frequent srt x cfld min_freq err out_siz =
     (if int (length x) \<le> 0 \<or> err \<le> 0 \<or> min_freq \<le> 0 \<or> min_freq - err \<le> 0 then Some (-1, -1, [])
      else (let eff_siz = (case cfld of None \<Rightarrow> int (length x)
                           | Some c \<Rightarrow> int (length (filter (\<lambda>v. v \<noteq> 0) (take (length x) c))))
      in if cfld \<noteq> None \<and> eff_siz = 0 then Some (-1, -1, [])
      else (let eps = eps_of err eff_siz
      in if eps < pow2 (-50) then Some (0, -2, [])
      else if out_siz < c_div eff_siz (min_freq - err) then Some (-1, -1, [])
      else (let cntr_siz = cntr_siz_of eps
      in if cntr_siz * (1 + 2 + 6) > MAX_SZ then Some (0, -2, [])
      else (case halve_threads cntr_siz 128 of
          None \<Rightarrow> None
        | Some nt \<Rightarrow>
            (case count_blocks srt eff_siz nt (nat cntr_siz) x cfld of
               None \<Rightarrow> None
             | Some cntr \<Rightarrow> Some (0, 1, filter (\<lambda>(i, f). f \<ge> min_freq - err) cntr)))))))"

end
