(* ===== verification/Approx_Frequent_Proofs.thy ===== *)
theory Approx_Frequent_Proofs
  imports Approx_Frequent
begin

text \<open>
  The guarantees of the frequent-element counter.  \<open>est\<close> reads a counter list as a
  function from ids to estimates.  The invariant \<open>tracks\<close> relates the counters to the
  elements read: estimates never exceed the true counts, fall short of them by at most
  the number \<open>d\<close> of decrement rounds, and every round has paid for itself by removing one
  unit from more than \<open>cntr_siz\<close> counters.
\<close>

subsection \<open>Estimates\<close>

definition est :: "counter \<Rightarrow> int \<Rightarrow> int" where
  "est xs i = sum_list (map (\<lambda>p. if fst p = i then snd p else 0) xs)"

definition mass :: "counter \<Rightarrow> int" where
  "mass xs = sum_list (map snd xs)"

definition occ :: "int list \<Rightarrow> int \<Rightarrow> int" where
  "occ xs i = int (count_list xs i)"

definition good_counter :: "counter \<Rightarrow> bool" where
  "good_counter xs \<longleftrightarrow> sorted_wrt (<) (map fst xs) \<and> (\<forall>p \<in> set xs. 0 < snd p \<and> snd p \<le> INT_MAX)"

lemma good_Nil [simp]: "good_counter []"
  by (simp add: good_counter_def)

lemma good_Cons: "good_counter (p # xs) \<longleftrightarrow> 0 < snd p \<and> snd p \<le> INT_MAX \<and> (\<forall>k \<in> fst ` set xs. fst p < k) \<and> good_counter xs"
  by (auto simp: good_counter_def)

lemma est_simps [simp]:
  "est [] i = 0" "est (p # xs) i = (if fst p = i then snd p else 0) + est xs i"
  "mass [] = 0" "mass (p # xs) = snd p + mass xs"
  by (simp_all add: est_def mass_def)

lemma occ_simps [simp]: "occ [] i = 0" "occ (x # xs) i = (if x = i then 1 else 0) + occ xs i"
  "occ (xs @ ys) i = occ xs i + occ ys i"
  by (simp_all add: occ_def count_list_append)

lemma est_absent: "i \<notin> fst ` set xs \<Longrightarrow> est xs i = 0"
  by (induction xs) auto

lemma est_member:
  assumes "sorted_wrt (<) (map fst xs)" and "(i, f) \<in> set xs"
  shows "est xs i = f"
  using assms
proof (induction xs)
  case (Cons p xs)
  show ?case
  proof (cases "p = (i, f)")
    case True
    then have "i \<notin> fst ` set xs" using Cons.prems(1) by auto
    then show ?thesis using True est_absent by auto
  next
    case False
    then have m: "(i, f) \<in> set xs" using Cons.prems(2) by auto
    then have "fst p \<noteq> i" using Cons.prems(1) by force
    then show ?thesis using m Cons by simp
  qed
qed simp

lemma est_nonneg: "\<forall>p \<in> set xs. snd p > 0 \<Longrightarrow> est xs i \<ge> 0"
  by (induction xs) auto

lemma est_pos_member:
  assumes "good_counter xs" and "est xs i > 0"
  shows "(i, est xs i) \<in> set xs"
proof -
  have "i \<in> fst ` set xs" using assms(2) est_absent[of i xs] by fastforce
  then obtain f where "(i, f) \<in> set xs" by auto
  then show ?thesis using est_member[of xs i f] assms(1) by (simp add: good_counter_def)
qed

lemma mass_nonneg: "\<forall>p \<in> set xs. snd p > 0 \<Longrightarrow> 0 \<le> mass xs"
  by (induction xs) auto

lemma freq_le_mass: "\<forall>p \<in> set xs. snd p > 0 \<Longrightarrow> p \<in> set xs \<Longrightarrow> snd p \<le> mass xs"
  by (induction xs) (auto dest: mass_nonneg)

lemma good_pos: "good_counter xs \<Longrightarrow> \<forall>p \<in> set xs. snd p > 0"
  by (simp add: good_counter_def)

lemma est_le_mass: "\<forall>p \<in> set xs. snd p > 0 \<Longrightarrow> est xs i \<le> mass xs"
  by (induction xs) auto

subsection \<open>A packet as a counter\<close>

lemma id_freq_loop_counts:
  assumes "buf \<noteq> []" and "sorted buf" and "tf > 0" and "tf + int (length buf) \<le> 2147483648"
  shows "\<exists>bf. id_freq_loop tf buf = Some bf \<and>
     (\<forall>i. est bf i = occ buf i + (if i = hd buf then tf - 1 else 0)) \<and>
     mass bf = int (length buf) + tf - 1 \<and> good_counter bf \<and> bf \<noteq> [] \<and> fst (hd bf) = hd buf"
  using assms
proof (induction tf buf rule: id_freq_loop.induct)
  case (2 tf b)
  then show ?case by (auto simp: good_counter_def)
next
  case (3 tf b b' buf)
  show ?case
  proof (cases "b = b'")
    case True
    have t: "to_int32 (tf + 1) = tf + 1" using 3(5,6) by (simp add: to_int32_id)
    then show ?thesis using 3 True by auto
  next
    case False
    have "\<exists>bf. id_freq_loop 1 (b' # buf) = Some bf \<and>
        (\<forall>i. est bf i = occ (b' # buf) i + (if i = hd (b' # buf) then 1 - 1 else 0)) \<and>
        mass bf = int (length (b' # buf)) + 1 - 1 \<and> good_counter bf \<and> bf \<noteq> [] \<and> fst (hd bf) = hd (b' # buf)"
      using 3(4-6) by (intro 3(2)[OF False]) simp_all
    then obtain bf where bf: "id_freq_loop 1 (b' # buf) = Some bf"
      "\<forall>i. est bf i = occ (b' # buf) i" "mass bf = int (length (b' # buf))" "good_counter bf"
      "bf \<noteq> []" "fst (hd bf) = b'"
      by (elim exE conjE) (simp del: occ_simps)
    have lt: "b < b'" using False 3 by simp
    then have "\<forall>k \<in> fst ` set bf. b < k" using bf(4-6) by (cases bf) (auto simp: good_Cons)
    then have "good_counter ((b, tf) # bf)" using bf(4) 3(5,6) by (simp add: good_Cons)
    moreover have "id_freq_loop tf (b # b' # buf) = Some ((b, tf) # bf)" using False bf(1) by simp
    moreover have "est ((b, tf) # bf) i = occ (b # b' # buf) i + (if i = hd (b # b' # buf) then tf - 1 else 0)" for i
    proof (cases "i = b")
      case True
      have "b \<notin> set (b' # buf)" using lt 3(4) by auto
      then have "occ (b' # buf) b = 0" by (simp only: occ_def count_list_0_iff) simp
      then show ?thesis unfolding True est_simps occ_simps(2)[of b] using bf(2) by simp
    next
      case i: False
      then show ?thesis unfolding est_simps occ_simps(2)[of b] using bf(2) by simp
    qed
    moreover have "mass ((b, tf) # bf) = int (length (b # b' # buf)) + tf - 1" using bf(3) by simp
    ultimately show ?thesis by (intro exI[of _ "(b, tf) # bf"]) (simp only: list.sel fst_conv, simp)
  qed
qed simp

lemma id_freq_counts:
  assumes "p \<noteq> []" and "sorted p" and "int (length p) \<le> INT_MAX"
  shows "\<exists>bf. sorted_array_to_id_freq p = Some bf \<and> (\<forall>i. est bf i = occ p i) \<and>
     mass bf = int (length p) \<and> good_counter bf"
  using id_freq_loop_counts[OF assms(1,2), of 1] assms(3) by (auto simp: sorted_array_to_id_freq_def)

subsection \<open>Merging\<close>

lemma merge_sums:
  assumes "\<forall>p \<in> set a. snd p > 0" and "\<forall>p \<in> set b. snd p > 0" and "mass a + mass b \<le> INT_MAX"
  shows "est (merge_cntr a b) i = est a i + est b i \<and> mass (merge_cntr a b) = mass a + mass b \<and>
    (\<forall>p \<in> set (merge_cntr a b). snd p > 0)"
  using assms
proof (induction a b rule: merge_cntr.induct)
  case (1 ci cf cs bi bf bs)
  have m: "0 \<le> mass cs" "0 \<le> mass bs" using 1(4,5) by (auto intro: mass_nonneg)
  then have t: "to_int32 (bf + cf) = bf + cf" using 1(4-6) by (simp add: to_int32_id)
  show ?case
  proof (cases ci bi rule: linorder_cases)
    case less
    then show ?thesis using 1(1)[OF less] 1(4-6) by simp
  next
    case equal
    then have "\<not> ci < bi" "\<not> bi < ci" by simp_all
    from 1(3)[OF this] show ?thesis using equal t 1(4-6) by simp
  next
    case greater
    then have "\<not> ci < bi" by simp
    from 1(2)[OF this greater] show ?thesis using greater 1(4-6) by simp
  qed
qed auto

lemma merge_keys: "fst ` set (merge_cntr a b) = fst ` set a \<union> fst ` set b"
  by (induction a b rule: merge_cntr.induct) auto

lemma merge_sorted:
  "sorted_wrt (<) (map fst a) \<Longrightarrow> sorted_wrt (<) (map fst b) \<Longrightarrow> sorted_wrt (<) (map fst (merge_cntr a b))"
proof (induction a b rule: merge_cntr.induct)
  case (1 ci cf cs bi bf bs)
  then show ?case
    by (cases ci bi rule: linorder_cases) (force simp: merge_keys)+
qed auto

lemma merge_good:
  assumes "good_counter a" and "good_counter b" and "mass a + mass b \<le> INT_MAX"
  shows "good_counter (merge_cntr a b)"
proof -
  note m = merge_sums[OF good_pos[OF assms(1)] good_pos[OF assms(2)] assms(3)]
  then have "snd p \<le> INT_MAX" if "p \<in> set (merge_cntr a b)" for p
    using freq_le_mass[OF _ that] assms(3) by (metis order_trans)
  then show ?thesis using m merge_sorted assms(1,2) by (simp add: good_counter_def)
qed

subsection \<open>Decrement rounds\<close>

lemma drop_round_Nil [simp]: "drop_round [] = []"
  by (simp add: drop_round_def)

lemma drop_round_Cons [simp]:
  "good_counter ((i, f) # xs) \<Longrightarrow>
   drop_round ((i, f) # xs) = (if f > 1 then [(i, f - 1)] else []) @ drop_round xs"
  by (simp add: drop_round_def good_Cons to_int32_id)

lemma drop_round_keys: "fst ` set (drop_round xs) \<subseteq> fst ` set xs"
  by (force simp: drop_round_def)

lemma drop_round_good: "good_counter xs \<Longrightarrow> good_counter (drop_round xs)"
proof (induction xs)
  case (Cons p xs)
  have "\<forall>k \<in> fst ` set (drop_round xs). fst p < k"
    using Cons.prems drop_round_keys[of xs] unfolding good_Cons by blast
  then show ?case using Cons by (cases p) (auto simp: good_Cons)
qed simp

lemma drop_round_mass: "good_counter xs \<Longrightarrow> mass (drop_round xs) = mass xs - int (length xs)"
proof (induction xs)
  case (Cons p xs)
  then show ?case by (cases p) (auto simp: good_Cons)
qed simp

lemma drop_round_est:
  assumes "good_counter xs"
  shows "est xs i - 1 \<le> est (drop_round xs) i \<and> est (drop_round xs) i \<le> est xs i"
  using assms
proof (induction xs)
  case (Cons p xs)
  then have ih: "est xs i - 1 \<le> est (drop_round xs) i \<and> est (drop_round xs) i \<le> est xs i"
    by (simp add: good_counter_def)
  have "est (drop_round xs) i = 0 \<and> est xs i = 0" if "fst p = i"
  proof -
    have "i \<notin> fst ` set xs" using Cons.prems that by (auto simp: good_Cons)
    then show ?thesis using est_absent drop_round_keys[of xs] by blast
  qed
  then show ?case using ih Cons.prems by (cases p) (auto simp: good_Cons)
qed simp

subsection \<open>The invariant\<close>

definition counts_within :: "nat \<Rightarrow> int list \<Rightarrow> counter \<Rightarrow> int \<Rightarrow> bool" where
  "counts_within n P C d \<longleftrightarrow> good_counter C \<and> d \<ge> 0 \<and>
     (\<forall>i. occ P i - d \<le> est C i \<and> est C i \<le> occ P i) \<and> (int n + 1) * d + mass C \<le> int (length P)"

definition tracks :: "nat \<Rightarrow> int list \<Rightarrow> counter \<Rightarrow> bool" where
  "tracks n P C \<longleftrightarrow> length C \<le> n \<and> (\<exists>d. counts_within n P C d)"

lemma drop_round_within:
  assumes "counts_within n P C d" and "length C > n"
  shows "counts_within n P (drop_round C) (d + 1)"
proof -
  have g: "good_counter C" using assms(1) by (simp add: counts_within_def)
  have "occ P i - (d + 1) \<le> est (drop_round C) i \<and> est (drop_round C) i \<le> occ P i" for i
    using drop_round_est[OF g, of i] assms(1) unfolding counts_within_def by (smt (verit))
  moreover have "(int n + 1) * (d + 1) + mass (drop_round C) \<le> int (length P)"
  proof -
    have "(int n + 1) * (d + 1) = (int n + 1) * d + (int n + 1)" by (simp add: distrib_left)
    then show ?thesis using assms drop_round_mass[OF g] unfolding counts_within_def by linarith
  qed
  ultimately show ?thesis using assms(1) drop_round_good[OF g] by (simp add: counts_within_def)
qed

lemma drop_loop_tracks: "counts_within n P C d \<Longrightarrow> tracks n P (drop_loop n C)"
proof (induction n C arbitrary: d rule: drop_loop.induct)
  case (1 n C)
  show ?case
  proof (cases "length C > n")
    case True
    then show ?thesis using 1 drop_round_within by (metis drop_loop.simps)
  next
    case False
    then show ?thesis using 1 by (auto simp: drop_loop.simps[of n C] tracks_def)
  qed
qed

lemma counts_within_mass: "counts_within n P C d \<Longrightarrow> mass C \<le> int (length P)"
  unfolding counts_within_def by (smt (verit) mult_nonneg_nonneg of_nat_0_le_iff)

lemma update_tracks:
  assumes "tracks n P C" and "good_counter bf" and "\<forall>i. est bf i = occ p i" and "mass bf = int (length p)"
    and "int (length (P @ p)) \<le> INT_MAX"
  shows "tracks n (P @ p) (update_counter n C bf)"
proof -
  obtain d where d: "counts_within n P C d" using assms(1) by (auto simp: tracks_def)
  then have g: "good_counter C" by (simp add: counts_within_def)
  have m: "mass C + mass bf \<le> INT_MAX" using counts_within_mass[OF d] assms(4,5) by simp
  have "counts_within n (P @ p) (merge_cntr C bf) d"
    using d assms(3,4) merge_good[OF g assms(2) m] merge_sums[OF good_pos[OF g] good_pos[OF assms(2)] m]
    unfolding counts_within_def by auto
  then show ?thesis unfolding update_counter_def by (rule drop_loop_tracks)
qed

subsection \<open>Packets and blocks\<close>

text \<open>What the code relies on from the sort.\<close>

definition sorts :: "(int list \<Rightarrow> int list) \<Rightarrow> bool" where
  "sorts srt \<longleftrightarrow> (\<forall>p. sorted (srt p) \<and> mset (srt p) = mset p)"

lemma sorts_occ: "sorts srt \<Longrightarrow> occ (srt p) i = occ p i"
  unfolding sorts_def occ_def by (metis count_mset)

lemma sorts_length: "sorts srt \<Longrightarrow> length (srt p) = length p"
  unfolding sorts_def by (metis size_mset)

lemma process_tracks:
  assumes "sorts srt" and "tracks n P C"
    and "int (length (P @ concat (takeWhile (\<lambda>p. p \<noteq> []) ps))) \<le> INT_MAX"
  shows "\<exists>C'. process_packets srt n C ps = Some C' \<and> tracks n (P @ concat (takeWhile (\<lambda>p. p \<noteq> []) ps)) C'"
  using assms(2,3)
proof (induction ps arbitrary: P C)
  case (Cons p ps)
  show ?case
  proof (cases "p = []")
    case False
    then have "srt p \<noteq> []" "sorted (srt p)" using assms(1) sorts_length[OF assms(1), of p] by (auto simp: sorts_def)
    moreover have "int (length (srt p)) \<le> INT_MAX" "int (length (P @ p)) \<le> INT_MAX"
      using False Cons.prems(2) sorts_length[OF assms(1)] by simp_all
    ultimately obtain bf where bf: "sorted_array_to_id_freq (srt p) = Some bf" "\<forall>i. est bf i = occ p i"
      "mass bf = int (length p)" "good_counter bf"
      using id_freq_counts sorts_occ[OF assms(1)] sorts_length[OF assms(1)] by metis
    have "tracks n (P @ p) (update_counter n C bf)"
      using Cons.prems False by (intro update_tracks bf) simp_all
    then show ?thesis using False bf(1) Cons.prems(2) Cons.IH[of "P @ p"] by simp
  qed (use Cons.prems in simp)
qed simp

text \<open>A source of blocks: cutting a block off a non-empty input makes progress, and the
  packets before the first empty one hold the selected elements of the part cut off.\<close>

locale block_source =
  fixes block :: "'a list \<Rightarrow> int list list \<times> 'a list" and sel :: "'a list \<Rightarrow> int list"
  assumes sel_Nil: "sel [] = []" and sel_append: "sel (xs @ ys) = sel xs @ sel ys"
    and cut: "xs \<noteq> [] \<Longrightarrow> block xs = (ps, rest) \<Longrightarrow> length rest < length xs \<and>
      (\<exists>pre. xs = pre @ rest \<and> sel pre = concat (takeWhile (\<lambda>p. p \<noteq> []) ps))"
begin

lemma loop_tracks:
  assumes "sorts srt" and "tracks n P C" and "int (length (P @ sel xs)) \<le> INT_MAX"
  shows "\<exists>C'. block_loop block (process_packets srt n) C xs = Some C' \<and> tracks n (P @ sel xs) C'"
  using assms(2,3)
proof (induction "length xs" arbitrary: xs P C rule: less_induct)
  case less
  show ?case
  proof (cases "xs = []")
    case True
    then show ?thesis using less.prems by (simp add: block_loop.simps[of _ _ _ "[]"] sel_Nil)
  next
    case False
    obtain ps rest where b: "block xs = (ps, rest)" by fastforce
    obtain pre where pre: "length rest < length xs" "xs = pre @ rest" "sel pre = concat (takeWhile (\<lambda>p. p \<noteq> []) ps)"
      using cut[OF False b] by blast
    have sel: "sel xs = sel pre @ sel rest" unfolding pre(2) by (rule sel_append)
    obtain C1 where C1: "process_packets srt n C ps = Some C1" "tracks n (P @ sel pre) C1"
      using process_tracks[OF assms(1) less.prems(1), of ps] less.prems(2) sel pre(3) by auto
    obtain C' where "block_loop block (process_packets srt n) C1 rest = Some C'" "tracks n ((P @ sel pre) @ sel rest) C'"
      using less.hyps[OF pre(1) C1(2)] less.prems(2) sel by auto
    moreover have "block_loop block (process_packets srt n) C xs = block_loop block (process_packets srt n) C1 rest"
      using False b pre(1) C1(1) by (simp add: block_loop.simps[of block _ C xs])
    ultimately show ?thesis using sel by simp
  qed
qed

end

lemma concat_takeWhile:
  assumes "\<And>i j. i < j \<Longrightarrow> j < length ps \<Longrightarrow> ps ! i = [] \<Longrightarrow> ps ! j = []"
  shows "concat (takeWhile (\<lambda>p. p \<noteq> []) ps) = concat ps"
  using assms
proof (induction ps)
  case (Cons p ps)
  show ?case
  proof (cases "p = []")
    case True
    then have "ps ! j = []" if "j < length ps" for j using Cons.prems[of 0 "Suc j"] that by simp
    then have "concat ps = []" by (auto simp: in_set_conv_nth)
    then show ?thesis using True by simp
  next
    case False
    have "ps ! j = []" if "i < j" "j < length ps" "ps ! i = []" for i j
      using Cons.prems[of "Suc i" "Suc j"] that by simp
    then show ?thesis using False Cons.IH by simp
  qed
qed simp

lemma chunks_concat:
  "concat (map (\<lambda>tid. take cs (drop (tid * cs) xs)) [0..<nt]) = take (nt * cs) xs"
proof (induction nt)
  case (Suc nt)
  have "take (Suc nt * cs) xs = take (nt * cs) xs @ take cs (drop (nt * cs) xs)"
    using take_add[of "nt * cs" cs xs] by (simp add: add.commute)
  then show ?case using Suc by simp
qed simp

interpretation all_blocks: block_source "block_all (Suc nt) (Suc cs)" "\<lambda>xs. xs" for nt cs
proof
  fix xs ps rest assume xs: "(xs :: int list) \<noteq> []" and b: "block_all (Suc nt) (Suc cs) xs = (ps, rest)"
  let ?ps = "map (\<lambda>tid. take (Suc cs) (drop (tid * Suc cs) xs)) [0..<Suc nt]"
  have c: "concat ?ps = take (Suc nt * Suc cs) xs" by (rule chunks_concat)
  have ps: "ps = ?ps" "rest = drop (length (concat ?ps)) xs"
    using b unfolding block_all_def Let_def length_concat prod.inject by metis+
  have "?ps ! j = []" if "i < j" "j < length ?ps" "?ps ! i = []" for i j
  proof -
    have "length xs \<le> i * Suc cs" using that by (simp del: upt_Suc)
    also have "\<dots> \<le> j * Suc cs" using that(1) by (intro mult_right_mono) simp_all
    finally show ?thesis using that(2) by (simp del: upt_Suc)
  qed
  then have "concat (takeWhile (\<lambda>p. p \<noteq> []) ps) = take (Suc nt * Suc cs) xs"
    unfolding ps(1) c[symmetric] by (intro concat_takeWhile) blast
  moreover have "rest = drop (Suc nt * Suc cs) xs" unfolding ps(2) c by (simp add: min_def)
  moreover have "length (drop (Suc nt * Suc cs) xs) < length xs" using xs by (cases xs) simp_all
  ultimately show "length rest < length xs \<and> (\<exists>pre. xs = pre @ rest \<and> pre = concat (takeWhile (\<lambda>p. p \<noteq> []) ps))"
    by (metis append_take_drop_id)
qed simp_all

text \<open>The elements with a non-zero selection.\<close>

definition chosen :: "(int \<times> int) list \<Rightarrow> int list" where
  "chosen xs = map fst (filter (\<lambda>(v, c). c \<noteq> 0) xs)"

definition cut_at :: "int list list \<Rightarrow> int list \<Rightarrow> (int \<times> int) list \<Rightarrow> int list list \<Rightarrow> (int \<times> int) list \<Rightarrow>
    (int \<times> int) list \<Rightarrow> bool" where
  "cut_at filled cur xs ps rest pre \<longleftrightarrow> xs = pre @ rest \<and> ps \<noteq> [] \<and> (\<forall>q \<in> set (butlast ps). q \<noteq> []) \<and>
     concat ps = concat filled @ cur @ chosen pre"

lemma cut_at_Cons:
  "cut_at filled (cur @ (if c \<noteq> 0 then [v] else [])) xs ps rest pre \<Longrightarrow>
   cut_at filled cur ((v, c) # xs) ps rest ((v, c) # pre)"
  by (auto simp: cut_at_def chosen_def)

lemma cut_at_flush:
  "cut_at (filled @ [cur]) [] xs ps rest pre \<Longrightarrow> cut_at filled cur xs ps rest pre"
  by (simp add: cut_at_def)

lemma block_sel_cut:
  assumes "block_sel nt (Suc cs) filled cur xs = (ps, rest)" and "\<forall>p \<in> set filled. p \<noteq> []"
  shows "\<exists>pre. cut_at filled cur xs ps rest pre \<and> (length filled < nt \<and> xs \<noteq> [] \<longrightarrow> pre \<noteq> [])"
  using assms
proof (induction nt "Suc cs" filled cur xs rule: block_sel.induct)
  case (1 nt filled cur)
  then show ?case by (auto simp: chosen_def cut_at_def)
next
  case (2 nt filled cur v c rest')
  have intro: ?case if "cut_at filled cur ((v, c) # rest') ps rest ((v, c) # pre)" for pre
    using that by blast
  consider (full) "\<not> length filled < nt" | (skip) "length filled < nt" "c = 0"
    | (flush) "length filled < nt" "c \<noteq> 0" "length (cur @ [v]) = Suc cs"
    | (add) "length filled < nt" "c \<noteq> 0" "length (cur @ [v]) \<noteq> Suc cs" by blast
  then show ?case
  proof cases
    case full
    then show ?thesis using 2(4,5) by (auto simp: chosen_def cut_at_def)
  next
    case skip
    then have "block_sel nt (Suc cs) filled cur rest' = (ps, rest)" using 2(4) by simp
    then obtain pre where "cut_at filled cur rest' ps rest pre"
      using 2(1)[OF _ skip(2) _ 2(5)] skip(1) by blast
    then show ?thesis using skip(2) by (intro intro cut_at_Cons) simp
  next
    case flush
    then have "block_sel nt (Suc cs) (filled @ [cur @ [v]]) [] rest' = (ps, rest)" using 2(4) by simp
    moreover have "\<forall>p \<in> set (filled @ [cur @ [v]]). p \<noteq> []" using 2(5) by simp
    ultimately obtain pre where "cut_at (filled @ [cur @ [v]]) [] rest' ps rest pre"
      using 2(2)[OF _ flush(2,3)] flush(1) by blast
    from cut_at_flush[OF this] show ?thesis using flush(2) by (intro intro cut_at_Cons) simp
  next
    case add
    then have "block_sel nt (Suc cs) filled (cur @ [v]) rest' = (ps, rest)" using 2(4) by simp
    then obtain pre where "cut_at filled (cur @ [v]) rest' ps rest pre"
      using 2(3)[OF _ add(2,3) _ 2(5)] add(1) by blast
    then show ?thesis using add(2) by (intro intro cut_at_Cons) simp
  qed
qed

interpretation sel_blocks: block_source "block_sel (Suc nt) (Suc cs) [] []" chosen for nt cs
proof
  fix xs ps rest assume xs: "xs \<noteq> []" and b: "block_sel (Suc nt) (Suc cs) [] [] xs = (ps, rest)"
  obtain pre where p: "cut_at [] [] xs ps rest pre" "pre \<noteq> []" using block_sel_cut[OF b] xs by auto
  then have q: "xs = pre @ rest" "ps = butlast ps @ [last ps]" "\<forall>q \<in> set (butlast ps). q \<noteq> []" "concat ps = chosen pre"
    by (simp_all add: cut_at_def)
  have "concat (takeWhile (\<lambda>p. p \<noteq> []) (butlast ps @ [last ps])) = concat (butlast ps @ [last ps])"
    using q(3) by (simp add: takeWhile_append)
  then have "chosen pre = concat (takeWhile (\<lambda>p. p \<noteq> []) ps)" unfolding q(2)[symmetric] q(4) by (rule sym)
  then show "length rest < length xs \<and> (\<exists>pre. xs = pre @ rest \<and> chosen pre = concat (takeWhile (\<lambda>p. p \<noteq> []) ps))"
    using q(1) p(2) by auto
qed (auto simp: chosen_def)

subsection \<open>Rounding to double\<close>

lemma pow2_pos [simp]: "pow2 e > 0"
  by (simp add: pow2_def)

lemma pow2_nz [simp]: "pow2 e \<noteq> 0"
  using pow2_pos[of e] by linarith

lemma round_even_close: "\<bar>of_int (round_even m) - m\<bar> \<le> 1 / 2"
proof -
  have "of_int \<lfloor>m\<rfloor> \<le> m" "m < of_int \<lfloor>m\<rfloor> + 1" by linarith+
  then show ?thesis by (auto simp: round_even_def Let_def)
qed

lemma pow2_add: "pow2 (a + b) = pow2 a * pow2 b"
  by (simp add: pow2_def power_int_add)

lemma pow2_nat: "0 \<le> e \<Longrightarrow> pow2 e = of_int (2 ^ nat e)"
  by (simp add: pow2_def power_int_def)

lemma bitlen_pow2: "0 < n \<Longrightarrow> pow2 (bitlen n - 1) \<le> of_int n \<and> of_int n < pow2 (bitlen n)"
proof -
  assume n: "0 < n"
  then have "1 \<le> bitlen n" using bitlen_ge_iff_power[of 1 n] by simp
  then show ?thesis
    using bitlen_bounds[OF n] by (simp only: pow2_nat of_int_le_iff of_int_less_iff)
qed

text \<open>The relative error of one rounding.\<close>

lemma double_close:
  assumes "x > 0"
  shows "\<bar>double x - x\<bar> \<le> x / 2 ^ 53"
proof -
  obtain n d where q: "quotient_of x = (n, d)" by fastforce
  have d: "d > 0" using quotient_of_denom_pos[OF q] .
  have x: "x = of_int n / of_int d" using quotient_of_div[OF q] .
  then have n: "n > 0" using assms d by (simp add: zero_less_divide_iff)
  define e where "e = bitlen n - bitlen d - 53"
  define e' where "e' = (if x / pow2 e \<ge> 2 ^ 53 then e + 1 else e)"
  have "pow2 (52 + e) * of_int d \<le> pow2 (52 + e) * pow2 (bitlen d)"
    using bitlen_pow2[OF d] by (intro mult_left_mono) (simp_all add: less_imp_le)
  also have "\<dots> = pow2 (bitlen n - 1)" by (simp add: e_def flip: pow2_add)
  also have "\<dots> \<le> of_int n" using bitlen_pow2[OF n] by simp
  finally have "pow2 (52 + e) \<le> x" using d by (simp add: x pos_le_divide_eq)
  then have "2 ^ 52 \<le> x / pow2 e" by (simp add: pow2_add pos_le_divide_eq) (simp add: pow2_def)
  moreover have "2 ^ 52 \<le> x / pow2 (e + 1)" if "2 ^ 53 \<le> x / pow2 e"
    using that by (simp add: pow2_add pos_le_divide_eq) (simp add: pow2_def)
  ultimately have big: "2 ^ 52 \<le> x / pow2 e'" by (simp add: e'_def)
  let ?m = "x / pow2 e'"
  have "double x = of_int (round_even ?m) * pow2 e'"
    by (simp add: double_def q e_def e'_def Let_def)
  moreover have "?m * pow2 e' = x" using pow2_pos[of e'] by simp
  ultimately have "double x - x = (of_int (round_even ?m) - ?m) * pow2 e'" by (simp add: left_diff_distrib)
  then have "\<bar>double x - x\<bar> = \<bar>of_int (round_even ?m) - ?m\<bar> * pow2 e'"
    by (simp add: abs_mult abs_of_pos[OF pow2_pos])
  also have "\<dots> \<le> 1 / 2 * pow2 e'" using round_even_close by (intro mult_right_mono) (simp_all add: less_imp_le)
  also have "\<dots> \<le> x / 2 ^ 53" using big by (simp add: pos_le_divide_eq)
  finally show ?thesis .
qed

lemma double_bounds:
  assumes "x > 0"
  shows "x * (1 - 1 / 2 ^ 53) \<le> double x" and "double x \<le> x * (1 + 1 / 2 ^ 53)" and "double x > 0"
proof -
  have "x * (1 - 1 / 2 ^ 53) = x - x / 2 ^ 53" "x * (1 + 1 / 2 ^ 53) = x + x / 2 ^ 53"
    by (simp_all only: right_diff_distrib distrib_left mult_1_right times_divide_eq_right)
  then show l: "x * (1 - 1 / 2 ^ 53) \<le> double x" and "double x \<le> x * (1 + 1 / 2 ^ 53)"
    using double_close[OF assms] by (simp_all only: abs_diff_le_iff)
  have "0 < x * (1 - 1 / 2 ^ 53)" using assms by simp
  then show "double x > 0" using l by (rule less_le_trans)
qed

text \<open>The number of counters is large enough: together with the rounding of the three
  floating-point operations, \<open>N\<close> elements pay for at most \<open>err\<close> decrement rounds.\<close>

lemma enough_counters:
  assumes err: "err > 0" and N: "N > 0" and eps: "eps_of err N \<ge> pow2 (-50)"
  shows "N < (cntr_siz_of (eps_of err N) + 1) * (err + 1)" and "cntr_siz_of (eps_of err N) \<ge> 10000"
proof -
  define r :: rat where "r = 1 - 1 / 2 ^ 53"
  define R :: rat where "R = 1 + 1 / 2 ^ 53"
  define a b e t where "a = double (of_int err)" and "b = double (of_int N)" and "e = double (a / b)"
    and "t = double (1 / e)"
  have a: "0 < a" "a \<le> of_int err * R" using double_bounds[of "of_int err"] err by (simp_all add: a_def R_def)
  have b: "0 < b" "of_int N * r \<le> b" using double_bounds[of "of_int N"] N by (simp_all add: b_def r_def)
  have e: "0 < e" "e \<le> a / b * R" using double_bounds[of "a / b"] a b by (simp_all add: e_def R_def)
  have t: "1 / e * r \<le> t" "0 < t" using double_bounds[of "1 / e"] e by (simp_all add: t_def r_def)
  have ee: "e = eps_of err N" by (simp add: e_def a_def b_def eps_of_def)
  have rR: "0 < r" "0 < R" by (simp_all add: r_def R_def)
  have "e * b \<le> a * R" using e b by (simp add: pos_le_divide_eq mult.commute)
  also have "\<dots> \<le> of_int err * R * R" using a rR by (intro mult_right_mono) simp_all
  finally have eb: "e * b \<le> of_int err * R * R" .
  have "e * (of_int N * r) \<le> e * b" using e b by (intro mult_left_mono) simp_all
  then have A: "e * (of_int N * r) \<le> of_int err * R * R" using eb by linarith
  have te: "r \<le> t * e" using t e by (simp add: pos_divide_le_eq)
  have "of_int N * r * r \<le> of_int N * r * (t * e)" using te N rR by (intro mult_left_mono) simp_all
  also have "\<dots> = t * (e * (of_int N * r))" by simp
  also have "\<dots> \<le> t * (of_int err * R * R)" using A t by (intro mult_left_mono) simp_all
  finally have T: "of_int N * (r * r) \<le> t * of_int err * (R * R)" by (simp add: mult.assoc)
  have "1 / 2 ^ 50 \<le> e" using eps unfolding ee by (simp add: pow2_def power_int_minus field_simps)
  then have "1 / 2 ^ 50 * (of_int N * r) \<le> e * (of_int N * r)" using N rR by (intro mult_right_mono) simp_all
  then have E: "of_int N * (r / 2 ^ 50) \<le> of_int err * (R * R)" using A by (simp add: mult.assoc)
  have "of_int N * (R * R) \<le> of_int N * (r * r + r / 2 ^ 50)"
    using N by (intro mult_left_mono) (simp_all add: r_def R_def)
  also have "\<dots> \<le> (t * of_int err + of_int err) * (R * R)" using T E by (simp add: distrib_left distrib_right)
  finally have "of_int N \<le> t * of_int err + of_int err" using rR by (simp add: mult_le_cancel_right)
  then have "of_int N < (t + 1) * (of_int err + 1)" using t by (simp add: distrib_left distrib_right)
  moreover have c: "\<lfloor>t\<rfloor> + 1 \<le> cntr_siz_of (eps_of err N)" "cntr_siz_of (eps_of err N) \<ge> 10000"
    by (simp_all add: cntr_siz_of_def t_def ee Let_def)
  then have "t + 1 \<le> of_int (cntr_siz_of (eps_of err N) + 1)" by linarith
  then have "(t + 1) * (of_int err + 1) \<le> of_int (cntr_siz_of (eps_of err N) + 1) * (of_int err + 1)"
    using err by (intro mult_right_mono) simp_all
  ultimately have "(of_int N :: rat) < of_int ((cntr_siz_of (eps_of err N) + 1) * (err + 1))" by simp
  then show "N < (cntr_siz_of (eps_of err N) + 1) * (err + 1)" by (simp only: of_int_less_iff)
  show "cntr_siz_of (eps_of err N) \<ge> 10000" by (rule c(2))
qed

lemma halve_threads_ends:
  "cs * 9 \<le> MAX_SZ \<Longrightarrow> nt \<ge> 1 \<Longrightarrow> \<exists>nt'. halve_threads cs nt = Some (Suc nt')"
proof (induction cs nt rule: halve_threads.induct)
  case (1 cs nt)
  show ?case
  proof (cases "cs * (int nt + 2 + 6) > MAX_SZ")
    case True
    then have "nt \<noteq> 1" using 1(2) by auto
    then have "nt \<ge> 2" using 1(3) by simp
    then have "\<exists>nt'. halve_threads cs (nt div 2) = Some (Suc nt')" using 1 True by simp
    then show ?thesis using True \<open>nt \<ge> 2\<close> by (simp add: halve_threads.simps[of cs nt])
  next
    case False
    then have "halve_threads cs nt = Some nt" by (simp add: halve_threads.simps[of cs nt])
    then show ?thesis using 1(3) by (cases nt) simp_all
  qed
qed

subsection \<open>The guarantees\<close>

text \<open>The elements that are counted.\<close>

definition selected :: "int list \<Rightarrow> int list option \<Rightarrow> int list" where
  "selected x cfld = (case cfld of None \<Rightarrow> x | Some c \<Rightarrow> chosen (zip x c))"

lemma chosen_zip_length:
  "length c = length x \<Longrightarrow> length (chosen (zip x c)) = length (filter (\<lambda>v. v \<noteq> 0) c)"
  by (induction x c rule: list_induct2') (auto simp: chosen_def)

lemma chosen_zip_all:
  "length c = length x \<Longrightarrow> length (filter (\<lambda>v. v \<noteq> 0) c) = length x \<Longrightarrow> chosen (zip x c) = x"
proof (induction x c rule: list_induct2')
  case (4 v x k c)
  have "length (filter (\<lambda>v. v \<noteq> 0) c) \<le> length x" using 4(2) length_filter_le[of _ c] by simp
  then show ?case using 4 by (auto simp: chosen_def split: if_splits)
qed (auto simp: chosen_def)

lemma tracks_Nil [simp]: "tracks n [] []"
  by (auto simp: tracks_def counts_within_def intro!: exI[of _ 0])

lemma blocks_track:
  assumes "sorts srt" and "\<And>c. cfld = Some c \<Longrightarrow> length c = length x"
    and "int (length (selected x cfld)) \<le> INT_MAX"
  shows "\<exists>C. count_blocks srt (int (length (selected x cfld))) (Suc nt) (Suc cs) x cfld = Some C \<and> tracks (Suc cs) (selected x cfld) C"
proof -
  note all = all_blocks.loop_tracks[OF assms(1) tracks_Nil, where nt = nt and cs = cs and n = "Suc cs" and xs = x]
  note sel = sel_blocks.loop_tracks[OF assms(1) tracks_Nil, where nt = nt and cs = cs and n = "Suc cs"]
  show ?thesis
  proof (cases cfld)
    case None
    then show ?thesis using all assms(3) by (simp add: count_blocks_def selected_def)
  next
    case (Some c)
    then have l: "length c = length x" using assms(2) by blast
    show ?thesis
    proof (cases "length (filter (\<lambda>v. v \<noteq> 0) c) = length x")
      case True
      then show ?thesis using Some l all assms(3) chosen_zip_all[OF l] chosen_zip_length[OF l] by (simp add: count_blocks_def selected_def)
    next
      case False
      then show ?thesis using Some l sel[where xs = "zip x c"] assms(3) chosen_zip_length[OF l] by (simp add: count_blocks_def selected_def)
    qed
  qed
qed

text \<open>The checks at the start of \<open>approx_frequent\<close>, in terms of the number of selected
  elements.\<close>

definition bad_input :: "int list \<Rightarrow> int list option \<Rightarrow> int \<Rightarrow> int \<Rightarrow> bool" where
  "bad_input x cfld min_freq err \<longleftrightarrow> selected x cfld = [] \<or> err \<le> 0 \<or> min_freq - err \<le> 0"

definition too_big :: "int \<Rightarrow> int \<Rightarrow> bool" where
  "too_big err n \<longleftrightarrow> cntr_siz_of (eps_of err n) * 9 > MAX_SZ"

lemma eff_siz_selected:
  assumes "\<And>c. cfld = Some c \<Longrightarrow> length c = length x"
  shows "(case cfld of None \<Rightarrow> int (length x)
     | Some c \<Rightarrow> int (length (filter (\<lambda>v. v \<noteq> 0) (take (length x) c)))) = int (length (selected x cfld))"
  using assms chosen_zip_length by (auto simp: selected_def split: option.splits)

lemma approx_frequent_unfold:
  assumes srt: "sorts srt" and c: "\<And>c. cfld = Some c \<Longrightarrow> length c = length x"
    and n: "n = int (length (selected x cfld))" and m: "n \<le> INT_MAX"
  shows "\<exists>C. tracks (nat (cntr_siz_of (eps_of err n))) (selected x cfld) C \<and>
    approx_frequent srt x cfld min_freq err out_siz =
      (if bad_input x cfld min_freq err then Some (-1, -1, [])
       else if eps_of err n < pow2 (-50) then Some (0, -2, [])
       else if out_siz < n div (min_freq - err) then Some (-1, -1, [])
       else if too_big err n then Some (0, -2, [])
       else Some (0, 1, filter (\<lambda>(i, f). f \<ge> min_freq - err) C))"
proof -
  let ?cs = "cntr_siz_of (eps_of err n)"
  have cs: "0 < ?cs" by (simp add: cntr_siz_of_def Let_def)
  then obtain cs' where cs': "nat ?cs = Suc cs'" by (metis gr0_implies_Suc zero_less_nat_eq)
  have "\<exists>nt. halve_threads ?cs 128 = Some (Suc nt)" if "\<not> too_big err n"
    using that by (intro halve_threads_ends) (simp_all add: too_big_def)
  then obtain nt where nt: "\<not> too_big err n \<Longrightarrow> halve_threads ?cs 128 = Some (Suc nt)" by blast
  have "\<exists>C. count_blocks srt n (Suc nt) (nat ?cs) x cfld = Some C \<and> tracks (nat ?cs) (selected x cfld) C"
    unfolding cs' using blocks_track[OF srt, of cfld x nt cs', folded n] c m by blast
  then obtain C where C: "count_blocks srt n (Suc nt) (nat ?cs) x cfld = Some C" "tracks (nat ?cs) (selected x cfld) C"
    by blast
  have eff: "(case cfld of None \<Rightarrow> int (length x)
     | Some c \<Rightarrow> int (length (filter (\<lambda>v. v \<noteq> 0) (take (length x) c)))) = n"
    unfolding n by (rule eff_siz_selected[OF c])
  have empty: "selected x cfld = []" if "x = []" using that by (auto simp: selected_def chosen_def split: option.split)
  have none: "cfld = None \<Longrightarrow> selected x cfld = x" by (simp add: selected_def)
  have bad: "int (length x) \<le> 0 \<or> err \<le> 0 \<or> min_freq \<le> 0 \<or> min_freq - err \<le> 0 \<or> cfld \<noteq> None \<and> n = 0 \<longleftrightarrow>
      bad_input x cfld min_freq err"
    unfolding bad_input_def n using empty none by (cases cfld) auto
  show ?thesis
  proof (cases "bad_input x cfld min_freq err")
    case True
    then show ?thesis using bad C(2) unfolding approx_frequent_def Let_def eff by auto
  next
    case False
    then have pos: "0 < min_freq - err" "0 < n" by (auto simp: bad_input_def n)
    then have "c_div n (min_freq - err) = n div (min_freq - err)" by simp
    then show ?thesis
      using False bad C nt pos unfolding approx_frequent_def Let_def eff
      by (intro exI[of _ C]) (simp add: too_big_def)
  qed
qed

text \<open>What a good estimate lists, shared by the two ways of sorting the packets.\<close>

definition lists_frequent :: "int list \<Rightarrow> int \<Rightarrow> int \<Rightarrow> int \<Rightarrow> counter \<Rightarrow> bool" where
  "lists_frequent P min_freq err out_siz out \<longleftrightarrow> sorted_wrt (<) (map fst out) \<and> int (length out) \<le> out_siz \<and>
    (\<forall>i. min_freq \<le> occ P i \<longrightarrow> i \<in> fst ` set out) \<and>
    (\<forall>(i, f) \<in> set out. min_freq - err \<le> f \<and> f \<le> occ P i \<and> occ P i - err \<le> f)"

lemma approx_frequent_listing:
  assumes "sorts srt" and "\<And>c. cfld = Some c \<Longrightarrow> length c = length x"
    and "approx_frequent srt x cfld min_freq err out_siz = Some (st, 1, out)"
    and "int (length (selected x cfld)) \<le> INT_MAX"
  shows "st = 0 \<and> lists_frequent (selected x cfld) min_freq err out_siz out"
proof -
  let ?P = "selected x cfld"
  define n where "n = int (length ?P)"
  define cs where "cs = cntr_siz_of (eps_of err n)"
  obtain C where C: "tracks (nat cs) ?P C"
    and run: "approx_frequent srt x cfld min_freq err out_siz =
      (if bad_input x cfld min_freq err then Some (-1, -1, [])
       else if eps_of err n < pow2 (-50) then Some (0, -2, [])
       else if out_siz < n div (min_freq - err) then Some (-1, -1, [])
       else if too_big err n then Some (0, -2, [])
       else Some (0, 1, filter (\<lambda>(i, f). f \<ge> min_freq - err) C))"
    using approx_frequent_unfold[OF assms(1) _ n_def] assms(2,4) unfolding cs_def n_def[symmetric] by blast
  have r: "\<not> bad_input x cfld min_freq err" "\<not> eps_of err n < pow2 (-50)"
    "\<not> out_siz < n div (min_freq - err)" "st = 0" "out = filter (\<lambda>(i, f). f \<ge> min_freq - err) C"
    using assms(3) run by (auto split: if_splits)
  then have pos: "0 < err" "0 < min_freq - err" "0 < n" by (auto simp: bad_input_def n_def)
  then have many: "n < (cs + 1) * (err + 1)" "cs \<ge> 10000" using enough_counters[of err n] r(2) by (auto simp: cs_def)
  obtain d where d: "counts_within (nat cs) ?P C d" using C by (auto simp: tracks_def)
  have g: "good_counter C" "\<forall>p \<in> set C. snd p > 0" using d by (auto simp: counts_within_def good_counter_def)
  have tot: "0 \<le> mass C" using g(2) by (rule mass_nonneg)
  have "(int (nat cs) + 1) * d \<le> n" using d tot unfolding counts_within_def n_def by linarith
  then have "(cs + 1) * d \<le> n" using many(2) by simp
  then have "(cs + 1) * d < (cs + 1) * (err + 1)" using many(1) by (rule le_less_trans)
  then have derr: "d \<le> err" using many(2) mult_less_cancel_left_pos[of "cs + 1" d "err + 1"] by simp
  have e: "occ ?P i - err \<le> est C i \<and> est C i \<le> occ ?P i" for i
    using d derr unfolding counts_within_def by (smt (verit))
  have listed: "i \<in> fst ` set out" if "min_freq \<le> occ ?P i" for i
  proof -
    have "min_freq - err \<le> est C i" using e[of i] that by linarith
    moreover then have "(i, est C i) \<in> set C" using est_pos_member[OF g(1)] pos(2) by simp
    ultimately show ?thesis unfolding r(5) by force
  qed
  have exact: "min_freq - err \<le> f \<and> f \<le> occ ?P i \<and> occ ?P i - err \<le> f" if "(i, f) \<in> set out" for i f
    using that e[of i] est_member[of C i f] g(1) unfolding r(5) by (auto simp: good_counter_def)
  have srtd: "sorted_wrt (<) (map fst out)"
    using g(1) unfolding r(5) good_counter_def sorted_wrt_map by (auto intro: sorted_wrt_filter)
  have "int (length out) * (min_freq - err) \<le> mass C"
    unfolding r(5) using g(2) pos(2) by (induction C) (auto simp: distrib_right)
  also have "mass C \<le> n" using counts_within_mass[OF d] by (simp add: n_def)
  finally have "int (length out) \<le> n div (min_freq - err)" using pos(2)
    by (metis nonzero_mult_div_cancel_right less_irrefl zdiv_mono1)
  then show ?thesis using r(3,4) srtd listed exact unfolding lists_frequent_def by auto
qed

text \<open>C2: The listing is correct for fewer than \<open>2^31\<close> selected elements, the most for which the \<open>int\<close> counters
  cannot overflow.  Whenever \<open>approx_frequent\<close> reports a good estimate, every element
  that occurs at least \<open>min_freq\<close> times among the selected ones is listed; a listed frequency
  never exceeds the true one and falls short of it by at most \<open>err\<close>; nothing that occurs
  fewer than \<open>min_freq - err\<close> times is listed; the ids are listed in increasing order,
  each once; and the output arrays are not overrun.\<close>

theorem approx_frequent_guarantee:
  assumes "sorts srt" and "\<And>c. cfld = Some c \<Longrightarrow> length c = length x"
    and "approx_frequent srt x cfld min_freq err out_siz = Some (st, 1, out)"
    and "length (selected x cfld) < 2 ^ 31"
  shows "st = 0 \<and> sorted_wrt (<) (map fst out) \<and> int (length out) \<le> out_siz \<and>
    (\<forall>i. min_freq \<le> occ (selected x cfld) i \<longrightarrow> i \<in> fst ` set out) \<and>
    (\<forall>(i, f) \<in> set out. min_freq - err \<le> f \<and> f \<le> occ (selected x cfld) i \<and> occ (selected x cfld) i - err \<le> f)"
  using approx_frequent_listing[OF assms(1) _ assms(3)] assms(2,4) unfolding lists_frequent_def by simp

lemma sorts_sort: "sorts sort"
  by (simp add: sorts_def)

lemma sample_sizes: "eps_of 1 4 = 1 / 4" "cntr_siz_of (1 / 4) = 10000"
  by code_simp+

lemma sample_run:
  "\<exists>C. approx_frequent sort [5, 7, 5, 5] None 3 1 2 = Some (0, 1, filter (\<lambda>(i, f). f \<ge> 3 - 1) C)"
proof -
  have "selected [5, 7, 5, 5] None = [5, 7, 5, 5]" by (simp add: selected_def)
  moreover have "\<not> too_big 1 4" by (simp add: too_big_def sample_sizes MAX_SZ_def)
  moreover have "\<not> eps_of 1 4 < pow2 (-50)" by (simp add: sample_sizes pow2_def power_int_minus field_simps)
  ultimately show ?thesis
    using approx_frequent_unfold[OF sorts_sort, of None "[5, 7, 5, 5]" 4 1 3 2] by (auto simp: bad_input_def)
qed

theorem approx_frequent_guarantee_witness:
  "\<exists>out. approx_frequent sort [5, 7, 5, 5] None 3 1 2 = Some (0, 1, out) \<and> 5 \<in> fst ` set out \<and> 7 \<notin> fst ` set out"
proof -
  obtain out where out: "approx_frequent sort [5, 7, 5, 5] None 3 1 2 = Some (0, 1, out)" using sample_run by blast
  from approx_frequent_guarantee[OF sorts_sort _ this] show ?thesis
    using out by (intro exI[of _ out]) (force simp: selected_def)
qed

text \<open>C32: For fewer than \<open>2^31\<close> selected elements, so that no \<open>int\<close> counter overflows, \<open>approx_frequent\<close> returns
  whatever the input: all its loops end.  The status is
  negative exactly for bad arguments and for output arrays that are too small, and the
  estimate is marked -2 exactly when it would take too much memory.\<close>

theorem approx_frequent_returns:
  assumes "sorts srt" and "\<And>c. cfld = Some c \<Longrightarrow> length c = length x"
    and "n = int (length (selected x cfld))" and "n < 2 ^ 31"
  shows "\<exists>st good out. approx_frequent srt x cfld min_freq err out_siz = Some (st, good, out) \<and>
    (st = -1 \<longleftrightarrow> bad_input x cfld min_freq err \<or>
       \<not> eps_of err n < pow2 (-50) \<and> out_siz < n div (min_freq - err)) \<and>
    (st = 0 \<or> st = -1) \<and> (st = -1 \<longleftrightarrow> good = -1) \<and> (good = 1 \<or> good = -1 \<or> good = -2) \<and>
    (good = -2 \<longleftrightarrow> st = 0 \<and> (eps_of err n < pow2 (-50) \<or> too_big err n))"
  using approx_frequent_unfold[OF assms(1) _ assms(3), of err min_freq out_siz] assms(2,4) by auto

theorem approx_frequent_returns_witness:
  "\<exists>st good out. approx_frequent sort [5, 7] (Some [1, 0]) 1 1 9 = Some (st, good, out) \<and> st = -1"
  using approx_frequent_returns[OF sorts_sort, of "Some [1, 0]" "[5, 7]" 1 1 1 9]
  by (auto simp: selected_def chosen_def bad_input_def)

end
