(* ===== verification/K_Prelude.thy ===== *)
theory K_Prelude
  imports Q_Prelude
begin

text \<open>
  Vocabulary of the column kernels, the C loops of \<open>src/src/AUX\<close> that work on the arrays
  a verb has mapped.  An array is a list; a kernel is a program whose state is the
  array it writes, so that what it wrote before an error stays.  Reading or writing
  outside an array is a fault, and so is an arithmetic operation that traps or has no
  defined result.  Integers are words of the width of their C type and arithmetic wraps;
  comparisons of the signed types are \<open><s\<close> and \<open>\<le>s\<close>.  Row counts are \<open>int\<close>: a
  negative count makes a loop do nothing.
\<close>

unbundle bit_operations_syntax

type_synonym 'b kernel = "('b list, unit) prog"

subsection \<open>Access to arrays\<close>

definition get_at :: "'a list \<Rightarrow> nat \<Rightarrow> 'a option" where
  "get_at xs i = (if i < length xs then Some (xs ! i) else None)"

definition put_at :: "nat \<Rightarrow> 'b \<Rightarrow> 'b kernel" where
  "put_at i v = (\<lambda>out. if i < length out then (Ret (), out[i := v]) else (Fault, out))"

text \<open>The loop \<open>for ( i = 0; i < n; i++ ) { out[i] = g(i); }\<close>.\<close>

definition fill :: "(nat \<Rightarrow> 'b option) \<Rightarrow> nat \<Rightarrow> 'b kernel" where
  "fill g n = for_each (\<lambda>i. case g i of None \<Rightarrow> fault | Some v \<Rightarrow> put_at i v) [0..<n]"

definition ewise1 :: "('a \<Rightarrow> 'b option) \<Rightarrow> 'a list \<Rightarrow> int \<Rightarrow> 'b kernel" where
  "ewise1 f in1 nR = fill (\<lambda>i. Option.bind (get_at in1 i) f) (nat nR)"

definition ewise2 :: "('a \<Rightarrow> 'b \<Rightarrow> 'c option) \<Rightarrow> 'a list \<Rightarrow> 'b list \<Rightarrow> int \<Rightarrow> 'c kernel" where
  "ewise2 f in1 in2 nR =
     fill (\<lambda>i. Option.bind (get_at in1 i) (\<lambda>x. Option.bind (get_at in2 i) (f x))) (nat nR)"

text \<open>The value of a C comparison or logical operator.\<close>

definition c_bool :: "bool \<Rightarrow> 'a::len word" where
  "c_bool b = (if b then 1 else 0)"

lemma c_bool_simps [simp]: "c_bool True = 1" "c_bool False = 0"
  "(c_bool b = 0) = (\<not> b)" "(c_bool b = 1) = b"
  by (simp_all add: c_bool_def)

subsection \<open>Signed division\<close>

text \<open>Division traps for a zero divisor, and for the one quotient that does not fit when the
  operands are not promoted to a wider type (\<open>prom\<close> is set for \<open>char\<close> and \<open>short\<close>).\<close>

definition div_traps :: "bool \<Rightarrow> 'a::len word \<Rightarrow> 'a word \<Rightarrow> bool" where
  "div_traps prom x y \<longleftrightarrow> y = 0 \<or> (\<not> prom \<and> sint x = - (2 ^ (LENGTH('a) - 1)) \<and> sint y = - 1)"

definition c_quot :: "bool \<Rightarrow> 'a::len word \<Rightarrow> 'a word \<Rightarrow> 'a word option" where
  "c_quot prom x y = (if div_traps prom x y then None else Some (word_of_int (c_div (sint x) (sint y))))"

definition c_rem :: "bool \<Rightarrow> 'a::len word \<Rightarrow> 'a word \<Rightarrow> 'a word option" where
  "c_rem prom x y = (if div_traps prom x y then None
     else Some (word_of_int (sint x - c_div (sint x) (sint y) * sint y)))"

text \<open>Shifts are defined for counts below the width only.\<close>

definition c_shl :: "'a::len word \<Rightarrow> 'a word \<Rightarrow> 'a word option" where
  "c_shl x y = (if unat y < LENGTH('a) then Some (push_bit (unat y) x) else None)"

definition c_shr :: "'a::len word \<Rightarrow> 'a word \<Rightarrow> 'a word option" where
  "c_shr x y = (if unat y < LENGTH('a) then Some (drop_bit (unat y) x) else None)"

subsection \<open>What a filling loop leaves behind\<close>

lemma put_at_run [simp]: "i < length out \<Longrightarrow> put_at i v out = (Ret (), out[i := v])"
  by (simp add: put_at_def)

lemma for_each_snoc: "for_each f (xs @ [x]) = seq (for_each f xs) (f x)"
  by (induction xs) (auto simp: prog_defs fun_eq_iff split: prod.splits outcome.splits)

lemma fill_Suc: "fill g (Suc n) = seq (fill g n) (case g n of None \<Rightarrow> fault | Some v \<Rightarrow> put_at n v)"
  by (simp add: fill_def for_each_snoc)

lemma fill_run:
  assumes "n \<le> length out" and "\<forall>i < n. g i \<noteq> None"
  shows "fill g n out = (Ret (), map (the \<circ> g) [0..<n] @ drop n out)"
  using assms
proof (induction n)
  case (Suc n)
  then have "drop n out = out ! n # drop (Suc n) out" by (simp add: Cons_nth_drop_Suc)
  then show ?case
    using Suc by (auto simp: fill_Suc seq_def bind_def list_update_append)
qed (simp add: fill_def ret_def)

lemma fill_fault:
  assumes "\<not> (n \<le> length out \<and> (\<forall>i < n. g i \<noteq> None))"
  shows "fst (fill g n out) = Fault"
  using assms
proof (induction n)
  case (Suc n)
  show ?case
  proof (cases "n \<le> length out \<and> (\<forall>i < n. g i \<noteq> None)")
    case True
    then have "g n = None \<or> n = length out" using Suc.prems by (auto simp: less_Suc_eq)
    then show ?thesis using True
      by (auto simp: fill_Suc seq_def bind_def fill_run fault_def put_at_def split: option.split)
  next
    case False
    then show ?thesis using Suc.IH by (auto simp: fill_Suc seq_def bind_def split: prod.splits outcome.splits)
  qed
qed simp

text \<open>A loop over one or two arrays reads the first \<open>nR\<close> rows, replaces as many entries of the
  output, and leaves the rest of the output alone.\<close>

lemma bind_eq_Some_nth: "i < length xs \<Longrightarrow> Option.bind (get_at xs i) f = f (xs ! i)"
  by (simp add: get_at_def)

lemma ewise1_run:
  assumes "nat nR \<le> length in1" and "nat nR \<le> length out" and "\<forall>i < nat nR. f (in1 ! i) = Some (h (in1 ! i))"
  shows "ewise1 f in1 nR out = (Ret (), map h (take (nat nR) in1) @ drop (nat nR) out)"
proof -
  have g: "Option.bind (get_at in1 i) f = Some (h (in1 ! i))" if "i < nat nR" for i
    using that assms by (simp add: bind_eq_Some_nth)
  then have "map (the \<circ> (\<lambda>i. Option.bind (get_at in1 i) f)) [0..<nat nR] = map h (take (nat nR) in1)"
    using assms(1) by (auto intro: nth_equalityI)
  then show ?thesis unfolding ewise1_def using fill_run[OF assms(2)] g by simp
qed

lemma ewise2_run:
  assumes "nat nR \<le> length in1" and "nat nR \<le> length in2" and "nat nR \<le> length out"
    and "\<forall>i < nat nR. f (in1 ! i) (in2 ! i) = Some (h (in1 ! i) (in2 ! i))"
  shows "ewise2 f in1 in2 nR out = (Ret (), map2 h (take (nat nR) in1) (take (nat nR) in2) @ drop (nat nR) out)"
proof -
  let ?g = "\<lambda>i. Option.bind (get_at in1 i) (\<lambda>x. Option.bind (get_at in2 i) (f x))"
  have g: "?g i = Some (h (in1 ! i) (in2 ! i))" if "i < nat nR" for i
    using that assms by (simp add: bind_eq_Some_nth)
  then have "map (the \<circ> ?g) [0..<nat nR] = map2 h (take (nat nR) in1) (take (nat nR) in2)"
    using assms(1,2) by (auto intro: nth_equalityI)
  then show ?thesis unfolding ewise2_def using fill_run[OF assms(3)] g by simp
qed

lemma ewise2_fault:
  assumes "i < nat nR" and "i < length in1" and "i < length in2" and "f (in1 ! i) (in2 ! i) = None"
  shows "fst (ewise2 f in1 in2 nR out) = Fault"
  unfolding ewise2_def
proof (rule fill_fault)
  have "Option.bind (get_at in1 i) (\<lambda>x. Option.bind (get_at in2 i) (f x)) = None"
    using assms by (simp add: bind_eq_Some_nth)
  then show "\<not> (nat nR \<le> length out \<and>
      (\<forall>i < nat nR. Option.bind (get_at in1 i) (\<lambda>x. Option.bind (get_at in2 i) (f x)) \<noteq> None))"
    using assms(1) by blast
qed

end
