(* ===== verification/K_Vector.thy ===== *)
theory K_Vector
  imports K_Prelude
begin

text \<open>
  The element-wise kernels on integer columns: one definition per file of \<open>src/src/AUX\<close>.
  \<open>I1\<close>, \<open>I2\<close>, \<open>I4\<close> and \<open>I8\<close> are \<open>char\<close>, \<open>short\<close>, \<open>int\<close> and \<open>long long\<close>; the kernels of the
  unsigned types \<open>UI4\<close> and \<open>UI8\<close> use the same words.  Each is a loop over the first \<open>nR\<close> rows
  that writes one entry of \<open>out\<close> per row.
\<close>

unbundle bit_operations_syntax

subsection \<open>Arithmetic on two columns\<close>

definition add2_I4 :: "I4 list \<Rightarrow> I4 list \<Rightarrow> int \<Rightarrow> I4 kernel" where
  "add2_I4 = ewise2 (\<lambda>inv1 inv2. Some (inv1 + inv2))"

definition add2_I8 :: "I8 list \<Rightarrow> I8 list \<Rightarrow> int \<Rightarrow> I8 kernel" where
  "add2_I8 = ewise2 (\<lambda>inv1 inv2. Some (inv1 + inv2))"

definition sub2_I4 :: "I4 list \<Rightarrow> I4 list \<Rightarrow> int \<Rightarrow> I4 kernel" where
  "sub2_I4 = ewise2 (\<lambda>inv1 inv2. Some (inv1 - inv2))"

definition sub2_I8 :: "I8 list \<Rightarrow> I8 list \<Rightarrow> int \<Rightarrow> I8 kernel" where
  "sub2_I8 = ewise2 (\<lambda>inv1 inv2. Some (inv1 - inv2))"

definition mul2_I4 :: "I4 list \<Rightarrow> I4 list \<Rightarrow> int \<Rightarrow> I4 kernel" where
  "mul2_I4 = ewise2 (\<lambda>inv1 inv2. Some (inv1 * inv2))"

definition mul2_I8 :: "I8 list \<Rightarrow> I8 list \<Rightarrow> int \<Rightarrow> I8 kernel" where
  "mul2_I8 = ewise2 (\<lambda>inv1 inv2. Some (inv1 * inv2))"

definition div2_I4 :: "I4 list \<Rightarrow> I4 list \<Rightarrow> int \<Rightarrow> I4 kernel" where
  "div2_I4 = ewise2 (\<lambda>inv1 inv2. c_quot False inv1 inv2)"

definition div2_I8 :: "I8 list \<Rightarrow> I8 list \<Rightarrow> int \<Rightarrow> I8 kernel" where
  "div2_I8 = ewise2 (\<lambda>inv1 inv2. c_quot False inv1 inv2)"

definition rem2_I4 :: "I4 list \<Rightarrow> I4 list \<Rightarrow> int \<Rightarrow> I4 kernel" where
  "rem2_I4 = ewise2 (\<lambda>inv1 inv2. c_rem False inv1 inv2)"

definition rem2_I8 :: "I8 list \<Rightarrow> I8 list \<Rightarrow> int \<Rightarrow> I8 kernel" where
  "rem2_I8 = ewise2 (\<lambda>inv1 inv2. c_rem False inv1 inv2)"

definition shiftleft2_I4 :: "I4 list \<Rightarrow> I4 list \<Rightarrow> int \<Rightarrow> I4 kernel" where
  "shiftleft2_I4 = ewise2 (\<lambda>inv1 inv2. c_shl inv1 inv2)"

definition shiftleft2_I8 :: "I8 list \<Rightarrow> I8 list \<Rightarrow> int \<Rightarrow> I8 kernel" where
  "shiftleft2_I8 = ewise2 (\<lambda>inv1 inv2. c_shl inv1 inv2)"

definition shiftright2_UI4 :: "I4 list \<Rightarrow> I4 list \<Rightarrow> int \<Rightarrow> I4 kernel" where
  "shiftright2_UI4 = ewise2 (\<lambda>inv1 inv2. c_shr inv1 inv2)"

definition shiftright2_UI8 :: "I8 list \<Rightarrow> I8 list \<Rightarrow> int \<Rightarrow> I8 kernel" where
  "shiftright2_UI8 = ewise2 (\<lambda>inv1 inv2. c_shr inv1 inv2)"

subsection \<open>Bits and truth values of two columns\<close>

definition bwise_and2_I1 :: "I1 list \<Rightarrow> I1 list \<Rightarrow> int \<Rightarrow> I1 kernel" where
  "bwise_and2_I1 = ewise2 (\<lambda>inv1 inv2. Some (inv1 AND inv2))"

definition bwise_and2_I4 :: "I4 list \<Rightarrow> I4 list \<Rightarrow> int \<Rightarrow> I4 kernel" where
  "bwise_and2_I4 = ewise2 (\<lambda>inv1 inv2. Some (inv1 AND inv2))"

definition bwise_and2_I8 :: "I8 list \<Rightarrow> I8 list \<Rightarrow> int \<Rightarrow> I8 kernel" where
  "bwise_and2_I8 = ewise2 (\<lambda>inv1 inv2. Some (inv1 AND inv2))"

definition bwise_or2_I1 :: "I1 list \<Rightarrow> I1 list \<Rightarrow> int \<Rightarrow> I1 kernel" where
  "bwise_or2_I1 = ewise2 (\<lambda>inv1 inv2. Some (inv1 OR inv2))"

definition bwise_or2_I4 :: "I4 list \<Rightarrow> I4 list \<Rightarrow> int \<Rightarrow> I4 kernel" where
  "bwise_or2_I4 = ewise2 (\<lambda>inv1 inv2. Some (inv1 OR inv2))"

definition bwise_or2_I8 :: "I8 list \<Rightarrow> I8 list \<Rightarrow> int \<Rightarrow> I8 kernel" where
  "bwise_or2_I8 = ewise2 (\<lambda>inv1 inv2. Some (inv1 OR inv2))"

definition bwise_xor2_I1 :: "I1 list \<Rightarrow> I1 list \<Rightarrow> int \<Rightarrow> I1 kernel" where
  "bwise_xor2_I1 = ewise2 (\<lambda>inv1 inv2. Some (inv1 XOR inv2))"

definition bwise_xor2_I4 :: "I4 list \<Rightarrow> I4 list \<Rightarrow> int \<Rightarrow> I4 kernel" where
  "bwise_xor2_I4 = ewise2 (\<lambda>inv1 inv2. Some (inv1 XOR inv2))"

definition bwise_xor2_I8 :: "I8 list \<Rightarrow> I8 list \<Rightarrow> int \<Rightarrow> I8 kernel" where
  "bwise_xor2_I8 = ewise2 (\<lambda>inv1 inv2. Some (inv1 XOR inv2))"

definition and2_I1 :: "I1 list \<Rightarrow> I1 list \<Rightarrow> int \<Rightarrow> I1 kernel" where
  "and2_I1 = ewise2 (\<lambda>inv1 inv2. Some (c_bool (inv1 \<noteq> 0 \<and> inv2 \<noteq> 0)))"

definition or2_I1 :: "I1 list \<Rightarrow> I1 list \<Rightarrow> int \<Rightarrow> I1 kernel" where
  "or2_I1 = ewise2 (\<lambda>inv1 inv2. Some (c_bool (inv1 \<noteq> 0 \<or> inv2 \<noteq> 0)))"

definition a_and_not_b_I1 :: "I1 list \<Rightarrow> I1 list \<Rightarrow> int \<Rightarrow> I1 kernel" where
  "a_and_not_b_I1 = ewise2 (\<lambda>inv1 inv2. Some (inv1 AND NOT inv2))"

subsection \<open>Comparison of two columns\<close>

definition cmp_eq_I1 :: "I1 list \<Rightarrow> I1 list \<Rightarrow> int \<Rightarrow> I1 kernel" where
  "cmp_eq_I1 = ewise2 (\<lambda>inv1 inv2. Some (c_bool (inv1 = inv2)))"

definition cmp_eq_I4 :: "I4 list \<Rightarrow> I4 list \<Rightarrow> int \<Rightarrow> I1 kernel" where
  "cmp_eq_I4 = ewise2 (\<lambda>inv1 inv2. Some (c_bool (inv1 = inv2)))"

definition cmp_eq_I8 :: "I8 list \<Rightarrow> I8 list \<Rightarrow> int \<Rightarrow> I1 kernel" where
  "cmp_eq_I8 = ewise2 (\<lambda>inv1 inv2. Some (c_bool (inv1 = inv2)))"

definition cmp_ne_I1 :: "I1 list \<Rightarrow> I1 list \<Rightarrow> int \<Rightarrow> I1 kernel" where
  "cmp_ne_I1 = ewise2 (\<lambda>inv1 inv2. Some (c_bool (inv1 \<noteq> inv2)))"

definition cmp_ne_I4 :: "I4 list \<Rightarrow> I4 list \<Rightarrow> int \<Rightarrow> I1 kernel" where
  "cmp_ne_I4 = ewise2 (\<lambda>inv1 inv2. Some (c_bool (inv1 \<noteq> inv2)))"

definition cmp_ne_I8 :: "I8 list \<Rightarrow> I8 list \<Rightarrow> int \<Rightarrow> I1 kernel" where
  "cmp_ne_I8 = ewise2 (\<lambda>inv1 inv2. Some (c_bool (inv1 \<noteq> inv2)))"

definition cmp_lt_I1 :: "I1 list \<Rightarrow> I1 list \<Rightarrow> int \<Rightarrow> I1 kernel" where
  "cmp_lt_I1 = ewise2 (\<lambda>inv1 inv2. Some (c_bool (inv1 <s inv2)))"

definition cmp_lt_I4 :: "I4 list \<Rightarrow> I4 list \<Rightarrow> int \<Rightarrow> I1 kernel" where
  "cmp_lt_I4 = ewise2 (\<lambda>inv1 inv2. Some (c_bool (inv1 <s inv2)))"

definition cmp_lt_I8 :: "I8 list \<Rightarrow> I8 list \<Rightarrow> int \<Rightarrow> I1 kernel" where
  "cmp_lt_I8 = ewise2 (\<lambda>inv1 inv2. Some (c_bool (inv1 <s inv2)))"

definition cmp_le_I1 :: "I1 list \<Rightarrow> I1 list \<Rightarrow> int \<Rightarrow> I1 kernel" where
  "cmp_le_I1 = ewise2 (\<lambda>inv1 inv2. Some (c_bool (inv1 \<le>s inv2)))"

definition cmp_le_I4 :: "I4 list \<Rightarrow> I4 list \<Rightarrow> int \<Rightarrow> I1 kernel" where
  "cmp_le_I4 = ewise2 (\<lambda>inv1 inv2. Some (c_bool (inv1 \<le>s inv2)))"

definition cmp_le_I8 :: "I8 list \<Rightarrow> I8 list \<Rightarrow> int \<Rightarrow> I1 kernel" where
  "cmp_le_I8 = ewise2 (\<lambda>inv1 inv2. Some (c_bool (inv1 \<le>s inv2)))"

definition cmp_gt_I1 :: "I1 list \<Rightarrow> I1 list \<Rightarrow> int \<Rightarrow> I1 kernel" where
  "cmp_gt_I1 = ewise2 (\<lambda>inv1 inv2. Some (c_bool (inv2 <s inv1)))"

definition cmp_gt_I4 :: "I4 list \<Rightarrow> I4 list \<Rightarrow> int \<Rightarrow> I1 kernel" where
  "cmp_gt_I4 = ewise2 (\<lambda>inv1 inv2. Some (c_bool (inv2 <s inv1)))"

definition cmp_gt_I8 :: "I8 list \<Rightarrow> I8 list \<Rightarrow> int \<Rightarrow> I1 kernel" where
  "cmp_gt_I8 = ewise2 (\<lambda>inv1 inv2. Some (c_bool (inv2 <s inv1)))"

definition cmp_ge_I1 :: "I1 list \<Rightarrow> I1 list \<Rightarrow> int \<Rightarrow> I1 kernel" where
  "cmp_ge_I1 = ewise2 (\<lambda>inv1 inv2. Some (c_bool (inv2 \<le>s inv1)))"

definition cmp_ge_I4 :: "I4 list \<Rightarrow> I4 list \<Rightarrow> int \<Rightarrow> I1 kernel" where
  "cmp_ge_I4 = ewise2 (\<lambda>inv1 inv2. Some (c_bool (inv2 \<le>s inv1)))"

definition cmp_ge_I8 :: "I8 list \<Rightarrow> I8 list \<Rightarrow> int \<Rightarrow> I1 kernel" where
  "cmp_ge_I8 = ewise2 (\<lambda>inv1 inv2. Some (c_bool (inv2 \<le>s inv1)))"

subsection \<open>A column and a scalar\<close>

definition add_scalar_I2 :: "I2 list \<Rightarrow> I2 \<Rightarrow> int \<Rightarrow> I2 kernel" where
  "add_scalar_I2 in1 in2 nR = ewise1 (\<lambda>x. Some (x + in2)) in1 nR"

definition add_scalar_I4 :: "I4 list \<Rightarrow> I4 \<Rightarrow> int \<Rightarrow> I4 kernel" where
  "add_scalar_I4 in1 in2 nR = ewise1 (\<lambda>x. Some (x + in2)) in1 nR"

definition add_scalar_I8 :: "I8 list \<Rightarrow> I8 \<Rightarrow> int \<Rightarrow> I8 kernel" where
  "add_scalar_I8 in1 in2 nR = ewise1 (\<lambda>x. Some (x + in2)) in1 nR"

definition sub_scalar_I2 :: "I2 list \<Rightarrow> I2 \<Rightarrow> int \<Rightarrow> I2 kernel" where
  "sub_scalar_I2 in1 in2 nR = ewise1 (\<lambda>x. Some (x - in2)) in1 nR"

definition sub_scalar_I4 :: "I4 list \<Rightarrow> I4 \<Rightarrow> int \<Rightarrow> I4 kernel" where
  "sub_scalar_I4 in1 in2 nR = ewise1 (\<lambda>x. Some (x - in2)) in1 nR"

definition sub_scalar_I8 :: "I8 list \<Rightarrow> I8 \<Rightarrow> int \<Rightarrow> I8 kernel" where
  "sub_scalar_I8 in1 in2 nR = ewise1 (\<lambda>x. Some (x - in2)) in1 nR"

definition mul_scalar_I2 :: "I2 list \<Rightarrow> I2 \<Rightarrow> int \<Rightarrow> I2 kernel" where
  "mul_scalar_I2 in1 in2 nR = ewise1 (\<lambda>x. Some (x * in2)) in1 nR"

definition mul_scalar_I4 :: "I4 list \<Rightarrow> I4 \<Rightarrow> int \<Rightarrow> I4 kernel" where
  "mul_scalar_I4 in1 in2 nR = ewise1 (\<lambda>x. Some (x * in2)) in1 nR"

definition mul_scalar_I8 :: "I8 list \<Rightarrow> I8 \<Rightarrow> int \<Rightarrow> I8 kernel" where
  "mul_scalar_I8 in1 in2 nR = ewise1 (\<lambda>x. Some (x * in2)) in1 nR"

definition div_scalar_I2 :: "I2 list \<Rightarrow> I2 \<Rightarrow> int \<Rightarrow> I2 kernel" where
  "div_scalar_I2 in1 in2 nR = ewise1 (\<lambda>x. c_quot True x in2) in1 nR"

definition div_scalar_I4 :: "I4 list \<Rightarrow> I4 \<Rightarrow> int \<Rightarrow> I4 kernel" where
  "div_scalar_I4 in1 in2 nR = ewise1 (\<lambda>x. c_quot False x in2) in1 nR"

definition div_scalar_I8 :: "I8 list \<Rightarrow> I8 \<Rightarrow> int \<Rightarrow> I8 kernel" where
  "div_scalar_I8 in1 in2 nR = ewise1 (\<lambda>x. c_quot False x in2) in1 nR"

definition rem_scalar_I2 :: "I2 list \<Rightarrow> I2 \<Rightarrow> int \<Rightarrow> I2 kernel" where
  "rem_scalar_I2 in1 in2 nR = ewise1 (\<lambda>x. c_rem True x in2) in1 nR"

definition rem_scalar_I4 :: "I4 list \<Rightarrow> I4 \<Rightarrow> int \<Rightarrow> I4 kernel" where
  "rem_scalar_I4 in1 in2 nR = ewise1 (\<lambda>x. c_rem False x in2) in1 nR"

definition rem_scalar_I8 :: "I8 list \<Rightarrow> I8 \<Rightarrow> int \<Rightarrow> I8 kernel" where
  "rem_scalar_I8 in1 in2 nR = ewise1 (\<lambda>x. c_rem False x in2) in1 nR"

definition bwise_and_scalar_I1 :: "I1 list \<Rightarrow> I1 \<Rightarrow> int \<Rightarrow> I1 kernel" where
  "bwise_and_scalar_I1 in1 in2 nR = ewise1 (\<lambda>x. Some (x AND in2)) in1 nR"

definition bwise_and_scalar_I4 :: "I4 list \<Rightarrow> I4 \<Rightarrow> int \<Rightarrow> I4 kernel" where
  "bwise_and_scalar_I4 in1 in2 nR = ewise1 (\<lambda>x. Some (x AND in2)) in1 nR"

definition bwise_and_scalar_I8 :: "I8 list \<Rightarrow> I8 \<Rightarrow> int \<Rightarrow> I8 kernel" where
  "bwise_and_scalar_I8 in1 in2 nR = ewise1 (\<lambda>x. Some (x AND in2)) in1 nR"

definition bwise_or_scalar_I1 :: "I1 list \<Rightarrow> I1 \<Rightarrow> int \<Rightarrow> I1 kernel" where
  "bwise_or_scalar_I1 in1 in2 nR = ewise1 (\<lambda>x. Some (x OR in2)) in1 nR"

definition bwise_or_scalar_I4 :: "I4 list \<Rightarrow> I4 \<Rightarrow> int \<Rightarrow> I4 kernel" where
  "bwise_or_scalar_I4 in1 in2 nR = ewise1 (\<lambda>x. Some (x OR in2)) in1 nR"

definition bwise_or_scalar_I8 :: "I8 list \<Rightarrow> I8 \<Rightarrow> int \<Rightarrow> I8 kernel" where
  "bwise_or_scalar_I8 in1 in2 nR = ewise1 (\<lambda>x. Some (x OR in2)) in1 nR"

definition bwise_xor_scalar_I1 :: "I1 list \<Rightarrow> I1 \<Rightarrow> int \<Rightarrow> I1 kernel" where
  "bwise_xor_scalar_I1 in1 in2 nR = ewise1 (\<lambda>x. Some (x XOR in2)) in1 nR"

definition bwise_xor_scalar_I4 :: "I4 list \<Rightarrow> I4 \<Rightarrow> int \<Rightarrow> I4 kernel" where
  "bwise_xor_scalar_I4 in1 in2 nR = ewise1 (\<lambda>x. Some (x XOR in2)) in1 nR"

definition bwise_xor_scalar_I8 :: "I8 list \<Rightarrow> I8 \<Rightarrow> int \<Rightarrow> I8 kernel" where
  "bwise_xor_scalar_I8 in1 in2 nR = ewise1 (\<lambda>x. Some (x XOR in2)) in1 nR"

definition and_scalar_I1 :: "I1 list \<Rightarrow> I1 \<Rightarrow> int \<Rightarrow> I1 kernel" where
  "and_scalar_I1 in1 in2 nR = ewise1 (\<lambda>x. Some (c_bool (x \<noteq> 0 \<and> in2 \<noteq> 0))) in1 nR"

definition or_scalar_I1 :: "I1 list \<Rightarrow> I1 \<Rightarrow> int \<Rightarrow> I1 kernel" where
  "or_scalar_I1 in1 in2 nR = ewise1 (\<lambda>x. Some (c_bool (x \<noteq> 0 \<or> in2 \<noteq> 0))) in1 nR"

definition shift_left_scalar_I4 :: "I4 list \<Rightarrow> I4 \<Rightarrow> int \<Rightarrow> I4 kernel" where
  "shift_left_scalar_I4 in1 in2 nR = ewise1 (\<lambda>x. c_shl x in2) in1 nR"

definition shift_left_scalar_I8 :: "I8 list \<Rightarrow> I8 \<Rightarrow> int \<Rightarrow> I8 kernel" where
  "shift_left_scalar_I8 in1 in2 nR = ewise1 (\<lambda>x. c_shl x in2) in1 nR"

definition shift_right_scalar_UI4 :: "I4 list \<Rightarrow> I4 \<Rightarrow> int \<Rightarrow> I4 kernel" where
  "shift_right_scalar_UI4 in1 in2 nR = ewise1 (\<lambda>x. c_shr x in2) in1 nR"

definition shift_right_scalar_UI8 :: "I8 list \<Rightarrow> I8 \<Rightarrow> int \<Rightarrow> I8 kernel" where
  "shift_right_scalar_UI8 in1 in2 nR = ewise1 (\<lambda>x. c_shr x in2) in1 nR"

definition cmp_eq_scalar_I1 :: "I1 list \<Rightarrow> I1 \<Rightarrow> int \<Rightarrow> I1 kernel" where
  "cmp_eq_scalar_I1 in1 in2 nR = ewise1 (\<lambda>x. Some (c_bool (x = in2))) in1 nR"

definition cmp_eq_scalar_I2 :: "I2 list \<Rightarrow> I2 \<Rightarrow> int \<Rightarrow> I1 kernel" where
  "cmp_eq_scalar_I2 in1 in2 nR = ewise1 (\<lambda>x. Some (c_bool (x = in2))) in1 nR"

definition cmp_eq_scalar_I4 :: "I4 list \<Rightarrow> I4 \<Rightarrow> int \<Rightarrow> I1 kernel" where
  "cmp_eq_scalar_I4 in1 in2 nR = ewise1 (\<lambda>x. Some (c_bool (x = in2))) in1 nR"

definition cmp_eq_scalar_I8 :: "I8 list \<Rightarrow> I8 \<Rightarrow> int \<Rightarrow> I1 kernel" where
  "cmp_eq_scalar_I8 in1 in2 nR = ewise1 (\<lambda>x. Some (c_bool (x = in2))) in1 nR"

definition cmp_ne_scalar_I1 :: "I1 list \<Rightarrow> I1 \<Rightarrow> int \<Rightarrow> I1 kernel" where
  "cmp_ne_scalar_I1 in1 in2 nR = ewise1 (\<lambda>x. Some (c_bool (x \<noteq> in2))) in1 nR"

definition cmp_ne_scalar_I4 :: "I4 list \<Rightarrow> I4 \<Rightarrow> int \<Rightarrow> I1 kernel" where
  "cmp_ne_scalar_I4 in1 in2 nR = ewise1 (\<lambda>x. Some (c_bool (x \<noteq> in2))) in1 nR"

definition cmp_ne_scalar_I8 :: "I8 list \<Rightarrow> I8 \<Rightarrow> int \<Rightarrow> I1 kernel" where
  "cmp_ne_scalar_I8 in1 in2 nR = ewise1 (\<lambda>x. Some (c_bool (x \<noteq> in2))) in1 nR"

definition cmp_lt_scalar_I1 :: "I1 list \<Rightarrow> I1 \<Rightarrow> int \<Rightarrow> I1 kernel" where
  "cmp_lt_scalar_I1 in1 in2 nR = ewise1 (\<lambda>x. Some (c_bool (x <s in2))) in1 nR"

definition cmp_lt_scalar_I4 :: "I4 list \<Rightarrow> I4 \<Rightarrow> int \<Rightarrow> I1 kernel" where
  "cmp_lt_scalar_I4 in1 in2 nR = ewise1 (\<lambda>x. Some (c_bool (x <s in2))) in1 nR"

definition cmp_lt_scalar_I8 :: "I8 list \<Rightarrow> I8 \<Rightarrow> int \<Rightarrow> I1 kernel" where
  "cmp_lt_scalar_I8 in1 in2 nR = ewise1 (\<lambda>x. Some (c_bool (x <s in2))) in1 nR"

definition cmp_le_scalar_I1 :: "I1 list \<Rightarrow> I1 \<Rightarrow> int \<Rightarrow> I1 kernel" where
  "cmp_le_scalar_I1 in1 in2 nR = ewise1 (\<lambda>x. Some (c_bool (x \<le>s in2))) in1 nR"

definition cmp_le_scalar_I4 :: "I4 list \<Rightarrow> I4 \<Rightarrow> int \<Rightarrow> I1 kernel" where
  "cmp_le_scalar_I4 in1 in2 nR = ewise1 (\<lambda>x. Some (c_bool (x \<le>s in2))) in1 nR"

definition cmp_le_scalar_I8 :: "I8 list \<Rightarrow> I8 \<Rightarrow> int \<Rightarrow> I1 kernel" where
  "cmp_le_scalar_I8 in1 in2 nR = ewise1 (\<lambda>x. Some (c_bool (x \<le>s in2))) in1 nR"

definition cmp_gt_scalar_I1 :: "I1 list \<Rightarrow> I1 \<Rightarrow> int \<Rightarrow> I1 kernel" where
  "cmp_gt_scalar_I1 in1 in2 nR = ewise1 (\<lambda>x. Some (c_bool (in2 <s x))) in1 nR"

definition cmp_gt_scalar_I4 :: "I4 list \<Rightarrow> I4 \<Rightarrow> int \<Rightarrow> I1 kernel" where
  "cmp_gt_scalar_I4 in1 in2 nR = ewise1 (\<lambda>x. Some (c_bool (in2 <s x))) in1 nR"

definition cmp_gt_scalar_I8 :: "I8 list \<Rightarrow> I8 \<Rightarrow> int \<Rightarrow> I1 kernel" where
  "cmp_gt_scalar_I8 in1 in2 nR = ewise1 (\<lambda>x. Some (c_bool (in2 <s x))) in1 nR"

definition cmp_ge_scalar_I1 :: "I1 list \<Rightarrow> I1 \<Rightarrow> int \<Rightarrow> I1 kernel" where
  "cmp_ge_scalar_I1 in1 in2 nR = ewise1 (\<lambda>x. Some (c_bool (in2 \<le>s x))) in1 nR"

definition cmp_ge_scalar_I4 :: "I4 list \<Rightarrow> I4 \<Rightarrow> int \<Rightarrow> I1 kernel" where
  "cmp_ge_scalar_I4 in1 in2 nR = ewise1 (\<lambda>x. Some (c_bool (in2 \<le>s x))) in1 nR"

definition cmp_ge_scalar_I8 :: "I8 list \<Rightarrow> I8 \<Rightarrow> int \<Rightarrow> I1 kernel" where
  "cmp_ge_scalar_I8 in1 in2 nR = ewise1 (\<lambda>x. Some (c_bool (in2 \<le>s x))) in1 nR"

subsection \<open>A column and two scalars\<close>

text \<open>\<open>cmp_gt_and_lt_I4\<close> tests \<open>inval >= s2\<close> where its name promises \<open><\<close>.\<close>

definition cmp_ge_and_le_I4 :: "I4 list \<Rightarrow> int \<Rightarrow> I4 \<Rightarrow> I4 \<Rightarrow> I1 kernel" where
  "cmp_ge_and_le_I4 in1 nR s1 s2 = ewise1 (\<lambda>inval. Some (c_bool (s1 \<le>s inval \<and> inval \<le>s s2))) in1 nR"

definition cmp_gt_and_lt_I4 :: "I4 list \<Rightarrow> int \<Rightarrow> I4 \<Rightarrow> I4 \<Rightarrow> I1 kernel" where
  "cmp_gt_and_lt_I4 in1 nR s1 s2 = ewise1 (\<lambda>inval. Some (c_bool (s1 <s inval \<and> s2 \<le>s inval))) in1 nR"

definition cmp_le_or_ge_I4 :: "I4 list \<Rightarrow> int \<Rightarrow> I4 \<Rightarrow> I4 \<Rightarrow> I1 kernel" where
  "cmp_le_or_ge_I4 in1 nR s1 s2 = ewise1 (\<lambda>inval. Some (c_bool (inval \<le>s s1 \<or> s2 \<le>s inval))) in1 nR"

definition cmp_lt_or_gt_I4 :: "I4 list \<Rightarrow> int \<Rightarrow> I4 \<Rightarrow> I4 \<Rightarrow> I1 kernel" where
  "cmp_lt_or_gt_I4 in1 nR s1 s2 = ewise1 (\<lambda>inval. Some (c_bool (inval <s s1 \<or> s2 <s inval))) in1 nR"

subsection \<open>One column\<close>

definition not_I1 :: "I1 list \<Rightarrow> int \<Rightarrow> I1 kernel" where
  "not_I1 = ewise1 (\<lambda>x. Some (c_bool (x = 0)))"

definition not_I4 :: "I4 list \<Rightarrow> int \<Rightarrow> I4 kernel" where
  "not_I4 = ewise1 (\<lambda>x. Some (c_bool (x = 0)))"

definition not_I8 :: "I8 list \<Rightarrow> int \<Rightarrow> I8 kernel" where
  "not_I8 = ewise1 (\<lambda>x. Some (c_bool (x = 0)))"

definition ones_complement_I1 :: "I1 list \<Rightarrow> int \<Rightarrow> I1 kernel" where
  "ones_complement_I1 = ewise1 (\<lambda>x. Some (NOT x))"

definition ones_complement_I4 :: "I4 list \<Rightarrow> int \<Rightarrow> I4 kernel" where
  "ones_complement_I4 = ewise1 (\<lambda>x. Some (NOT x))"

definition ones_complement_I8 :: "I8 list \<Rightarrow> int \<Rightarrow> I8 kernel" where
  "ones_complement_I8 = ewise1 (\<lambda>x. Some (NOT x))"

definition incr_I4 :: "I4 list \<Rightarrow> int \<Rightarrow> I4 kernel" where
  "incr_I4 = ewise1 (\<lambda>x. Some (x + 1))"

definition incr_I8 :: "I8 list \<Rightarrow> int \<Rightarrow> I8 kernel" where
  "incr_I8 = ewise1 (\<lambda>x. Some (x + 1))"

definition decr_I4 :: "I4 list \<Rightarrow> int \<Rightarrow> I4 kernel" where
  "decr_I4 = ewise1 (\<lambda>x. Some (x - 1))"

definition decr_I8 :: "I8 list \<Rightarrow> int \<Rightarrow> I8 kernel" where
  "decr_I8 = ewise1 (\<lambda>x. Some (x - 1))"

subsection \<open>Conversion between integer types\<close>

definition conv_I1_to_I4 :: "I1 list \<Rightarrow> int \<Rightarrow> I4 kernel" where
  "conv_I1_to_I4 = ewise1 (\<lambda>x. Some (scast x))"

definition conv_I1_to_I8 :: "I1 list \<Rightarrow> int \<Rightarrow> I8 kernel" where
  "conv_I1_to_I8 = ewise1 (\<lambda>x. Some (scast x))"

definition conv_I2_to_I4 :: "I2 list \<Rightarrow> int \<Rightarrow> I4 kernel" where
  "conv_I2_to_I4 = ewise1 (\<lambda>x. Some (scast x))"

definition conv_I2_to_I8 :: "I2 list \<Rightarrow> int \<Rightarrow> I8 kernel" where
  "conv_I2_to_I8 = ewise1 (\<lambda>x. Some (scast x))"

definition conv_I4_to_I8 :: "I4 list \<Rightarrow> int \<Rightarrow> I8 kernel" where
  "conv_I4_to_I8 = ewise1 (\<lambda>x. Some (scast x))"

definition conv_I4_to_I1 :: "I4 list \<Rightarrow> int \<Rightarrow> I1 kernel" where
  "conv_I4_to_I1 = ewise1 (\<lambda>x. Some (ucast x))"

definition conv_I4_to_I2 :: "I4 list \<Rightarrow> int \<Rightarrow> I2 kernel" where
  "conv_I4_to_I2 = ewise1 (\<lambda>x. Some (ucast x))"

definition conv_I8_to_I1 :: "I8 list \<Rightarrow> int \<Rightarrow> I1 kernel" where
  "conv_I8_to_I1 = ewise1 (\<lambda>x. Some (ucast x))"

definition conv_I8_to_I4 :: "I8 list \<Rightarrow> int \<Rightarrow> I4 kernel" where
  "conv_I8_to_I4 = ewise1 (\<lambda>x. Some (ucast x))"

subsection \<open>Comparisons\<close>

lemmas cmp_I4_defs = cmp_eq_I4_def cmp_ne_I4_def cmp_lt_I4_def cmp_le_I4_def cmp_gt_I4_def cmp_ge_I4_def
lemmas cmp_I8_defs = cmp_eq_I8_def cmp_ne_I8_def cmp_lt_I8_def cmp_le_I8_def cmp_gt_I8_def cmp_ge_I8_def
lemmas truth_defs = or2_I1_def and2_I1_def not_I1_def

lemma ewise1_total:
  "nat nR \<le> length in1 \<Longrightarrow> nat nR \<le> length out \<Longrightarrow>
   ewise1 (\<lambda>x. Some (h x)) in1 nR out = (Ret (), map h (take (nat nR) in1) @ drop (nat nR) out)"
  by (rule ewise1_run) simp_all

lemma ewise2_total:
  "nat nR \<le> length in1 \<Longrightarrow> nat nR \<le> length in2 \<Longrightarrow> nat nR \<le> length out \<Longrightarrow>
   ewise2 (\<lambda>x y. Some (h x y)) in1 in2 nR out =
     (Ret (), map2 h (take (nat nR) in1) (take (nat nR) in2) @ drop (nat nR) out)"
  by (rule ewise2_run) simp_all

lemma map2_same_length: "length xs = length ys \<Longrightarrow> map2 (\<lambda>x y. f y) xs ys = map f ys"
  by (induction xs ys rule: list_induct2) simp_all

lemma map2_map2:
  "length xs = length ys \<Longrightarrow>
   map2 f (map2 g xs ys) (map2 h xs ys) = map2 (\<lambda>x y. f (g x y) (h x y)) xs ys"
  by (induction xs ys rule: list_induct2) simp_all

lemma map_map2: "map f (map2 g xs ys) = map2 (\<lambda>x y. f (g x y)) xs ys"
  by (induction xs ys rule: list_induct2') simp_all

lemma map2_cong_fun: "(\<And>x y. f x y = g x y) \<Longrightarrow> map2 f xs ys = map2 g xs ys"
  by simp

lemma signed_total_order:
  fixes x y :: "'a::len word"
  shows "x \<le>s y \<longleftrightarrow> x <s y \<or> x = y" and "y <s x \<longleftrightarrow> \<not> x \<le>s y" and "y \<le>s x \<longleftrightarrow> \<not> x <s y"
  by (auto simp: word_sless_alt word_sle_eq not_less not_le le_less dest: signed_word_eqI)

text \<open>The six comparison kernels agree with each other: on columns that hold all rows none
  of them faults, \<open>le\<close> is \<open>lt\<close> or \<open>eq\<close>, \<open>ne\<close> is not \<open>eq\<close>, \<open>gt\<close> is not \<open>le\<close> and \<open>ge\<close> is not \<open>lt\<close>, in
  every row, with the truth values combined by the kernels \<open>or2\<close> and \<open>not\<close>; the rest of the
  output column is left alone.\<close>

theorem comparisons_agree:
  assumes "nat nR \<le> length a" and "nat nR \<le> length b" and "nat nR \<le> length out"
  shows "\<exists>lt eq le. cmp_lt_I4 a b nR out = (Ret (), lt) \<and> cmp_eq_I4 a b nR out = (Ret (), eq) \<and>
     cmp_le_I4 a b nR out = (Ret (), le) \<and> or2_I1 lt eq nR out = (Ret (), le) \<and>
     cmp_ne_I4 a b nR out = not_I1 eq nR out \<and> cmp_gt_I4 a b nR out = not_I1 le nR out \<and>
     cmp_ge_I4 a b nR out = not_I1 lt nR out \<and> drop (nat nR) le = drop (nat nR) out"
proof (intro exI conjI)
  let ?n = "nat nR"
  let ?m = "\<lambda>P. map2 (\<lambda>x y. c_bool (P x y)) (take ?n a) (take ?n b) @ drop ?n out"
  note run = ewise2_total[OF assms] and len = assms
  show "cmp_lt_I4 a b nR out = (Ret (), ?m (<s))" "cmp_eq_I4 a b nR out = (Ret (), ?m (=))"
    "cmp_le_I4 a b nR out = (Ret (), ?m (\<le>s))"
    by (simp_all add: cmp_I4_defs run)
  have le: "?m (\<le>s) = ?m (\<lambda>x y. x <s y \<or> x = y)"
    by (simp add: signed_total_order(1) del: map2_map_map)
  show "or2_I1 (?m (<s)) (?m (=)) nR out = (Ret (), ?m (\<le>s))"
    unfolding le truth_defs using len by (simp add: ewise2_total map2_map2 disj_imp)
  show "cmp_ne_I4 a b nR out = not_I1 (?m (=)) nR out"
    unfolding cmp_I4_defs truth_defs using len by (auto simp: run ewise1_total map_map2)
  show "cmp_gt_I4 a b nR out = not_I1 (?m (\<le>s)) nR out"
    unfolding cmp_I4_defs truth_defs using len
    by (auto simp: run ewise1_total map_map2 signed_total_order(2))
  show "cmp_ge_I4 a b nR out = not_I1 (?m (<s)) nR out"
    unfolding cmp_I4_defs truth_defs using len
    by (auto simp: run ewise1_total map_map2 signed_total_order(3))
  show "drop ?n (?m (\<le>s)) = drop ?n out" using len by simp
qed

theorem comparisons_agree_witness:
  "\<exists>lt eq le. cmp_lt_I4 [1, -1] [2, -1] 2 [9, 9, 9] = (Ret (), lt) \<and> cmp_eq_I4 [1, -1] [2, -1] 2 [9, 9, 9] = (Ret (), eq) \<and>
     cmp_le_I4 [1, -1] [2, -1] 2 [9, 9, 9] = (Ret (), le) \<and> or2_I1 lt eq 2 [9, 9, 9] = (Ret (), le)"
  using comparisons_agree[of 2 "[1, -1]" "[2, -1]" "[9, 9, 9]"] by auto

subsection \<open>Conversions\<close>

lemma narrow_widen:
  fixes x :: "'a::len word"
  assumes "LENGTH('a) \<le> LENGTH('b::len)"
  shows "ucast (scast x :: 'b word) = x"
  by (rule bit_word_eqI) (use assms in \<open>auto simp: bit_simps\<close>)

lemma ucast_of_sint:
  fixes x :: "'b::len word"
  assumes "LENGTH('a::len) \<le> LENGTH('b)"
  shows "(ucast x :: 'a word) = word_of_int (sint x)"
  by (rule bit_word_eqI) (use assms in \<open>auto simp: bit_simps\<close>)

lemma widen_narrow:
  fixes x :: "'b::len word"
  assumes "LENGTH('a::len) \<le> LENGTH('b)"
  shows "scast (ucast x :: 'a word) = x \<longleftrightarrow> - (2 ^ (LENGTH('a) - 1)) \<le> sint x \<and> sint x < 2 ^ (LENGTH('a) - 1)"
proof -
  have "sint (scast (ucast x :: 'a word) :: 'b word) = sint (ucast x :: 'a word)"
    by (rule sint_up_scast) (use assms in \<open>simp add: is_up.rep_eq\<close>)
  also have "\<dots> = signed_take_bit (LENGTH('a) - 1) (sint x)"
    unfolding ucast_of_sint[OF assms] by (rule sint_sbintrunc')
  finally have "scast (ucast x :: 'a word) = x \<longleftrightarrow> signed_take_bit (LENGTH('a) - 1) (sint x) = sint x"
    by (metis signed_word_eqI)
  then show ?thesis by (simp add: signed_take_bit_int_eq_self_iff)
qed

lemmas conv_defs = conv_I1_to_I4_def conv_I1_to_I8_def conv_I2_to_I4_def conv_I4_to_I8_def
  conv_I4_to_I1_def conv_I4_to_I2_def conv_I8_to_I1_def conv_I8_to_I4_def

lemma map_idI_iff: "map f xs = xs \<longleftrightarrow> (\<forall>x \<in> set xs. f x = x)"
  by (induction xs) auto

text \<open>C37: For the four pairs of integer types with a kernel in both directions (\<open>I1\<close> and \<open>I4\<close>, \<open>I1\<close> and \<open>I8\<close>, \<open>I2\<close> and
  \<open>I4\<close>, \<open>I4\<close> and \<open>I8\<close>), widening a column and narrowing it again gives the column back, and narrowing a column and widening
  it again gives it back exactly when every value is in the range of the narrow type.\<close>

theorem conversions_round_trip:
  assumes "nat nR = length a" and "nat nR = length b" and "nat nR = length c" and "nat nR = length d"
    and "nat nR = length w1" and "nat nR = length w2" and "nat nR = length w4" and "nat nR = length w8"
  shows "conv_I4_to_I1 (snd (conv_I1_to_I4 a nR w4)) nR w1 = (Ret (), a) \<and>
     conv_I8_to_I1 (snd (conv_I1_to_I8 a nR w8)) nR w1 = (Ret (), a) \<and>
     conv_I4_to_I2 (snd (conv_I2_to_I4 b nR w4)) nR w2 = (Ret (), b) \<and>
     conv_I8_to_I4 (snd (conv_I4_to_I8 c nR w8)) nR w4 = (Ret (), c) \<and>
     (conv_I1_to_I4 (snd (conv_I4_to_I1 c nR w1)) nR w4 = (Ret (), c) \<longleftrightarrow> (\<forall>x \<in> set c. - 128 \<le> sint x \<and> sint x \<le> 127)) \<and>
     (conv_I1_to_I8 (snd (conv_I8_to_I1 d nR w1)) nR w8 = (Ret (), d) \<longleftrightarrow> (\<forall>x \<in> set d. - 128 \<le> sint x \<and> sint x \<le> 127)) \<and>
     (conv_I2_to_I4 (snd (conv_I4_to_I2 c nR w2)) nR w4 = (Ret (), c) \<longleftrightarrow> (\<forall>x \<in> set c. - 32768 \<le> sint x \<and> sint x \<le> 32767)) \<and>
     (conv_I4_to_I8 (snd (conv_I8_to_I4 d nR w4)) nR w8 = (Ret (), d) \<longleftrightarrow>
        (\<forall>x \<in> set d. INT_MIN \<le> sint x \<and> sint x \<le> INT_MAX))"
proof -
  note run = ewise1_total conv_defs and len = assms[symmetric]
  have fits: "scast (ucast x :: I1) = x \<longleftrightarrow> - 128 \<le> sint x \<and> sint x \<le> 127"
    "scast (ucast y :: I1) = y \<longleftrightarrow> - 128 \<le> sint y \<and> sint y \<le> 127"
    "scast (ucast x :: I2) = x \<longleftrightarrow> - 32768 \<le> sint x \<and> sint x \<le> 32767"
    "scast (ucast y :: I4) = y \<longleftrightarrow> INT_MIN \<le> sint y \<and> sint y \<le> INT_MAX" for x :: I4 and y :: I8
    by (subst widen_narrow; auto)+
  have "conv_I4_to_I1 (snd (conv_I1_to_I4 a nR w4)) nR w1 = (Ret (), a)"
    "conv_I8_to_I1 (snd (conv_I1_to_I8 a nR w8)) nR w1 = (Ret (), a)"
    "conv_I4_to_I2 (snd (conv_I2_to_I4 b nR w4)) nR w2 = (Ret (), b)"
    "conv_I8_to_I4 (snd (conv_I4_to_I8 c nR w8)) nR w4 = (Ret (), c)"
    by (simp_all add: run len narrow_widen comp_def)
  moreover have "conv_I1_to_I4 (snd (conv_I4_to_I1 c nR w1)) nR w4 = (Ret (), map (\<lambda>x. scast (ucast x :: I1)) c)"
    "conv_I1_to_I8 (snd (conv_I8_to_I1 d nR w1)) nR w8 = (Ret (), map (\<lambda>x. scast (ucast x :: I1)) d)"
    "conv_I2_to_I4 (snd (conv_I4_to_I2 c nR w2)) nR w4 = (Ret (), map (\<lambda>x. scast (ucast x :: I2)) c)"
    "conv_I4_to_I8 (snd (conv_I8_to_I4 d nR w4)) nR w8 = (Ret (), map (\<lambda>x. scast (ucast x :: I4)) d)"
    by (simp_all add: run len comp_def)
  ultimately show ?thesis by (simp add: map_idI_iff fits)
qed

theorem conversions_round_trip_witness:
  "conv_I8_to_I4 (snd (conv_I4_to_I8 [5, -7] 2 [0, 0])) 2 [0, 0] = (Ret (), [5, -7]) \<and>
   conv_I1_to_I4 (snd (conv_I4_to_I1 [5, -7] 2 [0, 0])) 2 [0, 0] = (Ret (), [5, -7]) \<and>
   conv_I4_to_I8 (snd (conv_I8_to_I4 [5, 4294967296] 2 [0, 0])) 2 [0, 0] \<noteq> (Ret (), [5, 4294967296])"
  using conversions_round_trip[of 2 "[1, 2]" "[3, 4]" "[5, -7]" "[5, 4294967296]" "[0, 0]" "[0, 0]" "[0, 0]" "[0, 0]"]
  by simp

subsection \<open>Division\<close>

lemma c_div_rem:
  fixes a b :: int
  assumes "b \<noteq> 0"
  defines "r \<equiv> a - c_div a b * b"
  shows "\<bar>r\<bar> < \<bar>b\<bar>" and "r = 0 \<or> (r < 0 \<longleftrightarrow> a < 0)" and "\<bar>c_div a b\<bar> = \<bar>a\<bar> div \<bar>b\<bar>"
proof -
  have "\<bar>a\<bar> mod \<bar>b\<bar> = \<bar>a\<bar> - \<bar>a\<bar> div \<bar>b\<bar> * \<bar>b\<bar>" by (simp only: minus_div_mult_eq_mod)
  moreover have "c_div a b * b = (if a < 0 then - (\<bar>a\<bar> div \<bar>b\<bar> * \<bar>b\<bar>) else \<bar>a\<bar> div \<bar>b\<bar> * \<bar>b\<bar>)"
    using assms by (auto simp: c_div_def abs_if)
  ultimately have r: "r = (if a < 0 then - (\<bar>a\<bar> mod \<bar>b\<bar>) else \<bar>a\<bar> mod \<bar>b\<bar>)" unfolding r_def by (simp split: if_splits)
  have m: "0 \<le> \<bar>a\<bar> mod \<bar>b\<bar>" "\<bar>a\<bar> mod \<bar>b\<bar> < \<bar>b\<bar>" using assms by simp_all
  show "\<bar>r\<bar> < \<bar>b\<bar>" using r m by simp
  show "r = 0 \<or> (r < 0 \<longleftrightarrow> a < 0)" using r m by (auto split: if_splits)
  show "\<bar>c_div a b\<bar> = \<bar>a\<bar> div \<bar>b\<bar>" by (auto simp: c_div_def pos_imp_zdiv_nonneg_iff assms)
qed

lemma sint_small:
  fixes x :: "'a::len word" and r :: int
  assumes "\<bar>r\<bar> < \<bar>sint x\<bar>"
  shows "sint (word_of_int r :: 'a word) = r"
proof -
  have "- (2 ^ (LENGTH('a) - 1)) \<le> sint x" "sint x < 2 ^ (LENGTH('a) - 1)"
    using sint_ge[of x] sint_lt[of x] by simp_all
  then have "- (2 ^ (LENGTH('a) - 1)) \<le> r \<and> r < 2 ^ (LENGTH('a) - 1)" using assms by linarith
  then show ?thesis by (simp add: sint_sbintrunc' signed_take_bit_int_eq_self)
qed

definition quotient_of :: "'a::len word \<Rightarrow> 'a word \<Rightarrow> 'a word \<Rightarrow> 'a word \<Rightarrow> bool" where
  "quotient_of x y q r \<longleftrightarrow> q * y + r = x \<and> \<bar>sint r\<bar> < \<bar>sint y\<bar> \<and> (r = 0 \<or> (r <s 0 \<longleftrightarrow> x <s 0))"

lemma c_quot_rem:
  assumes "\<not> div_traps prom x y"
  shows "quotient_of x y (the (c_quot prom x y)) (the (c_rem prom x y))"
proof -
  define q r where "q = c_div (sint x) (sint y)" and "r = sint x - c_div (sint x) (sint y) * sint y"
  have y: "sint y \<noteq> 0" using assms by (metis div_traps_def signed_word_eqI sint_0)
  note r = c_div_rem[OF y, of "sint x", folded r_def]
  have s: "sint (word_of_int r :: 'a word) = r" by (rule sint_small[OF r(1)])
  have "word_of_int q * y + word_of_int r = word_of_int (q * sint y + r)"
    by (simp add: wi_hom_syms(1,3))
  then have "word_of_int q * y + word_of_int r = x" by (simp add: q_def r_def)
  moreover have "word_of_int r = (0 :: 'a word) \<or> (word_of_int r <s (0 :: 'a word) \<longleftrightarrow> x <s 0)"
    using r(2) s by (auto simp: word_sless_alt)
  moreover have "c_quot prom x y = Some (word_of_int q)" "c_rem prom x y = Some (word_of_int r)"
    using assms by (simp_all add: c_quot_def c_rem_def q_def r_def)
  ultimately show ?thesis using r(1) s by (simp add: quotient_of_def)
qed

lemma traps_or_not:
  assumes "nat nR \<le> length a" and "nat nR \<le> length b" and "nat nR \<le> length out"
    and "\<And>x y. f x y = (if div_traps False x y then None else Some (h x y))"
  shows "if \<exists>i < nat nR. div_traps False (a ! i) (b ! i) then fst (ewise2 f a b nR out) = Fault
     else ewise2 f a b nR out = (Ret (), map2 h (take (nat nR) a) (take (nat nR) b) @ drop (nat nR) out)"
  using assms ewise2_fault[of _ nR a b f out] ewise2_run[OF assms(1-3), of f h] by auto

text \<open>C36: Division and remainder of two columns fault exactly when some row divides by zero
  or divides the least value by minus one.  Otherwise quotient times divisor plus remainder
  gives the dividend in every row, the remainder is smaller than the divisor in absolute
  value and has the sign of the dividend.\<close>

theorem div_rem_columns:
  assumes "nat nR \<le> length a" and "nat nR \<le> length b" and "nat nR \<le> length out"
  shows "if \<exists>i < nat nR. sint (b ! i) = 0 \<or> sint (a ! i) = INT_MIN \<and> sint (b ! i) = -1
     then fst (div2_I4 a b nR out) = Fault \<and> fst (rem2_I4 a b nR out) = Fault
     else \<exists>q r. div2_I4 a b nR out = (Ret (), q) \<and> rem2_I4 a b nR out = (Ret (), r) \<and>
       (\<forall>i < nat nR. quotient_of (a ! i) (b ! i) (q ! i) (r ! i))"
proof -
  have trap: "(sint y = 0 \<or> sint x = INT_MIN \<and> sint y = -1) = div_traps False x y" for x y :: I4
    by (simp add: div_traps_def) (metis signed_word_eqI sint_0)
  have q: "c_quot False x y = (if div_traps False x y then None else Some (the (c_quot False x y)))" for x y :: I4
    by (simp add: c_quot_def)
  have r: "c_rem False x y = (if div_traps False x y then None else Some (the (c_rem False x y)))" for x y :: I4
    by (simp add: c_rem_def)
  show ?thesis
    unfolding trap div2_I4_def rem2_I4_def
    using traps_or_not[OF assms q] traps_or_not[OF assms r] assms
    by (auto simp: nth_append c_quot_rem split: if_splits)
qed

theorem div_rem_columns_witness:
  "\<exists>q r. div2_I4 [-7, 8] [2, -3] 2 [0, 0] = (Ret (), q) \<and> rem2_I4 [-7, 8] [2, -3] 2 [0, 0] = (Ret (), r) \<and>
     quotient_of (-7) 2 (q ! 0) (r ! 0) \<and> quotient_of 8 (-3) (q ! 1) (r ! 1)"
proof -
  have small: "\<not> (\<exists>i < nat 2. sint ([2, -3 :: I4] ! i) = 0 \<or> sint ([-7, 8 :: I4] ! i) = INT_MIN \<and> sint ([2, -3 :: I4] ! i) = -1)"
    by (simp add: numeral_2_eq_2 Ex_less_Suc)
  note run = div_rem_columns[of 2 "[-7, 8]" "[2, -3]" "[0, 0]", unfolded if_not_P[OF small]]
  obtain q r where "div2_I4 [-7, 8] [2, -3] 2 [0, 0] = (Ret (), q)" "rem2_I4 [-7, 8] [2, -3] 2 [0, 0] = (Ret (), r)"
    and c: "\<forall>i < nat 2. quotient_of ([-7, 8] ! i) ([2, -3] ! i) (q ! i) (r ! i)"
    using run by auto
  moreover have "quotient_of (-7) 2 (q ! 0) (r ! 0)" "quotient_of 8 (-3) (q ! 1) (r ! 1)"
    using c[rule_format, of 0] c[rule_format, of 1] by simp_all
  ultimately show ?thesis by blast
qed

subsection \<open>A range test\<close>

text \<open>For an interval whose bounds are in order, \<open>cmp_gt_and_lt_I4\<close> does not mark the values
  strictly between the bounds: it marks the values at or above the upper bound, except the
  lower bound itself.\<close>

theorem gt_and_lt_wrong:
  assumes "nat nR \<le> length a" and "nat nR \<le> length out" and "s1 \<le>s s2" and "i < nat nR"
  shows "fst (cmp_gt_and_lt_I4 a nR s1 s2 out) = Ret () \<and>
     (snd (cmp_gt_and_lt_I4 a nR s1 s2 out) ! i = 1 \<longleftrightarrow> s2 \<le>s a ! i \<and> a ! i \<noteq> s1) \<and>
     (s1 <s a ! i \<and> a ! i <s s2 \<longrightarrow> snd (cmp_gt_and_lt_I4 a nR s1 s2 out) ! i = 0)"
proof -
  have "sint (a ! i) \<noteq> sint s1 \<or> a ! i = s1" by (auto intro: signed_word_eqI)
  then show ?thesis
    using assms by (auto simp: cmp_gt_and_lt_I4_def ewise1_total nth_append word_sless_alt word_sle_eq)
qed

theorem gt_and_lt_wrong_witness: "snd (cmp_gt_and_lt_I4 [5, 20] 2 1 10 [7, 7]) ! 0 = 0"
  using gt_and_lt_wrong[of 2 "[5, 20]" "[7, 7]" 1 10 0] by (simp add: word_sless_alt word_sle_eq)

end
