(* ===== verification/K_Search.thy ===== *)
theory K_Search
  imports K_Prelude Q_CString
begin

text \<open>
  Searching in a sorted column: \<open>AUX/bin_search_*.c\<close>, the membership tests
  \<open>cmp_eq_mult_scalar_*.c\<close> with their linear and logarithmic variants, and \<open>which_bin_*.c\<close>.
  The loops compare the values of the C types, so the shared part works on integers and
  the functions of the files read their words as signed or unsigned numbers.
\<close>

subsection \<open>bin\_search\<close>

datatype bsearch_direction = BSEARCH_LOWEST | BSEARCH_HIGHEST | BSEARCH_DONTCARE

definition to_lower :: "char \<Rightarrow> char" where
  "to_lower c = (let k = of_char c :: nat in if 65 \<le> k \<and> k \<le> 90 then char_of (k + 32) else c)"

definition strcaseeq :: "string \<Rightarrow> string \<Rightarrow> bool" where
  "strcaseeq s t = (map to_lower s = map to_lower t)"

definition unstr_direction :: "string option \<Rightarrow> bsearch_direction option" where
  "unstr_direction str_direction = (case str_direction of
       None \<Rightarrow> Some BSEARCH_DONTCARE
     | Some d \<Rightarrow> if d = [] then Some BSEARCH_DONTCARE
         else if strcaseeq d ''lowest'' then Some BSEARCH_LOWEST
         else if strcaseeq d ''highest'' then Some BSEARCH_HIGHEST
         else if strcaseeq d ''dontcare'' then Some BSEARCH_DONTCARE
         else None)"

text \<open>The loop that narrows \<open>lb\<close> and \<open>ub\<close>; the result is \<open>pos\<close>.\<close>

function bs_probe :: "int list \<Rightarrow> int \<Rightarrow> int \<Rightarrow> int \<Rightarrow> int outcome" where
  "bs_probe X key lb ub = (if lb \<le> ub then
       (let mid = (lb + ub) div 2 in
        if \<not> in_range mid X then Fault
        else if X ! nat mid = key then Ret mid
        else if key < X ! nat mid then bs_probe X key lb (min (ub - 1) mid)
        else bs_probe X key (max (lb + 1) mid) ub)
     else Ret (- 1))"
  by auto
termination by (relation "measure (\<lambda>(X, key, lb, ub). nat (ub - lb + 1))") auto

declare bs_probe.simps [simp del]

function bs_down :: "int list \<Rightarrow> int \<Rightarrow> int \<Rightarrow> int outcome" where
  "bs_down X key pos = (if pos > 0 then
       (if \<not> in_range (pos - 1) X then Fault
        else if X ! nat (pos - 1) = key then bs_down X key (pos - 1) else Ret pos)
     else Ret pos)"
  by auto
termination by (relation "measure (\<lambda>(X, key, pos). nat pos)") auto

function bs_up :: "int list \<Rightarrow> int \<Rightarrow> int \<Rightarrow> int \<Rightarrow> int outcome" where
  "bs_up X key nX pos = (if pos < nX - 1 then
       (if \<not> in_range (pos + 1) X then Fault
        else if X ! nat (pos + 1) = key then bs_up X key nX (pos + 1) else Ret pos)
     else Ret pos)"
  by auto
termination by (relation "measure (\<lambda>(X, key, nX, pos). nat (nX - pos))") auto

declare bs_down.simps [simp del]
declare bs_up.simps [simp del]

definition bin_search :: "int list option \<Rightarrow> int \<Rightarrow> int \<Rightarrow> string option \<Rightarrow> int outcome" where
  "bin_search X nX key str_direction = (case X of None \<Rightarrow> Bye | Some xs \<Rightarrow>
     if nX \<le> 0 then Bye
     else if nX = 1 then
       (if \<not> in_range 0 xs then Fault else if xs ! 0 = key then Ret 0 else Ret (- 1))
     else (case bs_probe xs key 0 (nX - 1) of
       Ret pos \<Rightarrow> (case unstr_direction str_direction of
           None \<Rightarrow> Bye
         | Some BSEARCH_LOWEST \<Rightarrow> bs_down xs key pos
         | Some BSEARCH_HIGHEST \<Rightarrow> bs_up xs key nX pos
         | Some BSEARCH_DONTCARE \<Rightarrow> Ret pos)
     | Bye \<Rightarrow> Bye | Fault \<Rightarrow> Fault))"

definition bin_search_I4 :: "I4 list option \<Rightarrow> int \<Rightarrow> I4 \<Rightarrow> string option \<Rightarrow> int outcome" where
  "bin_search_I4 X nX key = bin_search (map_option (map sint) X) nX (sint key)"

definition bin_search_I8 :: "I8 list option \<Rightarrow> int \<Rightarrow> I8 \<Rightarrow> string option \<Rightarrow> int outcome" where
  "bin_search_I8 X nX key = bin_search (map_option (map sint) X) nX (sint key)"

definition bin_search_UI4 :: "I4 list option \<Rightarrow> int \<Rightarrow> I4 \<Rightarrow> string option \<Rightarrow> int outcome" where
  "bin_search_UI4 X nX key = bin_search (map_option (map uint) X) nX (uint key)"

definition bin_search_UI8 :: "I8 list option \<Rightarrow> int \<Rightarrow> I8 \<Rightarrow> string option \<Rightarrow> int outcome" where
  "bin_search_UI8 X nX key = bin_search (map_option (map uint) X) nX (uint key)"

subsection \<open>cmp\_eq\_mult\_scalar\<close>

text \<open>The inner loop of the linear variant, over \<open>in2\<close>.\<close>

function simple_loop :: "int list \<Rightarrow> int \<Rightarrow> int \<Rightarrow> int \<Rightarrow> bool option" where
  "simple_loop in2 inval j n2 = (if j < n2 then
       (if \<not> in_range j in2 then None
        else if inval = in2 ! nat j then Some True else simple_loop in2 inval (j + 1) n2)
     else Some False)"
  by auto
termination by (relation "measure (\<lambda>(in2, inval, j, n2). nat (n2 - j))") auto

text \<open>The inner loop of the logarithmic variant; \<open>lb + ub\<close> is an \<open>int\<close>.\<close>

function log_loop :: "int list \<Rightarrow> int \<Rightarrow> int \<Rightarrow> int \<Rightarrow> bool option" where
  "log_loop in2 inval lb ub = (if ub > lb then
       (let probe = (lb + ub) div 2;
            is_last_iter = (probe = lb \<or> probe = ub)
        in if lb + ub > INT_MAX \<or> \<not> in_range probe in2 then None
        else if inval = in2 ! nat probe then Some True
        else if is_last_iter then Some False
        else if inval > in2 ! nat probe then log_loop in2 inval probe ub
        else log_loop in2 inval lb probe)
     else Some False)"
  by auto
termination by (relation "measure (\<lambda>(in2, inval, lb, ub). nat (ub - lb))") auto

declare simple_loop.simps [simp del]
declare log_loop.simps [simp del]

definition cmp_simple :: "int list \<Rightarrow> int \<Rightarrow> int list \<Rightarrow> int \<Rightarrow> I1 kernel" where
  "cmp_simple in1 n1 in2 n2 = ewise1 (\<lambda>inval. map_option c_bool (simple_loop in2 inval 0 n2)) in1 n1"

definition cmp_log :: "int list \<Rightarrow> int \<Rightarrow> int list \<Rightarrow> int \<Rightarrow> I1 kernel" where
  "cmp_log in1 n1 in2 n2 = ewise1 (\<lambda>inval. map_option c_bool (log_loop in2 inval 0 n2)) in1 n1"

definition cmp_eq_mult_scalar_simple_I1 :: "I1 list \<Rightarrow> int \<Rightarrow> I1 list \<Rightarrow> int \<Rightarrow> I1 kernel" where
  "cmp_eq_mult_scalar_simple_I1 in1 n1 in2 n2 = cmp_simple (map sint in1) n1 (map sint in2) n2"

definition cmp_eq_mult_scalar_simple_I2 :: "I2 list \<Rightarrow> int \<Rightarrow> I2 list \<Rightarrow> int \<Rightarrow> I1 kernel" where
  "cmp_eq_mult_scalar_simple_I2 in1 n1 in2 n2 = cmp_simple (map sint in1) n1 (map sint in2) n2"

definition cmp_eq_mult_scalar_simple_I4 :: "I4 list \<Rightarrow> int \<Rightarrow> I4 list \<Rightarrow> int \<Rightarrow> I1 kernel" where
  "cmp_eq_mult_scalar_simple_I4 in1 n1 in2 n2 = cmp_simple (map sint in1) n1 (map sint in2) n2"

definition cmp_eq_mult_scalar_simple_I8 :: "I8 list \<Rightarrow> int \<Rightarrow> I8 list \<Rightarrow> int \<Rightarrow> I1 kernel" where
  "cmp_eq_mult_scalar_simple_I8 in1 n1 in2 n2 = cmp_simple (map sint in1) n1 (map sint in2) n2"

definition cmp_eq_mult_scalar_log_I1 :: "I1 list \<Rightarrow> int \<Rightarrow> I1 list \<Rightarrow> int \<Rightarrow> I1 kernel" where
  "cmp_eq_mult_scalar_log_I1 in1 n1 in2 n2 = cmp_log (map sint in1) n1 (map sint in2) n2"

definition cmp_eq_mult_scalar_log_I2 :: "I2 list \<Rightarrow> int \<Rightarrow> I2 list \<Rightarrow> int \<Rightarrow> I1 kernel" where
  "cmp_eq_mult_scalar_log_I2 in1 n1 in2 n2 = cmp_log (map sint in1) n1 (map sint in2) n2"

definition cmp_eq_mult_scalar_log_I4 :: "I4 list \<Rightarrow> int \<Rightarrow> I4 list \<Rightarrow> int \<Rightarrow> I1 kernel" where
  "cmp_eq_mult_scalar_log_I4 in1 n1 in2 n2 = cmp_log (map sint in1) n1 (map sint in2) n2"

definition cmp_eq_mult_scalar_log_I8 :: "I8 list \<Rightarrow> int \<Rightarrow> I8 list \<Rightarrow> int \<Rightarrow> I1 kernel" where
  "cmp_eq_mult_scalar_log_I8 in1 n1 in2 n2 = cmp_log (map sint in1) n1 (map sint in2) n2"

definition cmp_eq_mult_scalar_I1 :: "I1 list \<Rightarrow> int \<Rightarrow> I1 list \<Rightarrow> int \<Rightarrow> I1 kernel" where
  "cmp_eq_mult_scalar_I1 in1 n1 in2 n2 = (if n2 \<le> 8 then cmp_eq_mult_scalar_simple_I1 in1 n1 in2 n2
     else cmp_eq_mult_scalar_log_I1 in1 n1 in2 n2)"

definition cmp_eq_mult_scalar_I2 :: "I2 list \<Rightarrow> int \<Rightarrow> I2 list \<Rightarrow> int \<Rightarrow> I1 kernel" where
  "cmp_eq_mult_scalar_I2 in1 n1 in2 n2 = (if n2 \<le> 8 then cmp_eq_mult_scalar_simple_I2 in1 n1 in2 n2
     else cmp_eq_mult_scalar_log_I2 in1 n1 in2 n2)"

definition cmp_eq_mult_scalar_I4 :: "I4 list \<Rightarrow> int \<Rightarrow> I4 list \<Rightarrow> int \<Rightarrow> I1 kernel" where
  "cmp_eq_mult_scalar_I4 in1 n1 in2 n2 = (if n2 \<le> 8 then cmp_eq_mult_scalar_simple_I4 in1 n1 in2 n2
     else cmp_eq_mult_scalar_log_I4 in1 n1 in2 n2)"

definition cmp_eq_mult_scalar_I8 :: "I8 list \<Rightarrow> int \<Rightarrow> I8 list \<Rightarrow> int \<Rightarrow> I1 kernel" where
  "cmp_eq_mult_scalar_I8 in1 n1 in2 n2 = (if n2 \<le> 8 then cmp_eq_mult_scalar_simple_I8 in1 n1 in2 n2
     else cmp_eq_mult_scalar_log_I8 in1 n1 in2 n2)"

subsection \<open>which\_bin\<close>

definition which_bin :: "int \<Rightarrow> int list \<Rightarrow> int list \<Rightarrow> int \<Rightarrow> (int \<times> bool) outcome" where
  "which_bin inval lb_vals ub_vals nvals =
     (let n = nat nvals; m = min n (min (length lb_vals) (length ub_vals)) in
      case find_from (\<lambda>i. inval \<ge> lb_vals ! i \<and> inval \<le> ub_vals ! i) 0 m of
        Some i \<Rightarrow> Ret (int i, True)
      | None \<Rightarrow> if m < n then Fault else Ret (- 1, False))"

definition which_bin_I4 :: "I4 \<Rightarrow> I4 list \<Rightarrow> I4 list \<Rightarrow> int \<Rightarrow> (int \<times> bool) outcome" where
  "which_bin_I4 inval lb_vals ub_vals = which_bin (sint inval) (map sint lb_vals) (map sint ub_vals)"

definition which_bin_I8 :: "I8 \<Rightarrow> I8 list \<Rightarrow> I8 list \<Rightarrow> int \<Rightarrow> (int \<times> bool) outcome" where
  "which_bin_I8 inval lb_vals ub_vals = which_bin (sint inval) (map sint lb_vals) (map sint ub_vals)"

subsection \<open>Binary search\<close>

definition found_at :: "int list \<Rightarrow> int \<Rightarrow> int \<Rightarrow> bool" where
  "found_at X key pos \<longleftrightarrow>
     (if key \<in> set X then in_range pos X \<and> X ! nat pos = key else pos = - 1)"

lemma bs_probe_spec:
  assumes "sorted X" and "0 \<le> lb" and "ub < int (length X)"
    and "\<forall>i < length X. X ! i = key \<longrightarrow> lb \<le> int i \<and> int i \<le> ub"
  shows "\<exists>pos. bs_probe X key lb ub = Ret pos \<and> found_at X key pos"
  using assms
proof (induction X key lb ub rule: bs_probe.induct)
  case (1 X key lb ub)
  show ?case
  proof (cases "lb \<le> ub")
    case False
    then have "key \<notin> set X" using 1(6) by (fastforce simp: in_set_conv_nth)
    then show ?thesis using False by (simp add: bs_probe.simps[of X key lb] found_at_def)
  next
    case True
    define mid where "mid = (lb + ub) div 2"
    have mid: "lb \<le> mid" "mid \<le> ub" "in_range mid X" using True 1(4,5) by (auto simp: mid_def in_range_def)
    have order: "\<And>i j. i \<le> j \<Longrightarrow> j < length X \<Longrightarrow> X ! i \<le> X ! j" using 1(3) by (simp add: sorted_nth_mono)
    have run: "bs_probe X key lb ub = (if X ! nat mid = key then Ret mid
        else if key < X ! nat mid then bs_probe X key lb (min (ub - 1) mid)
        else bs_probe X key (max (lb + 1) mid) ub)"
      using True mid(3) by (simp add: bs_probe.simps[of X key lb ub] Let_def mid_def)
    consider "X ! nat mid = key" | "key < X ! nat mid" | "X ! nat mid < key" by linarith
    then show ?thesis
    proof cases
      case 1
      have "key \<in> set X" using 1 mid(3) by (auto simp: in_range_nat)
      then show ?thesis using 1 run mid(3) by (simp add: found_at_def)
    next
      case 2
      have "lb \<le> int i \<and> int i \<le> min (ub - 1) mid" if "i < length X" "X ! i = key" for i
        using that 2 order[of "nat mid" i] "1.prems"(4) mid by fastforce
      then show ?thesis
        using 2 run "1.IH"(1)[OF True mid_def] "1.prems" mid by (auto simp: in_range_def)
    next
      case 3
      have "max (lb + 1) mid \<le> int i \<and> int i \<le> ub" if "i < length X" "X ! i = key" for i
        using that 3 order[of i "nat mid"] "1.prems"(4) mid by (fastforce simp: in_range_nat)
      then show ?thesis
        using 3 run "1.IH"(2)[OF True mid_def] "1.prems" mid by (auto simp: in_range_def)
    qed
  qed
qed

lemma bs_down_spec:
  assumes "in_range pos X" and "X ! nat pos = key" and "sorted X"
  shows "\<exists>p. bs_down X key pos = Ret p \<and> in_range p X \<and> X ! nat p = key \<and> (\<forall>i < nat p. X ! i < key)"
  using assms
proof (induction X key pos rule: bs_down.induct)
  case (1 X key pos)
  show ?case
  proof (cases "pos > 0 \<and> X ! nat (pos - 1) = key")
    case True
    then show ?thesis using 1 by (simp add: bs_down.simps[of X key pos] in_range_def)
  next
    case False
    have "X ! i < key" if "i < nat pos" for i
    proof -
      have "X ! i \<le> X ! nat (pos - 1)" "X ! nat (pos - 1) \<le> X ! nat pos"
        using that 1(2,4) by (auto simp: in_range_def sorted_nth_mono)
      then show ?thesis using that False 1(3) by auto
    qed
    then show ?thesis using False 1(2,3) by (auto simp: bs_down.simps[of X key pos] in_range_def)
  qed
qed

lemma bs_up_spec:
  assumes "in_range pos X" and "X ! nat pos = key" and "sorted X" and "nX = int (length X)"
  shows "\<exists>p. bs_up X key nX pos = Ret p \<and> in_range p X \<and> X ! nat p = key \<and>
    (\<forall>i < length X. nat p < i \<longrightarrow> key < X ! i)"
  using assms
proof (induction X key nX pos rule: bs_up.induct)
  case (1 X key nX pos)
  show ?case
  proof (cases "pos < nX - 1 \<and> X ! nat (pos + 1) = key")
    case True
    then show ?thesis using 1 by (simp add: bs_up.simps[of X key "int (length X)" pos] in_range_def)
  next
    case False
    have "key < X ! i" if "nat pos < i" "i < length X" for i
    proof -
      have "X ! nat pos \<le> X ! nat (pos + 1)" "X ! nat (pos + 1) \<le> X ! i"
        using that 1(2,4) by (auto simp: in_range_def sorted_nth_mono)
      then show ?thesis using that False 1(2,3,5) by (auto simp: in_range_def)
    qed
    then show ?thesis using False 1(2,3,5) by (auto simp: bs_up.simps[of X key "int (length X)" pos] in_range_def)
  qed
qed

lemma bs_up_absent:
  assumes "key \<notin> set X" and "nX = int (length X)"
  shows "bs_up X key nX (- 1) = Ret (- 1)"
  using assms by (auto simp: bs_up.simps[of X key "int (length X)" "- 1"] in_range_def)

definition search_result :: "int list \<Rightarrow> int \<Rightarrow> bsearch_direction \<Rightarrow> int \<Rightarrow> bool" where
  "search_result X key dir pos \<longleftrightarrow> found_at X key pos \<and>
     (key \<in> set X \<longrightarrow> (case dir of
         BSEARCH_LOWEST \<Rightarrow> \<forall>i < nat pos. X ! i < key
       | BSEARCH_HIGHEST \<Rightarrow> \<forall>i < length X. nat pos < i \<longrightarrow> key < X ! i
       | BSEARCH_DONTCARE \<Rightarrow> True))"

lemma bin_search_spec:
  assumes "sorted X" and "X \<noteq> []" and "unstr_direction d = Some dir"
  shows "\<exists>pos. bin_search (Some X) (int (length X)) key d = Ret pos \<and> search_result X key dir pos"
proof (cases "length X = 1")
  case True
  then obtain x where "X = [x]" by (auto simp: length_Suc_conv)
  then show ?thesis
    by (cases dir) (auto simp: bin_search_def in_range_def search_result_def found_at_def)
next
  case False
  have len: "int (length X) \<noteq> 1" "\<not> int (length X) \<le> 0" using False assms(2) by simp_all
  obtain pos where pos: "bs_probe X key 0 (int (length X) - 1) = Ret pos" "found_at X key pos"
    using bs_probe_spec[OF assms(1), of 0 "int (length X) - 1" key] assms(2) by auto
  have run: "bin_search (Some X) (int (length X)) key d = (case dir of
      BSEARCH_LOWEST \<Rightarrow> bs_down X key pos | BSEARCH_HIGHEST \<Rightarrow> bs_up X key (int (length X)) pos
    | BSEARCH_DONTCARE \<Rightarrow> Ret pos)"
    using pos(1) assms(3) len by (simp add: bin_search_def)
  show ?thesis
  proof (cases "key \<in> set X")
    case True
    then have at: "in_range pos X" "X ! nat pos = key" using pos(2) by (simp_all add: found_at_def)
    show ?thesis
      using bs_down_spec[OF at assms(1)] bs_up_spec[OF at assms(1) refl] pos(2) True
      by (cases dir) (auto simp: run search_result_def found_at_def)
  next
    case absent: False
    then have "pos = - 1" using pos(2) by (simp add: found_at_def)
    then show ?thesis
      using absent bs_up_absent[OF absent refl]
      by (cases dir) (auto simp: run search_result_def found_at_def bs_down.simps[of X key "- 1"])
  qed
qed

text \<open>C33: On a column in ascending order \<open>bin_search_I4\<close> returns: the position of the key, the
  lowest or the highest one when asked for, and \<open>-1\<close> exactly when the key does not occur.  It
  reads no entry outside the column.  An unknown direction is an error, but only for columns
  of more than one row.\<close>

theorem bin_search_I4_spec:
  assumes "sorted (map sint X)" and "X \<noteq> []"
  shows "case unstr_direction d of
       Some dir \<Rightarrow> \<exists>pos. bin_search_I4 (Some X) (int (length X)) key d = Ret pos \<and>
          search_result (map sint X) (sint key) dir pos \<and> (pos = - 1 \<longleftrightarrow> key \<notin> set X)
     | None \<Rightarrow> bin_search_I4 (Some X) (int (length X)) key d =
          (if length X = 1 then Ret (if hd X = key then 0 else - 1) else Bye)"
proof (cases "unstr_direction d")
  case None
  have "X = [x] \<Longrightarrow> (sint x = sint key) = (x = key)" for x by (auto intro: signed_word_eqI)
  moreover have "\<exists>pos. bs_probe (map sint X) (sint key) 0 (int (length X) - 1) = Ret pos"
    using bs_probe_spec[OF assms(1), of 0 "int (length X) - 1" "sint key"] assms(2) by auto
  ultimately show ?thesis
    using None assms(2) by (cases X) (auto simp: bin_search_I4_def bin_search_def in_range_def split: outcome.splits)
next
  case (Some dir)
  have mem: "sint key \<in> set (map sint X) \<longleftrightarrow> key \<in> set X" by (auto dest: signed_word_eqI)
  obtain pos where "bin_search_I4 (Some X) (int (length X)) key d = Ret pos"
    "search_result (map sint X) (sint key) dir pos"
    using bin_search_spec[OF assms(1) _ Some, of "sint key"] assms(2) by (auto simp: bin_search_I4_def)
  moreover from this(2) have "pos = - 1 \<longleftrightarrow> key \<notin> set X"
    unfolding search_result_def found_at_def mem by (auto simp: in_range_def split: if_splits)
  ultimately show ?thesis using Some by auto
qed

theorem bin_search_I4_spec_witness:
  "\<exists>pos. bin_search_I4 (Some [-3, 5, 5, 9]) 4 5 (Some ''Lowest'') = Ret pos \<and>
     search_result [-3, 5, 5, 9] 5 BSEARCH_LOWEST pos"
proof -
  have "unstr_direction (Some ''Lowest'') = Some BSEARCH_LOWEST" by code_simp
  then show ?thesis using bin_search_I4_spec[where X = "[-3, 5, 5, 9]" and d = "Some ''Lowest''" and key = 5] by auto
qed

subsection \<open>Membership\<close>

lemma simple_loop_run:
  assumes "0 \<le> j" and "n2 \<le> int (length in2)"
  shows "simple_loop in2 x j n2 = Some (\<exists>i < length in2. j \<le> int i \<and> int i < n2 \<and> in2 ! i = x)"
  using assms
proof (induction in2 x j n2 rule: simple_loop.induct)
  case (1 in2 x j n2)
  show ?case
  proof (cases "j < n2")
    case True
    have ext: "(\<exists>i < length in2. j \<le> int i \<and> int i < n2 \<and> in2 ! i = x) \<longleftrightarrow>
        in2 ! nat j = x \<or> (\<exists>i < length in2. j + 1 \<le> int i \<and> int i < n2 \<and> in2 ! i = x)"
      (is "?l \<longleftrightarrow> _ \<or> ?r")
    proof
      assume ?l
      then obtain i where i: "i < length in2" "j \<le> int i" "int i < n2" "in2 ! i = x" by blast
      then show "in2 ! nat j = x \<or> ?r" by (cases "j = int i") auto
    next
      assume "in2 ! nat j = x \<or> ?r"
      then show ?l
      proof
        assume "in2 ! nat j = x"
        then show ?l using True 1(2,3) by (intro exI[of _ "nat j"]) auto
      qed auto
    qed
    show ?thesis
      using True 1 by (subst simple_loop.simps) (auto simp: in_range_def ext)
  qed (subst simple_loop.simps, auto)
qed

lemma log_loop_run:
  assumes "sorted in2" and "0 \<le> lb" and "ub \<le> int (length in2)" and "2 * ub \<le> INT_MAX"
    and "\<forall>i < length in2. in2 ! i = x \<longrightarrow> lb \<le> int i \<and> int i < ub"
  shows "log_loop in2 x lb ub = Some (x \<in> set in2)"
  using assms
proof (induction in2 x lb ub rule: log_loop.induct)
  case (1 in2 x lb ub)
  show ?case
  proof (cases "lb < ub")
    case False
    then show ?thesis using 1(7) by (subst log_loop.simps) (fastforce simp: in_set_conv_nth)
  next
    case True
    define p where "p = (lb + ub) div 2"
    have p: "lb \<le> p" "p < ub" "in_range p in2" "lb + ub \<le> INT_MAX"
      using True 1(4-6) by (auto simp: p_def in_range_def)
    have order: "\<And>i j. i \<le> j \<Longrightarrow> j < length in2 \<Longrightarrow> in2 ! i \<le> in2 ! j" using 1(3) by (simp add: sorted_nth_mono)
    have run: "log_loop in2 x lb ub = (if x = in2 ! nat p then Some True else if p = lb then Some False
        else if x > in2 ! nat p then log_loop in2 x p ub else log_loop in2 x lb p)"
      using True p by (subst log_loop.simps) (auto simp: Let_def p_def)
    have above: "p \<le> int i \<and> int i < ub" if "i < length in2" "in2 ! i = x" "x > in2 ! nat p" for i
      using that order[of i "nat p"] "1.prems"(5) p by (fastforce simp: in_range_nat)
    have below: "lb \<le> int i \<and> int i < p" if "i < length in2" "in2 ! i = x" "\<not> x > in2 ! nat p" "x \<noteq> in2 ! nat p" for i
      using that order[of "nat p" i] "1.prems"(5) p by (fastforce simp: in_range_nat)
    consider "x = in2 ! nat p" | "x \<noteq> in2 ! nat p" "p = lb" | "p \<noteq> lb" "x > in2 ! nat p"
      | "p \<noteq> lb" "x \<noteq> in2 ! nat p" "\<not> x > in2 ! nat p" by blast
    then show ?thesis
    proof cases
      case 1
      then show ?thesis using run p(3) by (simp add: in_range_nat)
    next
      case 2
      have "ub = lb + 1" using 2(2) True unfolding p_def by linarith
      then have "x \<notin> set in2" using 2 above below by (fastforce simp: in_set_conv_nth)
      then show ?thesis using 2 run by simp
    next
      case 3
      then show ?thesis
        using run "1.IH"(1)[OF True p_def refl] "1.prems" p above by auto
    next
      case 4
      then show ?thesis
        using run "1.IH"(2)[OF True p_def refl] "1.prems" p below by auto
    qed
  qed
qed

lemma cmp_simple_run:
  assumes "nat n1 \<le> length in1" and "nat n1 \<le> length out" and "n2 = int (length in2)"
  shows "cmp_simple in1 n1 in2 n2 out = (Ret (), map (\<lambda>x. c_bool (x \<in> set in2)) (take (nat n1) in1) @ drop (nat n1) out)"
  unfolding cmp_simple_def using assms
  by (intro ewise1_run) (auto simp: simple_loop_run in_set_conv_nth)

lemma cmp_log_run:
  assumes "nat n1 \<le> length in1" and "nat n1 \<le> length out" and "n2 = int (length in2)"
    and "sorted in2" and "2 * n2 \<le> INT_MAX"
  shows "cmp_log in1 n1 in2 n2 out = (Ret (), map (\<lambda>x. c_bool (x \<in> set in2)) (take (nat n1) in1) @ drop (nat n1) out)"
  unfolding cmp_log_def using assms by (intro ewise1_run) (auto simp: log_loop_run)

lemma sint_mem: "(sint x \<in> sint ` S) = (x \<in> S)"
  by (auto dest: signed_word_eqI)

lemma map_sint_mem:
  "map (\<lambda>x. c_bool (x \<in> sint ` S)) (take n (map sint xs)) = map (\<lambda>x. c_bool (x \<in> S)) (take n xs)"
  by (simp add: take_map sint_mem comp_def)

text \<open>For a list of at most \<open>2^30\<close> scalars in ascending order, the test whether the values of
  a column occur in the list gives the same answer with the linear and with the logarithmic
  variant, so the choice by the length of the list does not matter: every row holds one or
  zero according to membership, and no variant reads outside the list.\<close>

theorem cmp_eq_mult_scalar_I4_member:
  assumes "sorted (map sint in2)" and "length in2 < 2 ^ 30" and "nat n1 \<le> length in1" and "nat n1 \<le> length out"
  shows "cmp_eq_mult_scalar_I4 in1 n1 in2 (int (length in2)) out =
       (Ret (), map (\<lambda>x. c_bool (x \<in> set in2)) (take (nat n1) in1) @ drop (nat n1) out) \<and>
     cmp_eq_mult_scalar_log_I4 in1 n1 in2 (int (length in2)) out =
       cmp_eq_mult_scalar_simple_I4 in1 n1 in2 (int (length in2)) out"
proof -
  have "2 * int (length in2) \<le> INT_MAX" using assms(2) by simp
  then show ?thesis
    using assms cmp_log_run[of n1 "map sint in1" out "int (length in2)" "map sint in2"]
      cmp_simple_run[of n1 "map sint in1" out "int (length in2)" "map sint in2"]
    by (simp add: cmp_eq_mult_scalar_I4_def cmp_eq_mult_scalar_log_I4_def cmp_eq_mult_scalar_simple_I4_def map_sint_mem)
qed

theorem cmp_eq_mult_scalar_I4_member_witness:
  "cmp_eq_mult_scalar_I4 [7, -2] 2 [-9, -8, -7, -6, -2, 0, 1, 2, 3] 9 [5, 5] = (Ret (), [0, 1])"
  using cmp_eq_mult_scalar_I4_member[of "[-9, -8, -7, -6, -2, 0, 1, 2, 3]" 2 "[7, -2]" "[5, 5]"] by simp

end
