(* ===== verification/K_Bits.thy ===== *)
theory K_Bits
  imports K_Prelude
begin

text \<open>
  Bit vectors: \<open>AUX/conv_I1_to_B.c\<close> packs a column of truth values into bits, eight rows per
  byte with the first row in the lowest bit, \<open>AUX/conv_B_to_I1.c\<close> unpacks it, and
  \<open>AUX/bitcount_*.c\<close> counts the bits of each value.
\<close>

unbundle bit_operations_syntax

subsection \<open>conv\_I1\_to\_B\<close>

text \<open>The inner loop: \<open>len\<close> rows from \<open>xindex\<close> are shifted into the \<open>unsigned int\<close> \<open>uiy\<close>.  A \<open>char\<close> is
  sign extended.  In the loop over full bytes a value other than zero and one is left out
  and sets the status to -1 (\<open>chk\<close>: the code is compiled with \<open>DEBUG\<close>).\<close>

fun pack_bits :: "bool \<Rightarrow> I1 list \<Rightarrow> nat \<Rightarrow> nat \<Rightarrow> 32 word option" where
  "pack_bits chk X xindex 0 = Some 0"
| "pack_bits chk X xindex (Suc j) = Option.bind (pack_bits chk X xindex j) (\<lambda>uiy.
     Option.bind (get_at X (xindex + j)) (\<lambda>x.
       Some (if chk \<and> x \<noteq> 0 \<and> x \<noteq> 1 then uiy else uiy OR push_bit j (scast x))))"

text \<open>In round \<open>k\<close> the counters \<open>xindex\<close> and \<open>yindex\<close> are \<open>8 * k\<close> and \<open>k\<close>.  The checks after the
  loops compare them with \<open>nX\<close> and fail exactly for a negative \<open>nX\<close>; a status of -1 from a
  full byte is returned at the end.\<close>

definition conv_I1_to_B :: "I1 list \<Rightarrow> int \<Rightarrow> I1 kernel" where
  "conv_I1_to_B X nX = (let n = nat nX; q = n div 8; leftover = n mod 8 in
     seq (fill (\<lambda>k. map_option ucast (pack_bits True X (8 * k) 8)) q)
    (seq (if leftover > 0
          then (case pack_bits False X (8 * q) leftover of None \<Rightarrow> fault | Some uiy \<Rightarrow> put_at q (ucast uiy))
          else ret ())
         (guard (nX \<ge> 0 \<and> (\<forall>x \<in> set (take (8 * q) X). x = 0 \<or> x = 1)))))"

subsection \<open>conv\_B\_to\_I1\<close>

fun unpack_bits :: "nat \<Rightarrow> I1 \<Rightarrow> nat \<Rightarrow> I1 kernel" where
  "unpack_bits 0 uix yindex = ret ()"
| "unpack_bits (Suc j) uix yindex =
     seq (put_at yindex (if uix AND 1 = 1 then 1 else 0)) (unpack_bits j (drop_bit 1 uix) (Suc yindex))"

definition unpack_at :: "I1 list \<Rightarrow> nat \<Rightarrow> nat \<Rightarrow> I1 kernel" where
  "unpack_at X k len = (case get_at X k of None \<Rightarrow> fault | Some uix \<Rightarrow> unpack_bits len uix (8 * k))"

definition conv_B_to_I1 :: "I1 list \<Rightarrow> int \<Rightarrow> I1 kernel" where
  "conv_B_to_I1 X nX = (let n = nat nX; q = n div 8; leftover = n mod 8 in
     seq (for_each (\<lambda>k. unpack_at X k 8) [0..<q])
    (seq (if leftover > 0 then unpack_at X q leftover else ret ())
         (guard (nX \<ge> 0))))"

subsection \<open>bitcount\<close>

fun count_bits :: "nat \<Rightarrow> 'a::len word \<Rightarrow> I4 \<Rightarrow> I4" where
  "count_bits 0 temp irslt = irslt"
| "count_bits (Suc j) temp irslt = count_bits j (drop_bit 1 temp) (irslt + ucast (temp AND 1))"

definition bitcount_I4 :: "I4 list \<Rightarrow> int \<Rightarrow> I4 kernel" where
  "bitcount_I4 = ewise1 (\<lambda>x. Some (count_bits 32 x 0))"

definition bitcount_I8 :: "I8 list \<Rightarrow> int \<Rightarrow> I4 kernel" where
  "bitcount_I8 = ewise1 (\<lambda>x. Some (count_bits 64 x 0))"

subsection \<open>f\_to\_s\_sum\_B\<close>

text \<open>\<open>__builtin_popcount\<close> of a byte; the code treats a negative \<open>char\<close> by counting its top bit
  apart.\<close>

definition popcount :: "I1 \<Rightarrow> nat" where
  "popcount b = length (filter (bit b) [0..<8])"

definition mask_byte_L :: "I1 \<Rightarrow> nat \<Rightarrow> I1 option" where
  "mask_byte_L c nbits = (if nbits = 1 then Some (c AND 0x80) else if nbits = 2 then Some (c AND 0xB0)
     else if nbits = 3 then Some (c AND 0xD0) else if nbits = 4 then Some (c AND 0xF0)
     else if nbits = 5 then Some (c AND 0xF8) else if nbits = 6 then Some (c AND 0xFB)
     else if nbits = 7 then Some (c AND 0xFD) else None)"

definition mask_byte_R :: "I1 \<Rightarrow> nat \<Rightarrow> I1 option" where
  "mask_byte_R c nbits = (if nbits = 1 then Some (c AND 0x01) else if nbits = 2 then Some (c AND 0x03)
     else if nbits = 3 then Some (c AND 0x07) else if nbits = 4 then Some (c AND 0x0F)
     else if nbits = 5 then Some (c AND 0x1F) else if nbits = 6 then Some (c AND 0x3F)
     else if nbits = 7 then Some (c AND 0x7F) else None)"

text \<open>The set bits of \<open>len\<close> bytes from byte \<open>from\<close>, as the three loops over whole bytes and 64-bit
  words add them up.\<close>

definition sum_bytes :: "I1 list \<Rightarrow> int \<Rightarrow> int \<Rightarrow> int outcome" where
  "sum_bytes X from len = (if len \<le> 0 then Ret 0
     else if 0 \<le> from \<and> nat from + nat len \<le> length X
     then Ret (int (sum_list (map popcount (take (nat len) (drop (nat from) X))))) else Fault)"

definition sum_masked :: "(I1 \<Rightarrow> nat \<Rightarrow> I1 option) \<Rightarrow> I1 list \<Rightarrow> int \<Rightarrow> int \<Rightarrow> int outcome" where
  "sum_masked msk X pos nbits = (if nbits \<le> 0 then Ret 0 else if \<not> in_range pos X then Fault
     else (case msk (X ! nat pos) (nat nbits) of None \<Rightarrow> Bye | Some c \<Rightarrow> Ret (int (popcount c))))"

text \<open>The part before the first 64-bit boundary, the words, and the part after the last
  boundary; \<open>rslt\<close> is the value the result variable has on entry.\<close>

definition f_to_s_sum_B :: "I1 list \<Rightarrow> int \<Rightarrow> int \<Rightarrow> int \<Rightarrow> int outcome" where
  "f_to_s_sum_B X lb ub rslt = (let
       lb1 = c_div lb 64 * 64;
       lb2 = (if lb1 \<noteq> lb then lb1 + 64 else lb1);
       ub2 = c_div ub 64 * 64;
       lbytes = c_div (lb2 - lb) 8;
       lfrom = c_div lb2 8 - lbytes;
       rbytes = c_div (ub - ub2) 8
     in case (if lb < lb2 then sum_bytes X lfrom lbytes else Ret 0) of Fault \<Rightarrow> Fault | Bye \<Rightarrow> Bye | Ret a \<Rightarrow>
       (case (if lb < lb2 then sum_masked mask_byte_L X (lfrom - 1 + lbytes) (lb2 - lb - lbytes * 8) else Ret 0) of
         Fault \<Rightarrow> Fault | Bye \<Rightarrow> Bye | Ret b \<Rightarrow>
       (case sum_bytes X (c_div lb2 8) (c_div (ub2 - lb2) 64 * 8) of Fault \<Rightarrow> Fault | Bye \<Rightarrow> Bye | Ret c \<Rightarrow>
       (case (if ub > ub2 then sum_bytes X (c_div ub2 8) rbytes else Ret 0) of Fault \<Rightarrow> Fault | Bye \<Rightarrow> Bye | Ret d \<Rightarrow>
       (case (if ub > ub2 then sum_masked mask_byte_R X (c_div ub2 8 + rbytes) (ub - ub2 - rbytes * 8) else Ret 0) of
         Fault \<Rightarrow> Fault | Bye \<Rightarrow> Bye | Ret e \<Rightarrow> Ret (rslt + (a + b + c + d + e)))))))"

subsection \<open>Packing\<close>

definition truth_values :: "I1 list \<Rightarrow> bool" where
  "truth_values X \<longleftrightarrow> set X \<subseteq> {0, 1}"

text \<open>The byte that holds the rows \<open>8 * k\<close> to \<open>8 * k + 7\<close> of the first \<open>n\<close> rows.\<close>

definition byte_of :: "I1 list \<Rightarrow> nat \<Rightarrow> nat \<Rightarrow> I1 \<Rightarrow> bool" where
  "byte_of X n k b \<longleftrightarrow> (\<forall>j < 8. bit b j \<longleftrightarrow> 8 * k + j < n \<and> X ! (8 * k + j) = 1)"

lemma byte_of_unique: "byte_of X n k b \<Longrightarrow> byte_of X n k c \<Longrightarrow> b = c"
  by (rule bit_word_eqI) (auto simp: byte_of_def)

lemma truth_valuesD: "truth_values X \<Longrightarrow> i < length X \<Longrightarrow> X ! i = 0 \<or> X ! i = 1"
  unfolding truth_values_def using nth_mem by fastforce

lemma pack_bits_run:
  assumes "truth_values X" and "xindex + len \<le> length X" and "len \<le> 32"
  shows "\<exists>u. pack_bits chk X xindex len = Some u \<and> (\<forall>j < 32. bit u j \<longleftrightarrow> j < len \<and> X ! (xindex + j) = 1)"
  using assms(2,3)
proof (induction len)
  case (Suc len)
  then obtain u where u: "pack_bits chk X xindex len = Some u"
    "\<forall>j < 32. bit u j \<longleftrightarrow> j < len \<and> X ! (xindex + j) = 1" by auto
  have x: "X ! (xindex + len) = 0 \<or> X ! (xindex + len) = 1"
    using truth_valuesD[OF assms(1)] Suc.prems by simp
  let ?v = "u OR push_bit len (scast (X ! (xindex + len)))"
  have "bit ?v j \<longleftrightarrow> j < Suc len \<and> X ! (xindex + j) = 1" if "j < 32" for j
    using x
  proof
    assume z: "X ! (xindex + len) = 0"
    then have "?v = u" by simp
    then show ?thesis using z u(2) that by (auto simp: less_Suc_eq)
  next
    assume o: "X ! (xindex + len) = 1"
    then have "bit ?v j \<longleftrightarrow> bit u j \<or> j = len"
      using that by (auto simp: bit_or_iff bit_push_bit_iff bit_exp_iff)
    then show ?thesis using o u(2) that by (auto simp: less_Suc_eq)
  qed
  moreover have "pack_bits chk X xindex (Suc len) = Some ?v" using u(1) x Suc.prems by (auto simp: get_at_def)
  ultimately show ?case by blast
qed simp

lemma byte_of_pack:
  assumes "truth_values X" and "8 * k + len \<le> length X" and "len \<le> 8" and "n = 8 * k + len \<or> 8 * k + 8 \<le> n \<and> len = 8"
  shows "\<exists>u. pack_bits chk X (8 * k) len = Some u \<and> byte_of X n k (ucast u)"
proof -
  obtain u where u: "pack_bits chk X (8 * k) len = Some u"
    "\<forall>j < 32. bit u j \<longleftrightarrow> j < len \<and> X ! (8 * k + j) = 1"
    using pack_bits_run[OF assms(1,2)] assms(3) by auto
  then have "byte_of X n k (ucast u)"
    using assms(3,4) by (auto simp: byte_of_def bit_simps)
  then show ?thesis using u(1) by blast
qed

lemma conv_I1_to_B_run:
  assumes "truth_values X" and "0 \<le> nX" and "nat nX \<le> length X" and "(nat nX + 7) div 8 \<le> length Y"
  shows "\<exists>bs. conv_I1_to_B X nX Y = (Ret (), bs @ drop (length bs) Y) \<and> length bs = (nat nX + 7) div 8 \<and>
    (\<forall>k < length bs. byte_of X (nat nX) k (bs ! k))"
proof -
  define n q r where "n = nat nX" and "q = n div 8" and "r = n mod 8"
  have n: "n = 8 * q + r" "r < 8" by (simp_all add: q_def r_def)
  have qY: "q \<le> length Y" "r > 0 \<Longrightarrow> q < length Y" using assms(4) n unfolding n_def[symmetric] by auto
  let ?g = "\<lambda>k. map_option ucast (pack_bits True X (8 * k) 8) :: I1 option"
  let ?bs = "map (the \<circ> ?g) [0..<q]"
  have g: "?g k \<noteq> None \<and> byte_of X n k (the (?g k))" if "k < q" for k
  proof -
    have "8 * k + 8 \<le> n" "8 * k + 8 \<le> length X" using that assms(3) n unfolding n_def[symmetric] by linarith+
    then obtain u where "pack_bits True X (8 * k) 8 = Some u" "byte_of X n k (ucast u)"
      using byte_of_pack[OF assms(1), of k 8 n True] by blast
    then show ?thesis by simp
  qed
  have full: "fill ?g q Y = (Ret (), ?bs @ drop q Y)" using g by (intro fill_run[OF qY(1)]) simp
  have ok: "\<forall>x \<in> set (take (8 * q) X). x = 0 \<or> x = 1"
    using assms(1) by (auto simp: truth_values_def dest: in_set_takeD)
  show ?thesis
  proof (cases "r = 0")
    case True
    have "conv_I1_to_B X nX Y = (Ret (), ?bs @ drop q Y)"
      using full ok assms(2) True
      by (simp add: conv_I1_to_B_def Let_def seq_def bind_def ret_def guard_def flip: n_def q_def r_def)
    then show ?thesis using g n True unfolding n_def[symmetric] by (intro exI[of _ ?bs]) auto
  next
    case False
    obtain u where u: "pack_bits False X (8 * q) r = Some u" "byte_of X n q (ucast u)"
      using byte_of_pack[OF assms(1), of q r n False] n assms(3) unfolding n_def[symmetric] by auto
    let ?bs' = "?bs @ [ucast u]"
    have "drop q Y = Y ! q # drop (Suc q) Y" using qY(2) False by (simp add: Cons_nth_drop_Suc)
    then have "conv_I1_to_B X nX Y = (Ret (), ?bs' @ drop (Suc q) Y)"
      using full ok assms(2) False u(1) qY(2)
      by (simp add: conv_I1_to_B_def Let_def seq_def bind_def ret_def guard_def list_update_append flip: n_def q_def r_def)
    moreover have "length ?bs' = (n + 7) div 8" using n False by auto
    moreover have "\<forall>k < length ?bs'. byte_of X n k (?bs' ! k)" using g u(2) by (auto simp: nth_append less_Suc_eq)
    ultimately show ?thesis unfolding n_def[symmetric] by (intro exI[of _ ?bs']) simp
  qed
qed

subsection \<open>Unpacking\<close>

lemma unpack_bits_run:
  assumes "y + len \<le> length Z"
  shows "unpack_bits len u y Z = (Ret (), take y Z @ map (\<lambda>j. c_bool (bit u j)) [0..<len] @ drop (y + len) Z)"
  using assms
proof (induction len arbitrary: u y Z)
  case (Suc len)
  have one: "(if u AND 1 = 1 then 1 else 0 :: I1) = c_bool (bit u 0)"
    by (simp add: and_one_eq bit_0 odd_iff_mod_2_eq_one)
  have shift: "map (\<lambda>j. c_bool (bit u j)) [0..<Suc len] = c_bool (bit u 0) # map (\<lambda>j. c_bool (bit (drop_bit 1 u) j)) [0..<len]"
    by (simp add: upt_conv_Cons map_Suc_upt[symmetric] bit_drop_bit_eq comp_def del: upt_Suc)
  have "take (Suc y) (Z[y := c_bool (bit u 0)]) = take y Z @ [c_bool (bit u 0)]"
    using Suc.prems by (simp add: take_Suc_conv_app_nth)
  then show ?case
    using Suc.prems Suc.IH[of "Suc y" "Z[y := c_bool (bit u 0)]" "drop_bit 1 u"]
    by (simp add: one shift seq_def bind_def del: upt_Suc)
qed (simp add: ret_def)

definition bits_of :: "I1 list \<Rightarrow> nat \<Rightarrow> nat \<Rightarrow> I1 list" where
  "bits_of X lo hi = map (\<lambda>i. c_bool (bit (X ! (i div 8)) (i mod 8))) [lo..<hi]"

lemma bits_of_byte: "len \<le> 8 \<Longrightarrow> bits_of X (8 * k) (8 * k + len) = map (\<lambda>j. c_bool (bit (X ! k) j)) [0..<len]"
  by (rule nth_equalityI) (auto simp: bits_of_def)

lemma unpack_at_run:
  assumes "k < length X" and "len \<le> 8" and "8 * k + len \<le> length Z" and "take (8 * k) Z = bits_of X 0 (8 * k)"
  shows "unpack_at X k len Z = (Ret (), bits_of X 0 (8 * k + len) @ drop (8 * k + len) Z)"
proof -
  have "bits_of X 0 (8 * k + len) = bits_of X 0 (8 * k) @ bits_of X (8 * k) (8 * k + len)"
    unfolding bits_of_def by (simp only: upt_add_eq_append[OF le0] map_append)
  then show ?thesis
    using assms by (simp add: unpack_at_def get_at_def unpack_bits_run bits_of_byte)
qed

lemma unpack_full:
  assumes "q \<le> length X" and "8 * q \<le> length Z"
  shows "for_each (\<lambda>k. unpack_at X k 8) [0..<q] Z = (Ret (), bits_of X 0 (8 * q) @ drop (8 * q) Z)"
  using assms
proof (induction q)
  case (Suc q)
  have "length (bits_of X 0 (8 * q)) = 8 * q" by (simp add: bits_of_def)
  then have "unpack_at X q 8 (bits_of X 0 (8 * q) @ drop (8 * q) Z) =
      (Ret (), bits_of X 0 (8 * q + 8) @ drop (8 * q + 8) (bits_of X 0 (8 * q) @ drop (8 * q) Z))"
    using Suc.prems by (intro unpack_at_run) simp_all
  then show ?case
    using Suc by (simp add: for_each_snoc seq_def bind_def bits_of_def algebra_simps)
qed (simp add: bits_of_def ret_def)

lemma conv_B_to_I1_run:
  assumes "0 \<le> nX" and "(nat nX + 7) div 8 \<le> length X" and "nat nX \<le> length Z"
  shows "conv_B_to_I1 X nX Z = (Ret (), bits_of X 0 (nat nX) @ drop (nat nX) Z)"
proof -
  define n q r where "n = nat nX" and "q = n div 8" and "r = n mod 8"
  have n: "n = 8 * q + r" "r < 8" by (simp_all add: q_def r_def)
  have qX: "q \<le> length X" "r > 0 \<Longrightarrow> q < length X" using assms(2) n unfolding n_def[symmetric] by auto
  let ?Z = "bits_of X 0 (8 * q) @ drop (8 * q) Z"
  have full: "for_each (\<lambda>k. unpack_at X k 8) [0..<q] Z = (Ret (), ?Z)"
    using unpack_full[OF qX(1)] assms(3) n unfolding n_def[symmetric] by simp
  have len: "length (bits_of X 0 (8 * q)) = 8 * q" by (simp add: bits_of_def)
  have rest: "r > 0 \<Longrightarrow> unpack_at X q r ?Z = (Ret (), bits_of X 0 n @ drop n Z)"
    using unpack_at_run[of q X r ?Z] qX(2) n len assms(3) unfolding n_def[symmetric] by (simp add: add.commute)
  show ?thesis
    using full rest n assms(1)
    by (cases "r = 0") (simp_all add: conv_B_to_I1_def Let_def seq_def bind_def ret_def guard_def flip: n_def q_def r_def)
qed

text \<open>C34: Packing a column of truth values into a bit vector and unpacking it gives the column
  back, for every number of rows, whether or not it is a multiple of eight: neither
  direction faults when the vector has a byte for every eight rows begun, and the rest of
  the arrays is left alone.\<close>

theorem bit_vector_round_trip:
  assumes "set X \<subseteq> {0, 1}" and "0 \<le> nX" and "nat nX \<le> length X" and "(nat nX + 7) div 8 \<le> length Y"
    and "nat nX \<le> length Z"
  shows "\<exists>Y'. conv_I1_to_B X nX Y = (Ret (), Y') \<and> length Y' = length Y \<and>
     drop ((nat nX + 7) div 8) Y' = drop ((nat nX + 7) div 8) Y \<and>
     conv_B_to_I1 Y' nX Z = (Ret (), take (nat nX) X @ drop (nat nX) Z)"
proof -
  have tv: "truth_values X" using assms(1) by (simp add: truth_values_def)
  obtain bs where bs: "conv_I1_to_B X nX Y = (Ret (), bs @ drop (length bs) Y)" "length bs = (nat nX + 7) div 8"
    "\<forall>k < length bs. byte_of X (nat nX) k (bs ! k)"
    using conv_I1_to_B_run[OF tv assms(2-4)] by blast
  let ?Y = "bs @ drop (length bs) Y"
  have "bits_of ?Y 0 (nat nX) ! i = take (nat nX) X ! i" if "i < nat nX" for i
  proof -
    have k: "i div 8 < length bs" using that bs(2) by auto
    have "bit (?Y ! (i div 8)) (i mod 8) \<longleftrightarrow> X ! i = 1"
      using bs(3) k that by (auto simp: byte_of_def nth_append)
    moreover have "X ! i = 0 \<or> X ! i = 1" using truth_valuesD[OF tv] assms(3) that by simp
    ultimately show ?thesis using that assms(3) by (auto simp: bits_of_def)
  qed
  then have "bits_of ?Y 0 (nat nX) = take (nat nX) X"
    using assms(3) by (intro nth_equalityI) (auto simp: bits_of_def)
  moreover have "conv_B_to_I1 ?Y nX Z = (Ret (), bits_of ?Y 0 (nat nX) @ drop (nat nX) Z)"
    using bs(2) assms(2,4,5) by (intro conv_B_to_I1_run) simp_all
  ultimately show ?thesis using bs(1,2) assms(4) by (intro exI[of _ ?Y]) simp
qed

theorem bit_vector_round_trip_witness:
  "\<exists>Y'. conv_I1_to_B [1, 0, 1, 1, 0, 0, 0, 1, 1] 9 [7, 7] = (Ret (), Y') \<and>
     conv_B_to_I1 Y' 9 [5, 5, 5, 5, 5, 5, 5, 5, 5] = (Ret (), [1, 0, 1, 1, 0, 0, 0, 1, 1])"
  using bit_vector_round_trip[of "[1, 0, 1, 1, 0, 0, 0, 1, 1]" 9 "[7, 7]" "[5, 5, 5, 5, 5, 5, 5, 5, 5]"] by auto

subsection \<open>Counting bits\<close>

lemma count_bits_run: "count_bits k (w :: 'a::len word) r = r + of_nat (length (filter (bit w) [0..<k]))"
proof (induction k arbitrary: w r)
  case (Suc k)
  have one: "(ucast (w AND 1) :: I4) = of_nat (length (filter (bit w) [0]))"
    by (simp add: and_one_eq bit_0 odd_iff_mod_2_eq_one)
  have "filter (bit w) [0..<Suc k] = filter (bit w) [0] @ filter (bit w) (map Suc [0..<k])"
    by (simp add: upt_conv_Cons map_Suc_upt del: upt_Suc)
  then have "length (filter (bit w) [0..<Suc k]) =
      length (filter (bit w) [0]) + length (filter (bit (drop_bit 1 w)) [0..<k])"
    by (simp add: filter_map comp_def bit_drop_bit_eq del: upt_Suc)
  then show ?case using Suc.IH[of "drop_bit 1 w" "r + ucast (w AND 1)"] by (simp add: one del: upt_Suc)
qed simp

text \<open>The number of set bits among the bits \<open>lo\<close> to \<open>hi - 1\<close> of a bit vector.\<close>

definition ones :: "I1 list \<Rightarrow> nat \<Rightarrow> nat \<Rightarrow> nat" where
  "ones X lo hi = length (filter (\<lambda>i. bit (X ! (i div 8)) (i mod 8)) [lo..<hi])"

lemma ones_split: "lo \<le> m \<Longrightarrow> ones X lo (m + k) = ones X lo m + ones X m (m + k)"
  by (simp add: ones_def upt_add_eq_append[of lo m k])

lemma ones_part: "k \<le> 8 \<Longrightarrow> ones X (8 * p) (8 * p + k) = length (filter (bit (X ! p)) [0..<k])"
proof -
  assume k: "k \<le> 8"
  have "[8 * p..<8 * p + k] = map (\<lambda>j. 8 * p + j) [0..<k]" by (simp add: map_add_upt add.commute)
  moreover have "filter (\<lambda>j. bit (X ! ((8 * p + j) div 8)) ((8 * p + j) mod 8)) [0..<k] = filter (bit (X ! p)) [0..<k]"
    using k by (intro filter_cong) auto
  ultimately show ?thesis by (simp add: ones_def filter_map comp_def)
qed

lemma ones_bytes:
  "from + len \<le> length X \<Longrightarrow>
   sum_list (map popcount (take len (drop from X))) = ones X (8 * from) (8 * (from + len))"
proof (induction len)
  case (Suc len)
  have "ones X (8 * from) (8 * (from + len) + 8) = ones X (8 * from) (8 * (from + len)) + popcount (X ! (from + len))"
    using ones_split[of "8 * from" "8 * (from + len)" X 8] ones_part[of 8 X "from + len"] by (simp add: popcount_def)
  then show ?case using Suc by (simp add: take_Suc_conv_app_nth add.commute)
qed (simp add: ones_def)

lemma sum_bytes_run:
  assumes "from + len \<le> length X"
  shows "sum_bytes X (int from) (int len) = Ret (int (ones X (8 * from) (8 * (from + len))))"
  using assms ones_bytes[OF assms] by (cases "len = 0") (simp_all add: sum_bytes_def ones_def)

lemma mask_byte_R_run: "0 < k \<Longrightarrow> k < 8 \<Longrightarrow> mask_byte_R c k = Some (take_bit k c)"
proof -
  assume "0 < k" "k < 8"
  then have "k \<in> {1, 2, 3, 4, 5, 6, 7}" by auto
  then show ?thesis by (auto simp: mask_byte_R_def take_bit_eq_mask mask_numeral)
qed

lemma sum_masked_run:
  assumes "p < length X" and "k < 8"
  shows "sum_masked mask_byte_R X (int p) (int k) = Ret (int (ones X (8 * p) (8 * p + k)))"
proof (cases "k = 0")
  case False
  have "filter (bit (take_bit k (X ! p))) [0..<8] = filter (bit (X ! p)) [0..<k]"
  proof -
    have "[0..<8] = [0..<k] @ [k..<8]" using assms(2) upt_add_eq_append[of 0 k "8 - k"] by simp
    then show ?thesis by (auto simp: bit_take_bit_iff intro: filter_cong)
  qed
  then show ?thesis
    using False assms by (simp add: sum_masked_def in_range_def mask_byte_R_run popcount_def ones_part)
qed (simp add: sum_masked_def ones_def)

text \<open>Counting the set bits of a part of a bit vector that starts at a multiple of 64 is
  exact: the words, the remaining bytes and the masked last byte add up to the number of set
  bits, for every end position inside the vector, and nothing outside is read.\<close>

theorem f_to_s_sum_B_counts:
  assumes "lb = 64 * w" and "lb \<le> ub" and "ub \<le> 8 * length X"
  shows "f_to_s_sum_B X (int lb) (int ub) r = Ret (r + int (ones X lb ub))"
proof -
  define u v t where "u = ub div 64" and "v = ub mod 64 div 8" and "t = ub mod 8"
  have ub: "ub = 64 * u + 8 * v + t" "t < 8" "v < 8" "w \<le> u"
  proof -
    have "ub mod 64 = 8 * v + t"
      using mult_div_mod_eq[of 8 "ub mod 64"] by (simp add: v_def t_def mod_mod_cancel)
    then show "ub = 64 * u + 8 * v + t" using mult_div_mod_eq[of 64 ub] by (simp add: u_def)
    show "w \<le> u" using div_le_mono[OF assms(2), of 64] assms(1) by (simp add: u_def)
  qed (simp_all add: t_def v_def div_less_iff_less_mult)
  have X: "8 * u + v \<le> length X" "t > 0 \<Longrightarrow> 8 * u + v < length X" using ub(1) assms(3) by linarith+
  have total: "ones X lb ub = ones X lb (64 * u) + ones X (64 * u) (64 * u + 8 * v) + ones X (64 * u + 8 * v) ub"
    using ub assms(1) ones_split[of lb "64 * u" X "8 * v"] ones_split[of lb "64 * u + 8 * v" X t] by simp
  have divs: "c_div (int lb) 64 = int w" "c_div (int ub) 64 = int u" "c_div (int lb) 8 = int (8 * w)"
    "c_div (int (64 * u)) 8 = int (8 * u)" "c_div (int ub - int (64 * u)) 8 = int v"
    "c_div (int (64 * u) - int lb) 64 = int (u - w)"
    using ub assms(1) by (simp_all flip: of_nat_diff)
  have words: "sum_bytes X (int (8 * w)) (int (u - w) * 8) = Ret (int (ones X lb (64 * u)))"
    using sum_bytes_run[of "8 * w" "(u - w) * 8" X] X ub(4) assms(1) by (simp add: algebra_simps)
  have bytes: "(if int ub > int (64 * u) then sum_bytes X (int (8 * u)) (int v) else Ret 0) =
      Ret (int (ones X (64 * u) (64 * u + 8 * v)))"
    using sum_bytes_run[of "8 * u" v X] X ub by (auto simp: algebra_simps ones_def)
  have last: "(if int ub > int (64 * u) then sum_masked mask_byte_R X (int (8 * u) + int v) (int ub - int (64 * u) - int v * 8) else Ret 0) =
      Ret (int (ones X (64 * u + 8 * v) ub))"
    using sum_masked_run[of "8 * u + v" X t] X ub by (cases "t = 0") (auto simp: algebra_simps ones_def sum_masked_def)
  have muls: "int u * 64 = int (64 * u)" "int w * 64 = int lb" using assms(1) by simp_all
  show ?thesis
    unfolding f_to_s_sum_B_def Let_def divs muls words bytes last
    by (simp only: simp_thms if_False less_irrefl outcome.case divs words bytes last total) simp
qed

theorem f_to_s_sum_B_counts_witness: "f_to_s_sum_B [0xFF, 0x0F, 0x81] 0 20 100 = Ret 113"
proof -
  have "f_to_s_sum_B [0xFF, 0x0F, 0x81] (int 0) (int 20) 100 = Ret (100 + int (ones [0xFF, 0x0F, 0x81] 0 20))"
    by (rule f_to_s_sum_B_counts[of 0 0]) simp_all
  moreover have "ones [0xFF, 0x0F, 0x81] 0 20 = 13" by code_simp
  ultimately show ?thesis by simp
qed

text \<open>Before the first 64-bit boundary the code masks with constants that are not the top bits
  of a byte: for 2, 3, 6 and 7 bits the mask has a hole.\<close>

lemma mask_byte_L_holes:
  assumes "k \<in> {2, 3, 6, 7}"
  shows "mask_byte_L 0xFF k \<noteq> Some (push_bit (8 - k) (mask k))"
  using assms by (auto simp: mask_byte_L_def mask_numeral)

lemma bitcount_run:
  assumes "nat nR \<le> length a" and "nat nR \<le> length out"
  shows "bitcount_I4 a nR out =
    (Ret (), map (\<lambda>x. of_nat (length (filter (bit x) [0..<32]))) (take (nat nR) a) @ drop (nat nR) out)"
  unfolding bitcount_I4_def using assms by (intro ewise1_run) (auto simp: count_bits_run)

end
