(* ===== verification/K_Join.thy ===== *)
theory K_Join
  imports K_Prelude Q_Types
begin

text \<open>
  The kernels of the sorted join, \<open>AUX/core_srt_join_*.c\<close>; the theory \<open>D_Join\<close> has the verb.
  For every row of the destination the values of the source rows with the same link are
  combined; both link columns are in ascending order.  The eight files differ in the types
  of the source link, the value and the destination link.  The shared part reads links as
  integers and keeps values as words.  The value array of the destination is never \<open>NULL\<close>:
  \<open>srt_join\<close> has mapped it.
\<close>

unbundle bit_operations_syntax

abbreviation MJOIN_OP_SUM :: int where "MJOIN_OP_SUM \<equiv> 100"
abbreviation MJOIN_OP_MIN :: int where "MJOIN_OP_MIN \<equiv> 200"
abbreviation MJOIN_OP_MAX :: int where "MJOIN_OP_MAX \<equiv> 300"
abbreviation MJOIN_OP_REG :: int where "MJOIN_OP_REG \<equiv> 500"
abbreviation MJOIN_OP_OR :: int where "MJOIN_OP_OR \<equiv> 600"
abbreviation MJOIN_OP_AND :: int where "MJOIN_OP_AND \<equiv> 700"
abbreviation MJOIN_OP_CNT :: int where "MJOIN_OP_CNT \<equiv> 800"

record 'e join_state =
  j_val :: "'e list"
  j_nn :: "I1 list"
  j_any_null :: bool

type_synonym ('e, 'a) join_prog = "('e join_state, 'a) prog"

definition val_at :: "nat \<Rightarrow> ('e, 'e) join_prog" where
  "val_at i = (\<lambda>s. if i < length (j_val s) then (Ret (j_val s ! i), s) else (Fault, s))"

definition set_val :: "nat \<Rightarrow> 'e \<Rightarrow> ('e, unit) join_prog" where
  "set_val i v = (\<lambda>s. if i < length (j_val s) then (Ret (), s\<lparr>j_val := (j_val s)[i := v]\<rparr>) else (Fault, s))"

definition nn_at :: "nat \<Rightarrow> ('e, I1) join_prog" where
  "nn_at i = (\<lambda>s. if i < length (j_nn s) then (Ret (j_nn s ! i), s) else (Fault, s))"

definition set_nn :: "nat \<Rightarrow> I1 \<Rightarrow> ('e, unit) join_prog" where
  "set_nn i v = (\<lambda>s. if i < length (j_nn s) then (Ret (), s\<lparr>j_nn := (j_nn s)[i := v]\<rparr>) else (Fault, s))"

definition rd :: "'a list \<Rightarrow> nat \<Rightarrow> ('s, 'a) prog" where
  "rd xs i = (case get_at xs i of None \<Rightarrow> fault | Some x \<Rightarrow> ret x)"

subsection \<open>Initialisation\<close>

text \<open>The nn array is assigned no rows: the calls of \<open>assign_const_*(out, n, val)\<close> hand over the constant as the count and the number of rows as the value; \<open>and_n\<close>,
  \<open>min_n\<close> and \<open>max_n\<close> are the constants of the value type, converted to \<open>long long\<close>.\<close>

definition set_init :: "int \<Rightarrow> int \<Rightarrow> int \<Rightarrow> nat \<Rightarrow> nat \<Rightarrow> int \<Rightarrow> ('v::len word, unit) join_prog" where
  "set_init and_n min_n max_n lb ub op = (let val = word_of_int (int ub - int lb);
       fill_from = (\<lambda>n. for_each (\<lambda>i. set_val (lb + i) val) [0..<nat n]) in
     if op = MJOIN_OP_REG \<or> op = MJOIN_OP_SUM \<or> op = MJOIN_OP_CNT \<or> op = MJOIN_OP_OR then fill_from 0
     else if op = MJOIN_OP_AND then fill_from and_n
     else if op = MJOIN_OP_MIN then fill_from min_n
     else if op = MJOIN_OP_MAX then fill_from max_n
     else bye)"

subsection \<open>Finding the source rows\<close>

text \<open>The jump ahead: in round \<open>e\<close> the distance \<open>delta\<close> is \<open>2 ^ e\<close>; \<open>prev\<close> is the last position known to
  be usable.\<close>

function jump :: "int list \<Rightarrow> nat \<Rightarrow> int \<Rightarrow> nat \<Rightarrow> nat \<Rightarrow> nat \<Rightarrow> nat option" where
  "jump src_lnk src_nR v src_idx e prev =
     (if src_idx + 2 ^ e \<ge> src_nR then Some prev
      else case get_at src_lnk (src_idx + 2 ^ e) of
        None \<Rightarrow> None
      | Some x \<Rightarrow> if x \<ge> v then Some prev else jump src_lnk src_nR v src_idx (Suc e) (src_idx + 2 ^ e))"
  by auto
termination
  by (relation "measure (\<lambda>(src_lnk, src_nR, v, src_idx, e, prev). src_nR - (src_idx + 2 ^ e))")
    (auto intro!: diff_less_mono2)

declare jump.simps [simp del]

lemma jump_ahead: "jump s n v k e p = Some k' \<Longrightarrow> k < p \<Longrightarrow> k < k'"
proof (induction s n v k e p rule: jump.induct)
  case (1 s n v k e p)
  then show ?case
    by (subst (asm) (2) jump.simps) (auto split: if_splits option.splits)
qed

text \<open>Advance until the source link reaches the destination link; the result tells whether it
  was found.\<close>

function advance :: "int list \<Rightarrow> nat \<Rightarrow> int \<Rightarrow> nat \<Rightarrow> (bool \<times> nat) option" where
  "advance src_lnk src_nR v src_idx =
     (if src_idx < src_nR then
        (case get_at src_lnk src_idx of
           None \<Rightarrow> None
         | Some x \<Rightarrow> if x = v then Some (True, src_idx)
             else if x > v then Some (False, src_idx)
             else (case jump src_lnk src_nR v src_idx 0 (src_idx + 1) of
                 None \<Rightarrow> None
               | Some k \<Rightarrow> advance src_lnk src_nR v k))
      else Some (False, src_idx))"
  by auto
termination
  by (relation "measure (\<lambda>(src_lnk, src_nR, v, src_idx). src_nR - src_idx)")
    (auto dest: jump_ahead intro!: diff_less_mono2)

declare advance.simps [simp del]

subsection \<open>Combining values\<close>

definition mjoin :: "int \<Rightarrow> 'v::len word \<Rightarrow> 'v word \<Rightarrow> 'v word option" where
  "mjoin op v cur = (if op = MJOIN_OP_SUM then Some (cur + v)
     else if op = MJOIN_OP_MAX then Some (if cur <s v then v else cur)
     else if op = MJOIN_OP_MIN then Some (if v <s cur then v else cur)
     else if op = MJOIN_OP_OR then Some (cur OR v)
     else if op = MJOIN_OP_AND then Some (cur AND v)
     else if op = MJOIN_OP_REG then Some v
     else None)"

definition join_value :: "int \<Rightarrow> 'v::len word list option \<Rightarrow> nat \<Rightarrow> nat \<Rightarrow> ('v word, unit) join_prog" where
  "join_value op src_val dst_idx src_idx = (case src_val of
       Some vs \<Rightarrow> bind (rd vs src_idx) (\<lambda>v. bind (val_at dst_idx) (\<lambda>cur.
         case mjoin op v cur of None \<Rightarrow> bye | Some r \<Rightarrow> set_val dst_idx r))
     | None \<Rightarrow> if op = MJOIN_OP_CNT then bind (val_at dst_idx) (\<lambda>cur. set_val dst_idx (cur + 1)) else ret ())"

function consume :: "int \<Rightarrow> int list \<Rightarrow> 'v::len word list option \<Rightarrow> nat \<Rightarrow> int \<Rightarrow> nat \<Rightarrow> nat \<Rightarrow> ('v word, nat) join_prog" where
  "consume op src_lnk src_val src_nR v dst_idx src_idx =
     (if src_idx < src_nR then
        bind (rd src_lnk src_idx) (\<lambda>x. if x \<noteq> v then ret (src_idx - 1)
          else seq (join_value op src_val dst_idx src_idx)
                   (consume op src_lnk src_val src_nR v dst_idx (src_idx + 1)))
      else ret src_idx)"
  by auto
termination
  by (relation "measure (\<lambda>(op, src_lnk, src_val, src_nR, v, dst_idx, src_idx). src_nR - src_idx)") auto

declare consume.simps [simp del]

subsection \<open>One row, all rows\<close>

text \<open>A row that is not found sets the flag; so does the code when it meets a greater link,
  which is one of these cases.\<close>

definition join_row :: "int \<Rightarrow> int list \<Rightarrow> 'v::len word list option \<Rightarrow> nat \<Rightarrow> int list \<Rightarrow> nat \<Rightarrow> nat \<Rightarrow> ('v word, nat) join_prog" where
  "join_row op src_lnk src_val src_nR dst_lnk dst_idx src_idx =
     bind (rd dst_lnk dst_idx) (\<lambda>v.
     if dst_idx > 0 \<and> v = dst_lnk ! (dst_idx - 1) then
       bind (val_at (dst_idx - 1)) (\<lambda>pv. seq (set_val dst_idx pv)
      (bind (nn_at (dst_idx - 1)) (\<lambda>pn. seq (set_nn dst_idx pn) (ret src_idx))))
     else (case advance src_lnk src_nR v src_idx of
         None \<Rightarrow> fault
       | Some (found, k) \<Rightarrow>
           if found then seq (set_nn dst_idx 1) (consume op src_lnk src_val src_nR v dst_idx k)
           else seq (modify (\<lambda>s. s\<lparr>j_any_null := True\<rparr>)) (seq (set_nn dst_idx 0) (ret k))))"

function join_rows :: "int \<Rightarrow> int list \<Rightarrow> 'v::len word list option \<Rightarrow> nat \<Rightarrow> int list \<Rightarrow> nat \<Rightarrow> nat \<Rightarrow> nat \<Rightarrow> ('v word, unit) join_prog" where
  "join_rows op src_lnk src_val src_nR dst_lnk dst_ub dst_idx src_idx =
     (if dst_idx < dst_ub then
        bind (join_row op src_lnk src_val src_nR dst_lnk dst_idx src_idx)
          (join_rows op src_lnk src_val src_nR dst_lnk dst_ub (dst_idx + 1))
      else ret ())"
  by auto
termination
  by (relation "measure (\<lambda>(op, src_lnk, src_val, src_nR, dst_lnk, dst_ub, dst_idx, src_idx). dst_ub - dst_idx)") auto

declare join_rows.simps [simp del]

definition clear_undefined :: "nat \<Rightarrow> nat \<Rightarrow> ('v::len word, unit) join_prog" where
  "clear_undefined lb ub = for_each (\<lambda>i. bind (nn_at i) (\<lambda>b. if b = 0 then set_val i 0 else ret ())) [lb..<ub]"

definition core_srt_join ::
  "int \<Rightarrow> int \<Rightarrow> int \<Rightarrow> int list \<Rightarrow> 'v::len word list option \<Rightarrow> nat \<Rightarrow> int list \<Rightarrow> nat \<Rightarrow> nat \<Rightarrow> int \<Rightarrow> ('v word, unit) join_prog" where
  "core_srt_join and_n min_n max_n src_lnk src_val src_nR dst_lnk dst_lb dst_ub op =
     seq (set_init and_n min_n max_n dst_lb dst_ub op)
    (seq (join_rows op src_lnk src_val src_nR dst_lnk dst_ub dst_lb 0)
    (bind (gets j_any_null) (\<lambda>b. if b then clear_undefined dst_lb dst_ub else ret ())))"

definition core_srt_join_I_I_I :: "I4 list \<Rightarrow> I4 list option \<Rightarrow> nat \<Rightarrow> I4 list \<Rightarrow> nat \<Rightarrow> nat \<Rightarrow> int \<Rightarrow> (I4, unit) join_prog" where
  "core_srt_join_I_I_I src_lnk src_val src_nR dst_lnk =
     core_srt_join 4294967295 INT_MAX INT_MIN (map sint src_lnk) src_val src_nR (map sint dst_lnk)"

definition core_srt_join_I_I_L :: "I4 list \<Rightarrow> I4 list option \<Rightarrow> nat \<Rightarrow> I8 list \<Rightarrow> nat \<Rightarrow> nat \<Rightarrow> int \<Rightarrow> (I4, unit) join_prog" where
  "core_srt_join_I_I_L src_lnk src_val src_nR dst_lnk =
     core_srt_join 4294967295 INT_MAX INT_MIN (map sint src_lnk) src_val src_nR (map sint dst_lnk)"

definition core_srt_join_I_L_I :: "I4 list \<Rightarrow> I8 list option \<Rightarrow> nat \<Rightarrow> I4 list \<Rightarrow> nat \<Rightarrow> nat \<Rightarrow> int \<Rightarrow> (I8, unit) join_prog" where
  "core_srt_join_I_L_I src_lnk src_val src_nR dst_lnk =
     core_srt_join (- 1) LLONG_MAX LLONG_MIN (map sint src_lnk) src_val src_nR (map sint dst_lnk)"

definition core_srt_join_I_L_L :: "I4 list \<Rightarrow> I8 list option \<Rightarrow> nat \<Rightarrow> I8 list \<Rightarrow> nat \<Rightarrow> nat \<Rightarrow> int \<Rightarrow> (I8, unit) join_prog" where
  "core_srt_join_I_L_L src_lnk src_val src_nR dst_lnk =
     core_srt_join (- 1) LLONG_MAX LLONG_MIN (map sint src_lnk) src_val src_nR (map sint dst_lnk)"

definition core_srt_join_L_I_I :: "I8 list \<Rightarrow> I4 list option \<Rightarrow> nat \<Rightarrow> I4 list \<Rightarrow> nat \<Rightarrow> nat \<Rightarrow> int \<Rightarrow> (I4, unit) join_prog" where
  "core_srt_join_L_I_I src_lnk src_val src_nR dst_lnk =
     core_srt_join 4294967295 INT_MAX INT_MIN (map sint src_lnk) src_val src_nR (map sint dst_lnk)"

definition core_srt_join_L_I_L :: "I8 list \<Rightarrow> I4 list option \<Rightarrow> nat \<Rightarrow> I8 list \<Rightarrow> nat \<Rightarrow> nat \<Rightarrow> int \<Rightarrow> (I4, unit) join_prog" where
  "core_srt_join_L_I_L src_lnk src_val src_nR dst_lnk =
     core_srt_join 4294967295 INT_MAX INT_MIN (map sint src_lnk) src_val src_nR (map sint dst_lnk)"

definition core_srt_join_L_L_I :: "I8 list \<Rightarrow> I8 list option \<Rightarrow> nat \<Rightarrow> I4 list \<Rightarrow> nat \<Rightarrow> nat \<Rightarrow> int \<Rightarrow> (I8, unit) join_prog" where
  "core_srt_join_L_L_I src_lnk src_val src_nR dst_lnk =
     core_srt_join (- 1) LLONG_MAX LLONG_MIN (map sint src_lnk) src_val src_nR (map sint dst_lnk)"

definition core_srt_join_L_L_L :: "I8 list \<Rightarrow> I8 list option \<Rightarrow> nat \<Rightarrow> I8 list \<Rightarrow> nat \<Rightarrow> nat \<Rightarrow> int \<Rightarrow> (I8, unit) join_prog" where
  "core_srt_join_L_L_L src_lnk src_val src_nR dst_lnk =
     core_srt_join (- 1) LLONG_MAX LLONG_MIN (map sint src_lnk) src_val src_nR (map sint dst_lnk)"

subsection \<open>Weakest preconditions\<close>

lemma wp_join_access [wp_simps]:
  "wp (val_at i) Q E s = (i < length (j_val s) \<and> Q (j_val s ! i) s)"
  "wp (nn_at i) Q' E s = (i < length (j_nn s) \<and> Q' (j_nn s ! i) s)"
  "wp (set_val i v) Q'' E s = (i < length (j_val s) \<and> Q'' () (s\<lparr>j_val := (j_val s)[i := v]\<rparr>))"
  "wp (set_nn i b) Q'' E s = (i < length (j_nn s) \<and> Q'' () (s\<lparr>j_nn := (j_nn s)[i := b]\<rparr>))"
  by (simp_all add: wp_def val_at_def nn_at_def set_val_def set_nn_def)

lemma wp_rd [wp_simps]: "wp (rd xs i) Q E s = (i < length xs \<and> Q (xs ! i) s)"
  by (simp add: rd_def get_at_def wp_simps)

subsection \<open>The rows that are found\<close>

lemma jump_spec:
  assumes "jump src (length src) v k e p = Some k'" and "sorted src" and "p \<le> length src" and "\<forall>j < p. src ! j < v"
  shows "k' \<le> length src \<and> (\<forall>j < k'. src ! j < v)"
  using assms
proof (induction src "length src" v k e p rule: jump.induct)
  case (1 src v k e p)
  show ?case
  proof (cases "k + 2 ^ e \<ge> length src \<or> src ! (k + 2 ^ e) \<ge> v")
    case True
    then have "k' = p" using "1.prems"(1) by (subst (asm) jump.simps) (auto simp: get_at_def split: if_splits)
    then show ?thesis using "1.prems" by simp
  next
    case False
    then have step: "jump src (length src) v k (Suc e) (k + 2 ^ e) = Some k'"
      using "1.prems"(1) by (subst (asm) jump.simps) (auto simp: get_at_def)
    have "src ! j < v" if "j < k + 2 ^ e" for j
      using that False "1.prems"(2) sorted_nth_mono[of src j "k + 2 ^ e"] by fastforce
    then show ?thesis using "1.hyps"[OF _ _ _ step] False "1.prems"(2) by (auto simp: get_at_def)
  qed
qed

lemma jump_defined: "\<exists>k'. jump src (length src) v k e p = Some k'"
proof (induction src "length src" v k e p rule: jump.induct)
  case (1 src v k e p)
  show ?case
  proof (cases "k + 2 ^ e \<ge> length src \<or> src ! (k + 2 ^ e) \<ge> v")
    case True
    then show ?thesis by (subst jump.simps) (auto simp: get_at_def)
  next
    case False
    then have "\<exists>k'. jump src (length src) v k (Suc e) (k + 2 ^ e) = Some k'"
      using 1 by (simp add: get_at_def)
    then show ?thesis using False by (subst jump.simps) (auto simp: get_at_def)
  qed
qed

lemma advance_spec:
  assumes "sorted src" and "k \<le> length src" and "\<forall>j < k. src ! j < v"
  shows "\<exists>found k'. advance src (length src) v k = Some (found, k') \<and> k' \<le> length src \<and>
     (\<forall>j < k'. src ! j < v) \<and> (if found then k' < length src \<and> src ! k' = v else v \<notin> set src)"
  using assms
proof (induction src "length src" v k rule: advance.induct)
  case (1 src v k)
  consider "k = length src" | "k < length src" "src ! k = v" | "k < length src" "src ! k > v"
    | "k < length src" "src ! k < v"
    using 1(3) by linarith
  then show ?case
  proof cases
    case 1
    then have "v \<notin> set src" using "1.prems" by (auto simp: in_set_conv_nth)
    then show ?thesis using 1 "1.prems" by (subst advance.simps) auto
  next
    case 2
    then show ?thesis using "1.prems" by (subst advance.simps) (auto simp: get_at_def)
  next
    case 3
    have "src ! j \<noteq> v" if "j < length src" for j
      using that 3 "1.prems" sorted_nth_mono[of src k j] by (cases "j < k") fastforce+
    then have "v \<notin> set src" by (auto simp: in_set_conv_nth)
    then show ?thesis using 3 "1.prems" by (subst advance.simps) (auto simp: get_at_def)
  next
    case 4
    obtain k' where k': "jump src (length src) v k 0 (k + 1) = Some k'" using jump_defined by blast
    have "\<forall>j < k + 1. src ! j < v" using 4 "1.prems"(3) by (auto simp: less_Suc_eq)
    then have b: "k' \<le> length src" "\<forall>j < k'. src ! j < v" using jump_spec[OF k' "1.prems"(1)] 4(1) by auto
    have "advance src (length src) v k = advance src (length src) v k'"
      using 4 k' by (subst advance.simps) (simp add: get_at_def)
    then show ?thesis using "1.hyps"[OF 4(1) _ _ _ _ "1.prems"(1) b] 4 k' by (auto simp: get_at_def)
  qed
qed

subsection \<open>The value of a row\<close>

text \<open>Without a value column the operation \<open>cnt\<close> counts; the others leave the value alone.\<close>

definition join_step :: "int \<Rightarrow> 'v::len word list option \<Rightarrow> nat \<Rightarrow> 'v word \<Rightarrow> 'v word" where
  "join_step op src_val j cur = (case src_val of Some vs \<Rightarrow> the (mjoin op (vs ! j) cur)
     | None \<Rightarrow> if op = MJOIN_OP_CNT then cur + 1 else cur)"

definition row_value :: "int \<Rightarrow> int list \<Rightarrow> 'v::len word list option \<Rightarrow> int \<Rightarrow> 'v word" where
  "row_value op src src_val v = fold (join_step op src_val) (filter (\<lambda>j. src ! j = v) [0..<length src]) 0"

definition src_ok :: "int \<Rightarrow> int list \<Rightarrow> 'v::len word list option \<Rightarrow> bool" where
  "src_ok op src src_val \<longleftrightarrow> sorted src \<and> (case src_val of None \<Rightarrow> True
     | Some vs \<Rightarrow> length vs = length src \<and>
         op \<in> {MJOIN_OP_SUM, MJOIN_OP_MAX, MJOIN_OP_MIN, MJOIN_OP_OR, MJOIN_OP_AND, MJOIN_OP_REG})"

lemma wp_join_value:
  assumes "src_ok op src src_val" and "j < length src" and "i < length (j_val s)"
  shows "wp (join_value op src_val i j) (\<lambda>_ s'. s' = s\<lparr>j_val := (j_val s)[i := join_step op src_val j (j_val s ! i)]\<rparr>) E s"
proof (cases src_val)
  case None
  then show ?thesis using assms(3) by (simp add: join_value_def join_step_def wp_simps)
next
  case (Some vs)
  then have "\<exists>r. mjoin op (vs ! j) (j_val s ! i) = Some r" using assms(1) by (auto simp: src_ok_def mjoin_def)
  then show ?thesis using Some assms by (auto simp: join_value_def join_step_def wp_simps src_ok_def)
qed

lemma filter_above:
  assumes "sorted src" and "k < length src" and "src ! k > v"
  shows "filter (\<lambda>j. src ! j = v) [k..<length src] = []"
  using assms sorted_nth_mono[of src k] by (fastforce simp: filter_empty_conv)

lemma wp_consume:
  assumes "src_ok op src src_val" and "i < length (j_val s)" and "k \<le> length src"
    and "\<forall>j < k. src ! j \<le> v" and "k < length src \<longrightarrow> v \<le> src ! k"
  shows "wp (consume op src src_val (length src) v i k) (\<lambda>r s'. r \<le> length src \<and> (\<forall>j < r. src ! j \<le> v) \<and>
     s' = s\<lparr>j_val := (j_val s)[i := fold (join_step op src_val) (filter (\<lambda>j. src ! j = v) [k..<length src]) (j_val s ! i)]\<rparr>) E s"
  using assms
proof (induction "length src - k" arbitrary: k s)
  case 0
  then show ?case by (subst consume.simps) (simp add: wp_simps)
next
  case (Suc d)
  then have k: "k < length src" by simp
  note srt = Suc.prems(1)[unfolded src_ok_def, THEN conjunct1]
  show ?case
  proof (cases "src ! k = v")
    case False
    then have "filter (\<lambda>j. src ! j = v) [k..<length src] = []"
      using filter_above[OF srt k] Suc.prems(5) k by simp
    then show ?thesis using False k Suc.prems(4) by (subst consume.simps) (simp add: wp_simps)
  next
    case True
    let ?s = "s\<lparr>j_val := (j_val s)[i := join_step op src_val k (j_val s ! i)]\<rparr>"
    have f: "filter (\<lambda>j. src ! j = v) [k..<length src] = k # filter (\<lambda>j. src ! j = v) [Suc k..<length src]"
      using True k by (simp add: upt_conv_Cons)
    have "\<forall>j < Suc k. src ! j \<le> v" using True Suc.prems(4) by (auto simp: less_Suc_eq)
    moreover have "Suc k < length src \<longrightarrow> v \<le> src ! Suc k"
      using True sorted_nth_mono[OF srt, of k "Suc k"] by auto
    ultimately have "wp (consume op src src_val (length src) v i (Suc k)) (\<lambda>r s'. r \<le> length src \<and> (\<forall>j < r. src ! j \<le> v) \<and>
      s' = ?s\<lparr>j_val := (j_val ?s)[i := fold (join_step op src_val) (filter (\<lambda>j. src ! j = v) [Suc k..<length src]) (j_val ?s ! i)]\<rparr>) E ?s"
      using Suc.hyps(2) Suc.prems(1,2) k by (intro Suc.hyps(1)) auto
    then have rest: "wp (consume op src src_val (length src) v i (Suc k)) (\<lambda>r s'. r \<le> length src \<and> (\<forall>j < r. src ! j \<le> v) \<and>
      s' = s\<lparr>j_val := (j_val s)[i := fold (join_step op src_val) (filter (\<lambda>j. src ! j = v) [k..<length src]) (j_val s ! i)]\<rparr>) E ?s"
      using Suc.prems(2) by (simp add: f)
    have "wp (join_value op src_val i k) (\<lambda>_ s'. s' = ?s) E s"
      by (rule wp_join_value[OF Suc.prems(1) k Suc.prems(2)])
    then have "wp (seq (join_value op src_val i k) (consume op src src_val (length src) v i (Suc k)))
      (\<lambda>r s'. r \<le> length src \<and> (\<forall>j < r. src ! j \<le> v) \<and>
      s' = s\<lparr>j_val := (j_val s)[i := fold (join_step op src_val) (filter (\<lambda>j. src ! j = v) [k..<length src]) (j_val s ! i)]\<rparr>) E s"
      unfolding wp_seq by (rule wp_mono) (use rest in simp_all)
    then show ?thesis using True k by (subst consume.simps) (simp add: wp_bind wp_rd)
  qed
qed

subsection \<open>The invariant of the join\<close>

text \<open>Rows before \<open>i\<close> are final, the values of the rows from \<open>i\<close> on are still zero, the flag tells
  whether a final row was not found, and the source rows before \<open>k\<close> are used up.\<close>

definition joined :: "int \<Rightarrow> int list \<Rightarrow> 'v::len word list option \<Rightarrow> int list \<Rightarrow> nat \<Rightarrow> nat \<Rightarrow> 'v word join_state \<Rightarrow> bool" where
  "joined op src src_val dst i k s \<longleftrightarrow>
     length (j_val s) = length dst \<and> length (j_nn s) = length dst \<and> k \<le> length src \<and>
     (\<forall>r < i. j_nn s ! r = c_bool (dst ! r \<in> set src) \<and> j_val s ! r = row_value op src src_val (dst ! r)) \<and>
     (\<forall>r < length dst. i \<le> r \<longrightarrow> j_val s ! r = 0) \<and>
     (j_any_null s \<longleftrightarrow> (\<exists>r < i. dst ! r \<notin> set src)) \<and>
     (\<forall>j < k. 0 < i \<and> src ! j \<le> dst ! (i - 1))"

lemma row_value_absent: "v \<notin> set src \<Longrightarrow> row_value op src src_val v = 0"
proof -
  assume "v \<notin> set src"
  then have "filter (\<lambda>j. src ! j = v) [0..<length src] = []" by (auto simp: filter_empty_conv)
  then show ?thesis by (simp add: row_value_def)
qed

lemma filter_from:
  fixes src :: "int list"
  assumes "\<forall>j < k. src ! j < v" and "k \<le> length src"
  shows "filter (\<lambda>j. src ! j = v) [0..<length src] = filter (\<lambda>j. src ! j = v) [k..<length src]"
proof -
  have "[0..<length src] = [0..<k] @ [k..<length src]" using assms(2) upt_add_eq_append[of 0 k "length src - k"] by simp
  moreover have "src ! x \<noteq> v" if "x < k" for x using assms(1)[rule_format, OF that] by simp
  then have "filter (\<lambda>j. src ! j = v) [0..<k] = []" by (simp add: filter_empty_conv)
  ultimately show ?thesis by simp
qed

lemma wp_join_row:
  assumes "src_ok op src src_val" and "sorted dst" and "i < length dst" and "joined op src src_val dst i k s"
  shows "wp (join_row op src src_val (length src) dst i k) (\<lambda>k'. joined op src src_val dst (Suc i) k') (\<lambda>_. False) s"
proof (cases "i > 0 \<and> dst ! i = dst ! (i - 1)")
  case True
  then have "wp (join_row op src src_val (length src) dst i k) Q (\<lambda>_. False) s \<longleftrightarrow>
      Q k (s\<lparr>j_val := (j_val s)[i := j_val s ! (i - 1)], j_nn := (j_nn s)[i := j_nn s ! (i - 1)]\<rparr>)" for Q
    using assms(3,4) less_imp_diff_less[OF assms(3), of 1] by (simp add: join_row_def wp_simps joined_def)
  moreover have "\<forall>j < k. src ! j \<le> dst ! i" using True assms(4) by (simp add: joined_def)
  ultimately show ?thesis
    using True assms(3,4) by (auto simp: joined_def nth_list_update less_Suc_eq)
next
  case False
  let ?v = "dst ! i"
  have srt: "sorted src" using assms(1) by (simp add: src_ok_def)
  have "src ! j < ?v" if "j < k" for j
  proof -
    have "0 < i" "src ! j \<le> dst ! (i - 1)" using that assms(4) by (simp_all add: joined_def)
    moreover have "dst ! (i - 1) \<le> ?v" using assms(2,3) by (simp add: sorted_nth_mono)
    ultimately show ?thesis using False by force
  qed
  moreover have "k \<le> length src" using assms(4) by (simp add: joined_def)
  ultimately obtain found k' where a: "advance src (length src) ?v k = Some (found, k')" "k' \<le> length src"
    "\<forall>j < k'. src ! j < ?v" "if found then k' < length src \<and> src ! k' = ?v else ?v \<notin> set src"
    using advance_spec[OF srt, of k ?v] by blast
  have le: "\<forall>j < k'. src ! j \<le> ?v" using a(3) by (simp add: less_imp_le)
  show ?thesis
  proof (cases found)
    case True
    let ?s = "s\<lparr>j_nn := (j_nn s)[i := 1]\<rparr>"
    have mem: "?v \<in> set src" using True a(4) nth_mem[of k' src] by simp
    have z: "j_val s ! i = 0" "i < length (j_val s)" using assms(3,4) by (auto simp: joined_def)
    have c: "wp (consume op src src_val (length src) ?v i k') (\<lambda>r s'. r \<le> length src \<and> (\<forall>j < r. src ! j \<le> ?v) \<and>
       s' = ?s\<lparr>j_val := (j_val ?s)[i := fold (join_step op src_val) (filter (\<lambda>j. src ! j = ?v) [k'..<length src]) (j_val ?s ! i)]\<rparr>) (\<lambda>_. False) ?s"
      using True a z by (intro wp_consume[OF assms(1) _ a(2) le]) auto
    have rv: "fold (join_step op src_val) (filter (\<lambda>j. src ! j = ?v) [k'..<length src]) (j_val ?s ! i) = row_value op src src_val ?v"
      using z(1) filter_from[OF a(3,2)] by (simp add: row_value_def)
    have "joined op src src_val dst (Suc i) r (?s\<lparr>j_val := (j_val ?s)[i := row_value op src src_val ?v]\<rparr>)"
      if "r \<le> length src" "\<forall>j < r. src ! j \<le> ?v" for r
      using that assms(3,4) mem by (auto simp: joined_def nth_list_update less_Suc_eq)
    then have "wp (consume op src src_val (length src) ?v i k') (\<lambda>r. joined op src src_val dst (Suc i) r) (\<lambda>_. False) ?s"
      by (intro wp_mono[OF c[unfolded rv]]) blast+
    then show ?thesis
      using True False a(1) assms(3,4) by (auto simp: join_row_def wp_simps joined_def)
  next
    case nf: False
    have "joined op src src_val dst (Suc i) k' (s\<lparr>j_any_null := True, j_nn := (j_nn s)[i := 0]\<rparr>)"
      using nf a(2,4) le assms(3,4)
      by (auto simp: joined_def nth_list_update less_Suc_eq row_value_absent)
    then show ?thesis
      using nf False a(1) assms(3,4) by (auto simp: join_row_def wp_simps joined_def)
  qed
qed

lemma wp_join_rows:
  assumes "src_ok op src src_val" and "sorted dst" and "ub \<le> length dst" and "i \<le> ub" and "joined op src src_val dst i k s"
  shows "wp (join_rows op src src_val (length src) dst ub i k) (\<lambda>_ s. \<exists>k'. joined op src src_val dst ub k' s) (\<lambda>_. False) s"
  using assms(4,5)
proof (induction "ub - i" arbitrary: i k s)
  case 0
  then show ?case by (subst join_rows.simps) (auto simp: wp_simps)
next
  case (Suc d)
  then have i: "i < ub" by simp
  have "wp (join_row op src src_val (length src) dst i k) (\<lambda>k'. joined op src src_val dst (Suc i) k') (\<lambda>_. False) s"
    using i assms(3) by (intro wp_join_row[OF assms(1,2) _ Suc.prems(2)]) simp
  then have "wp (join_row op src src_val (length src) dst i k) (\<lambda>k'. wp (join_rows op src src_val (length src) dst ub (Suc i) k')
      (\<lambda>_ s. \<exists>k'. joined op src src_val dst ub k' s) (\<lambda>_. False)) (\<lambda>_. False) s"
    by (rule wp_mono) (use Suc i in auto)
  then show ?case using i by (subst join_rows.simps) (simp add: wp_simps)
qed

lemma joined_restart: "joined op src src_val dst i k s \<Longrightarrow> joined op src src_val dst i 0 s"
  by (simp add: joined_def)

lemma wp_clear_undefined:
  assumes "joined op src src_val dst ub 0 s" and "ub \<le> length dst"
  shows "wp (clear_undefined lb ub) (\<lambda>_ s'. s' = s) E s"
  unfolding clear_undefined_def
proof (rule wp_for_each)
  fix i s' assume i: "i \<in> set [lb..<ub]" and s': "s' = s"
  then have "j_nn s ! i = c_bool (dst ! i \<in> set src)" "j_val s ! i = row_value op src src_val (dst ! i)"
    "i < length (j_nn s)" "i < length (j_val s)"
    using assms by (auto simp: joined_def)
  moreover from this(1,2) have "j_nn s ! i = 0 \<Longrightarrow> (j_val s)[i := 0] = j_val s"
    using row_value_absent[of "dst ! i" src op src_val] by (metis c_bool_simps(3) list_update_id)
  ultimately show "wp (bind (nn_at i) (\<lambda>b. if b = 0 then set_val i 0 else ret ())) (\<lambda>_ s'. s' = s) E s'"
    using s' by (auto simp: wp_simps)
qed simp

text \<open>The operations whose initialisation does nothing.\<close>

definition init_free :: "int \<Rightarrow> int \<Rightarrow> int \<Rightarrow> bool" where
  "init_free and_n max_n op \<longleftrightarrow> op \<in> {MJOIN_OP_REG, MJOIN_OP_SUM, MJOIN_OP_CNT, MJOIN_OP_OR} \<or>
     op = MJOIN_OP_MAX \<and> max_n \<le> 0 \<or> op = MJOIN_OP_AND \<and> and_n \<le> 0"

lemma set_init_free: "init_free and_n max_n op \<Longrightarrow> set_init and_n min_n max_n lb ub op = ret ()"
  by (auto simp: init_free_def set_init_def Let_def)

lemma wp_core_srt_join:
  assumes "src_ok op src src_val" and "sorted dst" and "init_free and_n max_n op" and "lb \<le> ub" and "ub \<le> length dst"
    and "joined op src src_val dst lb 0 s"
  shows "wp (core_srt_join and_n min_n max_n src src_val (length src) dst lb ub op)
     (\<lambda>_. joined op src src_val dst ub 0) (\<lambda>_. False) s"
proof -
  have "wp (bind (gets j_any_null) (\<lambda>b. if b then clear_undefined lb ub else ret ()))
      (\<lambda>_. joined op src src_val dst ub 0) (\<lambda>_. False) s'" if "joined op src src_val dst ub 0 s'" for s'
    using wp_mono[OF wp_clear_undefined[OF that assms(5), of lb]] that by (simp add: wp_simps)
  then have "wp (join_rows op src src_val (length src) dst ub lb 0)
      (\<lambda>_. wp (bind (gets j_any_null) (\<lambda>b. if b then clear_undefined lb ub else ret ()))
        (\<lambda>_. joined op src src_val dst ub 0) (\<lambda>_. False)) (\<lambda>_. False) s"
    by (intro wp_mono[OF wp_join_rows[OF assms(1,2,5,4,6)]]) (auto dest: joined_restart)
  then show ?thesis by (simp add: core_srt_join_def set_init_free[OF assms(3)] wp_seq wp_ret)
qed

subsection \<open>Properties\<close>

text \<open>A fresh destination: zero values, no flag.\<close>

definition fresh :: "nat \<Rightarrow> 'v::len word join_state \<Rightarrow> bool" where
  "fresh n s \<longleftrightarrow> j_val s = replicate n 0 \<and> length (j_nn s) = n \<and> \<not> j_any_null s"

lemma fresh_joined: "fresh (length dst) s \<Longrightarrow> joined op src src_val dst 0 0 s"
  by (simp add: fresh_def joined_def)

definition join_result :: "int \<Rightarrow> 'a::len word list \<Rightarrow> 'v::len word list option \<Rightarrow> 'b::len word list \<Rightarrow> 'v word join_state \<Rightarrow> bool" where
  "join_result op src src_val dst s \<longleftrightarrow> length (j_val s) = length dst \<and> length (j_nn s) = length dst \<and>
     (\<forall>r < length dst. j_nn s ! r = c_bool (sint (dst ! r) \<in> sint ` set src) \<and>
        j_val s ! r = fold (join_step op src_val) (filter (\<lambda>j. sint (src ! j) = sint (dst ! r)) [0..<length src]) 0) \<and>
     (j_any_null s \<longleftrightarrow> (\<exists>r < length dst. sint (dst ! r) \<notin> sint ` set src))"

lemma joined_result:
  "joined op (map sint src) src_val (map sint dst) (length dst) 0 s \<Longrightarrow> join_result op src src_val dst s"
proof -
  assume j: "joined op (map sint src) src_val (map sint dst) (length dst) 0 s"
  have "filter (\<lambda>j. map sint src ! j = v) [0..<length (map sint src)] = filter (\<lambda>j. sint (src ! j) = v) [0..<length src]" for v
    by (intro filter_cong) auto
  then show ?thesis using j unfolding joined_def join_result_def row_value_def by (simp cong: conj_cong)
qed

lemma wp_core_I_I_I:
  assumes "sorted (map sint src)" and "sorted (map sint dst)" and "length vs = length src"
    and "op \<in> {MJOIN_OP_SUM, MJOIN_OP_MAX, MJOIN_OP_OR, MJOIN_OP_REG}" and "lb \<le> ub" and "ub \<le> length dst"
    and "joined op (map sint src) (Some vs) (map sint dst) lb 0 s"
  shows "wp (core_srt_join_I_I_I src (Some vs) (length src) dst lb ub op)
      (\<lambda>_. joined op (map sint src) (Some vs) (map sint dst) ub 0) (\<lambda>_. False) s"
proof -
  have "src_ok op (map sint src) (Some vs)" using assms(1,3,4) by (auto simp: src_ok_def)
  moreover have "init_free 4294967295 INT_MIN op" using assms(4) by (auto simp: init_free_def)
  ultimately have "wp (core_srt_join 4294967295 INT_MAX INT_MIN (map sint src) (Some vs) (length (map sint src)) (map sint dst) lb ub op)
      (\<lambda>_. joined op (map sint src) (Some vs) (map sint dst) ub 0) (\<lambda>_. False) s"
    using assms(2,5-7) by (intro wp_core_srt_join) simp_all
  then show ?thesis by (simp add: core_srt_join_I_I_I_def)
qed

text \<open>For link columns in ascending order, a value column as long as the source links and the
  operations \<open>sum\<close>, \<open>or\<close> and \<open>reg\<close> (and \<open>max\<close>, started at zero), joining a fresh destination
  returns, reads and writes inside the arrays only, marks exactly the rows whose link occurs
  in the source, gives each of them the combination of the values of all source rows with
  that link in their order and the others zero, and reports whether a row was not found.\<close>

theorem core_srt_join_I_I_I_result:
  assumes "sorted (map sint src)" and "sorted (map sint dst)" and "length vs = length src"
    and "op \<in> {MJOIN_OP_SUM, MJOIN_OP_MAX, MJOIN_OP_OR, MJOIN_OP_REG}" and "fresh (length dst) s"
  shows "\<exists>s'. core_srt_join_I_I_I src (Some vs) (length src) dst 0 (length dst) op s = (Ret (), s') \<and>
     join_result op src (Some vs) dst s'"
proof -
  have "joined op (map sint src) (Some vs) (map sint dst) 0 0 s"
    using assms(5) by (intro fresh_joined) simp
  then have "wp (core_srt_join_I_I_I src (Some vs) (length src) dst 0 (length dst) op)
      (\<lambda>_. joined op (map sint src) (Some vs) (map sint dst) (length dst) 0) (\<lambda>_. False) s"
    by (intro wp_core_I_I_I[OF assms(1-4)]) simp_all
  from wp_Ret_result[OF this] show ?thesis by (auto dest: joined_result)
qed

definition sample_join :: "I4 join_state" where
  "sample_join = \<lparr>j_val = [0, 0, 0, 0], j_nn = [7, 7, 7, 7], j_any_null = False\<rparr>"

lemma fresh_sample: "fresh (length [-1, 2, 2, 9 :: I4]) sample_join"
  by (simp add: fresh_def sample_join_def)

theorem core_srt_join_I_I_I_result_witness:
  "\<exists>s'. core_srt_join_I_I_I [2, 2, 5, 9] (Some [10, 20, 30, 40]) (length [2, 2, 5, 9 :: I4]) [-1, 2, 2, 9] 0
      (length [-1, 2, 2, 9 :: I4]) MJOIN_OP_SUM sample_join = (Ret (), s') \<and> j_nn s' ! 1 = 1 \<and> j_val s' ! 1 = 30"
proof -
  have "\<exists>s'. core_srt_join_I_I_I [2, 2, 5, 9] (Some [10, 20, 30, 40]) (length [2, 2, 5, 9 :: I4]) [-1, 2, 2, 9] 0
      (length [-1, 2, 2, 9 :: I4]) MJOIN_OP_SUM sample_join = (Ret (), s') \<and>
    join_result MJOIN_OP_SUM [2, 2, 5, 9 :: I4] (Some [10, 20, 30, 40]) [-1, 2, 2, 9 :: I4] s'"
    by (rule core_srt_join_I_I_I_result[OF _ _ _ _ fresh_sample]) simp_all
  then obtain s' where s': "core_srt_join_I_I_I [2, 2, 5, 9] (Some [10, 20, 30, 40]) (length [2, 2, 5, 9 :: I4]) [-1, 2, 2, 9] 0
      (length [-1, 2, 2, 9 :: I4]) MJOIN_OP_SUM sample_join = (Ret (), s')"
    "join_result MJOIN_OP_SUM [2, 2, 5, 9 :: I4] (Some [10, 20, 30, 40]) [-1, 2, 2, 9 :: I4] s'" by blast
  from s'(2) have "j_nn s' ! 1 = 1 \<and> j_val s' ! 1 = 30"
    unfolding join_result_def by (auto dest!: spec[of _ 1] simp: join_step_def mjoin_def)
  then show ?thesis using s'(1) by blast
qed

lemma fill_overrun:
  "fst (for_each (\<lambda>i. set_val (lb + i) v) [0..<n] s) = (if n = 0 \<or> lb + n \<le> length (j_val s) then Ret () else Fault) \<and>
   length (j_val (snd (for_each (\<lambda>i. set_val (lb + i) v) [0..<n] s))) = length (j_val s)"
proof (induction n)
  case (Suc n)
  then show ?case
    by (cases "for_each (\<lambda>i. set_val (lb + i) v) [0..<n] s")
      (auto simp: for_each_snoc seq_def bind_def set_val_def split: if_splits)
qed (simp add: ret_def)

lemma init_fault:
  assumes "length (j_val s) < nat min_n" and "length (j_val s) < nat and_n"
  shows "fst (core_srt_join and_n min_n max_n src src_val src_nR dst lb ub MJOIN_OP_MIN s) = Fault"
    and "fst (core_srt_join and_n min_n max_n src src_val src_nR dst lb ub MJOIN_OP_AND s) = Fault"
proof -
  have seq_fault: "fst (p s) = Fault \<Longrightarrow> fst (seq p q s) = Fault" for p :: "('a word, unit) join_prog" and q :: "('a word, unit) join_prog"
    by (cases "p s") (simp add: seq_def bind_def)
  have "fst (set_init and_n min_n max_n lb ub MJOIN_OP_MIN s) = Fault"
    "fst (set_init and_n min_n max_n lb ub MJOIN_OP_AND s) = Fault"
    using assms by (auto simp: set_init_def Let_def fill_overrun)
  then show "fst (core_srt_join and_n min_n max_n src src_val src_nR dst lb ub MJOIN_OP_MIN s) = Fault"
    "fst (core_srt_join and_n min_n max_n src src_val src_nR dst lb ub MJOIN_OP_AND s) = Fault"
    unfolding core_srt_join_def by (simp_all add: seq_fault)
qed

text \<open>The operations \<open>min\<close> and \<open>and\<close> on \<open>int\<close> values write outside the destination unless it has
  more than two thousand million rows: the initialisation hands over the initial value as the
  number of rows.  The initialisation for \<open>max\<close> writes nothing, so that \<open>max\<close> starts at the old
  contents of the destination and values below it are never found.\<close>

theorem srt_join_init_bugs:
  assumes "length (j_val s) < 2147483647"
  shows "fst (core_srt_join_I_I_I src src_val src_nR dst lb ub MJOIN_OP_MIN s) = Fault \<and>
     fst (core_srt_join_I_I_I src src_val src_nR dst lb ub MJOIN_OP_AND s) = Fault \<and>
     set_init 4294967295 INT_MAX INT_MIN lb ub MJOIN_OP_MAX s = (Ret (), s)"
proof -
  have "set_init 4294967295 INT_MAX INT_MIN lb ub MJOIN_OP_MAX = (ret () :: (I4, unit) join_prog)"
    by (rule set_init_free) (simp add: init_free_def)
  then show ?thesis
    unfolding core_srt_join_I_I_I_def using assms init_fault[of s INT_MAX 4294967295] by (simp add: ret_def)
qed

theorem srt_join_init_bugs_witness:
  "fst (core_srt_join_I_I_I [2, 2, 5, 9] (Some [10, 20, 30, 40]) 4 [-1, 2, 2, 9] 0 4 MJOIN_OP_MIN sample_join) = Fault"
  by (rule srt_join_init_bugs[THEN conjunct1]) (simp add: sample_join_def)

end
