(* ===== verification/K_Scan.thy ===== *)
theory K_Scan
  imports K_Prelude Q_Types
begin

text \<open>
  Kernels that scan columns in order: the sortedness test \<open>AUX/is_sorted_alldef_*.c\<close>, the
  distinct values of a sorted column with their counts, \<open>AUX/uniq_*.c\<close>, and the union of two
  sorted columns, \<open>AUX/union_*.c\<close>.
\<close>

unbundle bit_operations_syntax

subsection \<open>is\_sorted\_alldef\<close>

text \<open>The second loop runs on the array that starts at \<open>base\<close>.\<close>

function order_loop :: "bool \<Rightarrow> int list \<Rightarrow> nat \<Rightarrow> nat \<Rightarrow> nat \<Rightarrow> int \<Rightarrow> SORT_TYPE outcome" where
  "order_loop asc X base i n_rows prev_val = (if i < n_rows then
       (case get_at X (base + i) of
          None \<Rightarrow> Fault
        | Some curr_val \<Rightarrow>
            if (if asc then curr_val < prev_val else curr_val > prev_val) then Ret unsorted
            else order_loop asc X base (Suc i) n_rows curr_val)
     else Ret (if asc then ascending else descending))"
  by auto
termination by (relation "measure (\<lambda>(asc, X, base, i, n_rows, prev_val). n_rows - i)") auto

declare order_loop.simps [simp del]

text \<open>The position \<open>i\<close> of the first value different from the first one is both the new start of
  the array and the index where the second loop begins.\<close>

definition is_sorted_alldef :: "int list \<Rightarrow> int \<Rightarrow> SORT_TYPE outcome" where
  "is_sorted_alldef X n_rows = (if n_rows = 0 then Ret unknown else if n_rows = 1 then Ret ascending
     else (case get_at X 0 of None \<Rightarrow> Fault | Some first_val \<Rightarrow>
       (let n = nat n_rows; m = min n (length X) in
        case find_from (\<lambda>i. X ! i \<noteq> first_val) 1 m of
          None \<Rightarrow> if m < n then Fault else Ret ascending
        | Some i \<Rightarrow> order_loop (first_val < X ! i) X i i (n - i) (X ! i))))"

definition is_sorted_alldef_I1 :: "I1 list \<Rightarrow> int \<Rightarrow> SORT_TYPE outcome" where
  "is_sorted_alldef_I1 iX = is_sorted_alldef (map sint iX)"

definition is_sorted_alldef_I2 :: "I2 list \<Rightarrow> int \<Rightarrow> SORT_TYPE outcome" where
  "is_sorted_alldef_I2 iX = is_sorted_alldef (map sint iX)"

definition is_sorted_alldef_I4 :: "I4 list \<Rightarrow> int \<Rightarrow> SORT_TYPE outcome" where
  "is_sorted_alldef_I4 iX = is_sorted_alldef (map sint iX)"

definition is_sorted_alldef_I8 :: "I8 list \<Rightarrow> int \<Rightarrow> SORT_TYPE outcome" where
  "is_sorted_alldef_I8 iX = is_sorted_alldef (map sint iX)"

subsection \<open>uniq\<close>

text \<open>\<open>u_last\<close> is \<open>last_good_val\<close>, if a value has been seen.\<close>

record 'a uniq_state =
  u_out :: "'a list"
  u_cnt :: "I4 list"
  u_n_out :: nat
  u_cnt_ptr :: nat
  u_last :: "'a option"

definition u_put :: "'a \<Rightarrow> ('a uniq_state, unit) prog" where
  "u_put x = (\<lambda>s. if u_n_out s < length (u_out s)
     then (Ret (), s\<lparr>u_out := (u_out s)[u_n_out s := x], u_last := Some x, u_n_out := u_n_out s + 1\<rparr>) else (Fault, s))"

definition u_count :: "(I4 \<Rightarrow> I4) \<Rightarrow> ('a uniq_state, unit) prog" where
  "u_count f = (\<lambda>s. if u_cnt_ptr s < length (u_cnt s)
     then (Ret (), s\<lparr>u_cnt := (u_cnt s)[u_cnt_ptr s := f (u_cnt s ! u_cnt_ptr s)]\<rparr>) else (Fault, s))"

definition u_read :: "'b list \<Rightarrow> nat \<Rightarrow> ('s, 'b) prog" where
  "u_read xs i = (case get_at xs i of None \<Rightarrow> fault | Some x \<Rightarrow> ret x)"

text \<open>A defined row with value \<open>x\<close> that counts \<open>w\<close> times.\<close>

definition u_value :: "'a \<Rightarrow> I4 \<Rightarrow> ('a uniq_state, unit) prog" where
  "u_value x w = bind (gets u_last) (\<lambda>l. case l of
       None \<Rightarrow> seq (u_put x) (u_count (\<lambda>_. w))
     | Some v \<Rightarrow> if x = v then u_count (\<lambda>c. c + w)
         else seq (u_put x) (seq (modify (\<lambda>s. s\<lparr>u_cnt_ptr := u_cnt_ptr s + 1\<rparr>)) (u_count (\<lambda>_. w))))"

definition u_row :: "'a list \<Rightarrow> I4 list option \<Rightarrow> I1 list option \<Rightarrow> nat \<Rightarrow> ('a uniq_state, unit) prog" where
  "u_row inp in_cnt nn_X i =
     bind (case nn_X of None \<Rightarrow> ret 1 | Some b \<Rightarrow> u_read b i) (\<lambda>def.
     if def = 0 then ret ()
     else bind (u_read inp i) (\<lambda>x. bind (case in_cnt of None \<Rightarrow> ret 1 | Some c \<Rightarrow> u_read c i) (u_value x)))"

definition uniq_scan :: "'a list \<Rightarrow> I4 list option \<Rightarrow> int \<Rightarrow> I1 list option \<Rightarrow> ('a uniq_state, nat) prog" where
  "uniq_scan inp in_cnt n_in nn_X =
     seq (modify (\<lambda>s. s\<lparr>u_n_out := 0, u_cnt_ptr := 0, u_last := None\<rparr>))
    (seq (for_each (u_row inp in_cnt nn_X) [0..<nat n_in]) (gets u_n_out))"

definition uniq_I4 :: "I4 list \<Rightarrow> int \<Rightarrow> I1 list option \<Rightarrow> (I4 uniq_state, nat) prog" where
  "uniq_I4 inp n_in nn_X = uniq_scan inp None n_in nn_X"

definition uniq_I8 :: "I8 list \<Rightarrow> int \<Rightarrow> I1 list option \<Rightarrow> (I8 uniq_state, nat) prog" where
  "uniq_I8 inp n_in nn_X = uniq_scan inp None n_in nn_X"

definition uniq_alldef_I4 :: "I4 list \<Rightarrow> int \<Rightarrow> (I4 uniq_state, nat) prog" where
  "uniq_alldef_I4 inp n_in = uniq_scan inp None n_in None"

definition uniq_alldef_I8 :: "I8 list \<Rightarrow> int \<Rightarrow> (I8 uniq_state, nat) prog" where
  "uniq_alldef_I8 inp n_in = uniq_scan inp None n_in None"

definition uniq_cnt_I4 :: "I4 list \<Rightarrow> I4 list \<Rightarrow> int \<Rightarrow> I1 list option \<Rightarrow> (I4 uniq_state, nat) prog" where
  "uniq_cnt_I4 inp in_cnt n_in nn_X = uniq_scan inp (Some in_cnt) n_in nn_X"

definition uniq_cnt_I8 :: "I8 list \<Rightarrow> I4 list \<Rightarrow> int \<Rightarrow> I1 list option \<Rightarrow> (I8 uniq_state, nat) prog" where
  "uniq_cnt_I8 inp in_cnt n_in nn_X = uniq_scan inp (Some in_cnt) n_in nn_X"

subsection \<open>uniq\_cnt\_alldef\<close>

text \<open>The variant for columns without null values keeps the last value and a 64-bit \<open>counter\<close> and
  writes them when the value changes; the counter of the first value starts at one.\<close>

definition u_emit :: "'a \<Rightarrow> I8 \<Rightarrow> ('a uniq_state, unit) prog" where
  "u_emit v counter = (\<lambda>s. if u_n_out s < length (u_out s) \<and> u_n_out s < length (u_cnt s)
     then (Ret (), s\<lparr>u_out := (u_out s)[u_n_out s := v], u_cnt := (u_cnt s)[u_n_out s := ucast counter],
                   u_n_out := u_n_out s + 1\<rparr>)
     else (Fault, s))"

function uca_loop :: "'a list \<Rightarrow> I4 list \<Rightarrow> nat \<Rightarrow> nat \<Rightarrow> 'a \<Rightarrow> I8 \<Rightarrow> ('a uniq_state, unit) prog" where
  "uca_loop inp in_cnt n_in i last_val_seen counter = (if i < n_in then
       bind (u_read inp i) (\<lambda>inval. bind (u_read in_cnt i) (\<lambda>incnt.
       if inval = last_val_seen then uca_loop inp in_cnt n_in (Suc i) last_val_seen (counter + scast incnt)
       else seq (u_emit last_val_seen counter) (uca_loop inp in_cnt n_in (Suc i) inval (scast incnt))))
     else u_emit last_val_seen counter)"
  by auto
termination by (relation "measure (\<lambda>(inp, in_cnt, n_in, i, l, c). n_in - i)") auto

declare uca_loop.simps [simp del]

definition uniq_cnt_alldef :: "'a list \<Rightarrow> I4 list \<Rightarrow> int \<Rightarrow> ('a uniq_state, nat) prog" where
  "uniq_cnt_alldef inp in_cnt n_in =
     seq (modify (\<lambda>s. s\<lparr>u_n_out := 0\<rparr>))
    (bind (u_read inp 0) (\<lambda>first_val.
     seq (uca_loop inp in_cnt (nat n_in) 1 first_val 1) (gets u_n_out)))"

definition uniq_cnt_alldef_I4 :: "I4 list \<Rightarrow> I4 list \<Rightarrow> int \<Rightarrow> (I4 uniq_state, nat) prog" where
  "uniq_cnt_alldef_I4 = uniq_cnt_alldef"

definition uniq_cnt_alldef_I8 :: "I8 list \<Rightarrow> I4 list \<Rightarrow> int \<Rightarrow> (I8 uniq_state, nat) prog" where
  "uniq_cnt_alldef_I8 = uniq_cnt_alldef"

subsection \<open>union\<close>

text \<open>\<open>f1\<close> and \<open>f2\<close> are the rows not yet consumed, \<open>nR3\<close> the rows written to \<open>f3\<close>; the comparison is
  unsigned.\<close>

fun union_loop :: "'v::len word \<Rightarrow> 'v word list \<Rightarrow> 'v word list \<Rightarrow> nat \<Rightarrow> ('v word list, nat) prog" where
  "union_loop msk [] [] nR3 = ret nR3"
| "union_loop msk [] (y # f2) nR3 = seq (put_at nR3 y) (union_loop msk [] f2 (Suc nR3))"
| "union_loop msk (x # f1) [] nR3 = seq (put_at nR3 x) (union_loop msk f1 [] (Suc nR3))"
| "union_loop msk (x # f1) (y # f2) nR3 =
     (let eff1 = (if msk \<noteq> 0 then x AND NOT msk else x);
          eff2 = (if msk \<noteq> 0 then y AND NOT msk else y)
      in if eff1 < eff2 then seq (put_at nR3 x) (union_loop msk f1 (y # f2) (Suc nR3))
         else if eff1 > eff2 then seq (put_at nR3 y) (union_loop msk (x # f1) f2 (Suc nR3))
         else seq (put_at nR3 (if msk = 0 then x else eff1 OR ((eff1 AND msk) + (eff2 AND msk))))
                (union_loop msk f1 f2 (Suc nR3)))"

definition union_I4 :: "I4 list \<Rightarrow> I4 list \<Rightarrow> I4 \<Rightarrow> (I4 list, nat) prog" where
  "union_I4 f1 f2 msk = union_loop msk f1 f2 0"

definition union_I8 :: "I8 list \<Rightarrow> I8 list \<Rightarrow> I8 \<Rightarrow> (I8 list, nat) prog" where
  "union_I8 f1 f2 msk = union_loop msk f1 f2 0"

subsection \<open>Sortedness\<close>

lemma order_loop_run:
  assumes "base + n = length X"
  shows "order_loop asc X base i n prev =
    Ret (if sorted_wrt (if asc then (\<le>) else (\<ge>)) (prev # drop (base + i) X)
         then (if asc then ascending else descending) else unsorted)"
  using assms
proof (induction asc X base i n prev rule: order_loop.induct)
  case (1 asc X base i n prev)
  show ?case
  proof (cases "i < n")
    case True
    let ?R = "if asc then (\<le>) else (\<ge>) :: int \<Rightarrow> int \<Rightarrow> bool"
    have d: "drop (base + i) X = X ! (base + i) # drop (base + Suc i) X" using True 1(2) by (simp add: Cons_nth_drop_Suc)
    have tr: "sorted_wrt ?R (prev # x # xs) \<longleftrightarrow> ?R prev x \<and> sorted_wrt ?R (x # xs)" for x xs
      by (rule sorted_wrt2) (auto simp: transp_def)
    have "order_loop asc X base i n prev = (if ?R prev (X ! (base + i))
        then order_loop asc X base (Suc i) n (X ! (base + i)) else Ret unsorted)"
      using True 1(2) by (subst order_loop.simps) (auto simp: get_at_def)
    then show ?thesis unfolding d tr using True 1 by (auto simp: get_at_def)
  qed (use 1(2) in \<open>subst order_loop.simps, simp\<close>)
qed

lemma is_sorted_run:
  assumes "length X \<ge> 2" and "find_from (\<lambda>i. X ! i \<noteq> X ! 0) 1 (length X) = Some i"
  shows "is_sorted_alldef X (int (length X)) =
    Ret (if sorted_wrt (if X ! 0 < X ! i then (\<le>) else (\<ge>)) (X ! i # drop (2 * i) X)
         then (if X ! 0 < X ! i then ascending else descending) else unsorted)"
proof -
  have "X \<noteq> []" using assms(1) by auto
  have "i < length X" using find_from_Some[OF assms(2)] by simp
  have "is_sorted_alldef X (int (length X)) = order_loop (X ! 0 < X ! i) X i i (length X - i) (X ! i)"
    using assms \<open>X \<noteq> []\<close> by (simp add: is_sorted_alldef_def get_at_def Let_def)
  then show ?thesis using \<open>i < length X\<close> by (simp add: order_loop_run mult_2)
qed

text \<open>When the first two rows differ the test of a column for sortedness is exact: ascending
  or descending exactly when the column is, unsorted otherwise, without a read outside the
  column.\<close>

theorem is_sorted_I4_exact:
  assumes "length X \<ge> 2" and "X ! 0 \<noteq> X ! 1"
  shows "is_sorted_alldef_I4 X (int (length X)) = Ret
    (if sorted (map sint X) then ascending else if sorted_wrt (\<ge>) (map sint X) then descending else unsorted)"
proof -
  let ?X = "map sint X"
  obtain a b xs where X: "X = a # b # xs" using assms(1) by (cases X rule: list.exhaust; cases "tl X") auto
  then have ne: "sint a \<noteq> sint b" using assms(2) by (auto dest: signed_word_eqI)
  have "find_from (\<lambda>i. ?X ! i \<noteq> ?X ! 0) 1 (length ?X) = Some 1"
    using X ne by (subst find_from.simps) simp
  from is_sorted_run[OF _ this] assms(1)
  have run: "is_sorted_alldef_I4 X (int (length X)) = Ret (if sorted_wrt (if ?X ! 0 < ?X ! 1 then (\<le>) else (\<ge>)) (?X ! 1 # drop 2 ?X)
      then (if ?X ! 0 < ?X ! 1 then ascending else descending) else unsorted)"
    by (simp add: is_sorted_alldef_I4_def)
  have up: "sorted ?X \<longleftrightarrow> sint a \<le> sint b \<and> sorted_wrt (\<le>) (sint b # map sint xs)"
    and down: "sorted_wrt (\<ge>) ?X \<longleftrightarrow> sint a \<ge> sint b \<and> sorted_wrt (\<ge>) (sint b # map sint xs)"
    unfolding X list.map by (rule sorted_wrt2, simp add: transp_def)+
  show ?thesis unfolding run up down using ne by (auto simp: X)
qed

theorem is_sorted_I4_exact_witness:
  "is_sorted_alldef_I4 [1, 2, 2, 5] 4 = Ret ascending \<and> is_sorted_alldef_I4 [1, 2, 0] 3 = Ret unsorted"
  using is_sorted_I4_exact[of "[1, 2, 2, 5]"] is_sorted_I4_exact[of "[1, 2, 0]"] by simp

text \<open>After \<open>i\<close> equal rows the \<open>i - 1\<close> rows behind the first different one are never looked
  at: whatever they hold, the column is reported as ascending when the rest is.\<close>

theorem is_sorted_I4_skips:
  assumes "i \<ge> 1" and "sint a < sint b" and "length mid = i - 1" and "sorted (map sint (b # rest))"
  shows "is_sorted_alldef_I4 (replicate i a @ [b] @ mid @ rest) (int (length (replicate i a @ [b] @ mid @ rest))) = Ret ascending"
proof -
  let ?Y = "replicate i a @ [b] @ mid @ rest"
  let ?X = "map sint ?Y"
  have at: "?X ! i = sint b" "?X ! 0 = sint a" using assms(1) by (simp_all add: nth_append)
  have same: "?X ! j = sint a" if "j < i" for j using that by (simp add: nth_append)
  obtain k where k: "find_from (\<lambda>j. ?X ! j \<noteq> ?X ! 0) 1 (length ?X) = Some k"
    using find_from_None[of "\<lambda>j. ?X ! j \<noteq> ?X ! 0" 1 "length ?X"] at assms(1,2) by (cases "find_from (\<lambda>j. ?X ! j \<noteq> ?X ! 0) 1 (length ?X)") auto
  have "k = i"
    using find_from_Some[OF k] at assms(1,2) same[of k] by (metis linorder_neqE_nat less_irrefl)
  moreover have "drop (2 * i) ?X = map sint rest" using assms(1,3) by (cases i) simp_all
  ultimately show ?thesis
    using is_sorted_run[OF _ k] at assms(1,2,4) unfolding is_sorted_alldef_I4_def by simp
qed

theorem is_sorted_I4_skips_witness: "is_sorted_alldef_I4 [1, 1, 2, 0, 3] 5 = Ret ascending"
  using is_sorted_I4_skips[of 2 1 2 "[0]" "[3]"] by (simp add: numeral_2_eq_2)

subsection \<open>Runs of equal values\<close>

definition add_run :: "('a \<times> 'w::plus) list \<Rightarrow> 'a \<times> 'w \<Rightarrow> ('a \<times> 'w) list" where
  "add_run rs p = (if rs \<noteq> [] \<and> fst (last rs) = fst p
     then butlast rs @ [(fst p, snd (last rs) + snd p)] else rs @ [p])"

definition runs :: "('a \<times> 'w::plus) list \<Rightarrow> ('a \<times> 'w) list" where
  "runs ps = foldl add_run [] ps"

lemma runs_snoc: "runs (ps @ [p]) = add_run (runs ps) p"
  by (simp add: runs_def)

lemma runs_Nil [simp]: "runs [] = []"
  by (simp add: runs_def)

lemma length_runs: "length (runs ps) \<le> length ps"
proof (induction ps rule: rev_induct)
  case (snoc p ps)
  then show ?case by (cases "runs ps" rule: rev_cases) (auto simp: runs_snoc add_run_def)
qed simp

lemma runs_cases:
  obtains (new) "runs (ps @ [(x, w)]) = runs ps @ [(x, w)]" "runs ps = [] \<or> fst (last (runs ps)) \<noteq> x"
  | (more) rs v where "runs ps = rs @ [(x, v)]" "runs (ps @ [(x, w)]) = rs @ [(x, v + w)]"
proof (cases "runs ps" rule: rev_cases)
  case Nil
  then show thesis using new by (simp add: runs_snoc add_run_def)
next
  case (snoc rs q)
  then show thesis
    using new more[of rs "snd q"] by (cases "fst q = x") (auto simp: runs_snoc add_run_def prod_eq_iff)
qed

text \<open>For keys in ascending order the runs are the distinct values in strictly ascending order,
  each with the sum of its weights.\<close>

definition group_sums :: "('a \<Rightarrow> int) \<Rightarrow> ('a \<times> 'w::comm_monoid_add) list \<Rightarrow> ('a \<times> 'w) list \<Rightarrow> bool" where
  "group_sums key ps rs \<longleftrightarrow> sorted_wrt (<) (map (key \<circ> fst) rs) \<and> fst ` set rs = fst ` set ps \<and>
     (\<forall>(x, v) \<in> set rs. v = sum_list (map snd (filter (\<lambda>p. fst p = x) ps)))"

lemma runs_group_sums:
  fixes ps :: "('a \<times> 'w::comm_monoid_add) list"
  assumes "sorted (map (key \<circ> fst) ps)" and "\<And>x y. key x = key y \<Longrightarrow> x = y"
  shows "group_sums key ps (runs ps)"
  using assms(1)
proof (induction ps rule: rev_induct)
  case (snoc p ps)
  obtain x w where p: "p = (x, w)" by (cases p)
  have srt: "sorted (map (key \<circ> fst) ps)" and le: "\<forall>q \<in> set ps. key (fst q) \<le> key x"
    using snoc.prems by (auto simp: p sorted_append comp_def)
  have IH: "group_sums key ps (runs ps)" using snoc.IH[OF srt] .
  show ?case unfolding p
  proof (cases rule: runs_cases[where ps = ps and x = x and w = w])
    case new
    have below: "key (fst r) < key x" if r: "r \<in> set (runs ps)" for r
    proof -
      obtain rs q where rq: "runs ps = rs @ [q]" using r by (cases "runs ps" rule: rev_cases) auto
      have "fst r \<in> fst ` set ps" "fst q \<in> fst ` set ps" using r rq IH by (auto simp: group_sums_def)
      then have "key (fst r) \<le> key x" "key (fst q) \<le> key x" using le by auto
      moreover have "fst q \<noteq> x" using new(2) rq by simp
      then have "key (fst q) \<noteq> key x" using assms(2) by blast
      moreover have "r = q \<or> key (fst r) < key (fst q)" using r IH rq by (auto simp: group_sums_def sorted_wrt_append)
      ultimately show ?thesis by fastforce
    qed
    have "fst ` set (runs ps) = fst ` set ps" using IH by (simp add: group_sums_def)
    then have absent: "x \<notin> fst ` set ps" using below by (metis imageE less_irrefl)
    then have none: "filter (\<lambda>p. fst p = x) ps = []" by (auto simp: filter_empty_conv)
    have "v = sum_list (map snd (filter (\<lambda>p. fst p = y) (ps @ [(x, w)])))" if "(y, v) \<in> set (runs ps)" for y v
      using that IH below[OF that] by (auto simp: group_sums_def)
    then show "group_sums key (ps @ [(x, w)]) (runs (ps @ [(x, w)]))"
      using IH below none by (auto simp: group_sums_def new(1) sorted_wrt_append)
  next
    case (more rs v)
    have "v' = sum_list (map snd (filter (\<lambda>p. fst p = y) (ps @ [(x, w)])))" if "(y, v') \<in> set rs" for y v'
      using that IH more(1) by (fastforce simp: group_sums_def sorted_wrt_append)
    moreover have "v = sum_list (map snd (filter (\<lambda>p. fst p = x) ps))" using IH more(1) by (auto simp: group_sums_def)
    ultimately show "group_sums key (ps @ [(x, w)]) (runs (ps @ [(x, w)]))"
      using IH more(1) by (auto simp: group_sums_def more(2) sorted_wrt_append)
  qed
qed (simp add: group_sums_def)

subsection \<open>The scan writes the runs\<close>

definition uniq_inv :: "('a \<times> I4) list \<Rightarrow> nat \<Rightarrow> 'a uniq_state \<Rightarrow> bool" where
  "uniq_inv ps n s \<longleftrightarrow> n \<le> length (u_out s) \<and> n \<le> length (u_cnt s) \<and>
     u_n_out s = length (runs ps) \<and> u_cnt_ptr s = length (runs ps) - 1 \<and>
     take (length (runs ps)) (u_out s) = map fst (runs ps) \<and>
     take (length (runs ps)) (u_cnt s) = map snd (runs ps) \<and>
     u_last s = (if runs ps = [] then None else Some (fst (last (runs ps))))"

lemma wp_uniq_access [wp_simps]:
  "wp (u_put x) Q E s = (u_n_out s < length (u_out s) \<and>
     Q () (s\<lparr>u_out := (u_out s)[u_n_out s := x], u_last := Some x, u_n_out := u_n_out s + 1\<rparr>))"
  "wp (u_count f) Q E s = (u_cnt_ptr s < length (u_cnt s) \<and>
     Q () (s\<lparr>u_cnt := (u_cnt s)[u_cnt_ptr s := f (u_cnt s ! u_cnt_ptr s)]\<rparr>))"
  "wp (u_emit v c) Q E s = (u_n_out s < length (u_out s) \<and> u_n_out s < length (u_cnt s) \<and>
     Q () (s\<lparr>u_out := (u_out s)[u_n_out s := v], u_cnt := (u_cnt s)[u_n_out s := ucast c], u_n_out := u_n_out s + 1\<rparr>))"
  by (auto simp: wp_def u_put_def u_count_def u_emit_def)

lemma wp_u_read [wp_simps]: "wp (u_read xs i) Q E s = (i < length xs \<and> Q (xs ! i) s)"
  by (simp add: u_read_def get_at_def wp_simps)

lemma take_update_last: "k < length xs \<Longrightarrow> take (Suc k) (xs[k := x]) = take k xs @ [x]"
  by (simp add: take_Suc_conv_app_nth)

lemma wp_u_value:
  assumes "uniq_inv ps n s" and "length ps < n"
  shows "wp (u_value x w) (\<lambda>_. uniq_inv (ps @ [(x, w)]) n) E s"
proof (cases rule: runs_cases[where ps = ps and x = x and w = w])
  case new
  have l: "length (runs ps) < n" using length_runs[of ps] assms(2) by simp
  show ?thesis
  proof (cases "runs ps = []")
    case True
    moreover have "u_out s \<noteq> []" "u_cnt s \<noteq> []" using assms by (auto simp: uniq_inv_def)
    ultimately show ?thesis
      using assms by (auto simp: u_value_def wp_simps uniq_inv_def new(1) take_update_last)
  next
    case False
    then have "u_last s = Some (fst (last (runs ps)))" "fst (last (runs ps)) \<noteq> x" "Suc (length (runs ps) - 1) = length (runs ps)"
      using assms(1) new(2) by (simp_all add: uniq_inv_def)
    then show ?thesis
      using assms l by (auto simp: u_value_def wp_simps uniq_inv_def new(1) take_update_last)
  qed
next
  case (more rs v)
  have l: "length rs < n" using length_runs[of ps] assms(2) more(1) by simp
  have "u_last s = Some x" using assms(1) more(1) by (simp add: uniq_inv_def)
  moreover have "u_cnt s ! length rs = v"
    using assms(1) more(1) l by (auto simp: uniq_inv_def take_Suc_conv_app_nth)
  ultimately show ?thesis
    using assms l more(1) by (auto simp: u_value_def wp_simps uniq_inv_def more(2) take_Suc_conv_app_nth)
qed

text \<open>The rows that are counted, with their weights.\<close>

definition row_weight :: "I4 list option \<Rightarrow> nat \<Rightarrow> I4" where
  "row_weight in_cnt i = (case in_cnt of None \<Rightarrow> 1 | Some c \<Rightarrow> c ! i)"

definition row_defined :: "I1 list option \<Rightarrow> nat \<Rightarrow> bool" where
  "row_defined nn_X i = (case nn_X of None \<Rightarrow> True | Some b \<Rightarrow> b ! i \<noteq> 0)"

definition counted :: "'a list \<Rightarrow> I4 list option \<Rightarrow> I1 list option \<Rightarrow> nat \<Rightarrow> ('a \<times> I4) list" where
  "counted inp in_cnt nn_X n = map (\<lambda>i. (inp ! i, row_weight in_cnt i)) (filter (row_defined nn_X) [0..<n])"

definition columns_ok :: "'a list \<Rightarrow> I4 list option \<Rightarrow> I1 list option \<Rightarrow> nat \<Rightarrow> bool" where
  "columns_ok inp in_cnt nn_X n \<longleftrightarrow> n \<le> length inp \<and>
     (case in_cnt of None \<Rightarrow> True | Some c \<Rightarrow> n \<le> length c) \<and> (case nn_X of None \<Rightarrow> True | Some b \<Rightarrow> n \<le> length b)"

lemma length_counted: "length (counted inp in_cnt nn_X n) \<le> n"
  using length_filter_le[of "row_defined nn_X" "[0..<n]"] by (simp add: counted_def)

lemma wp_u_row:
  assumes "columns_ok inp in_cnt nn_X n" and "i < n" and "uniq_inv (counted inp in_cnt nn_X i) n s"
  shows "wp (u_row inp in_cnt nn_X i) (\<lambda>_. uniq_inv (counted inp in_cnt nn_X (Suc i)) n) E s"
proof -
  have l: "length (counted inp in_cnt nn_X i) < n" using length_counted[of inp in_cnt nn_X i] assms(2) by simp
  have "wp (u_row inp in_cnt nn_X i) Q E s \<longleftrightarrow>
      (if row_defined nn_X i then wp (u_value (inp ! i) (row_weight in_cnt i)) Q E s else Q () s)" for Q
    using assms(1,2)
    by (auto simp: u_row_def wp_simps row_defined_def row_weight_def columns_ok_def split: option.splits)
  then show ?thesis
    using wp_u_value[OF assms(3) l, of "inp ! i" "row_weight in_cnt i" E] assms(3) by (simp add: counted_def)
qed

lemma wp_uniq_scan:
  assumes "columns_ok inp in_cnt nn_X (nat n_in)" and "nat n_in \<le> length (u_out s)" and "nat n_in \<le> length (u_cnt s)"
  shows "wp (uniq_scan inp in_cnt n_in nn_X) (\<lambda>k s'. k = length (runs (counted inp in_cnt nn_X (nat n_in))) \<and>
     uniq_inv (counted inp in_cnt nn_X (nat n_in)) (nat n_in) s') (\<lambda>_. False) s"
proof -
  let ?s = "s\<lparr>u_n_out := 0, u_cnt_ptr := 0, u_last := None\<rparr>"
  have "uniq_inv (counted inp in_cnt nn_X 0) (nat n_in) ?s" using assms(2,3) by (simp add: uniq_inv_def counted_def)
  then have "wp (for_each (u_row inp in_cnt nn_X) [0..<nat n_in])
      (\<lambda>_. uniq_inv (counted inp in_cnt nn_X (nat n_in)) (nat n_in)) (\<lambda>_. False) ?s"
    using wp_u_row[OF assms(1)]
    by (intro wp_for_each_upt[where I = "\<lambda>i. uniq_inv (counted inp in_cnt nn_X i) (nat n_in)"]) auto
  then show ?thesis
    by (auto simp: uniq_scan_def wp_simps uniq_inv_def elim!: wp_mono)
qed

text \<open>C35: Counting the values of a column whose defined rows are in ascending order: the kernel
  returns, stays inside its arrays when they are as long as the column, writes the distinct
  defined values in strictly ascending order and, for each, the sum of the weights of its rows,
  modulo the width of \<open>int\<close>.\<close>

theorem uniq_cnt_I4_groups:
  assumes "n = nat n_in" and "columns_ok inp (Some in_cnt) nn_X n" and "n \<le> length (u_out s)" and "n \<le> length (u_cnt s)"
    and "sorted (map (sint \<circ> fst) (counted inp (Some in_cnt) nn_X n))"
  shows "\<exists>k s'. uniq_cnt_I4 inp in_cnt n_in nn_X s = (Ret k, s') \<and> k \<le> n \<and>
     group_sums sint (counted inp (Some in_cnt) nn_X n) (zip (take k (u_out s')) (take k (u_cnt s')))"
proof -
  let ?ps = "counted inp (Some in_cnt) nn_X n"
  obtain k s' where r: "uniq_cnt_I4 inp in_cnt n_in nn_X s = (Ret k, s')" "k = length (runs ?ps)" "uniq_inv ?ps n s'"
    using wp_Ret_result[OF wp_uniq_scan[of inp "Some in_cnt" nn_X n_in s]] assms(1-4) by (auto simp: uniq_cnt_I4_def)
  have "zip (take k (u_out s')) (take k (u_cnt s')) = runs ?ps"
    using r(2,3) by (simp add: uniq_inv_def zip_map_fst_snd)
  moreover have "group_sums sint ?ps (runs ?ps)"
    by (rule runs_group_sums[OF assms(5)]) (rule signed_word_eqI)
  moreover have "k \<le> n" using r(2) length_runs[of ?ps] length_counted[of inp "Some in_cnt" nn_X n] by linarith
  ultimately show ?thesis using r(1) by auto
qed

definition sample_uniq :: "I4 uniq_state" where
  "sample_uniq = \<lparr>u_out = [9, 9, 9, 9], u_cnt = [9, 9, 9, 9], u_n_out = 7, u_cnt_ptr = 7, u_last = None\<rparr>"

theorem uniq_cnt_I4_groups_witness:
  "\<exists>k s'. uniq_cnt_I4 [2, 2, 0, 5] [10, 20, 30, 40] 4 (Some [1, 1, 0, 1]) sample_uniq = (Ret k, s') \<and>
     group_sums sint [(2, 10), (2, 20), (5, 40 :: I4)] (zip (take k (u_out s')) (take k (u_cnt s')))"
proof -
  have c: "counted [2, 2, 0, 5] (Some [10, 20, 30, 40]) (Some [1, 1, 0, 1]) 4 = [(2 :: I4, 10), (2, 20), (5, 40)]"
    by code_simp
  have "columns_ok [2, 2, 0, 5 :: I4] (Some [10, 20, 30, 40]) (Some [1, 1, 0, 1]) 4" by (simp add: columns_ok_def)
  then show ?thesis
    using uniq_cnt_I4_groups[of 4 4 "[2, 2, 0, 5]" "[10, 20, 30, 40]" "Some [1, 1, 0, 1]" sample_uniq]
    unfolding c by (auto simp: sample_uniq_def)
qed

subsection \<open>The first weight\<close>

definition uca_inv :: "('a \<times> I8) list \<Rightarrow> nat \<Rightarrow> 'a uniq_state \<Rightarrow> bool" where
  "uca_inv rs n s \<longleftrightarrow> n \<le> length (u_out s) \<and> n \<le> length (u_cnt s) \<and> u_n_out s = length rs \<and>
     take (length rs) (u_out s) = map fst rs \<and> take (length rs) (u_cnt s) = map (\<lambda>p. ucast (snd p)) rs"

lemma wp_u_emit:
  assumes "uca_inv rs n s" and "length rs < n"
  shows "wp (u_emit v c) (\<lambda>_. uca_inv (rs @ [(v, c)]) n) E s"
  using assms by (auto simp: wp_simps uca_inv_def take_update_last)

lemma wp_uca_loop:
  assumes "n = length ps" and "map fst ps = inp" and "length in_cnt = n"
    and "\<forall>j < n. 0 < j \<longrightarrow> snd (ps ! j) = scast (in_cnt ! j)"
    and "0 < i" and "i \<le> n" and "runs (take i ps) = rs @ [(l, c)]" and "uca_inv rs n s"
  shows "wp (uca_loop inp in_cnt n i l c) (\<lambda>_. uca_inv (runs ps) n) E s"
  using assms(5-8)
proof (induction "n - i" arbitrary: i rs l c s)
  case 0
  then have "runs ps = rs @ [(l, c)]" using assms(1) by simp
  moreover from this have "length rs < n" using length_runs[of ps] assms(1) by simp
  ultimately show ?case using 0 wp_u_emit[OF 0(5), of l c E] by (subst uca_loop.simps) simp
next
  case (Suc d)
  then have i: "i < n" by simp
  define x w where "x = inp ! i" and "w = (scast (in_cnt ! i) :: I8)"
  have pi: "ps ! i = (x, w)"
    using i assms(1,2,4) Suc.prems(1) by (auto simp: x_def w_def prod_eq_iff)
  have t: "take (Suc i) ps = take i ps @ [(x, w)]" using i assms(1) pi by (simp add: take_Suc_conv_app_nth)
  have "length (rs @ [(l, c)]) \<le> i" using length_runs[of "take i ps"] Suc.prems(3) i by simp
  then have len: "length rs < n" using i by simp
  have step: "wp (uca_loop inp in_cnt n i l c) Q E s \<longleftrightarrow>
      (if x = l then wp (uca_loop inp in_cnt n (Suc i) l (c + w)) Q E s
       else wp (seq (u_emit l c) (uca_loop inp in_cnt n (Suc i) x w)) Q E s)" for Q
    using i assms(1-3) by (subst uca_loop.simps) (auto simp: wp_bind wp_u_read x_def w_def)
  show ?case
  proof (cases "x = l")
    case True
    have "runs (take (Suc i) ps) = rs @ [(l, c + w)]" unfolding t runs_snoc Suc.prems(3) using True by (simp add: add_run_def)
    then show ?thesis using True step i Suc by simp
  next
    case False
    have "runs (take (Suc i) ps) = (rs @ [(l, c)]) @ [(x, w)]" unfolding t runs_snoc Suc.prems(3) using False by (simp add: add_run_def)
    then have "wp (uca_loop inp in_cnt n (Suc i) x w) (\<lambda>_. uca_inv (runs ps) n) E s'" if "uca_inv (rs @ [(l, c)]) n s'" for s'
      using Suc.hyps(1)[of "Suc i" "rs @ [(l, c)]" x w s'] Suc.hyps(2) i that by simp
    then have "wp (seq (u_emit l c) (uca_loop inp in_cnt n (Suc i) x w)) (\<lambda>_. uca_inv (runs ps) n) E s"
      unfolding wp_seq by (intro wp_mono[OF wp_u_emit[OF Suc.prems(4) len]]) auto
    then show ?thesis using False step by simp
  qed
qed

text \<open>On a non-empty column in ascending order \<open>uniq_cnt_alldef_I4\<close> gives the groups and the sums
  of weights of a column whose first weight is one: the weight of the first row is ignored.\<close>

theorem uniq_cnt_alldef_I4_first:
  assumes "sorted (map sint (x # xs))" and "length ws = length xs"
    and "length (x # xs) \<le> length (u_out s)" and "length (x # xs) \<le> length (u_cnt s)"
  shows "\<exists>k s'. uniq_cnt_alldef_I4 (x # xs) (w # ws) (int (length (x # xs))) s = (Ret k, s') \<and>
     (\<exists>rs. group_sums sint (zip (x # xs) (1 # map scast ws)) rs \<and> k = length rs \<and>
        take k (u_out s') = map fst rs \<and> take k (u_cnt s') = map (\<lambda>p. ucast (snd p :: I8)) rs)"
proof -
  define n ps where "n = length (x # xs)" and "ps = zip (x # xs) (1 # map scast ws :: I8 list)"
  let ?s = "s\<lparr>u_n_out := 0\<rparr>"
  have f: "map fst ps = x # xs" using assms(2) by (simp add: ps_def)
  have "map (sint \<circ> fst) ps = map sint (map fst ps)" by simp
  then have "sorted (map (sint \<circ> fst) ps)" unfolding f using assms(1) by simp
  moreover have "n = length ps" using assms(2) by (simp add: n_def ps_def)
  ultimately have ps: "n = length ps" "map fst ps = x # xs" "sorted (map (sint \<circ> fst) ps)" using f by simp_all
  have r1: "runs (take 1 ps) = [] @ [(x, 1)]" by (simp add: ps_def runs_def add_run_def)
  have r2: "uca_inv [] n ?s" using assms(3,4) by (simp add: uca_inv_def n_def)
  have r3: "\<forall>j < n. 0 < j \<longrightarrow> snd (ps ! j) = scast ((w # ws) ! j)"
    using assms(2) by (auto simp: n_def ps_def nth_Cons split: nat.splits)
  have "wp (uca_loop (x # xs) (w # ws) n 1 x 1) (\<lambda>_. uca_inv (runs ps) n) (\<lambda>_. False) ?s"
    by (rule wp_uca_loop[OF ps(1,2) _ r3 _ _ r1 r2]) (simp_all add: n_def assms(2))
  then have "wp (uniq_cnt_alldef_I4 (x # xs) (w # ws) (int n)) (\<lambda>k s'. k = length (runs ps) \<and> uca_inv (runs ps) n s') (\<lambda>_. False) s"
    by (auto simp: uniq_cnt_alldef_I4_def uniq_cnt_alldef_def wp_simps uca_inv_def elim!: wp_mono)
  then obtain k s' where "uniq_cnt_alldef_I4 (x # xs) (w # ws) (int n) s = (Ret k, s')" "k = length (runs ps)" "uca_inv (runs ps) n s'"
    by (auto dest!: wp_Ret_result)
  moreover have "group_sums sint ps (runs ps)" by (rule runs_group_sums[OF ps(3)]) (rule signed_word_eqI)
  ultimately show ?thesis unfolding n_def ps_def[symmetric] by (auto simp: uca_inv_def)
qed

theorem uniq_cnt_alldef_I4_first_witness:
  "\<exists>k s'. uniq_cnt_alldef_I4 [2, 2, 5] [10, 20, 30] 3 sample_uniq = (Ret k, s') \<and>
     (\<exists>rs. group_sums sint [(2, 1), (2, 20), (5, 30)] rs \<and> k = length rs \<and>
        take k (u_out s') = map fst rs \<and> take k (u_cnt s') = map (\<lambda>p. ucast (snd p :: I8)) rs)"
  using uniq_cnt_alldef_I4_first[of 2 "[2, 5]" "[20, 30]" sample_uniq 10] by (simp add: sample_uniq_def)

subsection \<open>Union\<close>

fun merge_rows :: "'v::len word \<Rightarrow> 'v word list \<Rightarrow> 'v word list \<Rightarrow> 'v word list" where
  "merge_rows msk [] ys = ys"
| "merge_rows msk xs [] = xs"
| "merge_rows msk (x # xs) (y # ys) =
     (let ex = (if msk \<noteq> 0 then x AND NOT msk else x); ey = (if msk \<noteq> 0 then y AND NOT msk else y)
      in if ex < ey then x # merge_rows msk xs (y # ys)
         else if ey < ex then y # merge_rows msk (x # xs) ys
         else ex # merge_rows msk xs ys)"

lemma merge_rows_Nil2 [simp]: "merge_rows msk xs [] = xs"
  by (cases xs) simp_all

lemma put_then:
  assumes "k < length f3"
    and "p (f3[k := v]) = (Ret (Suc k + length zs), take (Suc k) (f3[k := v]) @ zs @ drop (Suc k + length zs) (f3[k := v]))"
  shows "seq (put_at k v) p f3 = (Ret (k + length (v # zs)), take k f3 @ (v # zs) @ drop (k + length (v # zs)) f3)"
  using assms by (simp add: seq_def bind_def take_update_last)

lemma union_loop_run:
  assumes "k + length xs + length ys \<le> length f3"
  shows "union_loop msk xs ys k f3 = (Ret (k + length (merge_rows msk xs ys)),
     take k f3 @ merge_rows msk xs ys @ drop (k + length (merge_rows msk xs ys)) f3)"
  using assms
proof (induction msk xs ys k arbitrary: f3 rule: union_loop.induct)
  case (2 msk y f2 k)
  then show ?case using put_then[of k f3 "union_loop msk [] f2 (Suc k)" y "merge_rows msk [] f2"] "2.IH"[of "f3[k := y]"] by simp
next
  case (3 msk x f1 k)
  then show ?case using put_then[of k f3 "union_loop msk f1 [] (Suc k)" x "merge_rows msk f1 []"] "3.IH"[of "f3[k := x]"] by simp
next
  case (4 msk x f1 y f2 k)
  define ex ey where "ex = (if msk \<noteq> 0 then x AND NOT msk else x)" and "ey = (if msk \<noteq> 0 then y AND NOT msk else y)"
  have k: "k < length f3" using 4(4) by simp
  consider "ex < ey" | "ey < ex" | "ex = ey" by fastforce
  then show ?case
  proof cases
    case 1
    then show ?thesis
      using put_then[OF k, of "union_loop msk f1 (y # f2) (Suc k)" x "merge_rows msk f1 (y # f2)"]
        "4.IH"(1)[OF ex_def ey_def 1, of "f3[k := x]"] 4(4)
      by (simp add: Let_def flip: ex_def ey_def)
  next
    case 2
    then have n: "\<not> ex < ey" by simp
    then show ?thesis
      using 2 put_then[OF k, of "union_loop msk (x # f1) f2 (Suc k)" y "merge_rows msk (x # f1) f2"]
        "4.IH"(2)[OF ex_def ey_def n 2, of "f3[k := y]"] 4(4)
      by (simp add: Let_def flip: ex_def ey_def)
  next
    case 3
    then have n: "\<not> ex < ey" "\<not> ey < ex" by simp_all
    have "msk \<noteq> 0 \<Longrightarrow> ex AND msk = 0" "msk \<noteq> 0 \<Longrightarrow> ey AND msk = 0"
      by (auto simp: ex_def ey_def intro!: bit_word_eqI simp: bit_simps)
    then have w: "(if msk = 0 then x else ey OR ((ey AND msk) + (ey AND msk))) = ey"
      using 3 by (auto simp: ex_def split: if_splits)
    show ?thesis
      using 3 n put_then[OF k, of "union_loop msk f1 f2 (Suc k)" ey "merge_rows msk f1 f2"]
        "4.IH"(3)[OF ex_def ey_def n, of "f3[k := ey]"] 4(4)
      by (simp add: Let_def w del: if_split flip: ex_def ey_def mult_2)
  qed
qed (simp add: ret_def)

lemma merge_rows_union:
  assumes "sorted_wrt (<) xs" and "sorted_wrt (<) ys"
  shows "sorted_wrt (<) (merge_rows 0 xs ys) \<and> set (merge_rows 0 xs ys) = set xs \<union> set ys"
  using assms
proof (induction "0 :: 'a word" xs ys rule: merge_rows.induct)
  case (3 x xs y ys)
  consider "x < y" | "y < x" | "x = y" by fastforce
  then show ?case
  proof cases
    case 1
    then show ?thesis using 3 by (auto simp: Let_def intro: less_trans)
  next
    case 2
    then have "\<not> x < y" by simp
    then show ?thesis using 2 3 by (auto simp: Let_def intro: less_trans)
  next
    case same: 3
    then show ?thesis using 3 by (auto simp: Let_def)
  qed
qed simp_all

text \<open>The plain union of two strictly ascending columns, with values compared as unsigned
  numbers, writes the strictly ascending list of all values of both, and needs no more room
  than both together; with a mask for a count field the counts of equal entries are lost
  instead of added.\<close>

theorem union_I4_merges:
  assumes "length xs + length ys \<le> length f3"
  shows "\<exists>zs. union_I4 xs ys msk f3 = (Ret (length zs), zs @ drop (length zs) f3) \<and>
     (msk = 0 \<and> sorted_wrt (<) xs \<and> sorted_wrt (<) ys \<longrightarrow> sorted_wrt (<) zs \<and> set zs = set xs \<union> set ys) \<and>
     (\<forall>x y. msk \<noteq> 0 \<and> xs = [x] \<and> ys = [y] \<and> x AND NOT msk = y AND NOT msk \<longrightarrow> zs = [x AND NOT msk])"
proof (intro exI conjI allI impI)
  show "union_I4 xs ys msk f3 = (Ret (length (merge_rows msk xs ys)), merge_rows msk xs ys @ drop (length (merge_rows msk xs ys)) f3)"
    using union_loop_run[of 0 xs ys f3 msk] assms by (simp add: union_I4_def)
  assume "msk = 0 \<and> sorted_wrt (<) xs \<and> sorted_wrt (<) ys"
  then show "sorted_wrt (<) (merge_rows msk xs ys)" "set (merge_rows msk xs ys) = set xs \<union> set ys"
    using merge_rows_union[of xs ys] by auto
qed (auto simp: Let_def)

theorem union_I4_merges_witness:
  "\<exists>zs. union_I4 [1, 5] [3, 5, 9] 0 [0, 0, 0, 0, 0, 0] = (Ret (length zs), zs @ drop (length zs) [0, 0, 0, 0, 0, 0]) \<and>
     sorted_wrt (<) zs \<and> set zs = {1, 3, 5, 9}"
  using union_I4_merges[of "[1, 5]" "[3, 5, 9]" "[0, 0, 0, 0, 0, 0]" 0] by auto

end
