(* ===== verification/K_Sort.thy ===== *)
theory K_Sort
  imports K_Prelude "HOL-Library.Multiset"
begin

text \<open>
  The sorting kernels \<open>AUX/qsort_asc_*.c\<close> and \<open>AUX/qsort_dsc_*.c\<close>: a quicksort with an
  explicit stack that leaves short segments unsorted, and an insertion sort without a bound
  check that finishes the work.  The files differ in the element type and in the direction
  of the comparison, which is the parameter \<open>lt\<close>.  Pointers into the array are positions of
  elements, of type \<open>int\<close> since a pointer may move in front of the array; reading or writing
  outside the array, and pushing more than the stack holds, is \<open>None\<close>.  The files with an
  index (\<open>qsort_*_val_*_idx_*.c\<close>) move the entries of a second array together with the values:
  there an element is a pair.
\<close>

subsection \<open>Elements\<close>

definition elt :: "'a list \<Rightarrow> int \<Rightarrow> 'a" where
  "elt xs i = xs ! nat i"

definition SWAP :: "int \<Rightarrow> int \<Rightarrow> 'a list \<Rightarrow> 'a list" where
  "SWAP a b xs = xs[nat a := elt xs b, nat b := elt xs a]"

subsection \<open>Partitioning a segment\<close>

text \<open>The median of three: \<open>lo\<close>, \<open>mid\<close> and \<open>hi\<close> are put in order.\<close>

definition median3 :: "('a \<Rightarrow> 'a \<Rightarrow> bool) \<Rightarrow> 'a list \<Rightarrow> int \<Rightarrow> int \<Rightarrow> int \<Rightarrow> 'a list option" where
  "median3 lt xs lo mid hi =
     (if in_range lo xs \<and> in_range mid xs \<and> in_range hi xs then
        let xs1 = (if lt (elt xs mid) (elt xs lo) then SWAP mid lo xs else xs) in
        Some (if lt (elt xs1 hi) (elt xs1 mid)
              then (let xs2 = SWAP mid hi xs1
                    in if lt (elt xs2 mid) (elt xs2 lo) then SWAP mid lo xs2 else xs2)
              else xs1)
      else None)"

text \<open>The two inner loops, which move \<open>left_ptr\<close> and \<open>right_ptr\<close>; the second one also is the inner
  loop of the insertion sort.\<close>

function walk_up :: "('a \<Rightarrow> 'a \<Rightarrow> bool) \<Rightarrow> 'a list \<Rightarrow> 'a \<Rightarrow> int \<Rightarrow> int option" where
  "walk_up lt xs v left = (if in_range left xs
     then (if lt (elt xs left) v then walk_up lt xs v (left + 1) else Some left)
     else None)"
  by auto
termination
  by (relation "measure (\<lambda>(lt, xs, v, left). nat (int (length xs) - left))") (auto simp: in_range_def)

function walk_down :: "('a \<Rightarrow> 'a \<Rightarrow> bool) \<Rightarrow> 'a list \<Rightarrow> 'a \<Rightarrow> int \<Rightarrow> int option" where
  "walk_down lt xs v right = (if in_range right xs
     then (if lt v (elt xs right) then walk_down lt xs v (right - 1) else Some right)
     else None)"
  by auto
termination
  by (relation "measure (\<lambda>(lt, xs, v, right). nat (right + 1))") (auto simp: in_range_def)

declare walk_up.simps [simp del] walk_down.simps [simp del]

lemma walk_up_ge: "walk_up lt xs v l = Some l' \<Longrightarrow> l \<le> l'"
proof (induction lt xs v l rule: walk_up.induct)
  case (1 lt xs v l)
  then show ?case by (subst (asm) (2) walk_up.simps) (auto split: if_splits)
qed

lemma walk_down_le: "walk_down lt xs v r = Some r' \<Longrightarrow> r' \<le> r"
proof (induction lt xs v r rule: walk_down.induct)
  case (1 lt xs v r)
  then show ?case by (subst (asm) (2) walk_down.simps) (auto split: if_splits)
qed

text \<open>``Collapse the walls'': the \<open>do\<close> loop; the pointer to the pivot follows a swap.\<close>

definition follow :: "int \<Rightarrow> int \<Rightarrow> int \<Rightarrow> int" where
  "follow mid l r = (if mid = l then r else if mid = r then l else mid)"

function collapse :: "('a \<Rightarrow> 'a \<Rightarrow> bool) \<Rightarrow> 'a list \<Rightarrow> int \<Rightarrow> int \<Rightarrow> int \<Rightarrow> ('a list \<times> int \<times> int) option" where
  "collapse lt xs mid left right = (if in_range mid xs then
      (case walk_up lt xs (elt xs mid) left of None \<Rightarrow> None | Some l \<Rightarrow>
      (case walk_down lt xs (elt xs mid) right of None \<Rightarrow> None | Some r \<Rightarrow>
         if l < r then
           (if l + 1 \<le> r - 1 then collapse lt (SWAP l r xs) (follow mid l r) (l + 1) (r - 1)
            else Some (SWAP l r xs, l + 1, r - 1))
         else if l = r then Some (xs, l + 1, r - 1)
         else Some (xs, l, r)))
     else None)"
  by auto
termination
  by (relation "measure (\<lambda>(lt, xs, mid, left, right). nat (right - left + 1))")
    (auto dest!: walk_up_ge walk_down_le)

declare collapse.simps [simp del]

lemma collapse_cases:
  assumes "collapse lt xs mid left right = Some (ys, l', r')"
  obtains l r where "walk_up lt xs (elt xs mid) left = Some l" "walk_down lt xs (elt xs mid) right = Some r"
      "l + 1 \<le> r - 1" "collapse lt (SWAP l r xs) (follow mid l r) (l + 1) (r - 1) = Some (ys, l', r')"
  | l r where "walk_up lt xs (elt xs mid) left = Some l" "walk_down lt xs (elt xs mid) right = Some r"
      "l < r" "r - 1 < l + 1" "ys = SWAP l r xs" "l' = l + 1" "r' = r - 1"
  | l where "walk_up lt xs (elt xs mid) left = Some l" "walk_down lt xs (elt xs mid) right = Some l"
      "ys = xs" "l' = l + 1" "r' = l - 1"
  | "walk_up lt xs (elt xs mid) left = Some l'" "walk_down lt xs (elt xs mid) right = Some r'"
      "r' < l'" "ys = xs"
proof -
  obtain l r where w: "walk_up lt xs (elt xs mid) left = Some l" "walk_down lt xs (elt xs mid) right = Some r"
    and "in_range mid xs"
    using assms by (subst (asm) collapse.simps) (auto split: if_splits option.splits)
  then have e: "collapse lt xs mid left right = (if l < r then
       (if l + 1 \<le> r - 1 then collapse lt (SWAP l r xs) (follow mid l r) (l + 1) (r - 1)
        else Some (SWAP l r xs, l + 1, r - 1))
     else if l = r then Some (xs, l + 1, r - 1) else Some (xs, l, r))"
    by (subst collapse.simps) simp
  consider "l + 1 \<le> r - 1" | "l < r" "r - 1 < l + 1" | "l = r" | "r < l" by linarith
  then show thesis
  proof cases
    case 1
    then show thesis using assms e by (intro that(1)[OF w]) simp_all
  next
    case 2
    then show thesis using assms e by (intro that(2)[OF w]) simp_all
  next
    case 3
    then show thesis using assms e w by (intro that(3)[of l]) simp_all
  next
    case 4
    then show thesis using assms e w by (intro that(4)) simp_all
  qed
qed

lemma collapse_bounds:
  "collapse lt xs mid l r = Some (ys, l', r') \<Longrightarrow> l \<le> l' \<and> r' \<le> r \<and> r' < l'"
proof (induction "nat (r - l + 1)" arbitrary: xs mid l r rule: less_induct)
  case less
  from less.prems show ?case
  proof (cases rule: collapse_cases)
    case (1 a b)
    then have "l \<le> a" "b \<le> r" by (auto dest: walk_up_ge walk_down_le)
    moreover from this have "a + 1 \<le> l' \<and> r' \<le> b - 1 \<and> r' < l'" using 1 less.hyps[of "b - 1" "a + 1"] by auto
    ultimately show ?thesis by auto
  qed (auto dest!: walk_up_ge walk_down_le)
qed

definition partition_seg :: "('a \<Rightarrow> 'a \<Rightarrow> bool) \<Rightarrow> 'a list \<Rightarrow> int \<Rightarrow> int \<Rightarrow> ('a list \<times> int \<times> int) option" where
  "partition_seg lt xs lo hi = (let mid = lo + (hi - lo) div 2 in
     case median3 lt xs lo mid hi of None \<Rightarrow> None
     | Some ys \<Rightarrow> collapse lt ys mid (lo + 1) (hi - 1))"

lemma partition_seg_bounds:
  "partition_seg lt xs lo hi = Some (ys, l, r) \<Longrightarrow> lo < l \<and> r < hi \<and> r < l"
  by (auto simp: partition_seg_def Let_def split: option.splits dest: collapse_bounds)

text \<open>The loop over the segments.  \<open>stack\<close> holds the entries above the pair of null pointers, which
  is at its bottom; there is room for 64 entries with that pair.  A difference of pointers
  converted to \<open>size_t\<close> is large when it is negative.\<close>

definition STACK_SIZE :: nat where "STACK_SIZE = 64"

definition MAX_THRESH :: int where "MAX_THRESH = 4"

definition small :: "int \<Rightarrow> bool" where
  "small d \<longleftrightarrow> 0 \<le> d \<and> d \<le> MAX_THRESH"

definition seg_weight :: "int \<times> int \<Rightarrow> nat" where
  "seg_weight s = (if snd s \<le> fst s then 0 else 2 * nat (snd s - fst s) + 1)"

function qs_loop :: "('a \<Rightarrow> 'a \<Rightarrow> bool) \<Rightarrow> 'a list \<Rightarrow> int \<Rightarrow> int \<Rightarrow> (int \<times> int) list \<Rightarrow> 'a list option" where
  "qs_loop lt xs lo hi stack = (case partition_seg lt xs lo hi of None \<Rightarrow> None
     | Some (ys, left, right) \<Rightarrow>
         if small (right - lo) then
           (if small (hi - left) then
              (case stack of [] \<Rightarrow> Some ys | (lo', hi') # stack' \<Rightarrow> qs_loop lt ys lo' hi' stack')
            else qs_loop lt ys left hi stack)
         else if small (hi - left) then qs_loop lt ys lo right stack
         else if length stack + 1 \<ge> STACK_SIZE then None
         else if right - lo > hi - left then qs_loop lt ys left hi ((lo, right) # stack)
         else qs_loop lt ys lo right ((left, hi) # stack))"
  by auto
termination
  by (relation "measures [\<lambda>(lt, xs, lo, hi, stack). 2 * nat (hi - lo) + sum_list (map seg_weight stack),
       \<lambda>(lt, xs, lo, hi, stack). STACK_SIZE - length stack]")
    (auto simp: seg_weight_def small_def dest!: partition_seg_bounds split: if_splits)

declare qs_loop.simps [simp del]

subsection \<open>Insertion sort\<close>

text \<open>The position of a smallest element among the first ones.\<close>

function find_smallest :: "('a \<Rightarrow> 'a \<Rightarrow> bool) \<Rightarrow> 'a list \<Rightarrow> int \<Rightarrow> int \<Rightarrow> int \<Rightarrow> int option" where
  "find_smallest lt xs thresh tmp run = (if run \<le> thresh then
       (if in_range run xs \<and> in_range tmp xs
        then find_smallest lt xs thresh (if lt (elt xs run) (elt xs tmp) then run else tmp) (run + 1)
        else None)
     else Some tmp)"
  by auto
termination by (relation "measure (\<lambda>(lt, xs, thresh, tmp, run). nat (thresh - run + 1))") auto

declare find_smallest.simps [simp del]

text \<open>Moving the element \<open>c\<close> from the position where the hole \<open>hi\<close> is to \<open>tmp\<close>.  The code does this for
  one byte of the elements after the other; the loop is the same for every byte.\<close>

function move_hole :: "'a list \<Rightarrow> int \<Rightarrow> int \<Rightarrow> 'a \<Rightarrow> 'a list" where
  "move_hole xs tmp hi c = (if hi - 1 \<ge> tmp then move_hole (xs[nat hi := elt xs (hi - 1)]) tmp (hi - 1) c
     else xs[nat hi := c])"
  by auto
termination by (relation "measure (\<lambda>(xs, tmp, hi, c). nat (hi - tmp))") auto

declare move_hole.simps [simp del]

function insert_loop :: "('a \<Rightarrow> 'a \<Rightarrow> bool) \<Rightarrow> 'a list \<Rightarrow> int \<Rightarrow> int \<Rightarrow> 'a list option" where
  "insert_loop lt xs end_ptr run = (if run \<le> end_ptr then
       (if in_range run xs then
          (case walk_down lt xs (elt xs run) (run - 1) of None \<Rightarrow> None
           | Some t \<Rightarrow> insert_loop lt (if t + 1 \<noteq> run then move_hole xs (t + 1) run (elt xs run) else xs)
               end_ptr (run + 1))
        else None)
     else Some xs)"
  by auto
termination by (relation "measure (\<lambda>(lt, xs, end_ptr, run). nat (end_ptr - run + 1))") auto

declare insert_loop.simps [simp del]

definition insertion_sort :: "('a \<Rightarrow> 'a \<Rightarrow> bool) \<Rightarrow> 'a list \<Rightarrow> int \<Rightarrow> 'a list option" where
  "insertion_sort lt xs total_elems = (let end_ptr = total_elems - 1; thresh = min end_ptr MAX_THRESH in
     case find_smallest lt xs thresh 0 1 of None \<Rightarrow> None
     | Some tmp \<Rightarrow> insert_loop lt (if tmp \<noteq> 0 then SWAP tmp 0 xs else xs) end_ptr 2)"

subsection \<open>The kernels\<close>

definition gnu_qsort :: "('a \<Rightarrow> 'a \<Rightarrow> bool) \<Rightarrow> 'a list \<Rightarrow> nat \<Rightarrow> 'a list option" where
  "gnu_qsort lt xs total_elems = (if total_elems = 0 then Some xs
     else case (if int total_elems > MAX_THRESH then qs_loop lt xs 0 (int total_elems - 1) [] else Some xs) of
       None \<Rightarrow> None
     | Some ys \<Rightarrow> insertion_sort lt ys (int total_elems))"

text \<open>The kernels for one array check the size of an element and end the program (\<open>Bye\<close>) when it
  is wrong.\<close>

definition qsort_col :: "('a \<Rightarrow> 'a \<Rightarrow> bool) \<Rightarrow> nat \<Rightarrow> 'a list \<Rightarrow> nat \<Rightarrow> nat \<Rightarrow> 'a list outcome" where
  "qsort_col lt elem_size pbase total_elems size_arg = (if size_arg \<noteq> elem_size then Bye
     else case gnu_qsort lt pbase total_elems of None \<Rightarrow> Fault | Some ys \<Rightarrow> Ret ys)"

definition qsort_asc_I4 :: "I4 list \<Rightarrow> nat \<Rightarrow> nat \<Rightarrow> I4 list outcome" where
  "qsort_asc_I4 = qsort_col (<s) 4"

definition qsort_asc_I8 :: "I8 list \<Rightarrow> nat \<Rightarrow> nat \<Rightarrow> I8 list outcome" where
  "qsort_asc_I8 = qsort_col (<s) 8"

definition qsort_dsc_I4 :: "I4 list \<Rightarrow> nat \<Rightarrow> nat \<Rightarrow> I4 list outcome" where
  "qsort_dsc_I4 = qsort_col (\<lambda>x y. y <s x) 4"

definition qsort_dsc_I8 :: "I8 list \<Rightarrow> nat \<Rightarrow> nat \<Rightarrow> I8 list outcome" where
  "qsort_dsc_I8 = qsort_col (\<lambda>x y. y <s x) 8"

text \<open>The kernels that move an index along.  Positions are computed in the type of the index, so
  that an \<open>int\<close> index only works for arrays of fewer than \<open>2^31\<close> entries; a longer array counts as
  a fault here.\<close>

definition qsort_val_idx :: "('a \<Rightarrow> 'a \<Rightarrow> bool) \<Rightarrow> nat \<Rightarrow> 'b list \<Rightarrow> 'a list \<Rightarrow> nat \<Rightarrow> ('b list \<times> 'a list) outcome" where
  "qsort_val_idx lt bound srt_ordr pbase total_elems =
     (if total_elems \<ge> bound \<or> total_elems > length pbase \<or> total_elems > length srt_ordr then Fault
      else case gnu_qsort (\<lambda>x y. lt (fst x) (fst y)) (zip (take total_elems pbase) (take total_elems srt_ordr)) total_elems of
        None \<Rightarrow> Fault
      | Some zs \<Rightarrow> Ret (map snd zs @ drop total_elems srt_ordr, map fst zs @ drop total_elems pbase))"

definition qsort_asc_val_I4_idx_I4 :: "I4 list \<Rightarrow> I4 list \<Rightarrow> nat \<Rightarrow> (I4 list \<times> I4 list) outcome" where
  "qsort_asc_val_I4_idx_I4 = qsort_val_idx (<s) (2 ^ 31)"

definition qsort_asc_val_I4_idx_I8 :: "I8 list \<Rightarrow> I4 list \<Rightarrow> nat \<Rightarrow> (I8 list \<times> I4 list) outcome" where
  "qsort_asc_val_I4_idx_I8 = qsort_val_idx (<s) (2 ^ 63)"

definition qsort_asc_val_I8_idx_I4 :: "I4 list \<Rightarrow> I8 list \<Rightarrow> nat \<Rightarrow> (I4 list \<times> I8 list) outcome" where
  "qsort_asc_val_I8_idx_I4 = qsort_val_idx (<s) (2 ^ 31)"

definition qsort_asc_val_I8_idx_I8 :: "I8 list \<Rightarrow> I8 list \<Rightarrow> nat \<Rightarrow> (I8 list \<times> I8 list) outcome" where
  "qsort_asc_val_I8_idx_I8 = qsort_val_idx (<s) (2 ^ 63)"

definition qsort_dsc_val_I4_idx_I4 :: "I4 list \<Rightarrow> I4 list \<Rightarrow> nat \<Rightarrow> (I4 list \<times> I4 list) outcome" where
  "qsort_dsc_val_I4_idx_I4 = qsort_val_idx (\<lambda>x y. y <s x) (2 ^ 31)"

definition qsort_dsc_val_I4_idx_I8 :: "I8 list \<Rightarrow> I4 list \<Rightarrow> nat \<Rightarrow> (I8 list \<times> I4 list) outcome" where
  "qsort_dsc_val_I4_idx_I8 = qsort_val_idx (\<lambda>x y. y <s x) (2 ^ 63)"

definition qsort_dsc_val_I8_idx_I4 :: "I4 list \<Rightarrow> I8 list \<Rightarrow> nat \<Rightarrow> (I4 list \<times> I8 list) outcome" where
  "qsort_dsc_val_I8_idx_I4 = qsort_val_idx (\<lambda>x y. y <s x) (2 ^ 31)"

definition qsort_dsc_val_I8_idx_I8 :: "I8 list \<Rightarrow> I8 list \<Rightarrow> nat \<Rightarrow> (I8 list \<times> I8 list) outcome" where
  "qsort_dsc_val_I8_idx_I8 = qsort_val_idx (\<lambda>x y. y <s x) (2 ^ 63)"

end
