(* ===== verification/K_Sort_Proofs.thy ===== *)
theory K_Sort_Proofs
  imports K_Sort
begin

text \<open>
  Correctness of the sorting kernels.  The locale \<open>sort_key\<close> is the contract of a comparison
  that orders elements by an integer key; the proofs are done once inside it and used for
  every kernel.  The quicksort phase needs only to bring a smallest element among the first
  five, which stops the unguarded loop of the insertion sort; the stack stays below its
  bound because the larger part is pushed.
\<close>

subsection \<open>Rearranging a segment\<close>

definition rearranged :: "int \<Rightarrow> int \<Rightarrow> 'a list \<Rightarrow> 'a list \<Rightarrow> bool" where
  "rearranged lo hi xs ys \<longleftrightarrow> length ys = length xs \<and> mset ys = mset xs \<and>
     (\<forall>i. in_range i xs \<and> (i < lo \<or> hi < i) \<longrightarrow> elt ys i = elt xs i) \<and>
     (\<forall>j. lo \<le> j \<and> j \<le> hi \<longrightarrow> (\<exists>i. lo \<le> i \<and> i \<le> hi \<and> elt ys j = elt xs i))"

lemma rearranged_refl [simp, intro]: "rearranged lo hi xs xs"
  by (auto simp: rearranged_def)

lemma rearranged_trans [trans]:
  assumes "rearranged lo hi xs ys" and "rearranged lo hi ys zs"
  shows "rearranged lo hi xs zs"
  unfolding rearranged_def
proof (intro conjI allI impI)
  fix j assume "lo \<le> j \<and> j \<le> hi"
  then obtain i where "lo \<le> i \<and> i \<le> hi \<and> elt zs j = elt ys i" using assms(2) by (auto simp: rearranged_def)
  then show "\<exists>i. lo \<le> i \<and> i \<le> hi \<and> elt zs j = elt xs i" using assms(1) by (auto simp: rearranged_def)
qed (use assms in \<open>auto simp: rearranged_def in_range_def\<close>)

lemma length_SWAP [simp]: "length (SWAP a b xs) = length xs"
  by (simp add: SWAP_def)

lemma in_range_SWAP [simp]: "in_range i (SWAP a b xs) = in_range i xs"
  by (simp add: in_range_def)

lemma elt_SWAP:
  assumes "in_range a xs" and "in_range b xs" and "0 \<le> i"
  shows "elt (SWAP a b xs) i = (if i = b then elt xs a else if i = a then elt xs b else elt xs i)"
  using assms by (auto simp: SWAP_def elt_def in_range_nat nth_list_update eq_nat_nat_iff)

lemma rearranged_SWAP:
  assumes "in_range a xs" and "in_range b xs" and "lo \<le> a" "a \<le> hi" "lo \<le> b" "b \<le> hi" and "0 \<le> lo"
  shows "rearranged lo hi xs (SWAP a b xs)"
proof -
  have "mset (SWAP a b xs) = mset xs"
    using assms(1,2) by (simp add: SWAP_def elt_def in_range_nat mset_swap)
  moreover have "\<exists>i. lo \<le> i \<and> i \<le> hi \<and> elt (SWAP a b xs) j = elt xs i" if "lo \<le> j" "j \<le> hi" for j
    using that assms by (auto simp: elt_SWAP)
  ultimately show ?thesis
    using assms by (auto simp: rearranged_def elt_SWAP in_range_def)
qed

lemma rearranged_length: "rearranged lo hi xs ys \<Longrightarrow> length ys = length xs"
  by (simp add: rearranged_def)

lemma rearranged_outside: "rearranged lo hi xs ys \<Longrightarrow> in_range i xs \<Longrightarrow> i < lo \<or> hi < i \<Longrightarrow> elt ys i = elt xs i"
  by (auto simp: rearranged_def)

lemma rearranged_inside:
  assumes "rearranged lo hi xs ys" and "lo \<le> j" "j \<le> hi"
  obtains i where "lo \<le> i" "i \<le> hi" "elt ys j = elt xs i"
  using assms by (auto simp: rearranged_def)

subsection \<open>The inner loops stop\<close>

lemma walk_up_stop:
  assumes "0 \<le> l" and "l \<le> b" and "in_range b xs" and "\<not> lt (elt xs b) v"
  shows "\<exists>l'. walk_up lt xs v l = Some l' \<and> l \<le> l' \<and> l' \<le> b \<and> \<not> lt (elt xs l') v \<and>
     (\<forall>i. l \<le> i \<and> i < l' \<longrightarrow> lt (elt xs i) v)"
  using assms(1,2)
proof (induction "nat (b - l)" arbitrary: l rule: less_induct)
  case less
  have r: "in_range l xs" using less.prems assms(3) by (auto simp: in_range_def)
  show ?case
  proof (cases "lt (elt xs l) v")
    case True
    then have "l \<noteq> b" using assms(4) by auto
    then obtain l' where l': "walk_up lt xs v (l + 1) = Some l'" "l + 1 \<le> l'" "l' \<le> b" "\<not> lt (elt xs l') v"
        "\<forall>i. l + 1 \<le> i \<and> i < l' \<longrightarrow> lt (elt xs i) v"
      using less.hyps[of "l + 1"] less.prems by auto
    have "lt (elt xs i) v" if "l \<le> i" "i < l'" for i
      using that l'(5) True by (cases "i = l") auto
    then show ?thesis using l' True r by (subst walk_up.simps) auto
  next
    case False
    then show ?thesis using r less.prems by (subst walk_up.simps) auto
  qed
qed

lemma walk_down_stop:
  assumes "0 \<le> a" and "a \<le> r" and "in_range r xs" and "\<not> lt v (elt xs a)"
  shows "\<exists>r'. walk_down lt xs v r = Some r' \<and> a \<le> r' \<and> r' \<le> r \<and> \<not> lt v (elt xs r') \<and>
     (\<forall>i. r' < i \<and> i \<le> r \<longrightarrow> lt v (elt xs i))"
  using assms(2,3)
proof (induction "nat (r - a)" arbitrary: r rule: less_induct)
  case less
  show ?case
  proof (cases "lt v (elt xs r)")
    case True
    then have "r \<noteq> a" using assms(4) by auto
    then obtain r' where r': "walk_down lt xs v (r - 1) = Some r'" "a \<le> r'" "r' \<le> r - 1" "\<not> lt v (elt xs r')"
        "\<forall>i. r' < i \<and> i \<le> r - 1 \<longrightarrow> lt v (elt xs i)"
      using less.hyps[of "r - 1"] less.prems assms(1) by (auto simp: in_range_def)
    have "lt v (elt xs i)" if "r' < i" "i \<le> r" for i
      using that r'(5) True by (cases "i = r") auto
    then show ?thesis using r' True less.prems by (subst walk_down.simps) auto
  next
    case False
    then show ?thesis using less.prems by (subst walk_down.simps) auto
  qed
qed

subsection \<open>Partitioning\<close>

text \<open>The state of the partition loop: what is left of \<open>l\<close> is not above the pivot, what is right of
  \<open>r\<close> is not below it.\<close>

definition part_inv :: "('a \<Rightarrow> int) \<Rightarrow> int \<Rightarrow> int \<Rightarrow> 'a list \<Rightarrow> int \<Rightarrow> int \<Rightarrow> int \<Rightarrow> bool" where
  "part_inv key lo hi xs mid l r \<longleftrightarrow> 0 \<le> lo \<and> hi < int (length xs) \<and> lo < l \<and> r < hi \<and>
     lo \<le> mid \<and> mid \<le> hi \<and> l \<le> r + 1 \<and>
     (\<forall>i. lo \<le> i \<and> i < l \<longrightarrow> key (elt xs i) \<le> key (elt xs mid)) \<and>
     (\<forall>i. r < i \<and> i \<le> hi \<longrightarrow> key (elt xs mid) \<le> key (elt xs i))"

definition parted :: "('a \<Rightarrow> int) \<Rightarrow> int \<Rightarrow> int \<Rightarrow> 'a list \<Rightarrow> 'a list \<times> int \<times> int \<Rightarrow> bool" where
  "parted key lo hi xs res \<longleftrightarrow> (case res of (ys, l, r) \<Rightarrow> rearranged lo hi xs ys \<and> lo \<le> r \<and> r < l \<and> l \<le> hi \<and>
     (\<exists>p. (\<forall>i. lo \<le> i \<and> i < l \<longrightarrow> key (elt ys i) \<le> p) \<and> (\<forall>i. r < i \<and> i \<le> hi \<longrightarrow> p \<le> key (elt ys i))))"

lemma part_inv_SWAP:
  assumes "part_inv key lo hi xs mid l r" and "l < r"
    and "key (elt xs mid) \<le> key (elt xs l)" and "key (elt xs r) \<le> key (elt xs mid)"
  shows "part_inv key lo hi (SWAP l r xs) (follow mid l r) (l + 1) (r - 1)"
proof -
  have r: "in_range l xs" "in_range r xs" and "0 \<le> mid" using assms(1,2) by (auto simp: part_inv_def in_range_def)
  then have "elt (SWAP l r xs) (follow mid l r) = elt xs mid"
    by (auto simp: follow_def elt_SWAP in_range_def)
  then show ?thesis
    using assms by (auto simp: part_inv_def elt_SWAP[OF r] follow_def)
qed

lemma parted_trans: "rearranged lo hi xs ys \<Longrightarrow> parted key lo hi ys res \<Longrightarrow> parted key lo hi xs res"
  by (auto simp: parted_def split: prod.splits intro: rearranged_trans)

text \<open>An inner loop that has stopped.\<close>

definition stopped :: "('a \<Rightarrow> int) \<Rightarrow> 'a list \<Rightarrow> int \<Rightarrow> int \<Rightarrow> int \<Rightarrow> bool" where
  "stopped key xs mid l r \<longleftrightarrow> key (elt xs mid) \<le> key (elt xs l) \<and> key (elt xs r) \<le> key (elt xs mid)"

locale sort_key =
  fixes lt :: "'a \<Rightarrow> 'a \<Rightarrow> bool" and key :: "'a \<Rightarrow> int"
  assumes lt_key: "lt x y \<longleftrightarrow> key x < key y"
begin

lemma walks_stop:
  assumes "part_inv key lo hi xs mid l r"
  obtains l' r' where "walk_up lt xs (elt xs mid) l = Some l'" "walk_down lt xs (elt xs mid) r = Some r'"
    "l \<le> l'" "r' \<le> r" "part_inv key lo hi xs mid l' r'" "stopped key xs mid l' r'"
proof -
  have inv: "0 \<le> lo" "hi < int (length xs)" "lo < l" "r < hi" "l \<le> r + 1"
    "\<And>i. lo \<le> i \<Longrightarrow> i < l \<Longrightarrow> key (elt xs i) \<le> key (elt xs mid)"
    "\<And>i. r < i \<Longrightarrow> i \<le> hi \<Longrightarrow> key (elt xs mid) \<le> key (elt xs i)"
    using assms by (auto simp: part_inv_def)
  have up: "0 \<le> l" "l \<le> r + 1" "in_range (r + 1) xs" "\<not> lt (elt xs (r + 1)) (elt xs mid)"
    using inv(1-5) inv(7)[of "r + 1"] by (auto simp: in_range_def lt_key)
  obtain l' where l': "walk_up lt xs (elt xs mid) l = Some l'" "l \<le> l'" "l' \<le> r + 1"
    "key (elt xs mid) \<le> key (elt xs l')" "\<forall>i. l \<le> i \<and> i < l' \<longrightarrow> key (elt xs i) < key (elt xs mid)"
    using walk_up_stop[where lt = lt and v = "elt xs mid", OF up] by (auto simp: lt_key)
  have below: "key (elt xs i) \<le> key (elt xs mid)" if "lo \<le> i" "i < l'" for i
    using that inv(6)[of i] l'(5) by (cases "i < l") (auto intro: less_imp_le)
  have down: "0 \<le> l' - 1" "l' - 1 \<le> r" "in_range r xs" "\<not> lt (elt xs mid) (elt xs (l' - 1))"
    using inv(1-5) l'(2,3) below[of "l' - 1"] by (auto simp: in_range_def lt_key)
  obtain r' where r': "walk_down lt xs (elt xs mid) r = Some r'" "l' - 1 \<le> r'" "r' \<le> r"
    "key (elt xs r') \<le> key (elt xs mid)" "\<forall>i. r' < i \<and> i \<le> r \<longrightarrow> key (elt xs mid) < key (elt xs i)"
    using walk_down_stop[where lt = lt and v = "elt xs mid", OF down] by (auto simp: lt_key)
  have above: "key (elt xs mid) \<le> key (elt xs i)" if "r' < i" "i \<le> hi" for i
    using that inv(7)[of i] r'(5) by (cases "r < i") (auto intro: less_imp_le)
  have "part_inv key lo hi xs mid l' r'"
    using assms below above l'(2) r'(2,3) by (auto simp: part_inv_def)
  then show thesis using that l' r' by (auto simp: stopped_def)
qed

lemma collapse_ok:
  assumes "part_inv key lo hi xs mid l r"
  shows "\<exists>res. collapse lt xs mid l r = Some res \<and> parted key lo hi xs res"
  using assms
proof (induction "nat (r - l + 1)" arbitrary: xs mid l r rule: less_induct)
  case less
  have m: "in_range mid xs" using less.prems by (auto simp: part_inv_def in_range_def)
  from less.prems obtain l' r' where w: "walk_up lt xs (elt xs mid) l = Some l'"
    "walk_down lt xs (elt xs mid) r = Some r'" "l \<le> l'" "r' \<le> r" "part_inv key lo hi xs mid l' r'"
    "stopped key xs mid l' r'" by (rule walks_stop)
  note step = collapse.simps[of lt xs mid l r]
  show ?case
  proof (cases "l' < r'")
    case True
    then have "in_range l' xs" "in_range r' xs" using w(5) by (auto simp: part_inv_def in_range_def)
    then have s: "rearranged lo hi xs (SWAP l' r' xs)"
      using w(5) True by (intro rearranged_SWAP) (auto simp: part_inv_def)
    have i: "part_inv key lo hi (SWAP l' r' xs) (follow mid l' r') (l' + 1) (r' - 1)"
      using w(5,6) True by (intro part_inv_SWAP) (auto simp: stopped_def)
    show ?thesis
    proof (cases "l' + 1 \<le> r' - 1")
      case rec: True
      then obtain res where "collapse lt (SWAP l' r' xs) (follow mid l' r') (l' + 1) (r' - 1) = Some res"
        "parted key lo hi (SWAP l' r' xs) res"
        using less.hyps[OF _ i] w(3,4) by auto
      then show ?thesis using parted_trans[OF s] m w(1,2) True rec by (subst step) auto
    next
      case False
      then have "parted key lo hi xs (SWAP l' r' xs, l' + 1, r' - 1)"
        using s i True by (auto simp: parted_def part_inv_def)
      then show ?thesis using m w(1,2) True False by (subst step) simp
    qed
  next
    case False
    let ?p = "key (elt xs mid)"
    have inv: "lo < l'" "r' < hi" "l' \<le> r' + 1" "\<And>i. lo \<le> i \<and> i < l' \<Longrightarrow> key (elt xs i) \<le> ?p"
      "\<And>i. r' < i \<and> i \<le> hi \<Longrightarrow> ?p \<le> key (elt xs i)" using w(5) by (auto simp: part_inv_def)
    have "parted key lo hi xs (xs, l', r')" if "r' < l'"
      using that inv by (auto simp: parted_def intro!: exI[of _ ?p])
    moreover have "parted key lo hi xs (xs, l' + 1, r' - 1)" if "l' = r'"
    proof -
      have "key (elt xs i) \<le> ?p" if "lo \<le> i" "i < l' + 1" for i
        using that inv(4)[of i] w(6) \<open>l' = r'\<close> by (cases "i = l'") (auto simp: stopped_def)
      moreover have "?p \<le> key (elt xs i)" if "r' - 1 < i" "i \<le> hi" for i
        using that inv(5)[of i] w(6) \<open>l' = r'\<close> by (cases "i = l'") (auto simp: stopped_def)
      ultimately show ?thesis using that inv(1-3) by (auto simp: parted_def intro!: exI[of _ ?p])
    qed
    ultimately show ?thesis using m w(1,2) False by (subst step) auto
  qed
qed

lemma median3_ok:
  assumes "0 \<le> lo" and "lo < mid" and "mid < hi" and "hi < int (length xs)"
  shows "\<exists>ys. median3 lt xs lo mid hi = Some ys \<and> rearranged lo hi xs ys \<and>
     key (elt ys lo) \<le> key (elt ys mid) \<and> key (elt ys mid) \<le> key (elt ys hi)"
proof -
  have r: "in_range lo xs" "in_range mid xs" "in_range hi xs" using assms by (auto simp: in_range_def)
  define xs1 where "xs1 = (if lt (elt xs mid) (elt xs lo) then SWAP mid lo xs else xs)"
  have r1: "in_range lo xs1" "in_range mid xs1" "in_range hi xs1" using r by (auto simp: xs1_def)
  have s1: "rearranged lo hi xs xs1" "key (elt xs1 lo) \<le> key (elt xs1 mid)"
    using r assms rearranged_SWAP[of mid xs lo lo hi] by (auto simp: xs1_def elt_SWAP lt_key)
  show ?thesis
  proof (cases "lt (elt xs1 hi) (elt xs1 mid)")
    case True
    define xs2 where "xs2 = SWAP mid hi xs1"
    have r2: "in_range lo xs2" "in_range mid xs2" "in_range hi xs2" using r1 by (auto simp: xs2_def)
    have s2: "rearranged lo hi xs xs2" "key (elt xs2 mid) \<le> key (elt xs2 hi)" "key (elt xs2 lo) \<le> key (elt xs2 hi)"
      using r1 assms s1 True rearranged_SWAP[of mid xs1 hi lo hi]
      by (auto simp: xs2_def elt_SWAP lt_key intro: rearranged_trans)
    define ys where "ys = (if lt (elt xs2 mid) (elt xs2 lo) then SWAP mid lo xs2 else xs2)"
    have "rearranged lo hi xs ys" "key (elt ys lo) \<le> key (elt ys mid)" "key (elt ys mid) \<le> key (elt ys hi)"
      using r2 assms s2 rearranged_SWAP[of mid xs2 lo lo hi]
      by (auto simp: ys_def elt_SWAP lt_key intro: rearranged_trans)
    moreover have "median3 lt xs lo mid hi = Some ys"
      using r True by (simp add: median3_def Let_def flip: xs1_def xs2_def ys_def)
    ultimately show ?thesis by blast
  next
    case False
    then have "median3 lt xs lo mid hi = Some xs1" using r by (simp add: median3_def Let_def flip: xs1_def)
    then show ?thesis using s1 False by (auto simp: lt_key)
  qed
qed

lemma partition_ok:
  assumes "0 \<le> lo" and "lo + 2 \<le> hi" and "hi < int (length xs)"
  shows "\<exists>res. partition_seg lt xs lo hi = Some res \<and> parted key lo hi xs res"
proof -
  let ?mid = "lo + (hi - lo) div 2"
  have mid: "lo < ?mid" "?mid < hi" using assms(2) by linarith+
  obtain ys where ys: "median3 lt xs lo ?mid hi = Some ys" "rearranged lo hi xs ys"
    "key (elt ys lo) \<le> key (elt ys ?mid)" "key (elt ys ?mid) \<le> key (elt ys hi)"
    using median3_ok[OF assms(1) mid assms(3)] by blast
  have "part_inv key lo hi ys ?mid (lo + 1) (hi - 1)"
    unfolding part_inv_def
  proof (intro conjI allI impI)
    fix i
    show "key (elt ys i) \<le> key (elt ys ?mid)" if "lo \<le> i \<and> i < lo + 1"
      using that ys(3) by (cases "i = lo") auto
    show "key (elt ys ?mid) \<le> key (elt ys i)" if "hi - 1 < i \<and> i \<le> hi"
      using that ys(4) by (cases "i = hi") auto
  qed (use assms mid rearranged_length[OF ys(2)] in auto)
  then obtain res where "collapse lt ys ?mid (lo + 1) (hi - 1) = Some res" "parted key lo hi ys res"
    using collapse_ok by blast
  then show ?thesis
    using ys(1) parted_trans[OF ys(2)] by (auto simp: partition_seg_def Let_def)
qed

end

subsection \<open>The loop over segments\<close>

text \<open>The first \<open>b\<close> elements are not above any other.\<close>

definition front :: "('a \<Rightarrow> int) \<Rightarrow> 'a list \<Rightarrow> int \<Rightarrow> bool" where
  "front key xs b \<longleftrightarrow> 0 < b \<and> b \<le> int (length xs) \<and>
     (\<forall>i j. 0 \<le> i \<and> i < b \<and> b \<le> j \<and> j < int (length xs) \<longrightarrow> key (elt xs i) \<le> key (elt xs j))"

text \<open>A segment with \<open>k\<close> segments below it on the stack has at most a \<open>2^k\<close>-th of the elements.\<close>

fun shrinking :: "int \<Rightarrow> (int \<times> int) list \<Rightarrow> bool" where
  "shrinking n [] \<longleftrightarrow> True"
| "shrinking n ((l, h) # segs) \<longleftrightarrow> (h - l + 1) * 2 ^ length segs \<le> n \<and> shrinking n segs"

definition seg_ok :: "int \<Rightarrow> int \<Rightarrow> int \<times> int \<Rightarrow> bool" where
  "seg_ok n b s \<longleftrightarrow> (case s of (l, h) \<Rightarrow> 0 \<le> l \<and> l + 4 \<le> h \<and> h < n \<and> (if l = 0 then h = b - 1 else b \<le> l))"

definition pending :: "int \<Rightarrow> int \<Rightarrow> (int \<times> int) list \<Rightarrow> bool" where
  "pending n b segs \<longleftrightarrow> (\<forall>s \<in> set segs. seg_ok n b s) \<and> length (filter (\<lambda>s. fst s = 0) segs) \<le> 1 \<and>
     (b \<le> 5 \<or> (\<exists>s \<in> set segs. fst s = 0))"

lemma seg_ok_shrink: "seg_ok n b (l, h) \<Longrightarrow> l \<noteq> 0 \<Longrightarrow> b' \<le> b \<Longrightarrow> seg_ok n b' (l, h)"
  by (auto simp: seg_ok_def)

lemma pending_split:
  assumes "pending n b ((lo, hi) # segs)" and "lo \<le> right" "right < left" "left \<le> hi"
    and "b' = (if lo = 0 then right + 1 else b)"
  shows "(lo = 0 \<Longrightarrow> right \<le> 4) \<Longrightarrow> pending n b' segs"
    and "4 < hi - left \<Longrightarrow> (lo = 0 \<Longrightarrow> right \<le> 4) \<Longrightarrow> pending n b' ((left, hi) # segs)"
    and "4 < right - lo \<Longrightarrow> pending n b' ((lo, right) # segs)"
    and "4 < right - lo \<Longrightarrow> 4 < hi - left \<Longrightarrow> pending n b' ((left, hi) # (lo, right) # segs)"
    and "4 < right - lo \<Longrightarrow> 4 < hi - left \<Longrightarrow> pending n b' ((lo, right) # (left, hi) # segs)"
proof -
  have cur: "0 \<le> lo" "lo + 4 \<le> hi" "hi < n" "lo = 0 \<Longrightarrow> hi = b - 1" "lo \<noteq> 0 \<Longrightarrow> b \<le> lo"
    using assms(1) by (auto simp: pending_def seg_ok_def split: if_splits)
  have one: "lo = 0 \<Longrightarrow> fst s \<noteq> 0" if "s \<in> set segs" for s
    using assms(1) that by (auto simp: pending_def filter_empty_conv)
  have rest: "\<forall>s \<in> set segs. seg_ok n b' s"
  proof
    fix s assume s: "s \<in> set segs"
    then have "seg_ok n b s" using assms(1) by (auto simp: pending_def)
    then show "seg_ok n b' s"
      using one[OF s] seg_ok_shrink[of n b "fst s" "snd s" b'] cur(4) assms(2-5) by (cases "lo = 0") auto
  qed
  have cnt: "length (filter (\<lambda>s. fst s = 0) segs) \<le> (if lo = 0 then 0 else 1)"
    using assms(1) by (auto simp: pending_def)
  have left: "left \<noteq> 0" using cur(1) assms(2,3) by auto
  have some: "b' \<le> 5 \<or> (\<exists>s \<in> set segs. fst s = 0)" if "lo = 0 \<Longrightarrow> right \<le> 4"
    using that assms(1,5) by (auto simp: pending_def split: if_splits)
  have new: "4 < hi - left \<Longrightarrow> seg_ok n b' (left, hi)" "4 < right - lo \<Longrightarrow> seg_ok n b' (lo, right)"
    using cur assms(2-5) by (auto simp: seg_ok_def)
  show "pending n b' segs" if "lo = 0 \<Longrightarrow> right \<le> 4"
    using rest cnt some[OF that] by (auto simp: pending_def split: if_splits)
  show "pending n b' ((left, hi) # segs)" if "4 < hi - left" "lo = 0 \<Longrightarrow> right \<le> 4"
    using rest cnt some[OF that(2)] left new(1)[OF that(1)] by (auto simp: pending_def split: if_splits)
  have three: "lo = 0 \<or> b' \<le> 5 \<or> (\<exists>s \<in> set segs. fst s = 0)"
    using assms(1,5) by (auto simp: pending_def)
  show "pending n b' ((lo, right) # segs)" if "4 < right - lo"
    using rest cnt three new(2)[OF that] by (auto simp: pending_def split: if_splits)
  show "pending n b' ((left, hi) # (lo, right) # segs)" "pending n b' ((lo, right) # (left, hi) # segs)"
    if "4 < right - lo" "4 < hi - left"
    using rest cnt three left new(1)[OF that(2)] new(2)[OF that(1)] by (auto simp: pending_def split: if_splits)
qed

lemma front_rearranged:
  assumes "front key xs b" and "rearranged lo hi xs ys" and "b \<le> lo" and "hi < int (length xs)"
  shows "front key ys b"
  unfolding front_def
proof (intro conjI allI impI)
  fix i j assume ij: "0 \<le> i \<and> i < b \<and> b \<le> j \<and> j < int (length ys)"
  then have i: "elt ys i = elt xs i"
    using assms by (intro rearranged_outside[OF assms(2)]) (auto simp: front_def in_range_def)
  obtain k where "b \<le> k" "k < int (length xs)" "elt ys j = elt xs k"
  proof (cases "lo \<le> j \<and> j \<le> hi")
    case True
    then obtain k where "lo \<le> k" "k \<le> hi" "elt ys j = elt xs k"
      using rearranged_inside[OF assms(2), of j] by auto
    then show thesis using assms(3,4) by (intro that[of k]) simp_all
  next
    case False
    then have "elt ys j = elt xs j"
      using ij assms(1) rearranged_length[OF assms(2)] by (intro rearranged_outside[OF assms(2)]) (auto simp: in_range_def)
    then show thesis using that[of j] ij rearranged_length[OF assms(2)] by auto
  qed
  then show "key (elt ys i) \<le> key (elt ys j)" using ij assms(1) i by (simp add: front_def)
qed (use assms rearranged_length[OF assms(2)] in \<open>auto simp: front_def\<close>)

lemma front_parted:
  assumes "front key xs b" and "parted key 0 (b - 1) xs (ys, l, r)"
  shows "front key ys (r + 1)"
proof -
  obtain p where p: "\<And>i. 0 \<le> i \<Longrightarrow> i < l \<Longrightarrow> key (elt ys i) \<le> p" "\<And>i. r < i \<Longrightarrow> i \<le> b - 1 \<Longrightarrow> p \<le> key (elt ys i)"
    and r: "rearranged 0 (b - 1) xs ys" "0 \<le> r" "r < l" "l \<le> b - 1"
    using assms(2) by (auto simp: parted_def)
  have b: "0 < b" "b \<le> int (length xs)" using assms(1) by (auto simp: front_def)
  have "key (elt ys i) \<le> key (elt ys j)" if ij: "0 \<le> i" "i < r + 1" "r + 1 \<le> j" "j < int (length ys)" for i j
  proof (cases "j \<le> b - 1")
    case True
    then show ?thesis using p(1)[of i] p(2)[of j] ij r(3) by simp
  next
    case False
    then have "elt ys j = elt xs j"
      using ij(3,4) r(2) rearranged_length[OF r(1)] by (intro rearranged_outside[OF r(1)]) (auto simp: in_range_def)
    moreover obtain k where "0 \<le> k" "k \<le> b - 1" "elt ys i = elt xs k"
      using rearranged_inside[OF r(1), of i] ij r by auto
    ultimately show ?thesis
      using assms(1) False ij(4) rearranged_length[OF r(1)] by (simp add: front_def)
  qed
  then show ?thesis using b r(2-4) rearranged_length[OF r(1)] by (simp add: front_def)
qed

lemma shrinking_mono:
  assumes "shrinking n ((l, h) # segs)" and "l \<le> l'" and "h' \<le> h"
  shows "shrinking n ((l', h') # segs)"
proof -
  have "(h' - l' + 1) * 2 ^ length segs \<le> (h - l + 1) * 2 ^ length segs"
    using assms(2,3) by (intro mult_right_mono) auto
  also have "\<dots> \<le> n" using assms(1) by simp
  finally show ?thesis using assms(1) by simp
qed

lemma shrinking_push:
  assumes "shrinking n ((lo, hi) # segs)" and "lo \<le> l" "h \<le> hi" and "lo \<le> l'" "h' \<le> hi"
    and "(h - l + 1) + (h' - l' + 1) \<le> hi - lo + 1" and "h - l \<le> h' - l'"
  shows "shrinking n ((l, h) # (l', h') # segs)"
proof -
  have "(h - l + 1) * 2 ^ length ((l', h') # segs) = 2 * (h - l + 1) * 2 ^ length segs" by simp
  also have "\<dots> \<le> (hi - lo + 1) * 2 ^ length segs" using assms(6,7) by (intro mult_right_mono) auto
  also have "\<dots> \<le> n" using assms(1) by simp
  finally show ?thesis using shrinking_mono[OF assms(1,4,5)] by simp
qed

lemma shrinking_depth:
  assumes "shrinking n ((lo, hi) # segs)" and "lo < hi" and "n < 2 ^ 62"
  shows "length segs + 1 < STACK_SIZE"
proof -
  have "(2::int) ^ length segs \<le> (hi - lo + 1) * 2 ^ length segs" using assms(2) by simp
  also have "\<dots> < 2 ^ 62" using assms(1,3) by simp
  finally have "length segs < 62" by (rule power_less_imp_less_exp[rotated]) simp
  then show ?thesis by (simp add: STACK_SIZE_def)
qed

context sort_key
begin

lemma partition_step:
  assumes "front key xs b" and "pending (int (length xs)) b ((lo, hi) # st)"
  obtains ys left right where "partition_seg lt xs lo hi = Some (ys, left, right)" "length ys = length xs"
    "mset ys = mset xs" "lo \<le> right" "right < left" "left \<le> hi" "front key ys (if lo = 0 then right + 1 else b)"
proof -
  have seg: "0 \<le> lo" "lo + 4 \<le> hi" "hi < int (length xs)" "if lo = 0 then hi = b - 1 else b \<le> lo"
    using assms(2) by (auto simp: pending_def seg_ok_def)
  then obtain ys l r where p: "partition_seg lt xs lo hi = Some (ys, l, r)" "parted key lo hi xs (ys, l, r)"
    using partition_ok[of lo hi xs] by auto
  then have r: "rearranged lo hi xs ys" "lo \<le> r" "r < l" "l \<le> hi" by (auto simp: parted_def)
  have "front key ys (if lo = 0 then r + 1 else b)"
    using front_parted[OF assms(1)] front_rearranged[OF assms(1) r(1)] p(2) seg by auto
  then show thesis using that[OF p(1)] r by (auto simp: rearranged_def)
qed

end

lemma qs_loop_ok:
  assumes "sort_key lt key" and "front key xs b" and "pending (int (length xs)) b ((lo, hi) # stack)"
    and "shrinking (int (length xs)) ((lo, hi) # stack)" and "length xs < 2 ^ 62"
  shows "\<exists>ys b'. qs_loop lt xs lo hi stack = Some ys \<and> length ys = length xs \<and> mset ys = mset xs \<and>
     front key ys b' \<and> b' \<le> 5"
  using assms
proof (induction lt xs lo hi stack arbitrary: b rule: qs_loop.induct)
  case (1 lt xs lo hi stack)
  note prems = "1.prems"
  obtain ys left right where p: "partition_seg lt xs lo hi = Some (ys, left, right)"
    and ys: "length ys = length xs" "mset ys = mset xs"
    and b: "lo \<le> right" "right < left" "left \<le> hi" and f: "front key ys (if lo = 0 then right + 1 else b)"
    by (rule sort_key.partition_step[OF prems(1-3)])
  define b' where "b' = (if lo = 0 then right + 1 else b)"
  note new = pending_split[OF prems(3) b b'_def] and f' = f[folded b'_def]
  have sh: "shrinking (int (length xs)) stack" using prems(4) by simp
  have sm: "small (right - lo) \<longleftrightarrow> right - lo \<le> 4" "small (hi - left) \<longleftrightarrow> hi - left \<le> 4"
    using b by (auto simp: small_def MAX_THRESH_def)
  have len: "\<not> STACK_SIZE \<le> length stack + 1"
    using shrinking_depth[OF prems(4)] b prems(5) by simp
  note IH = "1.IH"[OF p refl refl] and step = qs_loop.simps[of lt xs lo hi stack]
  consider (both) "right - lo \<le> 4" "hi - left \<le> 4" | (right) "right - lo \<le> 4" "4 < hi - left"
    | (left) "4 < right - lo" "hi - left \<le> 4" | (push_l) "4 < right - lo" "4 < hi - left" "hi - left < right - lo"
    | (push_r) "4 < right - lo" "4 < hi - left" "right - lo \<le> hi - left" by linarith
  then show ?case
  proof cases
    case both
    then have pend: "pending (int (length xs)) b' stack" by (intro new(1)) simp
    show ?thesis
    proof (cases stack)
      case Nil
      then have "b' \<le> 5" using pend by (simp add: pending_def)
      then show ?thesis using p both sm Nil f' ys by (subst step) auto
    next
      case (Cons seg st)
      obtain l h where seg: "seg = (l, h)" by fastforce
      then have "qs_loop lt xs lo hi stack = qs_loop lt ys l h st"
        using both by (subst step) (simp add: p Cons sm)
      moreover have "small (right - lo)" "small (hi - left)" using both sm by simp_all
      note IH(1)[OF this Cons seg[symmetric] prems(1) f']
      ultimately show ?thesis using pend sh ys prems(5) by (simp add: Cons seg)
    qed
  next
    case right
    then show ?thesis
      using IH(2)[of b'] sm new(2) shrinking_mono[OF prems(4), of left hi] f' ys b prems(1,5)
      by (subst step) (auto simp: p)
  next
    case left
    then show ?thesis
      using IH(3)[of b'] sm new(3) shrinking_mono[OF prems(4), of lo right] f' ys b prems(1,5)
      by (subst step) (auto simp: p)
  next
    case push_l
    then show ?thesis
      using IH(4)[of b'] sm len new(4) shrinking_push[OF prems(4), of left hi lo right] f' ys b prems(1,5)
      by (subst step) (auto simp: p)
  next
    case push_r
    then show ?thesis
      using IH(5)[of b'] sm len new(5) shrinking_push[OF prems(4), of lo right left hi] f' ys b prems(1,5)
      by (subst step) (auto simp: p)
  qed
qed

subsection \<open>Insertion sort\<close>

lemma mset_put: "i < length xs \<Longrightarrow> add_mset (xs ! i) (mset (xs[i := v])) = add_mset v (mset xs)"
  by (simp add: mset_update)

lemma move_hole_props:
  assumes "0 \<le> t" and "t \<le> h" and "h < int (length xs)"
  shows "length (move_hole xs t h c) = length xs"
    and "\<forall>i \<ge> 0. elt (move_hole xs t h c) i = (if i = t then c else if t < i \<and> i \<le> h then elt xs (i - 1) else elt xs i)"
    and "add_mset (elt xs h) (mset (move_hole xs t h c)) = add_mset c (mset xs)"
  using assms
proof (induction xs t h c rule: move_hole.induct)
  case (1 xs t h c)
  note step = move_hole.simps[of xs t h c]
  { case 1 then show ?case using "1.IH"(1) by (subst step) auto
  next
    case 2
    show ?case
    proof (cases "h - 1 \<ge> t")
      case True
      then show ?thesis
        using "1.IH"(2) 2 by (subst step) (auto simp: elt_def nth_list_update)
    next
      case False
      then show ?thesis using 2 by (subst step) (auto simp: elt_def nth_list_update)
    qed
  next
    case 3
    show ?case
    proof (cases "h - 1 \<ge> t")
      case True
      let ?ys = "xs[nat h := elt xs (h - 1)]"
      have "elt ?ys (h - 1) = elt xs (h - 1)" using 3 True by (simp add: elt_def)
      then have IH: "add_mset (elt xs (h - 1)) (mset (move_hole ?ys t (h - 1) c)) = add_mset c (mset ?ys)"
        using "1.IH"(3) 3 True by simp
      have "add_mset (elt xs h) (mset ?ys) = add_mset (elt xs (h - 1)) (mset xs)"
        using mset_put[of "nat h" xs] 3 by (simp add: elt_def)
      then have "add_mset (elt xs (h - 1)) (add_mset (elt xs h) (mset (move_hole ?ys t (h - 1) c)))
          = add_mset (elt xs (h - 1)) (add_mset c (mset xs))"
        using IH by (metis add_mset_commute)
      then show ?thesis using True by (subst step) simp
    next
      case False
      then show ?thesis using mset_put[of "nat h" xs c] 3 by (subst step) (simp add: elt_def)
    qed
  }
qed

definition prefix_sorted :: "('a \<Rightarrow> int) \<Rightarrow> 'a list \<Rightarrow> int \<Rightarrow> bool" where
  "prefix_sorted key xs n \<longleftrightarrow> (\<forall>i j. 0 \<le> i \<and> i \<le> j \<and> j < n \<longrightarrow> key (elt xs i) \<le> key (elt xs j))"

lemma prefix_sorted_sorted:
  assumes "prefix_sorted key xs (int (length xs))"
  shows "sorted (map key xs)"
  unfolding sorted_iff_nth_mono
proof (intro allI impI)
  fix i j assume "i \<le> j" "j < length (map key xs)"
  then show "map key xs ! i \<le> map key xs ! j"
    using assms[unfolded prefix_sorted_def, rule_format, of "int i" "int j"] by (simp add: elt_def)
qed

definition bottom :: "('a \<Rightarrow> int) \<Rightarrow> 'a list \<Rightarrow> bool" where
  "bottom key xs \<longleftrightarrow> (\<forall>i. in_range i xs \<longrightarrow> key (elt xs 0) \<le> key (elt xs i))"

lemma move_hole_sorted:
  assumes "prefix_sorted key xs h" and "bottom key xs" and "0 \<le> t" "t < h" "h < int (length xs)"
    and "key (elt xs t) \<le> key (elt xs h)" and "\<And>i. t < i \<Longrightarrow> i < h \<Longrightarrow> key (elt xs h) < key (elt xs i)"
  shows "prefix_sorted key (move_hole xs (t + 1) h (elt xs h)) (h + 1)"
    and "bottom key (move_hole xs (t + 1) h (elt xs h))"
proof -
  let ?ys = "move_hole xs (t + 1) h (elt xs h)"
  have e: "elt ?ys i = (if i = t + 1 then elt xs h else if t + 1 < i \<and> i \<le> h then elt xs (i - 1) else elt xs i)"
    if "0 \<le> i" for i using move_hole_props(2)[of "t + 1" h xs "elt xs h"] that assms(3-5) by auto
  have old: "key (elt xs i) \<le> key (elt xs j)" if "0 \<le> i" "i \<le> j" "j < h" for i j
    using assms(1) that by (auto simp: prefix_sorted_def)
  have x: "key (elt xs i) \<le> key (elt xs h)" if "0 \<le> i" "i \<le> t" for i
    using old[of i t] that assms(4,6) by simp
  show "prefix_sorted key ?ys (h + 1)"
    unfolding prefix_sorted_def
  proof (intro allI impI)
    fix i j assume ij: "0 \<le> i \<and> i \<le> j \<and> j < h + 1"
    consider "j \<le> t" | "j = t + 1" "i = j" | "j = t + 1" "i \<le> t" | "t + 1 < j" "i \<le> t" | "t + 1 < j" "i = t + 1"
      | "t + 1 < i" using ij by linarith
    then show "key (elt ?ys i) \<le> key (elt ?ys j)"
      using ij assms(3,4) by cases (auto simp: e intro!: old x less_imp_le[OF assms(7)])
  qed
  show "bottom key ?ys"
    using assms(2-5) move_hole_props(1)[of "t + 1" h xs "elt xs h"]
    by (auto simp: bottom_def in_range_def e)
qed

lemma move_hole_same: "0 \<le> h \<Longrightarrow> move_hole xs h h (elt xs h) = xs"
  by (subst move_hole.simps) (simp add: elt_def)

context sort_key
begin

lemma find_smallest_ok:
  assumes "0 \<le> tmp" and "tmp < run" and "thresh < int (length xs)"
  shows "\<exists>m. find_smallest lt xs thresh tmp run = Some m \<and> (m = tmp \<or> run \<le> m \<and> m \<le> thresh) \<and>
     key (elt xs m) \<le> key (elt xs tmp) \<and> (\<forall>i. run \<le> i \<and> i \<le> thresh \<longrightarrow> key (elt xs m) \<le> key (elt xs i))"
  using assms
proof (induction "nat (thresh - run + 1)" arbitrary: tmp run rule: less_induct)
  case less
  note step = find_smallest.simps[of lt xs thresh tmp run]
  show ?case
  proof (cases "run \<le> thresh")
    case True
    define tmp' where "tmp' = (if lt (elt xs run) (elt xs tmp) then run else tmp)"
    have t: "tmp' = run \<or> tmp' = tmp" "key (elt xs tmp') \<le> key (elt xs tmp)" "key (elt xs tmp') \<le> key (elt xs run)"
      by (auto simp: tmp'_def lt_key)
    have "0 \<le> tmp'" "tmp' < run + 1" using t(1) less.prems by auto
    then obtain m where m: "find_smallest lt xs thresh tmp' (run + 1) = Some m"
      "m = tmp' \<or> run + 1 \<le> m \<and> m \<le> thresh" "key (elt xs m) \<le> key (elt xs tmp')"
      "\<forall>i. run + 1 \<le> i \<and> i \<le> thresh \<longrightarrow> key (elt xs m) \<le> key (elt xs i)"
      using less.hyps[of "run + 1" tmp'] True less.prems(3) by auto
    have "key (elt xs m) \<le> key (elt xs i)" if "run \<le> i" "i \<le> thresh" for i
      using that m(3,4) t(3) by (cases "i = run") auto
    moreover have "find_smallest lt xs thresh tmp run = Some m"
      using True less.prems m(1) by (subst step) (simp add: in_range_def flip: tmp'_def)
    moreover have "m = tmp \<or> run \<le> m \<and> m \<le> thresh" using m(2) t(1) True by auto
    ultimately show ?thesis using m(3) t(2) by auto
  next
    case False
    then show ?thesis by (subst step) auto
  qed
qed

lemma insert_loop_ok:
  assumes "prefix_sorted key xs run" and "bottom key xs" and "1 \<le> run" and "run \<le> int (length xs)"
  shows "\<exists>ys. insert_loop lt xs (int (length xs) - 1) run = Some ys \<and> length ys = length xs \<and> mset ys = mset xs \<and>
     prefix_sorted key ys (int (length xs))"
  using assms
proof (induction "nat (int (length xs) - run)" arbitrary: xs run rule: less_induct)
  case less
  note step = insert_loop.simps[of lt xs "int (length xs) - 1" run]
  show ?case
  proof (cases "run < int (length xs)")
    case True
    then have "key (elt xs 0) \<le> key (elt xs run)" using less.prems(2,3) by (simp add: bottom_def in_range_def)
    then have r: "0 \<le> (0::int)" "0 \<le> run - 1" "in_range (run - 1) xs" "\<not> lt (elt xs run) (elt xs 0)"
      using less.prems True by (auto simp: in_range_def lt_key)
    obtain t where t: "walk_down lt xs (elt xs run) (run - 1) = Some t" "0 \<le> t" "t \<le> run - 1"
      "key (elt xs t) \<le> key (elt xs run)" "\<forall>i. t < i \<and> i \<le> run - 1 \<longrightarrow> key (elt xs run) < key (elt xs i)"
      using walk_down_stop[where lt = lt and v = "elt xs run", OF r] by (auto simp: lt_key)
    define ys where "ys = move_hole xs (t + 1) run (elt xs run)"
    have len: "length ys = length xs" and ms: "mset ys = mset xs"
      using move_hole_props(1,3)[of "t + 1" run xs "elt xs run"] t(2,3) True by (auto simp: ys_def)
    have ok: "prefix_sorted key ys (run + 1)" "bottom key ys"
      using move_hole_sorted[OF less.prems(1,2) t(2) _ True t(4)] t(3,5) by (auto simp: ys_def)
    have "(if t + 1 \<noteq> run then move_hole xs (t + 1) run (elt xs run) else xs) = ys"
      using move_hole_same[of run xs] less.prems(3) by (auto simp: ys_def)
    then have "insert_loop lt xs (int (length xs) - 1) run = insert_loop lt ys (int (length ys) - 1) (run + 1)"
      using True less.prems(3) t(1) by (subst step) (simp add: in_range_def len)
    then show ?thesis
      using less.hyps[OF _ ok] True less.prems(3) len ms by auto
  next
    case False
    then show ?thesis using less.prems by (subst step) auto
  qed
qed

lemma insertion_sort_ok:
  assumes "front key xs b" and "b \<le> 5"
  shows "\<exists>ys. insertion_sort lt xs (int (length xs)) = Some ys \<and> mset ys = mset xs \<and> sorted (map key ys)"
proof -
  define n thresh where "n = int (length xs)" and "thresh = min (n - 1) MAX_THRESH"
  have n: "0 < n" using assms(1) by (auto simp: front_def n_def)
  have th: "0 \<le> thresh" "thresh < int (length xs)" using n by (auto simp: thresh_def n_def MAX_THRESH_def)
  obtain m where m: "find_smallest lt xs thresh 0 1 = Some m" "0 \<le> m" "m \<le> thresh"
    "key (elt xs m) \<le> key (elt xs 0)" "\<And>i. 1 \<le> i \<Longrightarrow> i \<le> thresh \<Longrightarrow> key (elt xs m) \<le> key (elt xs i)"
    using find_smallest_ok[of 0 1 thresh xs] th by auto
  have low: "key (elt xs m) \<le> key (elt xs i)" if "in_range i xs" for i
  proof (cases "i < b")
    case True
    then show ?thesis using that m(4) m(5)[of i] assms(2) by (cases "i = 0") (auto simp: in_range_def thresh_def n_def MAX_THRESH_def)
  next
    case False
    then have "key (elt xs 0) \<le> key (elt xs i)" using that assms(1) by (auto simp: front_def in_range_def)
    then show ?thesis using m(4) by simp
  qed
  define ys where "ys = (if m \<noteq> 0 then SWAP m 0 xs else xs)"
  have r: "in_range m xs" "in_range 0 xs" using m(2,3) n by (auto simp: in_range_def thresh_def n_def)
  then have re: "rearranged 0 (n - 1) xs ys"
    using rearranged_SWAP[OF r, of 0 "n - 1"] m(2,3) n by (auto simp: ys_def thresh_def)
  have bot: "bottom key ys"
    using r low by (auto simp: bottom_def ys_def elt_SWAP in_range_def)
  have run: "insertion_sort lt xs n = insert_loop lt ys (int (length ys) - 1) 2" and len: "length ys = length xs"
    using m(1) rearranged_length[OF re] by (auto simp: insertion_sort_def Let_def thresh_def n_def ys_def)
  have "\<exists>zs. insert_loop lt ys (int (length ys) - 1) 2 = Some zs \<and> mset zs = mset ys \<and>
      prefix_sorted key zs (int (length zs))"
  proof (cases "2 \<le> n")
    case True
    have "key (elt ys i) \<le> key (elt ys j)" if "0 \<le> i" "i \<le> j" "j < 2" for i j
      using that bot True len by (cases "i = 0") (auto simp: bottom_def in_range_def n_def le_less)
    then have "prefix_sorted key ys 2" by (simp add: prefix_sorted_def)
    from insert_loop_ok[OF this bot] True show ?thesis by (auto simp: n_def len)
  next
    case False
    then have one: "int (length ys) = 1" using n len by (simp only: n_def)
    have "i = j" if "0 \<le> i \<and> i \<le> j \<and> j < 1" for i j :: int using that by linarith
    then have "prefix_sorted key ys (int (length ys))"
      unfolding one prefix_sorted_def by (metis order_refl)
    then show ?thesis using False len by (subst insert_loop.simps) (auto simp: n_def)
  qed
  then show ?thesis
    using re run by (auto simp: n_def rearranged_def intro: prefix_sorted_sorted)
qed

lemma gnu_qsort_ok:
  assumes "length xs < 2 ^ 62"
  shows "\<exists>ys. gnu_qsort lt xs (length xs) = Some ys \<and> mset ys = mset xs \<and> sorted (map key ys)"
proof -
  consider "xs = []" | "0 < length xs" "length xs \<le> 4" | "4 < length xs" by fastforce
  then show ?thesis
  proof cases
    case 1
    then show ?thesis by (simp add: gnu_qsort_def)
  next
    case 2
    then have "front key xs (int (length xs))" by (auto simp: front_def)
    from insertion_sort_ok[OF this] 2 show ?thesis by (auto simp: gnu_qsort_def MAX_THRESH_def)
  next
    case 3
    let ?n = "int (length xs)"
    have "front key xs ?n" "pending ?n ?n [(0, ?n - 1)]" "shrinking ?n [(0, ?n - 1)]"
      using 3 by (auto simp: front_def pending_def seg_ok_def)
    from qs_loop_ok[OF sort_key_axioms this assms] obtain ys b where
      ys: "qs_loop lt xs 0 (?n - 1) [] = Some ys" "length ys = length xs" "mset ys = mset xs"
        "front key ys b" "b \<le> 5" by blast
    with insertion_sort_ok[OF ys(4,5)] 3 show ?thesis by (auto simp: gnu_qsort_def MAX_THRESH_def)
  qed
qed

end

subsection \<open>The kernels\<close>

lemma sless_sint: "x <s y \<longleftrightarrow> sint x < sint y" for x y :: "'a::len word"
  by (simp add: word_sless_alt)

interpretation asc: sort_key "(<s) :: 'a::len word \<Rightarrow> 'a word \<Rightarrow> bool" sint
  by unfold_locales (rule sless_sint)

interpretation dsc: sort_key "\<lambda>x y. y <s (x :: 'a::len word)" "\<lambda>x. - sint x"
  by unfold_locales (simp add: sless_sint)

interpretation asc_idx: sort_key "\<lambda>x y. fst x <s (fst y :: 'a::len word)" "\<lambda>x :: 'a word \<times> 'b. sint (fst x)"
  by unfold_locales (simp add: sless_sint)

interpretation dsc_idx: sort_key "\<lambda>x y. fst y <s (fst x :: 'a::len word)" "\<lambda>x :: 'a word \<times> 'b. - sint (fst x)"
  by unfold_locales (simp add: sless_sint)

lemma sort_from_mset: "mset ys = mset xs \<Longrightarrow> sorted (map key ys) \<Longrightarrow> map key ys = sort (map key xs)"
  by (metis mset_map properties_for_sort)

definition sorts_column :: "('a::len word list \<Rightarrow> nat \<Rightarrow> nat \<Rightarrow> 'a word list outcome) \<Rightarrow> nat \<Rightarrow> (int list \<Rightarrow> int list) \<Rightarrow>
    'a word list \<Rightarrow> bool" where
  "sorts_column kfun elem_size order X \<longleftrightarrow> (\<forall>size_arg. \<exists>ys.
     kfun X (length X) size_arg = (if size_arg = elem_size then Ret ys else Bye) \<and>
     mset ys = mset X \<and> map sint ys = order (sort (map sint X)))"

lemma sorts_asc: "length X < 2 ^ 62 \<Longrightarrow> sorts_column (qsort_col (<s) sz) sz id X"
  unfolding sorts_column_def using asc.gnu_qsort_ok[of X] by (auto simp: qsort_col_def intro: sort_from_mset)

lemma sorted_neg_rev:
  assumes "sorted (map (\<lambda>x. - key x) ys)" and "mset ys = mset xs"
  shows "map key ys = rev (sort (map key (xs :: 'a list)) :: int list)"
proof -
  have "sorted (rev (map key ys))" using assms(1) by (simp add: sorted_map sorted_wrt_rev sorted_wrt_map)
  then have "sort (map key xs) = rev (map key ys)"
    using assms(2) by (intro properties_for_sort) (simp add: mset_map)
  then show ?thesis by simp
qed

lemma sorts_dsc: "length X < 2 ^ 62 \<Longrightarrow> sorts_column (qsort_col (\<lambda>x y. y <s x) sz) sz rev X"
  unfolding sorts_column_def using dsc.gnu_qsort_ok[of X] by (auto simp: qsort_col_def intro: sorted_neg_rev)

text \<open>C18: The sorting kernels return for every column of fewer than \<open>2^62\<close> entries: all accesses are
  inside the column and the explicit stack of 64 entries suffices.  The result of an
  ascending kernel is the library's sort of the values and that of a descending one its
  reverse, a rearrangement of the column.  A wrong element size ends the program.\<close>

theorem qsort_kernels_sort:
  assumes "length X < 2 ^ 62" and "length Y < 2 ^ 62"
  shows "sorts_column qsort_asc_I4 4 id X \<and> sorts_column qsort_dsc_I4 4 rev X \<and> sorts_column qsort_asc_I8 8 id Y \<and> sorts_column qsort_dsc_I8 8 rev Y"
  unfolding qsort_asc_I4_def qsort_dsc_I4_def qsort_asc_I8_def qsort_dsc_I8_def
  using assms by (simp add: sorts_asc sorts_dsc)

theorem qsort_kernels_sort_witness:
  "sorts_column qsort_asc_I4 4 id [5, -3, 7, 0, 9, 2] \<and> sorts_column qsort_dsc_I4 4 rev [5, -3, 7, 0, 9, 2] \<and>
   sorts_column qsort_asc_I8 8 id [4, 1] \<and> sorts_column qsort_dsc_I8 8 rev [4, 1]"
  by (rule qsort_kernels_sort) simp_all

definition sorts_pairs :: "('b list \<Rightarrow> 'a::len word list \<Rightarrow> nat \<Rightarrow> ('b list \<times> 'a word list) outcome) \<Rightarrow>
    (int list \<Rightarrow> int list) \<Rightarrow> 'b list \<Rightarrow> 'a word list \<Rightarrow> bool" where
  "sorts_pairs kfun order S V \<longleftrightarrow> (\<exists>S' V'. kfun S V (length V) = Ret (S', V') \<and>
     length S' = length S \<and> length V' = length V \<and> mset (zip V' S') = mset (zip V S) \<and>
     map sint V' = order (sort (map sint V)))"

lemma pairs_result:
  assumes "length S = length V" and "length V < bound"
    and "gnu_qsort (\<lambda>x y. lt (fst x) (fst y)) (zip V S) (length V) = Some zs" and "mset zs = mset (zip V S)"
    and "map (\<lambda>x. sint (fst x)) zs = order (sort (map sint V))"
  shows "sorts_pairs (qsort_val_idx lt bound) order S V"
proof -
  have len: "length zs = length V" using mset_eq_length[OF assms(4)] assms(1) by simp
  have "qsort_val_idx lt bound S V (length V) = Ret (map snd zs, map fst zs)"
    using assms(1-3) by (simp add: qsort_val_idx_def)
  moreover have "mset (zip (map fst zs) (map snd zs)) = mset (zip V S)"
    using assms(4) by (simp add: zip_map_fst_snd)
  moreover have "map sint (map fst zs) = order (sort (map sint V))" using assms(5) by (simp add: comp_def)
  ultimately show ?thesis
    unfolding sorts_pairs_def using assms(1) len by (intro exI[of _ "map snd zs"] exI[of _ "map fst zs"]) simp
qed

lemma map_key_zip: "length S = length V \<Longrightarrow> map (\<lambda>x. f (fst x)) (zip V S) = map f V"
  by (simp add: list_eq_iff_nth_eq)

lemma sorts_pairs_asc:
  assumes "length S = length V" and "length V < bound" and "length V < 2 ^ 62"
  shows "sorts_pairs (qsort_val_idx (<s) bound) id S V"
proof -
  obtain zs where "gnu_qsort (\<lambda>x y. fst x <s fst y) (zip V S) (length V) = Some zs" "mset zs = mset (zip V S)"
    "sorted (map (\<lambda>x. sint (fst x)) zs)"
    using asc_idx.gnu_qsort_ok[of "zip V S"] assms by auto
  then show ?thesis
    using assms sort_from_mset[of zs "zip V S" "\<lambda>x. sint (fst x)"] by (intro pairs_result) (simp_all add: map_key_zip)
qed

lemma sorts_pairs_dsc:
  assumes "length S = length V" and "length V < bound" and "length V < 2 ^ 62"
  shows "sorts_pairs (qsort_val_idx (\<lambda>x y. y <s x) bound) rev S V"
proof -
  obtain zs where "gnu_qsort (\<lambda>x y. fst y <s fst x) (zip V S) (length V) = Some zs" "mset zs = mset (zip V S)"
    "sorted (map (\<lambda>x. - sint (fst x)) zs)"
    using dsc_idx.gnu_qsort_ok[of "zip V S"] assms by auto
  then show ?thesis
    using assms sorted_neg_rev[of "\<lambda>x. sint (fst x)" zs "zip V S"] by (intro pairs_result) (simp_all add: map_key_zip)
qed

text \<open>C19: The eight kernels that sort a column of values and carry an index column along return for columns
  of equal length, of fewer than \<open>2^31\<close> entries with an \<open>int\<close> index and fewer than \<open>2^62\<close> with a \<open>long long\<close> index: the
  values come out sorted, ascending or descending, and every value keeps its index.\<close>

theorem qsort_val_idx_sorts:
  assumes "length S4 = length V4" "length T4 = length V8" "length V4 < 2 ^ 31" "length V8 < 2 ^ 31"
    and "length S8 = length W4" "length T8 = length W8" "length W4 < 2 ^ 62" "length W8 < 2 ^ 62"
  shows "sorts_pairs qsort_asc_val_I4_idx_I4 id S4 V4 \<and> sorts_pairs qsort_dsc_val_I4_idx_I4 rev S4 V4 \<and>
     sorts_pairs qsort_asc_val_I8_idx_I4 id T4 V8 \<and> sorts_pairs qsort_dsc_val_I8_idx_I4 rev T4 V8 \<and>
     sorts_pairs qsort_asc_val_I4_idx_I8 id S8 W4 \<and> sorts_pairs qsort_dsc_val_I4_idx_I8 rev S8 W4 \<and>
     sorts_pairs qsort_asc_val_I8_idx_I8 id T8 W8 \<and> sorts_pairs qsort_dsc_val_I8_idx_I8 rev T8 W8"
  unfolding qsort_asc_val_I4_idx_I4_def qsort_asc_val_I4_idx_I8_def qsort_dsc_val_I4_idx_I4_def qsort_dsc_val_I4_idx_I8_def
    qsort_asc_val_I8_idx_I4_def qsort_asc_val_I8_idx_I8_def qsort_dsc_val_I8_idx_I4_def qsort_dsc_val_I8_idx_I8_def
  using assms by (simp add: sorts_pairs_asc sorts_pairs_dsc)

theorem qsort_val_idx_sorts_witness:
  "sorts_pairs qsort_asc_val_I4_idx_I4 id [10, 11, 12] [7, -1, 3] \<and> sorts_pairs qsort_dsc_val_I4_idx_I4 rev [10, 11, 12] [7, -1, 3] \<and>
   sorts_pairs qsort_asc_val_I8_idx_I4 id [1, 2] [4, 3] \<and> sorts_pairs qsort_dsc_val_I8_idx_I4 rev [1, 2] [4, 3] \<and>
   sorts_pairs qsort_asc_val_I4_idx_I8 id [1, 2, 3] [7, -1, 3] \<and> sorts_pairs qsort_dsc_val_I4_idx_I8 rev [1, 2, 3] [7, -1, 3] \<and>
   sorts_pairs qsort_asc_val_I8_idx_I8 id [5, 6] [-4, -9] \<and> sorts_pairs qsort_dsc_val_I8_idx_I8 rev [5, 6] [-4, -9]"
  by (rule qsort_val_idx_sorts) simp_all

end
