(* ===== verification/Approx_Frequent_Sort.thy ===== *)
theory Approx_Frequent_Sort
  imports Approx_Frequent_Proofs K_Sort_Proofs
begin

text \<open>
  The frequent-element counter with its own sorting routine \<open>ApproxFrequent/src/qsort_asc_I4.c\<close>, the
  same code as the column kernel, in place of the parameter: the packets are never longer
  than the input, so that the guarantees of the counter hold of the program as it is built without the
  vector library.
\<close>

interpretation ids: sort_key "(<) :: int \<Rightarrow> int \<Rightarrow> bool" "\<lambda>x. x"
  by unfold_locales simp

definition qsort_packet :: "int list \<Rightarrow> int list" where
  "qsort_packet p = (case gnu_qsort (<) p (length p) of Some ys \<Rightarrow> ys | None \<Rightarrow> p)"

lemma qsort_packet_sort: "length p < 2 ^ 62 \<Longrightarrow> qsort_packet p = sort p"
  using ids.gnu_qsort_ok[of p] by (auto simp: qsort_packet_def intro: properties_for_sort[symmetric])

lemma process_packets_cong:
  "\<forall>p \<in> set ps. f p = g p \<Longrightarrow> process_packets f cs c ps = process_packets g cs c ps"
  by (induction ps arbitrary: c) (auto split: option.splits)

lemma block_loop_cong:
  assumes "\<And>xs ps rest. block xs = (ps, rest) \<Longrightarrow> length rest < length xs \<Longrightarrow> length xs \<le> n \<Longrightarrow> \<forall>p \<in> set ps. f p = g p"
    and "length xs \<le> n"
  shows "block_loop block (process_packets f cs) c xs = block_loop block (process_packets g cs) c xs"
  using assms(2)
proof (induction xs arbitrary: c rule: length_induct)
  case (1 xs)
  obtain ps rest where b: "block xs = (ps, rest)" by fastforce
  show ?case
  proof (cases "length rest < length xs")
    case True
    then have "process_packets f cs c ps = process_packets g cs c ps" for c
      using assms(1)[OF b] 1(2) by (intro process_packets_cong) simp
    then show ?thesis
      using 1 True by (subst (1 2) block_loop.simps) (auto simp: b split: option.splits)
  next
    case False
    then show ?thesis by (subst (1 2) block_loop.simps) (simp add: b)
  qed
qed

lemma block_all_short: "block_all nt cs xs = (ps, rest) \<Longrightarrow> p \<in> set ps \<Longrightarrow> length p \<le> length xs"
  by (auto simp: block_all_def Let_def)

lemma block_sel_short:
  "block_sel nt cs filled cur xs = (ps, rest) \<Longrightarrow> \<forall>p \<in> set (cur # filled). length p \<le> m \<Longrightarrow> p \<in> set ps \<Longrightarrow>
   length cur + length xs \<le> m \<Longrightarrow> length p \<le> m"
proof (induction nt cs filled cur xs rule: block_sel.induct)
  case (2 nt cs filled cur v c xs)
  then show ?case by (fastforce split: if_splits)
qed auto

lemma approx_frequent_own_sort_same:
  assumes "length x < 2 ^ 62"
  shows "approx_frequent qsort_packet x cfld min_freq err out_siz = approx_frequent sort x cfld min_freq err out_siz"
proof -
  have all: "block_loop (block_all nt cs) (process_packets qsort_packet cs) c x =
      block_loop (block_all nt cs) (process_packets sort cs) c x" for nt cs c
    using assms by (intro block_loop_cong[where n = "length x"])
      (auto dest!: block_all_short intro!: qsort_packet_sort)
  have sel: "block_loop (block_sel nt cs [] []) (process_packets qsort_packet cs) [] (zip x c) =
      block_loop (block_sel nt cs [] []) (process_packets sort cs) [] (zip x c)" for nt cs c
    using assms by (intro block_loop_cong[where n = "length x"])
      (auto dest!: block_sel_short[where m = "length x"] intro!: qsort_packet_sort)
  have cb: "count_blocks qsort_packet e nt cs x cfld = count_blocks sort e nt cs x cfld" for e nt cs
    by (simp add: count_blocks_def all sel split: option.splits)
  show ?thesis unfolding approx_frequent_def cb ..
qed

text \<open>C24: The listing made with the code's own quicksort of the packets, the program as it is built without
  the vector library.  For inputs of fewer than \<open>2^31\<close> elements and good arguments it lists, whenever the
  memory limits allow an estimate, every element that occurs at least \<open>min_freq\<close> times, no listed
  frequency exceeds the true one or falls short of it by more than \<open>err\<close>, nothing that occurs fewer
  than \<open>min_freq - err\<close> times is listed, each id is listed once and in increasing order, and the output
  arrays are not overrun.\<close>

theorem approx_frequent_own_sort:
  assumes "length x < 2 ^ 31" and "\<And>c. cfld = Some c \<Longrightarrow> length c = length x"
    and "n = int (length (selected x cfld))"
    and "\<not> bad_input x cfld min_freq err" and "n div (min_freq - err) \<le> out_siz"
    and "pow2 (-50) \<le> eps_of err n" and "\<not> too_big err n"
  shows "\<exists>out. approx_frequent qsort_packet x cfld min_freq err out_siz = Some (0, 1, out) \<and>
    sorted_wrt (<) (map fst out) \<and> int (length out) \<le> out_siz \<and>
    (\<forall>i. min_freq \<le> occ (selected x cfld) i \<longrightarrow> i \<in> fst ` set out) \<and>
    (\<forall>(i, f) \<in> set out. min_freq - err \<le> f \<and> f \<le> occ (selected x cfld) i \<and> occ (selected x cfld) i - err \<le> f)"
proof -
  have "length (selected x cfld) \<le> length x"
    using assms(2) chosen_zip_length by (fastforce simp: selected_def split: option.splits intro: le_trans[OF length_filter_le])
  then have m: "int (length (selected x cfld)) \<le> INT_MAX" using assms(1) by simp
  obtain out where out: "approx_frequent sort x cfld min_freq err out_siz = Some (0, 1, out)"
    using approx_frequent_unfold[OF sorts_sort _ assms(3), of err min_freq out_siz] assms(2-) m by auto
  then have "lists_frequent (selected x cfld) min_freq err out_siz out"
    using approx_frequent_listing[OF sorts_sort _ out m] assms(2) by blast
  then show ?thesis
    using out approx_frequent_own_sort_same[of x] assms(1) unfolding lists_frequent_def by simp
qed

theorem approx_frequent_own_sort_witness:
  "\<exists>out. approx_frequent qsort_packet [5, 7, 5, 5] None 3 1 2 = Some (0, 1, out) \<and> 5 \<in> fst ` set out \<and> 7 \<notin> fst ` set out"
proof -
  have s: "selected [5, 7, 5, 5] None = [5, 7, 5, 5]" by (simp add: selected_def)
  have "\<exists>out. approx_frequent qsort_packet [5, 7, 5, 5] None 3 1 2 = Some (0, 1, out) \<and>
    sorted_wrt (<) (map fst out) \<and> int (length out) \<le> 2 \<and>
    (\<forall>i. 3 \<le> occ (selected [5, 7, 5, 5] None) i \<longrightarrow> i \<in> fst ` set out) \<and>
    (\<forall>(i, f) \<in> set out. 3 - 1 \<le> f \<and> f \<le> occ (selected [5, 7, 5, 5] None) i \<and> occ (selected [5, 7, 5, 5] None) i - 1 \<le> f)"
    by (rule approx_frequent_own_sort[where n = 4])
      (simp_all add: s bad_input_def too_big_def sample_sizes MAX_SZ_def pow2_def power_int_minus field_simps)
  then show ?thesis unfolding s by (elim exE conjE) (intro exI conjI; force)
qed

end
