(* ===== verification/Approx_Quantile.thy ===== *)
theory Approx_Quantile
  imports Approx_Frequent_Proofs K_Prelude
begin

text \<open>
  The approximate quantiles of \<open>approxalgos/ApproxQuantile/src\<close>: \<open>New.c\<close>, \<open>Collapse.c\<close>, \<open>Output.c\<close>,
  \<open>determine_b_k.c\<close> and \<open>approx_quantile.c\<close>.  The state are \<open>b\<close> buffers of \<open>k\<close> elements with a weight
  each; an element of a buffer stands for as many elements of the input as the weight says, and
  a weight of zero marks a free buffer.  A weight is a C \<open>int\<close>, so that the sum of two weights in
  \<open>Collapse\<close> wraps around when \<open>2^31\<close> packets or more are represented; ranks are of type \<open>long long\<close>.  The parallel loops (\<open>cilkfor\<close>) work on disjoint packets and
  are taken in order.  Sorting a packet is the parameter \<open>srt\<close> (a vendor library in one build,
  \<open>qsort_asc_I4\<close> otherwise).  A failing \<open>malloc\<close> is not modelled.
\<close>

record quant =
  q_buffer :: "int list list"
  q_weight :: "int list"
  q_empty :: int

subsection \<open>New.c\<close>

text \<open>The call passes \<open>buffer[bufidx]\<close>, which is read before \<open>New\<close> can check the index.\<close>

definition New :: "int list \<Rightarrow> int \<Rightarrow> int \<Rightarrow> nat \<Rightarrow> nat \<Rightarrow> (quant, unit) prog" where
  "New src_buf initial_weight bufidx b k = (\<lambda>q.
     if \<not> in_range bufidx (q_buffer q) then (Fault, q)
     else if bufidx < 0 \<or> bufidx \<ge> int b then (Bye, q)
     else let dst = q_buffer q ! nat bufidx in
       if k \<le> length src_buf \<and> k \<le> length dst \<and> in_range bufidx (q_weight q) then
         (Ret (), q\<lparr>q_buffer := (q_buffer q)[nat bufidx := take k src_buf @ drop k dst],
                    q_weight := (q_weight q)[nat bufidx := initial_weight]\<rparr>)
       else (Fault, q))"

subsection \<open>Collapse.c\<close>

text \<open>The first loop: the two buffers are merged, every element with its weight.\<close>

fun merge_bufs :: "int \<Rightarrow> int \<Rightarrow> int list \<Rightarrow> int list \<Rightarrow> (int \<times> int) list" where
  "merge_bufs w1 w2 (x # xs) (y # ys) =
     (if x \<le> y then (x, w1) # merge_bufs w1 w2 xs (y # ys) else (y, w2) # merge_bufs w1 w2 (x # xs) ys)"
| "merge_bufs w1 w2 xs [] = map (\<lambda>x. (x, w1)) xs"
| "merge_bufs w1 w2 [] ys = map (\<lambda>y. (y, w2)) ys"

text \<open>The inner loop of the second loop and of \<open>Output\<close>: as long as the condition holds for \<open>jj\<close>, the
  current element is written to position \<open>jj\<close>.\<close>

function write_while :: "(nat \<Rightarrow> bool) \<Rightarrow> int \<Rightarrow> nat \<Rightarrow> int list \<Rightarrow> (nat \<times> int list) option" where
  "write_while go v jj buf = (if go jj
     then (if jj < length buf then write_while go v (Suc jj) (buf[jj := v]) else None)
     else Some (jj, buf))"
  by auto
termination by (relation "measure (\<lambda>(go, v, jj, buf). length buf - jj)") auto

declare write_while.simps [simp del]

fun pick_loop :: "(int \<Rightarrow> nat \<Rightarrow> bool) \<Rightarrow> (int \<times> int) list \<Rightarrow> int \<Rightarrow> nat \<Rightarrow> int list \<Rightarrow> (nat \<times> int list) option" where
  "pick_loop go [] kk jj buf = Some (jj, buf)"
| "pick_loop go ((v, w) # rest) kk jj buf = (case write_while (go (kk + w)) v jj buf of
       None \<Rightarrow> None
     | Some (jj', buf') \<Rightarrow> pick_loop go rest (kk + w) jj' buf')"

definition Collapse :: "int \<Rightarrow> int \<Rightarrow> nat \<Rightarrow> nat \<Rightarrow> (quant, unit) prog" where
  "Collapse bufidx1 bufidx2 b k = (\<lambda>q.
     if \<not> in_range bufidx1 (q_buffer q) \<or> \<not> in_range bufidx2 (q_buffer q) then (Fault, q)
     else if bufidx1 \<ge> int b \<or> bufidx2 \<ge> int b then (Bye, q)
     else if \<not> in_range bufidx1 (q_weight q) \<or> \<not> in_range bufidx2 (q_weight q) then (Fault, q)
     else let w1 = q_weight q ! nat bufidx1; w2 = q_weight q ! nat bufidx2;
              buf1 = q_buffer q ! nat bufidx1; buf2 = q_buffer q ! nat bufidx2 in
       if w1 \<le> 0 \<or> w2 \<le> 0 then (Bye, q)
       else if k > length buf1 \<or> k > length buf2 then (Fault, q)
       else let outWeight = to_int32 (w1 + w2); offSet = c_div outWeight 2 in
         (case pick_loop (\<lambda>kk jj. kk \<ge> offSet + int jj * outWeight)
                 (merge_bufs w1 w2 (take k buf1) (take k buf2)) 0 0 buf1 of
            None \<Rightarrow> (Fault, q)
          | Some (_, buf) \<Rightarrow> (Ret (), q\<lparr>q_buffer := (q_buffer q)[nat bufidx1 := buf],
              q_weight := (q_weight q)[nat bufidx1 := outWeight, nat bufidx2 := 0]\<rparr>)))"

subsection \<open>Output.c\<close>

text \<open>A lane is a buffer with its weight, from the current location on; the last packet is the
  lane behind the buffers.  The scan finds the least current element below \<open>min_unproc_val\<close>.\<close>

fun scan_min :: "nat \<Rightarrow> (int \<times> int list) list \<Rightarrow> int \<Rightarrow> int \<Rightarrow> int \<times> int" where
  "scan_min ii [] min_unproc_val min_unproc_val_loc = (min_unproc_val, min_unproc_val_loc)"
| "scan_min ii ((w, ys) # lanes) min_unproc_val min_unproc_val_loc =
     (if w > 0 \<and> ys \<noteq> [] \<and> hd ys < min_unproc_val then scan_min (Suc ii) lanes (hd ys) (int ii)
      else scan_min (Suc ii) lanes min_unproc_val min_unproc_val_loc)"

definition lane_at :: "(int \<times> int list) list \<Rightarrow> nat \<Rightarrow> int \<Rightarrow> bool" where
  "lane_at lanes n v \<longleftrightarrow> n < length lanes \<and> fst (lanes ! n) > 0 \<and> snd (lanes ! n) \<noteq> [] \<and> v = hd (snd (lanes ! n))"

lemma scan_min_loc:
  "scan_min ii lanes v l = (v', l') \<Longrightarrow> l' = l \<and> v' = v \<or> (\<exists>n. l' = int (ii + n) \<and> lane_at lanes n v' \<and> v' < v)"
proof (induction ii lanes v l rule: scan_min.induct)
  case (2 ii w ys lanes v l)
  have next_lane: "\<exists>n. l' = int (ii + n) \<and> lane_at ((w, ys) # lanes) n v' \<and> v' < v"
    if "l' = int (Suc ii + n)" "lane_at lanes n v'" "v' < v" for n
    using that by (intro exI[of _ "Suc n"]) (simp add: lane_at_def)
  show ?case
  proof (cases "w > 0 \<and> ys \<noteq> [] \<and> hd ys < v")
    case True
    then consider "l' = int ii" "v' = hd ys" | n where "l' = int (Suc ii + n)" "lane_at lanes n v'" "v' < hd ys"
      using 2 by auto
    then show ?thesis
    proof cases
      case 1
      then show ?thesis using True by (intro disjI2 exI[of _ 0]) (simp add: lane_at_def)
    next
      case (2 n)
      then show ?thesis using next_lane[of n] True by simp
    qed
  next
    case False
    then have "l' = l \<and> v' = v \<or> (\<exists>n. l' = int (Suc ii + n) \<and> lane_at lanes n v' \<and> v' < v)" using 2 by auto
    then show ?thesis using next_lane by blast
  qed
qed simp

definition lanes_size :: "(int \<times> int list) list \<Rightarrow> nat" where
  "lanes_size lanes = sum_list (map (\<lambda>l. length (snd l)) lanes)"

lemma lanes_size_advance:
  assumes "n < length lanes" and "snd (lanes ! n) \<noteq> []"
  shows "lanes_size (lanes[n := (w, tl (snd (lanes ! n)))]) < lanes_size lanes"
proof -
  have "lanes_size (lanes[n := (w, tl (snd (lanes ! n)))]) = lanes_size lanes + length (tl (snd (lanes ! n))) - length (snd (lanes ! n))"
    using assms(1) by (simp add: lanes_size_def map_update sum_list_update)
  moreover have "length (snd (lanes ! n)) \<le> lanes_size lanes"
    using assms(1) by (simp add: lanes_size_def elem_le_sum_list[of n "map (\<lambda>l. length (snd l)) lanes", simplified])
  ultimately show ?thesis using assms(2) by (cases "snd (lanes ! n)") auto
qed

text \<open>The main loop of \<open>Output\<close>.\<close>

function out_loop :: "(int \<Rightarrow> nat \<Rightarrow> bool) \<Rightarrow> (int \<times> int list) list \<Rightarrow> int \<Rightarrow> nat \<Rightarrow> int list \<Rightarrow> int list option" where
  "out_loop go lanes rank jj y = (case scan_min 0 lanes INT_MAX (- 1) of (v, loc) \<Rightarrow>
     if loc < 0 then Some y
     else let lane = lanes ! nat loc in
       (case write_while (go (rank + fst lane)) v jj y of
          None \<Rightarrow> None
        | Some (jj', y') \<Rightarrow> out_loop go (lanes[nat loc := (fst lane, tl (snd lane))]) (rank + fst lane) jj' y'))"
  by auto
termination
  by (relation "measure (\<lambda>(go, lanes, rank, jj, y). lanes_size lanes)")
    (auto dest!: scan_min_loc[OF sym] simp: lane_at_def intro!: lanes_size_advance)

declare out_loop.simps [simp del]

text \<open>\<open>ceil((jj+1)*(double)siz/num_quantiles)\<close>, in double arithmetic.\<close>

definition next_quantile_rank :: "int \<Rightarrow> int \<Rightarrow> nat \<Rightarrow> int" where
  "next_quantile_rank siz num_quantiles jj =
     \<lceil>double (double (of_nat (jj + 1) * double (of_int siz)) / double (of_int num_quantiles))\<rceil>"

text \<open>\<open>last_packet\<close> is given when it is incomplete.\<close>

definition Output :: "quant \<Rightarrow> int list option \<Rightarrow> int \<Rightarrow> int \<Rightarrow> int list \<Rightarrow> nat \<Rightarrow> nat \<Rightarrow> int list outcome" where
  "Output q last_packet siz num_quantiles ptr_y b k =
     (if (case last_packet of Some p \<Rightarrow> length p > k | None \<Rightarrow> False) then Bye
      else if b > length (q_buffer q) \<or> b > length (q_weight q) \<or> (\<exists>i < b. q_weight q ! i > 0 \<and> k > length (q_buffer q ! i)) then Fault
      else case out_loop (\<lambda>rank jj. rank \<ge> next_quantile_rank siz num_quantiles jj \<and> int jj < num_quantiles)
             (map (\<lambda>i. (q_weight q ! i, take k (q_buffer q ! i))) [0..<b] @ (case last_packet of Some p \<Rightarrow> [(1, p)] | None \<Rightarrow> []))
             0 0 ptr_y of
        None \<Rightarrow> Fault
      | Some y \<Rightarrow> Ret y)"

subsection \<open>determine\_b\_k.c\<close>

text \<open>The loop that looks for \<open>b\<close>: \<open>(b-2)*pow(2,b-2)+1\<close> is computed as a \<open>double\<close>.\<close>

definition b_term :: "nat \<Rightarrow> rat" where
  "b_term b = of_nat ((b - 2) * 2 ^ (b - 2) + 1)"

lemma b_term_grows: "of_nat b \<le> b_term b + 1"
proof -
  have "b - 2 \<le> (b - 2) * 2 ^ (b - 2)" by simp
  then have "b \<le> (b - 2) * 2 ^ (b - 2) + 1 + 1" by linarith
  then have "(of_nat b :: rat) \<le> of_nat ((b - 2) * 2 ^ (b - 2) + 1 + 1)" by (simp only: of_nat_le_iff)
  then show ?thesis by (simp add: b_term_def)
qed

lemma b_term_below:
  assumes "double (b_term b) < target"
  shows "of_nat b < 2 * target + 1"
proof -
  have pos: "b_term b > 0" by (simp add: b_term_def add_pos_nonneg)
  have "b_term b * (1 - 1 / 2 ^ 53) \<ge> b_term b * (1 / 2)" using pos by (intro mult_left_mono) simp_all
  then have "b_term b * (1 / 2) < target" using double_bounds(1)[OF pos] assms by linarith
  then show ?thesis using b_term_grows[of b] by linarith
qed

function find_b :: "rat \<Rightarrow> nat \<Rightarrow> nat" where
  "find_b target b = (if double (b_term b) < target then find_b target (b + 1) else b)"
  by auto
termination
proof (relation "measure (\<lambda>(target, b). nat (\<lceil>2 * target + 1\<rceil> - int b))")
  fix target b assume "double (b_term b) < target"
  from b_term_below[OF this] have "int b < \<lceil>2 * target + 1\<rceil>" by linarith
  then show "((target, b + 1), target, b) \<in> measure (\<lambda>(target, b). nat (\<lceil>2 * target + 1\<rceil> - int b))" by simp
qed simp

declare find_b.simps [simp del]

definition determine_b_k :: "rat \<Rightarrow> int \<Rightarrow> nat \<times> int" where
  "determine_b_k eps siz = (let b = find_b (double (eps * double (of_int siz))) 2 - 1;
       k = (if siz mod 2 ^ (b - 1) = 0 then \<lfloor>double (of_int siz) / 2 ^ (b - 1)\<rfloor>
            else \<lfloor>double (double (of_int siz) / 2 ^ (b - 1) + 1)\<rfloor>)
     in (b, if k < 10000 then 10000 else k))"

subsection \<open>approx\_quantile.c\<close>

text \<open>The loop that halves \<open>NUM_THREADS\<close>; \<open>None\<close> when it does not end.\<close>

fun fit_threads :: "int \<Rightarrow> int \<Rightarrow> nat \<Rightarrow> nat option" where
  "fit_threads b k nt = (if (b + int nt + 10) * k > MAX_SZ
     then (if nt = 0 then None else fit_threads b k (nt div 2)) else Some nt)"

declare fit_threads.simps [simp del]

text \<open>Filling the packets of a block from the rest of the input: the packets that are full (the
  others are not used), the incomplete last packet if there is one, and what is left.\<close>

definition fill_all :: "nat \<Rightarrow> nat \<Rightarrow> int list \<Rightarrow> int list list \<times> int list option \<times> int list" where
  "fill_all nt k xs = (let pieces = map (\<lambda>tid. take k (drop (tid * k) xs)) [0..<nt] in
     (filter (\<lambda>p. length p = k) pieces,
      find (\<lambda>p. length p \<noteq> k \<and> p \<noteq> []) pieces,
      drop (nt * k) xs))"

text \<open>With a selection.  When the input ends the code looks at the packet that is being filled,
  and reads outside the array of sizes when all \<open>NUM_THREADS\<close> packets are full (\<open>None\<close>).\<close>

definition fill_sel :: "nat \<Rightarrow> nat \<Rightarrow> (int \<times> int) list \<Rightarrow> (int list list \<times> int list option \<times> (int \<times> int) list) option" where
  "fill_sel nt k xs = (case block_sel nt k [] [] xs of (ps, rest) \<Rightarrow>
     let full = butlast ps; cur = last ps in
     if rest = [] then (if length full = nt then None else Some (full, if cur = [] then None else Some cur, rest))
     else Some (full, None, rest))"

text \<open>Steps (2) and (3) for one packet.\<close>

definition find_pair :: "nat \<Rightarrow> int list \<Rightarrow> int \<times> int" where
  "find_pair b ws = (case find (\<lambda>(ii, jj). ws ! ii = ws ! jj \<and> ws ! ii > 0)
       (concat (map (\<lambda>ii. map (\<lambda>jj. (ii, jj)) [ii + 1..<b]) [0..<b - 1])) of
     None \<Rightarrow> (- 1, - 1) | Some (ii, jj) \<Rightarrow> (int ii, int jj))"

definition find_free :: "nat \<Rightarrow> int list \<Rightarrow> int" where
  "find_free b ws = (case find (\<lambda>ii. ws ! ii = 0) [0..<b] of None \<Rightarrow> - 1 | Some ii \<Rightarrow> int ii)"

definition add_packet :: "nat \<Rightarrow> nat \<Rightarrow> int list \<Rightarrow> (quant, unit) prog" where
  "add_packet b k packet =
     bind (gets q_empty) (\<lambda>n.
     seq (if n = 0 then bind (gets q_weight) (\<lambda>w. case find_pair b w of (i1, i2) \<Rightarrow>
            seq (Collapse i1 i2 b k) (modify (\<lambda>q. q\<lparr>q_empty := q_empty q + 1\<rparr>)))
          else ret ())
    (bind (gets q_weight) (\<lambda>w. let i = find_free b w in
     seq (if i \<ge> 0 then modify (\<lambda>q. q\<lparr>q_empty := q_empty q - 1\<rparr>) else ret ())
         (New packet 1 i b k))))"

text \<open>The loop over the blocks; a block that consumes nothing would repeat for ever.\<close>

function quant_loop :: "('x list \<Rightarrow> (int list list \<times> int list option \<times> 'x list) option) \<Rightarrow> (int list \<Rightarrow> (quant, unit) prog) \<Rightarrow>
    int list option \<Rightarrow> 'x list \<Rightarrow> (quant, int list option) prog" where
  "quant_loop block add lastp xs = (if xs = [] then ret lastp
     else (case block xs of None \<Rightarrow> fault
       | Some (packets, lp, rest) \<Rightarrow>
           if length rest < length xs
           then seq (for_each add packets) (quant_loop block add (if lp = None then lastp else lp) rest)
           else fault))"
  by auto
termination by (relation "measure (\<lambda>(block, add, lastp, xs). length xs)") auto

declare quant_loop.simps [simp del]

definition empty_quant :: "nat \<Rightarrow> nat \<Rightarrow> quant" where
  "empty_quant b k = \<lparr>q_buffer = replicate b (replicate k 0), q_weight = replicate b 0, q_empty = int b\<rparr>"

text \<open>\<open>approx_quantile\<close>: the status with \<open>estimate_is_good\<close> and the output array, or a fault.\<close>

definition approx_quantile ::
  "(int list \<Rightarrow> int list) \<Rightarrow> int list \<Rightarrow> int list option \<Rightarrow> int \<Rightarrow> rat \<Rightarrow> int list \<Rightarrow> int \<Rightarrow> (int \<times> int \<times> int list) outcome" where
  "approx_quantile srt x cfld num_quantiles eps y y_siz =
     (if eps < 0 \<or> eps > 1 \<or> num_quantiles < 1 \<or> x = [] \<or> y_siz < num_quantiles then Ret (- 1, - 1, y)
      else let eff_siz = (case cfld of None \<Rightarrow> int (length x)
                          | Some c \<Rightarrow> int (length (filter (\<lambda>v. v \<noteq> 0) (take (length x) c)))) in
      if cfld \<noteq> None \<and> eff_siz = 0 then Ret (- 1, - 1, y)
      else case determine_b_k eps eff_siz of (b, kk) \<Rightarrow>
      if b \<le> 0 \<or> kk \<le> 0 then Ret (- 1, - 1, y)
      else if (int b + 1 + 10) * kk > MAX_SZ then Ret (0, - 2, y)
      else case fit_threads (int b) kk 128 of None \<Rightarrow> Fault | Some nt \<Rightarrow>
      let k = nat kk; add = (\<lambda>p. add_packet b k (srt p)) in
      case (case cfld of
              Some c \<Rightarrow> if eff_siz = int (length x)
                then quant_loop (\<lambda>xs. Some (fill_all nt k xs)) add None x (empty_quant b k)
                else quant_loop (fill_sel nt k) add None (zip x c) (empty_quant b k)
            | None \<Rightarrow> quant_loop (\<lambda>xs. Some (fill_all nt k xs)) add None x (empty_quant b k)) of
        (Fault, _) \<Rightarrow> Fault
      | (Bye, _) \<Rightarrow> Ret (- 1, - 1, y)
      | (Ret lastp, q) \<Rightarrow>
          (case Output q (map_option srt lastp) eff_siz num_quantiles y b k of
             Fault \<Rightarrow> Fault | Bye \<Rightarrow> Ret (- 1, - 1, y) | Ret y' \<Rightarrow> Ret (0, 1, y')))"

end
