(* ===== verification/Approx_Quantile_Proofs.thy ===== *)
theory Approx_Quantile_Proofs
  imports Approx_Quantile
begin

text \<open>
  The rank error of the approximate quantiles.  \<open>n_upto v xs\<close> counts the elements up to \<open>v\<close>; a
  weighted list counts every element with its weight.  A collapse changes the weighted count by
  less than the weight of the new buffer; the errors of all collapses add up to at most
  \<open>(b-2) * 2^(b-2)\<close>, which \<open>determine_b_k\<close> has chosen below the error asked for.
\<close>

subsection \<open>Counting\<close>

definition n_upto :: "int \<Rightarrow> int list \<Rightarrow> int" where
  "n_upto v xs = int (length (filter (\<lambda>x. x \<le> v) xs))"

definition wupto :: "int \<Rightarrow> (int \<times> int) list \<Rightarrow> int" where
  "wupto v temp = sum_list (map (\<lambda>p. if fst p \<le> v then snd p else 0) temp)"

definition mass_of :: "(int \<times> int) list \<Rightarrow> int" where
  "mass_of temp = sum_list (map snd temp)"

lemma n_upto_simps [simp]: "n_upto v [] = 0" "n_upto v (x # xs) = (if x \<le> v then 1 else 0) + n_upto v xs"
  "n_upto v (xs @ ys) = n_upto v xs + n_upto v ys"
  by (simp_all add: n_upto_def)

lemma wupto_simps [simp]: "wupto v [] = 0" "wupto v (p # ps) = (if fst p \<le> v then snd p else 0) + wupto v ps"
  "wupto v (ps @ qs) = wupto v ps + wupto v qs"
  by (simp_all add: wupto_def)

lemma mass_of_simps [simp]: "mass_of [] = 0" "mass_of (p # ps) = snd p + mass_of ps"
  "mass_of (ps @ qs) = mass_of ps + mass_of qs"
  by (simp_all add: mass_of_def)

lemma n_upto_mset: "mset xs = mset ys \<Longrightarrow> n_upto v xs = n_upto v ys"
  unfolding n_upto_def by (metis mset_filter size_mset)

lemma n_upto_bounds: "0 \<le> n_upto v xs" "n_upto v xs \<le> int (length xs)"
  by (simp_all add: n_upto_def)

lemma wupto_const: "wupto v (map (\<lambda>x. (x, w)) xs) = w * n_upto v xs"
  by (induction xs) (simp_all add: distrib_left)

lemma mass_const: "mass_of (map (\<lambda>x. (x, w)) xs) = w * int (length xs)"
  by (induction xs) (simp_all add: distrib_left)

lemma wupto_all: "\<forall>p \<in> set ps. fst p \<le> v \<Longrightarrow> wupto v ps = mass_of ps"
  by (induction ps) simp_all

lemma wupto_none: "\<forall>p \<in> set ps. v < fst p \<Longrightarrow> wupto v ps = 0"
  by (induction ps) simp_all

lemma wupto_le_mass: "\<forall>p \<in> set ps. 0 \<le> snd p \<Longrightarrow> 0 \<le> wupto v ps \<and> wupto v ps \<le> mass_of ps"
  by (induction ps) auto

lemma merge_bufs_count:
  "wupto v (merge_bufs w1 w2 xs ys) = w1 * n_upto v xs + w2 * n_upto v ys"
  "mass_of (merge_bufs w1 w2 xs ys) = w1 * int (length xs) + w2 * int (length ys)"
  by (induction w1 w2 xs ys rule: merge_bufs.induct) (simp_all add: wupto_const mass_const distrib_left)

lemma merge_bufs_set: "set (merge_bufs w1 w2 xs ys) = (\<lambda>x. (x, w1)) ` set xs \<union> (\<lambda>y. (y, w2)) ` set ys"
  by (induction w1 w2 xs ys rule: merge_bufs.induct) auto

lemma merge_bufs_sorted:
  "sorted xs \<Longrightarrow> sorted ys \<Longrightarrow> sorted (map fst (merge_bufs w1 w2 xs ys))"
proof (induction w1 w2 xs ys rule: merge_bufs.induct)
  case (1 w1 w2 x xs y ys)
  then show ?case by (fastforce simp: merge_bufs_set)
qed (simp_all add: comp_def)

subsection \<open>Writing at given ranks\<close>

lemma write_while_ok:
  fixes pos :: "nat \<Rightarrow> int"
  assumes "\<And>j. go j \<longleftrightarrow> j < N \<and> pos j \<le> K" and "N \<le> length buf" and "jj \<le> N"
  shows "\<exists>jj' buf'. write_while go v jj buf = Some (jj', buf') \<and> jj \<le> jj' \<and> jj' \<le> N \<and> length buf' = length buf \<and>
     (\<forall>j < jj. buf' ! j = buf ! j) \<and> (\<forall>j. jj \<le> j \<and> j < jj' \<longrightarrow> buf' ! j = v \<and> pos j \<le> K) \<and> (jj' < N \<longrightarrow> K < pos jj')"
  using assms(2,3)
proof (induction "N - jj" arbitrary: jj buf)
  case 0
  then have "jj = N" by simp
  moreover from this have "\<not> go jj" using assms(1)[of jj] by simp
  ultimately show ?case by (auto simp: write_while.simps[of go v N buf])
next
  case (Suc n)
  show ?case
  proof (cases "pos jj \<le> K")
    case True
    have "n = N - Suc jj" "N \<le> length (buf[jj := v])" "Suc jj \<le> N" using Suc(2-4) by auto
    from Suc(1)[OF this] obtain jj' buf' where r: "write_while go v (Suc jj) (buf[jj := v]) = Some (jj', buf')"
      "Suc jj \<le> jj'" "jj' \<le> N" "length buf' = length buf" "\<forall>j < Suc jj. buf' ! j = buf[jj := v] ! j"
      "\<forall>j. Suc jj \<le> j \<and> j < jj' \<longrightarrow> buf' ! j = v \<and> pos j \<le> K" "jj' < N \<longrightarrow> K < pos jj'" by auto
    have "buf' ! j = v \<and> pos j \<le> K" if "jj \<le> j" "j < jj'" for j
      using that r(5,6) True Suc(2,3) by (cases "j = jj") auto
    moreover have "buf' ! j = buf ! j" if "j < jj" for j using that r(5) by simp
    ultimately show ?thesis
      using r True assms(1)[of jj] Suc(2-4) by (simp add: write_while.simps[of go v jj buf])
  next
    case False
    then show ?thesis using assms(1)[of jj] Suc(2,4) by (auto simp: write_while.simps[of go v jj buf])
  qed
qed

text \<open>What has been written at \<open>j\<close> is the element with the rank \<open>pos j\<close> in the weighted list.\<close>

definition ranked :: "(nat \<Rightarrow> int) \<Rightarrow> (int \<times> int) list \<Rightarrow> nat \<Rightarrow> int list \<Rightarrow> bool" where
  "ranked pos whole jj buf \<longleftrightarrow> (\<forall>j < jj. \<forall>v. buf ! j \<le> v \<longleftrightarrow> pos j \<le> wupto v whole)"

lemma rank_element:
  assumes "whole = pre @ (x, w) # rest" and "sorted (map fst whole)" and "\<forall>p \<in> set whole. 0 \<le> snd p"
    and "mass_of pre < r" and "r \<le> mass_of pre + w"
  shows "x \<le> v \<longleftrightarrow> r \<le> wupto v whole"
proof (cases "x \<le> v")
  case True
  have "\<forall>p \<in> set pre. fst p \<le> v" using assms(1,2) True by (fastforce simp: sorted_append)
  then have "wupto v whole = mass_of pre + w + wupto v rest" using True assms(1) by (simp add: wupto_all)
  moreover have "0 \<le> wupto v rest" using assms(1,3) wupto_le_mass[of rest v] by simp
  ultimately show ?thesis using True assms(5) by simp
next
  case False
  have "\<forall>p \<in> set rest. v < fst p" using assms(1,2) False by (fastforce simp: sorted_append)
  then have "wupto v whole = wupto v pre" using False assms(1) by (simp add: wupto_none)
  moreover have "wupto v pre \<le> mass_of pre" using assms(1,3) wupto_le_mass[of pre v] by simp
  ultimately show ?thesis using False assms(4) by simp
qed

lemma pick_loop_ok:
  assumes "\<And>K j. K \<le> mass_of whole \<Longrightarrow> go K j \<longleftrightarrow> j < N \<and> pos j \<le> K" and "mono pos" and "N \<le> length buf"
    and "sorted (map fst whole)" and "\<forall>p \<in> set whole. 0 \<le> snd p"
    and "whole = pre @ rest" and "jj \<le> N" and "jj < N \<longrightarrow> mass_of pre < pos jj" and "ranked pos whole jj buf"
  shows "\<exists>jj' out. pick_loop go rest (mass_of pre) jj buf = Some (jj', out) \<and> length out = length buf \<and> jj' \<le> N \<and>
     (jj' < N \<longrightarrow> mass_of whole < pos jj') \<and> ranked pos whole jj' out"
  using assms(3,6-)
proof (induction rest arbitrary: pre jj buf)
  case Nil
  then show ?case by simp
next
  case (Cons p rest)
  obtain x w where p: "p = (x, w)" by fastforce
  have "0 \<le> mass_of rest" using Cons.prems(2) assms(5) wupto_le_mass[of rest 0] by (auto intro: order_trans)
  then have "mass_of pre + w \<le> mass_of whole" using Cons.prems(2) p by simp
  note go = assms(1)[OF this]
  obtain jj' buf' where r: "write_while (go (mass_of pre + w)) x jj buf = Some (jj', buf')" "jj \<le> jj'" "jj' \<le> N"
    "length buf' = length buf" "\<forall>j < jj. buf' ! j = buf ! j"
    "\<forall>j. jj \<le> j \<and> j < jj' \<longrightarrow> buf' ! j = x \<and> pos j \<le> mass_of pre + w" "jj' < N \<longrightarrow> mass_of pre + w < pos jj'"
    using write_while_ok[OF go Cons.prems(1,3)] by blast
  have "ranked pos whole jj' buf'"
    unfolding ranked_def
  proof (intro allI impI)
    fix j v assume j: "j < jj'"
    show "buf' ! j \<le> v \<longleftrightarrow> pos j \<le> wupto v whole"
    proof (cases "j < jj")
      case True
      then show ?thesis using r(5) Cons.prems(5) by (simp add: ranked_def)
    next
      case False
      then have "pos jj \<le> pos j" using assms(2) by (simp add: monoD)
      then have "mass_of pre < pos j" using Cons.prems(4) j False r(3) by simp
      then show ?thesis
        using rank_element[OF Cons.prems(2)[unfolded p] assms(4,5)] r(6) j False by simp
    qed
  qed
  moreover have "whole = (pre @ [p]) @ rest" "mass_of (pre @ [p]) = mass_of pre + w" using Cons.prems(2) p by simp_all
  ultimately obtain jj2 out where "pick_loop go rest (mass_of pre + w) jj' buf' = Some (jj2, out)" "length out = length buf'"
    "jj2 \<le> N" "jj2 < N \<longrightarrow> mass_of whole < pos jj2" "ranked pos whole jj2 out"
    using Cons.IH[of buf' "pre @ [p]" jj'] Cons.prems(1) r(3,4,7) by auto
  then show ?case using r(1,4) by (simp add: p)
qed

lemma wupto_jump: "wupto (v - 1) ps \<noteq> wupto v ps \<Longrightarrow> v \<in> fst ` set ps"
  by (induction ps) (auto split: if_splits)

lemma ranked_mem: "ranked pos whole jj buf \<Longrightarrow> j < jj \<Longrightarrow> buf ! j \<in> fst ` set whole"
proof (rule wupto_jump)
  assume r: "ranked pos whole jj buf" and j: "j < jj"
  have at: "buf ! j \<le> v \<longleftrightarrow> pos j \<le> wupto v whole" for v using r j by (simp add: ranked_def)
  show "wupto (buf ! j - 1) whole \<noteq> wupto (buf ! j) whole" using at[of "buf ! j"] at[of "buf ! j - 1"] by auto
qed

subsection \<open>Collapse\<close>

lemma initial_card:
  assumes "finite A" and "\<And>i j. i \<le> j \<Longrightarrow> j \<in> A \<Longrightarrow> i \<in> A"
  shows "j < card A \<longleftrightarrow> j \<in> (A :: nat set)"
proof
  assume j: "j \<in> A"
  then have "{..j} \<subseteq> A" using assms(2) by blast
  then have "card {..j} \<le> card A" by (rule card_mono[OF assms(1)])
  then show "j < card A" by simp
next
  assume c: "j < card A"
  show "j \<in> A"
  proof (rule ccontr)
    assume "j \<notin> A"
    then have "A \<subseteq> {..<j}" using assms(2) by (metis lessThan_iff linorder_not_le subsetI)
    then have "card A \<le> j" using card_mono[of "{..<j}" A] by simp
    then show False using c by simp
  qed
qed

lemma n_upto_ranked:
  assumes "length out = k" and "\<And>j. j < k \<Longrightarrow> out ! j \<le> v \<longleftrightarrow> off + int j * W \<le> c"
    and "0 < off" "off \<le> W" "0 \<le> c" "c \<le> int k * W"
  shows "c - off < W * n_upto v out" and "W * n_upto v out \<le> c + W - off"
proof -
  define m where "m = card {j. j < k \<and> off + int j * W \<le> c}"
  have u: "n_upto v out = int m"
    unfolding n_upto_def m_def length_filter_conv_card assms(1) using assms(2) by (metis (mono_tags, lifting))
  have W: "0 < W" using assms(3,4) by simp
  have "j < m \<longleftrightarrow> j \<in> {j. j < k \<and> off + int j * W \<le> c}" for j
    unfolding m_def
  proof (rule initial_card)
    show "finite {j. j < k \<and> off + int j * W \<le> c}" by simp
    fix i j assume "i \<le> j" "j \<in> {j. j < k \<and> off + int j * W \<le> c}"
    moreover from this have "int i * W \<le> int j * W" using W by (intro mult_right_mono) simp_all
    ultimately show "i \<in> {j. j < k \<and> off + int j * W \<le> c}" by auto
  qed
  then have mem: "j < m \<longleftrightarrow> j < k \<and> off + int j * W \<le> c" for j by simp
  show "c - off < W * n_upto v out"
  proof (cases "m < k")
    case True
    then have "c < off + int m * W" using mem[of m] by simp
    then show ?thesis by (simp add: u mult.commute)
  next
    case False
    then have "int k * W \<le> int m * W" using W by (intro mult_right_mono) simp_all
    then show ?thesis using assms(3,6) by (simp add: u mult.commute)
  qed
  show "W * n_upto v out \<le> c + W - off"
  proof (cases m)
    case 0
    then show ?thesis using assms(4,5) by (simp add: u)
  next
    case (Suc n)
    then have "off + int n * W \<le> c" using mem[of n] by simp
    then show ?thesis by (simp add: u Suc distrib_left mult.commute)
  qed
qed

text \<open>The loop of \<open>Collapse\<close>: the result is sorted and its weighted count is off by less than the weight.\<close>

definition collapsed :: "int \<Rightarrow> int \<Rightarrow> int list \<Rightarrow> int list \<Rightarrow> int list \<Rightarrow> bool" where
  "collapsed w1 w2 xs ys out \<longleftrightarrow> length out = length xs \<and> sorted out \<and> set out \<subseteq> set xs \<union> set ys \<and>
     (\<forall>v. w1 * n_upto v xs + w2 * n_upto v ys - (w1 + w2) div 2 < (w1 + w2) * n_upto v out \<and>
          (w1 + w2) * n_upto v out \<le> w1 * n_upto v xs + w2 * n_upto v ys + (w1 + w2) - (w1 + w2) div 2)"

lemma collapse_pick:
  assumes "sorted xs" "sorted ys" and "length xs = k" "length ys = k" and "0 < w1" "0 < w2"
  shows "\<exists>jj out. pick_loop (\<lambda>kk jj. kk \<ge> (w1 + w2) div 2 + int jj * (w1 + w2)) (merge_bufs w1 w2 xs ys) 0 0 xs = Some (jj, out) \<and>
     collapsed w1 w2 xs ys out"
proof -
  define W off whole where "W = w1 + w2" and "off = (w1 + w2) div 2" and "whole = merge_bufs w1 w2 xs ys"
  define pos where "pos j = off + int j * W" for j
  have W: "0 < off" "off \<le> W" "0 < W" using assms(5,6) by (auto simp: W_def off_def)
  have mass: "mass_of whole = int k * W"
    by (simp add: whole_def merge_bufs_count assms(3,4) W_def algebra_simps)
  have go: "pos j \<le> K \<longleftrightarrow> j < k \<and> pos j \<le> K" if "K \<le> mass_of whole" for K j
  proof -
    have "j < k" if "pos j \<le> K"
    proof (rule ccontr)
      assume "\<not> j < k"
      then have "int k * W \<le> int j * W" using W(3) by (intro mult_right_mono) simp_all
      then show False using that \<open>K \<le> mass_of whole\<close> W(1) by (simp add: mass pos_def)
    qed
    then show ?thesis by blast
  qed
  have mono: "mono pos" using W(3) by (auto simp: mono_def pos_def intro: mult_right_mono)
  have srt: "sorted (map fst whole)" and wt: "\<forall>p \<in> set whole. 0 \<le> snd p"
    using assms(1,2,5,6) by (auto simp: whole_def merge_bufs_sorted merge_bufs_set)
  have "\<exists>jj out. pick_loop (\<lambda>K j. pos j \<le> K) whole 0 0 xs = Some (jj, out) \<and> length out = length xs \<and> jj \<le> k \<and>
     (jj < k \<longrightarrow> mass_of whole < pos jj) \<and> ranked pos whole jj out"
    using pick_loop_ok[of whole "\<lambda>K j. pos j \<le> K" k pos xs "[]" whole 0, OF go mono _ srt wt] assms(3) W(1)
    by (auto simp: ranked_def pos_def)
  then obtain jj out where r: "pick_loop (\<lambda>K j. pos j \<le> K) whole 0 0 xs = Some (jj, out)" "length out = k" "jj \<le> k"
    "jj < k \<longrightarrow> mass_of whole < pos jj" "ranked pos whole jj out" using assms(3) by auto
  have "pos j \<le> mass_of whole" if "j < k" for j
  proof -
    have "int (j + 1) * W \<le> int k * W" using that W(3) by (intro mult_right_mono) simp_all
    then show ?thesis using W(2) by (simp add: mass pos_def distrib_right)
  qed
  then have "jj = k" using r(3,4) by (meson leD le_neq_implies_less)
  then have at: "out ! j \<le> v \<longleftrightarrow> pos j \<le> wupto v whole" if "j < k" for j v using that r(5) by (simp add: ranked_def)
  have "sorted out"
    unfolding sorted_iff_nth_mono
  proof (intro allI impI)
    fix i j assume "i \<le> j" "j < length out"
    then show "out ! i \<le> out ! j" using at[of j "out ! j"] at[of i "out ! j"] monoD[OF mono, of i j] r(2) by simp
  qed
  moreover have "0 \<le> wupto v whole" "wupto v whole \<le> int k * W" for v using wupto_le_mass[OF wt, of v] mass by simp_all
  note n_upto_ranked[OF r(2), of _ off W "wupto _ whole", OF at[unfolded pos_def] W(1,2) this]
  moreover have "out ! j \<in> set xs \<union> set ys" if "j < k" for j
    using ranked_mem[OF r(5)] that \<open>jj = k\<close> by (fastforce simp: whole_def merge_bufs_set)
  then have "set out \<subseteq> set xs \<union> set ys" using r(2) by (metis in_set_conv_nth subsetI)
  ultimately have "collapsed w1 w2 xs ys out"
    using r(2) assms(3) by (simp add: collapsed_def W_def off_def whole_def merge_bufs_count)
  then show ?thesis using r(1) by (auto simp: pos_def W_def off_def whole_def)
qed

subsection \<open>The buffers\<close>

text \<open>The error a buffer may have accumulated when it was collapsed from buffers of weight one.\<close>

function werr :: "int \<Rightarrow> int" where
  "werr w = (if w \<le> 1 then 0 else 2 * werr (w div 2) + w div 2)"
  by auto
termination by (relation "measure nat") auto

declare werr.simps [simp del]

lemma werr_simps: "werr 0 = 0" "werr 1 = 0" "werr (2 * 2 ^ L) = 2 * werr (2 ^ L) + 2 ^ L"
proof -
  have "\<not> 2 * (2::int) ^ L \<le> 1" using one_le_power[of "2::int" L] by linarith
  then show "werr (2 * 2 ^ L) = 2 * werr (2 ^ L) + 2 ^ L" by (simp add: werr.simps[of "2 * 2 ^ L"])
qed (simp_all add: werr.simps[of 0] werr.simps[of 1])

lemma werr_power: "2 * werr (2 ^ L) = int L * 2 ^ L"
  by (induction L) (simp_all add: werr_simps algebra_simps)

definition buf_ok :: "nat \<Rightarrow> nat \<Rightarrow> int \<Rightarrow> int list \<Rightarrow> bool" where
  "buf_ok b k w buf \<longleftrightarrow> length buf = k \<and> (w = 0 \<or> (\<exists>L \<le> b - 2. w = 2 ^ L) \<and> sorted buf)"

definition qinv :: "nat \<Rightarrow> nat \<Rightarrow> int list \<Rightarrow> quant \<Rightarrow> bool" where
  "qinv b k P q \<longleftrightarrow> length (q_buffer q) = b \<and> length (q_weight q) = b \<and>
     (\<forall>i < b. buf_ok b k (q_weight q ! i) (q_buffer q ! i)) \<and>
     q_empty q = int (card {i. i < b \<and> q_weight q ! i = 0}) \<and>
     (\<forall>i < b. 0 < q_weight q ! i \<longrightarrow> set (q_buffer q ! i) \<subseteq> set P) \<and>
     (\<Sum>i < b. q_weight q ! i) * int k = int (length P) \<and>
     (\<forall>v. \<bar>(\<Sum>i < b. q_weight q ! i * n_upto v (q_buffer q ! i)) - n_upto v P\<bar> \<le> (\<Sum>i < b. werr (q_weight q ! i)))"

lemma sum_change:
  fixes f g :: "nat \<Rightarrow> int"
  assumes "i < b" and "\<And>j. j < b \<Longrightarrow> j \<noteq> i \<Longrightarrow> g j = f j"
  shows "(\<Sum>j < b. g j) = (\<Sum>j < b. f j) - f i + g i"
proof -
  have "(\<Sum>j < b. h j) = h i + (\<Sum>j \<in> {..<b} - {i}. h j)" for h :: "nat \<Rightarrow> int"
    using assms(1) by (intro sum.remove) auto
  moreover have "(\<Sum>j \<in> {..<b} - {i}. g j) = (\<Sum>j \<in> {..<b} - {i}. f j)" using assms(2) by (intro sum.cong) auto
  ultimately show ?thesis by simp
qed

lemma sum_change2:
  fixes f g :: "nat \<Rightarrow> int"
  assumes "i < b" "i' < b" "i \<noteq> i'" and "\<And>j. j < b \<Longrightarrow> j \<noteq> i \<Longrightarrow> j \<noteq> i' \<Longrightarrow> g j = f j"
  shows "(\<Sum>j < b. g j) = (\<Sum>j < b. f j) - f i - f i' + g i + g i'"
proof -
  have "(\<Sum>j < b. (f(i := g i)) j) = (\<Sum>j < b. f j) - f i + (f(i := g i)) i" by (rule sum_change[OF assms(1)]) simp
  moreover have "(\<Sum>j < b. g j) = (\<Sum>j < b. (f(i := g i)) j) - (f(i := g i)) i' + g i'"
    by (rule sum_change[OF assms(2)]) (use assms(4) in auto)
  ultimately show ?thesis using assms(3) by simp
qed

lemma qinv_empty: "qinv b k [] (empty_quant b k)"
proof -
  have "{i. i < b \<and> replicate b 0 ! i = (0::int)} = {..<b}" by auto
  then show ?thesis by (simp add: qinv_def empty_quant_def buf_ok_def werr_simps)
qed

lemma New_ok:
  assumes "qinv b k P q" and "i < b" and "q_weight q ! i = 0" and "sorted packet" "length packet = k"
  shows "\<exists>q'. New packet 1 (int i) b k (q\<lparr>q_empty := q_empty q - 1\<rparr>) = (Ret (), q') \<and> qinv b k (P @ packet) q'"
proof -
  let ?q' = "q\<lparr>q_buffer := (q_buffer q)[i := packet], q_weight := (q_weight q)[i := 1], q_empty := q_empty q - 1\<rparr>"
  have len: "length (q_buffer q) = b" "length (q_weight q) = b" "length (q_buffer q ! i) = k"
    using assms(1,2) by (auto simp: qinv_def buf_ok_def)
  have run: "New packet 1 (int i) b k (q\<lparr>q_empty := q_empty q - 1\<rparr>) = (Ret (), ?q')"
    using assms(2,5) len by (simp add: New_def in_range_def)
  have w: "(q_weight q)[i := 1] ! j = (if j = i then 1 else q_weight q ! j)"
    "(q_buffer q)[i := packet] ! j = (if j = i then packet else q_buffer q ! j)" if "j < b" for j
    using that len by (simp_all add: nth_list_update)
  have "{j. j < b \<and> q_weight q ! j = 0} = insert i {j. j < b \<and> (q_weight q)[i := 1] ! j = 0}"
    using assms(2,3) w by (auto split: if_splits)
  then have "card {j. j < b \<and> q_weight q ! j = 0} = Suc (card {j. j < b \<and> (q_weight q)[i := 1] ! j = 0})"
    using w[OF assms(2)] by simp
  moreover have "(\<Sum>j < b. (q_weight q)[i := 1] ! j) = (\<Sum>j < b. q_weight q ! j) + 1"
    using sum_change[OF assms(2), of "\<lambda>j. (q_weight q)[i := 1] ! j" "\<lambda>j. q_weight q ! j"] w assms(2,3) by simp
  moreover have "(\<Sum>j < b. werr ((q_weight q)[i := 1] ! j)) = (\<Sum>j < b. werr (q_weight q ! j))"
    using sum_change[OF assms(2), of "\<lambda>j. werr ((q_weight q)[i := 1] ! j)" "\<lambda>j. werr (q_weight q ! j)"] w assms(2,3)
    by (simp add: werr_simps)
  moreover have "(\<Sum>j < b. (q_weight q)[i := 1] ! j * n_upto v ((q_buffer q)[i := packet] ! j)) =
      (\<Sum>j < b. q_weight q ! j * n_upto v (q_buffer q ! j)) + n_upto v packet" for v
    using sum_change[OF assms(2), of "\<lambda>j. (q_weight q)[i := 1] ! j * n_upto v ((q_buffer q)[i := packet] ! j)"
        "\<lambda>j. q_weight q ! j * n_upto v (q_buffer q ! j)"] w assms(2,3) by simp
  moreover have "\<forall>j < b. buf_ok b k ((q_weight q)[i := 1] ! j) ((q_buffer q)[i := packet] ! j)"
    using assms w by (auto simp: qinv_def buf_ok_def intro: exI[of _ 0])
  moreover have "\<forall>j < b. 0 < (q_weight q)[i := 1] ! j \<longrightarrow> set ((q_buffer q)[i := packet] ! j) \<subseteq> set (P @ packet)"
    using assms(1) w by (auto simp: qinv_def)
  ultimately have "qinv b k (P @ packet) ?q'"
    using assms(1,5) len by (auto simp: qinv_def distrib_right)
  then show ?thesis using run by blast
qed

lemma Collapse_ok:
  assumes "qinv b k P q" and "i < j" "j < b" and "q_weight q ! i = q_weight q ! j" "0 < q_weight q ! i"
    and "q_weight q ! i + q_weight q ! j < 2 ^ (b - 1)" "q_weight q ! i + q_weight q ! j < 2 ^ 31"
  shows "\<exists>q'. Collapse (int i) (int j) b k q = (Ret (), q') \<and> qinv b k P (q'\<lparr>q_empty := q_empty q' + 1\<rparr>) \<and>
     q_empty q' = q_empty q"
proof -
  have i: "i < b" "i \<noteq> j" using assms(2,3) by auto
  have len: "length (q_buffer q) = b" "length (q_weight q) = b" "length (q_buffer q ! i) = k" "length (q_buffer q ! j) = k"
    and srt: "sorted (q_buffer q ! i)" "sorted (q_buffer q ! j)"
    using assms(1,3,4,5) i by (auto simp: qinv_def buf_ok_def)
  obtain L where w: "q_weight q ! i = 2 ^ L" using assms(1,5) i(1) by (auto simp: qinv_def buf_ok_def)
  then have wj: "q_weight q ! j = 2 ^ L" using assms(4) by simp
  have "(2::int) ^ Suc L < 2 ^ (b - 1)" using assms(6) w wj by simp
  then have "Suc L < b - 1" by (rule power_less_imp_less_exp[rotated]) simp
  then have lev: "Suc L \<le> b - 2" by simp
  have dv: "(2 ^ L + 2 ^ L :: int) div 2 = 2 ^ L" by simp
  have "0 \<le> (2 ^ L + 2 ^ L :: int)" "(2 ^ 31 :: int) = INT_MAX + 1" by simp_all
  then have sum: "to_int32 (2 ^ L + 2 ^ L) = 2 ^ L + 2 ^ L" using assms(7) unfolding w wj by (intro to_int32_id) linarith+
  have half: "c_div (2 * 2 ^ L) 2 = 2 ^ L" by (subst c_div_pos) simp_all
  obtain jj out where p: "pick_loop (\<lambda>kk jj. kk \<ge> 2 ^ L + int jj * (2 ^ L + 2 ^ L))
      (merge_bufs (2 ^ L) (2 ^ L) (q_buffer q ! i) (q_buffer q ! j)) 0 0 (q_buffer q ! i) = Some (jj, out)"
    "collapsed (2 ^ L) (2 ^ L) (q_buffer q ! i) (q_buffer q ! j) out"
    using collapse_pick[OF srt len(3,4), of "2 ^ L" "2 ^ L"] unfolding dv by auto
  define ws bs where "ws = (q_weight q)[i := 2 ^ L + 2 ^ L, j := 0]" and "bs = (q_buffer q)[i := out]"
  define q' where "q' = q\<lparr>q_buffer := bs, q_weight := ws\<rparr>"
  have run: "Collapse (int i) (int j) b k q = (Ret (), q')"
    using i assms(3) len p(1) by (simp add: Collapse_def in_range_def w wj sum[folded mult_2] half Let_def q'_def ws_def bs_def)
  have sub: "set out \<subseteq> set P"
  proof -
    have "set (q_buffer q ! i) \<subseteq> set P" "set (q_buffer q ! j) \<subseteq> set P" using assms(1,3,4,5) i(1) by (simp_all add: qinv_def)
    then show ?thesis using p(2) unfolding collapsed_def by blast
  qed
  have c: "length out = k" "sorted out" "2 * 2 ^ L * n_upto v out \<le> 2 ^ L * n_upto v (q_buffer q ! i) + 2 ^ L * n_upto v (q_buffer q ! j) + 2 ^ L"
    "2 ^ L * n_upto v (q_buffer q ! i) + 2 ^ L * n_upto v (q_buffer q ! j) - 2 ^ L < 2 * 2 ^ L * n_upto v out" for v
    using p(2) len(3) by (auto simp: collapsed_def algebra_simps)
  have at: "ws ! n = (if n = j then 0 else if n = i then 2 * 2 ^ L else q_weight q ! n)"
    "bs ! n = (if n = i then out else q_buffer q ! n)" if "n < b" for n
    using that i assms(3) len by (auto simp: ws_def bs_def nth_list_update)
  have "{n. n < b \<and> ws ! n = 0} = insert j {n. n < b \<and> q_weight q ! n = 0}"
    using i assms(3) w at by (auto split: if_splits)
  then have "card {n. n < b \<and> ws ! n = 0} = Suc (card {n. n < b \<and> q_weight q ! n = 0})" using wj by simp
  moreover have "(\<Sum>n < b. ws ! n) = (\<Sum>n < b. q_weight q ! n)"
    using sum_change2[OF i(1) assms(3) i(2), of "\<lambda>n. ws ! n" "\<lambda>n. q_weight q ! n"] at i assms(3) w wj by simp
  moreover have e: "(\<Sum>n < b. werr (ws ! n)) = (\<Sum>n < b. werr (q_weight q ! n)) + 2 ^ L"
    using sum_change2[OF i(1) assms(3) i(2), of "\<lambda>n. werr (ws ! n)" "\<lambda>n. werr (q_weight q ! n)"] at i assms(3) w wj
    by (simp add: werr_simps)
  moreover have "\<bar>(\<Sum>n < b. ws ! n * n_upto v (bs ! n)) - n_upto v P\<bar> \<le> (\<Sum>n < b. werr (ws ! n))" for v
  proof -
    have "(\<Sum>n < b. ws ! n * n_upto v (bs ! n)) = (\<Sum>n < b. q_weight q ! n * n_upto v (q_buffer q ! n))
        - 2 ^ L * n_upto v (q_buffer q ! i) - 2 ^ L * n_upto v (q_buffer q ! j) + 2 * 2 ^ L * n_upto v out"
      using sum_change2[OF i(1) assms(3) i(2), of "\<lambda>n. ws ! n * n_upto v (bs ! n)"
          "\<lambda>n. q_weight q ! n * n_upto v (q_buffer q ! n)"] at i assms(3) w wj by simp
    moreover have "\<bar>(\<Sum>n < b. q_weight q ! n * n_upto v (q_buffer q ! n)) - n_upto v P\<bar> \<le> (\<Sum>n < b. werr (q_weight q ! n))"
      using assms(1) by (auto simp: qinv_def)
    ultimately show ?thesis using c(3,4)[of v] unfolding e by linarith
  qed
  moreover have "\<forall>n < b. buf_ok b k (ws ! n) (bs ! n)"
    using assms(1) at c(1,2) lev by (auto simp: qinv_def buf_ok_def intro: exI[of _ "Suc L"])
  moreover have "\<forall>n < b. 0 < ws ! n \<longrightarrow> set (bs ! n) \<subseteq> set P"
    using assms(1) at sub by (auto simp: qinv_def split: if_splits)
  ultimately have "qinv b k P (q'\<lparr>q_empty := q_empty q' + 1\<rparr>)"
    using assms(1) by (auto simp: qinv_def q'_def ws_def bs_def)
  then show ?thesis using run by (auto simp: q'_def)
qed

text \<open>Beyond that: two buffers of weight \<open>2^30\<close>, which stand for \<open>2^31\<close> packets, get a negative weight, and the loop
  that picks the elements runs past the end of the buffer.\<close>

lemma write_while_runs_off: "\<forall>j. go j \<Longrightarrow> write_while go v jj buf = None"
  by (induction go v jj buf rule: write_while.induct) (simp add: write_while.simps)

lemma Collapse_overflow:
  assumes "length (q_buffer q) = b" "length (q_weight q) = b" and "i < b" "j < b" and "0 < k"
    and "length (q_buffer q ! i) = k" "length (q_buffer q ! j) = k" and "q_weight q ! i = 2 ^ 30" "q_weight q ! j = 2 ^ 30"
  shows "Collapse (int i) (int j) b k q = (Fault, q)"
proof -
  let ?m = "merge_bufs 1073741824 1073741824 (q_buffer q ! i) (q_buffer q ! j)"
  obtain x xs y ys where b: "q_buffer q ! i = x # xs" "q_buffer q ! j = y # ys" using assms(5-7) by (metis length_greater_0_conv list.exhaust)
  obtain v rest where "?m = (v, 1073741824) # rest" unfolding b by (cases "x \<le> y") auto
  moreover have "\<forall>jj. - 1073741824 - int jj * 2147483648 \<le> 1073741824" by simp
  ultimately have "pick_loop (\<lambda>kk jj. - 1073741824 - int jj * 2147483648 \<le> kk) ?m 0 0 (q_buffer q ! i) = None"
    by (simp add: write_while_runs_off)
  moreover have "to_int32 (1073741824 + 1073741824) = - 2147483648" "c_div (- 2147483648) 2 = - 1073741824"
    by (simp_all add: to_int32_def c_div_def)
  ultimately show ?thesis
    using assms by (simp add: Collapse_def in_range_def Let_def)
qed

lemma sum_powers: "finite S \<Longrightarrow> (2::int) ^ card S - 1 \<le> (\<Sum>e \<in> S. 2 ^ e)"
proof (induction S rule: finite_linorder_max_induct)
  case (insert b A)
  have "A \<subseteq> {..<b}" using insert.hyps(2) by auto
  then have "card A \<le> b" using card_mono[of "{..<b}" A] by simp
  then have "(2::int) ^ card A \<le> 2 ^ b" by (rule power_increasing) simp
  moreover have "b \<notin> A" using insert.hyps(2) by auto
  ultimately show ?case using insert.IH insert.hyps(1) by (simp del: power_increasing_iff)
qed simp

lemma equal_weights:
  assumes "\<And>i. i < b \<Longrightarrow> \<exists>L. ws ! i = (2::int) ^ L" and "(\<Sum>i < b. ws ! i) < 2 ^ b - 1"
  shows "\<exists>i j. i < j \<and> j < b \<and> ws ! i = ws ! j"
proof (rule ccontr)
  assume no: "\<not> (\<exists>i j. i < j \<and> j < b \<and> ws ! i = ws ! j)"
  obtain L where L: "\<And>i. i < b \<Longrightarrow> ws ! i = 2 ^ L i" using assms(1) by metis
  have inj: "inj_on L {..<b}"
  proof (rule inj_onI)
    fix i j assume "i \<in> {..<b}" "j \<in> {..<b}" "L i = L j"
    then show "i = j" using no L by (metis lessThan_iff linorder_neqE_nat)
  qed
  have "(2::int) ^ b - 1 \<le> (\<Sum>e \<in> L ` {..<b}. 2 ^ e)"
    using sum_powers[of "L ` {..<b}"] inj by (simp add: card_image)
  also have "\<dots> = (\<Sum>i < b. ws ! i)" using L inj by (simp add: sum.reindex)
  finally show False using assms(2) by simp
qed

lemma find_in:
  assumes "find P xs = Some x"
  shows "x \<in> set xs" and "P x"
  using assms by (auto simp: find_Some_iff)

lemma find_pair_ok:
  assumes "i < j" "j < b" "ws ! i = ws ! j" "0 < ws ! i"
  obtains i' j' where "find_pair b ws = (int i', int j')" "i' < j'" "j' < b" "ws ! i' = ws ! j'" "0 < ws ! i'"
proof -
  let ?P = "\<lambda>(ii, jj). ws ! ii = ws ! jj \<and> ws ! ii > 0"
  let ?xs = "concat (map (\<lambda>ii. map (\<lambda>jj. (ii, jj)) [ii + 1..<b]) [0..<b - 1])"
  have "(i, j) \<in> set ?xs" using assms(1,2) by (auto intro!: bexI[of _ i])
  then have "find ?P ?xs \<noteq> None" using assms(3,4) by (auto simp: find_None_iff simp del: set_concat)
  then obtain i' j' where f: "find ?P ?xs = Some (i', j')" by auto
  note find_in[OF f]
  then have "i' < j'" "j' < b" "ws ! i' = ws ! j'" "0 < ws ! i'" by auto
  moreover have "find_pair b ws = (int i', int j')" unfolding find_pair_def f by simp
  ultimately show thesis by (intro that)
qed

lemma find_free_ok:
  assumes "i < b" "ws ! i = 0"
  obtains i' where "find_free b ws = int i'" "i' < b" "ws ! i' = 0"
proof -
  have "find (\<lambda>ii. ws ! ii = 0) [0..<b] \<noteq> None" using assms by (auto simp: find_None_iff)
  then obtain i' where f: "find (\<lambda>ii. ws ! ii = 0) [0..<b] = Some i'" by auto
  then have "i' < b" "ws ! i' = 0" by (auto simp: find_Some_iff)
  then show thesis using f by (intro that[of i']) (auto simp: find_free_def)
qed

lemma weight_nonneg: "qinv b k P q \<Longrightarrow> i < b \<Longrightarrow> 0 \<le> q_weight q ! i"
  by (auto simp: qinv_def buf_ok_def)

lemma two_weights:
  assumes "qinv b k P q" and "i < j" "j < b"
  shows "q_weight q ! i + q_weight q ! j \<le> (\<Sum>n < b. q_weight q ! n)"
proof -
  have "(\<Sum>n \<in> {i, j}. q_weight q ! n) \<le> (\<Sum>n \<in> {..<b}. q_weight q ! n)"
    using assms weight_nonneg[OF assms(1)] by (intro sum_mono2) auto
  then show ?thesis using assms(2) by simp
qed

lemma free_buffer:
  assumes "qinv b k P q" and "q_empty q \<noteq> 0"
  obtains i where "i < b" "q_weight q ! i = 0"
proof -
  have "card {i. i < b \<and> q_weight q ! i = 0} \<noteq> 0" using assms by (simp add: qinv_def)
  then have "{i. i < b \<and> q_weight q ! i = 0} \<noteq> {}" by force
  then show thesis using that by auto
qed

text \<open>Making room: when no buffer is free, two of them have the same weight.\<close>

lemma make_room:
  assumes "qinv b k P q" and "0 < b" and "(\<Sum>i < b. q_weight q ! i) < 2 ^ (b - 1)" and "(\<Sum>i < b. q_weight q ! i) < 2 ^ 31"
    and "q_empty q = 0"
  obtains q' where "(case find_pair b (q_weight q) of (i1, i2) \<Rightarrow> Collapse i1 i2 b k q) = (Ret (), q')"
    "qinv b k P (q'\<lparr>q_empty := q_empty q' + 1\<rparr>)" "q_empty q' = 0"
proof -
  have "{i. i < b \<and> q_weight q ! i = 0} = {}" using assms(1,5) by (simp add: qinv_def)
  then have pos: "\<exists>L. q_weight q ! i = 2 ^ L" if "i < b" for i using that assms(1) by (auto simp: qinv_def buf_ok_def)
  have "(2::int) ^ (b - 1) \<le> 2 ^ b - 1" using assms(2) by (cases b) auto
  then have "(\<Sum>i < b. q_weight q ! i) < 2 ^ b - 1" using assms(3) by linarith
  from equal_weights[OF pos this] obtain i j where ij: "i < j" "j < b" "q_weight q ! i = q_weight q ! j" by blast
  moreover have "0 < q_weight q ! i" using pos[of i] ij by auto
  ultimately obtain i' j' where f: "find_pair b (q_weight q) = (int i', int j')" "i' < j'" "j' < b"
      "q_weight q ! i' = q_weight q ! j'" "0 < q_weight q ! i'" by (rule find_pair_ok)
  have "q_weight q ! i' + q_weight q ! j' < 2 ^ (b - 1)" "q_weight q ! i' + q_weight q ! j' < 2 ^ 31"
    using two_weights[OF assms(1) f(2,3)] assms(3,4) by linarith+
  from Collapse_ok[OF assms(1) f(2-5) this] show thesis using that f(1) assms(5) by auto
qed

lemma bind_gets: "bind (gets f) p s = p (f s) s"
  by (simp add: bind_def gets_def)

lemma add_packet_ok:
  assumes "qinv b k P q" and "0 < b" and "(\<Sum>i < b. q_weight q ! i) < 2 ^ (b - 1)" and "(\<Sum>i < b. q_weight q ! i) < 2 ^ 31"
    and "sorted packet" "length packet = k"
  shows "\<exists>q'. add_packet b k packet q = (Ret (), q') \<and> qinv b k (P @ packet) q'"
proof -
  have "\<exists>q1. seq (if q_empty q = 0 then bind (gets q_weight) (\<lambda>w. case find_pair b w of (i1, i2) \<Rightarrow>
            seq (Collapse i1 i2 b k) (modify (\<lambda>q. q\<lparr>q_empty := q_empty q + 1\<rparr>)))
          else ret ()) p q = p q1 \<and> qinv b k P q1 \<and> q_empty q1 \<noteq> 0" for p :: "(quant, unit) prog"
  proof (cases "q_empty q = 0")
    case True
    then obtain q' where "(case find_pair b (q_weight q) of (i1, i2) \<Rightarrow> Collapse i1 i2 b k q) = (Ret (), q')"
      "qinv b k P (q'\<lparr>q_empty := q_empty q' + 1\<rparr>)" "q_empty q' = 0" using make_room[OF assms(1-4)] by blast
    then show ?thesis using True
      by (intro exI[of _ "q'\<lparr>q_empty := q_empty q' + 1\<rparr>"]) (auto simp: prog_defs split: prod.splits)
  next
    case False
    then show ?thesis using assms(1) by (intro exI[of _ q]) (simp add: prog_defs)
  qed
  from this[of "bind (gets q_weight) (\<lambda>w. let i = find_free b w in
     seq (if i \<ge> 0 then modify (\<lambda>q. q\<lparr>q_empty := q_empty q - 1\<rparr>) else ret ()) (New packet 1 i b k))"]
  obtain q1 where q1: "add_packet b k packet q = bind (gets q_weight) (\<lambda>w. let i = find_free b w in
     seq (if i \<ge> 0 then modify (\<lambda>q. q\<lparr>q_empty := q_empty q - 1\<rparr>) else ret ()) (New packet 1 i b k)) q1"
    "qinv b k P q1" "q_empty q1 \<noteq> 0"
    by (auto simp: add_packet_def bind_gets[of q_empty])
  obtain i where "i < b" "q_weight q1 ! i = 0" using free_buffer[OF q1(2,3)] .
  then obtain i' where f: "find_free b (q_weight q1) = int i'" "i' < b" "q_weight q1 ! i' = 0" by (rule find_free_ok)
  from New_ok[OF q1(2) f(2,3) assms(5,6)] show ?thesis
    using q1(1) f(1) by (auto simp: prog_defs)
qed

end
