(* ===== verification/Approx_Rounding.thy ===== *)
theory Approx_Rounding
  imports Approx_Quantile
begin

text \<open>
  More on the rounding to \<open>double\<close>: it is monotone and exact for fractions of a power of two
  with a numerator of 53 bits; with this, the sizes computed by \<open>determine_b_k\<close> are large enough.
\<close>

lemma double_0: "double 0 = 0"
  by (simp add: double_def Let_def round_even_def)

lemma round_even_int: "round_even (of_int n) = n"
  by (simp add: round_even_def Let_def)

lemma round_even_mono: "x \<le> y \<Longrightarrow> round_even x \<le> round_even y"
proof -
  assume xy: "x \<le> y"
  have r: "\<lfloor>z\<rfloor> \<le> round_even z" "round_even z \<le> \<lfloor>z\<rfloor> + 1" for z by (auto simp: round_even_def Let_def)
  show ?thesis
  proof (cases "\<lfloor>x\<rfloor> = \<lfloor>y\<rfloor>")
    case True
    then show ?thesis using xy by (auto simp: round_even_def Let_def)
  next
    case False
    then have "\<lfloor>x\<rfloor> + 1 \<le> \<lfloor>y\<rfloor>" using floor_mono[OF xy] by linarith
    then show ?thesis using r(2)[of x] r(1)[of y] by linarith
  qed
qed

lemma double_norm:
  assumes "x > 0"
  obtains e where "double x = of_int (round_even (x / pow2 e)) * pow2 e" "2 ^ 52 \<le> x / pow2 e" "x / pow2 e < 2 ^ 53"
proof -
  obtain n d where q: "quotient_of x = (n, d)" by fastforce
  have d: "d > 0" using quotient_of_denom_pos[OF q] .
  have x: "x = of_int n / of_int d" using quotient_of_div[OF q] .
  then have n: "n > 0" using assms d by (simp add: zero_less_divide_iff)
  define e where "e = bitlen n - bitlen d - 53"
  have "pow2 (52 + e) * of_int d \<le> pow2 (52 + e) * pow2 (bitlen d)"
    using bitlen_pow2[OF d] by (intro mult_left_mono) (simp_all add: less_imp_le)
  also have "\<dots> = pow2 (bitlen n - 1)" by (simp add: e_def flip: pow2_add)
  also have "\<dots> \<le> of_int n" using bitlen_pow2[OF n] by simp
  finally have "pow2 (52 + e) \<le> x" using d by (simp add: x pos_le_divide_eq)
  then have lo: "2 ^ 52 \<le> x / pow2 e" by (simp add: pow2_add pos_le_divide_eq) (simp add: pow2_def)
  have "of_int n < pow2 (bitlen n)" using bitlen_pow2[OF n] by simp
  also have "\<dots> = pow2 (54 + e) * pow2 (bitlen d - 1)" by (simp add: e_def flip: pow2_add)
  also have "\<dots> \<le> pow2 (54 + e) * of_int d" using bitlen_pow2[OF d] by (intro mult_left_mono) (simp_all add: less_imp_le)
  finally have "x < pow2 (54 + e)" using d by (simp add: x pos_divide_less_eq)
  then have hi: "x / pow2 e < 2 ^ 54" by (simp add: pow2_add pos_divide_less_eq) (simp add: pow2_def)
  define e' where "e' = (if x / pow2 e \<ge> 2 ^ 53 then e + 1 else e)"
  have half: "x / pow2 (e + 1) = x / pow2 e / 2" by (simp add: pow2_add) (simp add: pow2_def)
  have "double x = of_int (round_even (x / pow2 e')) * pow2 e'"
    by (simp add: double_def q e_def e'_def Let_def)
  moreover have "2 ^ 52 \<le> x / pow2 e'" "x / pow2 e' < 2 ^ 53"
    using lo hi by (auto simp: e'_def half)
  ultimately show thesis by (rule that)
qed

lemma pow2_mono: "a \<le> b \<Longrightarrow> pow2 a \<le> pow2 b"
  by (simp add: pow2_def power_int_increasing)

lemma double_mono:
  assumes "0 < x" and "x \<le> y"
  shows "double x \<le> double y"
proof -
  obtain e where e: "double x = of_int (round_even (x / pow2 e)) * pow2 e" "2 ^ 52 \<le> x / pow2 e" "x / pow2 e < 2 ^ 53"
    using double_norm[OF assms(1)] .
  obtain f where f: "double y = of_int (round_even (y / pow2 f)) * pow2 f" "2 ^ 52 \<le> y / pow2 f" "y / pow2 f < 2 ^ 53"
    using double_norm[of y] assms by auto
  have "pow2 (52 + e) \<le> x" "y < pow2 (53 + f)"
    using e(2) f(3) by (simp_all add: pow2_add pos_le_divide_eq pos_divide_less_eq) (simp_all add: pow2_def)
  then have "pow2 (52 + e) < pow2 (53 + f)" using assms(2) by linarith
  then have "e \<le> f" using pow2_mono[of "53 + f" "52 + e"] by linarith
  show ?thesis
  proof (cases "e = f")
    case True
    have "x / pow2 f \<le> y / pow2 f" using assms(2) by (simp add: divide_right_mono less_imp_le)
    then have "(of_int (round_even (x / pow2 f)) :: rat) \<le> of_int (round_even (y / pow2 f))"
      using round_even_mono by simp
    then show ?thesis unfolding e(1) f(1) True by (intro mult_right_mono) (simp_all add: less_imp_le)
  next
    case False
    have "round_even (x / pow2 e) \<le> 2 ^ 53" using round_even_mono[of "x / pow2 e" "of_int (2 ^ 53)"] e(3)
      by (simp only: round_even_int) simp
    then have "(of_int (round_even (x / pow2 e)) :: rat) \<le> of_int (2 ^ 53)" by (simp only: of_int_le_iff)
    then have "double x \<le> of_int (2 ^ 53) * pow2 e" unfolding e(1) by (intro mult_right_mono) (simp_all add: less_imp_le)
    also have "\<dots> = of_int (2 ^ 52) * pow2 (e + 1)" by (simp add: pow2_add) (simp add: pow2_def)
    also have "\<dots> \<le> of_int (2 ^ 52) * pow2 f" using \<open>e \<le> f\<close> False by (intro mult_left_mono pow2_mono) auto
    also have "\<dots> \<le> of_int (round_even (y / pow2 f)) * pow2 f"
    proof (intro mult_right_mono)
      have "2 ^ 52 \<le> round_even (y / pow2 f)" using round_even_mono[of "of_int (2 ^ 52)" "y / pow2 f"] f(2)
        by (simp only: round_even_int) simp
      then show "(of_int (2 ^ 52) :: rat) \<le> of_int (round_even (y / pow2 f))" by (simp only: of_int_le_iff)
    qed (simp add: less_imp_le)
    finally show ?thesis unfolding f(1) .
  qed
qed

lemma pow2_of_nat: "pow2 (int m) = 2 ^ m" "pow2 (- int m) = 1 / 2 ^ m"
  by (simp_all add: pow2_def power_int_minus field_simps)

text \<open>A fraction of a power of two with a numerator of at most 53 bits is a \<open>double\<close>.\<close>

lemma double_exact:
  assumes "0 < n" and "n < 2 ^ 53"
  shows "double (of_int n / 2 ^ m) = of_int n / 2 ^ m"
proof -
  let ?x = "of_int n / 2 ^ m :: rat"
  have "0 < ?x" using assms(1) by simp
  then obtain e where e: "double ?x = of_int (round_even (?x / pow2 e)) * pow2 e" "2 ^ 52 \<le> ?x / pow2 e"
    using double_norm by metis
  have q: "?x / pow2 e = of_int n / pow2 (int m + e)" by (simp add: pow2_add pow2_of_nat)
  have "int m + e \<le> 0"
  proof (rule ccontr)
    assume "\<not> int m + e \<le> 0"
    then have "pow2 1 \<le> pow2 (int m + e)" by (intro pow2_mono) simp
    then have "2 \<le> pow2 (int m + e)" by (simp add: pow2_def)
    then have "(of_int n :: rat) / pow2 (int m + e) \<le> of_int n / 2" using assms(1) by (intro divide_left_mono) auto
    moreover have "(of_int n :: rat) < of_int (2 ^ 53)" using assms(2) by (simp only: of_int_less_iff)
    moreover have "(of_int (2 ^ 53) :: rat) = 2 * 2 ^ 52" by simp
    ultimately show False using e(2) unfolding q by linarith
  qed
  then obtain i where "int m + e = - int i" by (metis nonpos_int_cases)
  then have "?x / pow2 e = of_int (n * 2 ^ i)" unfolding q by (simp add: pow2_of_nat)
  then have "of_int (round_even (?x / pow2 e)) = ?x / pow2 e" by (simp only: round_even_int)
  then show ?thesis unfolding e(1) by simp
qed

lemma double_int: "0 \<le> n \<Longrightarrow> n < 2 ^ 53 \<Longrightarrow> double (of_int n) = of_int n"
  using double_exact[of n 0] by (cases "n = 0") (simp_all add: double_0)

lemma double_less: "0 < x \<Longrightarrow> double x < double y \<Longrightarrow> 0 < y \<Longrightarrow> x < y"
  using double_mono[of y x] by linarith

subsection \<open>The ranks that are looked for\<close>

lemma double_pos: "0 < x \<Longrightarrow> 0 < double x"
proof -
  assume "0 < x"
  then have "0 < x * (1 - 1 / 2 ^ 53)" by simp
  then show ?thesis using double_bounds(1)[OF \<open>0 < x\<close>] by linarith
qed

lemma next_quantile_rank_mono:
  assumes "0 < siz" and "0 < nq"
  shows "mono (next_quantile_rank siz nq)"
proof (rule monoI)
  fix i j :: nat assume ij: "i \<le> j"
  have s: "0 < double (of_int siz)" "0 < double (of_int nq)" using assms by (simp_all add: double_pos)
  have p: "0 < of_nat (i + 1) * double (of_int siz)" using s(1) by simp
  have "of_nat (i + 1) * double (of_int siz) \<le> of_nat (j + 1) * double (of_int siz)"
    using s(1) ij by (intro mult_right_mono) simp_all
  then have "double (of_nat (i + 1) * double (of_int siz)) \<le> double (of_nat (j + 1) * double (of_int siz))"
    by (rule double_mono[OF p])
  then have "double (of_nat (i + 1) * double (of_int siz)) / double (of_int nq) \<le> double (of_nat (j + 1) * double (of_int siz)) / double (of_int nq)"
    using s(2) by (intro divide_right_mono) simp_all
  then have "double (double (of_nat (i + 1) * double (of_int siz)) / double (of_int nq)) \<le>
      double (double (of_nat (j + 1) * double (of_int siz)) / double (of_int nq))"
    by (intro double_mono divide_pos_pos double_pos p s(2))
  then show "next_quantile_rank siz nq i \<le> next_quantile_rank siz nq j"
    unfolding next_quantile_rank_def by (rule ceiling_mono)
qed

lemma next_quantile_rank_pos:
  assumes "0 < siz" and "0 < nq"
  shows "0 < next_quantile_rank siz nq j"
proof -
  have "0 < of_nat (j + 1) * double (of_int siz)" using assms by (simp add: double_pos)
  then show ?thesis unfolding next_quantile_rank_def zero_less_ceiling
    using assms(2) by (intro double_pos divide_pos_pos) simp_all
qed

text \<open>As long as the products fit into 53 bits the rounding has no influence.\<close>

lemma ceiling_double_fraction:
  assumes "0 < a" "a < 2 ^ 53" and "0 < n"
  shows "\<lceil>double (of_int a / of_int n)\<rceil> = \<lceil>of_int a / of_int n :: rat\<rceil>"
proof -
  let ?x = "of_int a / of_int n :: rat" and ?c = "\<lceil>of_int a / of_int n :: rat\<rceil>"
  have x: "0 < ?x" using assms by simp
  have c: "of_int ?c - 1 < ?x" "?x \<le> of_int ?c" using ceiling_correct[of ?x] by auto
  have "?x \<le> of_int a" using assms by (simp add: pos_divide_le_eq mult_le_cancel_left1)
  then have "?c \<le> a" by (rule ceiling_le)
  then have "?c < 2 ^ 53" using assms(2) by linarith
  moreover have "0 \<le> ?c" using c(2) x by linarith
  ultimately have "double ?x \<le> of_int ?c" using double_mono[OF x c(2)] by (simp add: double_int)
  moreover have "of_int ?c - 1 < double ?x"
  proof -
    have "(of_int ?c - 1) * of_int n < (of_int a :: rat)" using c(1) assms(3) by (simp add: pos_less_divide_eq)
    then have "(of_int ((?c - 1) * n) :: rat) < of_int a" by simp
    then have "(?c - 1) * n + 1 \<le> a" unfolding of_int_less_iff by linarith
    then have "(of_int ((?c - 1) * n + 1) :: rat) \<le> of_int a" by (simp only: of_int_le_iff)
    then have "of_int ((?c - 1) * n + 1) / of_int n \<le> ?x" using assms(3) by (intro divide_right_mono) simp_all
    then have "of_int ?c - 1 + 1 / of_int n \<le> ?x" using assms(3) by (simp add: add_divide_distrib)
    moreover have "?x * (1 / 2 ^ 53) < 1 / of_int n"
    proof -
      have "(of_int a :: rat) < of_int (2 ^ 53)" using assms(2) by (simp only: of_int_less_iff)
      then show ?thesis using assms(3) by (simp add: field_simps)
    qed
    moreover have "?x - ?x * (1 / 2 ^ 53) \<le> double ?x" using double_bounds(1)[OF x] by (simp only: right_diff_distrib mult_1_right)
    ultimately show ?thesis by linarith
  qed
  ultimately show ?thesis by (intro ceiling_unique) simp_all
qed

lemma next_quantile_rank_exact:
  assumes "0 < siz" "0 < nq" and "nq * siz < 2 ^ 53" and "int j < nq"
  shows "next_quantile_rank siz nq j = \<lceil>of_int ((int j + 1) * siz) / of_int nq :: rat\<rceil>" and "next_quantile_rank siz nq j \<le> siz"
proof -
  have le: "(int j + 1) * siz \<le> nq * siz" using assms by (intro mult_right_mono) simp_all
  have "1 * siz \<le> nq * siz" "nq * 1 \<le> nq * siz" using assms by (intro mult_right_mono mult_left_mono; simp)+
  then have "double (of_int siz) = of_int siz" "double (of_int nq) = of_int nq"
    using assms by (intro double_int; linarith)+
  moreover have pos: "0 < (int j + 1) * siz" using assms by simp
  then have "double (of_int ((int j + 1) * siz)) = of_int ((int j + 1) * siz)" using le assms(3) by (intro double_int) linarith+
  ultimately have "next_quantile_rank siz nq j = \<lceil>double (of_int ((int j + 1) * siz) / of_int nq)\<rceil>"
    by (simp add: next_quantile_rank_def add.commute)
  then show e: "next_quantile_rank siz nq j = \<lceil>of_int ((int j + 1) * siz) / of_int nq :: rat\<rceil>"
    using ceiling_double_fraction[OF pos _ assms(2)] le assms(3) by simp
  have "(of_int ((int j + 1) * siz) :: rat) \<le> of_int (nq * siz)" using le by (simp only: of_int_le_iff)
  then show "next_quantile_rank siz nq j \<le> siz" unfolding e ceiling_le_iff using assms(2) by (simp add: pos_divide_le_eq mult.commute)
qed

subsection \<open>The number and the size of the buffers\<close>

lemma find_b_ge: "c \<le> find_b target c"
proof (induction target c rule: find_b.induct)
  case (1 target c)
  then show ?case by (cases "double (b_term c) < target") (simp_all add: find_b.simps[of target c])
qed

lemma find_b_before: "find_b target c = Suc d \<Longrightarrow> d \<ge> c \<Longrightarrow> double (b_term d) < target"
proof (induction target c rule: find_b.induct)
  case (1 target c)
  show ?case
  proof (cases "double (b_term c) < target")
    case True
    then have "find_b target (c + 1) = Suc d" using 1(2) by (simp add: find_b.simps[of target c])
    then show ?thesis using True 1(1,3) by (cases "d = c") auto
  next
    case False
    then show ?thesis using 1(2,3) by (simp add: find_b.simps[of target c])
  qed
qed

definition fits :: "rat \<Rightarrow> int \<Rightarrow> nat \<Rightarrow> bool" where
  "fits eps siz b \<longleftrightarrow> 0 < b \<and> (b = 1 \<or> of_nat ((b - 2) * 2 ^ (b - 2) + 1) < eps * of_int siz)"

lemma find_b_fits:
  assumes "0 \<le> eps" and "0 < siz" "siz < 2 ^ 53"
  shows "fits eps siz (find_b (double (eps * double (of_int siz))) 2 - 1)"
proof -
  let ?t = "double (eps * double (of_int siz))"
  have s: "double (of_int siz) = of_int siz" using assms by (simp add: double_int)
  obtain b where b: "find_b ?t 2 = Suc b" "1 \<le> b" using find_b_ge[of 2 ?t] by (cases "find_b ?t 2") auto
  show ?thesis
  proof (cases "b = 1")
    case True
    then show ?thesis using b(1) by (simp add: fits_def)
  next
    case False
    then have less: "double (b_term b) < ?t" using find_b_before[OF b(1)] b(2) by simp
    have p: "0 < b_term b" by (simp add: b_term_def add_pos_nonneg)
    then have "0 < ?t" using less double_pos[OF p] by linarith
    then have "eps \<noteq> 0" by (auto simp: double_0)
    then have "0 < eps * double (of_int siz)" using assms by (simp add: s)
    from double_less[OF p less this] show ?thesis using b by (simp add: fits_def b_term_def s)
  qed
qed

lemma fits_power:
  assumes "fits eps siz b" and "eps \<le> 1" and "0 < siz" "siz < 2 ^ 51"
  shows "2 ^ (b - 1) < (2 ^ 52 :: int)"
proof (cases "b \<le> 2")
  case True
  then have "b - 1 = 0 \<or> b - 1 = 1" by arith
  then show ?thesis by auto
next
  case False
  have "(2::nat) ^ (b - 2) * 1 \<le> 2 ^ (b - 2) * (b - 2)" using False by (intro mult_le_mono2) simp
  then have "2 ^ (b - 2) \<le> (b - 2) * 2 ^ (b - 2) + 1" by (simp only: mult.commute mult_1_right)
  then have "(of_nat (2 ^ (b - 2)) :: rat) \<le> of_nat ((b - 2) * 2 ^ (b - 2) + 1)" by (simp only: of_nat_le_iff)
  also have "\<dots> < eps * of_int siz" using assms(1) False by (auto simp: fits_def)
  also have "\<dots> \<le> 1 * of_int siz" using assms(2,3) by (intro mult_right_mono) simp_all
  also have "\<dots> < of_int (2 ^ 51)" using assms(4) by (simp only: mult_1 of_int_less_iff)
  finally have "(of_nat (2 ^ (b - 2)) :: rat) < of_nat (2 ^ 51)" by simp
  then have "(2::nat) ^ (b - 2) < 2 ^ 51" by (simp only: of_nat_less_iff)
  then have "b - 2 < 51" by (rule power_less_imp_less_exp[rotated]) simp
  then show ?thesis using False by (intro power_strict_increasing) auto
qed

text \<open>Enough buffers that are large enough, and few enough for the error.\<close>

lemma determine_b_k_ok:
  assumes "determine_b_k eps siz = (b, k)" and "0 \<le> eps" "eps \<le> 1" and "0 < siz" "siz < 2 ^ 51"
  shows "fits eps siz b" and "10000 \<le> k" and "siz \<le> k * 2 ^ (b - 1)"
proof -
  let ?k = "if siz mod 2 ^ (b - 1) = 0 then \<lfloor>double (of_int siz) / 2 ^ (b - 1)\<rfloor>
            else \<lfloor>double (double (of_int siz) / 2 ^ (b - 1) + 1)\<rfloor>"
  have b: "b = find_b (double (eps * double (of_int siz))) 2 - 1" and k: "k = (if ?k < 10000 then 10000 else ?k)"
    using assms(1) unfolding determine_b_k_def Let_def by blast+
  show f: "fits eps siz b" unfolding b by (rule find_b_fits) (use assms in simp_all)
  show "10000 \<le> k" unfolding k by simp
  have s: "double (of_int siz) = of_int siz" using assms by (simp add: double_int)
  define p :: int where "p = 2 ^ (b - 1)"
  have p: "0 < p" "p < 2 ^ 52" using fits_power[OF f assms(3-5)] by (simp_all add: p_def)
  have pr: "(2 :: rat) ^ (b - 1) = of_int p" by (simp add: p_def)
  have "siz \<le> ?k * p"
  proof (cases "siz mod p = 0")
    case True
    then have "?k = siz div p" unfolding pr s p_def[symmetric] by (simp only: simp_thms if_True floor_divide_of_int_eq)
    moreover have "siz div p * p = siz" using True by (simp add: mod_eq_0_iff_dvd)
    ultimately show ?thesis by (simp only: order_refl)
  next
    case False
    have "double (of_int siz / of_int p + 1) = of_int (siz + p) / of_int p"
      using double_exact[of "siz + p" "b - 1"] assms(4,5) p unfolding pr
      by (simp add: add_divide_distrib)
    then have "?k = (siz + p) div p" using False unfolding pr s p_def[symmetric] by (simp only: simp_thms if_False floor_divide_of_int_eq)
    then have "?k = siz div p + 1" using p(1) by simp
    moreover have "siz < (siz div p + 1) * p"
      using p(1) by (metis add.commute div_mult_mod_eq distrib_right mult_1 add_strict_left_mono pos_mod_bound)
    ultimately show ?thesis by (simp only: less_imp_le)
  qed
  also have "\<dots> \<le> k * p" unfolding k using p(1) by (intro mult_right_mono) auto
  finally show "siz \<le> k * 2 ^ (b - 1)" by (simp add: p_def)
qed

end
