(* ===== verification/Approx_Quantile_Rank.thy ===== *)
theory Approx_Quantile_Rank
  imports Approx_Quantile_Proofs Approx_Rounding
begin

text \<open>
  The whole quantile computation: cutting the input into packets (the locale \<open>packet_source\<close>
  is the contract of the two ways of doing it), the loop over the blocks, the output, and the
  error guarantee.
\<close>

subsection \<open>Packets\<close>

definition opt :: "int list option \<Rightarrow> int list" where
  "opt lp = (case lp of None \<Rightarrow> [] | Some p \<Rightarrow> p)"

lemma opt_simps [simp]: "opt None = []" "opt (Some p) = p"
  by (simp_all add: opt_def)

text \<open>As many packets can be added: more would need a weight over \<open>2^(b-2)\<close>, or one that is not an \<open>int\<close>.\<close>

definition packet_limit :: "nat \<Rightarrow> nat" where
  "packet_limit b = min (2 ^ (b - 1)) (2 ^ 31)"

lemma weights_below:
  assumes "qinv b k P q" and "length P + k \<le> k * packet_limit b" and "0 < k"
  shows "(\<Sum>i < b. q_weight q ! i) < 2 ^ (b - 1)" and "(\<Sum>i < b. q_weight q ! i) < 2 ^ 31"
proof -
  let ?s = "\<Sum>i < b. q_weight q ! i"
  have "int (length P + k) \<le> int (k * packet_limit b)" using assms(2) by (simp only: of_nat_le_iff)
  moreover have "?s * int k = int (length P)" using assms(1) by (simp add: qinv_def)
  ultimately have "(?s + 1) * int k \<le> int (packet_limit b) * int k" by (simp add: algebra_simps)
  then have "?s + 1 \<le> int (packet_limit b)" using assms(3) by (simp add: mult_le_cancel_right)
  moreover have "int (packet_limit b) \<le> 2 ^ (b - 1)" "int (packet_limit b) \<le> 2 ^ 31"
    by (simp_all add: packet_limit_def of_nat_min)
  ultimately show "?s < 2 ^ (b - 1)" "?s < 2 ^ 31" by linarith+
qed

lemma packets_ok:
  assumes "qinv b k P q" and "0 < b" "0 < k" and "sorts srt" and "\<forall>p \<in> set ps. length p = k"
    and "length P + length (concat ps) \<le> k * packet_limit b"
  shows "\<exists>q' P'. for_each (\<lambda>p. add_packet b k (srt p)) ps q = (Ret (), q') \<and> qinv b k P' q' \<and> mset P' = mset (P @ concat ps)"
  using assms(1,5,6)
proof (induction ps arbitrary: P q)
  case Nil
  then show ?case by (auto simp: ret_def)
next
  case (Cons p ps)
  have p: "length (srt p) = k" "sorted (srt p)" "mset (srt p) = mset p"
    using assms(4) Cons.prems(2) sorts_length[OF assms(4), of p] by (auto simp: sorts_def)
  have "length P + k \<le> k * packet_limit b" using Cons.prems(2,3) by simp
  note w = weights_below[OF Cons.prems(1) this assms(3)]
  obtain q1 where q1: "add_packet b k (srt p) q = (Ret (), q1)" "qinv b k (P @ srt p) q1"
    using add_packet_ok[OF Cons.prems(1) assms(2) w p(2,1)] by blast
  obtain q' P' where "for_each (\<lambda>p. add_packet b k (srt p)) ps q1 = (Ret (), q')" "qinv b k P' q'"
    "mset P' = mset ((P @ srt p) @ concat ps)"
    using Cons.IH[OF q1(2)] Cons.prems(2,3) p(1) by auto
  then show ?case using q1(1) p(3) by (auto simp: seq_def bind_def)
qed

locale packet_source =
  fixes block :: "'x list \<Rightarrow> (int list list \<times> int list option \<times> 'x list) option"
    and sel :: "'x list \<Rightarrow> int list" and k :: nat
  assumes sel_Nil: "sel [] = []"
    and block_cut: "xs \<noteq> [] \<Longrightarrow> block xs = Some (ps, lp, rest) \<Longrightarrow>
      length rest < length xs \<and> (\<forall>p \<in> set ps. length p = k) \<and> mset (sel xs) = mset (concat ps @ opt lp @ sel rest) \<and>
      (lp \<noteq> None \<longrightarrow> rest = [] \<and> length (opt lp) < k)"
begin

text \<open>Whenever the loop does not fault it has put the full packets into the buffers, and the
  incomplete one is left over.\<close>

lemma loop_ok:
  assumes "qinv b k P q" and "0 < b" "0 < k" and "sorts srt" and "length P + length (sel xs) \<le> k * packet_limit b"
  shows "(\<exists>q'. quant_loop block (\<lambda>p. add_packet b k (srt p)) None xs q = (Fault, q')) \<and> (\<exists>zs. block zs = None) \<or>
     (\<exists>lp q' P'. quant_loop block (\<lambda>p. add_packet b k (srt p)) None xs q = (Ret lp, q') \<and> qinv b k P' q' \<and>
        mset (P' @ opt lp) = mset (P @ sel xs) \<and> length (opt lp) < k)"
  using assms(1,5)
proof (induction xs arbitrary: P q rule: length_induct)
  case (1 xs)
  let ?add = "\<lambda>p. add_packet b k (srt p)"
  note step = quant_loop.simps[of block ?add None xs]
  show ?case
  proof (cases "xs = []")
    case True
    then show ?thesis using 1(2) assms(3) by (subst step, subst step) (auto simp: ret_def sel_Nil)
  next
    case ne: False
    show ?thesis
    proof (cases "block xs")
      case None
      then show ?thesis using ne by (subst step) (auto simp: fault_def)
    next
      case (Some r)
      then obtain ps lp rest where b: "block xs = Some (ps, lp, rest)" by (cases r) auto
      note cut = block_cut[OF ne b]
      then have len: "length (sel xs) = length (concat ps) + length (opt lp) + length (sel rest)"
        by (metis length_append mset_eq_length add.assoc)
      obtain q1 P1 where q1: "for_each ?add ps q = (Ret (), q1)" "qinv b k P1 q1" "mset P1 = mset (P @ concat ps)"
        using packets_ok[OF 1(2) assms(2-4), of ps] cut 1(3) len by auto
      have run: "quant_loop block ?add None xs q = quant_loop block ?add lp rest q1"
        using ne cut q1(1) by (subst step) (auto simp: b seq_def bind_def)
      show ?thesis
      proof (cases lp)
        case None
        have "length P1 + length (sel rest) \<le> k * packet_limit b"
          using mset_eq_length[OF q1(3)] 1(3) len by simp
        with 1(1) q1(2) cut have "(\<exists>q'. quant_loop block ?add None rest q1 = (Fault, q')) \<and> (\<exists>zs. block zs = None) \<or>
           (\<exists>lp q' P'. quant_loop block ?add None rest q1 = (Ret lp, q') \<and> qinv b k P' q' \<and>
              mset (P' @ opt lp) = mset (P1 @ sel rest) \<and> length (opt lp) < k)" by blast
        moreover have "mset (P1 @ sel rest) = mset (P @ sel xs)" using cut q1(3) None by simp
        ultimately show ?thesis unfolding run None by simp
      next
        case (Some p)
        then have "rest = []" "length (opt lp) < k" using cut by auto
        moreover have "mset (P1 @ opt lp) = mset (P @ sel xs)" using cut q1(3) \<open>rest = []\<close> by (simp add: sel_Nil)
        ultimately show ?thesis
          unfolding run using q1(2) by (subst (1 2) quant_loop.simps) (auto simp: ret_def)
      qed
    qed
  qed
qed

end

text \<open>Without a selection.\<close>

lemma pieces_Suc:
  "map (\<lambda>tid. take k (drop (tid * k) xs)) [0..<Suc nt] = take k xs # map (\<lambda>tid. take k (drop (tid * k) (drop k xs))) [0..<nt]"
proof -
  have e: "[0..<Suc nt] = 0 # map Suc [0..<nt]" by (simp add: upt_conv_Cons map_Suc_upt del: upt_Suc)
  show ?thesis unfolding e by (simp add: add.commute)
qed

lemma fill_all_Suc:
  "fill_all (Suc nt) k xs = (case fill_all nt k (drop k xs) of (ps, lp, rest) \<Rightarrow>
     (if k \<le> length xs then (take k xs # ps, lp, rest)
      else (ps, if xs \<noteq> [] then Some xs else lp, rest)))"
  unfolding fill_all_def Let_def pieces_Suc by (auto simp: add.commute)

lemma fill_all_Nil: "0 < k \<Longrightarrow> fill_all nt k [] = ([], None, [])"
  by (auto simp: fill_all_def Let_def filter_empty_conv find_None_iff)

lemma fill_all_cut:
  assumes "0 < k" and "fill_all nt k xs = (ps, lp, rest)"
  shows "(\<forall>p \<in> set ps. length p = k) \<and> concat ps @ opt lp @ rest = xs \<and> (lp \<noteq> None \<longrightarrow> rest = [] \<and> length (opt lp) < k)"
  using assms(2)
proof (induction nt arbitrary: xs ps lp rest)
  case 0
  then show ?case by (auto simp: fill_all_def)
next
  case (Suc nt)
  obtain ps' lp' rest' where f: "fill_all nt k (drop k xs) = (ps', lp', rest')" using prod_cases3 by blast
  note IH = Suc.IH[OF f]
  show ?case
  proof (cases "k \<le> length xs")
    case True
    then have "ps = take k xs # ps'" "lp = lp'" "rest = rest'" using Suc.prems by (simp_all add: fill_all_Suc f)
    then show ?thesis using IH True by simp
  next
    case False
    then show ?thesis using Suc.prems by (auto simp: fill_all_Suc fill_all_Nil[OF assms(1)] split: if_splits)
  qed
qed

lemma fill_all_rest: "fill_all nt k xs = (ps, lp, rest) \<Longrightarrow> rest = drop (nt * k) xs"
  by (auto simp: fill_all_def Let_def)

interpretation all_packets: packet_source "\<lambda>xs. Some (fill_all (Suc nt) (Suc k') xs)" "\<lambda>xs. xs" "Suc k'" for nt k'
proof
  fix xs :: "int list" and ps lp rest
  assume "xs \<noteq> []" and "Some (fill_all (Suc nt) (Suc k') xs) = Some (ps, lp, rest)"
  then show "length rest < length xs \<and> (\<forall>p \<in> set ps. length p = Suc k') \<and> mset xs = mset (concat ps @ opt lp @ rest) \<and>
      (lp \<noteq> None \<longrightarrow> rest = [] \<and> length (opt lp) < Suc k')"
    using fill_all_cut[of "Suc k'" "Suc nt" xs ps lp rest] fill_all_rest[of "Suc nt" "Suc k'" xs ps lp rest] by auto
qed simp

text \<open>With a selection.\<close>

lemma block_sel_full:
  assumes "block_sel nt cs filled cur xs = (ps, rest)" and "\<forall>p \<in> set filled. length p = cs" and "length cur < cs"
    and "length filled \<le> nt" and "length filled = nt \<longrightarrow> cur = []"
  shows "(\<forall>p \<in> set (butlast ps). length p = cs) \<and> length (last ps) < cs \<and> ps \<noteq> [] \<and> (rest \<noteq> [] \<longrightarrow> last ps = []) \<and>
    length (butlast ps) \<le> nt"
  using assms
proof (induction nt cs filled cur xs rule: block_sel.induct)
  case (2 nt cs filled cur v c xs)
  consider "length filled = nt" | "length filled < nt" "c = 0" | "length filled < nt" "c \<noteq> 0" "length (cur @ [v]) = cs"
    | "length filled < nt" "c \<noteq> 0" "length (cur @ [v]) < cs" using 2(6,7) by fastforce
  then show ?case
  proof cases
    case 1
    then show ?thesis using 2(4-) by auto
  next
    case 2
    then show ?thesis using "2.IH"(1) "2.prems" by simp
  next
    case 3
    then have "block_sel nt cs (filled @ [cur @ [v]]) [] xs = (ps, rest)" using "2.prems"(1) by simp
    from "2.IH"(2)[OF _ 3(2,3) this] 3 "2.prems" show ?thesis by auto
  next
    case 4
    then have "block_sel nt cs filled (cur @ [v]) xs = (ps, rest)" using "2.prems"(1) by simp
    from "2.IH"(3)[OF _ 4(2) _ this] 4 "2.prems" show ?thesis by simp
  qed
qed auto

interpretation sel_packets: packet_source "fill_sel (Suc nt) (Suc k')" chosen "Suc k'" for nt k'
proof
  fix xs :: "(int \<times> int) list" and ps lp rest
  assume xs: "xs \<noteq> []" and f: "fill_sel (Suc nt) (Suc k') xs = Some (ps, lp, rest)"
  obtain qs r where b: "block_sel (Suc nt) (Suc k') [] [] xs = (qs, r)" by fastforce
  obtain pre where p: "cut_at [] [] xs qs r pre" "pre \<noteq> []" using block_sel_cut[OF b] xs by auto
  note full = block_sel_full[OF b]
  have r: "ps = butlast qs" "rest = r" "opt lp = last qs" "lp \<noteq> None \<longrightarrow> rest = []"
    using f full by (auto simp: fill_sel_def b Let_def split: if_splits)
  have "concat qs = concat (butlast qs) @ last qs"
    using full by (metis append_butlast_last_id concat.simps concat_append append_Nil2 list.size(3) zero_less_Suc le0 empty_iff list.set(1))
  then have "chosen xs = concat ps @ opt lp @ chosen rest"
    using p r by (simp add: cut_at_def chosen_def)
  then show "length rest < length xs \<and> (\<forall>p \<in> set ps. length p = Suc k') \<and> mset (chosen xs) = mset (concat ps @ opt lp @ chosen rest) \<and>
      (lp \<noteq> None \<longrightarrow> rest = [] \<and> length (opt lp) < Suc k')"
    using p r full by (auto simp: cut_at_def)
qed (simp add: chosen_def)

subsection \<open>Output\<close>

text \<open>The elements in the order in which \<open>Output\<close> visits them.\<close>

function drain :: "(int \<times> int list) list \<Rightarrow> (int \<times> int) list" where
  "drain lanes = (case scan_min 0 lanes INT_MAX (- 1) of (v, loc) \<Rightarrow>
     if loc < 0 then []
     else let lane = lanes ! nat loc in (v, fst lane) # drain (lanes[nat loc := (fst lane, tl (snd lane))]))"
  by auto
termination
  by (relation "measure lanes_size") (auto dest!: scan_min_loc[OF sym] simp: lane_at_def intro!: lanes_size_advance)

declare drain.simps [simp del]

lemma out_loop_drain: "out_loop go lanes rank jj y = map_option snd (pick_loop go (drain lanes) rank jj y)"
proof (induction go lanes rank jj y rule: out_loop.induct)
  case (1 go lanes rank jj y)
  obtain v loc where s: "scan_min 0 lanes INT_MAX (- 1) = (v, loc)" by fastforce
  show ?case
  proof (cases "loc < 0")
    case True
    then show ?thesis by (simp add: out_loop.simps[of go lanes] drain.simps[of lanes] s)
  next
    case False
    show ?thesis
      using 1[OF s[symmetric] False refl] False
      by (subst out_loop.simps, subst drain.simps) (auto simp: s Let_def split: option.splits)
  qed
qed

lemma scan_min_least:
  assumes "scan_min ii lanes v l = (v', l')"
  shows "v' \<le> v" and "(w, ys) \<in> set lanes \<Longrightarrow> w > 0 \<Longrightarrow> ys \<noteq> [] \<Longrightarrow> v' \<le> hd ys \<or> v \<le> hd ys"
  using assms
proof (induction ii lanes v l rule: scan_min.induct)
  case (2 ii w' zs lanes v l)
  { case 1 then show ?case using "2.IH"(1,3) by (cases "w' > 0 \<and> zs \<noteq> [] \<and> hd zs < v") auto
  next
    case h: 2
    show ?case
    proof (cases "w' > 0 \<and> zs \<noteq> [] \<and> hd zs < v")
      case True
      then have r: "scan_min (Suc ii) lanes (hd zs) (int ii) = (v', l')" using h(4) by simp
      then have "v' \<le> hd zs" "(w, ys) \<in> set lanes \<Longrightarrow> v' \<le> hd ys \<or> hd zs \<le> hd ys"
        using "2.IH"(1,2)[OF True] h(2,3) by auto
      then show ?thesis using h(1) by auto
    next
      case False
      then have "scan_min (Suc ii) lanes v l = (v', l')" using h(4) by (simp only: scan_min.simps if_False)
      then show ?thesis using "2.IH"(4)[OF False] h(1-3) False by auto
    qed
  }
qed simp_all

definition lane_ok :: "int \<times> int list \<Rightarrow> bool" where
  "lane_ok l \<longleftrightarrow> 0 \<le> fst l \<and> (0 < fst l \<longrightarrow> sorted (snd l) \<and> (\<forall>y \<in> set (snd l). y < INT_MAX))"

definition lanes_ok :: "(int \<times> int list) list \<Rightarrow> bool" where
  "lanes_ok lanes \<longleftrightarrow> (\<forall>l \<in> set lanes. lane_ok l)"

definition lanes_upto :: "int \<Rightarrow> (int \<times> int list) list \<Rightarrow> int" where
  "lanes_upto v lanes = sum_list (map (\<lambda>(w, ys). w * n_upto v ys) lanes)"

definition lanes_mass :: "(int \<times> int list) list \<Rightarrow> int" where
  "lanes_mass lanes = sum_list (map (\<lambda>(w, ys). w * int (length ys)) lanes)"

lemma sum_list_change:
  "n < length xs \<Longrightarrow> sum_list (map f (xs[n := x])) = sum_list (map f xs) - f (xs ! n) + (f x :: int)"
proof (induction xs arbitrary: n)
  case (Cons a xs)
  then show ?case by (cases n) auto
qed simp

lemma sum_list_zero: "(\<And>x. x \<in> set xs \<Longrightarrow> f x = (0::int)) \<Longrightarrow> sum_list (map f xs) = 0"
  by (induction xs) simp_all

text \<open>One step: the least element of all lanes is taken off its lane.\<close>

lemma drain_step:
  assumes "lanes_ok lanes" and "scan_min 0 lanes INT_MAX (- 1) = (v, loc)" and "0 \<le> loc"
  defines "lanes' \<equiv> lanes[nat loc := (fst (lanes ! nat loc), tl (snd (lanes ! nat loc)))]"
  shows "drain lanes = (v, fst (lanes ! nat loc)) # drain lanes'" and "lanes_ok lanes'" and "0 < fst (lanes ! nat loc)"
    and "lanes_upto u lanes = (if v \<le> u then fst (lanes ! nat loc) else 0) + lanes_upto u lanes'"
    and "lanes_mass lanes = fst (lanes ! nat loc) + lanes_mass lanes'"
    and "\<forall>(w, ys) \<in> set lanes. w > 0 \<longrightarrow> (\<forall>y \<in> set ys. v \<le> y)" and "lanes_size lanes' < lanes_size lanes"
proof -
  obtain n where n: "loc = int n" "lane_at lanes n v" using scan_min_loc[OF assms(2)] assms(3) by auto
  obtain w ys where l: "lanes ! n = (w, v # ys)" "n < length lanes" "0 < w"
    using n(2) by (cases "lanes ! n"; cases "snd (lanes ! n)") (auto simp: lane_at_def)
  have l': "lanes' = lanes[n := (w, ys)]" using l by (simp add: lanes'_def n(1))
  show "drain lanes = (v, fst (lanes ! nat loc)) # drain lanes'"
    using assms(3) by (subst drain.simps) (simp add: assms(2) lanes'_def Let_def)
  have "(w, v # ys) \<in> set lanes" using l(1,2) by (metis nth_mem)
  then have "lane_ok (w, v # ys)" using assms(1) by (simp add: lanes_ok_def)
  then have "lane_ok (w, ys)" by (auto simp: lane_ok_def)
  then show "lanes_ok lanes'"
    using assms(1) set_update_subset_insert[of lanes n "(w, ys)"] unfolding lanes_ok_def l' by blast
  show "0 < fst (lanes ! nat loc)" using l by (simp add: n(1))
  show "lanes_upto u lanes = (if v \<le> u then fst (lanes ! nat loc) else 0) + lanes_upto u lanes'"
    using l by (simp add: lanes_upto_def l' sum_list_change n(1) distrib_left)
  show "lanes_mass lanes = fst (lanes ! nat loc) + lanes_mass lanes'"
    using l by (simp add: lanes_mass_def l' sum_list_change n(1) distrib_left)
  show "lanes_size lanes' < lanes_size lanes" using lanes_size_advance[of n lanes w] l by (simp add: l')
  show "\<forall>(w, ys) \<in> set lanes. w > 0 \<longrightarrow> (\<forall>y \<in> set ys. v \<le> y)"
  proof safe
    fix w ys y assume y: "(w, ys) \<in> set lanes" "0 < w" "y \<in> set ys"
    then have "lane_ok (w, ys)" using assms(1) by (simp add: lanes_ok_def)
    moreover have "ys \<noteq> []" using y(3) by auto
    ultimately have s: "sorted ys" "hd ys < INT_MAX" "ys \<noteq> []" using y(2) by (auto simp: lane_ok_def)
    then have "v \<le> hd ys" using scan_min_least(2)[OF assms(2) y(1,2)] by auto
    also have "hd ys \<le> y" using s y(3) by (cases ys) auto
    finally show "v \<le> y" .
  qed
qed

lemma drain_end:
  assumes "lanes_ok lanes" and "scan_min 0 lanes INT_MAX (- 1) = (v, loc)" and "loc < 0" and "l \<in> set lanes"
  shows "fst l = 0 \<or> snd l = []"
proof (rule ccontr)
  assume "\<not> (fst l = 0 \<or> snd l = [])"
  moreover have "lane_ok l" using assms(1,4) by (simp add: lanes_ok_def)
  ultimately have l: "0 < fst l" "snd l \<noteq> []" "hd (snd l) < INT_MAX" by (auto simp: lane_ok_def)
  have "(fst l, snd l) \<in> set lanes" using assms(4) by simp
  from scan_min_least(2)[OF assms(2) this l(1,2)] have "v \<le> hd (snd l)" using l(3) by simp
  moreover have "v = INT_MAX" using scan_min_loc[OF assms(2)] assms(3) by auto
  ultimately show False using l(3) by simp
qed

definition drained :: "(int \<times> int list) list \<Rightarrow> (int \<times> int) list \<Rightarrow> bool" where
  "drained lanes ds \<longleftrightarrow> (\<forall>u. wupto u ds = lanes_upto u lanes) \<and> mass_of ds = lanes_mass lanes \<and>
     (\<forall>p \<in> set ds. 0 \<le> snd p \<and> (\<exists>l \<in> set lanes. 0 < fst l \<and> fst p \<in> set (snd l))) \<and> sorted (map fst ds)"

lemma drain_ok: "lanes_ok lanes \<Longrightarrow> drained lanes (drain lanes)"
proof (induction "lanes_size lanes" arbitrary: lanes rule: less_induct)
  case less
  obtain v loc where s: "scan_min 0 lanes INT_MAX (- 1) = (v, loc)" by fastforce
  show ?case
  proof (cases "loc < 0")
    case True
    have "drain lanes = []" using True by (subst drain.simps) (simp add: s)
    moreover have "lanes_upto u lanes = 0" "lanes_mass lanes = 0" for u
      unfolding lanes_upto_def lanes_mass_def
      by (rule sum_list_zero, use drain_end[OF less.prems s True] in \<open>force split: prod.splits\<close>)+
    ultimately show ?thesis by (simp add: drained_def)
  next
    case False
    define w lanes' where "w = fst (lanes ! nat loc)" and "lanes' = lanes[nat loc := (w, tl (snd (lanes ! nat loc)))]"
    have st: "drain lanes = (v, w) # drain lanes'" "lanes_ok lanes'" "0 < w"
      "\<And>u. lanes_upto u lanes = (if v \<le> u then w else 0) + lanes_upto u lanes'" "lanes_mass lanes = w + lanes_mass lanes'"
      "\<forall>(w, ys) \<in> set lanes. w > 0 \<longrightarrow> (\<forall>y \<in> set ys. v \<le> y)" "lanes_size lanes' < lanes_size lanes"
      using drain_step[OF less.prems s] False by (simp_all add: w_def lanes'_def)
    have IH: "drained lanes' (drain lanes')" by (rule less.hyps[OF st(7,2)])
    obtain n where n: "loc = int n" "lane_at lanes n v" using scan_min_loc[OF s] False by auto
    have at: "n < length lanes" "lanes ! n \<in> set lanes" "snd (lanes ! n) \<noteq> []" "v \<in> set (snd (lanes ! n))"
      using n(2) by (auto simp: lane_at_def)
    have sub: "\<exists>l \<in> set lanes. 0 < fst l \<and> y \<in> set (snd l)" if "l' \<in> set lanes'" "0 < fst l'" "y \<in> set (snd l')" for l' y
    proof -
      have "l' \<in> set lanes \<or> l' = (w, tl (snd (lanes ! n)))"
        using that(1) set_update_subset_insert[of lanes n] n(1) unfolding lanes'_def by auto
      then show ?thesis
      proof
        assume "l' = (w, tl (snd (lanes ! n)))"
        then have "y \<in> set (snd (lanes ! n))" using that(3) list.set_sel(2)[OF at(3)] by simp
        then show ?thesis using at(2) st(3) n(1) by (intro bexI[of _ "lanes ! n"]) (simp_all add: w_def)
      qed (use that in blast)
    qed
    have els: "0 \<le> snd p \<and> (\<exists>l \<in> set lanes. 0 < fst l \<and> fst p \<in> set (snd l))" if "p \<in> set (drain lanes)" for p
      using that IH st(3) sub at n(1) unfolding st(1) drained_def w_def by fastforce
    moreover have "v \<le> fst p" if "p \<in> set (drain lanes')" for p
      using els[of p] that st(6) unfolding st(1) by (auto 0 3)
    ultimately show ?thesis using IH st(4,5) unfolding drained_def st(1) by simp
  qed
qed

text \<open>The buffers and the last packet as lanes.\<close>

definition lanes_of :: "nat \<Rightarrow> nat \<Rightarrow> quant \<Rightarrow> int list option \<Rightarrow> (int \<times> int list) list" where
  "lanes_of b k q lp = map (\<lambda>i. (q_weight q ! i, take k (q_buffer q ! i))) [0..<b] @ (case lp of Some p \<Rightarrow> [(1, p)] | None \<Rightarrow> [])"

lemma sum_list_upt: "sum_list (map f [0..<b]) = (\<Sum>i < b. f i)"
  by (simp add: interv_sum_list_conv_sum_set_nat atLeast0LessThan)

lemma lanes_of_counts:
  assumes "qinv b k P q"
  shows "lanes_upto v (lanes_of b k q lp) = (\<Sum>i < b. q_weight q ! i * n_upto v (q_buffer q ! i)) + n_upto v (opt lp)"
    and "lanes_mass (lanes_of b k q lp) = int (length P) + int (length (opt lp))"
proof -
  have len: "length (q_buffer q ! i) = k" if "i < b" for i using assms that by (auto simp: qinv_def buf_ok_def)
  then have tk: "(\<Sum>i < b. q_weight q ! i * n_upto v (take k (q_buffer q ! i))) = (\<Sum>i < b. q_weight q ! i * n_upto v (q_buffer q ! i))"
    by (intro sum.cong) simp_all
  show "lanes_upto v (lanes_of b k q lp) = (\<Sum>i < b. q_weight q ! i * n_upto v (q_buffer q ! i)) + n_upto v (opt lp)"
    using tk by (cases lp) (simp_all add: lanes_upto_def lanes_of_def comp_def sum_list_upt)
  have "(\<Sum>i < b. q_weight q ! i * int (length (take k (q_buffer q ! i)))) = (\<Sum>i < b. q_weight q ! i) * int k"
    using len by (simp add: sum_distrib_right)
  then show "lanes_mass (lanes_of b k q lp) = int (length P) + int (length (opt lp))"
    using assms by (cases lp) (simp_all add: lanes_mass_def lanes_of_def comp_def sum_list_upt qinv_def)
qed

lemma lanes_of_member:
  assumes "qinv b k P q" and "l \<in> set (lanes_of b k q lp)" and "0 < fst l"
  shows "set (snd l) \<subseteq> set (P @ opt lp)"
proof -
  consider i where "i < b" "l = (q_weight q ! i, take k (q_buffer q ! i))" | "l = (1, opt lp)"
    using assms(2) by (auto simp: lanes_of_def split: option.splits)
  then show ?thesis
  proof cases
    case 1
    then have "set (q_buffer q ! i) \<subseteq> set P" using assms(1,3) by (simp add: qinv_def)
    then show ?thesis using 1 set_take_subset[of k "q_buffer q ! i"] by auto
  qed simp
qed

lemma lanes_of_ok:
  assumes "qinv b k P q" and "sorted (opt lp)" and "\<forall>v \<in> set (P @ opt lp). v < INT_MAX"
  shows "lanes_ok (lanes_of b k q lp)"
  unfolding lanes_ok_def lane_ok_def
proof (intro ballI conjI impI)
  fix l assume l: "l \<in> set (lanes_of b k q lp)"
  then consider i where "i < b" "l = (q_weight q ! i, take k (q_buffer q ! i))" | "l = (1, opt lp)"
    by (auto simp: lanes_of_def split: option.splits)
  note cs = this
  show "0 \<le> fst l" using cs weight_nonneg[OF assms(1)] by cases simp_all
  assume pos: "0 < fst l"
  show "sorted (snd l)" using cs
  proof cases
    case 1
    then have "sorted (q_buffer q ! i)" using assms(1) pos by (auto simp: qinv_def buf_ok_def)
    then show ?thesis using 1 by (simp add: sorted_wrt_take)
  qed (use assms(2) in simp)
  fix y assume "y \<in> set (snd l)"
  then have "y \<in> set (P @ opt lp)" using lanes_of_member[OF assms(1) l pos] by blast
  then show "y < INT_MAX" using assms(3) by blast
qed

text \<open>The error of all buffers.\<close>

lemma sum_werr:
  assumes "qinv b k P q" and "length P \<le> k * 2 ^ (b - 1)" and "0 < k" "0 < b"
  shows "(\<Sum>i < b. werr (q_weight q ! i)) \<le> int ((b - 2) * 2 ^ (b - 2))"
proof -
  let ?s = "\<Sum>i < b. q_weight q ! i"
  have one: "2 * werr (q_weight q ! i) \<le> int (b - 2) * q_weight q ! i" if "i < b" for i
  proof -
    have "buf_ok b k (q_weight q ! i) (q_buffer q ! i)" using assms(1) that by (simp add: qinv_def)
    then consider "q_weight q ! i = 0" | L where "L \<le> b - 2" "q_weight q ! i = 2 ^ L" by (auto simp: buf_ok_def)
    then show ?thesis
    proof cases
      case 2
      then have "int L * 2 ^ L \<le> int (b - 2) * 2 ^ L" by (intro mult_right_mono) simp_all
      then show ?thesis using 2 by (simp add: werr_power)
    qed (simp add: werr_simps)
  qed
  have "?s * int k \<le> 2 ^ (b - 1) * int k"
    using assms(1,2) by (metis (no_types, lifting) qinv_def mult.commute of_nat_le_iff of_nat_mult of_nat_numeral of_nat_power)
  then have s: "?s \<le> 2 ^ (b - 1)" using assms(3) by simp
  have "2 * (\<Sum>i < b. werr (q_weight q ! i)) = (\<Sum>i < b. 2 * werr (q_weight q ! i))" by (simp add: sum_distrib_left)
  also have "\<dots> \<le> (\<Sum>i < b. int (b - 2) * q_weight q ! i)" using one by (intro sum_mono) simp
  also have "\<dots> = int (b - 2) * ?s" by (simp add: sum_distrib_left)
  also have "\<dots> \<le> int (b - 2) * 2 ^ (b - 1)" using s by (intro mult_left_mono) simp_all
  also have "\<dots> = 2 * int ((b - 2) * 2 ^ (b - 2))"
  proof (cases "b \<le> 2")
    case False
    then have "b - 1 = Suc (b - 2)" by simp
    then show ?thesis by simp
  qed simp
  finally show ?thesis by simp
qed

text \<open>Output returns elements of the input whose rank is close to the rank asked for.\<close>

definition near_rank :: "int list \<Rightarrow> int \<Rightarrow> rat \<Rightarrow> int \<Rightarrow> bool" where
  "near_rank xs r err v \<longleftrightarrow> v \<in> set xs \<and>
     of_int r - err \<le> of_int (n_upto v xs) \<and> of_int (n_upto (v - 1) xs) < of_int r + err"

definition near_ranks :: "int list \<Rightarrow> (nat \<Rightarrow> int) \<Rightarrow> nat \<Rightarrow> int \<Rightarrow> int list \<Rightarrow> bool" where
  "near_ranks xs pos N E out \<longleftrightarrow> (\<forall>j < N. pos j \<le> int (length xs) \<longrightarrow>
     out ! j \<in> set xs \<and> pos j - E \<le> n_upto (out ! j) xs \<and> n_upto (out ! j - 1) xs < pos j + E)"

lemma Output_ok:
  assumes q: "qinv b k P q" and lp: "sorted (opt lp)" "length (opt lp) \<le> k" and small: "\<forall>v \<in> set (P @ opt lp). v < INT_MAX"
    and nq: "0 < nq" "nq \<le> int (length y)" and siz: "0 < siz"
  shows "\<exists>out. Output q lp siz nq y b k = Ret out \<and> length out = length y \<and>
    near_ranks (P @ opt lp) (next_quantile_rank siz nq) (nat nq) (\<Sum>i < b. werr (q_weight q ! i)) out"
proof -
  define pos E ds N where "pos = next_quantile_rank siz nq" and "E = (\<Sum>i < b. werr (q_weight q ! i))"
    and "ds = drain (lanes_of b k q lp)" and "N = nat nq"
  define go where "go = (\<lambda>rank jj. rank \<ge> next_quantile_rank siz nq jj \<and> int jj < nq)"
  have mono: "mono pos" unfolding pos_def by (rule next_quantile_rank_mono[OF siz nq(1)])
  have go: "go K j \<longleftrightarrow> j < N \<and> pos j \<le> K" for K j by (auto simp: go_def N_def pos_def)
  have N: "N \<le> length y" using nq by (simp add: N_def)
  have dr: "drained (lanes_of b k q lp) ds" unfolding ds_def by (rule drain_ok[OF lanes_of_ok[OF q lp(1) small]])
  then have ds: "sorted (map fst ds)" "\<forall>p \<in> set ds. 0 \<le> snd p" "mass_of ds = int (length (P @ opt lp))"
    "\<And>u. wupto u ds = (\<Sum>i < b. q_weight q ! i * n_upto u (q_buffer q ! i)) + n_upto u (opt lp)"
    by (simp_all add: drained_def lanes_of_counts[OF q])
  have "0 < pos 0" unfolding pos_def by (rule next_quantile_rank_pos[OF siz nq(1)])
  then have "\<exists>jj out. pick_loop go ds (mass_of []) 0 y = Some (jj, out) \<and> length out = length y \<and> jj \<le> N \<and>
     (jj < N \<longrightarrow> mass_of ds < pos jj) \<and> ranked pos ds jj out"
    by (intro pick_loop_ok[where pos = pos and whole = ds and N = N] go mono N ds(1,2)) (simp_all add: ranked_def)
  then obtain jj out where r: "pick_loop go ds 0 0 y = Some (jj, out)" "length out = length y" "jj \<le> N"
    "jj < N \<longrightarrow> mass_of ds < pos jj" "ranked pos ds jj out" by auto
  have err: "\<bar>wupto u ds - n_upto u (P @ opt lp)\<bar> \<le> E" for u
    using q unfolding ds(4) by (simp add: qinv_def E_def)
  have mem: "fst p \<in> set (P @ opt lp)" if "p \<in> set ds" for p
    using dr that lanes_of_member[OF q] unfolding drained_def by blast
  have "near_ranks (P @ opt lp) pos N E out"
    unfolding near_ranks_def
  proof (intro allI impI)
    fix j assume j: "j < N" "pos j \<le> int (length (P @ opt lp))"
    have "j < jj"
    proof (rule ccontr)
      assume "\<not> j < jj"
      then have "pos jj \<le> pos j" "jj < N" using j(1) by (auto intro: monoD[OF mono])
      then show False using r(4) j(2) ds(3) by simp
    qed
    then have at: "out ! j \<le> v \<longleftrightarrow> pos j \<le> wupto v ds" for v using r(5) by (simp add: ranked_def)
    have "out ! j \<in> set (P @ opt lp)" using ranked_mem[OF r(5) \<open>j < jj\<close>] mem by fastforce
    moreover have "pos j - E \<le> n_upto (out ! j) (P @ opt lp)" using at[of "out ! j"] err[of "out ! j"] by linarith
    moreover have "n_upto (out ! j - 1) (P @ opt lp) < pos j + E" using at[of "out ! j - 1"] err[of "out ! j - 1"] by linarith
    ultimately show "out ! j \<in> set (P @ opt lp) \<and> pos j - E \<le> n_upto (out ! j) (P @ opt lp) \<and> n_upto (out ! j - 1) (P @ opt lp) < pos j + E"
      by blast
  qed
  moreover have "Output q lp siz nq y b k = Ret out"
  proof -
    have "length (q_buffer q) = b" "length (q_weight q) = b" "\<forall>i < b. length (q_buffer q ! i) = k"
      using q by (auto simp: qinv_def buf_ok_def)
    moreover have "out_loop go (lanes_of b k q lp) 0 0 y = Some out"
      using r(1) by (simp add: out_loop_drain ds_def)
    ultimately show ?thesis using lp(2)
      by (cases lp) (simp_all add: Output_def go_def lanes_of_def)
  qed
  ultimately show ?thesis using r(2) by (auto simp: pos_def N_def E_def)
qed

end
