(* ===== verification/Approx_Quantile_Spec.thy ===== *)
theory Approx_Quantile_Spec
  imports Approx_Quantile_Rank
begin

text \<open>
  What \<open>approx_quantile\<close> promises: the status on every input, the error of the quantiles, and the
  read outside an array for some selections.
\<close>

lemma near_ranks_mset:
  assumes "mset xs = mset zs" and "near_ranks xs pos N E out"
  shows "near_ranks zs pos N E out"
proof -
  have "set xs = set zs" using assms(1) by (rule mset_eq_setD)
  moreover have "length xs = length zs" using assms(1) by (rule mset_eq_length)
  ultimately show ?thesis using assms(2) n_upto_mset[OF assms(1)] by (simp add: near_ranks_def)
qed

lemma fit_threads_ends: "0 < nt \<Longrightarrow> (b + 1 + 10) * k \<le> MAX_SZ \<Longrightarrow> \<exists>nt'. fit_threads b k nt = Some (Suc nt')"
proof (induction b k nt rule: fit_threads.induct)
  case (1 b k nt)
  show ?case
  proof (cases "(b + int nt + 10) * k > MAX_SZ")
    case True
    then have "nt \<noteq> 1" using 1(3) by auto
    then have "0 < nt div 2" using 1(2) by linarith
    then show ?thesis using 1 True by (simp add: fit_threads.simps[of b k nt])
  next
    case False
    then show ?thesis using 1(2) by (cases nt) (simp_all add: fit_threads.simps[of b k])
  qed
qed

text \<open>With a selection the loop faults when the last block is exactly full and ends at the last element.\<close>

lemma block_sel_stops:
  assumes "block_sel nt k filled cur xs = (ps, rest)" and "rest \<noteq> []" and "length filled \<le> nt"
  shows "length (butlast ps) = nt"
  using assms
proof (induction nt k filled cur xs rule: block_sel.induct)
  case (2 nt k filled cur v c xs)
  consider "length filled = nt" | "length filled < nt" "c = 0" | "length filled < nt" "c \<noteq> 0" "length (cur @ [v]) = k"
    | "length filled < nt" "c \<noteq> 0" "length (cur @ [v]) \<noteq> k" using "2.prems"(3) by fastforce
  then show ?case
  proof cases
    case 1
    then show ?thesis using "2.prems"(1) by auto
  next
    case 2
    then show ?thesis using "2.IH"(1) "2.prems" by simp
  next
    case 3
    then have "block_sel nt k (filled @ [cur @ [v]]) [] xs = (ps, rest)" using "2.prems"(1) by simp
    from "2.IH"(2)[OF _ 3(2,3) this "2.prems"(2)] 3 show ?thesis by simp
  next
    case 4
    then have "block_sel nt k filled (cur @ [v]) xs = (ps, rest)" using "2.prems"(1) by simp
    from "2.IH"(3)[OF _ 4(2,3) this "2.prems"(2)] 4 show ?thesis by simp
  qed
qed simp

lemma block_sel_ends:
  assumes "block_sel nt k filled cur xs = (ps, [])" and "length (butlast ps) = nt" and "length filled < nt"
  shows "xs \<noteq> [] \<and> snd (last xs) \<noteq> 0 \<and> last ps = []"
  using assms
proof (induction nt k filled cur xs rule: block_sel.induct)
  case (2 nt k filled cur v c xs)
  consider "c = 0" | "c \<noteq> 0" "length (cur @ [v]) = k" | "c \<noteq> 0" "length (cur @ [v]) \<noteq> k" by fastforce
  then show ?case
  proof cases
    case 1
    then show ?thesis using "2.IH"(1) "2.prems" by simp
  next
    case 2
    then have b: "block_sel nt k (filled @ [cur @ [v]]) [] xs = (ps, [])" using "2.prems"(1,3) by simp
    show ?thesis
    proof (cases "length (filled @ [cur @ [v]]) < nt")
      case True
      then show ?thesis using "2.IH"(2)[OF _ 2 b "2.prems"(2)] "2.prems"(3) by simp
    next
      case False
      then have "xs = []" using b "2.prems"(3) by (cases xs) (auto split: if_splits)
      then show ?thesis using 2 b by auto
    qed
  next
    case 3
    then have b: "block_sel nt k filled (cur @ [v]) xs = (ps, [])" using "2.prems"(1,3) by simp
    then show ?thesis using "2.IH"(3)[OF _ 3 b "2.prems"(2)] "2.prems"(3) by simp
  qed
qed auto

lemma last_chosen: "xs \<noteq> [] \<Longrightarrow> snd (last xs) \<noteq> 0 \<Longrightarrow> chosen xs \<noteq> []"
  by (induction xs) (auto simp: chosen_def split: if_splits)

definition ends_full :: "nat \<Rightarrow> nat \<Rightarrow> (int \<times> int) list \<Rightarrow> bool" where
  "ends_full nt k xs \<longleftrightarrow> xs \<noteq> [] \<and> snd (last xs) \<noteq> 0 \<and> nt * k dvd length (chosen xs)"

lemma fill_sel_step:
  fixes xs :: "(int \<times> int) list"
  assumes "xs \<noteq> []"
  shows "(case fill_sel (Suc nt) (Suc k') xs of
      None \<Rightarrow> ends_full (Suc nt) (Suc k') xs
    | Some (ps, lp, rest) \<Rightarrow> if rest = [] then \<not> ends_full (Suc nt) (Suc k') xs
        else ends_full (Suc nt) (Suc k') xs = ends_full (Suc nt) (Suc k') rest)"
proof -
  let ?m = "Suc nt * Suc k'"
  obtain ps rest where b: "block_sel (Suc nt) (Suc k') [] [] xs = (ps, rest)" by fastforce
  obtain pre where p: "cut_at [] [] xs ps rest pre" using block_sel_cut[OF b] assms by auto
  have f: "\<forall>p \<in> set (butlast ps). length p = Suc k'" "length (last ps) < Suc k'" "ps \<noteq> []"
    "rest \<noteq> [] \<longrightarrow> last ps = []" "length (butlast ps) \<le> Suc nt" using block_sel_full[OF b] by auto
  have "concat ps = concat (butlast ps) @ last ps"
    using append_butlast_last_id[OF f(3)] by (metis append_Nil2 concat.simps concat_append)
  then have "length (concat ps) = sum_list (map length (butlast ps)) + length (last ps)" by (simp add: length_concat)
  also have "map length (butlast ps) = map (\<lambda>_. Suc k') (butlast ps)" using f(1) by simp
  finally have sz: "length (concat ps) = length (butlast ps) * Suc k' + length (last ps)" by (simp only: sum_list_triv of_nat_id)
  have ch: "length (chosen xs) = length (concat ps) + length (chosen rest)" and xs: "xs = pre @ rest"
    using p by (auto simp: cut_at_def chosen_def)
  show ?thesis
  proof (cases "rest = []")
    case True
    show ?thesis
    proof (cases "length (butlast ps) = Suc nt")
      case full: True
      have e: "xs \<noteq> [] \<and> snd (last xs) \<noteq> 0 \<and> last ps = []" using block_sel_ends[OF b[unfolded True] full] by simp
      then have "length (chosen xs) = ?m" using ch sz full True by (simp add: chosen_def)
      then show ?thesis using e True b full by (simp add: fill_sel_def ends_full_def)
    next
      case False
      then have "length (butlast ps) * Suc k' \<le> nt * Suc k'" using f(5) by (intro mult_le_mono1) simp
      then have "length (chosen xs) < ?m" using ch sz f(2) True by (simp add: chosen_def)
      then have "?m dvd length (chosen xs) \<Longrightarrow> chosen xs = []" by (metis dvd_imp_le length_0_conv linorder_not_le neq0_conv)
      then have "\<not> ends_full (Suc nt) (Suc k') xs" using last_chosen[of xs] unfolding ends_full_def by blast
      then show ?thesis using False True b by (simp add: fill_sel_def Let_def)
    qed
  next
    case False
    then have "length (chosen xs) = ?m + length (chosen rest)"
      using ch sz block_sel_stops[OF b False] f(4) by simp
    then have "?m dvd length (chosen xs) \<longleftrightarrow> ?m dvd length (chosen rest)" by (simp only: dvd_add_triv_left_iff)
    then show ?thesis using False b xs by (simp add: fill_sel_def ends_full_def Let_def)
  qed
qed

lemma sel_loop_faults:
  assumes "0 < b" and "sorts srt" and "qinv b (Suc k') P q" and "length P + length (chosen xs) \<le> Suc k' * packet_limit b"
  shows "fst (quant_loop (fill_sel (Suc nt) (Suc k')) (\<lambda>p. add_packet b (Suc k') (srt p)) lp xs q) = Fault \<longleftrightarrow> ends_full (Suc nt) (Suc k') xs"
  using assms(3,4)
proof (induction xs arbitrary: P q lp rule: length_induct)
  case (1 xs)
  let ?add = "\<lambda>p. add_packet b (Suc k') (srt p)" and ?block = "fill_sel (Suc nt) (Suc k')"
  note step = quant_loop.simps[of ?block ?add lp xs]
  show ?case
  proof (cases "xs = []")
    case True
    then show ?thesis by (subst step) (simp add: ret_def ends_full_def)
  next
    case ne: False
    note fs = fill_sel_step[OF ne, of nt k']
    show ?thesis
    proof (cases "?block xs")
      case None
      then show ?thesis using ne fs by (subst step) (simp add: fault_def)
    next
      case (Some r)
      then obtain ps lp' rest where b: "?block xs = Some (ps, lp', rest)" by (cases r) auto
      note cut = sel_packets.block_cut[OF ne b]
      then have len: "length (chosen xs) = length (concat ps) + length (opt lp') + length (chosen rest)"
        by (metis length_append mset_eq_length add.assoc)
      obtain q1 P1 where q1: "for_each ?add ps q = (Ret (), q1)" "qinv b (Suc k') P1 q1" "mset P1 = mset (P @ concat ps)"
        using packets_ok[OF 1(2) assms(1) _ assms(2), of ps] cut 1(3) len by auto
      let ?lp = "if lp' = None then lp else lp'"
      have run: "quant_loop ?block ?add lp xs q = quant_loop ?block ?add ?lp rest q1"
        using ne cut q1(1) by (subst step) (auto simp: b seq_def bind_def)
      have "length P1 + length (chosen rest) \<le> Suc k' * packet_limit b" using mset_eq_length[OF q1(3)] 1(3) len by simp
      then have IH: "fst (quant_loop ?block ?add ?lp rest q1) = Fault \<longleftrightarrow> ends_full (Suc nt) (Suc k') rest"
        using 1(1) cut q1(2) by blast
      have "ends_full (Suc nt) (Suc k') xs \<longleftrightarrow> ends_full (Suc nt) (Suc k') rest"
      proof (cases "rest = []")
        case True
        then show ?thesis using fs by (simp add: b) (simp add: ends_full_def)
      next
        case False
        then show ?thesis using fs by (simp add: b)
      qed
      then show ?thesis using run IH by simp
    qed
  qed
qed

text \<open>The checks at the start.\<close>

definition bad_quantile_input :: "int list \<Rightarrow> int list option \<Rightarrow> int \<Rightarrow> rat \<Rightarrow> int \<Rightarrow> bool" where
  "bad_quantile_input x cfld num_quantiles eps y_siz \<longleftrightarrow>
     eps < 0 \<or> eps > 1 \<or> num_quantiles < 1 \<or> y_siz < num_quantiles \<or> selected x cfld = []"

definition quantile_too_big :: "rat \<Rightarrow> int \<Rightarrow> bool" where
  "quantile_too_big eps n \<longleftrightarrow> (case determine_b_k eps n of (b, k) \<Rightarrow> (int b + 1 + 10) * k > MAX_SZ)"

definition feed :: "(int list \<Rightarrow> int list) \<Rightarrow> nat \<Rightarrow> nat \<Rightarrow> nat \<Rightarrow> int list \<Rightarrow> int list option \<Rightarrow> int list option outcome \<times> quant" where
  "feed srt nt b k x cfld = (let add = (\<lambda>p. add_packet b k (srt p)) in
     case cfld of
       Some c \<Rightarrow> if int (length (selected x cfld)) = int (length x)
         then quant_loop (\<lambda>xs. Some (fill_all nt k xs)) add None x (empty_quant b k)
         else quant_loop (fill_sel nt k) add None (zip x c) (empty_quant b k)
     | None \<Rightarrow> quant_loop (\<lambda>xs. Some (fill_all nt k xs)) add None x (empty_quant b k))"

definition whole_input :: "int list \<Rightarrow> int list option \<Rightarrow> bool" where
  "whole_input x cfld \<longleftrightarrow> length (selected x cfld) = length x"

text \<open>The read outside \<open>inputPacketsUsedSiz\<close>: a proper selection that fills the packets of the last block exactly and
  ends with the last element.\<close>

definition reads_outside :: "nat \<Rightarrow> nat \<Rightarrow> int list \<Rightarrow> int list option \<Rightarrow> bool" where
  "reads_outside nt k x cfld \<longleftrightarrow> \<not> whole_input x cfld \<and> (case cfld of None \<Rightarrow> False | Some c \<Rightarrow> ends_full nt k (zip x c))"

definition overruns :: "rat \<Rightarrow> int list \<Rightarrow> int list option \<Rightarrow> bool" where
  "overruns eps x cfld \<longleftrightarrow> (case determine_b_k eps (int (length (selected x cfld))) of (b, k) \<Rightarrow>
     case fit_threads (int b) k 128 of None \<Rightarrow> False | Some nt \<Rightarrow> reads_outside nt (nat k) x cfld)"

lemma feed_ok:
  assumes "sorts srt" and "\<forall>c. cfld = Some c \<longrightarrow> length c = length x" and "0 < b"
    and "length (selected x cfld) \<le> Suc k' * packet_limit b"
  shows "reads_outside (Suc nt) (Suc k') x cfld \<and> (\<exists>q. feed srt (Suc nt) b (Suc k') x cfld = (Fault, q)) \<or>
    \<not> reads_outside (Suc nt) (Suc k') x cfld \<and> (\<exists>lp q P. feed srt (Suc nt) b (Suc k') x cfld = (Ret lp, q) \<and> qinv b (Suc k') P q \<and>
       mset (P @ opt lp) = mset (selected x cfld) \<and> length (opt lp) < Suc k')"
proof (cases "whole_input x cfld")
  case True
  then have sel: "selected x cfld = x"
  proof (cases cfld)
    case (Some c)
    then have "length c = length x" using assms(2) by blast
    then show ?thesis using True Some chosen_zip_all[of c x] chosen_zip_length[of c x]
      by (simp add: whole_input_def selected_def)
  qed (simp add: selected_def)
  then have "feed srt (Suc nt) b (Suc k') x cfld =
      quant_loop (\<lambda>xs. Some (fill_all (Suc nt) (Suc k') xs)) (\<lambda>p. add_packet b (Suc k') (srt p)) None x (empty_quant b (Suc k'))"
    by (cases cfld) (simp_all add: feed_def Let_def)
  then show ?thesis
    using all_packets.loop_ok[OF qinv_empty assms(3) _ assms(1), of k' x nt] assms(4) True unfolding sel
    by (auto simp: reads_outside_def)
next
  case False
  then obtain c where c: "cfld = Some c" by (cases cfld) (auto simp: whole_input_def selected_def)
  let ?loop = "quant_loop (fill_sel (Suc nt) (Suc k')) (\<lambda>p. add_packet b (Suc k') (srt p)) None (zip x c) (empty_quant b (Suc k'))"
  have run: "feed srt (Suc nt) b (Suc k') x cfld = ?loop" using c False by (simp add: feed_def whole_input_def)
  have room: "length [] + length (chosen (zip x c)) \<le> Suc k' * packet_limit b" using assms(4) c by (simp add: selected_def)
  have "fst ?loop = Fault \<longleftrightarrow> reads_outside (Suc nt) (Suc k') x cfld"
    using sel_loop_faults[OF assms(3,1) qinv_empty room] c False by (simp add: reads_outside_def)
  then show ?thesis
    using sel_packets.loop_ok[OF qinv_empty assms(3) _ assms(1) room, of nt] c unfolding run
    by (auto simp: selected_def)
qed

text \<open>The whole function as a decision between its outcomes.\<close>

lemma approx_quantile_unfold:
  assumes c: "\<And>c. cfld = Some c \<Longrightarrow> length c = length x" and n: "n = int (length (selected x cfld))"
    and bk: "determine_b_k eps n = (b, kk)" and pos: "0 \<le> eps \<Longrightarrow> eps \<le> 1 \<Longrightarrow> 0 < n \<Longrightarrow> 0 < b \<and> 0 < kk"
  shows "approx_quantile srt x cfld nq eps y y_siz =
    (if bad_quantile_input x cfld nq eps y_siz then Ret (- 1, - 1, y)
     else if (int b + 1 + 10) * kk > MAX_SZ then Ret (0, - 2, y)
     else case fit_threads (int b) kk 128 of None \<Rightarrow> Fault | Some nt \<Rightarrow>
       case feed srt nt b (nat kk) x cfld of
         (Fault, _) \<Rightarrow> Fault
       | (Bye, _) \<Rightarrow> Ret (- 1, - 1, y)
       | (Ret lastp, q) \<Rightarrow>
          (case Output q (map_option srt lastp) n nq y b (nat kk) of
             Fault \<Rightarrow> Fault | Bye \<Rightarrow> Ret (- 1, - 1, y) | Ret y' \<Rightarrow> Ret (0, 1, y')))"
proof -
  have e: "(case cfld of None \<Rightarrow> int (length x) | Some c \<Rightarrow> int (length (filter (\<lambda>v. v \<noteq> 0) (take (length x) c)))) = n"
    using eff_siz_selected[of cfld x] c unfolding n by blast
  have z: "x = [] \<Longrightarrow> selected x cfld = []" by (simp add: selected_def chosen_def split: option.split)
  have nz: "n = 0 \<longleftrightarrow> selected x cfld = []" by (simp add: n)
  show ?thesis
  proof (cases "bad_quantile_input x cfld nq eps y_siz")
    case True
    then consider "eps < 0 \<or> eps > 1 \<or> nq < 1 \<or> x = [] \<or> y_siz < nq"
      | "\<not> (eps < 0 \<or> eps > 1 \<or> nq < 1 \<or> x = [] \<or> y_siz < nq)" "n = 0" "cfld \<noteq> None"
      using nz by (cases cfld) (auto simp: bad_quantile_input_def selected_def)
    then show ?thesis using True by cases (simp_all only: approx_quantile_def e Let_def if_True if_False simp_thms)
  next
    case False
    then have ok: "\<not> (eps < 0 \<or> eps > 1 \<or> nq < 1 \<or> x = [] \<or> y_siz < nq)" "n \<noteq> 0" "\<not> (b \<le> 0 \<or> kk \<le> 0)"
      using nz z pos n by (auto simp: bad_quantile_input_def)
    show ?thesis
      unfolding approx_quantile_def e Let_def bk feed_def n[symmetric]
      by (simp only: ok False if_False simp_thms prod.case)
  qed
qed

text \<open>The weights are \<open>int\<close> values: there may be at most \<open>2^31\<close> packets, which holds for every input of up to
  \<open>10000 * 2^31\<close> elements, as a packet has at least 10000 elements.\<close>

definition packets_fit :: "rat \<Rightarrow> int \<Rightarrow> bool" where
  "packets_fit eps n \<longleftrightarrow> n \<le> 2 ^ 31 * snd (determine_b_k eps n)"

lemma packets_fit_small: "n \<le> 10000 * 2 ^ 31 \<Longrightarrow> packets_fit eps n"
  by (simp add: packets_fit_def determine_b_k_def Let_def)

text \<open>What happens when the input is fine and there is enough memory.\<close>

lemma approx_quantile_runs:
  assumes srt: "sorts srt" and c: "\<And>c. cfld = Some c \<Longrightarrow> length c = length x" and n: "n = int (length (selected x cfld))"
    and small: "\<forall>v \<in> set x. v < INT_MAX" and y: "y_siz \<le> int (length y)" and n51: "n < 2 ^ 51"
    and ok: "\<not> bad_quantile_input x cfld nq eps y_siz" "\<not> quantile_too_big eps n" and pf: "packets_fit eps n"
  shows "overruns eps x cfld \<and> approx_quantile srt x cfld nq eps y y_siz = Fault \<or>
    \<not> overruns eps x cfld \<and> (\<exists>out E. approx_quantile srt x cfld nq eps y y_siz = Ret (0, 1, out) \<and> length out = length y \<and> of_int E \<le> eps * of_int n \<and>
       near_ranks (selected x cfld) (next_quantile_rank n nq) (nat nq) E out)"
proof -
  obtain b kk where bk: "determine_b_k eps n = (b, kk)" by fastforce
  have eps: "0 \<le> eps" "eps \<le> 1" and nq: "0 < nq" "nq \<le> y_siz" and n0: "0 < n"
    using ok(1) by (auto simp: bad_quantile_input_def n)
  note D = determine_b_k_ok[OF bk eps n0 n51]
  have b: "0 < b" using D(1) by (simp add: fits_def)
  obtain k' where k': "nat kk = Suc k'" using D(2) by (cases "nat kk") auto
  have mem: "(int b + 1 + 10) * kk \<le> MAX_SZ" using ok(2) by (simp add: quantile_too_big_def bk)
  obtain nt where nt: "fit_threads (int b) kk 128 = Some (Suc nt)" using fit_threads_ends[OF _ mem, of 128] by auto
  have room: "length (selected x cfld) \<le> Suc k' * 2 ^ (b - 1)"
  proof -
    have "int (Suc k') = kk" using k' D(2) by linarith
    then have "int (length (selected x cfld)) \<le> int (Suc k') * 2 ^ (b - 1)" using D(3) n by simp
    then have "int (length (selected x cfld)) \<le> int (Suc k' * 2 ^ (b - 1))" by (simp only: of_nat_mult of_nat_power of_nat_numeral)
    then show ?thesis by (simp only: of_nat_le_iff)
  qed
  have "n \<le> int (Suc k' * 2 ^ 31)" using pf k' D(2) by (simp add: packets_fit_def bk mult.commute)
  then have "length (selected x cfld) \<le> Suc k' * 2 ^ 31" unfolding n by (simp only: of_nat_le_iff)
  then have limit: "length (selected x cfld) \<le> Suc k' * packet_limit b" using room by (simp add: packet_limit_def min_def)
  have run: "approx_quantile srt x cfld nq eps y y_siz = (case feed srt (Suc nt) b (Suc k') x cfld of
         (Fault, _) \<Rightarrow> Fault
       | (Bye, _) \<Rightarrow> Ret (- 1, - 1, y)
       | (Ret lastp, q) \<Rightarrow>
          (case Output q (map_option srt lastp) n nq y b (Suc k') of
             Fault \<Rightarrow> Fault | Bye \<Rightarrow> Ret (- 1, - 1, y) | Ret y' \<Rightarrow> Ret (0, 1, y')))"
    using approx_quantile_unfold[OF c n bk, of srt nq y y_siz, unfolded k'] ok(1) mem b D(2) nt by simp
  have "\<forall>c. cfld = Some c \<longrightarrow> length c = length x" using c by blast
  note fed = feed_ok[OF srt this b limit, of nt]
  have ov: "overruns eps x cfld = reads_outside (Suc nt) (Suc k') x cfld"
    using n bk nt k' by (simp add: overruns_def)
  from fed show ?thesis
  proof (elim disjE conjE exE)
    fix q assume "feed srt (Suc nt) b (Suc k') x cfld = (Fault, q)" "reads_outside (Suc nt) (Suc k') x cfld"
    then show ?thesis using run ov by simp
  next
    fix lp q P
    assume f: "feed srt (Suc nt) b (Suc k') x cfld = (Ret lp, q)" "qinv b (Suc k') P q"
      "mset (P @ opt lp) = mset (selected x cfld)" "length (opt lp) < Suc k'"
      "\<not> reads_outside (Suc nt) (Suc k') x cfld"
    define lp' where "lp' = map_option srt lp"
    have lp': "sorted (opt lp')" "mset (opt lp') = mset (opt lp)" "length (opt lp') = length (opt lp)"
      using srt sorts_length[OF srt] by (auto simp: lp'_def opt_def sorts_def split: option.splits)
    then have ms: "mset (P @ opt lp') = mset (selected x cfld)" using f(3) by simp
    have "set (selected x cfld) \<subseteq> set x" by (auto simp: selected_def chosen_def dest: set_zip_leftD split: option.splits)
    then have lim: "\<forall>v \<in> set (P @ opt lp'). v < INT_MAX" using small mset_eq_setD[OF ms] by auto
    obtain out where out: "Output q lp' n nq y b (Suc k') = Ret out" "length out = length y"
      "near_ranks (P @ opt lp') (next_quantile_rank n nq) (nat nq) (\<Sum>i < b. werr (q_weight q ! i)) out"
      using Output_ok[OF f(2) lp'(1) _ lim nq(1) _ n0, of y] f(4) lp'(3) nq(2) y by auto
    have "length P \<le> length (selected x cfld)" using mset_eq_length[OF ms] by simp
    then have "length P \<le> Suc k' * 2 ^ (b - 1)" using room by linarith
    from sum_werr[OF f(2) this _ b]
    have "(of_int (\<Sum>i < b. werr (q_weight q ! i)) :: rat) \<le> of_int (int ((b - 2) * 2 ^ (b - 2)))"
      unfolding of_int_le_iff by simp
    also have "\<dots> \<le> eps * of_int n"
    proof (cases "b = 1")
      case False
      then have "of_nat ((b - 2) * 2 ^ (b - 2) + 1) < eps * of_int n" using D(1) unfolding fits_def by blast
      moreover have "(of_int (int ((b - 2) * 2 ^ (b - 2))) :: rat) \<le> of_nat ((b - 2) * 2 ^ (b - 2) + 1)"
        by (simp only: of_int_of_nat_eq of_nat_le_iff)
      ultimately show ?thesis by linarith
    qed (use eps n0 in simp)
    finally have err: "(of_int (\<Sum>i < b. werr (q_weight q ! i)) :: rat) \<le> eps * of_int n" .
    have "approx_quantile srt x cfld nq eps y y_siz = Ret (0, 1, out)" using run f(1) out(1) by (simp add: lp'_def)
    then show ?thesis using err f(5) ov out(2) near_ranks_mset[OF ms out(3)] by blast
  qed
qed

text \<open>C3: the error of \<open>approx_quantile\<close>.  When the estimate is reported as good, the \<open>j\<close>-th output is an element of
  the selected input, at least \<open>r - eps * n\<close> selected elements are less or equal and fewer than \<open>r + eps * n\<close>
  are less, where \<open>r\<close> is the rank \<open>ceil ((j + 1) * n / num_quantiles)\<close> of the exact quantile among the
  \<open>n\<close> selected elements: the answer is within \<open>eps * n\<close> of the rank asked for.  The values
  must be below \<open>INT_MAX\<close>, which \<open>Output\<close> uses as its sentinel, the number of quantiles times the number of elements
  must be below \<open>2^51\<close>, so that the products are exact as \<open>double\<close>, and there must be fewer than \<open>2^44\<close> elements, so
  that no \<open>int\<close> weight overflows.\<close>

theorem approx_quantile_guarantee:
  assumes "sorts srt" and "\<And>c. cfld = Some c \<Longrightarrow> length c = length x"
    and "\<forall>v \<in> set x. v < INT_MAX" and "y_siz \<le> int (length y)" and "num_quantiles * int (length x) < 2 ^ 51"
    and "int (length x) < 2 ^ 44" and "approx_quantile srt x cfld num_quantiles eps y y_siz = Ret (st, 1, out)" and "int j < num_quantiles"
  shows "st = 0 \<and> length out = length y \<and>
    near_rank (selected x cfld) \<lceil>of_int ((int j + 1) * int (length (selected x cfld))) / of_int num_quantiles :: rat\<rceil>
      (eps * of_nat (length (selected x cfld))) (out ! j)"
proof -
  define n where "n = int (length (selected x cfld))"
  have nq: "1 \<le> num_quantiles" using assms(8) by simp
  have "n \<le> int (length x)" by (auto simp: n_def selected_def chosen_def split: option.split intro: order_trans[OF length_filter_le])
  then have fit: "packets_fit eps n" using assms(6) by (intro packets_fit_small) simp
  have le: "num_quantiles * n \<le> num_quantiles * int (length x)" using nq \<open>n \<le> int (length x)\<close> by (intro mult_left_mono) simp_all
  moreover have "1 * n \<le> num_quantiles * n" using nq by (intro mult_right_mono) (simp_all add: n_def)
  ultimately have n51: "n < 2 ^ 51" using assms(5) by linarith
  obtain b kk where bk: "determine_b_k eps n = (b, kk)" by fastforce
  have pos: "0 < b \<and> 0 < kk" if "0 \<le> eps" "eps \<le> 1" "0 < n"
    using determine_b_k_ok(1,2)[OF bk that n51] by (simp add: fits_def)
  have ok: "\<not> bad_quantile_input x cfld num_quantiles eps y_siz" "\<not> quantile_too_big eps n"
    using assms(7) approx_quantile_unfold[OF assms(2) n_def bk pos, of srt num_quantiles y y_siz]
    by (auto simp: quantile_too_big_def bk split: if_splits)
  then obtain out' E where r: "approx_quantile srt x cfld num_quantiles eps y y_siz = Ret (0, 1, out')" "length out' = length y"
      "of_int E \<le> eps * of_int n" "near_ranks (selected x cfld) (next_quantile_rank n num_quantiles) (nat num_quantiles) E out'"
    using approx_quantile_runs[OF assms(1,2) n_def assms(3,4) n51 ok fit] assms(7) by auto
  have n0: "0 < n" using ok(1) by (simp add: bad_quantile_input_def n_def)
  define r where "r = next_quantile_rank n num_quantiles j"
  have p53: "num_quantiles * n < 2 ^ 53" using le assms(5) by simp
  note ex = next_quantile_rank_exact[OF n0 _ p53 assms(8)]
  have "out ! j \<in> set (selected x cfld)" "r - E \<le> n_upto (out ! j) (selected x cfld)" "n_upto (out ! j - 1) (selected x cfld) < r + E"
    using r(1,4) assms(7,8) nq ex(2) unfolding near_ranks_def r_def n_def by auto
  moreover from this have "(of_int (r - E) :: rat) \<le> of_int (n_upto (out ! j) (selected x cfld))"
    "(of_int (n_upto (out ! j - 1) (selected x cfld)) :: rat) < of_int (r + E)" by (simp_all only: of_int_le_iff of_int_less_iff)
  ultimately have "near_rank (selected x cfld) r (eps * of_int n) (out ! j)" using r(3) by (simp add: near_rank_def)
  moreover have "r = \<lceil>of_int ((int j + 1) * n) / of_int num_quantiles :: rat\<rceil>" using ex(1) nq by (simp add: r_def)
  ultimately show ?thesis using r(1,2) assms(7) by (simp add: n_def)
qed

lemma determine_small: "determine_b_k 1 3 = (2, 10000)"
  by code_simp

theorem approx_quantile_guarantee_witness:
  "\<exists>out. approx_quantile sort [30, 10, 20] None 3 1 [0, 0, 0] 3 = Ret (0, 1, out) \<and>
     near_rank [30, 10, 20] 2 3 (out ! 1)"
proof -
  have "overruns 1 [30, 10, 20] None = False"
    by (simp add: overruns_def reads_outside_def split: prod.splits option.splits)
  then obtain out where r: "approx_quantile sort [30, 10, 20] None 3 1 [0, 0, 0] 3 = Ret (0, 1, out)"
    using approx_quantile_runs[OF sorts_sort, of None "[30, 10, 20]" 3 3 "[0, 0, 0]" 3 1]
    by (auto simp: selected_def bad_quantile_input_def quantile_too_big_def determine_small MAX_SZ_def packets_fit_small)
  show ?thesis
    using approx_quantile_guarantee[OF sorts_sort _ _ _ _ _ r, of 1] r
    by (auto simp: selected_def)
qed

text \<open>C22: the outcome of \<open>approx_quantile\<close> on every input of less than \<open>2^51\<close> elements below \<open>INT_MAX\<close>: the status \<open>-1\<close>
  exactly for bad arguments, the answer \<open>-2\<close> exactly when the buffers do not fit into the memory limit, and otherwise, as
  long as at most \<open>2^31\<close> packets are added, as it is for all inputs of up to \<open>10000 * 2^31\<close> elements, the quantiles, with no internal error: a free buffer or two buffers of the same weight are always found.  Only
  a proper selection whose size is a multiple of the block size and that ends with the last element makes the
  code read past the end of \<open>inputPacketsUsedSiz\<close>.\<close>

theorem approx_quantile_outcome:
  assumes "sorts srt" and "\<And>c. cfld = Some c \<Longrightarrow> length c = length x" and "n = int (length (selected x cfld))"
    and "\<forall>v \<in> set x. v < INT_MAX" and "y_siz \<le> int (length y)" and "n < 2 ^ 51"
  shows "if bad_quantile_input x cfld nq eps y_siz then approx_quantile srt x cfld nq eps y y_siz = Ret (- 1, - 1, y)
    else if quantile_too_big eps n then approx_quantile srt x cfld nq eps y y_siz = Ret (0, - 2, y)
    else n \<le> 10000 * 2 ^ 31 \<or> packets_fit eps n \<longrightarrow>
      (if overruns eps x cfld then approx_quantile srt x cfld nq eps y y_siz = Fault
       else \<exists>out. approx_quantile srt x cfld nq eps y y_siz = Ret (0, 1, out))"
proof -
  obtain b kk where bk: "determine_b_k eps n = (b, kk)" by fastforce
  have pos: "0 < b \<and> 0 < kk" if "0 \<le> eps" "eps \<le> 1" "0 < n"
    using determine_b_k_ok(1,2)[OF bk that assms(6)] by (simp add: fits_def)
  note run = approx_quantile_unfold[OF assms(2,3) bk pos, of srt nq y y_siz]
  consider "bad_quantile_input x cfld nq eps y_siz" | "\<not> bad_quantile_input x cfld nq eps y_siz" "quantile_too_big eps n"
    | "\<not> bad_quantile_input x cfld nq eps y_siz" "\<not> quantile_too_big eps n" by blast
  then show ?thesis
  proof cases
    case 3
    then show ?thesis using approx_quantile_runs[OF assms 3] packets_fit_small[of n eps] by auto
  qed (use run in \<open>simp_all add: quantile_too_big_def bk\<close>)
qed

lemma double_num: "(numeral m :: int) < 2 ^ 53 \<Longrightarrow> double (numeral m) = numeral m"
  using double_int[of "numeral m"] by simp

lemma determine_block: "determine_b_k (1 / 2000) 1280000 = (8, 10000)"
proof -
  have "find_b 640 2 = 9"
    by (simp add: find_b.simps[of 640] b_term_def double_num double_int[of 1, simplified])
  then show ?thesis by (simp add: determine_b_k_def double_num)
qed

lemma chosen_replicate: "chosen ((u, 0) # replicate n (v, 1)) = replicate n v"
  by (simp add: chosen_def)

theorem approx_quantile_outcome_witness:
  "approx_quantile sort (7 # replicate 1280000 7) (Some (0 # replicate 1280000 1)) 1 (1 / 2000) [0] 1 = Fault"
proof -
  let ?x = "7 # replicate 1280000 (7::int)" and ?c = "0 # replicate 1280000 (1::int)"
  have sel: "selected ?x (Some ?c) = replicate 1280000 7"
    by (simp add: selected_def zip_replicate chosen_replicate)
  have threads: "fit_threads 8 10000 128 = Some 128" by (simp add: fit_threads.simps MAX_SZ_def)
  have "overruns (1 / 2000) ?x (Some ?c)"
    by (simp add: overruns_def sel determine_block threads reads_outside_def whole_input_def ends_full_def zip_replicate chosen_replicate)
  then show ?thesis
    using approx_quantile_outcome[OF sorts_sort, of "Some ?c" ?x 1280000 1 "[0]" 1 "1 / 2000"]
    by (simp add: sel bad_quantile_input_def quantile_too_big_def determine_block MAX_SZ_def)
qed

text \<open>C23: the invariant of the buffers.  While fewer than \<open>2^(b-1)\<close> packets have been added, and fewer than \<open>2^31\<close>, so that no \<open>int\<close> weight overflows, adding one more sorted packet
  succeeds, with a collapse when no buffer is free, and keeps the invariant: every used buffer is sorted, has a weight that is
  a power of two up to \<open>2^(b-2)\<close> and holds elements of the input, the weights account for every packet, the number
  of free buffers is right, and for every value the weighted count of the elements up to it differs from the true count
  by at most the error of the collapses made so far.\<close>

theorem add_packet_keeps_qinv:
  assumes "qinv b k P q" and "0 < b" and "(\<Sum>i < b. q_weight q ! i) < 2 ^ (b - 1)" and "(\<Sum>i < b. q_weight q ! i) < 2 ^ 31"
    and "sorted packet" and "length packet = k"
  shows "\<exists>q'. add_packet b k packet q = (Ret (), q') \<and> qinv b k (P @ packet) q'"
  using assms by (rule add_packet_ok)

theorem add_packet_keeps_qinv_witness:
  "\<exists>q'. add_packet 2 2 [1, 5] (empty_quant 2 2) = (Ret (), q') \<and> qinv 2 2 [1, 5] q'"
proof -
  have "(\<Sum>i < 2. q_weight (empty_quant 2 2) ! i) < 2 ^ (2 - 1)" "(\<Sum>i < 2. q_weight (empty_quant 2 2) ! i) < 2 ^ 31"
    by (simp_all add: empty_quant_def)
  from add_packet_keeps_qinv[OF qinv_empty _ this, of "[1, 5]"] show ?thesis by simp
qed

end
