(* ===== verification/K_Reduce.thy ===== *)
theory K_Reduce
  imports K_Prelude
begin

text \<open>
  The kernels of \<open>AUX\<close> that reduce a column to a number (\<open>f_to_s_*\<close>, \<open>nn_f_to_s_*\<close>), make a column from
  numbers (\<open>s_to_f_*\<close>, \<open>assign_*\<close>), sum up a column (\<open>cum_*\<close>) and count into an array (\<open>count*\<close>).  A reduction
  is a program whose state is what its pointer arguments point to.  The program is built with \<open>DEBUG\<close>,
  which some of the files take back.
\<close>

subsection \<open>Loops over the rows\<close>

definition read_at :: "'a list \<Rightarrow> nat \<Rightarrow> ('s, 'a) prog" where
  "read_at xs i = (case get_at xs i of None \<Rightarrow> fault | Some x \<Rightarrow> ret x)"

definition rows :: "(nat \<Rightarrow> ('s, unit) prog) \<Rightarrow> int \<Rightarrow> ('s, unit) prog" where
  "rows body nX = for_each body [0..<nat nX]"

lemma read_at_run [simp]: "i < length xs \<Longrightarrow> read_at xs i s = (Ret (xs ! i), s)"
  by (simp add: read_at_def get_at_def ret_def)

lemma wp_read_at [wp_simps]: "wp (read_at xs i) Q E s = (i < length xs \<and> Q (xs ! i) s)"
  by (simp add: read_at_def get_at_def wp_simps)

text \<open>A loop whose body always succeeds is a fold.\<close>

lemma rows_fold:
  assumes "\<And>i s. i < nat nX \<Longrightarrow> body i s = (Ret (), f i s)"
  shows "rows body nX s = (Ret (), fold f [0..<nat nX] s)"
proof -
  have "for_each body xs s = (Ret (), fold f xs s)" if "\<forall>i \<in> set xs. i < nat nX" for xs s
    using that assms by (induction xs arbitrary: s) (simp_all add: prog_defs)
  then show ?thesis by (simp add: rows_def)
qed

lemma fold_rows: "n \<le> length xs \<Longrightarrow> fold (\<lambda>i. g (xs ! i)) [0..<n] s = fold g (take n xs) s"
proof (induction n arbitrary: s)
  case (Suc n)
  then show ?case by (simp add: take_Suc_conv_app_nth)
qed simp

lemma fold_rows2:
  "n \<le> length xs \<Longrightarrow> n \<le> length ys \<Longrightarrow> fold (\<lambda>i. g (xs ! i) (ys ! i)) [0..<n] s = fold (\<lambda>(x, y). g x y) (zip (take n xs) (take n ys)) s"
proof (induction n arbitrary: s)
  case (Suc n)
  then show ?case by (simp add: take_Suc_conv_app_nth)
qed simp

subsection \<open>Sum, minimum and maximum\<close>

definition sum_col :: "'a::len word list \<Rightarrow> int \<Rightarrow> (I8, unit) prog" where
  "sum_col X nX = rows (\<lambda>i. bind (read_at X i) (\<lambda>x. modify (\<lambda>rslt. rslt + scast x))) nX"

definition min_col :: "'a::len word list \<Rightarrow> int \<Rightarrow> ('a word, unit) prog" where
  "min_col X nX = rows (\<lambda>i. bind (read_at X i) (\<lambda>x. modify (\<lambda>rslt. if x <s rslt then x else rslt))) nX"

definition max_col :: "'a::len word list \<Rightarrow> int \<Rightarrow> ('a word, unit) prog" where
  "max_col X nX = rows (\<lambda>i. bind (read_at X i) (\<lambda>x. modify (\<lambda>rslt. if rslt <s x then x else rslt))) nX"

definition f_to_s_sum_I1 :: "I1 list \<Rightarrow> int \<Rightarrow> (I8, unit) prog" where
  "f_to_s_sum_I1 = sum_col"

definition f_to_s_sum_I2 :: "I2 list \<Rightarrow> int \<Rightarrow> (I8, unit) prog" where
  "f_to_s_sum_I2 = sum_col"

definition f_to_s_sum_I4 :: "I4 list \<Rightarrow> int \<Rightarrow> (I8, unit) prog" where
  "f_to_s_sum_I4 = sum_col"

definition f_to_s_sum_I8 :: "I8 list \<Rightarrow> int \<Rightarrow> (I8, unit) prog" where
  "f_to_s_sum_I8 = sum_col"


definition f_to_s_min_I1 :: "I1 list \<Rightarrow> int \<Rightarrow> (I1, unit) prog" where
  "f_to_s_min_I1 = min_col"

definition f_to_s_min_I2 :: "I2 list \<Rightarrow> int \<Rightarrow> (I2, unit) prog" where
  "f_to_s_min_I2 = min_col"

definition f_to_s_min_I4 :: "I4 list \<Rightarrow> int \<Rightarrow> (I4, unit) prog" where
  "f_to_s_min_I4 = min_col"

definition f_to_s_min_I8 :: "I8 list \<Rightarrow> int \<Rightarrow> (I8, unit) prog" where
  "f_to_s_min_I8 = min_col"

definition f_to_s_max_I1 :: "I1 list \<Rightarrow> int \<Rightarrow> (I1, unit) prog" where
  "f_to_s_max_I1 = max_col"

definition f_to_s_max_I2 :: "I2 list \<Rightarrow> int \<Rightarrow> (I2, unit) prog" where
  "f_to_s_max_I2 = max_col"

definition f_to_s_max_I4 :: "I4 list \<Rightarrow> int \<Rightarrow> (I4, unit) prog" where
  "f_to_s_max_I4 = max_col"

definition f_to_s_max_I8 :: "I8 list \<Rightarrow> int \<Rightarrow> (I8, unit) prog" where
  "f_to_s_max_I8 = max_col"


text \<open>With an \<open>nn\<close> column only the defined rows count; the state is \<open>(*ptr_cnt, *ptr_rslt)\<close>.  The minimum and the
  maximum compare with \<open>*ptr_rslt\<close>, which does not change in the loop.\<close>

definition nn_rows :: "'a list \<Rightarrow> I1 list \<Rightarrow> int \<Rightarrow> ('a \<Rightarrow> 'r \<Rightarrow> 'r) \<Rightarrow> (I8 \<times> 'r, unit) prog" where
  "nn_rows X nn_X nX f = rows (\<lambda>i. bind (read_at nn_X i) (\<lambda>nn. if nn = 0 then ret ()
     else bind (read_at X i) (\<lambda>x. modify (\<lambda>(cnt, rslt). (cnt + 1, f x rslt))))) nX"

definition nn_sum_col :: "'a::len word list \<Rightarrow> I1 list \<Rightarrow> int \<Rightarrow> (I8 \<times> I8, unit) prog" where
  "nn_sum_col X nn_X nX = nn_rows X nn_X nX (\<lambda>x rslt. rslt + scast x)"

definition nn_min_col :: "'a::len word list \<Rightarrow> I1 list \<Rightarrow> int \<Rightarrow> (I8 \<times> 'a word, unit) prog" where
  "nn_min_col X nn_X nX = bind (gets snd) (\<lambda>ptr_rslt. nn_rows X nn_X nX (\<lambda>x rslt. if x <s ptr_rslt then x else rslt))"

definition nn_max_col :: "'a::len word list \<Rightarrow> I1 list \<Rightarrow> int \<Rightarrow> (I8 \<times> 'a word, unit) prog" where
  "nn_max_col X nn_X nX = bind (gets snd) (\<lambda>ptr_rslt. nn_rows X nn_X nX (\<lambda>x rslt. if ptr_rslt <s x then x else rslt))"

definition nn_f_to_s_sum_I1 :: "I1 list \<Rightarrow> I1 list \<Rightarrow> int \<Rightarrow> (I8 \<times> I8, unit) prog" where
  "nn_f_to_s_sum_I1 = nn_sum_col"

definition nn_f_to_s_sum_I2 :: "I2 list \<Rightarrow> I1 list \<Rightarrow> int \<Rightarrow> (I8 \<times> I8, unit) prog" where
  "nn_f_to_s_sum_I2 = nn_sum_col"

definition nn_f_to_s_sum_I4 :: "I4 list \<Rightarrow> I1 list \<Rightarrow> int \<Rightarrow> (I8 \<times> I8, unit) prog" where
  "nn_f_to_s_sum_I4 = nn_sum_col"

definition nn_f_to_s_sum_I8 :: "I8 list \<Rightarrow> I1 list \<Rightarrow> int \<Rightarrow> (I8 \<times> I8, unit) prog" where
  "nn_f_to_s_sum_I8 = nn_sum_col"

definition nn_f_to_s_min_I1 :: "I1 list \<Rightarrow> I1 list \<Rightarrow> int \<Rightarrow> (I8 \<times> I1, unit) prog" where
  "nn_f_to_s_min_I1 = nn_min_col"

definition nn_f_to_s_min_I2 :: "I2 list \<Rightarrow> I1 list \<Rightarrow> int \<Rightarrow> (I8 \<times> I2, unit) prog" where
  "nn_f_to_s_min_I2 = nn_min_col"

definition nn_f_to_s_min_I4 :: "I4 list \<Rightarrow> I1 list \<Rightarrow> int \<Rightarrow> (I8 \<times> I4, unit) prog" where
  "nn_f_to_s_min_I4 = nn_min_col"

definition nn_f_to_s_min_I8 :: "I8 list \<Rightarrow> I1 list \<Rightarrow> int \<Rightarrow> (I8 \<times> I8, unit) prog" where
  "nn_f_to_s_min_I8 = nn_min_col"

definition nn_f_to_s_max_I1 :: "I1 list \<Rightarrow> I1 list \<Rightarrow> int \<Rightarrow> (I8 \<times> I1, unit) prog" where
  "nn_f_to_s_max_I1 = nn_max_col"

definition nn_f_to_s_max_I2 :: "I2 list \<Rightarrow> I1 list \<Rightarrow> int \<Rightarrow> (I8 \<times> I2, unit) prog" where
  "nn_f_to_s_max_I2 = nn_max_col"

definition nn_f_to_s_max_I4 :: "I4 list \<Rightarrow> I1 list \<Rightarrow> int \<Rightarrow> (I8 \<times> I4, unit) prog" where
  "nn_f_to_s_max_I4 = nn_max_col"

definition nn_f_to_s_max_I8 :: "I8 list \<Rightarrow> I1 list \<Rightarrow> int \<Rightarrow> (I8 \<times> I8, unit) prog" where
  "nn_f_to_s_max_I8 = nn_max_col"


subsection \<open>Columns made from numbers\<close>

definition const_col :: "int \<Rightarrow> 'b \<Rightarrow> 'b kernel" where
  "const_col nX val = fill (\<lambda>_. Some val) (nat nX)"

fun seq_rows :: "nat \<Rightarrow> nat \<Rightarrow> 'a::len word \<Rightarrow> 'a word \<Rightarrow> 'a word kernel" where
  "seq_rows 0 i val incr = ret ()"
| "seq_rows (Suc n) i val incr = seq (put_at i val) (seq_rows n (Suc i) (val + incr) incr)"

definition seq_col :: "int \<Rightarrow> 'a::len word \<Rightarrow> 'a word \<Rightarrow> 'a word kernel" where
  "seq_col nX start incr = seq_rows (nat nX) 0 start incr"

definition s_to_f_const_I1 :: "int \<Rightarrow> I1 \<Rightarrow> I1 kernel" where
  "s_to_f_const_I1 = const_col"

definition s_to_f_const_I2 :: "int \<Rightarrow> I2 \<Rightarrow> I2 kernel" where
  "s_to_f_const_I2 = const_col"

definition s_to_f_const_I4 :: "int \<Rightarrow> I4 \<Rightarrow> I4 kernel" where
  "s_to_f_const_I4 = const_col"

definition s_to_f_const_I8 :: "int \<Rightarrow> I8 \<Rightarrow> I8 kernel" where
  "s_to_f_const_I8 = const_col"

definition s_to_f_seq_I1 :: "int \<Rightarrow> I1 \<Rightarrow> I1 \<Rightarrow> I1 kernel" where
  "s_to_f_seq_I1 = seq_col"

definition s_to_f_seq_I2 :: "int \<Rightarrow> I2 \<Rightarrow> I2 \<Rightarrow> I2 kernel" where
  "s_to_f_seq_I2 = seq_col"

definition s_to_f_seq_I4 :: "int \<Rightarrow> I4 \<Rightarrow> I4 \<Rightarrow> I4 kernel" where
  "s_to_f_seq_I4 = seq_col"

definition s_to_f_seq_I8 :: "int \<Rightarrow> I8 \<Rightarrow> I8 \<Rightarrow> I8 kernel" where
  "s_to_f_seq_I8 = seq_col"

definition assign_I1 :: "I1 list \<Rightarrow> int \<Rightarrow> I1 kernel" where
  "assign_I1 = ewise1 Some"

definition assign_const_I1 :: "int \<Rightarrow> I1 \<Rightarrow> I1 kernel" where
  "assign_const_I1 = const_col"

definition assign_I4 :: "I4 list \<Rightarrow> int \<Rightarrow> I4 kernel" where
  "assign_I4 = ewise1 Some"

definition assign_const_I4 :: "int \<Rightarrow> I4 \<Rightarrow> I4 kernel" where
  "assign_const_I4 = const_col"

definition assign_I8 :: "I8 list \<Rightarrow> int \<Rightarrow> I8 kernel" where
  "assign_I8 = ewise1 Some"

definition assign_const_I8 :: "int \<Rightarrow> I8 \<Rightarrow> I8 kernel" where
  "assign_const_I8 = const_col"


subsection \<open>Running sums\<close>

text \<open>The first row is read and written whatever the number of rows.\<close>

fun cum_rows :: "'a::len word list \<Rightarrow> nat \<Rightarrow> nat \<Rightarrow> 'b::len word \<Rightarrow> 'b word kernel" where
  "cum_rows inp 0 i prevval = ret ()"
| "cum_rows inp (Suc n) i prevval = bind (read_at inp i) (\<lambda>inval. let newval = scast inval + prevval in
     seq (put_at i newval) (cum_rows inp n (Suc i) newval))"

definition cum_col :: "'a::len word list \<Rightarrow> int \<Rightarrow> 'b::len word kernel" where
  "cum_col inp nR = bind (read_at inp 0) (\<lambda>x. seq (put_at 0 (scast x)) (cum_rows inp (nat (nR - 1)) 1 (scast x)))"

definition cum_I1_to_I4 :: "I1 list \<Rightarrow> int \<Rightarrow> I4 kernel" where
  "cum_I1_to_I4 = cum_col"

definition cum_I1_to_I8 :: "I1 list \<Rightarrow> int \<Rightarrow> I8 kernel" where
  "cum_I1_to_I8 = cum_col"

definition cum_I4_to_I4 :: "I4 list \<Rightarrow> int \<Rightarrow> I4 kernel" where
  "cum_I4_to_I4 = cum_col"

definition cum_I4_to_I8 :: "I4 list \<Rightarrow> int \<Rightarrow> I8 kernel" where
  "cum_I4_to_I8 = cum_col"

definition cum_I8_to_I4 :: "I8 list \<Rightarrow> int \<Rightarrow> I4 kernel" where
  "cum_I8_to_I4 = cum_col"

definition cum_I8_to_I8 :: "I8 list \<Rightarrow> int \<Rightarrow> I8 kernel" where
  "cum_I8_to_I8 = cum_col"


subsection \<open>Counting\<close>

definition bump :: "int \<Rightarrow> 'b::len word \<Rightarrow> 'b word kernel" where
  "bump j v = (\<lambda>cnt. if in_range j cnt then (Ret (), cnt[nat j := cnt ! nat j + v]) else (Fault, cnt))"

definition idx_of :: "'a::len word \<Rightarrow> int" where
  "idx_of idx = sint (scast idx :: I4)"

definition count_col :: "'a::len word list \<Rightarrow> int \<Rightarrow> I4 \<Rightarrow> I8 kernel" where
  "count_col inp n n_out = rows (\<lambda>i. bind (read_at inp i) (\<lambda>idx.
     seq (guard (\<not> (sint idx < 0 \<or> sint idx \<ge> sint n_out))) (bump (idx_of idx) 1))) n"

definition count_nn_col :: "'a::len word list \<Rightarrow> int \<Rightarrow> I1 list \<Rightarrow> I8 kernel" where
  "count_nn_col inp n cfld = rows (\<lambda>i. bind (read_at cfld i) (\<lambda>c. if c = 0 then ret ()
     else bind (read_at inp i) (\<lambda>idx. bump (idx_of idx) 1))) n"

definition countf_col :: "'a::len word list \<Rightarrow> I4 list \<Rightarrow> int \<Rightarrow> I8 kernel" where
  "countf_col fk_fld src_fld n = rows (\<lambda>i. bind (read_at fk_fld i) (\<lambda>idx. bind (read_at src_fld i) (\<lambda>val.
     bump (idx_of idx) (scast val)))) n"

definition countf_nn_col :: "'a::len word list \<Rightarrow> I4 list \<Rightarrow> int \<Rightarrow> I1 list \<Rightarrow> I8 kernel" where
  "countf_nn_col fk_fld src_fld n cfld = rows (\<lambda>i. bind (read_at cfld i) (\<lambda>c. if c = 0 then ret ()
     else bind (read_at fk_fld i) (\<lambda>idx. bind (read_at src_fld i) (\<lambda>val. bump (idx_of idx) (scast val))))) n"

definition count_I1 :: "I1 list \<Rightarrow> int \<Rightarrow> I4 \<Rightarrow> I8 kernel" where
  "count_I1 = count_col"

definition count_I2 :: "I2 list \<Rightarrow> int \<Rightarrow> I4 \<Rightarrow> I8 kernel" where
  "count_I2 = count_col"

definition count_I4 :: "I4 list \<Rightarrow> int \<Rightarrow> I4 \<Rightarrow> I8 kernel" where
  "count_I4 = count_col"

definition count_I8 :: "I8 list \<Rightarrow> int \<Rightarrow> I4 \<Rightarrow> I8 kernel" where
  "count_I8 = count_col"

definition count_nn_I1 :: "I1 list \<Rightarrow> int \<Rightarrow> I1 list \<Rightarrow> I8 kernel" where
  "count_nn_I1 = count_nn_col"

definition count_nn_I2 :: "I2 list \<Rightarrow> int \<Rightarrow> I1 list \<Rightarrow> I8 kernel" where
  "count_nn_I2 = count_nn_col"

definition count_nn_I4 :: "I4 list \<Rightarrow> int \<Rightarrow> I1 list \<Rightarrow> I8 kernel" where
  "count_nn_I4 = count_nn_col"

definition count_nn_I8 :: "I8 list \<Rightarrow> int \<Rightarrow> I1 list \<Rightarrow> I8 kernel" where
  "count_nn_I8 = count_nn_col"

definition countf_I1 :: "I1 list \<Rightarrow> I4 list \<Rightarrow> int \<Rightarrow> I8 kernel" where
  "countf_I1 = countf_col"

definition countf_I2 :: "I2 list \<Rightarrow> I4 list \<Rightarrow> int \<Rightarrow> I8 kernel" where
  "countf_I2 = countf_col"

definition countf_I4 :: "I4 list \<Rightarrow> I4 list \<Rightarrow> int \<Rightarrow> I8 kernel" where
  "countf_I4 = countf_col"

definition countf_I8 :: "I8 list \<Rightarrow> I4 list \<Rightarrow> int \<Rightarrow> I8 kernel" where
  "countf_I8 = countf_col"

definition countf_nn_I1 :: "I1 list \<Rightarrow> I4 list \<Rightarrow> int \<Rightarrow> I1 list \<Rightarrow> I8 kernel" where
  "countf_nn_I1 = countf_nn_col"

definition countf_nn_I2 :: "I2 list \<Rightarrow> I4 list \<Rightarrow> int \<Rightarrow> I1 list \<Rightarrow> I8 kernel" where
  "countf_nn_I2 = countf_nn_col"

definition countf_nn_I4 :: "I4 list \<Rightarrow> I4 list \<Rightarrow> int \<Rightarrow> I1 list \<Rightarrow> I8 kernel" where
  "countf_nn_I4 = countf_nn_col"

definition countf_nn_I8 :: "I8 list \<Rightarrow> I4 list \<Rightarrow> int \<Rightarrow> I1 list \<Rightarrow> I8 kernel" where
  "countf_nn_I8 = countf_nn_col"


subsection \<open>What the reductions compute\<close>

lemma fold_plus: "fold (\<lambda>x r. r + f x) xs r = r + sum_list (map f xs)"
  by (induction xs arbitrary: r) (simp_all add: add.assoc)

lemma sum_scast: "sum_list (map scast xs) = (word_of_int (\<Sum>x \<leftarrow> xs. sint x) :: I8)"
  by (induction xs) simp_all

lemma sum_col_run:
  assumes "nat nX \<le> length X"
  shows "sum_col X nX r = (Ret (), word_of_int (sint r + (\<Sum>x \<leftarrow> take (nat nX) X. sint x)))"
proof -
  have "sum_col X nX r = (Ret (), fold (\<lambda>i rslt. rslt + scast (X ! i)) [0..<nat nX] r)"
    unfolding sum_col_def using assms by (intro rows_fold) (simp add: prog_defs)
  also have "fold (\<lambda>i rslt. rslt + scast (X ! i)) [0..<nat nX] r = r + sum_list (map scast (take (nat nX) X))"
    using fold_rows[OF assms, of "\<lambda>x rslt. rslt + scast x"] by (simp add: fold_plus)
  also have "\<dots> = word_of_int (sint r + (\<Sum>x \<leftarrow> take (nat nX) X. sint x))"
    unfolding sum_scast by simp
  finally show ?thesis .
qed

text \<open>The minimum and the maximum, as a choice among the start value and the rows.\<close>

definition best :: "('a \<Rightarrow> int) \<Rightarrow> 'a list \<Rightarrow> 'a \<Rightarrow> 'a" where
  "best key xs r = fold (\<lambda>x r. if key x < key r then x else r) xs r"

lemma best_mem: "best key xs r \<in> insert r (set xs)"
  unfolding best_def by (induction xs arbitrary: r) auto

lemma best_Cons: "best key (x # xs) r = best key xs (if key x < key r then x else r)"
  by (simp add: best_def)

lemma best_least: "x \<in> insert r (set xs) \<Longrightarrow> key (best key xs r) \<le> key x"
proof (induction xs arbitrary: r x)
  case (Cons y ys)
  let ?r = "if key y < key r then y else r"
  have "key (best key ys ?r) \<le> key ?r" by (rule Cons.IH) simp
  moreover have "key ?r \<le> key y" "key ?r \<le> key r" by auto
  moreover have "x \<in> set ys \<Longrightarrow> key (best key ys ?r) \<le> key x" by (rule Cons.IH) simp
  ultimately show ?case using Cons.prems unfolding best_Cons by fastforce
qed (simp add: best_def)

lemma best_Min: "key (best key xs r) = Min (key ` insert r (set xs))"
  using best_mem[of key xs r] best_least[of _ r xs key] by (intro Min_eqI[symmetric]) auto

lemma signed_less_sint: "x <s y \<longleftrightarrow> sint x < sint y"
  by (simp add: word_sless_alt)

lemma min_col_run: "nat nX \<le> length X \<Longrightarrow> min_col X nX r = (Ret (), best sint (take (nat nX) X) r)"
  unfolding min_col_def best_def
  by (subst rows_fold[where f = "\<lambda>i r. if sint (X ! i) < sint r then X ! i else r"])
    (simp_all add: prog_defs signed_less_sint fold_rows[of "nat nX" X "\<lambda>x r. if sint x < sint r then x else r"])

lemma max_col_run: "nat nX \<le> length X \<Longrightarrow> max_col X nX r = (Ret (), best (\<lambda>x. - sint x) (take (nat nX) X) r)"
  unfolding max_col_def best_def
  by (subst rows_fold[where f = "\<lambda>i r. if - sint (X ! i) < - sint r then X ! i else r"])
    (simp_all add: prog_defs signed_less_sint fold_rows[of "nat nX" X "\<lambda>x r. if sint r < sint x then x else r"])

text \<open>Only the defined rows count.\<close>

definition defined_rows :: "'a list \<Rightarrow> I1 list \<Rightarrow> int \<Rightarrow> 'a list" where
  "defined_rows X nn_X nX = map fst (filter (\<lambda>(x, nn). nn \<noteq> 0) (zip (take (nat nX) X) (take (nat nX) nn_X)))"

lemma nn_rows_run:
  assumes "nat nX \<le> length X" and "nat nX \<le> length nn_X"
  shows "nn_rows X nn_X nX f (c, r) = (Ret (), (c + of_nat (length (defined_rows X nn_X nX)), fold f (defined_rows X nn_X nX) r))"
proof -
  let ?g = "\<lambda>x nn (c, r). if nn = 0 then (c, r) else (c + 1 :: I8, f x r)"
  have "nn_rows X nn_X nX f (c, r) = (Ret (), fold (\<lambda>i. ?g (X ! i) (nn_X ! i)) [0..<nat nX] (c, r))"
    unfolding nn_rows_def using assms by (intro rows_fold) (auto simp: prog_defs)
  also have "fold (\<lambda>i. ?g (X ! i) (nn_X ! i)) [0..<nat nX] (c, r) = fold (\<lambda>(x, nn). ?g x nn) (zip (take (nat nX) X) (take (nat nX) nn_X)) (c, r)"
    by (rule fold_rows2[OF assms])
  also have "\<dots> = (c + of_nat (length (defined_rows X nn_X nX)), fold f (defined_rows X nn_X nX) r)"
  proof -
    have "fold (\<lambda>(x, nn). ?g x nn) zs (c, r) = (c + of_nat (length (filter (\<lambda>(x, nn). nn \<noteq> 0) zs)),
        fold f (map fst (filter (\<lambda>(x, nn). nn \<noteq> 0) zs)) r)" for zs :: "('a \<times> I1) list"
      by (induction zs arbitrary: c r) (auto simp: split_def)
    then show ?thesis by (simp add: defined_rows_def)
  qed
  finally show ?thesis .
qed

lemma nn_sum_col_run:
  assumes "nat nX \<le> length X" and "nat nX \<le> length nn_X"
  shows "nn_sum_col X nn_X nX (c, r) = (Ret (), (c + of_nat (length (defined_rows X nn_X nX)),
     word_of_int (sint r + (\<Sum>x \<leftarrow> defined_rows X nn_X nX. sint x))))"
  unfolding nn_sum_col_def nn_rows_run[OF assms] fold_plus sum_scast by simp

text \<open>The loop of \<open>nn_f_to_s_min_*\<close> and \<open>nn_f_to_s_max_*\<close> keeps the last row that is better than the start value.\<close>

definition last_better :: "('a \<Rightarrow> bool) \<Rightarrow> 'a list \<Rightarrow> 'a \<Rightarrow> 'a" where
  "last_better P xs r = (case filter P xs of [] \<Rightarrow> r | ys \<Rightarrow> last ys)"

lemma fold_last_better: "fold (\<lambda>x r. if P x then x else r) xs r = last_better P xs r"
proof (induction xs rule: rev_induct)
  case (snoc x xs)
  then show ?case by (simp add: last_better_def split: list.splits)
qed (simp add: last_better_def)

lemma nn_min_col_run:
  assumes "nat nX \<le> length X" and "nat nX \<le> length nn_X"
  shows "nn_min_col X nn_X nX (c, r) = (Ret (), (c + of_nat (length (defined_rows X nn_X nX)),
     last_better (\<lambda>x. sint x < sint r) (defined_rows X nn_X nX) r))"
  unfolding nn_min_col_def bind_def gets_def
  by (simp add: nn_rows_run[OF assms] fold_last_better signed_less_sint)

lemma nn_max_col_run:
  assumes "nat nX \<le> length X" and "nat nX \<le> length nn_X"
  shows "nn_max_col X nn_X nX (c, r) = (Ret (), (c + of_nat (length (defined_rows X nn_X nX)),
     last_better (\<lambda>x. sint r < sint x) (defined_rows X nn_X nX) r))"
  unfolding nn_max_col_def bind_def gets_def
  by (simp add: nn_rows_run[OF assms] fold_last_better signed_less_sint)

subsection \<open>What the other kernels compute\<close>

lemma const_col_run: "nat nX \<le> length out \<Longrightarrow> const_col nX v out = (Ret (), replicate (nat nX) v @ drop (nat nX) out)"
  by (simp add: const_col_def fill_run comp_def map_replicate_const)

lemma put_rows:
  assumes "i < length out"
  shows "take (Suc i) (out[i := v]) = take i out @ [v]" and "drop (Suc i + n) (out[i := v]) = drop (Suc i + n) out"
  using assms by (simp_all add: take_Suc_conv_app_nth)

lemma seq_rows_run:
  "i + n \<le> length out \<Longrightarrow> seq_rows n i (start + of_nat i * incr) incr out =
     (Ret (), take i out @ map (\<lambda>j. start + of_nat j * incr) [i..<i + n] @ drop (i + n) out)"
proof (induction n arbitrary: i out)
  case (Suc n)
  have "seq_rows (Suc n) i (start + of_nat i * incr) incr out =
      seq_rows n (Suc i) (start + of_nat (Suc i) * incr) incr (out[i := start + of_nat i * incr])"
    using Suc.prems by (simp add: prog_defs algebra_simps)
  also have "\<dots> = (Ret (), take (Suc i) (out[i := start + of_nat i * incr]) @ map (\<lambda>j. start + of_nat j * incr) [Suc i..<Suc i + n] @
      drop (Suc i + n) (out[i := start + of_nat i * incr]))"
    using Suc.prems by (intro Suc.IH) simp
  also have "\<dots> = (Ret (), take i out @ map (\<lambda>j. start + of_nat j * incr) [i..<i + Suc n] @ drop (i + Suc n) out)"
    using Suc.prems put_rows[of i out] upt_conv_Cons[of i "i + Suc n"] by (simp del: upt_Suc)
  finally show ?case .
qed (simp add: ret_def)

lemma seq_col_run:
  "nat nX \<le> length out \<Longrightarrow> seq_col nX start incr out =
     (Ret (), map (\<lambda>j. start + of_nat j * incr) [0..<nat nX] @ drop (nat nX) out)"
  using seq_rows_run[of 0 "nat nX" out start incr] by (simp add: seq_col_def)

definition upto_sum :: "'a::len word list \<Rightarrow> nat \<Rightarrow> 'b::len word" where
  "upto_sum inp j = word_of_int (\<Sum>x \<leftarrow> take (Suc j) inp. sint x)"

lemma upto_sum_Suc: "Suc j < length inp \<Longrightarrow> upto_sum inp (Suc j) = scast (inp ! Suc j) + upto_sum inp j"
  by (simp add: upto_sum_def take_Suc_conv_app_nth[of "Suc j"])

lemma upto_sum_0: "0 < length inp \<Longrightarrow> upto_sum inp 0 = scast (inp ! 0)"
  by (simp add: upto_sum_def take_Suc_conv_app_nth)

lemma cum_rows_run:
  "Suc i + n \<le> length inp \<Longrightarrow> Suc i + n \<le> length out \<Longrightarrow> cum_rows inp n (Suc i) (upto_sum inp i) out =
     (Ret (), take (Suc i) out @ map (upto_sum inp) [Suc i..<Suc i + n] @ drop (Suc i + n) out)"
proof (induction n arbitrary: i out)
  case (Suc n)
  let ?out = "out[Suc i := upto_sum inp (Suc i)]"
  have "cum_rows inp (Suc n) (Suc i) (upto_sum inp i) out = cum_rows inp n (Suc (Suc i)) (upto_sum inp (Suc i)) ?out"
    using Suc.prems by (simp add: prog_defs Let_def upto_sum_Suc)
  also have "\<dots> = (Ret (), take (Suc (Suc i)) ?out @ map (upto_sum inp) [Suc (Suc i)..<Suc (Suc i) + n] @ drop (Suc (Suc i) + n) ?out)"
    using Suc.prems by (intro Suc.IH) simp_all
  also have "\<dots> = (Ret (), take (Suc i) out @ map (upto_sum inp) [Suc i..<Suc i + Suc n] @ drop (Suc i + Suc n) out)"
    using Suc.prems put_rows[of "Suc i" out] upt_conv_Cons[of "Suc i" "Suc i + Suc n"] by (simp del: upt_Suc)
  finally show ?case .
qed (simp add: ret_def)

lemma cum_col_run:
  assumes "0 < nR" and "nat nR \<le> length inp" and "nat nR \<le> length out"
  shows "cum_col inp nR out = (Ret (), map (upto_sum inp) [0..<nat nR] @ drop (nat nR) out)"
proof -
  obtain n where n: "nat nR = Suc n" using assms(1) by (cases "nat nR") auto
  then have n': "nat (nR - 1) = n" using assms(1) by simp
  have ne: "0 < length inp" "0 < length out" using assms(2,3) n by linarith+
  then have "cum_col inp nR out = cum_rows inp n (Suc 0) (upto_sum inp 0) (out[0 := upto_sum inp 0])"
    by (simp add: cum_col_def prog_defs upto_sum_0 n')
  also have "\<dots> = (Ret (), take (Suc 0) (out[0 := upto_sum inp 0]) @ map (upto_sum inp) [Suc 0..<Suc 0 + n] @ drop (Suc 0 + n) (out[0 := upto_sum inp 0]))"
    using assms(2,3) n by (intro cum_rows_run) simp_all
  also have "\<dots> = (Ret (), map (upto_sum inp) [0..<nat nR] @ drop (nat nR) out)"
    using ne n put_rows[of 0 out] upt_conv_Cons[of 0 "Suc n"] by (simp del: upt_Suc)
  finally show ?thesis .
qed

text \<open>Counting adds to every entry the values of the rows with its index.\<close>

definition tally :: "(int \<times> 'b::len word) list \<Rightarrow> 'b word list \<Rightarrow> 'b word list" where
  "tally ps cnt = map (\<lambda>j. cnt ! j + (\<Sum>p \<leftarrow> filter (\<lambda>p. fst p = int j) ps. snd p)) [0..<length cnt]"

lemma tally_Nil: "tally [] cnt = cnt"
  by (simp add: tally_def map_nth)

lemma tally_Cons: "in_range j cnt \<Longrightarrow> tally ((j, v) # ps) cnt = tally ps (cnt[nat j := cnt ! nat j + v])"
  by (auto simp: tally_def in_range_def nth_list_update intro!: nth_equalityI)

lemma rows_tally:
  assumes "\<And>i cnt. i < nat nX \<Longrightarrow> body i cnt = (case row i of None \<Rightarrow> ret () cnt | Some (j, v) \<Rightarrow> bump j v cnt)"
    and "\<forall>i < nat nX. \<forall>j v. row i = Some (j, v) \<longrightarrow> in_range j cnt"
  shows "rows body nX cnt = (Ret (), tally (List.map_filter row [0..<nat nX]) cnt)"
proof -
  have "for_each body is cnt = (Ret (), tally (List.map_filter row is) cnt)"
    if "\<forall>i \<in> set is. i < nat nX" "\<forall>i \<in> set is. \<forall>j v. row i = Some (j, v) \<longrightarrow> in_range j cnt" for "is"
    using that
  proof (induction "is" arbitrary: cnt)
    case Nil
    then show ?case by (simp add: prog_defs tally_Nil)
  next
    case (Cons i "is")
    then have body: "body i cnt = (case row i of None \<Rightarrow> ret () cnt | Some (j, v) \<Rightarrow> bump j v cnt)" using assms(1) by simp
    show ?case
    proof (cases "row i")
      case None
      then show ?thesis using Cons body by (simp add: prog_defs)
    next
      case (Some p)
      obtain j v where p: "p = (j, v)" by fastforce
      then have "in_range j cnt" using Cons.prems(2) Some by simp
      moreover from this have "for_each body is (cnt[nat j := cnt ! nat j + v]) = (Ret (), tally (List.map_filter row is) (cnt[nat j := cnt ! nat j + v]))"
        using Cons by simp
      ultimately show ?thesis using body Some p by (simp add: prog_defs bump_def tally_Cons)
    qed
  qed
  then show ?thesis using assms(2) by (simp add: rows_def)
qed

text \<open>The checked counting kernels: whether they end well, and the counts.\<close>

lemma count_ends:
  fixes inp :: "'a::len word list"
  assumes "\<forall>i \<in> set is. i < length inp \<and> body i = bind (read_at inp i) (\<lambda>idx.
       seq (guard (\<not> (sint idx < 0 \<or> sint idx \<ge> m))) (bump (sint idx) 1))"
    and "m \<le> int (length (cnt :: I8 list))"
  shows "fst (for_each body is cnt) = (if \<forall>i \<in> set is. 0 \<le> sint (inp ! i) \<and> sint (inp ! i) < m then Ret () else Bye)"
  using assms
proof (induction "is" arbitrary: cnt)
  case (Cons i "is")
  let ?ok = "0 \<le> sint (inp ! i) \<and> sint (inp ! i) < m"
  show ?case
  proof (cases ?ok)
    case True
    then have "body i cnt = (Ret (), cnt[nat (sint (inp ! i)) := cnt ! nat (sint (inp ! i)) + 1])"
      using Cons.prems by (auto simp: prog_defs bump_def in_range_def)
    then show ?thesis using Cons True by (simp add: prog_defs)
  next
    case False
    then have "body i cnt = (Bye, cnt)" using Cons.prems by (auto simp: prog_defs)
    then show ?thesis using False by (auto simp: prog_defs)
  qed
qed (simp add: prog_defs)

lemma map_filter_Some: "List.map_filter (\<lambda>x. Some (f x)) xs = map f xs"
  by (induction xs) simp_all

lemma sum_list_ones: "(\<Sum>x \<leftarrow> xs. 1) = (of_nat (length xs) :: 'b::len word)"
  by (induction xs) simp_all

lemma map_rows: "n \<le> length xs \<Longrightarrow> map (\<lambda>i. f (xs ! i)) [0..<n] = map f (take n xs)"
  by (simp add: list_eq_iff_nth_eq)

text \<open>For an array of \<open>n_out\<close> counters \<open>count_I4\<close> ends the program when some row is no index of a counter, and otherwise
  adds to every counter the number of rows with its index; \<open>countf_I4\<close> adds to every counter the sum of the values in
  the rows with its index, wrapped to 64 bits.\<close>

theorem counting_kernels:
  assumes "nat n \<le> length inp" and "nat n \<le> length vals" and "sint n_out = int (length cnt)"
  shows "(if \<forall>x \<in> set (take (nat n) inp). 0 \<le> sint x \<and> sint x < sint n_out
    then count_I4 inp n n_out cnt = (Ret (), map (\<lambda>j. cnt ! j + of_nat (count_list (map sint (take (nat n) inp)) (int j))) [0..<length cnt]) \<and>
      countf_I4 inp vals n cnt = (Ret (), map (\<lambda>j. cnt ! j +
        word_of_int (\<Sum>(x, v) \<leftarrow> filter (\<lambda>(x, v). sint x = int j) (zip (take (nat n) inp) (take (nat n) vals)). sint v)) [0..<length cnt])
    else fst (count_I4 inp n n_out cnt) = Bye)"
proof (cases "\<forall>x \<in> set (take (nat n) inp). 0 \<le> sint x \<and> sint x < sint n_out")
  case True
  let ?xs = "take (nat n) inp" and ?vs = "take (nat n) vals"
  have ok: "\<not> sint (inp ! i) < 0" "\<not> int (length cnt) \<le> sint (inp ! i)" "0 \<le> sint (inp ! i)" "sint (inp ! i) < int (length cnt)" if "i < nat n" for i
    using True that assms(1,3) nth_mem[of i ?xs] by fastforce+
  have idx: "idx_of x = sint x" for x :: I4 by (simp add: idx_of_def)
  have "count_I4 inp n n_out cnt = (Ret (), tally (List.map_filter (\<lambda>i. Some (sint (inp ! i), 1)) [0..<nat n]) cnt)"
    unfolding count_I4_def count_col_def
    by (rule rows_tally) (use assms in \<open>simp_all add: prog_defs idx in_range_def ok\<close>)
  moreover have "(\<Sum>p \<leftarrow> filter (\<lambda>p. fst p = int j) (map (\<lambda>x. (sint x, 1)) xs). snd p) = (of_nat (count_list (map sint xs) (int j)) :: I8)"
    for j and xs :: "I4 list"
    by (induction xs) auto
  moreover have "countf_I4 inp vals n cnt = (Ret (), tally (List.map_filter (\<lambda>i. Some (sint (inp ! i), scast (vals ! i))) [0..<nat n]) cnt)"
    unfolding countf_I4_def countf_col_def
    by (rule rows_tally) (use assms in \<open>simp_all add: prog_defs idx in_range_def ok\<close>)
  moreover have "map (\<lambda>i. (sint (inp ! i), scast (vals ! i) :: I8)) [0..<nat n] = map (\<lambda>(x, v). (sint x, scast v)) (zip ?xs ?vs)"
    using assms(1,2) by (auto simp: list_eq_iff_nth_eq)
  moreover have "(\<Sum>p \<leftarrow> filter (\<lambda>p. fst p = int j) (map (\<lambda>(x, v). (sint x, scast v)) ps). snd p) =
      (word_of_int (\<Sum>(x, v) \<leftarrow> filter (\<lambda>(x, v). sint x = int j) ps. sint v) :: I8)" for j and ps :: "(I4 \<times> I4) list"
    by (induction ps) auto
  ultimately show ?thesis using True
    by (simp add: map_filter_Some tally_def map_rows[OF assms(1), of "\<lambda>x. (sint x, 1)"])
next
  case False
  have "fst (count_I4 inp n n_out cnt) = (if \<forall>i \<in> set [0..<nat n]. 0 \<le> sint (inp ! i) \<and> sint (inp ! i) < sint n_out then Ret () else Bye)"
    unfolding count_I4_def count_col_def rows_def
    by (rule count_ends) (use assms in \<open>auto simp: idx_of_def\<close>)
  moreover have "\<not> (\<forall>i \<in> set [0..<nat n]. 0 \<le> sint (inp ! i) \<and> sint (inp ! i) < sint n_out)"
    using False assms(1) by (force simp: in_set_conv_nth)
  ultimately show ?thesis unfolding if_not_P[OF False] by argo
qed

theorem counting_kernels_witness:
  "count_I4 [1, 0, 1] 3 2 [10, 20] = (Ret (), [11, 22]) \<and> countf_I4 [1, 0, 1] [5, 6, - 7] 3 [10, 20] = (Ret (), [16, 18]) \<and>
   fst (count_I4 [1, 0, 2] 3 2 [10, 20]) = Bye"
  using counting_kernels[of 3 "[1, 0, 1]" "[5, 6, - 7]" 2 "[10, 20]"] counting_kernels[of 3 "[1, 0, 2]" "[5, 6, - 7]" 2 "[10, 20]"]
  by simp

end
