(* ===== verification/K_Gather.thy ===== *)
theory K_Gather
  imports K_Reduce
begin

text \<open>
  The kernels of \<open>AUX\<close> that follow positions: a column \<open>f2\<close> of positions into \<open>f1\<close> picks values (\<open>pos_copy_*\<close>,
  \<open>pos_nn_copy_*\<close>), values in a range (\<open>pos_sel_*\<close>), counts them (\<open>pos_count_*\<close>) or reduces them (\<open>pos_mmad_*\<close>);
  \<open>xfer_*\<close> moves a column along a column of positions with its \<open>nn\<close> column, and \<open>core_wisifxthenyelsez_*\<close> chooses
  between two columns row by row.  An array that may be \<open>NULL\<close> is an option.
\<close>

subsection \<open>Access\<close>

definition at_pos :: "'a list \<Rightarrow> int \<Rightarrow> ('s, 'a) prog" where
  "at_pos xs i = (if in_range i xs then ret (xs ! nat i) else fault)"

definition chk_pos :: "'a::len word \<Rightarrow> int \<Rightarrow> ('s, int) prog" where
  "chk_pos idx nR = (if sint idx < 0 \<or> sint idx \<ge> nR then bye else ret (sint idx))"

text \<open>Whether a row counts as defined: there is no \<open>nn\<close> array, or it has something else than \<open>FALSE\<close>.\<close>

definition not_null :: "I1 list option \<Rightarrow> int \<Rightarrow> ('s, bool) prog" where
  "not_null nn i = (case nn of None \<Rightarrow> ret True | Some a \<Rightarrow> bind (at_pos a i) (\<lambda>v. ret (v \<noteq> 0)))"

lemma wp_pos [wp_simps]:
  "wp (at_pos xs i) Q E s = (in_range i xs \<and> Q (xs ! nat i) s)"
  "wp (chk_pos idx nR) Q' E s = (if 0 \<le> sint idx \<and> sint idx < nR then Q' (sint idx) s else E s)"
  by (simp_all add: at_pos_def chk_pos_def wp_simps)

subsection \<open>Copies\<close>

definition pos_copy :: "'a list \<Rightarrow> int \<Rightarrow> 'p::len word list \<Rightarrow> int \<Rightarrow> 'a kernel" where
  "pos_copy f1 nR1 f2 nR2 = rows (\<lambda>i. bind (read_at f2 i) (\<lambda>x. bind (chk_pos x nR1) (\<lambda>f1idx.
     bind (at_pos f1 f1idx) (put_at i)))) nR2"

text \<open>The copies that skip rows write one behind the other; the result is the number of rows
  written.  On an error the number is not handed back.\<close>

definition push :: "'a \<Rightarrow> ('a list \<times> nat, unit) prog" where
  "push v = (\<lambda>(f3, cnt). if cnt < length f3 then (Ret (), (f3[cnt := v], Suc cnt)) else (Fault, (f3, cnt)))"

definition counted :: "('a list \<times> nat, unit) prog \<Rightarrow> ('a list, nat) prog" where
  "counted p = (\<lambda>f3. case p (f3, 0) of
      (Ret _, (f3', cnt)) \<Rightarrow> (Ret cnt, f3') | (Bye, (f3', _)) \<Rightarrow> (Bye, f3') | (Fault, (f3', _)) \<Rightarrow> (Fault, f3'))"

definition pos_nn_copy :: "'a list \<Rightarrow> I1 list option \<Rightarrow> int \<Rightarrow> 'p::len word list \<Rightarrow> I1 list option \<Rightarrow> int \<Rightarrow> ('a list, nat) prog" where
  "pos_nn_copy f1 nn_f1 nR1 f2 nn_f2 nR2 = counted (rows (\<lambda>i. bind (not_null nn_f2 (int i)) (\<lambda>d2. if \<not> d2 then ret ()
     else bind (read_at f2 i) (\<lambda>x. bind (chk_pos x nR1) (\<lambda>f1idx.
          bind (not_null nn_f1 f1idx) (\<lambda>d1. if \<not> d1 then ret () else bind (at_pos f1 f1idx) push))))) nR2)"

definition pos_sel_copy :: "'a::len word list \<Rightarrow> int \<Rightarrow> 'p::len word list \<Rightarrow> int \<Rightarrow> 'a word \<Rightarrow> 'a word \<Rightarrow> ('a word list, nat) prog" where
  "pos_sel_copy f1 nR1 f2 nR2 lb ub = counted (rows (\<lambda>i. bind (read_at f2 i) (\<lambda>x. bind (chk_pos x nR1) (\<lambda>f1idx.
     bind (at_pos f1 f1idx) (\<lambda>val. if lb \<le>s val \<and> val \<le>s ub then push val else ret ())))) nR2)"

definition pos_sel_aux_copy ::
  "'a::len word list \<Rightarrow> 'a word list \<Rightarrow> int \<Rightarrow> 'p::len word list \<Rightarrow> int \<Rightarrow> 'a word \<Rightarrow> 'a word \<Rightarrow> ('a word list, nat) prog" where
  "pos_sel_aux_copy f1_select f1_copy nR1 f2 nR2 lb ub = counted (rows (\<lambda>i. bind (read_at f2 i) (\<lambda>x. bind (chk_pos x nR1) (\<lambda>f1idx.
     bind (at_pos f1_select f1idx) (\<lambda>val. if lb \<le>s val \<and> val \<le>s ub then bind (at_pos f1_copy f1idx) push else ret ())))) nR2)"

definition pos_sel_aux_nn_copy ::
  "'a::len word list \<Rightarrow> I1 list option \<Rightarrow> 'a word list \<Rightarrow> I1 list option \<Rightarrow> int \<Rightarrow> 'p::len word list \<Rightarrow> I1 list option \<Rightarrow> int \<Rightarrow>
    'a word \<Rightarrow> 'a word \<Rightarrow> ('a word list, nat) prog" where
  "pos_sel_aux_nn_copy f1_select nn_f1_select f1_copy nn_f1_copy nR1 f2 nn_f2 nR2 lb ub =
     counted (rows (\<lambda>i. bind (not_null nn_f2 (int i)) (\<lambda>d2. if \<not> d2 then ret ()
       else bind (read_at f2 i) (\<lambda>x. bind (chk_pos x nR1) (\<lambda>f1idx.
         bind (not_null nn_f1_select f1idx) (\<lambda>ds. if \<not> ds then ret ()
         else bind (at_pos f1_select f1idx) (\<lambda>val. if lb \<le>s val \<and> val \<le>s ub
           then bind (not_null nn_f1_copy f1idx) (\<lambda>dc. if \<not> dc then ret () else bind (at_pos f1_copy f1idx) push)
           else ret ())))))) nR2)"

definition pos_copy_I4_I4 :: "I4 list \<Rightarrow> int \<Rightarrow> I4 list \<Rightarrow> int \<Rightarrow> I4 kernel" where
  "pos_copy_I4_I4 = pos_copy"

definition pos_copy_I4_I8 :: "I4 list \<Rightarrow> int \<Rightarrow> I8 list \<Rightarrow> int \<Rightarrow> I4 kernel" where
  "pos_copy_I4_I8 = pos_copy"

definition pos_copy_I8_I4 :: "I8 list \<Rightarrow> int \<Rightarrow> I4 list \<Rightarrow> int \<Rightarrow> I8 kernel" where
  "pos_copy_I8_I4 = pos_copy"

definition pos_copy_I8_I8 :: "I8 list \<Rightarrow> int \<Rightarrow> I8 list \<Rightarrow> int \<Rightarrow> I8 kernel" where
  "pos_copy_I8_I8 = pos_copy"

definition pos_nn_copy_I1_I4 :: "I1 list \<Rightarrow> I1 list option \<Rightarrow> int \<Rightarrow> I4 list \<Rightarrow> I1 list option \<Rightarrow> int \<Rightarrow> (I1 list, nat) prog" where
  "pos_nn_copy_I1_I4 = pos_nn_copy"

definition pos_nn_copy_I1_I8 :: "I1 list \<Rightarrow> I1 list option \<Rightarrow> int \<Rightarrow> I8 list \<Rightarrow> I1 list option \<Rightarrow> int \<Rightarrow> (I1 list, nat) prog" where
  "pos_nn_copy_I1_I8 = pos_nn_copy"

definition pos_nn_copy_I4_I4 :: "I4 list \<Rightarrow> I1 list option \<Rightarrow> int \<Rightarrow> I4 list \<Rightarrow> I1 list option \<Rightarrow> int \<Rightarrow> (I4 list, nat) prog" where
  "pos_nn_copy_I4_I4 = pos_nn_copy"

definition pos_nn_copy_I4_I8 :: "I4 list \<Rightarrow> I1 list option \<Rightarrow> int \<Rightarrow> I8 list \<Rightarrow> I1 list option \<Rightarrow> int \<Rightarrow> (I4 list, nat) prog" where
  "pos_nn_copy_I4_I8 = pos_nn_copy"

definition pos_nn_copy_I8_I4 :: "I8 list \<Rightarrow> I1 list option \<Rightarrow> int \<Rightarrow> I4 list \<Rightarrow> I1 list option \<Rightarrow> int \<Rightarrow> (I8 list, nat) prog" where
  "pos_nn_copy_I8_I4 = pos_nn_copy"

definition pos_nn_copy_I8_I8 :: "I8 list \<Rightarrow> I1 list option \<Rightarrow> int \<Rightarrow> I8 list \<Rightarrow> I1 list option \<Rightarrow> int \<Rightarrow> (I8 list, nat) prog" where
  "pos_nn_copy_I8_I8 = pos_nn_copy"

definition pos_sel_copy_I4_I4 :: "I4 list \<Rightarrow> int \<Rightarrow> I4 list \<Rightarrow> int \<Rightarrow> I4 \<Rightarrow> I4 \<Rightarrow> (I4 list, nat) prog" where
  "pos_sel_copy_I4_I4 = pos_sel_copy"

definition pos_sel_copy_I4_I8 :: "I4 list \<Rightarrow> int \<Rightarrow> I8 list \<Rightarrow> int \<Rightarrow> I4 \<Rightarrow> I4 \<Rightarrow> (I4 list, nat) prog" where
  "pos_sel_copy_I4_I8 = pos_sel_copy"

definition pos_sel_copy_I8_I4 :: "I8 list \<Rightarrow> int \<Rightarrow> I4 list \<Rightarrow> int \<Rightarrow> I8 \<Rightarrow> I8 \<Rightarrow> (I8 list, nat) prog" where
  "pos_sel_copy_I8_I4 = pos_sel_copy"

definition pos_sel_copy_I8_I8 :: "I8 list \<Rightarrow> int \<Rightarrow> I8 list \<Rightarrow> int \<Rightarrow> I8 \<Rightarrow> I8 \<Rightarrow> (I8 list, nat) prog" where
  "pos_sel_copy_I8_I8 = pos_sel_copy"

definition pos_sel_aux_copy_I4_I4 :: "I4 list \<Rightarrow> I4 list \<Rightarrow> int \<Rightarrow> I4 list \<Rightarrow> int \<Rightarrow> I4 \<Rightarrow> I4 \<Rightarrow> (I4 list, nat) prog" where
  "pos_sel_aux_copy_I4_I4 = pos_sel_aux_copy"

definition pos_sel_aux_copy_I4_I8 :: "I4 list \<Rightarrow> I4 list \<Rightarrow> int \<Rightarrow> I8 list \<Rightarrow> int \<Rightarrow> I4 \<Rightarrow> I4 \<Rightarrow> (I4 list, nat) prog" where
  "pos_sel_aux_copy_I4_I8 = pos_sel_aux_copy"

definition pos_sel_aux_copy_I8_I4 :: "I8 list \<Rightarrow> I8 list \<Rightarrow> int \<Rightarrow> I4 list \<Rightarrow> int \<Rightarrow> I8 \<Rightarrow> I8 \<Rightarrow> (I8 list, nat) prog" where
  "pos_sel_aux_copy_I8_I4 = pos_sel_aux_copy"

definition pos_sel_aux_copy_I8_I8 :: "I8 list \<Rightarrow> I8 list \<Rightarrow> int \<Rightarrow> I8 list \<Rightarrow> int \<Rightarrow> I8 \<Rightarrow> I8 \<Rightarrow> (I8 list, nat) prog" where
  "pos_sel_aux_copy_I8_I8 = pos_sel_aux_copy"

definition pos_sel_aux_nn_copy_I4_I4 :: "I4 list \<Rightarrow> I1 list option \<Rightarrow> I4 list \<Rightarrow> I1 list option \<Rightarrow> int \<Rightarrow> I4 list \<Rightarrow> I1 list option \<Rightarrow> int \<Rightarrow> I4 \<Rightarrow> I4 \<Rightarrow> (I4 list, nat) prog" where
  "pos_sel_aux_nn_copy_I4_I4 = pos_sel_aux_nn_copy"

definition pos_sel_aux_nn_copy_I4_I8 :: "I4 list \<Rightarrow> I1 list option \<Rightarrow> I4 list \<Rightarrow> I1 list option \<Rightarrow> int \<Rightarrow> I8 list \<Rightarrow> I1 list option \<Rightarrow> int \<Rightarrow> I4 \<Rightarrow> I4 \<Rightarrow> (I4 list, nat) prog" where
  "pos_sel_aux_nn_copy_I4_I8 = pos_sel_aux_nn_copy"

definition pos_sel_aux_nn_copy_I8_I4 :: "I8 list \<Rightarrow> I1 list option \<Rightarrow> I8 list \<Rightarrow> I1 list option \<Rightarrow> int \<Rightarrow> I4 list \<Rightarrow> I1 list option \<Rightarrow> int \<Rightarrow> I8 \<Rightarrow> I8 \<Rightarrow> (I8 list, nat) prog" where
  "pos_sel_aux_nn_copy_I8_I4 = pos_sel_aux_nn_copy"

definition pos_sel_aux_nn_copy_I8_I8 :: "I8 list \<Rightarrow> I1 list option \<Rightarrow> I8 list \<Rightarrow> I1 list option \<Rightarrow> int \<Rightarrow> I8 list \<Rightarrow> I1 list option \<Rightarrow> int \<Rightarrow> I8 \<Rightarrow> I8 \<Rightarrow> (I8 list, nat) prog" where
  "pos_sel_aux_nn_copy_I8_I8 = pos_sel_aux_nn_copy"


subsection \<open>Counts and reductions\<close>

definition pos_count :: "'a::len word list \<Rightarrow> int \<Rightarrow> 'p::len word list \<Rightarrow> int \<Rightarrow> int \<Rightarrow> I4 kernel" where
  "pos_count f1 nR1 f2 nR2 nR3 = rows (\<lambda>i. bind (read_at f2 i) (\<lambda>x. bind (chk_pos x nR1) (\<lambda>f1idx.
     bind (at_pos f1 f1idx) (\<lambda>y. bind (chk_pos y nR3) (\<lambda>f3idx. bump f3idx 1))))) nR2"

text \<open>The inner loop over the bits of a value.\<close>

fun bit_rows :: "nat \<Rightarrow> nat \<Rightarrow> 'a::len word \<Rightarrow> I4 kernel" where
  "bit_rows 0 i bitvec = ret ()"
| "bit_rows (Suc n) i bitvec = (if bitvec = 0 then ret ()
     else seq (if bitvec AND 1 = 1 then bump (int i) 1 else ret ()) (bit_rows n (Suc i) (drop_bit 1 bitvec)))"

definition pos_count_bitvec :: "'a::len word list \<Rightarrow> int \<Rightarrow> 'p::len word list \<Rightarrow> int \<Rightarrow> int \<Rightarrow> I4 kernel" where
  "pos_count_bitvec f1 nR1 f2 nR2 nR3 = rows (\<lambda>i. bind (read_at f2 i) (\<lambda>x. bind (chk_pos x nR1) (\<lambda>f1idx.
     bind (at_pos f1 f1idx) (bit_rows (nat nR3) 0)))) nR2"

text \<open>Results that are kept in local variables and stored at the end.\<close>

definition at_end :: "('s, 'a) prog \<Rightarrow> ('s, 'a) prog" where
  "at_end p = (\<lambda>s. case p s of (Ret a, s') \<Rightarrow> (Ret a, s') | (Bye, _) \<Rightarrow> (Bye, s) | (Fault, _) \<Rightarrow> (Fault, s))"

definition mmad_step :: "'a::len word \<Rightarrow> 'a word \<times> 'a word \<times> I8 \<Rightarrow> 'a word \<times> 'a word \<times> I8" where
  "mmad_step v = (\<lambda>(minval, maxval, sum).
     (if v <s minval then v else minval, if maxval <s v then v else maxval, sum + scast v))"

definition pos_mmad :: "'a::len word list \<Rightarrow> int \<Rightarrow> 'p::len word list \<Rightarrow> int \<Rightarrow> ('a word \<times> 'a word \<times> I8, unit) prog" where
  "pos_mmad f1 nR1 f2 nR2 = at_end (rows (\<lambda>i. bind (read_at f2 i) (\<lambda>x. bind (chk_pos x nR1) (\<lambda>f1idx.
     bind (at_pos f1 f1idx) (\<lambda>v. modify (mmad_step v))))) nR2)"

text \<open>With \<open>nn\<close> columns the entry of \<open>nn_f1\<close> is read before the position is checked.\<close>

definition pos_mmad_nn :: "'a::len word list \<Rightarrow> I1 list option \<Rightarrow> int \<Rightarrow> 'p::len word list \<Rightarrow> I1 list option \<Rightarrow> int \<Rightarrow>
    (('a word \<times> 'a word \<times> I8) \<times> I8, unit) prog" where
  "pos_mmad_nn f1 nn_f1 nR1 f2 nn_f2 nR2 = at_end (rows (\<lambda>i. bind (not_null nn_f2 (int i)) (\<lambda>d2. if \<not> d2 then ret ()
     else bind (read_at f2 i) (\<lambda>x. bind (not_null nn_f1 (sint x)) (\<lambda>d1. if \<not> d1 then ret ()
     else bind (chk_pos x nR1) (\<lambda>f1idx. bind (at_pos f1 f1idx) (\<lambda>v. modify (\<lambda>(m, cnt). (mmad_step v m, cnt + 1)))))))) nR2)"

definition pos_count_I4_I4 :: "I4 list \<Rightarrow> int \<Rightarrow> I4 list \<Rightarrow> int \<Rightarrow> int \<Rightarrow> I4 kernel" where
  "pos_count_I4_I4 = pos_count"

definition pos_count_I4_I8 :: "I4 list \<Rightarrow> int \<Rightarrow> I8 list \<Rightarrow> int \<Rightarrow> int \<Rightarrow> I4 kernel" where
  "pos_count_I4_I8 = pos_count"

definition pos_count_I8_I4 :: "I8 list \<Rightarrow> int \<Rightarrow> I4 list \<Rightarrow> int \<Rightarrow> int \<Rightarrow> I4 kernel" where
  "pos_count_I8_I4 = pos_count"

definition pos_count_I8_I8 :: "I8 list \<Rightarrow> int \<Rightarrow> I8 list \<Rightarrow> int \<Rightarrow> int \<Rightarrow> I4 kernel" where
  "pos_count_I8_I8 = pos_count"

definition pos_count_bitvec_I4_I4 :: "I4 list \<Rightarrow> int \<Rightarrow> I4 list \<Rightarrow> int \<Rightarrow> int \<Rightarrow> I4 kernel" where
  "pos_count_bitvec_I4_I4 = pos_count_bitvec"

definition pos_count_bitvec_I4_I8 :: "I4 list \<Rightarrow> int \<Rightarrow> I8 list \<Rightarrow> int \<Rightarrow> int \<Rightarrow> I4 kernel" where
  "pos_count_bitvec_I4_I8 = pos_count_bitvec"

definition pos_count_bitvec_I8_I4 :: "I8 list \<Rightarrow> int \<Rightarrow> I4 list \<Rightarrow> int \<Rightarrow> int \<Rightarrow> I4 kernel" where
  "pos_count_bitvec_I8_I4 = pos_count_bitvec"

definition pos_count_bitvec_I8_I8 :: "I8 list \<Rightarrow> int \<Rightarrow> I8 list \<Rightarrow> int \<Rightarrow> int \<Rightarrow> I4 kernel" where
  "pos_count_bitvec_I8_I8 = pos_count_bitvec"

definition pos_mmad_I4_I4 :: "I4 list \<Rightarrow> int \<Rightarrow> I4 list \<Rightarrow> int \<Rightarrow> (I4 \<times> I4 \<times> I8, unit) prog" where
  "pos_mmad_I4_I4 = pos_mmad"

definition pos_mmad_I4_I8 :: "I4 list \<Rightarrow> int \<Rightarrow> I8 list \<Rightarrow> int \<Rightarrow> (I4 \<times> I4 \<times> I8, unit) prog" where
  "pos_mmad_I4_I8 = pos_mmad"

definition pos_mmad_I8_I4 :: "I8 list \<Rightarrow> int \<Rightarrow> I4 list \<Rightarrow> int \<Rightarrow> (I8 \<times> I8 \<times> I8, unit) prog" where
  "pos_mmad_I8_I4 = pos_mmad"

definition pos_mmad_I8_I8 :: "I8 list \<Rightarrow> int \<Rightarrow> I8 list \<Rightarrow> int \<Rightarrow> (I8 \<times> I8 \<times> I8, unit) prog" where
  "pos_mmad_I8_I8 = pos_mmad"

definition pos_mmad_I4_I4_nn :: "I4 list \<Rightarrow> I1 list option \<Rightarrow> int \<Rightarrow> I4 list \<Rightarrow> I1 list option \<Rightarrow> int \<Rightarrow> ((I4 \<times> I4 \<times> I8) \<times> I8, unit) prog" where
  "pos_mmad_I4_I4_nn = pos_mmad_nn"

definition pos_mmad_I4_I8_nn :: "I4 list \<Rightarrow> I1 list option \<Rightarrow> int \<Rightarrow> I8 list \<Rightarrow> I1 list option \<Rightarrow> int \<Rightarrow> ((I4 \<times> I4 \<times> I8) \<times> I8, unit) prog" where
  "pos_mmad_I4_I8_nn = pos_mmad_nn"

definition pos_mmad_I8_I4_nn :: "I8 list \<Rightarrow> I1 list option \<Rightarrow> int \<Rightarrow> I4 list \<Rightarrow> I1 list option \<Rightarrow> int \<Rightarrow> ((I8 \<times> I8 \<times> I8) \<times> I8, unit) prog" where
  "pos_mmad_I8_I4_nn = pos_mmad_nn"

definition pos_mmad_I8_I8_nn :: "I8 list \<Rightarrow> I1 list option \<Rightarrow> int \<Rightarrow> I8 list \<Rightarrow> I1 list option \<Rightarrow> int \<Rightarrow> ((I8 \<times> I8 \<times> I8) \<times> I8, unit) prog" where
  "pos_mmad_I8_I8_nn = pos_mmad_nn"


subsection \<open>Moving a column along positions\<close>

text \<open>The state is the output column with its \<open>nn\<close> column, which may be missing.\<close>

definition set_row :: "nat \<Rightarrow> 'a \<Rightarrow> ('a list \<times> I1 list option, unit) prog" where
  "set_row i v = (\<lambda>(out, nn). if i < length out then (Ret (), (out[i := v], nn)) else (Fault, (out, nn)))"

definition mark_row :: "nat \<Rightarrow> I1 \<Rightarrow> ('a list \<times> I1 list option, unit) prog" where
  "mark_row i v = (\<lambda>(out, nn). case nn of None \<Rightarrow> (Fault, (out, nn))
     | Some a \<Rightarrow> if i < length a then (Ret (), (out, Some (a[i := v]))) else (Fault, (out, nn)))"

definition xfer :: "'a::len word list \<Rightarrow> I1 list option \<Rightarrow> int \<Rightarrow> I4 list \<Rightarrow> I1 list option \<Rightarrow> int \<Rightarrow>
    ('a word list \<times> I1 list option, unit) prog" where
  "xfer src_fld nn_src_fld src_nR dst_idx nn_dst_idx dst_nR = rows (\<lambda>i. bind (not_null nn_dst_idx (int i)) (\<lambda>di.
     if \<not> di then seq (mark_row i 0) (set_row i 0)
     else bind (read_at dst_idx i) (\<lambda>x. bind (chk_pos x src_nR) (\<lambda>idx. bind (at_pos src_fld idx) (\<lambda>val.
       bind (not_null nn_src_fld idx) (\<lambda>ds. if \<not> ds then seq (mark_row i 0) (set_row i 0)
         else bind (gets snd) (\<lambda>nn. seq (if nn \<noteq> None then mark_row i 1 else ret ()) (set_row i val)))))))) dst_nR"

definition xfer_I1_I4 :: "I1 list \<Rightarrow> I1 list option \<Rightarrow> int \<Rightarrow> I4 list \<Rightarrow> I1 list option \<Rightarrow> int \<Rightarrow> (I1 list \<times> I1 list option, unit) prog" where
  "xfer_I1_I4 = xfer"

definition xfer_I2_I4 :: "I2 list \<Rightarrow> I1 list option \<Rightarrow> int \<Rightarrow> I4 list \<Rightarrow> I1 list option \<Rightarrow> int \<Rightarrow> (I2 list \<times> I1 list option, unit) prog" where
  "xfer_I2_I4 = xfer"

definition xfer_I4_I4 :: "I4 list \<Rightarrow> I1 list option \<Rightarrow> int \<Rightarrow> I4 list \<Rightarrow> I1 list option \<Rightarrow> int \<Rightarrow> (I4 list \<times> I1 list option, unit) prog" where
  "xfer_I4_I4 = xfer"

definition xfer_I8_I4 :: "I8 list \<Rightarrow> I1 list option \<Rightarrow> int \<Rightarrow> I4 list \<Rightarrow> I1 list option \<Rightarrow> int \<Rightarrow> (I8 list \<times> I1 list option, unit) prog" where
  "xfer_I8_I4 = xfer"


subsection \<open>Choosing between two columns\<close>

text \<open>The state is \<open>W\<close>, \<open>nn_W\<close> and the flag \<open>is_some_null\<close>.  A row of an \<open>nn\<close> column counts as defined when it is exactly
  1, and a condition other than 0 and 1 ends the program.\<close>

definition one_at :: "I1 list option \<Rightarrow> nat \<Rightarrow> ('s, bool) prog" where
  "one_at nn i = (case nn of None \<Rightarrow> ret True | Some a \<Rightarrow> bind (read_at a i) (\<lambda>v. ret (v = 1)))"

definition set_w :: "nat \<Rightarrow> 'a \<Rightarrow> I1 \<Rightarrow> ('a list \<times> I1 list \<times> bool, unit) prog" where
  "set_w i v n = (\<lambda>(W, nn_W, flag). if i < length W \<and> i < length nn_W then (Ret (), (W[i := v], nn_W[i := n], flag))
     else (Fault, (W, nn_W, flag)))"

definition set_null :: "nat \<Rightarrow> ('a::zero list \<times> I1 list \<times> bool, unit) prog" where
  "set_null i = seq (set_w i 0 0) (modify (\<lambda>(W, nn_W, flag). (W, nn_W, False)))"

definition take_from :: "'a::zero list option \<Rightarrow> I1 list option \<Rightarrow> 'a \<Rightarrow> nat \<Rightarrow> ('a list \<times> I1 list \<times> bool, unit) prog" where
  "take_from in_Y nn_Y yval i = (case in_Y of None \<Rightarrow> set_w i yval 1
     | Some Y \<Rightarrow> bind (one_at nn_Y i) (\<lambda>d. if d then bind (read_at Y i) (\<lambda>y. set_w i y 1) else set_null i))"

definition core_wisifxthenyelsez :: "I1 list \<Rightarrow> I1 list option \<Rightarrow> int \<Rightarrow> 'a::len word \<Rightarrow> 'a word list option \<Rightarrow> I1 list option \<Rightarrow>
    'a word \<Rightarrow> 'a word list option \<Rightarrow> I1 list option \<Rightarrow> ('a word list \<times> I1 list \<times> bool, unit) prog" where
  "core_wisifxthenyelsez X nn_X nR yval in_Y nn_Y zval in_Z nn_Z = rows (\<lambda>i. bind (one_at nn_X i) (\<lambda>d. if d then
       bind (read_at X i) (\<lambda>x. if x = 1 then take_from in_Y nn_Y yval i else if x = 0 then take_from in_Z nn_Z zval i else bye)
     else set_null i)) nR"

definition core_wisifxthenyelsez_I1 :: "I1 list \<Rightarrow> I1 list option \<Rightarrow> int \<Rightarrow> I1 \<Rightarrow> I1 list option \<Rightarrow> I1 list option \<Rightarrow> I1 \<Rightarrow> I1 list option \<Rightarrow> I1 list option \<Rightarrow> (I1 list \<times> I1 list \<times> bool, unit) prog" where
  "core_wisifxthenyelsez_I1 = core_wisifxthenyelsez"

definition core_wisifxthenyelsez_I4 :: "I1 list \<Rightarrow> I1 list option \<Rightarrow> int \<Rightarrow> I4 \<Rightarrow> I4 list option \<Rightarrow> I1 list option \<Rightarrow> I4 \<Rightarrow> I4 list option \<Rightarrow> I1 list option \<Rightarrow> (I4 list \<times> I1 list \<times> bool, unit) prog" where
  "core_wisifxthenyelsez_I4 = core_wisifxthenyelsez"

definition core_wisifxthenyelsez_I8 :: "I1 list \<Rightarrow> I1 list option \<Rightarrow> int \<Rightarrow> I8 \<Rightarrow> I8 list option \<Rightarrow> I1 list option \<Rightarrow> I8 \<Rightarrow> I8 list option \<Rightarrow> I1 list option \<Rightarrow> (I8 list \<times> I1 list \<times> bool, unit) prog" where
  "core_wisifxthenyelsez_I8 = core_wisifxthenyelsez"


subsection \<open>What the copies produce\<close>

definition defined_at :: "I1 list option \<Rightarrow> int \<Rightarrow> bool" where
  "defined_at nn i = (case nn of None \<Rightarrow> True | Some a \<Rightarrow> a ! nat i \<noteq> 0)"

definition covers :: "I1 list option \<Rightarrow> int \<Rightarrow> bool" where
  "covers nn n = (case nn of None \<Rightarrow> True | Some a \<Rightarrow> n \<le> int (length a))"

lemma not_null_run: "covers nn n \<Longrightarrow> 0 \<le> i \<Longrightarrow> i < n \<Longrightarrow> not_null nn i s = (Ret (defined_at nn i), s)"
  by (auto simp: not_null_def defined_at_def covers_def at_pos_def in_range_def prog_defs split: option.splits)

lemma at_pos_run: "n \<le> int (length xs) \<Longrightarrow> 0 \<le> i \<Longrightarrow> i < n \<Longrightarrow> at_pos xs i s = (Ret (xs ! nat i), s)"
  by (simp add: at_pos_def in_range_def ret_def)

lemma for_each_push:
  assumes "\<And>i s. i \<in> set is \<Longrightarrow> body i s = (case val i of None \<Rightarrow> (Ret (), s) | Some v \<Rightarrow> push v s)"
    and "c + length (List.map_filter val is) \<le> length f3"
  shows "for_each body is (f3, c) = (Ret (), (take c f3 @ List.map_filter val is @ drop (c + length (List.map_filter val is)) f3,
     c + length (List.map_filter val is)))"
  using assms
proof (induction "is" arbitrary: f3 c)
  case (Cons i "is")
  show ?case
  proof (cases "val i")
    case None
    then have "body i (f3, c) = (Ret (), (f3, c))" using Cons.prems(1) by simp
    then show ?thesis using Cons None by (simp add: prog_defs)
  next
    case (Some v)
    then have "body i (f3, c) = push v (f3, c)" using Cons.prems(1) by simp
    moreover have "c < length f3" using Cons.prems(2) Some by simp
    moreover have "for_each body is (f3[c := v], Suc c) = (Ret (), (take (Suc c) (f3[c := v]) @ List.map_filter val is @
        drop (Suc c + length (List.map_filter val is)) (f3[c := v]), Suc c + length (List.map_filter val is)))"
      using Cons.prems Some by (intro Cons.IH) simp_all
    ultimately show ?thesis using Some by (simp add: push_def prog_defs take_Suc_conv_app_nth)
  qed
qed (simp add: prog_defs)

lemma counted_rows:
  assumes "\<And>i s. i < nat n \<Longrightarrow> body i s = (case val i of None \<Rightarrow> (Ret (), s) | Some v \<Rightarrow> push v s)"
    and "vs = List.map_filter val [0..<nat n]" and "length vs \<le> length f3"
  shows "counted (rows body n) f3 = (Ret (length vs), vs @ drop (length vs) f3)"
proof -
  have "for_each body [0..<nat n] (f3, 0) = (Ret (), (take 0 f3 @ List.map_filter val [0..<nat n] @
      drop (0 + length (List.map_filter val [0..<nat n])) f3, 0 + length (List.map_filter val [0..<nat n])))"
    using assms by (intro for_each_push) simp_all
  then show ?thesis by (simp add: counted_def rows_def assms(2))
qed

text \<open>The row of \<open>pos_sel_aux_nn_copy\<close>.\<close>

definition picked :: "'a::len word list \<Rightarrow> I1 list option \<Rightarrow> 'a word list \<Rightarrow> I1 list option \<Rightarrow> 'p::len word list \<Rightarrow> I1 list option \<Rightarrow>
    'a word \<Rightarrow> 'a word \<Rightarrow> nat \<Rightarrow> 'a word option" where
  "picked sel nn_sel cpy nn_cpy f2 nn_f2 lb ub i = (let p = sint (f2 ! i) in
     if defined_at nn_f2 (int i) \<and> defined_at nn_sel p \<and> sint lb \<le> sint (sel ! nat p) \<and> sint (sel ! nat p) \<le> sint ub \<and> defined_at nn_cpy p
     then Some (cpy ! nat p) else None)"

lemma sle_sint: "x \<le>s y \<longleftrightarrow> sint x \<le> sint y"
  by (simp add: word_sle_eq)

lemma pos_sel_aux_nn_copy_run:
  assumes "nR1 \<le> int (length sel)" "nR1 \<le> int (length cpy)" "nR2 \<le> int (length f2)"
    and "covers nn_sel nR1" "covers nn_cpy nR1" "covers nn_f2 nR2"
    and "\<forall>i < nat nR2. defined_at nn_f2 (int i) \<longrightarrow> 0 \<le> sint (f2 ! i) \<and> sint (f2 ! i) < nR1"
    and "vs = List.map_filter (picked sel nn_sel cpy nn_cpy f2 nn_f2 lb ub) [0..<nat nR2]" and "length vs \<le> length f3"
  shows "pos_sel_aux_nn_copy sel nn_sel cpy nn_cpy nR1 f2 nn_f2 nR2 lb ub f3 = (Ret (length vs), vs @ drop (length vs) f3)"
  unfolding pos_sel_aux_nn_copy_def
proof (rule counted_rows[where val = "picked sel nn_sel cpy nn_cpy f2 nn_f2 lb ub"])
  fix i and s :: "'a word list \<times> nat"
  assume i: "i < nat nR2"
  then have r: "i < length f2" "not_null nn_f2 (int i) s = (Ret (defined_at nn_f2 (int i)), s)"
    using i assms(3) not_null_run[OF assms(6), of "int i" s] by linarith+
  show "bind (not_null nn_f2 (int i)) (\<lambda>d2. if \<not> d2 then ret ()
       else bind (read_at f2 i) (\<lambda>x. bind (chk_pos x nR1) (\<lambda>f1idx.
         bind (not_null nn_sel f1idx) (\<lambda>ds. if \<not> ds then ret ()
         else bind (at_pos sel f1idx) (\<lambda>val. if lb \<le>s val \<and> val \<le>s ub
           then bind (not_null nn_cpy f1idx) (\<lambda>dc. if \<not> dc then ret () else bind (at_pos cpy f1idx) push)
           else ret ()))))) s = (case picked sel nn_sel cpy nn_cpy f2 nn_f2 lb ub i of None \<Rightarrow> (Ret (), s) | Some v \<Rightarrow> push v s)"
  proof (cases "defined_at nn_f2 (int i)")
    case False
    then show ?thesis using r by (simp add: bind_def ret_def picked_def Let_def)
  next
    case True
    then have p: "0 \<le> sint (f2 ! i)" "sint (f2 ! i) < nR1" using assms(7) i by auto
    note rd = not_null_run[OF assms(4) p] not_null_run[OF assms(5) p] at_pos_run[OF assms(1) p] at_pos_run[OF assms(2) p]
    show ?thesis using r True p by (simp add: rd bind_def ret_def picked_def Let_def chk_pos_def sle_sint)
  qed
qed (use assms in simp_all)

text \<open>The other copies are special cases.\<close>

lemma not_null_None: "bind (not_null None i) f = f True"
  by (simp add: not_null_def prog_defs fun_eq_iff)

lemma at_pos_twice: "bind (at_pos f1 i) (\<lambda>v. if P v then bind (at_pos f1 i) push else ret ()) = bind (at_pos f1 i) (\<lambda>v. if P v then push v else ret ())"
  by (simp add: at_pos_def prog_defs fun_eq_iff)

text \<open>The copy of the rows in a range is the copy with selection and values from one column, and the copy without \<open>nn\<close> columns
  is the copy with \<open>nn\<close> columns that are missing: same outcome, same number and same output for all inputs.\<close>

theorem pos_copies_agree:
  "pos_sel_aux_copy_I4_I4 sel cpy nR1 f2 nR2 lb ub = pos_sel_aux_nn_copy_I4_I4 sel None cpy None nR1 f2 None nR2 lb ub \<and>
   pos_sel_copy_I4_I4 f1 nR1 f2 nR2 lb ub = pos_sel_aux_copy_I4_I4 f1 f1 nR1 f2 nR2 lb ub"
  unfolding pos_sel_aux_copy_I4_I4_def pos_sel_aux_nn_copy_I4_I4_def pos_sel_copy_I4_I4_def pos_sel_aux_copy_def
    pos_sel_aux_nn_copy_def pos_sel_copy_def not_null_None at_pos_twice not_True_eq_False if_False by simp

subsection \<open>Loops that write two columns\<close>

lemma rows_two:
  assumes "\<And>i out a. i < n \<Longrightarrow> n \<le> length out \<Longrightarrow> n \<le> length a \<Longrightarrow>
      body i (F i out a) = (Ret (), F (Suc i) (out[i := v i]) (a[i := w i]))"
    and "n \<le> length out" and "n \<le> length a"
  shows "rows body (int n) (F 0 out a) = (Ret (), F n (map v [0..<n] @ drop n out) (map w [0..<n] @ drop n a))"
proof -
  have "for_each body [0..<k] (F 0 out a) = (Ret (), F k (map v [0..<k] @ drop k out) (map w [0..<k] @ drop k a))" if "k \<le> n" for k
    using that
  proof (induction k)
    case (Suc k)
    have len: "n \<le> length (map v [0..<k] @ drop k out)" "n \<le> length (map w [0..<k] @ drop k a)" using Suc.prems assms(2,3) by auto
    have "for_each body [0..<Suc k] (F 0 out a) = body k (F k (map v [0..<k] @ drop k out) (map w [0..<k] @ drop k a))"
      using Suc by (simp add: for_each_snoc seq_def bind_def split: prod.split outcome.split)
    also have "\<dots> = (Ret (), F (Suc k) ((map v [0..<k] @ drop k out)[k := v k]) ((map w [0..<k] @ drop k a)[k := w k]))"
      using Suc.prems by (intro assms(1) len) simp
    also have "(map v [0..<k] @ drop k out)[k := v k] = map v [0..<Suc k] @ drop (Suc k) out"
      using Suc.prems assms(2) Cons_nth_drop_Suc[of k out, symmetric] by (simp add: list_update_append)
    also have "(map w [0..<k] @ drop k a)[k := w k] = map w [0..<Suc k] @ drop (Suc k) a"
      using Suc.prems assms(3) Cons_nth_drop_Suc[of k a, symmetric] by (simp add: list_update_append)
    finally show ?case .
  qed (simp add: ret_def)
  then show ?thesis by (simp add: rows_def)
qed

definition xfer_row :: "'a::len word list \<Rightarrow> I1 list option \<Rightarrow> I4 list \<Rightarrow> I1 list option \<Rightarrow> nat \<Rightarrow> 'a word \<times> I1" where
  "xfer_row src nn_src idx nn_idx i = (if defined_at nn_idx (int i) \<and> defined_at nn_src (sint (idx ! i))
     then (src ! nat (sint (idx ! i)), 1) else (0, 0))"

lemma xfer_run:
  assumes "n \<le> length idx" "covers nn_idx (int n)" and "src_nR \<le> int (length src)" "covers nn_src src_nR"
    and "\<forall>i < n. defined_at nn_idx (int i) \<longrightarrow> 0 \<le> sint (idx ! i) \<and> sint (idx ! i) < src_nR" and "n \<le> length out" "n \<le> length nn_out"
  shows "xfer src nn_src src_nR idx nn_idx (int n) (out, Some nn_out) = (Ret (),
     (map (\<lambda>i. fst (xfer_row src nn_src idx nn_idx i)) [0..<n] @ drop n out,
      Some (map (\<lambda>i. snd (xfer_row src nn_src idx nn_idx i)) [0..<n] @ drop n nn_out)))"
  unfolding xfer_def
proof (rule rows_two[where F = "\<lambda>_ out a. (out, Some a)"])
  fix i out a assume i: "i < n" "n \<le> length (out :: 'a word list)" "n \<le> length (a :: I1 list)"
  have nn: "not_null nn_idx (int i) s = (Ret (defined_at nn_idx (int i)), s)" for s :: "'a word list \<times> I1 list option"
    using not_null_run[OF assms(2), of "int i" s] i(1) by simp
  show "bind (not_null nn_idx (int i)) (\<lambda>di. if \<not> di then seq (mark_row i 0) (set_row i 0)
     else bind (read_at idx i) (\<lambda>x. bind (chk_pos x src_nR) (\<lambda>idx. bind (at_pos src idx) (\<lambda>val.
       bind (not_null nn_src idx) (\<lambda>ds. if \<not> ds then seq (mark_row i 0) (set_row i 0)
         else bind (gets snd) (\<lambda>nn. seq (if nn \<noteq> None then mark_row i 1 else ret ()) (set_row i val))))))) (out, Some a) =
     (Ret (), (out[i := fst (xfer_row src nn_src idx nn_idx i)], Some (a[i := snd (xfer_row src nn_src idx nn_idx i)])))"
  proof (cases "defined_at nn_idx (int i)")
    case False
    then show ?thesis using i nn by (simp add: prog_defs mark_row_def set_row_def xfer_row_def)
  next
    case True
    then have p: "0 \<le> sint (idx ! i)" "sint (idx ! i) < src_nR" using assms(5) i(1) by auto
    note rd = not_null_run[OF assms(4) p] at_pos_run[OF assms(3) p]
    show ?thesis using i nn True p assms(1) by (simp add: rd prog_defs mark_row_def set_row_def xfer_row_def chk_pos_def)
  qed
qed (use assms in simp_all)

text \<open>The choice between two columns.\<close>

definition is_one :: "I1 list option \<Rightarrow> nat \<Rightarrow> bool" where
  "is_one nn i = (case nn of None \<Rightarrow> True | Some a \<Rightarrow> a ! i = 1)"

definition side :: "'a list option \<Rightarrow> I1 list option \<Rightarrow> 'a \<Rightarrow> nat \<Rightarrow> 'a option" where
  "side in_Y nn_Y yval i = (case in_Y of None \<Rightarrow> Some yval | Some Y \<Rightarrow> if is_one nn_Y i then Some (Y ! i) else None)"

definition chosen_row :: "I1 list \<Rightarrow> I1 list option \<Rightarrow> 'a list option \<Rightarrow> I1 list option \<Rightarrow> 'a \<Rightarrow> 'a list option \<Rightarrow> I1 list option \<Rightarrow> 'a \<Rightarrow> nat \<Rightarrow> 'a option" where
  "chosen_row X nn_X in_Y nn_Y yval in_Z nn_Z zval i = (if is_one nn_X i
     then (if X ! i = 1 then side in_Y nn_Y yval i else side in_Z nn_Z zval i) else None)"

definition long_enough :: "nat \<Rightarrow> 'a list option \<Rightarrow> bool" where
  "long_enough n a = (case a of None \<Rightarrow> True | Some xs \<Rightarrow> n \<le> length xs)"

lemma one_at_run: "long_enough n nn \<Longrightarrow> i < n \<Longrightarrow> one_at nn i s = (Ret (is_one nn i), s)"
  by (auto simp: one_at_def long_enough_def is_one_def prog_defs split: option.splits)

lemma take_from_run:
  assumes "long_enough n in_Y" "long_enough n nn_Y" "i < n" "n \<le> length W" "n \<le> length nn_W"
  shows "take_from in_Y nn_Y yval i (W, nn_W, flag) = (Ret (), case side in_Y nn_Y yval i of
     None \<Rightarrow> (W[i := 0], nn_W[i := 0], False) | Some y \<Rightarrow> (W[i := y], nn_W[i := 1], flag))"
proof (cases in_Y)
  case None
  then show ?thesis using assms by (simp add: take_from_def set_w_def side_def)
next
  case (Some Y)
  then show ?thesis using assms
    by (simp add: one_at_run[OF assms(2,3)] take_from_def set_w_def set_null_def side_def long_enough_def prog_defs)
qed

lemma core_wisifxthenyelsez_run:
  fixes yval zval :: "'a::len word"
  assumes "n \<le> length X" "long_enough n nn_X" "long_enough n in_Y" "long_enough n nn_Y" "long_enough n in_Z" "long_enough n nn_Z"
    and "\<forall>i < n. is_one nn_X i \<longrightarrow> X ! i = 0 \<or> X ! i = 1" and "n \<le> length W" "n \<le> length nn_W"
  defines "row \<equiv> chosen_row X nn_X in_Y nn_Y yval in_Z nn_Z zval"
  shows "core_wisifxthenyelsez X nn_X (int n) yval in_Y nn_Y zval in_Z nn_Z (W, nn_W, flag) = (Ret (),
     (map (\<lambda>i. case row i of None \<Rightarrow> 0 | Some v \<Rightarrow> v) [0..<n] @ drop n W,
      map (\<lambda>i. c_bool (row i \<noteq> None)) [0..<n] @ drop n nn_W,
      flag \<and> (\<forall>i < n. row i \<noteq> None)))"
proof -
  let ?F = "\<lambda>k W nn_W. (W, nn_W, flag \<and> (\<forall>i < k. row i \<noteq> None))"
  have "core_wisifxthenyelsez X nn_X (int n) yval in_Y nn_Y zval in_Z nn_Z (?F 0 W nn_W) = (Ret (),
     ?F n (map (\<lambda>i. case row i of None \<Rightarrow> 0 | Some v \<Rightarrow> v) [0..<n] @ drop n W) (map (\<lambda>i. c_bool (row i \<noteq> None)) [0..<n] @ drop n nn_W))"
    unfolding core_wisifxthenyelsez_def
  proof (rule rows_two)
    fix i W nn_W assume i: "i < n" "n \<le> length (W :: 'a word list)" "n \<le> length (nn_W :: I1 list)"
    note one = one_at_run[OF assms(2) i(1)]
    have all: "(\<forall>j < Suc i. row j \<noteq> None) \<longleftrightarrow> (\<forall>j < i. row j \<noteq> None) \<and> row i \<noteq> None" by (auto simp: less_Suc_eq)
    show "bind (one_at nn_X i) (\<lambda>d. if d then
         bind (read_at X i) (\<lambda>x. if x = 1 then take_from in_Y nn_Y yval i else if x = 0 then take_from in_Z nn_Z zval i else bye)
       else set_null i) (?F i W nn_W) = (Ret (), ?F (Suc i) (W[i := case row i of None \<Rightarrow> 0 | Some v \<Rightarrow> v]) (nn_W[i := c_bool (row i \<noteq> None)]))"
    proof (cases "is_one nn_X i")
      case False
      then have "row i = None" by (simp add: row_def chosen_row_def)
      then show ?thesis using False i unfolding all by (simp add: one bind_def seq_def set_null_def set_w_def modify_def)
    next
      case True
      then have "X ! i = 0 \<or> X ! i = 1" using assms(7) i(1) by blast
      then consider "X ! i = 1" "row i = side in_Y nn_Y yval i" | "X ! i = 0" "row i = side in_Z nn_Z zval i"
        using True by (auto simp: row_def chosen_row_def)
      then show ?thesis
      proof cases
        case 1
        then show ?thesis using True i assms(1) take_from_run[OF assms(3,4) i(1,2,3)] unfolding all
          by (simp add: one bind_def split: option.split)
      next
        case 2
        then show ?thesis using True i assms(1) take_from_run[OF assms(5,6) i(1,2,3)] unfolding all
          by (simp add: one bind_def split: option.split)
      qed
    qed
  qed (use assms in simp_all)
  then show ?thesis by simp
qed

subsection \<open>Properties\<close>

text \<open>Moving a column along positions: a row whose position and the value there are defined gets the value and is marked
  defined, every other row gets 0 and is marked undefined, and nothing else is written.\<close>

theorem xfer_I4_I4_rows:
  assumes "n \<le> length idx" "covers nn_idx (int n)" and "src_nR \<le> int (length src)" "covers nn_src src_nR"
    and "\<forall>i < n. defined_at nn_idx (int i) \<longrightarrow> 0 \<le> sint (idx ! i) \<and> sint (idx ! i) < src_nR" and "n \<le> length out" "n \<le> length nn_out"
  shows "xfer_I4_I4 src nn_src src_nR idx nn_idx (int n) (out, Some nn_out) = (Ret (),
     (map (\<lambda>i. if defined_at nn_idx (int i) \<and> defined_at nn_src (sint (idx ! i)) then src ! nat (sint (idx ! i)) else 0) [0..<n] @ drop n out,
      Some (map (\<lambda>i. c_bool (defined_at nn_idx (int i) \<and> defined_at nn_src (sint (idx ! i)))) [0..<n] @ drop n nn_out)))"
  unfolding xfer_I4_I4_def xfer_run[OF assms] xfer_row_def c_bool_def if_distrib[of fst] if_distrib[of snd] fst_conv snd_conv by (rule refl)

theorem xfer_I4_I4_rows_witness:
  "xfer_I4_I4 [10, 20, 30] (Some [1, 0, 1]) 3 [2, 1, - 5] (Some [1, 1, 0]) 3 ([7, 7, 7, 7], Some [9, 9, 9, 9]) =
     (Ret (), ([30, 0, 0, 7], Some [1, 0, 0, 9]))"
  using xfer_I4_I4_rows[of 3 "[2, 1, - 5]" "Some [1, 1, 0]" 3 "[10, 20, 30]" "Some [1, 0, 1]" "[7, 7, 7, 7]" "[9, 9, 9, 9]"]
  by (simp add: covers_def defined_at_def eval_nat_numeral All_less_Suc)

text \<open>C39: \<open>core_wisifxthenyelsez_I4\<close> takes every row from the column, or the value, its condition asks for and marks exactly
  the rows without a value in \<open>nn_W\<close>.  The flag \<open>is_some_null\<close> is false at the start and stays false also when there are
  such rows, and the verb drops \<open>nn_W\<close> when it is false: the rows come out as defined zeros.\<close>

theorem core_wisifxthenyelsez_I4_rows:
  assumes "n \<le> length X" "long_enough n nn_X" "long_enough n in_Y" "long_enough n nn_Y" "long_enough n in_Z" "long_enough n nn_Z"
    and "\<forall>i < n. is_one nn_X i \<longrightarrow> X ! i = 0 \<or> X ! i = 1" and "n \<le> length W" "n \<le> length nn_W"
  shows "core_wisifxthenyelsez_I4 X nn_X (int n) yval in_Y nn_Y zval in_Z nn_Z (W, nn_W, False) = (Ret (),
     (map (\<lambda>i. case chosen_row X nn_X in_Y nn_Y yval in_Z nn_Z zval i of None \<Rightarrow> 0 | Some v \<Rightarrow> v) [0..<n] @ drop n W,
      map (\<lambda>i. c_bool (chosen_row X nn_X in_Y nn_Y yval in_Z nn_Z zval i \<noteq> None)) [0..<n] @ drop n nn_W, False))"
  unfolding core_wisifxthenyelsez_I4_def core_wisifxthenyelsez_run[OF assms] by simp

theorem core_wisifxthenyelsez_I4_rows_witness:
  "core_wisifxthenyelsez_I4 [1, 0, 1] (Some [1, 1, 0]) 3 0 (Some [11, 12, 13]) (Some [0, 1, 1]) 5 None None ([7, 7, 7], [9, 9, 9], False) =
     (Ret (), ([0, 5, 0], [0, 1, 0], False))"
  using core_wisifxthenyelsez_I4_rows[of 3 "[1, 0, 1]" "Some [1, 1, 0]" "Some [11, 12, 13]" "Some [0, 1, 1]" None None "[7, 7, 7]" "[9, 9, 9]" 0 5]
  by (simp add: long_enough_def is_one_def chosen_row_def side_def eval_nat_numeral All_less_Suc)

end
