(* ===== verification/D_Bytes.thy ===== *)
theory D_Bytes
  imports Q_Store K_Prelude
begin

text \<open>
  The data of a field is a file of bytes; a verb maps the file and hands the kernels a pointer to an array of the
  type of the field.  The machine is little endian.  \<open>view\<close> reads the bytes as an array of words, \<open>unview\<close> writes an
  array of words as bytes; a kernel that runs on a view changes the file below it.  \<open>blocks\<close> are the ranges of rows
  a verb works on one after the other.
\<close>

subsection \<open>Words as bytes\<close>

definition le_word :: "byte list \<Rightarrow> 'a::len word" where
  "le_word bs = word_of_int (horner_sum uint 256 bs)"

definition le_bytes :: "'a::len word \<Rightarrow> byte list" where
  "le_bytes w = map (\<lambda>i. ucast (drop_bit (8 * i) w)) [0..<LENGTH('a) div 8]"

lemma length_le_bytes [simp]: "length (le_bytes (w :: 'a::len word)) = LENGTH('a) div 8"
  by (simp add: le_bytes_def)

lemma bit_le_word:
  "bit (le_word bs :: 'a::len word) n \<longleftrightarrow> n < LENGTH('a) \<and> n div 8 < length bs \<and> bit (bs ! (n div 8)) (n mod 8)"
  using bit_horner_sum_uint_exp_iff[of bs n] by (auto simp: le_word_def bit_simps)

lemma bit_le_bytes:
  "i < LENGTH('a) div 8 \<Longrightarrow> bit (le_bytes (w :: 'a::len word) ! i) n \<longleftrightarrow> n < 8 \<and> bit w (8 * i + n)"
  by (auto simp: le_bytes_def bit_simps)

lemma le_word_le_bytes [simp]:
  assumes "8 dvd LENGTH('a)"
  shows "le_word (le_bytes w) = (w :: 'a::len word)"
proof (rule bit_word_eqI)
  fix n assume n: "n < LENGTH('a)"
  then have "n div 8 < LENGTH('a) div 8" using assms by (auto elim!: dvdE)
  then show "bit (le_word (le_bytes w) :: 'a word) n \<longleftrightarrow> bit w n"
    using n by (simp add: bit_le_word bit_le_bytes)
qed

lemma le_bytes_le_word [simp]:
  assumes "length bs * 8 = LENGTH('a)"
  shows "le_bytes (le_word bs :: 'a::len word) = bs"
proof (rule nth_equalityI)
  have k: "LENGTH('a) div 8 = length bs" using assms by (simp flip: assms)
  then show "length (le_bytes (le_word bs :: 'a word)) = length bs" by simp
  fix i assume "i < length (le_bytes (le_word bs :: 'a word))"
  then have i: "i < length bs" using k by simp
  show "le_bytes (le_word bs :: 'a word) ! i = bs ! i"
  proof (rule bit_word_eqI)
    fix n :: nat assume "n < LENGTH(8)"
    then have n: "n < 8" by simp
    then have "8 * i + n < LENGTH('a)" using i by (simp flip: assms)
    then show "bit (le_bytes (le_word bs :: 'a word) ! i) n \<longleftrightarrow> bit (bs ! i) n"
      using i n k by (simp add: bit_le_bytes bit_le_word)
  qed
qed

subsection \<open>Arrays as bytes\<close>

fun view :: "byte list \<Rightarrow> 'a::len word list" where
  "view bs = (let k = LENGTH('a) div 8 in if k = 0 \<or> length bs < k then [] else le_word (take k bs) # view (drop k bs))"

definition unview :: "'a::len word list \<Rightarrow> byte list" where
  "unview ws = concat (map le_bytes ws)"

declare view.simps [simp del]

definition whole_bytes :: "'a::len word itself \<Rightarrow> bool" where
  "whole_bytes t \<longleftrightarrow> 0 < LENGTH('a) div 8 \<and> LENGTH('a) = LENGTH('a) div 8 * 8"

lemma whole_bytes [simp]: "whole_bytes TYPE(I1)" "whole_bytes TYPE(I2)" "whole_bytes TYPE(I4)" "whole_bytes TYPE(I8)"
  by (simp_all add: whole_bytes_def)

lemma length_view [simp]:
  "whole_bytes TYPE('a::len word) \<Longrightarrow> length (view bs :: 'a word list) = length bs div (LENGTH('a) div 8)"
proof (induction bs rule: view.induct[where 'a = 'a])
  case (1 bs)
  let ?k = "LENGTH('a) div 8"
  show ?case
  proof (cases "length bs < ?k")
    case False
    then have "length (view (drop ?k bs) :: 'a word list) = (length bs - ?k) div ?k" using 1 by (auto simp: whole_bytes_def)
    then show ?thesis using False 1(2) by (subst view.simps) (simp add: Let_def whole_bytes_def le_div_geq)
  qed (subst view.simps, simp add: Let_def)
qed

lemma length_unview [simp]: "length (unview (ws :: 'a::len word list)) = length ws * (LENGTH('a) div 8)"
  by (induction ws) (simp_all add: unview_def)

lemma unview_append: "unview (xs @ ys) = unview xs @ unview ys"
  by (simp add: unview_def)

lemma view_unview_append:
  assumes "whole_bytes TYPE('a::len word)"
  shows "view (unview (ws :: 'a word list) @ bs) = ws @ view bs"
proof (induction ws)
  case (Cons w ws)
  have "8 dvd LENGTH('a)" using assms by (metis whole_bytes_def dvd_triv_right)
  then show ?case using Cons assms
    by (subst view.simps) (simp add: unview_def Let_def whole_bytes_def)
qed (simp add: unview_def)

lemma view_unview [simp]: "whole_bytes TYPE('a::len word) \<Longrightarrow> view (unview (ws :: 'a word list)) = ws"
  using view_unview_append[of ws "[]"] by (simp add: view.simps whole_bytes_def)

lemma unview_view:
  "whole_bytes TYPE('a::len word) \<Longrightarrow> unview (view bs :: 'a word list) = take (length bs div (LENGTH('a) div 8) * (LENGTH('a) div 8)) bs"
proof (induction bs rule: view.induct[where 'a = 'a])
  case (1 bs)
  let ?k = "LENGTH('a) div 8"
  show ?case
  proof (cases "length bs < ?k")
    case True
    then show ?thesis by (subst view.simps) (simp add: Let_def unview_def)
  next
    case False
    have "unview (view (drop ?k bs) :: 'a word list) = take ((length bs - ?k) div ?k * ?k) (drop ?k bs)"
      using 1 False by (auto simp: whole_bytes_def)
    moreover have "le_bytes (le_word (take ?k bs) :: 'a word) = take ?k bs"
      using False 1(2) by (intro le_bytes_le_word) (simp add: whole_bytes_def)
    moreover have "length bs div ?k * ?k = ?k + (length bs - ?k) div ?k * ?k"
      using False 1(2) by (simp add: whole_bytes_def le_div_geq)
    ultimately show ?thesis using False 1(2)
      by (subst view.simps) (simp add: Let_def whole_bytes_def unview_def take_add)
  qed
qed

text \<open>A kernel that gets the mapped bytes as an array of its own type, from the row \<open>lb\<close> on: the bytes before the row and
  the bytes that are no whole element stay.\<close>

definition on_view :: "int \<Rightarrow> 'a::len word kernel \<Rightarrow> (byte list, unit) prog" where
  "on_view lb k = (\<lambda>bs. let ws = view bs; (r, out) = k (drop (nat lb) ws); new = unview (take (nat lb) ws @ out)
     in (r, new @ drop (length new) bs))"

lemma view_on_view:
  assumes "whole_bytes TYPE('a::len word)" and "\<And>ws. length (snd (k ws)) = length (ws :: 'a word list)"
  shows "fst (on_view lb k bs) = fst (k (drop (nat lb) (view bs)))"
    and "view (snd (on_view lb k bs)) = take (nat lb) (view bs) @ snd (k (drop (nat lb) (view bs)))"
    and "length (snd (on_view lb k bs)) = length bs"
proof -
  let ?ws = "view bs :: 'a word list"
  obtain r out where k: "k (drop (nat lb) ?ws) = (r, out)" by fastforce
  then have len: "length out = length (drop (nat lb) ?ws)" using assms(2)[of "drop (nat lb) ?ws"] by simp
  let ?m = "length bs div (LENGTH('a) div 8) * (LENGTH('a) div 8)"
  have "length (take (nat lb) ?ws @ out) = length ?ws" using len by (simp del: length_view)
  then have n: "length (unview (take (nat lb) ?ws @ out)) = ?m" using assms(1) by (simp del: length_append)
  show "fst (on_view lb k bs) = fst (k (drop (nat lb) ?ws))" by (simp add: on_view_def k Let_def)
  have "length (drop ?m bs) < LENGTH('a) div 8"
    using assms(1) by (simp add: whole_bytes_def minus_div_mult_eq_mod)
  then have "view (drop ?m bs) = ([] :: 'a word list)" by (subst view.simps) (simp add: Let_def)
  then show "view (snd (on_view lb k bs)) = take (nat lb) ?ws @ snd (k (drop (nat lb) ?ws))"
    using n by (simp add: on_view_def k Let_def view_unview_append[OF assms(1)] del: length_unview)
  show "length (snd (on_view lb k bs)) = length bs"
    using n by (simp add: on_view_def k Let_def del: length_unview)
qed

subsection \<open>Blocks of rows\<close>

definition blocks :: "int \<Rightarrow> int \<Rightarrow> int \<Rightarrow> int \<Rightarrow> (int \<times> int) list" where
  "blocks in_lb in_ub block_size nT = map (\<lambda>tid. let lb = in_lb + int tid * block_size in
     (lb, if int tid = nT - 1 then in_ub else lb + block_size)) [0..<nat nT]"

lemma c_div_rest:
  assumes "0 < n"
  shows "0 \<le> n - c_div n d * d" and "0 < c_div n d \<Longrightarrow> 0 < d"
proof -
  have "n div \<bar>d\<bar> * \<bar>d\<bar> \<le> n"
  proof (cases "d = 0")
    case False
    then have "0 \<le> n mod \<bar>d\<bar>" by simp
    then show ?thesis using div_mult_mod_eq[of n "\<bar>d\<bar>"] by linarith
  qed (use assms in simp)
  then show "0 \<le> n - c_div n d * d" using assms by (cases "d < 0") (simp_all add: c_div_def)
  show "0 < d" if "0 < c_div n d"
  proof (rule ccontr)
    assume "\<not> 0 < d"
    then have "c_div n d = - (n div \<bar>d\<bar>) \<or> d = 0" using assms by (auto simp: c_div_def)
    moreover have "0 \<le> n div \<bar>d\<bar>" using assms by (simp add: div_int_pos_iff)
    moreover have "c_div n 0 = 0" by (simp add: c_div_def)
    ultimately show False using that by auto
  qed
qed

lemma partition_work_Some:
  assumes "partition_work n m mx = Some (block_size, nT)"
  shows "0 < n" and "0 < nT" and "0 < block_size" and "block_size * nT \<le> n"
proof -
  from assms have n: "0 < n" and b: "block_size = c_div n nT" and r: "n - block_size * nT < block_size"
    by (auto simp: partition_work_def Let_def split: if_splits)
  show "0 < n" by (rule n)
  have "0 \<le> n - block_size * nT" using c_div_rest(1)[OF n] b by simp
  then show bs: "0 < block_size" "block_size * nT \<le> n" using r by auto
  then show "0 < nT" using c_div_rest(2)[OF n] b by simp
qed

text \<open>The blocks are not empty and cover the rows in order.\<close>

lemma blocks_nonempty:
  assumes "partition_work (in_ub - in_lb) m mx = Some (block_size, nT)" and "(lb, ub) \<in> set (blocks in_lb in_ub block_size nT)"
  shows "in_lb \<le> lb" and "lb < ub" and "ub \<le> in_ub"
proof -
  note pw = partition_work_Some[OF assms(1)]
  obtain tid where tid: "tid < nat nT" "lb = in_lb + int tid * block_size" "ub = (if int tid = nT - 1 then in_ub else lb + block_size)"
    using assms(2) by (auto simp: blocks_def Let_def)
  then show "in_lb \<le> lb" using pw by simp
  have le: "int tid * block_size + block_size \<le> block_size * nT"
  proof -
    have "(int tid + 1) * block_size \<le> nT * block_size" using tid(1) pw by (intro mult_right_mono) auto
    then show ?thesis by (simp add: algebra_simps)
  qed
  then show "lb < ub" "ub \<le> in_ub" using tid pw by auto
qed

definition rows_in :: "'a list \<Rightarrow> int \<times> int \<Rightarrow> 'a list" where
  "rows_in xs = (\<lambda>(lb, ub). take (nat (ub - lb)) (drop (nat lb) xs))"

lemma rows_in_append:
  assumes "0 \<le> a" "a \<le> b" "b \<le> c"
  shows "rows_in xs (a, b) @ rows_in xs (b, c) = rows_in xs (a, c)"
proof -
  have "nat b = nat a + nat (b - a)" "nat (c - a) = nat (b - a) + nat (c - b)" using assms by auto
  then show ?thesis by (simp add: rows_in_def take_add drop_drop add.commute)
qed

lemma blocks_cover:
  assumes "partition_work (in_ub - in_lb) m mx = Some (block_size, nT)" and "0 \<le> in_lb"
  shows "concat (map (rows_in xs) (blocks in_lb in_ub block_size nT)) = rows_in xs (in_lb, in_ub)"
proof -
  note pw = partition_work_Some[OF assms(1)]
  let ?lb = "\<lambda>tid. in_lb + int tid * block_size"
  define k where "k = nat nT - 1"
  have k: "nat nT = Suc k" "int k = nT - 1" using pw(2) by (auto simp: k_def)
  have front: "concat (map (\<lambda>tid. rows_in xs (?lb tid, ?lb tid + block_size)) [0..<j]) = rows_in xs (in_lb, ?lb j)" if "j \<le> k" for j
    using that
  proof (induction j)
    case (Suc j)
    have "0 \<le> int j * block_size" using pw(3) by simp
    then show ?case using Suc pw(3) assms(2)
      rows_in_append[of in_lb "?lb j" "?lb j + block_size" xs] by (simp add: algebra_simps)
  qed (simp add: rows_in_def)
  have "blocks in_lb in_ub block_size nT = map (\<lambda>tid. (?lb tid, ?lb tid + block_size)) [0..<k] @ [(?lb k, in_ub)]"
    using k(2) by (auto simp: blocks_def Let_def k(1) simp flip: k(2))
  moreover have "int k * block_size \<le> in_ub - in_lb" "0 \<le> int k * block_size"
    using pw k(2) by (auto simp: algebra_simps)
  ultimately show ?thesis using front[of k] rows_in_append[of in_lb "?lb k" in_ub xs] assms(2)
    by (simp add: comp_def)
qed

text \<open>Blocks that follow one another; every partition gives such blocks.\<close>

fun chain :: "int \<Rightarrow> (int \<times> int) list \<Rightarrow> int \<Rightarrow> bool" where
  "chain a [] b \<longleftrightarrow> a = b"
| "chain a ((lb, ub) # bl) b \<longleftrightarrow> lb = a \<and> lb < ub \<and> chain ub bl b"

lemma chain_append: "chain a (xs @ ys) c \<longleftrightarrow> (\<exists>b. chain a xs b \<and> chain b ys c)"
  by (induction a xs c rule: chain.induct) auto

lemma chain_le: "chain a bl b \<Longrightarrow> a \<le> b"
  by (induction a bl b rule: chain.induct) auto

lemma blocks_split:
  assumes "0 < nT"
  shows "blocks in_lb in_ub block_size nT = map (\<lambda>tid. (in_lb + int tid * block_size, in_lb + int tid * block_size + block_size)) [0..<nat nT - 1] @
    [(in_lb + (nT - 1) * block_size, in_ub)]"
proof -
  obtain k where k: "nat nT = Suc k" "int k = nT - 1" using assms by (cases "nat nT") auto
  then show ?thesis by (auto simp: blocks_def Let_def simp flip: k(2))
qed

lemma blocks_chain:
  assumes "partition_work (in_ub - in_lb) m mx = Some (block_size, nT)"
  shows "chain in_lb (blocks in_lb in_ub block_size nT) in_ub"
proof -
  note pw = partition_work_Some[OF assms]
  have front: "chain in_lb (map (\<lambda>tid. (in_lb + int tid * block_size, in_lb + int tid * block_size + block_size)) [0..<j]) (in_lb + int j * block_size)" for j
    using pw(3) by (induction j) (auto simp: chain_append algebra_simps)
  have "(nT - 1) * block_size < in_ub - in_lb" using pw(3,4) by (simp add: algebra_simps)
  moreover have "int (nat nT - 1) = nT - 1" using pw(2) by simp
  ultimately show ?thesis using front[of "nat nT - 1"] unfolding blocks_split[OF pw(2)] chain_append by auto
qed

end
