(* ===== verification/D_Scalar.thy ===== *)
theory D_Scalar
  imports D_Bytes K_Reduce K_Bits K_Scan
begin

text \<open>
  \<open>par_f_to_s\<close> reduces a column to a sum, a minimum or a maximum, block by block, and prints the result with the
  number of defined rows (\<open>dir_helpers/par_f_to_s.c\<close>); \<open>ext_f_to_s\<close> is the verb.  The floating-point unit is a
  parameter: the values of bit patterns, their order, their addition, the limits of
  \<open>float.h\<close>, the format \<open>%lf\<close>, \<open>strtod\<close> and the bit pattern of a value stored as a \<open>float\<close>.
  The text in the result buffer after an error is not modelled.
\<close>

subsection \<open>Floating-point columns\<close>

record 'd fpu =
  F4_of :: "I4 \<Rightarrow> 'd"
  F8_of :: "I8 \<Rightarrow> 'd"
  f_less :: "'d \<Rightarrow> 'd \<Rightarrow> bool"
  f_add :: "'d \<Rightarrow> 'd \<Rightarrow> 'd"
  f_zero :: 'd
  flt_max :: 'd
  flt_min :: 'd
  dbl_max :: 'd
  dbl_min :: 'd
  show_lf :: "'d \<Rightarrow> string"
  strtod :: "string \<Rightarrow> 'd \<times> string"
  F4_bits :: "'d \<Rightarrow> I4"

definition fsum_col :: "'d fpu \<Rightarrow> 'd list \<Rightarrow> int \<Rightarrow> ('d, unit) prog" where
  "fsum_col fpu X nX = rows (\<lambda>i. bind (read_at X i) (\<lambda>x. modify (\<lambda>rslt. f_add fpu rslt x))) nX"

definition fmin_col :: "'d fpu \<Rightarrow> 'd list \<Rightarrow> int \<Rightarrow> ('d, unit) prog" where
  "fmin_col fpu X nX = rows (\<lambda>i. bind (read_at X i) (\<lambda>x. modify (\<lambda>rslt. if f_less fpu x rslt then x else rslt))) nX"

definition fmax_col :: "'d fpu \<Rightarrow> 'd list \<Rightarrow> int \<Rightarrow> ('d, unit) prog" where
  "fmax_col fpu X nX = rows (\<lambda>i. bind (read_at X i) (\<lambda>x. modify (\<lambda>rslt. if f_less fpu rslt x then x else rslt))) nX"

definition nn_fsum_col :: "'d fpu \<Rightarrow> 'd list \<Rightarrow> I1 list \<Rightarrow> int \<Rightarrow> (I8 \<times> 'd, unit) prog" where
  "nn_fsum_col fpu X nn_X nX = nn_rows X nn_X nX (\<lambda>x rslt. f_add fpu rslt x)"

definition nn_fmin_col :: "'d fpu \<Rightarrow> 'd list \<Rightarrow> I1 list \<Rightarrow> int \<Rightarrow> (I8 \<times> 'd, unit) prog" where
  "nn_fmin_col fpu X nn_X nX = bind (gets snd) (\<lambda>ptr_rslt. nn_rows X nn_X nX (\<lambda>x rslt. if f_less fpu x ptr_rslt then x else rslt))"

definition nn_fmax_col :: "'d fpu \<Rightarrow> 'd list \<Rightarrow> I1 list \<Rightarrow> int \<Rightarrow> (I8 \<times> 'd, unit) prog" where
  "nn_fmax_col fpu X nn_X nX = bind (gets snd) (\<lambda>ptr_rslt. nn_rows X nn_X nX (\<lambda>x rslt. if f_less fpu ptr_rslt x then x else rslt))"

definition f_to_s_sum_F4 :: "'d fpu \<Rightarrow> 'd list \<Rightarrow> int \<Rightarrow> ('d, unit) prog" where
  "f_to_s_sum_F4 = fsum_col"

definition nn_f_to_s_sum_F4 :: "'d fpu \<Rightarrow> 'd list \<Rightarrow> I1 list \<Rightarrow> int \<Rightarrow> (I8 \<times> 'd, unit) prog" where
  "nn_f_to_s_sum_F4 = nn_fsum_col"

definition f_to_s_sum_F8 :: "'d fpu \<Rightarrow> 'd list \<Rightarrow> int \<Rightarrow> ('d, unit) prog" where
  "f_to_s_sum_F8 = fsum_col"

definition nn_f_to_s_sum_F8 :: "'d fpu \<Rightarrow> 'd list \<Rightarrow> I1 list \<Rightarrow> int \<Rightarrow> (I8 \<times> 'd, unit) prog" where
  "nn_f_to_s_sum_F8 = nn_fsum_col"

definition f_to_s_min_F4 :: "'d fpu \<Rightarrow> 'd list \<Rightarrow> int \<Rightarrow> ('d, unit) prog" where
  "f_to_s_min_F4 = fmin_col"

definition nn_f_to_s_min_F4 :: "'d fpu \<Rightarrow> 'd list \<Rightarrow> I1 list \<Rightarrow> int \<Rightarrow> (I8 \<times> 'd, unit) prog" where
  "nn_f_to_s_min_F4 = nn_fmin_col"

definition f_to_s_min_F8 :: "'d fpu \<Rightarrow> 'd list \<Rightarrow> int \<Rightarrow> ('d, unit) prog" where
  "f_to_s_min_F8 = fmin_col"

definition nn_f_to_s_min_F8 :: "'d fpu \<Rightarrow> 'd list \<Rightarrow> I1 list \<Rightarrow> int \<Rightarrow> (I8 \<times> 'd, unit) prog" where
  "nn_f_to_s_min_F8 = nn_fmin_col"

definition f_to_s_max_F4 :: "'d fpu \<Rightarrow> 'd list \<Rightarrow> int \<Rightarrow> ('d, unit) prog" where
  "f_to_s_max_F4 = fmax_col"

definition nn_f_to_s_max_F4 :: "'d fpu \<Rightarrow> 'd list \<Rightarrow> I1 list \<Rightarrow> int \<Rightarrow> (I8 \<times> 'd, unit) prog" where
  "nn_f_to_s_max_F4 = nn_fmax_col"

definition f_to_s_max_F8 :: "'d fpu \<Rightarrow> 'd list \<Rightarrow> int \<Rightarrow> ('d, unit) prog" where
  "f_to_s_max_F8 = fmax_col"

definition nn_f_to_s_max_F8 :: "'d fpu \<Rightarrow> 'd list \<Rightarrow> I1 list \<Rightarrow> int \<Rightarrow> (I8 \<times> 'd, unit) prog" where
  "nn_f_to_s_max_F8 = nn_fmax_col"

subsection \<open>One block\<close>

record 'd part =
  p_cnt :: I8
  p_ll :: I8
  p_dd :: 'd

text \<open>\<open>call\<close> runs a reduction on a variable of its caller.\<close>

definition call :: "('r, unit) prog \<Rightarrow> 'r \<Rightarrow> ('s, 'r) prog" where
  "call p r = (\<lambda>s. case p r of (Ret _, r') \<Rightarrow> (Ret r', s) | (Bye, _) \<Rightarrow> (Bye, s) | (Fault, _) \<Rightarrow> (Fault, s))"

definition int_part :: "'d fpu \<Rightarrow> ('a::len word, unit) prog \<Rightarrow> 'a word \<Rightarrow> I8 \<Rightarrow> ('s, 'd part) prog" where
  "int_part fpu p start c = bind (call p start) (\<lambda>v. ret \<lparr>p_cnt = c, p_ll = scast v, p_dd = f_zero fpu\<rparr>)"

definition nn_int_part :: "'d fpu \<Rightarrow> (I8 \<times> 'a::len word, unit) prog \<Rightarrow> 'a word \<Rightarrow> ('s, 'd part) prog" where
  "nn_int_part fpu p start = bind (call p (0, start)) (\<lambda>(c, v). ret \<lparr>p_cnt = c, p_ll = scast v, p_dd = f_zero fpu\<rparr>)"

definition flt_part :: "('d, unit) prog \<Rightarrow> 'd \<Rightarrow> I8 \<Rightarrow> ('s, 'd part) prog" where
  "flt_part p start c = bind (call p start) (\<lambda>v. ret \<lparr>p_cnt = c, p_ll = 0, p_dd = v\<rparr>)"

definition nn_flt_part :: "(I8 \<times> 'd, unit) prog \<Rightarrow> 'd \<Rightarrow> ('s, 'd part) prog" where
  "nn_flt_part p start = bind (call p (0, start)) (\<lambda>(c, v). ret \<lparr>p_cnt = c, p_ll = 0, p_dd = v\<rparr>)"

definition arr :: "int \<Rightarrow> byte list \<Rightarrow> 'a::len word list" where
  "arr lb X = drop (nat lb) (view X)"

definition min_part :: "'d fpu \<Rightarrow> byte list \<Rightarrow> FLD_TYPE \<Rightarrow> I1 list option \<Rightarrow> int \<Rightarrow> int \<Rightarrow> ('s, 'd part) prog" where
  "min_part fpu X ft nn_X lb ub = (let nX = ub - lb; n = word_of_int nX in case nn_X of
     None \<Rightarrow> (case ft of
       I1 \<Rightarrow> int_part fpu (f_to_s_min_I1 (arr lb X) nX) 0x7F n
     | I2 \<Rightarrow> int_part fpu (f_to_s_min_I2 (arr lb X) nX) 0x7FFF n
     | I4 \<Rightarrow> int_part fpu (f_to_s_min_I4 (arr lb X) nX) 0x7FFFFFFF n
     | I8 \<Rightarrow> int_part fpu (f_to_s_min_I8 (arr lb X) nX) 0x7FFFFFFFFFFFFFFF n
     | F4 \<Rightarrow> flt_part (f_to_s_min_F4 fpu (map (F4_of fpu) (arr lb X)) nX) (flt_max fpu) n
     | F8 \<Rightarrow> flt_part (f_to_s_min_F8 fpu (map (F8_of fpu) (arr lb X)) nX) (dbl_max fpu) n
     | _ \<Rightarrow> bye)
   | Some nnX \<Rightarrow> (case ft of
       I1 \<Rightarrow> nn_int_part fpu (nn_f_to_s_min_I1 (arr lb X) (drop (nat lb) nnX) nX) 0x7F
     | I2 \<Rightarrow> nn_int_part fpu (nn_f_to_s_min_I2 (arr lb X) (drop (nat lb) nnX) nX) 0x7FFF
     | I4 \<Rightarrow> nn_int_part fpu (nn_f_to_s_min_I4 (arr lb X) (drop (nat lb) nnX) nX) 0x7FFFFFFF
     | I8 \<Rightarrow> nn_int_part fpu (nn_f_to_s_min_I8 (arr lb X) (drop (nat lb) nnX) nX) 0x7FFFFFFFFFFFFFFF
     | F4 \<Rightarrow> nn_flt_part (nn_f_to_s_min_F4 fpu (map (F4_of fpu) (arr lb X)) (drop (nat lb) nnX) nX) (flt_max fpu)
     | F8 \<Rightarrow> nn_flt_part (nn_f_to_s_min_F8 fpu (map (F8_of fpu) (arr lb X)) (drop (nat lb) nnX) nX) (dbl_max fpu)
     | _ \<Rightarrow> bye))"

definition max_part :: "'d fpu \<Rightarrow> byte list \<Rightarrow> FLD_TYPE \<Rightarrow> I1 list option \<Rightarrow> int \<Rightarrow> int \<Rightarrow> ('s, 'd part) prog" where
  "max_part fpu X ft nn_X lb ub = (let nX = ub - lb; n = word_of_int nX in case nn_X of
     None \<Rightarrow> (case ft of
       I1 \<Rightarrow> int_part fpu (f_to_s_max_I1 (arr lb X) nX) 0x80 n
     | I2 \<Rightarrow> int_part fpu (f_to_s_max_I2 (arr lb X) nX) 0x8000 n
     | I4 \<Rightarrow> int_part fpu (f_to_s_max_I4 (arr lb X) nX) 0x80000000 n
     | I8 \<Rightarrow> int_part fpu (f_to_s_max_I8 (arr lb X) nX) 0x8000000000000000 n
     | F4 \<Rightarrow> flt_part (f_to_s_max_F4 fpu (map (F4_of fpu) (arr lb X)) nX) (flt_min fpu) n
     | F8 \<Rightarrow> flt_part (f_to_s_max_F8 fpu (map (F8_of fpu) (arr lb X)) nX) (dbl_min fpu) n
     | _ \<Rightarrow> bye)
   | Some nnX \<Rightarrow> (case ft of
       I1 \<Rightarrow> nn_int_part fpu (nn_f_to_s_max_I1 (arr lb X) (drop (nat lb) nnX) nX) 0x80
     | I2 \<Rightarrow> nn_int_part fpu (nn_f_to_s_max_I2 (arr lb X) (drop (nat lb) nnX) nX) 0x8000
     | I4 \<Rightarrow> nn_int_part fpu (nn_f_to_s_max_I4 (arr lb X) (drop (nat lb) nnX) nX) 0x80000000
     | I8 \<Rightarrow> nn_int_part fpu (nn_f_to_s_max_I8 (arr lb X) (drop (nat lb) nnX) nX) 0x8000000000000000
     | F4 \<Rightarrow> nn_flt_part (nn_f_to_s_max_F4 fpu (map (F4_of fpu) (arr lb X)) (drop (nat lb) nnX) nX) (flt_min fpu)
     | F8 \<Rightarrow> nn_flt_part (nn_f_to_s_max_F8 fpu (map (F8_of fpu) (arr lb X)) (drop (nat lb) nnX) nX) (dbl_min fpu)
     | _ \<Rightarrow> bye))"

definition sum_part :: "'d fpu \<Rightarrow> byte list \<Rightarrow> FLD_TYPE \<Rightarrow> I1 list option \<Rightarrow> int \<Rightarrow> int \<Rightarrow> ('s, 'd part) prog" where
  "sum_part fpu X ft nn_X lb ub = (let nX = ub - lb; n = word_of_int nX in case nn_X of
     None \<Rightarrow> (case ft of
       B \<Rightarrow> bind (lift_out (f_to_s_sum_B X lb ub 0)) (\<lambda>v. ret \<lparr>p_cnt = n, p_ll = word_of_int v, p_dd = f_zero fpu\<rparr>)
     | I1 \<Rightarrow> int_part fpu (f_to_s_sum_I1 (arr lb X) nX) 0 n
     | I2 \<Rightarrow> int_part fpu (f_to_s_sum_I2 (arr lb X) nX) 0 n
     | I4 \<Rightarrow> int_part fpu (f_to_s_sum_I4 (arr lb X) nX) 0 n
     | I8 \<Rightarrow> int_part fpu (f_to_s_sum_I8 (arr lb X) nX) 0 n
     | F4 \<Rightarrow> flt_part (f_to_s_sum_F4 fpu (map (F4_of fpu) (arr lb X)) nX) (f_zero fpu) n
     | F8 \<Rightarrow> flt_part (f_to_s_sum_F8 fpu (map (F8_of fpu) (arr lb X)) nX) (f_zero fpu) n
     | _ \<Rightarrow> bye)
   | Some nnX \<Rightarrow> (case ft of
       I1 \<Rightarrow> nn_int_part fpu (nn_f_to_s_sum_I1 (arr lb X) (drop (nat lb) nnX) nX) 0
     | I2 \<Rightarrow> nn_int_part fpu (nn_f_to_s_sum_I2 (arr lb X) (drop (nat lb) nnX) nX) 0
     | I4 \<Rightarrow> nn_int_part fpu (nn_f_to_s_sum_I4 (arr lb X) (drop (nat lb) nnX) nX) 0
     | I8 \<Rightarrow> nn_int_part fpu (nn_f_to_s_sum_I8 (arr lb X) (drop (nat lb) nnX) nX) 0
     | F4 \<Rightarrow> nn_flt_part (nn_f_to_s_sum_F4 fpu (map (F4_of fpu) (arr lb X)) (drop (nat lb) nnX) nX) (f_zero fpu)
     | F8 \<Rightarrow> nn_flt_part (nn_f_to_s_sum_F8 fpu (map (F8_of fpu) (arr lb X)) (drop (nat lb) nnX) nX) (f_zero fpu)
     | _ \<Rightarrow> bye))"

definition part_of :: "'d fpu \<Rightarrow> byte list \<Rightarrow> FLD_TYPE \<Rightarrow> I1 list option \<Rightarrow> string \<Rightarrow> int \<times> int \<Rightarrow> ('s, 'd part) prog" where
  "part_of fpu X ft nn_X op = (\<lambda>(lb, ub). if lb \<ge> ub then bye
     else if op = ''min'' then min_part fpu X ft nn_X lb ub
     else if op = ''max'' then max_part fpu X ft nn_X lb ub
     else if op = ''sum'' then sum_part fpu X ft nn_X lb ub
     else bye)"

subsection \<open>Putting the blocks together\<close>

definition lld :: "I8 \<Rightarrow> string" where
  "lld v = dec_int (sint v)"

definition comb_step :: "('v \<Rightarrow> 'v \<Rightarrow> bool) \<Rightarrow> ('d part \<Rightarrow> 'v) \<Rightarrow> 'd part \<Rightarrow> I8 \<times> 'v \<Rightarrow> I8 \<times> 'v" where
  "comb_step less_v val p = (\<lambda>(cum_nn_cnt, best_val). if 0 <s p_cnt p
     then (cum_nn_cnt + p_cnt p, if less_v (val p) best_val then val p else best_val) else (cum_nn_cnt, best_val))"

definition comb_int :: "(I8 \<Rightarrow> I8 \<Rightarrow> bool) \<Rightarrow> I8 \<Rightarrow> 'd part list \<Rightarrow> string" where
  "comb_int less_v start parts = (let (c, v) = fold (comb_step less_v p_ll) parts (0, start) in lld v @ '':'' @ lld c)"

definition comb_flt :: "'d fpu \<Rightarrow> ('d \<Rightarrow> 'd \<Rightarrow> bool) \<Rightarrow> 'd \<Rightarrow> 'd part list \<Rightarrow> string" where
  "comb_flt fpu less_v start parts = (let (c, v) = fold (comb_step less_v p_dd) parts (0, start) in show_lf fpu v @ '':'' @ lld c)"

definition combine :: "'d fpu \<Rightarrow> FLD_TYPE \<Rightarrow> string \<Rightarrow> 'd part list \<Rightarrow> ('s, string) prog" where
  "combine fpu ft op parts = (let nT = int (length parts) in
     if op = ''min'' then (case ft of
         I1 \<Rightarrow> ret (comb_int (<s) 0x7FFFFFFFFFFFFFFF parts)
       | I2 \<Rightarrow> ret (comb_int (<s) 0x7FFFFFFFFFFFFFFF parts)
       | I4 \<Rightarrow> ret (comb_int (<s) 0x7FFFFFFFFFFFFFFF parts)
       | I8 \<Rightarrow> ret (comb_int (<s) 0x7FFFFFFFFFFFFFFF parts)
       | F4 \<Rightarrow> ret (comb_flt fpu (f_less fpu) (dbl_max fpu) parts)
       | F8 \<Rightarrow> ret (comb_flt fpu (f_less fpu) (dbl_max fpu) parts)
       | _ \<Rightarrow> bye)
     else if op = ''max'' then (case ft of
         I1 \<Rightarrow> ret (comb_int (\<lambda>x y. y <s x) 0x8000000000000000 parts)
       | I2 \<Rightarrow> ret (comb_int (\<lambda>x y. y <s x) 0x8000000000000000 parts)
       | I4 \<Rightarrow> ret (comb_int (\<lambda>x y. y <s x) 0x8000000000000000 parts)
       | I8 \<Rightarrow> ret (comb_int (\<lambda>x y. y <s x) 0x8000000000000000 parts)
       | F4 \<Rightarrow> ret (comb_flt fpu (\<lambda>x y. f_less fpu y x) (dbl_min fpu) parts)
       | F8 \<Rightarrow> ret (comb_flt fpu (\<lambda>x y. f_less fpu y x) (dbl_min fpu) parts)
       | _ \<Rightarrow> bye)
     else if op = ''sum'' then bind (call (f_to_s_sum_I8 (map p_cnt parts) nT) 0) (\<lambda>cum_nn_cnt.
       if ft \<in> {B, I1, I2, I4, I8} then bind (call (f_to_s_sum_I8 (map p_ll parts) nT) 0) (\<lambda>ll_sum. ret (lld ll_sum @ '':'' @ lld cum_nn_cnt))
       else if ft \<in> {F4, F8} then bind (call (f_to_s_sum_F8 fpu (map p_dd parts) nT) (f_zero fpu)) (\<lambda>dd_sum. ret (show_lf fpu dd_sum @ '':'' @ lld cum_nn_cnt))
       else bye)
     else bye)"

fun map_prog :: "('a \<Rightarrow> ('s, 'b) prog) \<Rightarrow> 'a list \<Rightarrow> ('s, 'b list) prog" where
  "map_prog f [] = ret []"
| "map_prog f (x # xs) = bind (f x) (\<lambda>y. bind (map_prog f xs) (\<lambda>ys. ret (y # ys)))"

definition par_f_to_s :: "'d fpu \<Rightarrow> int \<Rightarrow> byte list \<Rightarrow> FLD_TYPE \<Rightarrow> I1 list option \<Rightarrow> int \<Rightarrow> int \<Rightarrow> string \<Rightarrow> ('s, string) prog" where
  "par_f_to_s fpu g_num_cores X ft nn_X in_lb in_ub op =
     seq (guard (c_div in_lb 1024 * 1024 = in_lb))
     (bind (of_option (partition_work (in_ub - in_lb) 1024 (g_num_cores * g_num_cores))) (\<lambda>(block_size, nT).
      bind (map_prog (part_of fpu X ft nn_X op) (blocks in_lb in_ub block_size nT)) (combine fpu ft op)))"

subsection \<open>What a block computes\<close>

text \<open>The numbers in an integer column.\<close>

definition ints_of :: "FLD_TYPE \<Rightarrow> byte list \<Rightarrow> int list" where
  "ints_of ft X = (case ft of I1 \<Rightarrow> map sint (view X :: I1 list) | I2 \<Rightarrow> map sint (view X :: I2 list)
     | I4 \<Rightarrow> map sint (view X :: I4 list) | I8 \<Rightarrow> map sint (view X :: I8 list) | _ \<Rightarrow> [])"

definition wrap64 :: "int \<Rightarrow> int" where
  "wrap64 z = sint (word_of_int z :: I8)"

definition fits :: "int \<Rightarrow> bool" where
  "fits z \<longleftrightarrow> - (2 ^ 63) \<le> z \<and> z < 2 ^ 63"

lemma fits_sint: "fits z \<Longrightarrow> sint (word_of_int z :: I8) = z"
  by (simp add: fits_def sint_sbintrunc' signed_take_bit_int_eq_self)

lemma sint_fits: "LENGTH('a) \<le> 64 \<Longrightarrow> fits (sint (w :: 'a::len word))"
proof -
  assume "LENGTH('a) \<le> 64"
  then have "(2 :: int) ^ (LENGTH('a) - 1) \<le> 2 ^ 63" by (intro power_increasing) auto
  then show ?thesis using sint_lt[of w] sint_ge[of w] by (simp add: fits_def)
qed

lemma sint_widened: "LENGTH('a) \<le> 64 \<Longrightarrow> sint (scast (w :: 'a::len word) :: I8) = sint w"
  unfolding scast_eq[of w] by (rule fits_sint[OF sint_fits])

lemma ints_of_fits: "x \<in> set (ints_of ft X) \<Longrightarrow> fits x"
  by (auto simp: ints_of_def sint_fits split: FLD_TYPE.splits)

lemma call_run: "p r = (Ret (), r') \<Longrightarrow> call p r s = (Ret r', s)"
  by (simp add: call_def)

lemma take_arr:
  assumes "0 \<le> lb" "lb \<le> ub"
  shows "map sint (take (nat (ub - lb)) (arr lb X :: 'a::len word list)) = rows_in (map sint (view X :: 'a word list)) (lb, ub)"
  by (simp add: arr_def rows_in_def take_map drop_map)

lemma arr_length: "0 \<le> lb \<Longrightarrow> lb \<le> ub \<Longrightarrow> ub \<le> int (length (view X :: 'a::len word list)) \<Longrightarrow>
   nat (ub - lb) \<le> length (arr lb X :: 'a word list)"
  unfolding arr_def length_drop by linarith

lemma int_part_sum:
  fixes X :: "byte list"
  assumes "0 \<le> lb" "lb \<le> ub" "ub \<le> int (length (view X :: 'a::len word list))"
  shows "int_part fpu (sum_col (arr lb X :: 'a word list) (ub - lb)) 0 c s =
    (Ret \<lparr>p_cnt = c, p_ll = word_of_int (sum_list (rows_in (map sint (view X :: 'a word list)) (lb, ub))), p_dd = f_zero fpu\<rparr>, s)"
  unfolding int_part_def bind_def call_run[OF sum_col_run[OF arr_length[OF assms]]] take_arr[OF assms(1,2)]
  by (simp add: ret_def)

lemma sum_part_run:
  assumes "ft \<in> {I1, I2, I4, I8}" and "0 \<le> lb" "lb \<le> ub" "ub \<le> int (length (ints_of ft X))"
  shows "sum_part fpu X ft None lb ub s = (Ret \<lparr>p_cnt = word_of_int (ub - lb),
    p_ll = word_of_int (sum_list (rows_in (ints_of ft X) (lb, ub))), p_dd = f_zero fpu\<rparr>, s)"
proof -
  have "ft = I1 \<or> ft = I2 \<or> ft = I4 \<or> ft = I8" using assms(1) by simp
  then show ?thesis using assms(4)
    by (elim disjE) (simp_all only: sum_part_def Let_def ints_of_def FLD_TYPE.case option.case length_map
      f_to_s_sum_I1_def f_to_s_sum_I2_def f_to_s_sum_I4_def f_to_s_sum_I8_def int_part_sum[OF assms(2,3)])
qed

text \<open>Minimum and maximum are treated alike: \<open>pick\<close> chooses one of two numbers, the first when it is better.\<close>

locale extremum = semilattice pick for pick :: "int \<Rightarrow> int \<Rightarrow> int" +
  fixes better :: "int \<Rightarrow> int \<Rightarrow> bool"
  assumes pick_better: "pick x y = (if better x y then x else y)"
begin

definition of_list :: "int list \<Rightarrow> int" where
  "of_list xs = fold pick (tl xs) (hd xs)"

lemma fold_pick: "fold pick xs (pick a b) = pick (fold pick xs a) b"
  by (induction xs arbitrary: a) (simp_all flip: assoc)

lemma pick_cases: "pick x y = x \<or> pick x y = y"
  by (simp add: pick_better)

lemma fold_of_list: "xs \<noteq> [] \<Longrightarrow> fold pick xs a = pick (of_list xs) a"
  by (cases xs) (simp_all add: of_list_def fold_pick)

lemma fold_blocks:
  "\<forall>b \<in> set bl. b \<noteq> [] \<Longrightarrow> fold (\<lambda>b m. pick (of_list b) m) bl a = fold pick (concat bl) a"
  by (induction bl arbitrary: a) (simp_all add: fold_of_list)

lemma fold_words: "sint (fold (\<lambda>x r. if better (sint x) (sint r) then x else r) xs r) = fold pick (map sint xs) (sint r)"
  by (induction xs arbitrary: r) (simp_all add: pick_better)

lemma of_list_mem: "xs \<noteq> [] \<Longrightarrow> of_list xs \<in> set xs"
proof (induction xs rule: rev_induct)
  case (snoc x xs)
  have "of_list (xs @ [x]) = (if xs = [] then x else pick x (of_list xs))" by (simp add: of_list_def)
  then show ?case using snoc pick_cases[of x "of_list xs"] by auto
qed simp

text \<open>The loop over the partial results.\<close>

lemma comb_blocks:
  fixes part :: "'b \<Rightarrow> 'd part"
  assumes "\<And>x y. less_v x y = better (sint x) (sint y)"
    and "\<forall>b \<in> set bl. part b = \<lparr>p_cnt = word_of_int (c b), p_ll = word_of_int (of_list (xs b)), p_dd = z\<rparr> \<and>
       0 < c b \<and> fits (c b) \<and> xs b \<noteq> [] \<and> (\<forall>x \<in> set (xs b). fits x)"
    and "fits m"
  shows "fold (comb_step less_v p_ll) (map part bl) (word_of_int k, word_of_int m) =
    (word_of_int (k + (\<Sum>b \<leftarrow> bl. c b)), word_of_int (fold pick (concat (map xs bl)) m))"
  using assms(2,3)
proof (induction bl arbitrary: k m)
  case (Cons b bl)
  then have b: "part b = \<lparr>p_cnt = word_of_int (c b), p_ll = word_of_int (of_list (xs b)), p_dd = z\<rparr>"
    "0 < c b" "fits (c b)" "xs b \<noteq> []" "fits (of_list (xs b))"
    using of_list_mem by auto
  then have "comb_step less_v p_ll (part b) (word_of_int k, word_of_int m) =
      (word_of_int (k + c b), word_of_int (pick (of_list (xs b)) m))"
    using Cons.prems(2) by (simp add: comb_step_def signed_less_sint fits_sint assms(1) pick_better)
  moreover have "fits (pick (of_list (xs b)) m)" using b Cons.prems(2) by (simp add: pick_better)
  ultimately show ?case using Cons.IH[of "pick (of_list (xs b)) m" "k + c b"] Cons.prems b(4) by (simp add: fold_of_list add.assoc)
qed simp

end

interpretation lo: extremum min "(<)"
  by unfold_locales auto

interpretation hi: extremum max "(>)"
  by unfold_locales auto

lemma lo_Min: "xs \<noteq> [] \<Longrightarrow> lo.of_list xs = Min (set xs)"
  by (cases xs) (simp_all add: lo.of_list_def Min.set_eq_fold[symmetric] del: set_simps)

lemma hi_Max: "xs \<noteq> [] \<Longrightarrow> hi.of_list xs = Max (set xs)"
  by (cases xs) (simp_all add: hi.of_list_def Max.set_eq_fold[symmetric] del: set_simps)

lemma rows_in_nonempty: "0 \<le> lb \<Longrightarrow> lb < ub \<Longrightarrow> ub \<le> int (length xs) \<Longrightarrow> rows_in xs (lb, ub) \<noteq> []"
  by (auto simp: rows_in_def)

lemma rows_in_subset: "set (rows_in xs b) \<subseteq> set xs"
  by (auto simp: rows_in_def split: prod.splits dest!: in_set_takeD in_set_dropD)

context extremum
begin

lemma int_part_pick:
  fixes X :: "byte list"
  assumes run: "\<And>r. k r = (Ret (), fold (\<lambda>x r. if better (sint x) (sint r) then x else r)
      (take (nat (ub - lb)) (arr lb X :: 'a::len word list)) r)"
    and b: "0 \<le> lb" "lb < ub" "ub \<le> int (length (view X :: 'a word list))"
    and lim: "\<And>w :: 'a word. pick (sint w) (sint lim) = sint w"
  shows "int_part fpu k lim c s = (Ret \<lparr>p_cnt = c,
    p_ll = word_of_int (of_list (rows_in (map sint (view X :: 'a word list)) (lb, ub))), p_dd = f_zero fpu\<rparr>, s)"
proof -
  let ?xs = "rows_in (map sint (view X :: 'a word list)) (lb, ub)"
  let ?b = "fold (\<lambda>x r. if better (sint x) (sint r) then x else r) (take (nat (ub - lb)) (arr lb X :: 'a word list)) lim"
  have ne: "?xs \<noteq> []" using b by (intro rows_in_nonempty) simp_all
  then obtain w :: "'a word" where w: "of_list ?xs = sint w"
    using of_list_mem[OF ne] rows_in_subset[of "map sint (view X :: 'a word list)" "(lb, ub)"] by auto
  have "sint ?b = fold pick ?xs (sint lim)" 
    unfolding fold_words take_arr[OF b(1) less_imp_le[OF b(2)]] by (rule refl)
  also have "\<dots> = of_list ?xs" using w lim by (simp add: fold_of_list[OF ne])
  finally have "scast ?b = (word_of_int (of_list ?xs) :: I8)" using scast_eq[of ?b] by (rule back_subst[where P = "\<lambda>v. scast ?b = word_of_int v", rotated])
  then show ?thesis unfolding int_part_def bind_def call_run[OF run] by (simp add: ret_def)
qed

end

lemma min_col_words: "nat nX \<le> length X \<Longrightarrow>
    min_col X nX r = (Ret (), fold (\<lambda>x r. if sint x < sint r then x else r) (take (nat nX) X) r)"
  by (simp add: min_col_run best_def)

lemma max_col_words: "nat nX \<le> length X \<Longrightarrow>
    max_col X nX r = (Ret (), fold (\<lambda>x r. if sint x > sint r then x else r) (take (nat nX) X) r)"
  by (simp add: max_col_run best_def)

lemma least_greatest:
  "min (sint (w :: I1)) (sint (0x7F :: I1)) = sint w" "min (sint (x :: I2)) (sint (0x7FFF :: I2)) = sint x"
  "min (sint (y :: I4)) (sint (0x7FFFFFFF :: I4)) = sint y" "min (sint (z :: I8)) (sint (0x7FFFFFFFFFFFFFFF :: I8)) = sint z"
  "max (sint w) (sint (0x80 :: I1)) = sint w" "max (sint x) (sint (0x8000 :: I2)) = sint x"
  "max (sint y) (sint (0x80000000 :: I4)) = sint y" "max (sint z) (sint (0x8000000000000000 :: I8)) = sint z"
  using sint_lt[of w] sint_lt[of x] sint_lt[of y] sint_lt[of z] sint_ge[of w] sint_ge[of x] sint_ge[of y] sint_ge[of z]
  by simp_all

lemma min_part_run:
  assumes "ft \<in> {I1, I2, I4, I8}" and "0 \<le> lb" "lb < ub" "ub \<le> int (length (ints_of ft X))"
  shows "min_part fpu X ft None lb ub s = (Ret \<lparr>p_cnt = word_of_int (ub - lb),
    p_ll = word_of_int (lo.of_list (rows_in (ints_of ft X) (lb, ub))), p_dd = f_zero fpu\<rparr>, s)"
proof -
  have "ft = I1 \<or> ft = I2 \<or> ft = I4 \<or> ft = I8" using assms(1) by simp
  then show ?thesis using assms(4)
    by (elim disjE) (simp_all only: min_part_def Let_def ints_of_def FLD_TYPE.case option.case length_map
      f_to_s_min_I1_def f_to_s_min_I2_def f_to_s_min_I4_def f_to_s_min_I8_def
      lo.int_part_pick[OF min_col_words[OF arr_length[OF assms(2) less_imp_le[OF assms(3)]]] assms(2,3)] least_greatest)
qed

lemma max_part_run:
  assumes "ft \<in> {I1, I2, I4, I8}" and "0 \<le> lb" "lb < ub" "ub \<le> int (length (ints_of ft X))"
  shows "max_part fpu X ft None lb ub s = (Ret \<lparr>p_cnt = word_of_int (ub - lb),
    p_ll = word_of_int (hi.of_list (rows_in (ints_of ft X) (lb, ub))), p_dd = f_zero fpu\<rparr>, s)"
proof -
  have "ft = I1 \<or> ft = I2 \<or> ft = I4 \<or> ft = I8" using assms(1) by simp
  then show ?thesis using assms(4)
    by (elim disjE) (simp_all only: max_part_def Let_def ints_of_def FLD_TYPE.case option.case length_map
      f_to_s_max_I1_def f_to_s_max_I2_def f_to_s_max_I4_def f_to_s_max_I8_def
      hi.int_part_pick[OF max_col_words[OF arr_length[OF assms(2) less_imp_le[OF assms(3)]]] assms(2,3)] least_greatest)
qed

text \<open>With an \<open>nn\<close> column only the defined rows count.\<close>

definition present :: "'a list \<Rightarrow> I1 list \<Rightarrow> 'a list" where
  "present xs nnX = map fst (filter (\<lambda>(x, v). v \<noteq> 0) (zip xs nnX))"

lemma present_map: "present (map f xs) nnX = map f (present xs nnX)"
  by (induction xs nnX rule: list_induct2') (auto simp: present_def)

lemma present_append: "length a = length b \<Longrightarrow> present (a @ c) (b @ d) = present a b @ present c d"
  by (simp add: present_def)

lemma nn_int_part_sum:
  fixes X :: "byte list"
  assumes b: "0 \<le> lb" "lb \<le> ub" "ub \<le> int (length (view X :: 'a::len word list))" "ub \<le> int (length nnX)"
    and xs: "xs = present (rows_in (map sint (view X :: 'a word list)) (lb, ub)) (rows_in nnX (lb, ub))"
  shows "nn_int_part fpu (nn_sum_col (arr lb X :: 'a word list) (drop (nat lb) nnX) (ub - lb)) 0 s =
    (Ret \<lparr>p_cnt = word_of_int (int (length xs)), p_ll = word_of_int (sum_list xs), p_dd = f_zero fpu\<rparr>, s)"
proof -
  let ?d = "defined_rows (arr lb X :: 'a word list) (drop (nat lb) nnX) (ub - lb)"
  have "nat (ub - lb) \<le> length (drop (nat lb) nnX)" using b by simp
  note run = nn_sum_col_run[OF arr_length[OF b(1-3)] this, of 0 0]
  have "?d = present (take (nat (ub - lb)) (arr lb X)) (take (nat (ub - lb)) (drop (nat lb) nnX))"
    by (simp add: defined_rows_def present_def)
  then have "map sint ?d = xs"
    using take_arr[OF b(1,2), of X, where 'a = 'a] by (simp add: xs present_map[symmetric] rows_in_def)
  then have "length ?d = length xs" "(\<Sum>x \<leftarrow> ?d. sint x) = sum_list xs" by (auto dest: arg_cong[where f = length])
  then show ?thesis unfolding nn_int_part_def bind_def call_def run by (simp add: ret_def)
qed

lemma nn_sum_part_run:
  assumes "ft \<in> {I1, I2, I4, I8}" and "0 \<le> lb" "lb \<le> ub" "ub \<le> int (length (ints_of ft X))" "ub \<le> int (length nnX)"
    and "xs = present (rows_in (ints_of ft X) (lb, ub)) (rows_in nnX (lb, ub))"
  shows "sum_part fpu X ft (Some nnX) lb ub s =
    (Ret \<lparr>p_cnt = word_of_int (int (length xs)), p_ll = word_of_int (sum_list xs), p_dd = f_zero fpu\<rparr>, s)"
proof -
  have "ft = I1 \<or> ft = I2 \<or> ft = I4 \<or> ft = I8" using assms(1) by simp
  then show ?thesis using assms(4,6)
    by (elim disjE) (simp_all only: sum_part_def Let_def ints_of_def FLD_TYPE.case option.case length_map
      nn_f_to_s_sum_I1_def nn_f_to_s_sum_I2_def nn_f_to_s_sum_I4_def nn_f_to_s_sum_I8_def nn_int_part_sum[OF assms(2,3) _ assms(5) refl])
qed

subsection \<open>The whole column\<close>

lemma map_prog_run: "(\<And>x. x \<in> set xs \<Longrightarrow> f x s = (Ret (g x), s)) \<Longrightarrow> map_prog f xs s = (Ret (map g xs), s)"
  by (induction xs) (simp_all add: prog_defs)

lemma par_f_to_s_blocks:
  assumes "partition_work n 1024 (cores * cores) = Some (bsz, nT)"
    and "\<And>lb ub. 0 \<le> lb \<Longrightarrow> lb < ub \<Longrightarrow> ub \<le> n \<Longrightarrow> part_of fpu X ft nn_X op (lb, ub) s = (Ret (part (lb, ub)), s)"
  shows "par_f_to_s fpu cores X ft nn_X 0 n op s = combine fpu ft op (map part (blocks 0 n bsz nT)) s"
proof -
  have "part_of fpu X ft nn_X op b s = (Ret (part b), s)" if "b \<in> set (blocks 0 n bsz nT)" for b
  proof -
    obtain lb ub where b: "b = (lb, ub)" by fastforce
    then have "0 \<le> lb" "lb < ub" "ub \<le> n"
      using blocks_nonempty[of n 0 1024 "cores * cores" bsz nT lb ub] assms(1) that by simp_all
    then show ?thesis unfolding b by (rule assms(2))
  qed
  then show ?thesis using map_prog_run[of "blocks 0 n bsz nT" "part_of fpu X ft nn_X op" s part] assms(1)
    by (simp add: par_f_to_s_def prog_defs c_div_def of_option_def)
qed

lemma sum_I8_run: "call (f_to_s_sum_I8 (map (\<lambda>b. word_of_int (c b)) bl) (int (length bl))) 0 s = (Ret (word_of_int (\<Sum>b \<leftarrow> bl. c b)), s)"
proof -
  have "(word_of_int (\<Sum>x \<leftarrow> map (\<lambda>b. word_of_int (c b)) bl. sint (x :: I8)) :: I8) = word_of_int (\<Sum>b \<leftarrow> bl. c b)"
    by (induction bl) simp_all
  then show ?thesis using sum_col_run[of "int (length bl)" "map (\<lambda>b. word_of_int (c b) :: I8) bl" 0]
    by (simp add: f_to_s_sum_I8_def call_def del: map_map)
qed

lemma combine_sum:
  assumes "ft \<in> {I1, I2, I4, I8}" and "\<forall>b \<in> set bl. p_cnt (part b) = word_of_int (c b) \<and> p_ll (part b) = word_of_int (v b)"
  shows "combine fpu ft ''sum'' (map part bl) s = (Ret (dec_int (wrap64 (\<Sum>b \<leftarrow> bl. v b)) @ '':'' @ dec_int (wrap64 (\<Sum>b \<leftarrow> bl. c b))), s)"
proof -
  have m: "map (p_cnt \<circ> part) bl = map (\<lambda>b. word_of_int (c b)) bl" "map (p_ll \<circ> part) bl = map (\<lambda>b. word_of_int (v b)) bl"
    using assms(2) by simp_all
  show ?thesis using assms(1) by (auto simp: combine_def Let_def bind_def m sum_I8_run ret_def lld_def wrap64_def)
qed

lemma sum_lengths: "(\<Sum>b \<leftarrow> bl. int (length (f b))) = int (length (concat (map f bl)))"
  by (induction bl) simp_all

lemma sum_blocks: "(\<Sum>b \<leftarrow> bl. sum_list (f b)) = (sum_list (concat (map f bl)) :: int)"
  by (induction bl) simp_all

lemma wrap64_id: "fits z \<Longrightarrow> wrap64 z = z"
  by (simp add: wrap64_def fits_sint)

lemma blocks_lengths:
  assumes "partition_work n 1024 lim = Some (bsz, nT)" "n \<le> int (length xs)"
  shows "(\<Sum>b \<leftarrow> blocks 0 n bsz nT. int (length (rows_in xs b))) = n"
proof -
  have c: "concat (map (rows_in xs) (blocks 0 n bsz nT)) = rows_in xs (0, n)"
    using blocks_cover[of n 0 1024 lim bsz nT xs] assms(1) by simp
  show ?thesis unfolding sum_lengths c using assms(2) partition_work_Some(1)[OF assms(1)] by (simp add: rows_in_def)
qed

lemma block_bounds:
  assumes "partition_work n 1024 lim = Some (bsz, nT)" "n \<le> int (length xs)" "n < 2 ^ 63" "(lb, ub) \<in> set (blocks 0 n bsz nT)"
  shows "0 \<le> lb" "lb < ub" "ub \<le> int (length xs)" "int (length (rows_in xs (lb, ub))) = ub - lb" "fits (ub - lb)"
proof -
  show b: "0 \<le> lb" "lb < ub" using blocks_nonempty(1,2)[of n 0 1024 lim bsz nT lb ub] assms(1,4) by simp_all
  have "ub \<le> n" using blocks_nonempty(3)[of n 0 1024 lim bsz nT lb ub] assms(1,4) by simp
  then show "ub \<le> int (length xs)" "int (length (rows_in xs (lb, ub))) = ub - lb" "fits (ub - lb)"
    using b assms(2,3) by (auto simp: rows_in_def fits_def)
qed

lemma par_f_to_s_sum:
  assumes ft: "ft \<in> {I1, I2, I4, I8}" and n: "n \<le> int (length (ints_of ft X))" "n < 2 ^ 63"
    and pw: "partition_work n 1024 (cores * cores) = Some (bsz, nT)"
  shows "par_f_to_s fpu cores X ft None 0 n ''sum'' s =
    (Ret (dec_int (wrap64 (sum_list (take (nat n) (ints_of ft X)))) @ '':'' @ dec_int n), s)"
proof -
  let ?xs = "ints_of ft X" and ?bl = "blocks 0 n bsz nT"
  let ?part = "\<lambda>b. \<lparr>p_cnt = word_of_int (int (length (rows_in ?xs b))), p_ll = word_of_int (sum_list (rows_in ?xs b)), p_dd = f_zero fpu\<rparr>"
  have "par_f_to_s fpu cores X ft None 0 n ''sum'' s = combine fpu ft ''sum'' (map ?part ?bl) s"
    by (rule par_f_to_s_blocks[OF pw]) (use n in \<open>simp add: part_of_def sum_part_run[OF ft] rows_in_def\<close>)
  also have "\<dots> = (Ret (dec_int (wrap64 (\<Sum>b \<leftarrow> ?bl. sum_list (rows_in ?xs b))) @ '':'' @
      dec_int (wrap64 (\<Sum>b \<leftarrow> ?bl. int (length (rows_in ?xs b))))), s)"
    by (rule combine_sum[OF ft]) simp
  also have "(\<Sum>b \<leftarrow> ?bl. sum_list (rows_in ?xs b)) = sum_list (rows_in ?xs (0, n))"
    using blocks_cover[of n 0 1024 "cores * cores" bsz nT ?xs] pw by (simp add: sum_blocks)
  finally show ?thesis using blocks_lengths[OF pw n(1)] n(2) partition_work_Some(1)[OF pw]
    by (simp add: wrap64_id fits_def rows_in_def)
qed

text \<open>Minimum and maximum, for the interpretation that fits the operation.\<close>

context extremum
begin

lemma comb_int_blocks:
  fixes fpu :: "'d fpu"
  assumes "\<And>x y. less_v x y = better (sint x) (sint y)" and "\<And>x. fits x \<Longrightarrow> pick x (sint w) = x" and m: "m = sint w"
    and n: "n \<le> int (length xs)" "n < 2 ^ 63" and pw: "partition_work n 1024 lim = Some (bsz, nT)" and "\<forall>x \<in> set xs. fits x"
  shows "comb_int less_v w (map (\<lambda>(lb, ub). \<lparr>p_cnt = word_of_int (ub - lb), p_ll = word_of_int (of_list (rows_in xs (lb, ub))),
      p_dd = z\<rparr>) (blocks 0 n bsz nT)) = dec_int (of_list (take (nat n) xs)) @ '':'' @ dec_int n"
proof -
  let ?bl = "blocks 0 n bsz nT" and ?xs = "rows_in xs (0, n)"
  let ?c = "\<lambda>b. int (length (rows_in xs b))"
  let ?part = "\<lambda>(lb, ub). \<lparr>p_cnt = word_of_int (ub - lb), p_ll = word_of_int (of_list (rows_in xs (lb, ub))), p_dd = z\<rparr>"
  have "\<forall>b \<in> set ?bl. ?part b = \<lparr>p_cnt = word_of_int (?c b), p_ll = word_of_int (of_list (rows_in xs b)), p_dd = z\<rparr> \<and>
      0 < ?c b \<and> fits (?c b) \<and> rows_in xs b \<noteq> [] \<and> (\<forall>x \<in> set (rows_in xs b). fits x)"
  proof
    fix b assume "b \<in> set ?bl"
    moreover obtain lb ub where lu: "b = (lb, ub)" by fastforce
    ultimately have b: "0 \<le> lb" "lb < ub" "ub \<le> int (length xs)" "?c b = ub - lb" "fits (ub - lb)"
      using block_bounds[OF pw n, of lb ub] by simp_all
    have "\<forall>x \<in> set (rows_in xs b). fits x" using rows_in_subset[of xs b] assms(7) by blast
    then show "?part b = \<lparr>p_cnt = word_of_int (?c b), p_ll = word_of_int (of_list (rows_in xs b)), p_dd = z\<rparr> \<and>
      0 < ?c b \<and> fits (?c b) \<and> rows_in xs b \<noteq> [] \<and> (\<forall>x \<in> set (rows_in xs b). fits x)"
      using b rows_in_nonempty[OF b(1-3)] unfolding b(4) by (simp add: lu)
  qed
  moreover have "word_of_int m = w" "fits m" by (simp_all add: m sint_fits)
  ultimately have f: "fold (comb_step less_v p_ll) (map ?part ?bl) (0, w) = (word_of_int n, word_of_int (fold pick ?xs m))"
    using comb_blocks[OF assms(1), of ?bl ?part ?c "rows_in xs" z m 0] blocks_lengths[OF pw n(1)] blocks_cover[of n 0 1024 lim bsz nT xs] pw by simp
  have n0: "0 < n" using partition_work_Some(1)[OF pw] .
  then have ne: "?xs \<noteq> []" using n by (intro rows_in_nonempty) simp_all
  have "of_list ?xs \<in> set xs" using of_list_mem[OF ne] rows_in_subset[of xs "(0, n)"] by (rule subsetD[rotated])
  then have "fits (of_list ?xs)" using assms(7) by blast
  then have "fold pick ?xs m = of_list ?xs" "sint (word_of_int (of_list ?xs) :: I8) = of_list ?xs" "sint (word_of_int n :: I8) = n"
    using assms(2) n(2) n0 by (simp_all add: m fold_of_list[OF ne] fits_sint fits_def[of n])
  then show ?thesis unfolding comb_int_def f by (simp add: lld_def rows_in_def)
qed

end

lemma par_f_to_s_min:
  assumes ft: "ft \<in> {I1, I2, I4, I8}" and n: "n \<le> int (length (ints_of ft X))" "n < 2 ^ 63"
    and pw: "partition_work n 1024 (cores * cores) = Some (bsz, nT)"
  shows "par_f_to_s fpu cores X ft None 0 n ''min'' s =
    (Ret (dec_int (lo.of_list (take (nat n) (ints_of ft X))) @ '':'' @ dec_int n), s)"
proof -
  let ?xs = "ints_of ft X"
  let ?part = "\<lambda>(lb, ub). \<lparr>p_cnt = word_of_int (ub - lb), p_ll = word_of_int (lo.of_list (rows_in ?xs (lb, ub))), p_dd = f_zero fpu\<rparr>"
  have "par_f_to_s fpu cores X ft None 0 n ''min'' s = combine fpu ft ''min'' (map ?part (blocks 0 n bsz nT)) s"
    by (rule par_f_to_s_blocks[OF pw]) (use n in \<open>simp add: part_of_def min_part_run[OF ft]\<close>)
  also have "\<dots> = (Ret (comb_int (<s) 0x7FFFFFFFFFFFFFFF (map ?part (blocks 0 n bsz nT))), s)"
    using ft by (auto simp: combine_def ret_def)
  also have "comb_int (<s) 0x7FFFFFFFFFFFFFFF (map ?part (blocks 0 n bsz nT)) = dec_int (lo.of_list (take (nat n) ?xs)) @ '':'' @ dec_int n"
    by (rule lo.comb_int_blocks[OF signed_less_sint _ refl n pw]) (auto simp: fits_def dest: ints_of_fits[unfolded fits_def])
  finally show ?thesis .
qed

lemma par_f_to_s_max:
  assumes ft: "ft \<in> {I1, I2, I4, I8}" and n: "n \<le> int (length (ints_of ft X))" "n < 2 ^ 63"
    and pw: "partition_work n 1024 (cores * cores) = Some (bsz, nT)"
  shows "par_f_to_s fpu cores X ft None 0 n ''max'' s =
    (Ret (dec_int (hi.of_list (take (nat n) (ints_of ft X))) @ '':'' @ dec_int n), s)"
proof -
  let ?xs = "ints_of ft X"
  let ?part = "\<lambda>(lb, ub). \<lparr>p_cnt = word_of_int (ub - lb), p_ll = word_of_int (hi.of_list (rows_in ?xs (lb, ub))), p_dd = f_zero fpu\<rparr>"
  have "par_f_to_s fpu cores X ft None 0 n ''max'' s = combine fpu ft ''max'' (map ?part (blocks 0 n bsz nT)) s"
    by (rule par_f_to_s_blocks[OF pw]) (use n in \<open>simp add: part_of_def max_part_run[OF ft]\<close>)
  also have "\<dots> = (Ret (comb_int (\<lambda>x y. y <s x) 0x8000000000000000 (map ?part (blocks 0 n bsz nT))), s)"
    using ft by (auto simp: combine_def ret_def)
  also have "comb_int (\<lambda>x y. y <s x) 0x8000000000000000 (map ?part (blocks 0 n bsz nT)) = dec_int (hi.of_list (take (nat n) ?xs)) @ '':'' @ dec_int n"
    by (rule hi.comb_int_blocks[OF signed_less_sint _ refl n pw]) (auto simp: fits_def dest: ints_of_fits[unfolded fits_def])
  finally show ?thesis .
qed

lemma present_blocks:
  assumes pw: "partition_work n 1024 lim = Some (bsz, nT)" and "n \<le> int (length xs)" "n \<le> int (length nnX)"
  shows "concat (map (\<lambda>b. present (rows_in xs b) (rows_in nnX b)) (blocks 0 n bsz nT)) = present (take (nat n) xs) (take (nat n) nnX)"
proof -
  have z: "present (rows_in xs b) (rows_in nnX b) = map fst (filter (\<lambda>(x, v). v \<noteq> 0) (rows_in (zip xs nnX) b))" for b
    by (cases b) (simp add: present_def rows_in_def take_zip drop_zip)
  have "concat (map (\<lambda>b. present (rows_in xs b) (rows_in nnX b)) (blocks 0 n bsz nT)) =
      map fst (filter (\<lambda>(x, v). v \<noteq> 0) (concat (map (rows_in (zip xs nnX)) (blocks 0 n bsz nT))))"
    by (simp add: z map_concat filter_concat comp_def)
  also have "\<dots> = present (rows_in xs (0, n)) (rows_in nnX (0, n))"
    using blocks_cover[of n 0 1024 lim bsz nT "zip xs nnX"] pw by (simp add: z)
  finally show ?thesis by (simp add: rows_in_def)
qed

lemma par_f_to_s_nn_sum:
  assumes ft: "ft \<in> {I1, I2, I4, I8}" and n: "n \<le> int (length (ints_of ft X))" "n < 2 ^ 63"
    and pw: "partition_work n 1024 (cores * cores) = Some (bsz, nT)" and nnX: "n \<le> int (length nnX)"
    and xs: "xs = present (take (nat n) (ints_of ft X)) (take (nat n) nnX)"
  shows "par_f_to_s fpu cores X ft (Some nnX) 0 n ''sum'' s = (Ret (dec_int (wrap64 (sum_list xs)) @ '':'' @ dec_int (int (length xs))), s)"
proof -
  let ?bl = "blocks 0 n bsz nT" and ?row = "\<lambda>b. present (rows_in (ints_of ft X) b) (rows_in nnX b)"
  let ?part = "\<lambda>b. \<lparr>p_cnt = word_of_int (int (length (?row b))), p_ll = word_of_int (sum_list (?row b)), p_dd = f_zero fpu\<rparr>"
  have "par_f_to_s fpu cores X ft (Some nnX) 0 n ''sum'' s = combine fpu ft ''sum'' (map ?part ?bl) s"
    by (rule par_f_to_s_blocks[OF pw]) (use n nnX in \<open>simp add: part_of_def nn_sum_part_run[OF ft _ _ _ _ refl]\<close>)
  also have "\<dots> = (Ret (dec_int (wrap64 (\<Sum>b \<leftarrow> ?bl. sum_list (?row b))) @ '':'' @ dec_int (wrap64 (\<Sum>b \<leftarrow> ?bl. int (length (?row b))))), s)"
    by (rule combine_sum[OF ft]) simp
  also have "(\<Sum>b \<leftarrow> ?bl. sum_list (?row b)) = sum_list xs"
    unfolding sum_blocks present_blocks[OF pw n(1) nnX] xs ..
  also have "(\<Sum>b \<leftarrow> ?bl. int (length (?row b))) = int (length (concat (map ?row ?bl)))"
    by (rule sum_lengths)
  also have "\<dots> = int (length xs)" unfolding present_blocks[OF pw n(1) nnX] xs ..
  also have "wrap64 (int (length xs)) = int (length xs)"
  proof (rule wrap64_id)
    have "length xs \<le> nat n" using length_filter_le[of "\<lambda>(x, v). v \<noteq> 0" "zip (take (nat n) (ints_of ft X)) (take (nat n) nnX)"]
      unfolding xs present_def length_map by simp
    then show "fits (int (length xs))" using n(2) by (simp add: fits_def)
  qed
  finally show ?thesis .
qed

subsection \<open>Properties\<close>

text \<open>C8: Reducing a column of \<open>n\<close> rows of an integer type (\<open>I1\<close>, \<open>I2\<close>, \<open>I4\<close> or \<open>I8\<close>).  When the rows cannot be cut into blocks, as for some
  numbers of cores above 32, the reduction is refused; otherwise, for every
  number of cores, the sum is the sum of all rows wrapped to 64 bits, the minimum and the maximum are those of all rows,
  each printed with the number of rows; with an \<open>nn\<close> column the sum is that of the defined rows, printed with their number.\<close>

theorem par_f_to_s_result:
  assumes "ft \<in> {I1, I2, I4, I8}" and "0 < n" "n \<le> int (length (ints_of ft X))" "n < 2 ^ 63" and "n \<le> int (length nnX)"
    and "xs = take (nat n) (ints_of ft X)" and "ds = present xs (take (nat n) nnX)"
  shows "if partition_work n 1024 (cores * cores) = None then par_f_to_s fpu cores X ft nn_X 0 n op s = (Bye, s)
    else par_f_to_s fpu cores X ft None 0 n ''sum'' s = (Ret (dec_int (wrap64 (sum_list xs)) @ '':'' @ dec_int n), s) \<and>
      par_f_to_s fpu cores X ft None 0 n ''min'' s = (Ret (dec_int (Min (set xs)) @ '':'' @ dec_int n), s) \<and>
      par_f_to_s fpu cores X ft None 0 n ''max'' s = (Ret (dec_int (Max (set xs)) @ '':'' @ dec_int n), s) \<and>
      par_f_to_s fpu cores X ft (Some nnX) 0 n ''sum'' s = (Ret (dec_int (wrap64 (sum_list ds)) @ '':'' @ dec_int (int (length ds))), s)"
proof (cases "partition_work n 1024 (cores * cores)")
  case None
  then show ?thesis by (simp add: par_f_to_s_def prog_defs c_div_def of_option_def)
next
  case (Some p)
  obtain bsz nT where p: "p = (bsz, nT)" by fastforce
  have "xs \<noteq> []" using assms(2,3,6) by auto
  then show ?thesis
    using Some by (simp add: par_f_to_s_sum[OF assms(1,3,4) Some[unfolded p]] par_f_to_s_min[OF assms(1,3,4) Some[unfolded p]]
      par_f_to_s_max[OF assms(1,3,4) Some[unfolded p]] par_f_to_s_nn_sum[OF assms(1,3,4) Some[unfolded p] assms(5) refl]
      lo_Min hi_Max assms(6,7))
qed

definition no_fpu :: "unit fpu" where
  "no_fpu = \<lparr>F4_of = \<lambda>_. (), F8_of = \<lambda>_. (), f_less = \<lambda>_ _. False, f_add = \<lambda>_ _. (), f_zero = (), flt_max = (), flt_min = (),
     dbl_max = (), dbl_min = (), show_lf = \<lambda>_. ''0'', strtod = \<lambda>t. ((), t), F4_bits = \<lambda>_. 0\<rparr>"

theorem par_f_to_s_result_witness:
  "par_f_to_s no_fpu 4 (unview [5, - 3, 7 :: I4]) I4 None 0 3 ''sum'' () = (Ret (dec_int 9 @ '':'' @ dec_int 3), ()) \<and>
   par_f_to_s no_fpu 4 (unview [5, - 3, 7 :: I4]) I4 None 0 3 ''min'' () = (Ret (dec_int (- 3) @ '':'' @ dec_int 3), ()) \<and>
   par_f_to_s no_fpu 4 (unview [5, - 3, 7 :: I4]) I4 None 0 3 ''max'' () = (Ret (dec_int 7 @ '':'' @ dec_int 3), ()) \<and>
   par_f_to_s no_fpu 4 (unview [5, - 3, 7 :: I4]) I4 (Some [1, 0, 1]) 0 3 ''sum'' () = (Ret (dec_int 12 @ '':'' @ dec_int 2), ())"
proof -
  let ?X = "unview [5, - 3, 7 :: I4]"
  have p: "(partition_work 3 1024 (4 * 4) = None) = False" by (simp add: partition_work_def to_int32_def)
  have i: "ints_of I4 ?X = [5, - 3, 7]" by (simp add: ints_of_def)
  have v: "wrap64 (sum_list [5, - 3, 7]) = 9" "wrap64 (sum_list [5, 7]) = 12" "Min (set [5, - 3, 7]) = (- 3 :: int)"
    "Max (set [5, - 3, 7]) = (7 :: int)" "int (length [5, 7 :: int]) = 2" by (simp_all add: wrap64_id fits_def)
  show ?thesis
    by (rule par_f_to_s_result[of I4 3 ?X "[1, 0, 1]" "[5, - 3, 7]" "[5, 7]" 4 no_fpu None "''sum''" "()", unfolded p if_False v])
      (simp_all add: i present_def)
qed

text \<open>With an \<open>nn\<close> column the minimum is not the minimum: for a column that is one block, what is printed is the last defined
  row that is below the largest value of the type.\<close>

theorem par_f_to_s_nn_min_last:
  assumes "partition_work n 1024 (cores * cores) = Some (n, 1)" and "n \<le> int (length (view X :: I4 list))" "n < 2 ^ 63" "n \<le> int (length nnX)"
    and "ds = filter (\<lambda>x. x < 2147483647) (present (take (nat n) (ints_of I4 X)) (take (nat n) nnX))" and "ds \<noteq> []"
  shows "\<exists>c. par_f_to_s fpu cores X I4 (Some nnX) 0 n ''min'' s = (Ret (dec_int (last ds) @ '':'' @ dec_int c), s)"
proof -
  have n: "0 < n" using partition_work_Some(1)[OF assms(1)] .
  let ?d = "defined_rows (arr 0 X :: I4 list) nnX n" and ?c = "of_nat (length (defined_rows (arr 0 X :: I4 list) nnX n)) :: I8"
  have d: "map sint ?d = present (take (nat n) (ints_of I4 X)) (take (nat n) nnX)"
    by (simp add: defined_rows_def arr_def ints_of_def present_def take_map zip_map1 filter_map comp_def split_def)
  let ?f = "filter (\<lambda>x. sint x < sint (0x7FFFFFFF :: I4)) ?d"
  have f: "map sint ?f = ds" unfolding assms(5) d[symmetric] by (simp add: filter_map comp_def)
  then have ne: "?f \<noteq> []" using assms(6) by auto
  then have l: "sint (last ?f) = last ds" "last_better (\<lambda>x. sint x < sint (0x7FFFFFFF :: I4)) ?d 0x7FFFFFFF = last ?f"
    using f last_map[OF ne, of sint] by (auto simp: last_better_def split: list.split)
  have len: "0 < length ?d" "length ?d \<le> nat n"
    using ne by (auto simp: defined_rows_def intro: order.trans[OF length_filter_le])
  have "sint ?c = int (length ?d)"
    using len n assms(3) fits_sint[of "int (length ?d)"] by (simp add: fits_def)
  then have pos: "0 <s ?c" using len(1) by (simp add: signed_less_sint)
  have run: "min_part fpu X I4 (Some nnX) 0 n s = (Ret \<lparr>p_cnt = ?c, p_ll = scast (last ?f), p_dd = f_zero fpu\<rparr>, s)"
    using assms(2,4) n l(2) nn_min_col_run[of n "arr 0 X :: I4 list" nnX 0 "0x7FFFFFFF"]
    by (simp add: min_part_def nn_f_to_s_min_I4_def nn_int_part_def bind_def call_def ret_def arr_def)
  have "par_f_to_s fpu cores X I4 (Some nnX) 0 n ''min'' s = combine fpu I4 ''min'' [\<lparr>p_cnt = ?c, p_ll = scast (last ?f), p_dd = f_zero fpu\<rparr>] s"
    using run n assms(1) by (simp add: par_f_to_s_def prog_defs c_div_def of_option_def blocks_def part_of_def)
  moreover have "scast (last ?f) <s (0x7FFFFFFFFFFFFFFF :: I8)" "sint (scast (last ?f) :: I8) = last ds"
    using sint_lt[of "last ?f"] l(1) by (simp_all add: signed_less_sint sint_widened)
  ultimately show ?thesis using pos by (auto simp: combine_def comb_int_def comb_step_def ret_def lld_def)
qed

theorem par_f_to_s_nn_min_last_witness:
  "\<exists>c. par_f_to_s no_fpu 4 (unview [5, 3, 4 :: I4]) I4 (Some [1, 1, 1]) 0 3 ''min'' () = (Ret (dec_int 4 @ '':'' @ dec_int c), ())"
proof -
  have "partition_work 3 1024 (4 * 4) = Some (3, 1)" by (simp add: partition_work_def to_int32_def)
  from par_f_to_s_nn_min_last[OF this, of "unview [5, 3, 4 :: I4]" "[1, 1, 1]" "[5, 3, 4]" no_fpu "()"]
  show ?thesis by (simp add: ints_of_def present_def)
qed
end
