(* ===== verification/D_Fill.thy ===== *)
theory D_Fill
  imports D_Scalar
begin

text \<open>
  \<open>par_s_to_f\<close> fills a mapped column with a constant or a sequence that is described by a text
  (\<open>dir_helpers/par_s_to_f.c\<close>), with the functions that take a number out of the text (\<open>extract_I1.c\<close> and so on,
  \<open>extract_F4\<close> of \<open>extract_S.c\<close>).
\<close>

subsection \<open>Numbers in a text\<close>

text \<open>The number is converted to the type before it is compared with the limits of the type.  \<open>None\<close> is \<open>is_null\<close>.\<close>

definition extract_num :: "string option \<Rightarrow> string \<Rightarrow> string \<Rightarrow> 'a::len word option outcome" where
  "extract_num X start_str stop_str = (case X of None \<Rightarrow> Ret None
     | Some x \<Rightarrow> (case strstr x start_str of None \<Rightarrow> Ret None
       | Some Y \<Rightarrow> (let Z = drop (length start_str) Y in
           case strstr Z stop_str of None \<Rightarrow> Ret None
           | Some W \<Rightarrow> (let buffer = take (length Z - length W) Z in
               if length buffer \<ge> 32 then Bye
               else if buffer = [] then Ret None
               else (let (v, endptr) = strtoll buffer; ival = word_of_int v in
                 if sint ival < - (2 ^ (LENGTH('a) - 1)) \<or> sint ival > 2 ^ (LENGTH('a) - 1) - 1 then Bye
                 else if endptr \<noteq> [] then Bye
                 else Ret (Some ival))))))"

definition extract_I1 :: "string option \<Rightarrow> string \<Rightarrow> string \<Rightarrow> I1 option outcome" where
  "extract_I1 = extract_num"

definition extract_I2 :: "string option \<Rightarrow> string \<Rightarrow> string \<Rightarrow> I2 option outcome" where
  "extract_I2 = extract_num"

definition extract_I4 :: "string option \<Rightarrow> string \<Rightarrow> string \<Rightarrow> I4 option outcome" where
  "extract_I4 = extract_num"

definition extract_I8 :: "string option \<Rightarrow> string \<Rightarrow> string \<Rightarrow> I8 option outcome" where
  "extract_I8 = extract_num"

definition extract_F4 :: "'d fpu \<Rightarrow> string option \<Rightarrow> string \<Rightarrow> string \<Rightarrow> 'd option outcome" where
  "extract_F4 fpu X start_str stop_str = (case extract_S X start_str stop_str 32 of
       Bye \<Rightarrow> Bye | Fault \<Rightarrow> Fault | Ret None \<Rightarrow> Ret None
     | Ret (Some bufstr) \<Rightarrow> (let (dval, endptr) = strtod fpu bufstr in
         if endptr \<noteq> [] then Ret None
         else if f_less fpu dval (flt_min fpu) \<or> f_less fpu (flt_max fpu) dval then Bye
         else Ret (Some dval)))"

definition s_to_f_const_F4 :: "int \<Rightarrow> I4 \<Rightarrow> I4 kernel" where
  "s_to_f_const_F4 = const_col"

subsection \<open>Filling\<close>

text \<open>A missing number ends the function with the status of its extraction, which is success.\<close>

definition given :: "'a option outcome \<Rightarrow> ('a \<Rightarrow> ('s, unit) prog) \<Rightarrow> ('s, unit) prog" where
  "given num body = bind (lift_out num) (\<lambda>v. case v of None \<Rightarrow> ret () | Some x \<Rightarrow> body x)"

definition const_blocks :: "(int \<Rightarrow> 'a::len word kernel) \<Rightarrow> (int \<times> int) list \<Rightarrow> (byte list, unit) prog" where
  "const_blocks kern bl = for_each (\<lambda>(lb, ub). on_view lb (kern (ub - lb))) bl"

text \<open>A block whose first number is above the limit of the type is skipped; the status tells after the last block.\<close>

definition block_start :: "'a::len word \<Rightarrow> 'a word \<Rightarrow> int \<Rightarrow> I8" where
  "block_start start incr lb = scast start + word_of_int lb * scast incr"

definition seq_blocks :: "int \<Rightarrow> (int \<Rightarrow> 'a::len word \<Rightarrow> 'a word \<Rightarrow> 'a word kernel) \<Rightarrow> 'a word \<Rightarrow> 'a word \<Rightarrow> (int \<times> int) list \<Rightarrow>
    (byte list, unit) prog" where
  "seq_blocks lim kern start incr bl =
     seq (for_each (\<lambda>(lb, ub). if sint (block_start start incr lb) > lim then ret ()
            else on_view lb (kern (ub - lb) (ucast (block_start start incr lb)) incr)) bl)
         (guard (\<forall>(lb, ub) \<in> set bl. \<not> sint (block_start start incr lb) > lim))"

definition par_s_to_f :: "'d fpu \<Rightarrow> int \<Rightarrow> int \<Rightarrow> string option \<Rightarrow> (byte list, unit) prog" where
  "par_s_to_f fpu in_lb in_ub str_scalar =
     bind (lift_out (extract_S str_scalar ''op=['' '']'' 32)) (\<lambda>op0. bind (of_option op0) (\<lambda>op.
     bind (lift_out (extract_S str_scalar ''fldtype=['' '']'' 32)) (\<lambda>ft0. bind (of_option ft0) (\<lambda>ft.
     bind (of_option (partition_work (in_ub - in_lb) 1024 (-1))) (\<lambda>(block_size, nT).
     let bl = blocks in_lb in_ub block_size nT in
     if op = ''const'' then
       (if ft = ''I1'' then given (extract_I1 str_scalar ''val=['' '']'') (\<lambda>val1. const_blocks (\<lambda>nX. s_to_f_const_I1 nX val1) bl)
        else if ft = ''I2'' then given (extract_I2 str_scalar ''val=['' '']'') (\<lambda>val2. const_blocks (\<lambda>nX. s_to_f_const_I2 nX val2) bl)
        else if ft = ''I4'' then given (extract_I4 str_scalar ''val=['' '']'') (\<lambda>val4. const_blocks (\<lambda>nX. s_to_f_const_I4 nX val4) bl)
        else if ft = ''F4'' then given (extract_F4 fpu str_scalar ''val=['' '']'')
          (\<lambda>valF4. const_blocks (\<lambda>nX. s_to_f_const_F4 nX (F4_bits fpu valF4)) bl)
        else if ft = ''I8'' then given (extract_I8 str_scalar ''val=['' '']'') (\<lambda>val8. const_blocks (\<lambda>nX. s_to_f_const_I8 nX val8) bl)
        else bye)
     else if op = ''seq'' then
       (if ft = ''I1'' then given (extract_I1 str_scalar ''start=['' '']'') (\<lambda>start1. given (extract_I1 str_scalar ''incr=['' '']'')
          (\<lambda>incr1. seq_blocks 127 s_to_f_seq_I1 start1 incr1 bl))
        else if ft = ''I2'' then given (extract_I2 str_scalar ''start=['' '']'') (\<lambda>start2. given (extract_I2 str_scalar ''incr=['' '']'')
          (\<lambda>incr2. seq_blocks 32767 s_to_f_seq_I2 start2 incr2 bl))
        else if ft = ''I4'' then given (extract_I4 str_scalar ''start=['' '']'') (\<lambda>start4. given (extract_I4 str_scalar ''incr=['' '']'')
          (\<lambda>incr4. seq_blocks INT_MAX s_to_f_seq_I4 start4 incr4 bl))
        else if ft = ''I8'' then given (extract_I8 str_scalar ''start=['' '']'') (\<lambda>start8. given (extract_I8 str_scalar ''incr=['' '']'')
          (\<lambda>incr8. seq_blocks LLONG_MAX s_to_f_seq_I8 start8 incr8 bl))
        else bye)
     else bye)))))"

subsection \<open>What is filled in\<close>

lemma for_each_keeps: "(\<And>x s. length (snd (f x s)) = length s) \<Longrightarrow> length (snd (for_each f xs s)) = length s"
proof (induction xs arbitrary: s)
  case (Cons x xs)
  obtain r s1 where "f x s = (r, s1)" by fastforce
  moreover from this have "length s1 = length s" using Cons.prems[of x s] by simp
  ultimately show ?case using Cons by (cases r) (simp_all add: prog_defs)
qed (simp add: prog_defs)

lemma put_at_length [simp]: "length (snd (put_at i v out)) = length out"
  by (simp add: put_at_def)

lemma const_col_length: "length (snd (const_col nX v ws)) = length ws"
  unfolding const_col_def fill_def by (rule for_each_keeps) simp

lemma seq_rows_length: "length (snd (seq_rows n i v incr ws)) = length ws"
  by (induction n arbitrary: i v ws) (auto simp: prog_defs put_at_def)

lemma seq_col_length: "length (snd (seq_col nX v incr ws)) = length ws"
  by (simp add: seq_col_def seq_rows_length)

text \<open>Blocks that are filled one after the other make up the column.\<close>

lemma fill_chain:
  fixes k :: "int \<Rightarrow> int \<Rightarrow> 'a::len word kernel"
  assumes "chain a bl b" and "0 \<le> a" and "b \<le> int (length (view bs :: 'a word list))" and wb: "whole_bytes TYPE('a word)"
    and len: "\<And>lb ub ws. length (snd (k lb ub ws)) = length ws"
    and body: "\<And>lb ub. a \<le> lb \<Longrightarrow> lb < ub \<Longrightarrow> ub \<le> b \<Longrightarrow> body (lb, ub) = on_view lb (k lb ub)"
    and run: "\<And>lb ub ws. a \<le> lb \<Longrightarrow> lb < ub \<Longrightarrow> ub \<le> b \<Longrightarrow> nat (ub - lb) \<le> length ws \<Longrightarrow>
      k lb ub ws = (Ret (), map f [nat lb..<nat ub] @ drop (nat (ub - lb)) ws)"
  shows "\<exists>bs'. for_each body bl bs = (Ret (), bs') \<and> length bs' = length bs \<and>
    view bs' = take (nat a) (view bs) @ map f [nat a..<nat b] @ drop (nat b) (view bs)"
  using assms
proof (induction a bl b arbitrary: bs rule: chain.induct)
  case (1 a b)
  then show ?case by (simp add: prog_defs)
next
  case (2 a lb ub bl b)
  let ?ws = "view bs :: 'a word list"
  have c: "lb = a" "lb < ub" "chain ub bl b" "ub \<le> b" using 2(2) chain_le[of ub bl b] by auto
  have n: "nat (ub - lb) \<le> length (drop (nat lb) ?ws)" using c 2(3,4) by simp
  obtain r bs1 where r: "on_view lb (k lb ub) bs = (r, bs1)" by fastforce
  have k: "k lb ub (drop (nat lb) ?ws) = (Ret (), map f [nat lb..<nat ub] @ drop (nat (ub - lb)) (drop (nat lb) ?ws))"
    using c n by (intro 2(8)) simp_all
  have "nat (ub - lb) + nat lb = nat ub" using c 2(3) by simp
  then have bs1: "r = Ret ()" "length bs1 = length bs" "view bs1 = take (nat a) ?ws @ map f [nat a..<nat ub] @ drop (nat ub) ?ws"
    using view_on_view[where k = "k lb ub" and lb = lb and bs = bs, OF wb len] k r c(1) by simp_all
  have "length (view bs1 :: 'a word list) = length ?ws" unfolding length_view[OF wb] bs1(2) ..
  then have "\<exists>bs'. for_each body bl bs1 = (Ret (), bs') \<and> length bs' = length bs1 \<and>
      view bs' = take (nat ub) (view bs1) @ map f [nat ub..<nat b] @ drop (nat b) (view bs1)"
    using c 2(3,4,7,8) by (intro 2(1)) (simp_all add: wb len)
  moreover have "take (nat ub) (view bs1) = take (nat a) ?ws @ map f [nat a..<nat ub]" "drop (nat b) (view bs1) = drop (nat b) ?ws"
    using c 2(3,4) unfolding bs1(3) by (simp_all add: min_def)
  moreover have "[nat a..<nat ub] @ [nat ub..<nat b] = [nat a..<nat b]"
    using c 2(3) upt_add_eq_append[of "nat a" "nat ub" "nat b - nat ub"] by simp
  ultimately show ?case using r bs1 2(7)[of lb ub] c by (auto simp: prog_defs simp flip: map_append)
qed

lemma const_blocks_run:
  fixes v :: "'a::len word"
  assumes "chain 0 bl n" and "n \<le> int (length (view bs :: 'a word list))" and "whole_bytes TYPE('a word)"
  shows "\<exists>bs'. const_blocks (\<lambda>nX. const_col nX v) bl bs = (Ret (), bs') \<and> length bs' = length bs \<and>
    view bs' = replicate (nat n) v @ drop (nat n) (view bs)"
proof -
  have "\<exists>bs'. for_each (\<lambda>(lb, ub). on_view lb (const_col (ub - lb) v)) bl bs = (Ret (), bs') \<and> length bs' = length bs \<and>
      view bs' = take (nat 0) (view bs) @ map (\<lambda>_. v) [nat 0..<nat n] @ drop (nat n) (view bs)"
    by (rule fill_chain[OF assms(1) _ assms(2,3), where k = "\<lambda>lb ub. const_col (ub - lb) v"])
      (simp_all add: const_col_length const_col_run map_replicate_const nat_diff_distrib)
  then show ?thesis by (simp add: const_blocks_def map_replicate_const)
qed

lemma block_start_narrow:
  fixes start incr :: "'a::len word"
  assumes "LENGTH('a) \<le> 64" and "0 \<le> lb"
  shows "ucast (block_start start incr lb) = start + of_nat (nat lb) * incr"
proof -
  have "block_start start incr lb = word_of_int (sint start + lb * sint incr)"
    unfolding block_start_def scast_eq[of start] scast_eq[of incr] by simp
  moreover have "ucast (word_of_int z :: I8) = (word_of_int z :: 'a word)" for z
    by (rule bit_word_eqI) (use assms(1) in \<open>auto simp: bit_simps\<close>)
  ultimately have "ucast (block_start start incr lb) = (word_of_int (sint start + lb * sint incr) :: 'a word)" by metis
  also have "\<dots> = start + of_nat (nat lb) * incr" using assms(2) by simp
  finally show ?thesis .
qed

lemma seq_blocks_run:
  fixes start incr :: "'a::len word"
  assumes "chain 0 bl n" and "n \<le> int (length (view bs :: 'a word list))" and "whole_bytes TYPE('a word)" and "LENGTH('a) \<le> 64"
    and ok: "\<And>lb. 0 \<le> lb \<Longrightarrow> lb < n \<Longrightarrow> sint (block_start start incr lb) \<le> lim"
  shows "\<exists>bs'. seq_blocks lim seq_col start incr bl bs = (Ret (), bs') \<and> length bs' = length bs \<and>
    view bs' = map (\<lambda>i. start + of_nat i * incr) [0..<nat n] @ drop (nat n) (view bs)"
proof -
  let ?k = "\<lambda>lb ub. seq_col (ub - lb) (ucast (block_start start incr lb)) incr"
  have shift: "map (\<lambda>j. start + word_of_int lb * incr + of_nat j * incr) [0..<nat (ub - lb)] =
      map (\<lambda>i. start + of_nat i * incr) [nat lb..<nat ub]" if "0 \<le> lb" "lb < ub" for lb ub
  proof -
    have "nat ub = nat (ub - lb) + nat lb" using that by simp
    then have "[nat lb..<nat ub] = map (\<lambda>j. j + nat lb) [0..<nat (ub - lb)]" by (simp only: map_add_upt)
    then show ?thesis using that by (simp add: algebra_simps)
  qed
  have "\<exists>bs'. for_each (\<lambda>(lb, ub). if sint (block_start start incr lb) > lim then ret () else on_view lb (?k lb ub)) bl bs = (Ret (), bs') \<and>
      length bs' = length bs \<and> view bs' = take (nat 0) (view bs) @ map (\<lambda>i. start + of_nat i * incr) [nat 0..<nat n] @ drop (nat n) (view bs)"
  proof (rule fill_chain[OF assms(1) _ assms(2,3), where k = ?k])
    fix lb ub :: int assume b: "0 \<le> lb" "lb < ub" "ub \<le> n"
    then show "(case (lb, ub) of (lb, ub) \<Rightarrow> if sint (block_start start incr lb) > lim then ret () else on_view lb (?k lb ub)) = on_view lb (?k lb ub)"
      using ok[of lb] by simp
    fix ws :: "'a word list" assume "nat (ub - lb) \<le> length ws"
    then show "?k lb ub ws = (Ret (), map (\<lambda>i. start + of_nat i * incr) [nat lb..<nat ub] @ drop (nat (ub - lb)) ws)"
      using b by (simp add: seq_col_run block_start_narrow[OF assms(4)] shift)
  qed (simp_all add: seq_col_length)
  moreover have "\<forall>(lb, ub) \<in> set bl. 0 \<le> lb \<and> lb < n"
  proof -
    have "chain a bl n \<Longrightarrow> \<forall>(lb, ub) \<in> set bl. a \<le> lb \<and> lb < n" for a
      by (induction a bl n rule: chain.induct) (use chain_le in fastforce)+
    then show ?thesis using assms(1) by blast
  qed
  then have "(\<forall>(lb, ub) \<in> set bl. \<not> sint (block_start start incr lb) > lim) = True" using ok by fastforce
  ultimately show ?thesis unfolding seq_blocks_def seq_def bind_def guard_def ret_def by auto
qed

text \<open>Without a limit on the number of blocks a column can always be cut.\<close>

lemma partition_unlimited:
  assumes "1 < m" and "0 < n" and "n \<le> 2 ^ 31"
  shows "\<exists>block_size nT. partition_work n m (-1) = Some (block_size, nT)"
proof -
  define q where "q = n div m"
  have "n div m \<le> n div 2" using assms(1,2) zdiv_mono2[of n 2 m] by simp
  then have "q < 2 ^ 31" "0 \<le> q" using assms by (auto simp: q_def pos_imp_zdiv_nonneg_iff)
  then have q: "to_int32 q = q" by (auto simp: to_int32_def)
  show ?thesis
  proof (cases "q = 0")
    case True
    then show ?thesis using assms unfolding partition_work_def q_def[symmetric] Let_def by (simp add: to_int32_def)
  next
    case False
    then have q0: "0 < q" using \<open>0 \<le> q\<close> by simp
    define r where "r = n mod m"
    have n: "n = m * q + r" "0 \<le> r" "r < m" using assms(1) by (simp_all add: q_def r_def)
    have "n div q = m + r div q" using q0 n(1) by (metis add.commute div_mult_self1 less_irrefl mult.commute)
    moreover have "0 \<le> r div q" using n(2) q0 by (simp add: pos_imp_zdiv_nonneg_iff)
    moreover have "n - n div q * q = r mod q" using n(1) by (simp add: minus_div_mult_eq_mod)
    moreover have "r mod q < m" "0 \<le> r mod q" using n q0 by (auto intro: order.strict_trans1[OF zmod_le_nonneg_dividend])
    moreover have "n div q * q + n div q = n - r mod q + n div q" using \<open>n - n div q * q = r mod q\<close> by simp
    ultimately show ?thesis using assms q0 q unfolding partition_work_def q_def[symmetric] Let_def
      by (simp add: distrib_left)
  qed
qed

subsection \<open>Properties\<close>

definition scalar_text :: "string option \<Rightarrow> string \<Rightarrow> string \<Rightarrow> bool" where
  "scalar_text str op ft \<longleftrightarrow> extract_S str ''op=['' '']'' 32 = Ret (Some op) \<and> extract_S str ''fldtype=['' '']'' 32 = Ret (Some ft)"

lemma par_s_to_f_start:
  assumes "scalar_text str op ''I4''" and "0 < n" "n \<le> 2 ^ 31"
  shows "\<exists>bl. chain 0 bl n \<and> par_s_to_f fpu 0 n str =
    (if op = ''const'' then given (extract_I4 str ''val=['' '']'') (\<lambda>val4. const_blocks (\<lambda>nX. const_col nX val4) bl)
     else if op = ''seq'' then given (extract_I4 str ''start=['' '']'') (\<lambda>start4. given (extract_I4 str ''incr=['' '']'')
          (\<lambda>incr4. seq_blocks INT_MAX seq_col start4 incr4 bl))
     else bye)"
proof -
  obtain block_size nT where p: "partition_work n 1024 (-1) = Some (block_size, nT)"
    using partition_unlimited[OF _ assms(2,3), of 1024] by auto
  have "chain 0 (blocks 0 n block_size nT) n" using blocks_chain[of n 0 1024 "-1" block_size nT] p by simp
  moreover have "par_s_to_f fpu 0 n str =
    (if op = ''const'' then given (extract_I4 str ''val=['' '']'') (\<lambda>val4. const_blocks (\<lambda>nX. const_col nX val4) (blocks 0 n block_size nT))
     else if op = ''seq'' then given (extract_I4 str ''start=['' '']'') (\<lambda>start4. given (extract_I4 str ''incr=['' '']'')
          (\<lambda>incr4. seq_blocks INT_MAX seq_col start4 incr4 (blocks 0 n block_size nT)))
     else bye)"
    using assms(1) p unfolding scalar_text_def par_s_to_f_def s_to_f_const_I4_def s_to_f_seq_I4_def
    by (simp add: bind_def lift_out_def of_option_def ret_def fun_eq_iff)
  ultimately show ?thesis by blast
qed

lemma given_run: "given (Ret (Some v)) f s = f v s" "given (Ret None) f s = (Ret (), s)"
  by (simp_all add: given_def bind_def lift_out_def ret_def)

lemma par_s_to_f_const:
  assumes "scalar_text str ''const'' ''I4''" and "0 < n" "n \<le> 2 ^ 31" "n \<le> int (length (view X :: I4 list))"
    and "extract_I4 str ''val=['' '']'' = Ret (Some v)"
  shows "\<exists>X'. par_s_to_f fpu 0 n str X = (Ret (), X') \<and> length X' = length X \<and> view X' = replicate (nat n) v @ drop (nat n) (view X)"
proof -
  obtain bl where "chain 0 bl n" and "par_s_to_f fpu 0 n str = given (extract_I4 str ''val=['' '']'') (\<lambda>val4. const_blocks (\<lambda>nX. const_col nX val4) bl)"
    using par_s_to_f_start[OF assms(1-3), of fpu] by auto
  then show ?thesis using const_blocks_run[of bl n X v] assms(4,5) by (simp add: given_run)
qed

text \<open>C38: Filling an \<open>I4\<close> column of at most \<open>2^31\<close> rows from a text.  A constant goes to every row; a sequence whose numbers all stay at or below
  the largest \<open>int\<close> puts \<open>start + i * incr\<close>, wrapped to 32 bits, into row \<open>i\<close>, however the rows are cut into blocks; nothing else of the file
  changes.  When the text lacks the value of a constant, or the start or the increment of a sequence, the function reports success and has
  written nothing.\<close>

theorem par_s_to_f_fills:
  assumes "scalar_text str op ''I4''" and "0 < n" "n \<le> 2 ^ 31" "n \<le> int (length (view X :: I4 list))"
  shows "(op = ''const'' \<and> extract_I4 str ''val=['' '']'' = Ret (Some v) \<longrightarrow> (\<exists>X'. par_s_to_f fpu 0 n str X = (Ret (), X') \<and>
      length X' = length X \<and> view X' = replicate (nat n) v @ drop (nat n) (view X))) \<and>
    (op = ''seq'' \<and> extract_I4 str ''start=['' '']'' = Ret (Some start) \<and> extract_I4 str ''incr=['' '']'' = Ret (Some incr) \<and>
      (\<forall>i. 0 \<le> i \<and> i < n \<longrightarrow> sint start + i * sint incr \<le> INT_MAX) \<longrightarrow> (\<exists>X'. par_s_to_f fpu 0 n str X = (Ret (), X') \<and>
      length X' = length X \<and> view X' = map (\<lambda>i. start + of_nat i * incr) [0..<nat n] @ drop (nat n) (view X))) \<and>
    (op = ''const'' \<and> extract_I4 str ''val=['' '']'' = Ret None \<longrightarrow> par_s_to_f fpu 0 n str X = (Ret (), X)) \<and>
    (op = ''seq'' \<and> (extract_I4 str ''start=['' '']'' = Ret None \<or>
        extract_I4 str ''start=['' '']'' = Ret (Some start) \<and> extract_I4 str ''incr=['' '']'' = Ret None) \<longrightarrow>
      par_s_to_f fpu 0 n str X = (Ret (), X))"
proof (intro conjI)
  obtain bl where bl: "chain 0 bl n" and p: "par_s_to_f fpu 0 n str =
    (if op = ''const'' then given (extract_I4 str ''val=['' '']'') (\<lambda>val4. const_blocks (\<lambda>nX. const_col nX val4) bl)
     else if op = ''seq'' then given (extract_I4 str ''start=['' '']'') (\<lambda>start4. given (extract_I4 str ''incr=['' '']'')
          (\<lambda>incr4. seq_blocks INT_MAX seq_col start4 incr4 bl))
     else bye)"
    using par_s_to_f_start[OF assms(1-3), of fpu] by blast
  show "op = ''const'' \<and> extract_I4 str ''val=['' '']'' = Ret (Some v) \<longrightarrow> (\<exists>X'. par_s_to_f fpu 0 n str X = (Ret (), X') \<and>
      length X' = length X \<and> view X' = replicate (nat n) v @ drop (nat n) (view X))"
    using par_s_to_f_const[OF _ assms(2-4)] assms(1) by blast
  show "op = ''const'' \<and> extract_I4 str ''val=['' '']'' = Ret None \<longrightarrow> par_s_to_f fpu 0 n str X = (Ret (), X)"
    by (simp add: p given_run)
  show "op = ''seq'' \<and> (extract_I4 str ''start=['' '']'' = Ret None \<or>
        extract_I4 str ''start=['' '']'' = Ret (Some start) \<and> extract_I4 str ''incr=['' '']'' = Ret None) \<longrightarrow>
      par_s_to_f fpu 0 n str X = (Ret (), X)"
    by (auto simp: p given_run)
  have "sint (block_start start incr lb) \<le> INT_MAX"
    if "\<forall>i. 0 \<le> i \<and> i < n \<longrightarrow> sint start + i * sint incr \<le> INT_MAX" "0 \<le> lb" "lb < n" for lb
  proof -
    have "block_start start incr lb = word_of_int (sint start + lb * sint incr)"
      unfolding block_start_def scast_eq[of start] scast_eq[of incr] by simp
    moreover have "- (2 ^ 62) \<le> lb * sint incr"
    proof -
      have "lb * (- (2 ^ 31)) \<le> lb * sint incr" using that(2) sint_ge[of incr] by (intro mult_left_mono) simp_all
      then show ?thesis using that(3) assms(3) by simp
    qed
    moreover have "sint start + lb * sint incr \<le> INT_MAX" using that by blast
    ultimately show ?thesis using sint_ge[of start] fits_sint[of "sint start + lb * sint incr"] by (simp only: fits_def) simp
  qed
  then show "op = ''seq'' \<and> extract_I4 str ''start=['' '']'' = Ret (Some start) \<and> extract_I4 str ''incr=['' '']'' = Ret (Some incr) \<and>
      (\<forall>i. 0 \<le> i \<and> i < n \<longrightarrow> sint start + i * sint incr \<le> INT_MAX) \<longrightarrow> (\<exists>X'. par_s_to_f fpu 0 n str X = (Ret (), X') \<and>
      length X' = length X \<and> view X' = map (\<lambda>i. start + of_nat i * incr) [0..<nat n] @ drop (nat n) (view X))"
    using seq_blocks_run[OF bl assms(4), where lim = INT_MAX and start = start and incr = incr] by (auto simp: p given_run)
qed

theorem par_s_to_f_fills_witness:
  "\<exists>X'. par_s_to_f no_fpu 0 3 (Some ''op=[seq]:start=[5]:incr=[-2]:fldtype=[I4]'') (unview [7, 7, 7, 9 :: I4]) = (Ret (), X') \<and>
     view X' = [5, 3, 1, 9 :: I4]"
proof -
  let ?str = "Some ''op=[seq]:start=[5]:incr=[-2]:fldtype=[I4]''"
  have t: "scalar_text ?str ''seq'' ''I4''" by code_simp
  have e: "extract_I4 ?str ''start=['' '']'' = Ret (Some 5)" "extract_I4 ?str ''incr=['' '']'' = Ret (Some (- 2))"
    by code_simp+
  let ?X = "unview [7, 7, 7, 9 :: I4]"
  have l: "(0 :: int) < 3" "(3 :: int) \<le> 2 ^ 31" "3 \<le> int (length (view ?X :: I4 list))" by simp_all
  have m: "\<forall>i. 0 \<le> i \<and> i < 3 \<longrightarrow> sint (5 :: I4) + i * sint (- 2 :: I4) \<le> INT_MAX" by simp
  have "\<exists>X'. par_s_to_f no_fpu 0 3 ?str ?X = (Ret (), X') \<and> length X' = length ?X \<and>
      view X' = map (\<lambda>i. 5 + of_nat i * (- 2 :: I4)) [0..<nat 3] @ drop (nat 3) (view ?X)"
    by (rule par_s_to_f_fills[OF t l, THEN conjunct2, THEN conjunct1, THEN mp]) (intro conjI refl e m)
  moreover have "map (\<lambda>i. 5 + of_nat i * (- 2 :: I4)) [0..<nat 3] @ drop (nat 3) (view ?X) = [5, 3, 1, 9]"
    by (simp add: eval_nat_numeral)
  ultimately show ?thesis by metis
qed

end
