(* ===== verification/D_Verbs.thy ===== *)
theory D_Verbs
  imports Q_Located Q_Machine D_Fill
begin

text \<open>
  The verbs \<open>s_to_f\<close> and \<open>f_to_s\<close> over the store: \<open>ext_s_to_f\<close> (\<open>dir_wr_verbs\<close>) makes a file, fills it and adds the
  field, \<open>ext_f_to_s\<close> (\<open>dir_helpers\<close>) maps a field and reduces it.  The exact runs of the storage functions, for a
  store without an alternative data directory, carry the result of one verb to the next.
\<close>

subsection \<open>The verbs\<close>

text \<open>A function that writes through a map: what it wrote stays, also on an error.\<close>

definition on_map :: "string \<Rightarrow> (byte list, unit) prog \<Rightarrow> byte list \<Rightarrow> unit q_prog" where
  "on_map path p X = (\<lambda>s. case p X of (r, X') \<Rightarrow> (r, s\<lparr>files := (files s)(path := Some X')\<rparr>))"

definition ext_s_to_f :: "'d fpu \<Rightarrow> string option \<Rightarrow> string option \<Rightarrow> string option \<Rightarrow> unit q_prog" where
  "ext_s_to_f fpu tbl fld str_scalar =
     bind (arg_given tbl) (\<lambda>_. bind (arg_given fld) (\<lambda>_. bind (arg_given str_scalar) (\<lambda>_.
     bind (is_tbl tbl) (\<lambda>(tid, tbl_rec).
     seq (chk_tbl_range tid)
    (bind (lift_out (extract_S str_scalar ''op=['' '']'' 32)) (\<lambda>op. bind (of_option op) (\<lambda>_.
     bind (lift_out (extract_S str_scalar ''fldtype=['' '']'' 32)) (\<lambda>ft0. bind (of_option ft0) (\<lambda>str_fldtype.
     seq (guard (str_fldtype \<noteq> []))
    (bind (of_option (unstr_fldtype (Some str_fldtype))) (\<lambda>ft.
     bind (of_option (get_fld_sz ft)) (\<lambda>fldsz.
     bind (mk_temp_file (nat (nR tbl_rec * fldsz))) (\<lambda>(opfile, d).
     bind (q_mmap d opfile True) (\<lambda>(path, X).
     seq (on_map path (par_s_to_f fpu 0 (nR tbl_rec) str_scalar) X)
     (bind (add_fld tid fld d opfile ft (-1)) (\<lambda>_. ret ()))))))))))))))))"

text \<open>\<open>is_sorted\<close> looks at the data only when the sort type of the field is not known.\<close>

definition sorted_data :: "FLD_TYPE \<Rightarrow> byte list \<Rightarrow> int \<Rightarrow> SORT_TYPE q_prog" where
  "sorted_data ft X n = (case ft of
       I1 \<Rightarrow> lift_out (is_sorted_alldef_I1 (view X) n)
     | I2 \<Rightarrow> lift_out (is_sorted_alldef_I2 (view X) n)
     | I4 \<Rightarrow> lift_out (is_sorted_alldef_I4 (view X) n)
     | I8 \<Rightarrow> lift_out (is_sorted_alldef_I8 (view X) n)
     | _ \<Rightarrow> bye)"

definition is_sorted_fld :: "int \<Rightarrow> FLD_REC \<Rightarrow> int \<Rightarrow> byte list \<Rightarrow> int \<Rightarrow> string q_prog" where
  "is_sorted_fld fid fld_rec nnid X n =
     seq (if nnid \<ge> 0 then set_fld fid (\<lambda>r. r\<lparr>sort_type := unsorted\<rparr>)
          else bind (fld_at fid) (\<lambda>r. if sort_type r = unknown
            then bind (sorted_data (fldtype fld_rec) X n) (\<lambda>st. set_fld fid (\<lambda>r. r\<lparr>sort_type := st\<rparr>)) else ret ()))
    (bind (fld_at fid) (\<lambda>r. ret (mk_str_sort_type (sort_type r))))"

text \<open>The text before the colon, at most 32 characters of it, becomes the count of a truth-valued field.\<close>

definition count_text :: "string \<Rightarrow> string q_prog" where
  "count_text rslt = seq (guard (CHR '':'' \<in> set (take 32 rslt) \<or> 32 \<le> length rslt)) (ret (take 32 (takeWhile (\<lambda>c. c \<noteq> CHR '':'') rslt)))"

definition ext_f_to_s :: "'d fpu \<Rightarrow> int \<Rightarrow> string option \<Rightarrow> string option \<Rightarrow> string option \<Rightarrow> string q_prog" where
  "ext_f_to_s fpu g_num_cores tbl fld op0 =
     bind (arg_given tbl) (\<lambda>_. bind (arg_given fld) (\<lambda>_. bind (arg_given op0) (\<lambda>op.
     bind (is_tbl tbl) (\<lambda>(tid, tbl_rec).
     bind (is_fld tbl (-1) fld) (\<lambda>((fid, fld_rec), (nnid, nn_rec)).
     bind (get_data fld_rec False) (\<lambda>(path, X).
     bind (if nnid \<ge> 0 then bind (get_data nn_rec False) (\<lambda>(nn_path, nnX). ret (Some nnX)) else ret None) (\<lambda>nn_X.
     if op = ''is_sorted'' then is_sorted_fld fid fld_rec nnid X (nR tbl_rec)
     else bind (par_f_to_s fpu g_num_cores X (fldtype fld_rec) nn_X 0 (nR tbl_rec) op) (\<lambda>rslt.
       seq (if op = ''sum'' then bind (count_text rslt) (\<lambda>countbuf.
              if fldtype fld_rec = I1 \<or> fldtype fld_rec = B then int_set_meta tid fid (Some ''cnt'') (Some countbuf) else ret ())
            else ret ())
       (ret rslt)))))))))"

subsection \<open>Exact runs of the storage functions\<close>

definition abs_dir :: "q_state \<Rightarrow> string \<Rightarrow> bool" where
  "abs_dir s d \<longleftrightarrow> d \<noteq> [] \<and> hd d = CHR ''/'' \<and> env_dirs s d"

definition dirs_ok :: "q_state \<Rightarrow> bool" where
  "dirs_ok s \<longleftrightarrow> g_alt_ddir_id s < 0 \<and> abs_dir s (g_data_dir s) \<and> abs_dir s (g_cwd s)"

lemma dirs_ok_update [simp]:
  "abs_dir (s\<lparr>p_cwd := c\<rparr>) d = abs_dir s d" "abs_dir (s\<lparr>files := f\<rparr>) d = abs_dir s d" "abs_dir (s\<lparr>g_flds := fs\<rparr>) d = abs_dir s d"
  "dirs_ok (s\<lparr>p_cwd := c\<rparr>) = dirs_ok s" "dirs_ok (s\<lparr>files := f\<rparr>) = dirs_ok s" "dirs_ok (s\<lparr>g_flds := fs\<rparr>) = dirs_ok s"
  by (simp_all add: dirs_ok_def abs_dir_def)

lemma chdir_run: "abs_dir s d \<Longrightarrow> chdir d s = (Ret True, s\<lparr>p_cwd := d\<rparr>)"
  by (simp add: abs_dir_def chdir_def resolve_def)

lemma dirs_okD: "dirs_ok s \<Longrightarrow> abs_dir s (g_data_dir s)" "dirs_ok s \<Longrightarrow> abs_dir s (g_cwd s)" "dirs_ok s \<Longrightarrow> g_alt_ddir_id s < 0"
  by (simp_all add: dirs_ok_def)

definition data_path :: "q_state \<Rightarrow> string \<Rightarrow> string" where
  "data_path s f = resolve (g_data_dir s) f"

lemma q_mmap_run:
  assumes "dirs_ok s" and "files s (data_path s f) = Some X"
  shows "q_mmap (-1) f w s = (Ret (data_path s f, X), s\<lparr>p_cwd := g_cwd s\<rparr>)"
  using assms by (simp add: q_mmap_def enter_ddir_def leave_ddir_def prog_defs chdir_ignored_def chdir_run dirs_okD rs_mmap_def data_path_def)

lemma get_data_run:
  assumes "dirs_ok s" and "filename r \<noteq> []" "ddir_id r < 0" and "files s (data_path s (filename r)) = Some X" "X \<noteq> []"
  shows "get_data r w s = (Ret (data_path s (filename r), X), s\<lparr>p_cwd := g_cwd s\<rparr>)"
proof -
  have "g_data_dir s \<noteq> []" using assms(1) by (simp add: dirs_ok_def abs_dir_def)
  then show ?thesis
    using assms by (simp add: get_data_def leave_ddir_def prog_defs chdir_ignored_def chdir_run dirs_okD rs_mmap_def data_path_def)
qed

lemma mk_temp_file_run:
  assumes "dirs_ok s" and "0 < n" "int n \<le> 2 ^ 32 - 1" and "env_avail s (g_data_dir s) = Some sp" "n < sp"
    and "mkstemp_pick (files s) (g_data_dir s) (env_tmp s) = Some f"
  shows "mk_temp_file n s = (Ret (f, -1), s\<lparr>files := (files s)(data_path s f := Some (replicate n 0)), p_cwd := g_cwd s\<rparr>)"
proof -
  have "g_alt_ddir_id s < 0" using assms(1) by (simp add: dirs_ok_def)
  moreover have "to_int32 (int n - 1) \<noteq> -1" 
  proof
    assume "to_int32 (int n - 1) = -1"
    then have "4294967296 dvd int n" by (simp add: to_int32_def mod_eq_dvd_iff[of "2147483647 + int n" 4294967296 2147483647, simplified])
    then show False using assms(2,3) zdvd_imp_le[of 4294967296 "int n"] by simp
  qed
  moreover have "open_temp_file (g_cwd s) (g_data_dir s) n s = (Ret f, s\<lparr>files := (files s)(data_path s f := Some []), p_cwd := g_cwd s\<rparr>)"
    using assms by (simp add: open_temp_file_def avail_space_def of_option_def prog_defs chdir_run dirs_okD mkstemp_def data_path_def)
  ultimately show ?thesis using assms(1,2)
    by (simp add: mk_temp_file_def mk_file_def prog_defs write_map_def chdir_run dirs_okD data_path_def)
qed

lemma get_empty_fld_run:
  assumes "\<exists>i < length (g_flds s). fld_name (g_flds s ! i) = []"
  shows "\<exists>i < length (g_flds s). fld_name (g_flds s ! i) = [] \<and> get_empty_fld x s = (Ret (int i), s)"
proof -
  have "wp (get_empty_fld x) (\<lambda>i s'. s' = s \<and> in_range i (g_flds s) \<and> fld_name (g_flds s ! nat i) = []) (\<lambda>_. False) s"
    by (rule wp_get_empty_fld) (use assms in auto)
  then obtain i where "get_empty_fld x s = (Ret i, s)" "in_range i (g_flds s)" "fld_name (g_flds s ! nat i) = []"
    by (auto simp: wp_def split: prod.splits outcome.splits)
  then show ?thesis by (intro exI[of _ "nat i"]) (auto simp: in_range_def)
qed

lemma fill_fld_run:
  assumes "i < length (g_flds s)" "length name \<le> MAX_LEN_FLD_NAME" "length fname \<le> MAX_LEN_FILE_NAME"
  shows "fill_fld (int i) tid name d fname ft (-1) s =
    (Ret (int i, new_fld tid name d fname ft (-1)), s\<lparr>g_flds := (g_flds s)[i := new_fld tid name d fname ft (-1)]\<rparr>)"
  using assms by (simp add: fill_fld_def prog_defs set_fld_def fld_at_def in_range_def new_fld_def)

lemma chk_file_size_run:
  assumes "files s (resolve (p_cwd s) f) = Some X" "X \<noteq> []" and "int (length X) = fldsz * n" "get_fld_sz ft = Some fldsz" "ft \<noteq> B"
  shows "chk_file_size f n ft s = (Ret (), s)"
  using assms by (simp add: chk_file_size_def prog_defs rs_mmap_def)

text \<open>A table with a name, and a field name that is free in it.\<close>

definition free_name :: "q_state \<Rightarrow> string \<Rightarrow> string \<Rightarrow> nat \<Rightarrow> bool" where
  "free_name s x y t \<longleftrightarrow> meta_inv s \<and> tbl_slots.unique_keys (g_tbls s) \<and> fld_slots.unique_keys (g_flds s) \<and> x \<noteq> [] \<and>
     t < length (g_tbls s) \<and> tbl_name (g_tbls s ! t) = x \<and> chk_fld_name (Some y) 0 \<and>
     (\<forall>j < length (g_flds s). fld_key (g_flds s ! j) \<noteq> (int t, y)) \<and> (\<exists>i < length (g_flds s). fld_name (g_flds s ! i) = [])"

lemma free_name_update [simp]:
  "free_name (s\<lparr>p_cwd := c\<rparr>) x y t = free_name s x y t" "free_name (s\<lparr>files := f\<rparr>) x y t = free_name s x y t"
  using meta_only_updates[OF meta_only_meta_inv] by (simp_all add: free_name_def)

lemma free_name_is_tbl: "free_name s x y t \<Longrightarrow> is_tbl (Some x) s = (Ret (int t, g_tbls s ! t), s)"
  using is_tbl_lookup[OF meta_inv_parts(1), of s x] tbl_lookup_Some[of "g_tbls s" x t]
  by (simp add: free_name_def tbl_answer_def)

lemma free_name_is_fld:
  assumes "free_name s x y t"
  shows "is_fld None (int t) (Some y) s = (Ret no_fld, s)"
proof -
  have "fld_slots.lookup (g_flds s) (int t, y) = None"
    using assms by (auto simp: free_name_def fld_slots.lookup_def find_from_None)
  then show ?thesis
    using assms is_fld_lookup[OF meta_inv_parts(1,3), of s "int t" y None] by (simp add: free_name_def fld_answer_def chk_fld_name_def)
qed

lemma add_fld_run:
  assumes free: "free_name s x y t" and dirs: "dirs_ok s"
    and fil: "files s (data_path s f) = Some X" "X \<noteq> []" "int (length X) = fldsz * nR (g_tbls s ! t)" "get_fld_sz ft = Some fldsz" "ft \<noteq> B"
    and f: "length f \<le> MAX_LEN_FILE_NAME"
  shows "\<exists>i. add_fld (int t) (Some y) (-1) f ft (-1) s = (Ret (int i, new_fld (int t) y (-1) f ft (-1)),
      s\<lparr>p_cwd := g_cwd s, g_flds := (g_flds s)[i := new_fld (int t) y (-1) f ft (-1)]\<rparr>) \<and>
    located (s\<lparr>p_cwd := g_cwd s, g_flds := (g_flds s)[i := new_fld (int t) y (-1) f ft (-1)]\<rparr>) x y t i \<and> i < length (g_flds s) \<and> fld_name (g_flds s ! i) = []"
proof -
  have y: "y \<noteq> []" "length y \<le> MAX_LEN_FLD_NAME" and t: "in_range (int t) (g_tbls s)" "live_tbl (g_tbls s) (int t)"
    using free by (auto simp: free_name_def chk_fld_name_def in_range_def live_tbl_def)
  let ?s1 = "s\<lparr>p_cwd := g_cwd s\<rparr>" and ?r = "new_fld (int t) y (-1) f ft (-1)"
  obtain i where i: "i < length (g_flds s)" "get_empty_fld (Some y) ?s1 = (Ret (int i), ?s1)" "fld_name (g_flds s ! i) = []"
    using get_empty_fld_run[of ?s1 "Some y"] free by (auto simp: free_name_def)
  let ?s2 = "s\<lparr>p_cwd := g_cwd s, g_flds := (g_flds s)[i := ?r]\<rparr>"
  have "free_name ?s1 x y t" using free by simp
  from free_name_is_fld[OF this] have isf: "is_fld None (int t) (Some y) ?s1 = (Ret no_fld, ?s1)" "chk_fld_name (Some y) 0"
    using free by (simp_all add: free_name_def)
  have run: "add_fld (int t) (Some y) (-1) f ft (-1) s = (Ret (int i, ?r), ?s2)"
    using isf y t i dirs fill_fld_run[of i ?s1 y f "int t" "-1" ft] f
      chk_file_size_run[of "s\<lparr>p_cwd := g_data_dir s\<rparr>" f X fldsz "nR (g_tbls s ! t)" ft] fil
    by (simp add: add_fld_def prog_defs arg_given_def enter_ddir_def leave_ddir_def chdir_ignored_def chdir_run dirs_okD
      tbl_at_def data_path_def no_fld_def)
  have "wp (add_fld (int t) (Some y) (-1) f ft (-1)) (\<lambda>(i, r) s'. r = ?r \<and> fld_added s (int t) y r i s') meta_inv s"
    using free t by (intro wp_add_fld) (auto simp: free_name_def ddir_ok_def)
  then have added: "fld_added s (int t) y ?r (int i) ?s2" by (simp add: wp_def run)
  moreover have key: "fld_key ?r = (int t, y)" by (simp add: fld_key_def new_fld_def)
  ultimately have "meta_inv ?s2" "fld_slots.unique_keys (g_flds ?s2)"
    using fld_added_unique[OF added _ key y(1)] free by (auto simp: fld_added_def free_name_def)
  then have "located ?s2 x y t i" using free i(1) key y(1) by (simp add: located_def free_name_def)
  then show ?thesis using run i(1,3) by blast
qed

lemma mkstemp_pick_name:
  assumes "mkstemp_pick fs dir tmp = Some f"
  shows "\<exists>x \<in> set tmp. f = ''_tempf_'' @ x" and "fs (resolve dir f) = None"
  using assms by (induction fs dir tmp rule: mkstemp_pick.induct) (auto split: if_splits)

lemma tempfile_name:
  assumes "meta_inv s" and "mkstemp_pick (files s) (g_data_dir s) (env_tmp s) = Some f"
  shows "length f \<le> MAX_LEN_FILE_NAME" and "f \<noteq> []"
  using mkstemp_pick_name(1)[OF assms(2)] assms(1) by (auto simp: meta_inv_def)

text \<open>The verb \<open>s_to_f\<close> with a constant.\<close>

lemma ext_s_to_f_run:
  assumes free: "free_name s x y t" and dirs: "dirs_ok s" and n: "n = nR (g_tbls s ! t)" "0 < n" "n < 2 ^ 30"
    and space: "env_avail s (g_data_dir s) = Some sp" "4 * n < int sp" and tmp: "mkstemp_pick (files s) (g_data_dir s) (env_tmp s) = Some f"
    and str: "scalar_text (Some str) ''const'' ''I4''" "extract_I4 (Some str) ''val=['' '']'' = Ret (Some v)" "str \<noteq> []"
  shows "\<exists>i X. ext_s_to_f fpu (Some x) (Some y) (Some str) s =
      (Ret (), s\<lparr>files := (files s)(data_path s f := Some X), p_cwd := g_cwd s, g_flds := (g_flds s)[i := new_fld (int t) y (-1) f I4 (-1)]\<rparr>) \<and>
    view X = replicate (nat n) v \<and> int (length X) = 4 * n \<and> i < length (g_flds s) \<and>
    located (s\<lparr>files := (files s)(data_path s f := Some X), p_cwd := g_cwd s, g_flds := (g_flds s)[i := new_fld (int t) y (-1) f I4 (-1)]\<rparr>) x y t i"
proof -
  let ?X0 = "replicate (nat (4 * n)) 0 :: byte list"
  let ?s1 = "s\<lparr>files := (files s)(data_path s f := Some ?X0), p_cwd := g_cwd s\<rparr>"
  have l0: "length (view ?X0 :: I4 list) = nat n" using n(2) by simp
  obtain X where X: "par_s_to_f fpu 0 n (Some str) ?X0 = (Ret (), X)" "length X = length ?X0" "view X = replicate (nat n) v"
    using par_s_to_f_const[OF str(1) n(2) _ _ str(2), of ?X0 fpu] n(2,3) l0 by auto
  let ?s2 = "s\<lparr>p_cwd := g_cwd s, files := (files s)(data_path s f := Some X)\<rparr>"
  have mk: "mk_temp_file (nat (n * 4)) s = (Ret (f, -1), ?s1)"
    using mk_temp_file_run[OF dirs _ _ space(1) _ tmp, of "nat (4 * n)"] n space(2) by (simp add: mult.commute)
  have map: "q_mmap (-1) f True ?s1 = (Ret (data_path s f, ?X0), ?s1)"
    using q_mmap_run[of ?s1 f ?X0 True] dirs by (simp add: data_path_def)
  have om: "on_map (data_path s f) (par_s_to_f fpu 0 n (Some str)) ?X0 ?s1 = (Ret (), ?s2)"
    by (simp add: on_map_def X)
  have free2: "free_name ?s2 x y t" and dirs2: "dirs_ok ?s2" using free dirs by simp_all
  have "X \<noteq> []" "int (length X) = 4 * nR (g_tbls ?s2 ! t)" using X(2) n by auto
  then obtain i where i: "add_fld (int t) (Some y) (-1) f I4 (-1) ?s2 = (Ret (int i, new_fld (int t) y (-1) f I4 (-1)),
      ?s2\<lparr>p_cwd := g_cwd ?s2, g_flds := (g_flds ?s2)[i := new_fld (int t) y (-1) f I4 (-1)]\<rparr>)"
    "located (?s2\<lparr>p_cwd := g_cwd ?s2, g_flds := (g_flds ?s2)[i := new_fld (int t) y (-1) f I4 (-1)]\<rparr>) x y t i" "i < length (g_flds s)"
    using add_fld_run[OF free2 dirs2, of f X 4 I4] tempfile_name(1)[OF _ tmp] free by (auto simp: data_path_def free_name_def)
  have "x \<noteq> []" "y \<noteq> []" "in_range (int t) (g_tbls s)" using free by (auto simp: free_name_def chk_fld_name_def in_range_def)
  then have "ext_s_to_f fpu (Some x) (Some y) (Some str) s =
      (Ret (), ?s2\<lparr>p_cwd := g_cwd ?s2, g_flds := (g_flds ?s2)[i := new_fld (int t) y (-1) f I4 (-1)]\<rparr>)"
    using str mk map om i(1) free_name_is_tbl[OF free] n(1)
    by (simp add: ext_s_to_f_def prog_defs arg_given_def chk_tbl_range_def scalar_text_def lift_out_def of_option_def unstr_fldtype_def)
  then show ?thesis using i(2,3) X n(2) by (intro exI[of _ i] exI[of _ X]) simp
qed

text \<open>The verb \<open>f_to_s\<close> on a field without an \<open>nn\<close> field.\<close>

lemma length_dec_nat: "n < 10 ^ k \<Longrightarrow> 0 < k \<Longrightarrow> length (dec_nat n) \<le> k"
proof (induction k arbitrary: n)
  case (Suc k)
  show ?case
  proof (cases "n < 10")
    case False
    then have "k \<noteq> 0" using Suc.prems by (intro notI) simp
    then have "length (dec_nat (n div 10)) \<le> k" using Suc by (simp add: less_mult_imp_div_less)
    then show ?thesis using False by (subst dec_nat.simps) simp
  qed (subst dec_nat.simps, simp)
qed simp

lemma count_text_runs:
  assumes "fits z"
  shows "count_text (dec_int z @ '':'' @ u) s = (Ret (take 32 (takeWhile (\<lambda>c. c \<noteq> CHR '':'') (dec_int z @ '':'' @ u))), s)"
proof -
  have "nat (- z) < 10 ^ 20" "nat z < 10 ^ 20" using assms by (auto simp: fits_def)
  then have "length (dec_int z) < 32" using length_dec_nat[of "nat (- z)" 20] length_dec_nat[of "nat z" 20] by (auto simp: dec_int_def)
  then have "CHR '':'' \<in> set (take 32 (dec_int z @ '':'' @ u))" by (simp add: take_Cons')
  then show ?thesis by (simp add: count_text_def prog_defs)
qed

lemma ext_f_to_s_run:
  assumes loc: "located s x y t i" and dirs: "dirs_ok s" and r: "r = g_flds s ! i" "nn_fld_id r < 0" "ddir_id r < 0" "filename r \<noteq> []"
    and X: "files s (data_path s (filename r)) = Some X" "X \<noteq> []" and ft: "fldtype r = I4" and op: "op \<noteq> []" "op \<noteq> ''is_sorted''"
    and par: "\<And>s' :: q_state. par_f_to_s fpu cores X I4 None 0 (nR (g_tbls s ! t)) op s' = (Ret (dec_int z @ '':'' @ u), s')" and "fits z"
  shows "ext_f_to_s fpu cores (Some x) (Some y) (Some op) s = (Ret (dec_int z @ '':'' @ u), s\<lparr>p_cwd := g_cwd s\<rparr>)"
proof -
  have "is_fld (Some x) (-1) (Some y) s = is_fld (Some x) (int t) (Some y) s"
    unfolding is_fld_def by (simp add: bind_def located_is_tbl[OF loc] ret_def)
  then have f: "is_fld (Some x) (-1) (Some y) s = (Ret ((int i, r), (nn_fld_id r, nn_of s r)), s)"
    using located_is_fld[OF loc] r(1) by simp
  have d: "get_data r False s = (Ret (data_path s (filename r), X), s\<lparr>p_cwd := g_cwd s\<rparr>)"
    by (rule get_data_run[OF dirs r(4,3) X])
  show ?thesis
    using locatedD(2,3)[OF loc] r(2) op ft count_text_runs[OF assms(13), of u]
    by (simp add: ext_f_to_s_def prog_defs arg_given_def located_is_tbl[OF loc] f d par)
qed

subsection \<open>One verb after the other\<close>

text \<open>With at most 32 cores every column can be cut into blocks.\<close>

lemma partition_limited:
  assumes "0 < n" "n \<le> 2 ^ 31" and "0 < lim" "lim \<le> 1024"
  shows "\<exists>block_size nT. partition_work n 1024 lim = Some (block_size, nT)"
proof (cases "lim < n div 1024")
  case False
  let ?nc = "if n div 1024 = 0 then 1 else n div 1024"
  have "to_int32 (n div 1024) = n div 1024" using assms(1,2) by (intro to_int32_id) auto
  moreover have "(if lim > 0 \<and> ?nc > lim then lim else ?nc) = ?nc" using False assms(3) by auto
  moreover have "(if (-1 :: int) > 0 \<and> ?nc > -1 then -1 else ?nc) = ?nc" by simp
  ultimately have "partition_work n 1024 lim = partition_work n 1024 (-1)" by (simp only: partition_work_def Let_def)
  then show ?thesis using partition_unlimited[OF _ assms(1,2), of 1024] by simp
next
  case True
  have i: "to_int32 (n div 1024) = n div 1024" using assms(1,2) by (intro to_int32_id) auto
  have "1024 * lim \<le> n" using True by linarith
  then have "1024 * lim div lim \<le> n div lim" using assms(3) by (intro zdiv_mono1) simp_all
  then have "1024 \<le> n div lim" using assms(3) by simp
  moreover have "n - n div lim * lim = n mod lim" by (simp add: minus_div_mult_eq_mod)
  moreover have "0 \<le> n mod lim" "n mod lim < lim" using assms(3) by simp_all
  moreover from calculation have "\<not> n div lim \<le> n mod lim" using assms(4) by linarith
  ultimately show ?thesis using assms True i unfolding partition_work_def Let_def by (simp add: distrib_left)
qed

text \<open>C7: A constant \<open>I4\<close> column and its reductions: after \<open>s_to_f\<close> has made a new field of \<open>n\<close> rows, fewer than \<open>2^30\<close>, from the text of a constant
  \<open>v\<close> of type \<open>I4\<close>, \<open>f_to_s\<close> on 1 to 32 cores finds it and prints \<open>n * v\<close> as its sum and \<open>v\<close> as its minimum and its maximum, each with \<open>n\<close> rows; no file that
  was there before has changed, and the reductions change nothing.  This needs a free field slot, room on the disk and a name
  for the temporary file.\<close>

theorem s_to_f_then_f_to_s:
  assumes "free_name s x y t" "dirs_ok s" and "n = nR (g_tbls s ! t)" "0 < n" "n < 2 ^ 30"
    and "env_avail s (g_data_dir s) = Some sp" "4 * n < int sp" "mkstemp_pick (files s) (g_data_dir s) (env_tmp s) = Some f"
    and "scalar_text (Some str) ''const'' ''I4''" "extract_I4 (Some str) ''val=['' '']'' = Ret (Some v)" "str \<noteq> []"
    and "0 < cores" "cores \<le> 32"
  shows "\<exists>s2. ext_s_to_f fpu (Some x) (Some y) (Some str) s = (Ret (), s2) \<and> (\<forall>p. files s p \<noteq> None \<longrightarrow> files s2 p = files s p) \<and>
    ext_f_to_s fpu cores (Some x) (Some y) (Some ''sum'') s2 = (Ret (dec_int (n * sint v) @ '':'' @ dec_int n), s2) \<and>
    ext_f_to_s fpu cores (Some x) (Some y) (Some ''min'') s2 = (Ret (dec_int (sint v) @ '':'' @ dec_int n), s2) \<and>
    ext_f_to_s fpu cores (Some x) (Some y) (Some ''max'') s2 = (Ret (dec_int (sint v) @ '':'' @ dec_int n), s2)"
proof -
  obtain i X where run: "ext_s_to_f fpu (Some x) (Some y) (Some str) s =
      (Ret (), s\<lparr>files := (files s)(data_path s f := Some X), p_cwd := g_cwd s, g_flds := (g_flds s)[i := new_fld (int t) y (-1) f I4 (-1)]\<rparr>)"
    and X: "view X = replicate (nat n) v" "int (length X) = 4 * n" and i: "i < length (g_flds s)"
    and loc: "located (s\<lparr>files := (files s)(data_path s f := Some X), p_cwd := g_cwd s, g_flds := (g_flds s)[i := new_fld (int t) y (-1) f I4 (-1)]\<rparr>) x y t i"
    using ext_s_to_f_run[OF assms(1-11)] by blast
  let ?s2 = "s\<lparr>files := (files s)(data_path s f := Some X), p_cwd := g_cwd s, g_flds := (g_flds s)[i := new_fld (int t) y (-1) f I4 (-1)]\<rparr>"
  have "0 < cores * cores" using assms(12) by simp
  moreover have "cores * cores \<le> 32 * 32" using assms(12,13) by (intro mult_mono) simp_all
  ultimately obtain bsz nT where pw: "partition_work n 1024 (cores * cores) = Some (bsz, nT)"
    using partition_limited[of n "cores * cores"] assms(4,5) by auto
  have ints: "ints_of I4 X = replicate (nat n) (sint v)" by (simp add: ints_of_def X(1) map_replicate_const)
  have k: "(I4 :: FLD_TYPE) \<in> {I1, I2, I4, I8}" "n \<le> int (length (ints_of I4 X))" "n < 2 ^ 63" using assms(4,5) ints by simp_all
  have v: "- (2 ^ 31) \<le> sint v" "sint v < 2 ^ 31" using sint_ge[of v] sint_lt[of v] by simp_all
  have "n * (- (2 ^ 31)) \<le> n * sint v" "n * sint v \<le> n * 2 ^ 31" using assms(4) v by (auto intro!: mult_left_mono simp del: mult_minus_right)
  then have fits: "fits (n * sint v)" "fits (sint v)" using assms(5) v by (auto simp: fits_def)
  have sum: "par_f_to_s fpu cores X I4 None 0 n ''sum'' s' = (Ret (dec_int (n * sint v) @ '':'' @ dec_int n), s')" for s' :: q_state
    using par_f_to_s_sum[OF k pw, of fpu s'] assms(4) fits by (simp add: ints sum_list_replicate wrap64_id)
  have ne: "nat n \<noteq> 0" using assms(4) by simp
  have mn: "par_f_to_s fpu cores X I4 None 0 n ''min'' s' = (Ret (dec_int (sint v) @ '':'' @ dec_int n), s')"
    and mx: "par_f_to_s fpu cores X I4 None 0 n ''max'' s' = (Ret (dec_int (sint v) @ '':'' @ dec_int n), s')" for s' :: q_state
    using par_f_to_s_min[OF k pw, of fpu s'] par_f_to_s_max[OF k pw, of fpu s'] ne by (simp_all add: ints lo_Min hi_Max)
  have f: "f \<noteq> []" using tempfile_name(2)[OF _ assms(8)] assms(1) by (simp add: free_name_def)
  have "X \<noteq> []" using X(2) assms(4) by auto
  note read = ext_f_to_s_run[OF loc, where X = X and r = "new_fld (int t) y (-1) f I4 (-1)" and fpu = fpu and cores = cores]
  have out: "ext_f_to_s fpu cores (Some x) (Some y) (Some op) ?s2 = (Ret (dec_int z @ '':'' @ dec_int n), ?s2)"
    if "op = ''sum'' \<and> z = n * sint v \<or> op \<in> {''min'', ''max''} \<and> z = sint v" for op z
    using read[of op z "dec_int n"] that sum mn mx fits assms(2,3) f \<open>X \<noteq> []\<close> i
    by (auto simp: data_path_def new_fld_def)
  have "files s (data_path s f) = None" using mkstemp_pick_name(2)[OF assms(8)] by (simp add: data_path_def)
  then have "\<forall>p. files s p \<noteq> None \<longrightarrow> files ?s2 p = files s p" by auto
  then show ?thesis using run out by blast
qed

definition sample_room :: q_state where
  "sample_room = sample_state\<lparr>env_avail := (\<lambda>_. Some 1000)\<rparr>"

lemma sample_room_free: "free_name sample_room ''t1'' ''g'' 0" "dirs_ok sample_room"
proof -
  have "meta_inv sample_room" using sample_inv by (simp add: sample_room_def meta_inv_def ht_ok_def)
  then show "free_name sample_room ''t1'' ''g'' 0"
    using sample_unique by (simp add: free_name_def sample_room_def chk_fld_name_def name_char_def isalnum_def isdigit_def code_def
      All_less_Suc fld_key_def sample_fld_def sample_nn_def Ex_less_Suc)
  show "dirs_ok sample_room" by (simp add: dirs_ok_def abs_dir_def sample_room_def sample_state_def)
qed

theorem s_to_f_then_f_to_s_witness:
  "\<exists>s2. ext_s_to_f no_fpu (Some ''t1'') (Some ''g'') (Some ''op=[const]:val=[-7]:fldtype=[I4]'') sample_room = (Ret (), s2) \<and>
     ext_f_to_s no_fpu 4 (Some ''t1'') (Some ''g'') (Some ''sum'') s2 = (Ret (dec_int (- 28) @ '':'' @ dec_int 4), s2)"
proof -
  let ?str = "''op=[const]:val=[-7]:fldtype=[I4]''"
  have t: "scalar_text (Some ?str) ''const'' ''I4''" by code_simp
  have e: "extract_I4 (Some ?str) ''val=['' '']'' = Ret (Some (- 7))" by code_simp
  have m: "mkstemp_pick (files sample_room) (g_data_dir sample_room) (env_tmp sample_room) = Some ''_tempf_aaaaaa''"
    and n: "4 = nR (g_tbls sample_room ! 0)" and a: "env_avail sample_room (g_data_dir sample_room) = Some 1000"
    by (simp_all add: sample_room_def sample_state_def)
  have l: "(0 :: int) < 4" "(4 :: int) < 2 ^ 30" "4 * 4 < int 1000" "?str \<noteq> []" "(0 :: int) < 4" "(4 :: int) \<le> 32" by simp_all
  have v: "4 * sint (- 7 :: I4) = - 28" by simp
  show ?thesis using s_to_f_then_f_to_s[OF sample_room_free n l(1,2) a l(3) m t e l(4-6), of no_fpu] unfolding v by blast
qed

end
