(* ===== verification/D_Vector.thy ===== *)
theory D_Vector
  imports D_Fill K_Vector
begin

text \<open>
  The verb \<open>f1f2opf3\<close> combines two columns row by row.  This theory has \<open>get_type_op_fld\<close> (\<open>dir_dbutils\<close>), which gives the
  type of the result, and \<open>vec_f1f2opf3\<close> (\<open>dir_helpers\<close>), which runs the kernel of the operator on one block of rows after the
  other.  Floating-point arithmetic is a parameter (\<open>alu\<close>) on the bit patterns of \<open>float\<close> and \<open>double\<close>.
\<close>

unbundle bit_operations_syntax

subsection \<open>The type of the result\<close>

text \<open>\<open>Ret None\<close> is a success that has not set the type.  The aux info of \<open>conv\<close> names the new type; the second branch of
  \<open>I8\<close> for \<open>conv\<close> is never reached.\<close>

definition conv_type :: "string option \<Rightarrow> (string \<times> FLD_TYPE) list \<Rightarrow> FLD_TYPE option outcome" where
  "conv_type aux_info ts = (case aux_info of None \<Rightarrow> Bye
     | Some a \<Rightarrow> if a = [] then Bye else case map_of ts a of None \<Rightarrow> Bye | Some t \<Rightarrow> Ret (Some t))"

definition type_f1f2 :: "string \<Rightarrow> FLD_TYPE \<Rightarrow> FLD_TYPE \<Rightarrow> FLD_TYPE option outcome" where
  "type_f1f2 op f1_fldtype f2_fldtype =
    (if op \<in> {''+'', ''-'', ''*'', ''/'', ''^'', ''|'', ''&'', ''%'', ''<<'', ''>>''} then
       (if f1_fldtype = f2_fldtype \<and> f1_fldtype \<in> {I4, I2, F4, I8, F8} then Ret (Some f1_fldtype) else Bye)
     else if op \<in> {''<='', ''>='', ''=='', ''!='', ''<'', ''>'', ''<||>'', ''<=||>='', ''>&&<'', ''>=&&<=''} then
       (if f1_fldtype \<noteq> f2_fldtype then Bye else if f1_fldtype \<in> {I1, I2, I4, I8, F4, F8} then Ret (Some I1) else Bye)
     else if op \<in> {''&&'', ''&&!'', ''||''} then
       (if f1_fldtype = I1 \<and> f2_fldtype = I1 then Ret (Some I1) else if f1_fldtype = B \<and> f2_fldtype = B then Ret (Some B) else Bye)
     else Ret None)"

definition type_f1 :: "string \<Rightarrow> FLD_TYPE \<Rightarrow> string option \<Rightarrow> FLD_TYPE option outcome" where
  "type_f1 op f1_fldtype aux_info = (case f1_fldtype of
       I4 \<Rightarrow> (if op \<in> {''++'', ''--'', ''!'', ''~'', ''bitcount'', ''cum''} then Ret (Some I4)
              else if op = ''conv'' then conv_type aux_info [(''I8'', I8), (''F4'', F4), (''I1'', I1)]
              else Bye)
     | I8 \<Rightarrow> (if op = ''conv'' then (case aux_info of None \<Rightarrow> Bye | Some a \<Rightarrow> if a = [] then Bye
                else if a = ''I4'' then Ret (Some I4) else if a = ''I8'' then Ret (Some I8) else if a = ''F4'' then Ret (Some F4)
                else Ret None)
              else if op = ''bitcount'' then Ret (Some I4)
              else if op \<in> {''++'', ''--'', ''!'', ''~'', ''cum''} then Ret (Some I8)
              else Bye)
     | I1 \<Rightarrow> (if op = ''conv'' then conv_type aux_info [(''I4'', I4), (''I8'', I8), (''F4'', F4)]
              else if op = ''!'' \<or> op = ''~'' then Ret (Some I1)
              else if op = ''cum'' then Ret (Some I4)
              else Ret None)
     | F4 \<Rightarrow> (if op = ''conv'' then conv_type aux_info [(''I4'', I4), (''I8'', I8), (''I1'', I1), (''F8'', F8)]
              else if op = ''sqrt'' \<or> op = ''abs'' then Ret (Some F4)
              else Bye)
     | F8 \<Rightarrow> (if op \<in> {''sqrt'', ''abs'', ''normal_cdf_inverse''} then Ret (Some F8) else Bye)
     | _ \<Rightarrow> Bye)"

definition get_type_op_fld :: "string \<Rightarrow> string \<Rightarrow> FLD_TYPE \<Rightarrow> FLD_TYPE \<Rightarrow> string option \<Rightarrow> FLD_TYPE option outcome" where
  "get_type_op_fld fn op f1_fldtype f2_fldtype aux_info =
    (if fn = ''f1f2opf3'' \<and> op = ''concat'' then Ret (Some I8)
     else if fn = ''f1f2opf3'' \<or> fn = ''f1s1opf2'' then type_f1f2 op f1_fldtype f2_fldtype
     else if fn = ''f1opf2'' then type_f1 op f1_fldtype aux_info
     else Bye)"

subsection \<open>More kernels on two columns\<close>

record alu =
  add_F4 :: "I4 \<Rightarrow> I4 \<Rightarrow> I4"
  sub_F4 :: "I4 \<Rightarrow> I4 \<Rightarrow> I4"
  mul_F4 :: "I4 \<Rightarrow> I4 \<Rightarrow> I4"
  div_F4 :: "I4 \<Rightarrow> I4 \<Rightarrow> I4"
  lt_F4 :: "I4 \<Rightarrow> I4 \<Rightarrow> bool"
  le_F4 :: "I4 \<Rightarrow> I4 \<Rightarrow> bool"
  eq_F4 :: "I4 \<Rightarrow> I4 \<Rightarrow> bool"
  add_F8 :: "I8 \<Rightarrow> I8 \<Rightarrow> I8"
  sub_F8 :: "I8 \<Rightarrow> I8 \<Rightarrow> I8"
  mul_F8 :: "I8 \<Rightarrow> I8 \<Rightarrow> I8"
  div_F8 :: "I8 \<Rightarrow> I8 \<Rightarrow> I8"

definition add2_F4 :: "alu \<Rightarrow> I4 list \<Rightarrow> I4 list \<Rightarrow> int \<Rightarrow> I4 kernel" where
  "add2_F4 alu = ewise2 (\<lambda>inv1 inv2. Some (add_F4 alu inv1 inv2))"

definition sub2_F4 :: "alu \<Rightarrow> I4 list \<Rightarrow> I4 list \<Rightarrow> int \<Rightarrow> I4 kernel" where
  "sub2_F4 alu = ewise2 (\<lambda>inv1 inv2. Some (sub_F4 alu inv1 inv2))"

definition mul2_F4 :: "alu \<Rightarrow> I4 list \<Rightarrow> I4 list \<Rightarrow> int \<Rightarrow> I4 kernel" where
  "mul2_F4 alu = ewise2 (\<lambda>inv1 inv2. Some (mul_F4 alu inv1 inv2))"

definition div2_F4 :: "alu \<Rightarrow> I4 list \<Rightarrow> I4 list \<Rightarrow> int \<Rightarrow> I4 kernel" where
  "div2_F4 alu = ewise2 (\<lambda>inv1 inv2. Some (div_F4 alu inv1 inv2))"

definition add2_F8 :: "alu \<Rightarrow> I8 list \<Rightarrow> I8 list \<Rightarrow> int \<Rightarrow> I8 kernel" where
  "add2_F8 alu = ewise2 (\<lambda>inv1 inv2. Some (add_F8 alu inv1 inv2))"

definition sub2_F8 :: "alu \<Rightarrow> I8 list \<Rightarrow> I8 list \<Rightarrow> int \<Rightarrow> I8 kernel" where
  "sub2_F8 alu = ewise2 (\<lambda>inv1 inv2. Some (sub_F8 alu inv1 inv2))"

definition mul2_F8 :: "alu \<Rightarrow> I8 list \<Rightarrow> I8 list \<Rightarrow> int \<Rightarrow> I8 kernel" where
  "mul2_F8 alu = ewise2 (\<lambda>inv1 inv2. Some (mul_F8 alu inv1 inv2))"

definition div2_F8 :: "alu \<Rightarrow> I8 list \<Rightarrow> I8 list \<Rightarrow> int \<Rightarrow> I8 kernel" where
  "div2_F8 alu = ewise2 (\<lambda>inv1 inv2. Some (div_F8 alu inv1 inv2))"

definition cmp_ge_F4 :: "alu \<Rightarrow> I4 list \<Rightarrow> I4 list \<Rightarrow> int \<Rightarrow> I1 kernel" where
  "cmp_ge_F4 alu = ewise2 (\<lambda>val1 val2. Some (c_bool (le_F4 alu val2 val1)))"

definition cmp_le_F4 :: "alu \<Rightarrow> I4 list \<Rightarrow> I4 list \<Rightarrow> int \<Rightarrow> I1 kernel" where
  "cmp_le_F4 alu = ewise2 (\<lambda>val1 val2. Some (c_bool (le_F4 alu val1 val2)))"

definition cmp_eq_F4 :: "alu \<Rightarrow> I4 list \<Rightarrow> I4 list \<Rightarrow> int \<Rightarrow> I1 kernel" where
  "cmp_eq_F4 alu = ewise2 (\<lambda>val1 val2. Some (c_bool (eq_F4 alu val1 val2)))"

definition cmp_ne_F4 :: "alu \<Rightarrow> I4 list \<Rightarrow> I4 list \<Rightarrow> int \<Rightarrow> I1 kernel" where
  "cmp_ne_F4 alu = ewise2 (\<lambda>val1 val2. Some (c_bool (\<not> eq_F4 alu val1 val2)))"

definition cmp_gt_F4 :: "alu \<Rightarrow> I4 list \<Rightarrow> I4 list \<Rightarrow> int \<Rightarrow> I1 kernel" where
  "cmp_gt_F4 alu = ewise2 (\<lambda>val1 val2. Some (c_bool (lt_F4 alu val2 val1)))"

definition cmp_lt_F4 :: "alu \<Rightarrow> I4 list \<Rightarrow> I4 list \<Rightarrow> int \<Rightarrow> I1 kernel" where
  "cmp_lt_F4 alu = ewise2 (\<lambda>val1 val2. Some (c_bool (lt_F4 alu val1 val2)))"

definition bwise_a_and_not_b_I8 :: "I8 list \<Rightarrow> I8 list \<Rightarrow> int \<Rightarrow> I8 kernel" where
  "bwise_a_and_not_b_I8 = ewise2 (\<lambda>inv1 inv2. Some (inv1 AND NOT inv2))"

definition concat_I4_I4_to_I8 :: "I4 list \<Rightarrow> I4 list \<Rightarrow> int \<Rightarrow> I8 kernel" where
  "concat_I4_I4_to_I8 = ewise2 (\<lambda>uitempx uitempy. Some (push_bit 32 (ucast uitempx) OR ucast uitempy))"

definition nn_core :: "I1 list \<Rightarrow> I1 list \<Rightarrow> int \<Rightarrow> I1 kernel" where
  "nn_core = ewise2 (\<lambda>x y. Some (x AND y))"

definition memcpy_I1 :: "I1 list \<Rightarrow> int \<Rightarrow> I1 kernel" where
  "memcpy_I1 src nX = ewise1 Some src nX"

subsection \<open>One block\<close>

text \<open>The pointers of a block start at row \<open>lb\<close> of the two inputs and of the output, each counted in its own type.  The answer
  tells whether the operator is known; an unknown one makes the status negative and the loop goes on.\<close>

definition col2 :: "('a::len word list \<Rightarrow> 'b::len word list \<Rightarrow> int \<Rightarrow> 'c::len word kernel) \<Rightarrow> byte list \<Rightarrow> byte list \<Rightarrow> int \<Rightarrow> int \<Rightarrow>
    (byte list, bool) prog" where
  "col2 k f1_X f2_X lb nX = seq (on_view lb (k (arr lb f1_X) (arr lb f2_X) nX)) (ret True)"

definition block_I4 :: "string \<Rightarrow> byte list \<Rightarrow> byte list \<Rightarrow> int \<Rightarrow> int \<Rightarrow> (byte list, bool) prog" where
  "block_I4 op f1_X f2_X lb nX =
    (if op = ''+'' then col2 add2_I4 f1_X f2_X lb nX
      else if op = ''-'' then col2 sub2_I4 f1_X f2_X lb nX
      else if op = ''*'' then col2 mul2_I4 f1_X f2_X lb nX
      else if op = ''/'' then col2 div2_I4 f1_X f2_X lb nX
      else if op = ''%'' then col2 rem2_I4 f1_X f2_X lb nX
      else if op = ''concat'' then col2 concat_I4_I4_to_I8 f1_X f2_X lb nX
      else if op = ''>='' then col2 cmp_ge_I4 f1_X f2_X lb nX
      else if op = ''<='' then col2 cmp_le_I4 f1_X f2_X lb nX
      else if op = ''=='' then col2 cmp_eq_I4 f1_X f2_X lb nX
      else if op = ''!='' then col2 cmp_ne_I4 f1_X f2_X lb nX
      else if op = ''>'' then col2 cmp_gt_I4 f1_X f2_X lb nX
      else if op = ''<'' then col2 cmp_lt_I4 f1_X f2_X lb nX
      else if op = ''&'' then col2 bwise_and2_I4 f1_X f2_X lb nX
      else if op = ''|'' then col2 bwise_or2_I4 f1_X f2_X lb nX
      else if op = ''^'' then col2 bwise_xor2_I4 f1_X f2_X lb nX
      else if op = ''<<'' then col2 shiftleft2_I4 f1_X f2_X lb nX
      else if op = ''>>'' then col2 shiftright2_UI4 f1_X f2_X lb nX
      else ret False)"

definition block_I8 :: "string \<Rightarrow> byte list \<Rightarrow> byte list \<Rightarrow> int \<Rightarrow> int \<Rightarrow> (byte list, bool) prog" where
  "block_I8 op f1_X f2_X lb nX =
    (if op = ''+'' then col2 add2_I8 f1_X f2_X lb nX
      else if op = ''-'' then col2 sub2_I8 f1_X f2_X lb nX
      else if op = ''*'' then col2 mul2_I8 f1_X f2_X lb nX
      else if op = ''/'' then col2 div2_I8 f1_X f2_X lb nX
      else if op = ''%'' then col2 rem2_I8 f1_X f2_X lb nX
      else if op = ''>='' then col2 cmp_ge_I8 f1_X f2_X lb nX
      else if op = ''<='' then col2 cmp_le_I8 f1_X f2_X lb nX
      else if op = ''=='' then col2 cmp_eq_I8 f1_X f2_X lb nX
      else if op = ''!='' then col2 cmp_ne_I8 f1_X f2_X lb nX
      else if op = ''>'' then col2 cmp_gt_I8 f1_X f2_X lb nX
      else if op = ''<'' then col2 cmp_lt_I8 f1_X f2_X lb nX
      else if op = ''&'' then col2 bwise_and2_I8 f1_X f2_X lb nX
      else if op = ''a_and_not_b'' then col2 bwise_a_and_not_b_I8 f1_X f2_X lb nX
      else if op = ''|'' then col2 bwise_or2_I8 f1_X f2_X lb nX
      else if op = ''^'' then col2 bwise_xor2_I8 f1_X f2_X lb nX
      else if op = ''<<'' then col2 shiftleft2_I8 f1_X f2_X lb nX
      else if op = ''>>'' then col2 shiftright2_UI8 f1_X f2_X lb nX
      else ret False)"

definition block_F4 :: "alu \<Rightarrow> string \<Rightarrow> byte list \<Rightarrow> byte list \<Rightarrow> int \<Rightarrow> int \<Rightarrow> (byte list, bool) prog" where
  "block_F4 alu op f1_X f2_X lb nX =
    (if op = ''+'' then col2 (add2_F4 alu) f1_X f2_X lb nX
      else if op = ''-'' then col2 (sub2_F4 alu) f1_X f2_X lb nX
      else if op = ''*'' then col2 (mul2_F4 alu) f1_X f2_X lb nX
      else if op = ''/'' then col2 (div2_F4 alu) f1_X f2_X lb nX
      else if op = ''>='' then col2 (cmp_ge_F4 alu) f1_X f2_X lb nX
      else if op = ''<='' then col2 (cmp_le_F4 alu) f1_X f2_X lb nX
      else if op = ''=='' then col2 (cmp_eq_F4 alu) f1_X f2_X lb nX
      else if op = ''!='' then col2 (cmp_ne_F4 alu) f1_X f2_X lb nX
      else if op = ''>'' then col2 (cmp_gt_F4 alu) f1_X f2_X lb nX
      else if op = ''<'' then col2 (cmp_lt_F4 alu) f1_X f2_X lb nX
      else ret False)"

definition block_F8 :: "alu \<Rightarrow> string \<Rightarrow> byte list \<Rightarrow> byte list \<Rightarrow> int \<Rightarrow> int \<Rightarrow> (byte list, bool) prog" where
  "block_F8 alu op f1_X f2_X lb nX =
    (if op = ''+'' then col2 (add2_F8 alu) f1_X f2_X lb nX
      else if op = ''-'' then col2 (sub2_F8 alu) f1_X f2_X lb nX
      else if op = ''*'' then col2 (mul2_F8 alu) f1_X f2_X lb nX
      else if op = ''/'' then col2 (div2_F8 alu) f1_X f2_X lb nX
      else ret False)"

definition block_I1 :: "string \<Rightarrow> byte list \<Rightarrow> byte list \<Rightarrow> int \<Rightarrow> int \<Rightarrow> (byte list, bool) prog" where
  "block_I1 op f1_X f2_X lb nX =
    (if op = ''||'' then col2 or2_I1 f1_X f2_X lb nX
      else if op = ''&&'' then col2 and2_I1 f1_X f2_X lb nX
      else if op = ''&&!'' then col2 a_and_not_b_I1 f1_X f2_X lb nX
      else if op = ''!='' then col2 cmp_ne_I1 f1_X f2_X lb nX
      else if op = ''=='' then col2 cmp_eq_I1 f1_X f2_X lb nX
      else ret False)"

definition block_B :: "string \<Rightarrow> byte list \<Rightarrow> byte list \<Rightarrow> int \<Rightarrow> int \<Rightarrow> (byte list, bool) prog" where
  "block_B op f1_X f2_X lb0 nX0 = (if lb0 div 64 * 64 \<noteq> lb0 then ret False
     else let lb = lb0 div 64; nX = nX0 div 64 in
    (if op = ''||'' then col2 bwise_or2_I8 f1_X f2_X lb nX
      else if op = ''&&'' then col2 bwise_and2_I8 f1_X f2_X lb nX
      else if op = ''&&!'' then col2 bwise_a_and_not_b_I8 f1_X f2_X lb nX
      else ret False))"

definition vec_block :: "alu \<Rightarrow> FLD_TYPE \<Rightarrow> string \<Rightarrow> byte list \<Rightarrow> byte list \<Rightarrow> int \<times> int \<Rightarrow> (byte list, bool) prog" where
  "vec_block alu f1type op f1_X f2_X = (\<lambda>(lb, ub). let nX = ub - lb in case f1type of
       I4 \<Rightarrow> block_I4 op f1_X f2_X lb nX
     | I8 \<Rightarrow> block_I8 op f1_X f2_X lb nX
     | F4 \<Rightarrow> block_F4 alu op f1_X f2_X lb nX
     | F8 \<Rightarrow> block_F8 alu op f1_X f2_X lb nX
     | I1 \<Rightarrow> block_I1 op f1_X f2_X lb nX
     | B \<Rightarrow> block_B op f1_X f2_X lb nX
     | _ \<Rightarrow> ret False)"

fun all_blocks :: "('x \<Rightarrow> ('s, bool) prog) \<Rightarrow> 'x list \<Rightarrow> ('s, bool) prog" where
  "all_blocks f [] = ret True"
| "all_blocks f (x # xs) = bind (f x) (\<lambda>ok. bind (all_blocks f xs) (\<lambda>rest. ret (ok \<and> rest)))"

definition nn_block :: "byte list option \<Rightarrow> byte list option \<Rightarrow> int \<times> int \<Rightarrow> (byte list, unit) prog" where
  "nn_block nn_f1_X nn_f2_X = (\<lambda>(lb, ub). let nX = ub - lb in case (nn_f1_X, nn_f2_X) of
       (None, None) \<Rightarrow> ret ()
     | (None, Some n2) \<Rightarrow> on_view lb (memcpy_I1 (arr lb n2) nX)
     | (Some n1, None) \<Rightarrow> on_view lb (memcpy_I1 (arr lb n1) nX)
     | (Some n1, Some n2) \<Rightarrow> on_view lb (nn_core (arr lb n1) (arr lb n2) nX))"

subsection \<open>All blocks\<close>

text \<open>The state holds the output column and its \<open>nn\<close> column.\<close>

record out_cols =
  op_X :: "byte list"
  nn_op_X :: "byte list"

definition to_op :: "(byte list, 'a) prog \<Rightarrow> (out_cols, 'a) prog" where
  "to_op p = (\<lambda>s. case p (op_X s) of (r, X) \<Rightarrow> (r, s\<lparr>op_X := X\<rparr>))"

definition to_nn :: "(byte list, 'a) prog \<Rightarrow> (out_cols, 'a) prog" where
  "to_nn p = (\<lambda>s. case p (nn_op_X s) of (r, X) \<Rightarrow> (r, s\<lparr>nn_op_X := X\<rparr>))"

definition vec_f1f2opf3 :: "alu \<Rightarrow> int \<Rightarrow> int \<Rightarrow> FLD_TYPE \<Rightarrow> FLD_TYPE \<Rightarrow> byte list \<Rightarrow> byte list option \<Rightarrow> byte list \<Rightarrow> byte list option \<Rightarrow>
    string \<Rightarrow> (out_cols, unit) prog" where
  "vec_f1f2opf3 alu in_lb in_ub f1type f2type f1_X nn_f1_X f2_X nn_f2_X op =
     seq (guard (f1type = f2type))
    (bind (of_option (partition_work (in_ub - in_lb) 8192 (-1))) (\<lambda>(block_size, nT).
     let bl = blocks in_lb in_ub block_size nT in
     seq (to_nn (for_each (nn_block nn_f1_X nn_f2_X) bl))
    (bind (to_op (all_blocks (vec_block alu f1type op f1_X f2_X) bl)) guard)))"

end
