(* ===== verification/D_Vector_Proofs.thy ===== *)
theory D_Vector_Proofs
  imports D_Vector
begin

text \<open>
  What \<open>vec_f1f2opf3\<close> computes on integer columns.  The reference is an operation on integers, one pair of rows at a time; the
  kernels compute it on words, block by block, and the whole column is the operation on every row.
\<close>

unbundle bit_operations_syntax

subsection \<open>The operations on integers\<close>

text \<open>\<open>None\<close>: the operation has no value.  \<open>w\<close> is the width of the operands.\<close>

definition cmp_ops :: "string set" where
  "cmp_ops = {''>='', ''<='', ''=='', ''!='', ''>'', ''<''}"

definition arith_ops :: "string set" where
  "arith_ops = {''+'', ''-'', ''*'', ''/'', ''%'', ''&'', ''|'', ''^'', ''<<'', ''>>''}"

definition int_op :: "nat \<Rightarrow> string \<Rightarrow> int \<Rightarrow> int \<Rightarrow> int option" where
  "int_op w op a b =
    (if op = ''+'' then Some (a + b) else if op = ''-'' then Some (a - b) else if op = ''*'' then Some (a * b)
     else if op = ''/'' then (if b = 0 \<or> a = - (2 ^ (w - 1)) \<and> b = - 1 then None else Some (c_div a b))
     else if op = ''%'' then (if b = 0 \<or> a = - (2 ^ (w - 1)) \<and> b = - 1 then None else Some (a - c_div a b * b))
     else if op = ''&'' then Some (a AND b) else if op = ''|'' then Some (a OR b) else if op = ''^'' then Some (a XOR b)
     else if op = ''<<'' then (if 0 \<le> b \<and> b < int w then Some (a * 2 ^ nat b) else None)
     else if op = ''>>'' then (if 0 \<le> b \<and> b < int w then Some (a mod 2 ^ w div 2 ^ nat b) else None)
     else if op = ''>='' then Some (of_bool (a \<ge> b)) else if op = ''<='' then Some (of_bool (a \<le> b))
     else if op = ''=='' then Some (of_bool (a = b)) else if op = ''!='' then Some (of_bool (a \<noteq> b))
     else if op = ''>'' then Some (of_bool (a > b)) else if op = ''<'' then Some (of_bool (a < b))
     else if op = ''||'' then Some (of_bool (a \<noteq> 0 \<or> b \<noteq> 0)) else if op = ''&&'' then Some (of_bool (a \<noteq> 0 \<and> b \<noteq> 0))
     else if op = ''&&!'' then Some (a AND NOT b)
     else if op = ''concat'' then Some (a mod 2 ^ w * 2 ^ w + b mod 2 ^ w)
     else None)"

text \<open>A kernel function on words computes an operation on integers.\<close>

definition computes :: "('a::len word \<Rightarrow> 'a word \<Rightarrow> 'b::len word option) \<Rightarrow> string \<Rightarrow> bool" where
  "computes f op \<longleftrightarrow> (\<forall>a b. f a b = map_option word_of_int (int_op LENGTH('a) op (sint a) (sint b)))"

lemma sint_eq_iff: "sint a = sint b \<longleftrightarrow> a = (b :: 'a::len word)"
  by (auto intro: signed_word_eqI)

lemma sint_0_iff: "sint a = 0 \<longleftrightarrow> a = (0 :: 'a::len word)"
  using sint_eq_iff[of a 0] by simp

lemma uint_of_sint: "uint (y :: 'a::len word) = sint y mod 2 ^ LENGTH('a)"
  by (simp add: uint_sint take_bit_eq_mod)

lemma shift_count:
  fixes y :: "'a::len word"
  shows "unat y < LENGTH('a) \<longleftrightarrow> 0 \<le> sint y \<and> sint y < int (LENGTH('a))" and "0 \<le> sint y \<Longrightarrow> nat (sint y) = unat y"
proof -
  have lt: "sint y < 2 ^ (LENGTH('a) - 1)" and ge: "- (2 ^ (LENGTH('a) - 1)) \<le> sint y" by (rule sint_lt, rule sint_ge)
  have two: "(2 :: int) ^ LENGTH('a) = 2 * 2 ^ (LENGTH('a) - 1)" by (simp flip: power_Suc)
  have pos: "uint y = sint y" if "0 \<le> sint y" using that lt two by (simp add: uint_of_sint)
  then show "0 \<le> sint y \<Longrightarrow> nat (sint y) = unat y" by (simp add: unat_eq_nat_uint)
  show "unat y < LENGTH('a) \<longleftrightarrow> 0 \<le> sint y \<and> sint y < int (LENGTH('a))"
  proof (cases "0 \<le> sint y")
    case True
    then have "sint y = int (unat y)" using pos by simp
    then show ?thesis by (simp only: of_nat_less_iff of_nat_0_le_iff simp_thms)
  next
    case False
    have "uint y = (sint y + 2 ^ LENGTH('a)) mod 2 ^ LENGTH('a)" by (simp add: uint_of_sint)
    also have "\<dots> = sint y + 2 ^ LENGTH('a)" using False ge two by (intro mod_pos_pos_trivial) simp_all
    finally have "2 ^ (LENGTH('a) - 1) \<le> uint y" using ge two by simp
    moreover have "LENGTH('a) \<le> 2 ^ (LENGTH('a) - 1)" using less_exp[of "LENGTH('a) - 1"] len_gt_0[where 'a = 'a] by linarith
    then have "int (LENGTH('a)) \<le> 2 ^ (LENGTH('a) - 1)" by (metis of_nat_le_iff of_nat_numeral of_nat_power)
    ultimately have "int (LENGTH('a)) \<le> uint y" by (rule order_trans[rotated])
    moreover have "int (unat y) = uint y" by simp
    ultimately show ?thesis using False by linarith
  qed
qed

lemma computes_arith:
  "computes (\<lambda>a b :: 'a::len word. Some (a + b)) ''+''" "computes (\<lambda>a b :: 'a::len word. Some (a - b)) ''-''"
  "computes (\<lambda>a b :: 'a::len word. Some (a * b)) ''*''" 
  "computes (\<lambda>a b :: 'a::len word. c_quot False a b) ''/''" "computes (\<lambda>a b :: 'a::len word. c_rem False a b) ''%''"
  by (auto simp: computes_def int_op_def c_quot_def c_rem_def div_traps_def sint_0_iff)

lemma computes_bits:
  "computes (\<lambda>a b :: 'a::len word. Some (a AND b)) ''&''" "computes (\<lambda>a b :: 'a::len word. Some (a OR b)) ''|''"
  "computes (\<lambda>a b :: 'a::len word. Some (a XOR b)) ''^''" "computes (\<lambda>a b :: 'a::len word. Some (a AND NOT b)) ''&&!''"
  by (auto simp: computes_def int_op_def intro!: bit_word_eqI) (auto simp: bit_simps)

lemma computes_cmp:
  "computes (\<lambda>a b :: 'a::len word. Some (c_bool (b \<le>s a) :: 'b::len word)) ''>=''" 
  "computes (\<lambda>a b :: 'a::len word. Some (c_bool (a \<le>s b) :: 'b::len word)) ''<=''" 
  "computes (\<lambda>a b :: 'a::len word. Some (c_bool (a = b) :: 'b::len word)) ''==''" 
  "computes (\<lambda>a b :: 'a::len word. Some (c_bool (a \<noteq> b) :: 'b::len word)) ''!=''" 
  "computes (\<lambda>a b :: 'a::len word. Some (c_bool (b <s a) :: 'b::len word)) ''>''" 
  "computes (\<lambda>a b :: 'a::len word. Some (c_bool (a <s b) :: 'b::len word)) ''<''" 
  "computes (\<lambda>a b :: 'a::len word. Some (c_bool (a \<noteq> 0 \<or> b \<noteq> 0) :: 'b::len word)) ''||''" 
  "computes (\<lambda>a b :: 'a::len word. Some (c_bool (a \<noteq> 0 \<and> b \<noteq> 0) :: 'b::len word)) ''&&''" 
  by (auto simp: computes_def int_op_def c_bool_def word_sle_eq word_sless_alt sint_eq_iff sint_0_iff)

lemma computes_shift:
  "computes (\<lambda>a b :: 'a::len word. c_shl a b) ''<<''" "computes (\<lambda>a b :: 'a::len word. c_shr a b) ''>>''"
proof -
  have l: "push_bit n a = word_of_int (sint a * 2 ^ n)" for n and a :: "'a word" by (simp add: push_bit_eq_mult)
  have "drop_bit n a = word_of_int (uint a div 2 ^ n)" for n and a :: "'a word"
    unfolding drop_bit_eq_div[symmetric] by (rule bit_word_eqI) (auto simp: bit_simps add.commute dest: bit_imp_le_length)
  then have r: "drop_bit n a = word_of_int (sint a mod 2 ^ LENGTH('a) div 2 ^ n)" for n and a :: "'a word"
    by (simp add: uint_of_sint)
  show "computes (\<lambda>a b :: 'a::len word. c_shl a b) ''<<''" "computes (\<lambda>a b :: 'a::len word. c_shr a b) ''>>''"
    unfolding computes_def int_op_def c_shl_def c_shr_def shift_count(1) l r by (auto simp: shift_count(2))
qed

lemma computes_concat:
  "computes (\<lambda>a b :: I4. Some (push_bit 32 (ucast a) OR ucast b :: I8)) ''concat''"
proof -
  have "push_bit 32 (ucast a) OR ucast b = (push_bit 32 (ucast a) + ucast b :: I8)" for a b :: I4
    by (rule disjunctive_add[symmetric]) (auto simp: bit_simps dest: bit_imp_le_length)
  also have "push_bit 32 (ucast a) + ucast b = (word_of_int (uint a * 2 ^ 32 + uint b) :: I8)" for a b :: I4
    by (simp add: push_bit_eq_mult)
  finally have "push_bit 32 (ucast a) OR ucast b = (word_of_int (uint a * 2 ^ 32 + uint b) :: I8)" for a b :: I4 .
  moreover have "uint a = sint a mod 2 ^ 32" for a :: I4 using uint_of_sint[of a] by simp
  ultimately have "push_bit 32 (ucast a) OR ucast b = (word_of_int (sint a mod 2 ^ 32 * 2 ^ 32 + sint b mod 2 ^ 32) :: I8)" for a b :: I4
    by presburger
  then show ?thesis unfolding computes_def int_op_def by simp
qed

lemmas computes_all = computes_arith computes_bits computes_cmp computes_shift computes_concat

subsection \<open>Blocks of two columns\<close>

lemma fill_shift:
  assumes "\<forall>i < m. g i = Some (h (a + i))" and "m \<le> length out"
  shows "fill g m out = (Ret (), map h [a..<a + m] @ drop m out)"
proof -
  have "map (the \<circ> g) [0..<m] = map h [a..<a + m]" using assms(1) by (intro nth_equalityI) simp_all
  then show ?thesis using fill_run[OF assms(2), of g] assms(1) by simp
qed

lemma fill_length: "length (snd (fill g n ws)) = length ws"
  unfolding fill_def by (rule for_each_keeps) (auto simp: prog_defs split: option.splits)

lemma get_at_arr: "0 \<le> lb \<Longrightarrow> nat lb + i < length (view X :: 'a::len word list) \<Longrightarrow> get_at (arr lb X) i = Some ((view X :: 'a word list) ! (nat lb + i))"
  by (simp add: get_at_def arr_def)

lemma all_blocks_for_each: "all_blocks (\<lambda>x. seq (g x) (ret True)) xs = seq (for_each g xs) (ret True)"
  by (induction xs) (auto simp: prog_defs fun_eq_iff split: prod.splits outcome.splits)

lemma ewise2_blocks:
  fixes f :: "'a::len word \<Rightarrow> 'c::len word \<Rightarrow> 'b::len word option"
  assumes "chain 0 bl n" and "whole_bytes TYPE('b word)"
    and len: "nat n \<le> length (view X1 :: 'a word list)" "nat n \<le> length (view X2 :: 'c word list)" "n \<le> int (length (view X :: 'b word list))"
    and f: "\<forall>i < nat n. f (view X1 ! i) (view X2 ! i) = Some (h i)"
  shows "\<exists>X'. for_each (\<lambda>(lb, ub). on_view lb (ewise2 f (arr lb X1) (arr lb X2) (ub - lb))) bl X = (Ret (), X') \<and> length X' = length X \<and>
    view X' = map h [0..<nat n] @ drop (nat n) (view X)"
proof -
  let ?k = "\<lambda>lb ub. ewise2 f (arr lb X1) (arr lb X2) (ub - lb)"
  have "\<exists>X'. for_each (\<lambda>(lb, ub). on_view lb (?k lb ub)) bl X = (Ret (), X') \<and> length X' = length X \<and>
      view X' = take (nat 0) (view X) @ map h [nat 0..<nat n] @ drop (nat n) (view X)"
  proof (rule fill_chain[OF assms(1) _ len(3) assms(2), where k = ?k])
    fix lb ub :: int and ws :: "'b word list" assume b: "0 \<le> lb" "lb < ub" "ub \<le> n" and ws: "nat (ub - lb) \<le> length ws"
    have m: "nat lb + nat (ub - lb) = nat ub" using b by simp
    have "Option.bind (get_at (arr lb X1) i) (\<lambda>x. Option.bind (get_at (arr lb X2) i) (f x)) = Some (h (nat lb + i))"
      if "i < nat (ub - lb)" for i
    proof -
      have n: "nat lb + i < nat n" using that b by linarith
      then have "nat lb + i < length (view X1 :: 'a word list)" "nat lb + i < length (view X2 :: 'c word list)"
        using len(1,2) by (meson order.strict_trans2)+
      then show ?thesis using f n by (simp add: get_at_arr b(1) del: length_view)
    qed
    then have "?k lb ub ws = (Ret (), map h [nat lb..<nat lb + nat (ub - lb)] @ drop (nat (ub - lb)) ws)"
      unfolding ewise2_def by (intro fill_shift ws) blast
    then show "?k lb ub ws = (Ret (), map h [nat lb..<nat ub] @ drop (nat (ub - lb)) ws)" by (simp only: m)
  qed (simp_all add: ewise2_def fill_length)
  then show ?thesis by simp
qed

lemma col2_blocks:
  fixes f :: "'a::len word \<Rightarrow> 'c::len word \<Rightarrow> 'b::len word option"
  assumes "chain 0 bl n" and "whole_bytes TYPE('b word)"
    and "nat n \<le> length (view X1 :: 'a word list)" "nat n \<le> length (view X2 :: 'c word list)" "n \<le> int (length (view X :: 'b word list))"
    and "\<forall>i < nat n. f (view X1 ! i) (view X2 ! i) = Some (h i)"
  shows "\<exists>X'. all_blocks (\<lambda>(lb, ub). col2 (ewise2 f) X1 X2 lb (ub - lb)) bl X = (Ret True, X') \<and> length X' = length X \<and>
    view X' = map h [0..<nat n] @ drop (nat n) (view X)"
proof -
  let ?g = "\<lambda>(lb, ub). on_view lb (ewise2 f (arr lb X1) (arr lb X2) (ub - lb))"
  have "(\<lambda>(lb, ub). col2 (ewise2 f) X1 X2 lb (ub - lb)) = (\<lambda>x. seq (?g x) (ret True))" by (simp add: fun_eq_iff col2_def)
  then have e: "all_blocks (\<lambda>(lb, ub). col2 (ewise2 f) X1 X2 lb (ub - lb)) bl = seq (for_each ?g bl) (ret True)"
    by (simp only: all_blocks_for_each)
  obtain X' where "for_each ?g bl X = (Ret (), X')" "length X' = length X" "view X' = map h [0..<nat n] @ drop (nat n) (view X)"
    using ewise2_blocks[OF assms] by blast
  then show ?thesis unfolding e by (simp add: seq_def bind_def ret_def)
qed

subsection \<open>The kernel of an operator\<close>

lemmas I4_kernels = block_I4_def add2_I4_def sub2_I4_def mul2_I4_def div2_I4_def rem2_I4_def concat_I4_I4_to_I8_def
  cmp_ge_I4_def cmp_le_I4_def cmp_eq_I4_def cmp_ne_I4_def cmp_gt_I4_def cmp_lt_I4_def
  bwise_and2_I4_def bwise_or2_I4_def bwise_xor2_I4_def shiftleft2_I4_def shiftright2_UI4_def

lemmas I8_kernels = block_I8_def add2_I8_def sub2_I8_def mul2_I8_def div2_I8_def rem2_I8_def
  cmp_ge_I8_def cmp_le_I8_def cmp_eq_I8_def cmp_ne_I8_def cmp_gt_I8_def cmp_lt_I8_def
  bwise_and2_I8_def bwise_or2_I8_def bwise_xor2_I8_def shiftleft2_I8_def shiftright2_UI8_def

lemmas I1_kernels = block_I1_def or2_I1_def and2_I1_def a_and_not_b_I1_def cmp_ne_I1_def cmp_eq_I1_def

lemma kernel_I4_arith: "op \<in> arith_ops \<Longrightarrow> \<exists>f :: I4 \<Rightarrow> I4 \<Rightarrow> I4 option. computes f op \<and> block_I4 op = col2 (ewise2 f)"
  unfolding arith_ops_def by (elim insertE emptyE; hypsubst; rule exI; rule conjI, rule computes_all, simp add: I4_kernels fun_eq_iff)

lemma kernel_I4_cmp: "op \<in> cmp_ops \<Longrightarrow> \<exists>f :: I4 \<Rightarrow> I4 \<Rightarrow> I1 option. computes f op \<and> block_I4 op = col2 (ewise2 f)"
  unfolding cmp_ops_def by (elim insertE emptyE; hypsubst; rule exI; rule conjI, rule computes_all, simp add: I4_kernels fun_eq_iff)

lemma kernel_I4_concat: "\<exists>f :: I4 \<Rightarrow> I4 \<Rightarrow> I8 option. computes f ''concat'' \<and> block_I4 ''concat'' = col2 (ewise2 f)"
  by (rule exI; rule conjI, rule computes_all, simp add: I4_kernels fun_eq_iff)

lemma kernel_I8_arith: "op \<in> arith_ops \<Longrightarrow> \<exists>f :: I8 \<Rightarrow> I8 \<Rightarrow> I8 option. computes f op \<and> block_I8 op = col2 (ewise2 f)"
  unfolding arith_ops_def by (elim insertE emptyE; hypsubst; rule exI; rule conjI, rule computes_all, simp add: I8_kernels fun_eq_iff)

lemma kernel_I8_cmp: "op \<in> cmp_ops \<Longrightarrow> \<exists>f :: I8 \<Rightarrow> I8 \<Rightarrow> I1 option. computes f op \<and> block_I8 op = col2 (ewise2 f)"
  unfolding cmp_ops_def by (elim insertE emptyE; hypsubst; rule exI; rule conjI, rule computes_all, simp add: I8_kernels fun_eq_iff)

definition logic_ops :: "string set" where
  "logic_ops = {''||'', ''&&'', ''&&!'', ''!='', ''==''}"

lemma kernel_I1: "op \<in> logic_ops \<Longrightarrow> \<exists>f :: I1 \<Rightarrow> I1 \<Rightarrow> I1 option. computes f op \<and> block_I1 op = col2 (ewise2 f)"
  unfolding logic_ops_def by (elim insertE emptyE; hypsubst; rule exI; rule conjI, rule computes_all, simp add: I1_kernels fun_eq_iff)

definition ops_for :: "FLD_TYPE \<Rightarrow> string set" where
  "ops_for t = (case t of I4 \<Rightarrow> arith_ops \<union> cmp_ops \<union> {''concat''} | I8 \<Rightarrow> arith_ops \<union> cmp_ops | I1 \<Rightarrow> logic_ops | _ \<Rightarrow> {})"

definition width :: "FLD_TYPE \<Rightarrow> nat" where
  "width t = (case t of I1 \<Rightarrow> 8 | I2 \<Rightarrow> 16 | I4 \<Rightarrow> 32 | I8 \<Rightarrow> 64 | _ \<Rightarrow> 0)"

definition as_type :: "FLD_TYPE \<Rightarrow> int \<Rightarrow> int" where
  "as_type t z = (case t of I1 \<Rightarrow> sint (word_of_int z :: I1) | I2 \<Rightarrow> sint (word_of_int z :: I2) | I4 \<Rightarrow> sint (word_of_int z :: I4)
     | I8 \<Rightarrow> sint (word_of_int z :: I8) | _ \<Rightarrow> z)"

definition row_result :: "FLD_TYPE \<Rightarrow> FLD_TYPE \<Rightarrow> string \<Rightarrow> byte list \<Rightarrow> byte list \<Rightarrow> nat \<Rightarrow> int" where
  "row_result t u op X1 X2 i = as_type u (the (int_op (width t) op (ints_of t X1 ! i) (ints_of t X2 ! i)))"

definition defined_rows :: "FLD_TYPE \<Rightarrow> string \<Rightarrow> byte list \<Rightarrow> byte list \<Rightarrow> nat \<Rightarrow> bool" where
  "defined_rows t op X1 X2 m \<longleftrightarrow> m \<le> length (ints_of t X1) \<and> m \<le> length (ints_of t X2) \<and>
     (\<forall>i < m. int_op (width t) op (ints_of t X1 ! i) (ints_of t X2 ! i) \<noteq> None)"

text \<open>The kernels compute on the values of the rows.\<close>

lemma computed_rows:
  fixes f :: "'a::len word \<Rightarrow> 'a word \<Rightarrow> 'b::len word option"
  assumes f: "computes f op" and k: "vec_block alu t op X1 X2 = (\<lambda>(lb, ub). col2 (ewise2 f) X1 X2 lb (ub - lb))"
    and t: "ints_of t = (\<lambda>X. map sint (view X :: 'a word list))" "width t = LENGTH('a)"
    and u: "ints_of u = (\<lambda>X. map sint (view X :: 'b word list))" "as_type u = (\<lambda>z. sint (word_of_int z :: 'b word))" "whole_bytes TYPE('b word)"
    and bl: "chain 0 bl n" and def: "defined_rows t op X1 X2 (nat n)" and out: "nat n \<le> length (ints_of u X)"
  shows "\<exists>X'. all_blocks (vec_block alu t op X1 X2) bl X = (Ret True, X') \<and> length X' = length X \<and>
    ints_of u X' = map (row_result t u op X1 X2) [0..<nat n] @ drop (nat n) (ints_of u X)"
proof -
  let ?z = "\<lambda>i. the (int_op (width t) op (ints_of t X1 ! i) (ints_of t X2 ! i))"
  have "0 \<le> n" using chain_le[OF bl] .
  have len: "nat n \<le> length (view X1 :: 'a word list)" "nat n \<le> length (view X2 :: 'a word list)" "n \<le> int (length (view X :: 'b word list))"
    using def out unfolding defined_rows_def t(1) u(1) length_map by linarith+
  have "f (view X1 ! i) (view X2 ! i) = Some (word_of_int (?z i))" if "i < nat n" for i
  proof -
    have "ints_of t X1 ! i = sint ((view X1 :: 'a word list) ! i)" "ints_of t X2 ! i = sint ((view X2 :: 'a word list) ! i)"
      using that len(1,2) unfolding t(1) by (simp_all del: length_view)
    moreover have "int_op (width t) op (ints_of t X1 ! i) (ints_of t X2 ! i) \<noteq> None" using def that by (simp add: defined_rows_def)
    ultimately show ?thesis using f unfolding computes_def t(2) by auto
  qed
  then obtain X' where X': "all_blocks (vec_block alu t op X1 X2) bl X = (Ret True, X')" "length X' = length X"
    "view X' = map (\<lambda>i. word_of_int (?z i)) [0..<nat n] @ drop (nat n) (view X :: 'b word list)"
    using col2_blocks[OF bl u(3) len, of f "\<lambda>i. word_of_int (?z i)"] k by auto
  have "ints_of u X' = map (row_result t u op X1 X2) [0..<nat n] @ drop (nat n) (ints_of u X)"
    unfolding u(1) X'(3) map_append drop_map map_map row_result_def u(2) comp_def ..
  then show ?thesis using X'(1,2) by blast
qed

lemma type_facts:
  "ints_of I1 = (\<lambda>X. map sint (view X :: I1 list))" "ints_of I4 = (\<lambda>X. map sint (view X :: I4 list))"
  "ints_of I8 = (\<lambda>X. map sint (view X :: I8 list))" "width I1 = LENGTH(8)" "width I4 = LENGTH(32)" "width I8 = LENGTH(64)"
  "as_type I1 = (\<lambda>z. sint (word_of_int z :: I1))" "as_type I4 = (\<lambda>z. sint (word_of_int z :: I4))" "as_type I8 = (\<lambda>z. sint (word_of_int z :: I8))"
  by (simp_all add: fun_eq_iff ints_of_def width_def as_type_def)

lemma block_rows:
  assumes op: "op \<in> ops_for t" and ty: "get_type_op_fld ''f1f2opf3'' op t t aux = Ret (Some u)" and bl: "chain 0 bl n"
    and def: "defined_rows t op X1 X2 (nat n)" and out: "nat n \<le> length (ints_of u X)"
  shows "\<exists>X'. all_blocks (vec_block alu t op X1 X2) bl X = (Ret True, X') \<and> length X' = length X \<and>
    ints_of u X' = map (row_result t u op X1 X2) [0..<nat n] @ drop (nat n) (ints_of u X)"
proof -
  note ty_defs = get_type_op_fld_def type_f1f2_def arith_ops_def cmp_ops_def logic_ops_def
  note rows = computed_rows[OF _ _ _ _ _ _ _ bl def out, where alu = alu] vec_block_def type_facts
  consider (a4) "t = I4" "op \<in> arith_ops" | (c4) "t = I4" "op \<in> cmp_ops" | (con) "t = I4" "op = ''concat''"
    | (a8) "t = I8" "op \<in> arith_ops" | (c8) "t = I8" "op \<in> cmp_ops" | (l1) "t = I1" "op \<in> logic_ops"
    using op by (auto simp: ops_for_def split: FLD_TYPE.splits)
  then show ?thesis
  proof cases
    case a4
    moreover have "u = I4" using a4 ty by (auto simp: ty_defs)
    ultimately show ?thesis using kernel_I4_arith[OF a4(2)] by (elim exE conjE) (rule rows(1), auto simp: rows)
  next
    case c4
    moreover have "u = I1" using c4 ty by (auto simp: ty_defs)
    ultimately show ?thesis using kernel_I4_cmp[OF c4(2)] by (elim exE conjE) (rule rows(1), auto simp: rows)
  next
    case con
    moreover have "u = I8" using con ty by (auto simp: ty_defs)
    ultimately show ?thesis using kernel_I4_concat by (elim exE conjE) (rule rows(1), auto simp: rows)
  next
    case a8
    moreover have "u = I8" using a8 ty by (auto simp: ty_defs)
    ultimately show ?thesis using kernel_I8_arith[OF a8(2)] by (elim exE conjE) (rule rows(1), auto simp: rows)
  next
    case c8
    moreover have "u = I1" using c8 ty by (auto simp: ty_defs)
    ultimately show ?thesis using kernel_I8_cmp[OF c8(2)] by (elim exE conjE) (rule rows(1), auto simp: rows)
  next
    case l1
    moreover have "u = I1" using l1 ty by (auto simp: ty_defs split: if_splits)
    ultimately show ?thesis using kernel_I1[OF l1(2)] by (elim exE conjE) (rule rows(1), auto simp: rows)
  qed
qed

subsection \<open>The \<open>nn\<close> column\<close>

lemma view_I1 [simp]: "view bs = (bs :: byte list)"
proof (induction bs)
  case (Cons b bs)
  have "le_word [b] = (b :: byte)" by (simp add: le_word_def)
  then show ?case using Cons by (subst view.simps) simp
qed (subst view.simps, simp)

definition nn_result :: "byte list option \<Rightarrow> byte list option \<Rightarrow> nat \<Rightarrow> byte list \<Rightarrow> byte list" where
  "nn_result nn1 nn2 m N = (case (nn1, nn2) of
       (None, None) \<Rightarrow> N
     | (Some x, None) \<Rightarrow> take m x @ drop m N
     | (None, Some y) \<Rightarrow> take m y @ drop m N
     | (Some x, Some y) \<Rightarrow> map2 (AND) (take m x) (take m y) @ drop m N)"

definition nn_rows_ok :: "byte list option \<Rightarrow> byte list option \<Rightarrow> nat \<Rightarrow> byte list \<Rightarrow> bool" where
  "nn_rows_ok nn1 nn2 m N \<longleftrightarrow> (\<forall>x. nn1 = Some x \<or> nn2 = Some x \<longrightarrow> m \<le> length x \<and> m \<le> length N)"

lemma memcpy_ewise2: "memcpy_I1 src nX = ewise2 (\<lambda>x y. Some x) src src nX"
proof -
  have "Option.bind a Some = Option.bind a (\<lambda>x. Option.bind a (\<lambda>y. Some x))" for a :: "I1 option" by (cases a) simp_all
  then show ?thesis unfolding memcpy_I1_def ewise1_def ewise2_def by presburger
qed

lemma nn_blocks:
  assumes bl: "chain 0 bl n" and ok: "nn_rows_ok nn1 nn2 (nat n) N"
  shows "for_each (nn_block nn1 nn2) bl N = (Ret (), nn_result nn1 nn2 (nat n) N)"
proof -
  have "0 \<le> n" using chain_le[OF bl] .
  have two: "for_each (\<lambda>(lb, ub). on_view lb (ewise2 f (arr lb x) (arr lb y) (ub - lb))) bl N = (Ret (), map h [0..<nat n] @ drop (nat n) N)"
    if "nat n \<le> length x" "nat n \<le> length y" "nat n \<le> length N" "\<forall>i < nat n. f (x ! i) (y ! i) = Some (h i)"
    for f :: "I1 \<Rightarrow> I1 \<Rightarrow> I1 option" and h x y
    using ewise2_blocks[OF bl, of x y N f h] that \<open>0 \<le> n\<close> by (auto simp: nat_le_iff)
  have copy: "for_each (\<lambda>(lb, ub). on_view lb (memcpy_I1 (arr lb x) (ub - lb))) bl N = (Ret (), take (nat n) x @ drop (nat n) N)"
    if "nat n \<le> length x" "nat n \<le> length N" for x
  proof -
    have "map ((!) x) [0..<nat n] = take (nat n) x" using that(1) by (intro nth_equalityI) simp_all
    then show ?thesis unfolding memcpy_ewise2 using two[of x x "\<lambda>x y. Some x" "(!) x"] that by simp
  qed
  show ?thesis
  proof (cases nn1; cases nn2)
    assume "nn1 = None" "nn2 = None"
    moreover have "for_each (\<lambda>_. ret ()) bl N = (Ret (), N)" by (induction bl) (simp_all add: prog_defs)
    ultimately show ?thesis by (simp add: nn_block_def nn_result_def case_prod_unfold)
  next
    fix y assume "nn1 = None" "nn2 = Some y"
    then show ?thesis using copy[of y] ok by (simp add: nn_block_def nn_result_def nn_rows_ok_def)
  next
    fix x assume "nn1 = Some x" "nn2 = None"
    then show ?thesis using copy[of x] ok by (simp add: nn_block_def nn_result_def nn_rows_ok_def)
  next
    fix x y assume xy: "nn1 = Some x" "nn2 = Some y"
    then have "map (\<lambda>i. x ! i AND y ! i) [0..<nat n] = map2 (AND) (take (nat n) x) (take (nat n) y)"
      using ok by (intro nth_equalityI) (simp_all add: nn_rows_ok_def)
    then show ?thesis using two[of x y "\<lambda>x y. Some (x AND y)" "\<lambda>i. x ! i AND y ! i"] ok xy
      by (simp add: nn_block_def nn_result_def nn_rows_ok_def nn_core_def)
  qed
qed

subsection \<open>The whole column\<close>

lemma vec_f1f2opf3_start:
  assumes "0 < n" "n \<le> 2 ^ 31" and "nn_rows_ok nn1 nn2 (nat n) (nn_op_X s)"
  shows "\<exists>bl. chain 0 bl n \<and> vec_f1f2opf3 alu 0 n t t X1 nn1 X2 nn2 op s =
    bind (to_op (all_blocks (vec_block alu t op X1 X2) bl)) guard (s\<lparr>nn_op_X := nn_result nn1 nn2 (nat n) (nn_op_X s)\<rparr>)"
proof -
  obtain block_size nT where p: "partition_work n 8192 (-1) = Some (block_size, nT)"
    using partition_unlimited[OF _ assms(1,2), of 8192] by auto
  have bl: "chain 0 (blocks 0 n block_size nT) n" using blocks_chain[of n 0 8192 "-1" block_size nT] p by simp
  have "vec_f1f2opf3 alu 0 n t t X1 nn1 X2 nn2 op s =
      bind (to_op (all_blocks (vec_block alu t op X1 X2) (blocks 0 n block_size nT))) guard (s\<lparr>nn_op_X := nn_result nn1 nn2 (nat n) (nn_op_X s)\<rparr>)"
    using nn_blocks[OF bl assms(3)] p by (simp add: vec_f1f2opf3_def seq_def bind_def guard_def ret_def of_option_def to_nn_def Let_def)
  then show ?thesis using bl by blast
qed

lemma vec_f1f2opf3_run:
  assumes "op \<in> ops_for t" and "get_type_op_fld ''f1f2opf3'' op t t aux = Ret (Some u)" and "0 < n" "n \<le> 2 ^ 31"
    and "defined_rows t op X1 X2 (nat n)" and "nat n \<le> length (ints_of u (op_X s))" and "nn_rows_ok nn1 nn2 (nat n) (nn_op_X s)"
  shows "\<exists>X'. vec_f1f2opf3 alu 0 n t t X1 nn1 X2 nn2 op s =
      (Ret (), s\<lparr>op_X := X', nn_op_X := nn_result nn1 nn2 (nat n) (nn_op_X s)\<rparr>) \<and> length X' = length (op_X s) \<and>
    ints_of u X' = map (row_result t u op X1 X2) [0..<nat n] @ drop (nat n) (ints_of u (op_X s))"
proof -
  obtain bl where bl: "chain 0 bl n" and run: "vec_f1f2opf3 alu 0 n t t X1 nn1 X2 nn2 op s =
      bind (to_op (all_blocks (vec_block alu t op X1 X2) bl)) guard (s\<lparr>nn_op_X := nn_result nn1 nn2 (nat n) (nn_op_X s)\<rparr>)"
    using vec_f1f2opf3_start[OF assms(3,4,7)] by blast
  obtain X' where X': "all_blocks (vec_block alu t op X1 X2) bl (op_X s) = (Ret True, X')" "length X' = length (op_X s)"
    "ints_of u X' = map (row_result t u op X1 X2) [0..<nat n] @ drop (nat n) (ints_of u (op_X s))"
    using block_rows[OF assms(1,2) bl assms(5,6), of alu] by blast
  have "vec_f1f2opf3 alu 0 n t t X1 nn1 X2 nn2 op s = (Ret (), s\<lparr>op_X := X', nn_op_X := nn_result nn1 nn2 (nat n) (nn_op_X s)\<rparr>)"
    by (simp add: run bind_def to_op_def X'(1) guard_def ret_def)
  then show ?thesis using X'(2,3) by blast
qed

text \<open>C15: Combining two integer columns row by row.  For every operator with a kernel for the type of the columns, the first \<open>n\<close> rows
  of the output are the operation on the integers of the two rows, wrapped to the type that \<open>get_type_op_fld\<close> has chosen for the
  result, however the rows are cut into blocks; the \<open>nn\<close> column is the conjunction of the \<open>nn\<close> columns that are there; the
  rest of both files stays.  This needs the operation to have a value on every pair of rows (no division by zero, no shift by a
  width or more).\<close>

theorem vec_f1f2opf3_rows:
  assumes "op \<in> ops_for t" and "get_type_op_fld ''f1f2opf3'' op t t aux = Ret (Some u)" and "0 < n" "n \<le> 2 ^ 31"
    and "defined_rows t op X1 X2 (nat n)" and "nat n \<le> length (ints_of u (op_X s))" and "nn_rows_ok nn1 nn2 (nat n) (nn_op_X s)"
  shows "\<exists>X'. vec_f1f2opf3 alu 0 n t t X1 nn1 X2 nn2 op s =
      (Ret (), s\<lparr>op_X := X', nn_op_X := nn_result nn1 nn2 (nat n) (nn_op_X s)\<rparr>) \<and> length X' = length (op_X s) \<and>
    ints_of u X' = map (row_result t u op X1 X2) [0..<nat n] @ drop (nat n) (ints_of u (op_X s))"
  using assms by (rule vec_f1f2opf3_run)

definition no_alu :: alu where
  "no_alu = \<lparr>add_F4 = (\<lambda>_ _. 0), sub_F4 = (\<lambda>_ _. 0), mul_F4 = (\<lambda>_ _. 0), div_F4 = (\<lambda>_ _. 0), lt_F4 = (\<lambda>_ _. False), le_F4 = (\<lambda>_ _. False),
     eq_F4 = (\<lambda>_ _. False), add_F8 = (\<lambda>_ _. 0), sub_F8 = (\<lambda>_ _. 0), mul_F8 = (\<lambda>_ _. 0), div_F8 = (\<lambda>_ _. 0)\<rparr>"

theorem vec_f1f2opf3_rows_witness:
  "\<exists>X'. vec_f1f2opf3 no_alu 0 3 I4 I4 (unview [7, -7, 2147483647 :: I4]) (Some [1, 1, 0]) (unview [2, 2, 1 :: I4]) (Some [1, 0, 1]) ''+''
      \<lparr>op_X = replicate 12 0, nn_op_X = [9, 9, 9]\<rparr> = (Ret (), \<lparr>op_X = X', nn_op_X = [1, 0, 0]\<rparr>) \<and>
    ints_of I4 X' = [9, -5, -2147483648]"
proof -
  let ?X1 = "unview [7, -7, 2147483647 :: I4]" and ?X2 = "unview [2, 2, 1 :: I4]" and ?s = "\<lparr>op_X = replicate 12 0, nn_op_X = [9, 9, 9]\<rparr>"
  have o: "''+'' \<in> ops_for I4" by (simp add: ops_for_def arith_ops_def)
  have t: "get_type_op_fld ''f1f2opf3'' ''+'' I4 I4 None = Ret (Some I4)" by (simp add: get_type_op_fld_def type_f1f2_def)
  have n: "(0 :: int) < 3" "(3 :: int) \<le> 2 ^ 31" by simp_all
  have i: "ints_of I4 ?X1 = [7, -7, 2147483647]" "ints_of I4 ?X2 = [2, 2, 1]" by (simp_all add: ints_of_def)
  have d: "defined_rows I4 ''+'' ?X1 ?X2 (nat 3)" by (simp add: defined_rows_def i int_op_def)
  have l: "nat 3 \<le> length (ints_of I4 (op_X ?s))" by (simp add: ints_of_def)
  have k: "nn_rows_ok (Some [1, 1, 0]) (Some [1, 0, 1]) (nat 3) (nn_op_X ?s)" by (auto simp: nn_rows_ok_def)
  obtain X' where X': "vec_f1f2opf3 no_alu 0 3 I4 I4 ?X1 (Some [1, 1, 0]) ?X2 (Some [1, 0, 1]) ''+'' ?s =
      (Ret (), ?s\<lparr>op_X := X', nn_op_X := nn_result (Some [1, 1, 0]) (Some [1, 0, 1]) (nat 3) (nn_op_X ?s)\<rparr>)"
    "ints_of I4 X' = map (row_result I4 I4 ''+'' ?X1 ?X2) [0..<nat 3] @ drop (nat 3) (ints_of I4 (op_X ?s))"
    using vec_f1f2opf3_rows[OF o t n d l k, of no_alu] by blast
  have "nn_result (Some [1, 1, 0]) (Some [1, 0, 1]) (nat 3) (nn_op_X ?s) = [1, 0, 0]" by (simp add: nn_result_def)
  moreover have "ints_of I4 X' = [9, -5, -2147483648]" unfolding X'(2)
    by (simp add: row_result_def i int_op_def width_def as_type_def eval_nat_numeral) (simp add: ints_of_def)
  ultimately show ?thesis using X'(1) by auto
qed

lemma all_blocks_False: "all_blocks (\<lambda>_. ret False) bl X = (Ret (bl = []), X)"
  by (induction bl) (simp_all add: prog_defs)

text \<open>C16: Columns that cannot be combined.  Columns of different types are refused before anything is written.  An operator without a
  kernel for the type of the columns, among them the arithmetic of \<open>I2\<close>, the order of \<open>I1\<close> and the comparisons of \<open>F8\<close>, all of
  which \<open>get_type_op_fld\<close> accepts, ends in an error after the \<open>nn\<close> column has been written; the output column is untouched.\<close>

theorem vec_f1f2opf3_refused:
  assumes "0 < n" "n \<le> 2 ^ 31" and "nn_rows_ok nn1 nn2 (nat n) (nn_op_X s)"
  shows "(t \<noteq> t' \<longrightarrow> vec_f1f2opf3 alu 0 n t t' X1 nn1 X2 nn2 op s = (Bye, s)) \<and>
    (t \<in> {I1, I4, I8} \<and> op \<notin> ops_for t \<union> {''a_and_not_b''} \<or> t = F8 \<and> op \<in> cmp_ops \<or> t \<in> {I2, clob} \<longrightarrow>
      vec_f1f2opf3 alu 0 n t t X1 nn1 X2 nn2 op s = (Bye, s\<lparr>nn_op_X := nn_result nn1 nn2 (nat n) (nn_op_X s)\<rparr>))"
proof (intro conjI impI)
  show "vec_f1f2opf3 alu 0 n t t' X1 nn1 X2 nn2 op s = (Bye, s)" if "t \<noteq> t'"
    using that by (simp add: vec_f1f2opf3_def prog_defs)
  assume "t \<in> {I1, I4, I8} \<and> op \<notin> ops_for t \<union> {''a_and_not_b''} \<or> t = F8 \<and> op \<in> cmp_ops \<or> t \<in> {I2, clob}"
  then have f: "vec_block alu t op X1 X2 = (\<lambda>_. ret False)"
    by (auto simp: fun_eq_iff vec_block_def ops_for_def arith_ops_def cmp_ops_def logic_ops_def block_I1_def block_I4_def block_I8_def block_F8_def)
  obtain bl where bl: "chain 0 bl n" and run: "vec_f1f2opf3 alu 0 n t t X1 nn1 X2 nn2 op s =
      bind (to_op (all_blocks (vec_block alu t op X1 X2) bl)) guard (s\<lparr>nn_op_X := nn_result nn1 nn2 (nat n) (nn_op_X s)\<rparr>)"
    using vec_f1f2opf3_start[OF assms] by blast
  have "bl \<noteq> []" using bl assms(1) by auto
  then show "vec_f1f2opf3 alu 0 n t t X1 nn1 X2 nn2 op s = (Bye, s\<lparr>nn_op_X := nn_result nn1 nn2 (nat n) (nn_op_X s)\<rparr>)"
    by (simp add: run f to_op_def all_blocks_False bind_def guard_def bye_def)
qed

theorem vec_f1f2opf3_refused_witness:
  "vec_f1f2opf3 no_alu 0 2 I2 I2 [1, 0, 2, 0] (Some [1, 0]) [3, 0, 4, 0] None ''+'' \<lparr>op_X = [5, 6, 7, 8], nn_op_X = [9, 9]\<rparr> =
     (Bye, \<lparr>op_X = [5, 6, 7, 8], nn_op_X = [1, 0]\<rparr>)"
proof -
  let ?s = "\<lparr>op_X = [5, 6, 7, 8], nn_op_X = [9, 9]\<rparr> :: out_cols"
  have "nn_rows_ok (Some [1, 0]) None (nat 2) (nn_op_X ?s)" by (auto simp: nn_rows_ok_def)
  then have "vec_f1f2opf3 no_alu 0 2 I2 I2 [1, 0, 2, 0] (Some [1, 0]) [3, 0, 4, 0] None ''+'' ?s =
      (Bye, ?s\<lparr>nn_op_X := nn_result (Some [1, 0]) None (nat 2) (nn_op_X ?s)\<rparr>)"
    using vec_f1f2opf3_refused[of 2 "Some [1, 0]" None ?s I2 I2 no_alu "[1, 0, 2, 0]" "[3, 0, 4, 0]" "''+''"] by simp
  then show ?thesis by (simp add: nn_result_def)
qed

subsection \<open>Bit columns\<close>

definition bit_op :: "string \<Rightarrow> I8 \<Rightarrow> I8 \<Rightarrow> I8" where
  "bit_op op x y = (if op = ''||'' then x OR y else if op = ''&&'' then x AND y else x AND NOT y)"

lemma col2_once:
  fixes f :: "'a::len word \<Rightarrow> 'c::len word \<Rightarrow> 'b::len word option"
  assumes wb: "whole_bytes TYPE('b word)"
    and len: "nat m \<le> length (view X1 :: 'a word list)" "nat m \<le> length (view X2 :: 'c word list)" "nat m \<le> length (view X :: 'b word list)"
    and f: "\<forall>i < nat m. f (view X1 ! i) (view X2 ! i) = Some (h i)"
  shows "\<exists>X'. col2 (ewise2 f) X1 X2 0 m X = (Ret True, X') \<and> length X' = length X \<and> view X' = map h [0..<nat m] @ drop (nat m) (view X)"
proof -
  let ?k = "ewise2 f (arr 0 X1) (arr 0 X2) m"
  have "Option.bind (get_at (arr 0 X1) i) (\<lambda>x. Option.bind (get_at (arr 0 X2) i) (f x)) = Some (h (0 + i))" if "i < nat m" for i
  proof -
    have "i < length (view X1 :: 'a word list)" "i < length (view X2 :: 'c word list)" using that len(1,2) by (meson order.strict_trans2)+
    then show ?thesis using f that by (simp add: get_at_arr del: length_view)
  qed
  then have k: "?k (view X) = (Ret (), map h [0..<0 + nat m] @ drop (nat m) (view X))"
    unfolding ewise2_def by (intro fill_shift len(3)) blast
  have kl: "length (snd (?k ws)) = length ws" for ws by (simp add: ewise2_def fill_length)
  obtain r X' where r: "on_view 0 ?k X = (r, X')" by fastforce
  then have "r = Ret ()" "length X' = length X" "view X' = map h [0..<nat m] @ drop (nat m) (view X)"
    using view_on_view[where k = ?k and lb = 0 and bs = X, OF wb kl] k by simp_all
  then show ?thesis using r by (simp add: col2_def prog_defs)
qed

lemma block_B_run:
  assumes "op \<in> {''||'', ''&&'', ''&&!''}"
  shows "block_B op X1 X2 0 n = col2 (ewise2 (\<lambda>x y. Some (bit_op op x y))) X1 X2 0 (n div 64)"
  using assms by (auto simp: block_B_def bit_op_def Let_def bwise_or2_I8_def bwise_and2_I8_def bwise_a_and_not_b_I8_def)

lemma all_blocks_bad:
  assumes "x \<in> set bl" "f x = ret False" and "all_blocks f bl X = (Ret b, X')"
  shows "\<not> b"
  using assms by (induction bl arbitrary: X b) (auto simp: prog_defs split: prod.splits outcome.splits)

lemma partition_one:
  assumes "0 < n" "n < 16384"
  shows "partition_work n 8192 (-1) = Some (n, 1)"
proof -
  have "0 \<le> n div 8192" "n div 8192 \<le> 1" using assms by (auto simp: pos_imp_zdiv_nonneg_iff)
  then have "n div 8192 = 0 \<or> n div 8192 = 1" by linarith
  then show ?thesis using assms by (auto simp: partition_work_def to_int32_def)
qed

text \<open>C17: Combining two bit columns.  Up to 16383 rows, the first \<open>n div 64\<close> words of the output are the bitwise operation on the words of
  the inputs; the bits of the rows after the last full word are not written.  With two blocks or more whose size is not a
  multiple of 64, as it is for most row counts from 16386 on, the operation does not succeed.\<close>

theorem vec_f1f2opf3_bits:
  assumes "nn_rows_ok nn1 nn2 (nat n) (nn_op_X s)"
  shows "(op \<in> {''||'', ''&&'', ''&&!''} \<and> 0 < n \<and> n < 16384 \<and>
      (\<forall>X \<in> {X1, X2, op_X s}. nat (n div 64) \<le> length (view X :: I8 list)) \<longrightarrow>
      (\<exists>X'. vec_f1f2opf3 alu 0 n B B X1 nn1 X2 nn2 op s = (Ret (), s\<lparr>op_X := X', nn_op_X := nn_result nn1 nn2 (nat n) (nn_op_X s)\<rparr>) \<and>
        length X' = length (op_X s) \<and>
        view X' = map (\<lambda>i. bit_op op (view X1 ! i) (view X2 ! i)) [0..<nat (n div 64)] @ drop (nat (n div 64)) (view (op_X s)))) \<and>
    (partition_work n 8192 (-1) = Some (block_size, nT) \<and> 1 < nT \<and> block_size mod 64 \<noteq> 0 \<longrightarrow>
      fst (vec_f1f2opf3 alu 0 n B B X1 nn1 X2 nn2 op s) \<noteq> Ret ())"
proof (intro conjI impI)
  have run: "vec_f1f2opf3 alu 0 n B B X1 nn1 X2 nn2 op s =
      bind (to_op (all_blocks (vec_block alu B op X1 X2) (blocks 0 n bs m))) guard (s\<lparr>nn_op_X := nn_result nn1 nn2 (nat n) (nn_op_X s)\<rparr>)"
    if "partition_work n 8192 (-1) = Some (bs, m)" for bs m
    using nn_blocks[OF blocks_chain[of n 0 8192 "-1" bs m] assms] that
    by (simp add: vec_f1f2opf3_def seq_def bind_def guard_def ret_def of_option_def to_nn_def Let_def)
  {
    assume a: "op \<in> {''||'', ''&&'', ''&&!''} \<and> 0 < n \<and> n < 16384 \<and> (\<forall>X \<in> {X1, X2, op_X s}. nat (n div 64) \<le> length (view X :: I8 list))"
    then obtain X' where X': "block_B op X1 X2 0 n (op_X s) = (Ret True, X')" "length X' = length (op_X s)"
      "view X' = map (\<lambda>i. bit_op op (view X1 ! i) (view X2 ! i)) [0..<nat (n div 64)] @ drop (nat (n div 64)) (view (op_X s))"
      using col2_once[where f = "\<lambda>x y. Some (bit_op op x y)" and h = "\<lambda>i. bit_op op (view X1 ! i) (view X2 ! i)" and m = "n div 64"
          and ?X1.0 = X1 and ?X2.0 = X2 and X = "op_X s"] block_B_run[of op X1 X2 n] by (auto simp del: length_view)
    have "vec_f1f2opf3 alu 0 n B B X1 nn1 X2 nn2 op s = (Ret (), s\<lparr>op_X := X', nn_op_X := nn_result nn1 nn2 (nat n) (nn_op_X s)\<rparr>)"
      using run[OF partition_one] a X'(1) by (simp add: blocks_def vec_block_def to_op_def prog_defs)
    then show "\<exists>X'. vec_f1f2opf3 alu 0 n B B X1 nn1 X2 nn2 op s = (Ret (), s\<lparr>op_X := X', nn_op_X := nn_result nn1 nn2 (nat n) (nn_op_X s)\<rparr>) \<and>
        length X' = length (op_X s) \<and>
        view X' = map (\<lambda>i. bit_op op (view X1 ! i) (view X2 ! i)) [0..<nat (n div 64)] @ drop (nat (n div 64)) (view (op_X s))"
      using X'(2,3) by blast
  next
    assume p: "partition_work n 8192 (-1) = Some (block_size, nT) \<and> 1 < nT \<and> block_size mod 64 \<noteq> 0"
    obtain ub where "(block_size, ub) \<in> set (blocks 0 n block_size nT)"
      using p by (auto simp: blocks_def Let_def image_iff intro!: that[of "if 1 = nT - 1 then n else block_size + block_size"] bexI[of _ 1])
    moreover have "block_size div 64 * 64 \<noteq> block_size" using p by (metis mod_mult_self2_is_0)
    then have "vec_block alu B op X1 X2 (block_size, ub) = ret False" by (simp add: vec_block_def block_B_def)
    ultimately have "fst (all_blocks (vec_block alu B op X1 X2) (blocks 0 n block_size nT) X) \<noteq> Ret True" for X
      using all_blocks_bad by (metis prod.collapse)
    then show "fst (vec_f1f2opf3 alu 0 n B B X1 nn1 X2 nn2 op s) \<noteq> Ret ()"
      using run[of block_size nT] p by (auto simp: to_op_def prog_defs split: prod.splits outcome.splits) (metis fst_conv)
  }
qed

theorem vec_f1f2opf3_bits_witness:
  "(\<exists>X'. vec_f1f2opf3 no_alu 0 100 B B (unview [5, 1 :: I8]) None (unview [3, 1 :: I8]) None ''&&'' \<lparr>op_X = unview [7, 7 :: I8], nn_op_X = []\<rparr> =
      (Ret (), \<lparr>op_X = X', nn_op_X = []\<rparr>) \<and> view X' = [1, 7 :: I8]) \<and>
   fst (vec_f1f2opf3 no_alu 0 16386 B B [1] None [2] None ''&&'' \<lparr>op_X = [3], nn_op_X = []\<rparr>) \<noteq> Ret ()"
proof
  let ?X1 = "unview [5, 1 :: I8]" and ?X2 = "unview [3, 1 :: I8]" and ?s = "\<lparr>op_X = unview [7, 7 :: I8], nn_op_X = []\<rparr> :: out_cols"
  have k: "nn_rows_ok None None (nat 100) (nn_op_X ?s)" "nn_rows_ok None None (nat 16386) (nn_op_X \<lparr>op_X = [3], nn_op_X = []\<rparr>)" by (simp_all add: nn_rows_ok_def)
  have "\<exists>X'. vec_f1f2opf3 no_alu 0 100 B B ?X1 None ?X2 None ''&&'' ?s = (Ret (), ?s\<lparr>op_X := X', nn_op_X := nn_result None None (nat 100) (nn_op_X ?s)\<rparr>) \<and>
      length X' = length (op_X ?s) \<and>
      view X' = map (\<lambda>i. bit_op ''&&'' (view ?X1 ! i) (view ?X2 ! i)) [0..<nat (100 div 64)] @ drop (nat (100 div 64)) (view (op_X ?s))"
    by (rule vec_f1f2opf3_bits[OF k(1), THEN conjunct1, THEN mp]) simp
  then show "\<exists>X'. vec_f1f2opf3 no_alu 0 100 B B ?X1 None ?X2 None ''&&'' ?s = (Ret (), \<lparr>op_X = X', nn_op_X = []\<rparr>) \<and> view X' = [1, 7 :: I8]"
    by (auto simp: nn_result_def bit_op_def)
  have "partition_work 16386 8192 (-1) = Some (8193, 2) \<and> (1 :: int) < 2 \<and> (8193 :: int) mod 64 \<noteq> 0"
    by (simp add: partition_work_def to_int32_def c_div_def)
  then show "fst (vec_f1f2opf3 no_alu 0 16386 B B [1] None [2] None ''&&'' \<lparr>op_X = [3], nn_op_X = []\<rparr>) \<noteq> Ret ()"
    by (rule vec_f1f2opf3_bits[OF k(2), THEN conjunct2, THEN mp])
qed

end
