(* ===== verification/D_Combine.thy ===== *)
theory D_Combine
  imports D_Verbs D_Vector_Proofs
begin

text \<open>
  The verb \<open>f1f2opf3\<close> (\<open>dir_wr_verbs/f1f2opf3.c\<close>) over the store: it maps two fields and their \<open>nn\<close> fields, makes the files of
  the result, combines the columns and adds the field.  The theory shows its exact effect on fields without \<open>nn\<close> fields, and
  that it leaves consistent meta data on every outcome.
\<close>

subsection \<open>The verb\<close>

definition nn_data :: "int \<Rightarrow> FLD_REC \<Rightarrow> byte list option q_prog" where
  "nn_data nn_id nn_rec = (if nn_id \<ge> 0 then bind (get_data nn_rec False) (\<lambda>(path, X). ret (Some X)) else ret None)"

definition fld_data :: "int \<Rightarrow> string option \<Rightarrow> (FLD_TYPE \<times> byte list \<times> byte list option) q_prog" where
  "fld_data tid f = bind (is_fld None tid f) (\<lambda>((f_id, f_rec), (nn_id, nn_rec)).
     seq (chk_fld_range f_id)
    (bind (get_data f_rec False) (\<lambda>(path, X).
     bind (nn_data nn_id nn_rec) (\<lambda>nn_X.
     ret (fldtype f_rec, X, nn_X)))))"

definition f1f2_ops :: "string list" where
  "f1f2_ops = [''+'', ''-'', ''*'', ''/'', ''&&'', ''||'', ''>'', ''<'', ''>='', ''<='', ''!='', ''=='', ''concat'', ''&&!'', ''&'', ''|'', ''^'', ''<<'', ''>>'']"

definition file_size :: "FLD_TYPE \<Rightarrow> int \<Rightarrow> int q_prog" where
  "file_size ft n = (if ft = B then of_option (get_file_size_B n) else bind (of_option (get_fld_sz ft)) (\<lambda>fldsz. ret (fldsz * n)))"

text \<open>A new file, with its directory, the path of its map and the mapped bytes.\<close>

definition mk_map :: "nat \<Rightarrow> (string \<times> int \<times> string \<times> byte list) q_prog" where
  "mk_map sz = bind (mk_temp_file sz) (\<lambda>(opfile, d). bind (q_mmap d opfile True) (\<lambda>(path, X). ret (opfile, d, path, X)))"

definition on_maps :: "string \<Rightarrow> byte list \<Rightarrow> (string \<times> byte list) option \<Rightarrow> (out_cols, unit) prog \<Rightarrow> unit q_prog" where
  "on_maps path X nn_m p = (\<lambda>s. case p \<lparr>op_X = X, nn_op_X = (case nn_m of None \<Rightarrow> [] | Some (nn_path, N) \<Rightarrow> N)\<rparr> of
     (r, c) \<Rightarrow> (r, s\<lparr>files := (case nn_m of None \<Rightarrow> (files s)(path := Some (op_X c))
        | Some (nn_path, N) \<Rightarrow> (files s)(path := Some (op_X c), nn_path := Some (nn_op_X c)))\<rparr>))"

definition f1f2opf3 :: "alu \<Rightarrow> string option \<Rightarrow> string option \<Rightarrow> string option \<Rightarrow> string option \<Rightarrow> string option \<Rightarrow> unit q_prog" where
  "f1f2opf3 alu tbl f1 f2 op0 f3 =
     bind (arg_given tbl) (\<lambda>_. bind (arg_given f1) (\<lambda>_. bind (arg_given f2) (\<lambda>_. bind (arg_given f3) (\<lambda>_. bind (arg_given op0) (\<lambda>op.
     bind (is_tbl tbl) (\<lambda>(tid, tbl_rec).
     seq (chk_tbl_range tid)
    (bind (tbl_at tid) (\<lambda>t. let n = nR t in
     bind (fld_data tid f1) (\<lambda>(f1type, f1_X, nn_f1_X).
     bind (fld_data tid f2) (\<lambda>(f2type, f2_X, nn_f2_X).
     seq (guard (op \<in> set f1f2_ops))
    (bind (lift_out (get_type_op_fld ''f1f2opf3'' op f1type f2type (Some []))) (\<lambda>ft. case ft of None \<Rightarrow> fault | Some f3type \<Rightarrow>
     bind (file_size f3type n) (\<lambda>filesz.
     bind (mk_map (nat filesz)) (\<lambda>(opfile, d, path, X).
     bind (if nn_f1_X \<noteq> None \<or> nn_f2_X \<noteq> None then bind (mk_map (nat n)) (\<lambda>m. ret (Some m)) else ret None) (\<lambda>nn_map.
     seq (on_maps path X (map_option (\<lambda>(f, d, p, N). (p, N)) nn_map) (vec_f1f2opf3 alu 0 n f1type f2type f1_X nn_f1_X f2_X nn_f2_X op))
    (bind (add_fld tid f3 d opfile f3type (-1)) (\<lambda>(f3_id, f3_rec).
     case nn_map of None \<Rightarrow> ret ()
     | Some (nn_opfile, nn_d, _, _) \<Rightarrow> bind (add_aux_fld None tid None f3_id nn_d (Some nn_opfile) (Some ''nn'')) (\<lambda>_. ret ()))))))))))))))))))"

subsection \<open>Fields without \<open>nn\<close> fields\<close>

text \<open>A field of a table, with its bytes, that has no \<open>nn\<close> field.\<close>

definition plain_fld :: "q_state \<Rightarrow> string \<Rightarrow> string \<Rightarrow> nat \<Rightarrow> FLD_TYPE \<Rightarrow> byte list \<Rightarrow> bool" where
  "plain_fld s x y t ft X \<longleftrightarrow> (\<exists>i. located s x y t i \<and> fldtype (g_flds s ! i) = ft \<and> nn_fld_id (g_flds s ! i) < 0 \<and>
     ddir_id (g_flds s ! i) < 0 \<and> filename (g_flds s ! i) \<noteq> [] \<and> X \<noteq> [] \<and> files s (data_path s (filename (g_flds s ! i))) = Some X)"

lemma data_path_update [simp]: "data_path (s\<lparr>p_cwd := c\<rparr>) f = data_path s f" "data_path (s\<lparr>files := fs\<rparr>) f = data_path s f"
  by (simp_all add: data_path_def)

lemma located_update [simp]: "located (s\<lparr>p_cwd := c\<rparr>) x y t i = located s x y t i" "located (s\<lparr>files := f\<rparr>) x y t i = located s x y t i"
  using meta_only_updates[OF meta_only_meta_inv] by (simp_all add: located_def)

lemma plain_fld_cwd [simp]: "plain_fld (s\<lparr>p_cwd := c\<rparr>) x y t ft X = plain_fld s x y t ft X"
  by (simp add: plain_fld_def)

lemma fld_data_run:
  assumes "plain_fld s x y t ft X" and "dirs_ok s"
  shows "fld_data (int t) (Some y) s = (Ret (ft, X, None), s\<lparr>p_cwd := g_cwd s\<rparr>)"
proof -
  obtain i where i: "located s x y t i" "fldtype (g_flds s ! i) = ft" "nn_fld_id (g_flds s ! i) < 0" "ddir_id (g_flds s ! i) < 0"
    "filename (g_flds s ! i) \<noteq> []" "X \<noteq> []" "files s (data_path s (filename (g_flds s ! i))) = Some X"
    using assms(1) by (auto simp: plain_fld_def)
  show ?thesis
    using i(2,3) get_data_run[OF assms(2) i(5,4,7,6), of False] locatedD(5)[OF i(1)]
    by (simp add: fld_data_def nn_data_def prog_defs located_is_fld[OF i(1)] chk_fld_range_def)
qed

lemma mk_map_run:
  assumes "dirs_ok s" and "0 < n" "int n \<le> 2 ^ 32 - 1" and "env_avail s (g_data_dir s) = Some sp" "n < sp"
    and "mkstemp_pick (files s) (g_data_dir s) (env_tmp s) = Some f"
  shows "mk_map n s = (Ret (f, -1, data_path s f, replicate n 0),
    s\<lparr>files := (files s)(data_path s f := Some (replicate n 0)), p_cwd := g_cwd s\<rparr>)"
  using mk_temp_file_run[OF assms] assms(1)
    q_mmap_run[of "s\<lparr>files := (files s)(data_path s f := Some (replicate n 0)), p_cwd := g_cwd s\<rparr>" f "replicate n 0" True]
  by (simp add: mk_map_def prog_defs data_path_def)

lemma ints_of_zeros:
  assumes "get_fld_sz u = Some sz" "u \<in> {I1, I4, I8}" "0 < n"
  shows "length (ints_of u (replicate (nat (sz * n)) 0)) = nat n"
  using assms by (auto simp: ints_of_def nat_mult_distrib)

lemma ops_result_type:
  assumes "op \<in> ops_for t" "get_type_op_fld ''f1f2opf3'' op t t aux = Ret (Some u)"
  shows "u \<in> {I1, I4, I8}"
  using assms by (auto simp: ops_for_def get_type_op_fld_def type_f1f2_def arith_ops_def cmp_ops_def logic_ops_def split: FLD_TYPE.splits if_splits)

lemma f1f2opf3_run:
  assumes f1: "plain_fld s x y1 t ft X1" and f2: "plain_fld s x y2 t ft X2" and free: "free_name s x y3 t" and dirs: "dirs_ok s"
    and n: "n = nR (g_tbls s ! t)" "0 < n" "n < 2 ^ 29"
    and op: "op \<in> ops_for ft" "op \<in> set f1f2_ops" and u: "get_type_op_fld ''f1f2opf3'' op ft ft (Some []) = Ret (Some u)" "get_fld_sz u = Some sz"
    and def: "defined_rows ft op X1 X2 (nat n)"
    and space: "env_avail s (g_data_dir s) = Some sp" "sz * n < int sp" and tmp: "mkstemp_pick (files s) (g_data_dir s) (env_tmp s) = Some f"
  shows "\<exists>i X. f1f2opf3 alu (Some x) (Some y1) (Some y2) (Some op) (Some y3) s =
      (Ret (), s\<lparr>files := (files s)(data_path s f := Some X), p_cwd := g_cwd s, g_flds := (g_flds s)[i := new_fld (int t) y3 (-1) f u (-1)]\<rparr>) \<and>
    ints_of u X = map (row_result ft u op X1 X2) [0..<nat n] \<and> int (length X) = sz * n \<and> i < length (g_flds s) \<and> fld_name (g_flds s ! i) = [] \<and>
    located (s\<lparr>files := (files s)(data_path s f := Some X), p_cwd := g_cwd s, g_flds := (g_flds s)[i := new_fld (int t) y3 (-1) f u (-1)]\<rparr>) x y3 t i"
proof -
  have u3: "u \<in> {I1, I4, I8}" by (rule ops_result_type[OF op(1) u(1)])
  then have sz: "0 < sz" "sz \<le> 8" "u \<noteq> B" using u(2) by auto
  then have big: "0 < sz * n" "sz * n \<le> 2 ^ 32 - 1"
    using n(2,3) mult_mono[of sz 8 n "2 ^ 29 - 1"] by (auto simp del: mult_le_cancel_left_pos)
  let ?X0 = "replicate (nat (sz * n)) 0 :: byte list"
  let ?s0 = "s\<lparr>p_cwd := g_cwd s\<rparr>" and ?s1 = "s\<lparr>files := (files s)(data_path s f := Some ?X0), p_cwd := g_cwd s\<rparr>"
  have m: "mk_map (nat (sz * n)) ?s0 = (Ret (f, -1, data_path s f, ?X0), ?s1)"
    using mk_map_run[of ?s0 "nat (sz * n)" sp f] dirs big space tmp by simp
  obtain X where X: "vec_f1f2opf3 alu 0 n ft ft X1 None X2 None op \<lparr>op_X = ?X0, nn_op_X = []\<rparr> = (Ret (), \<lparr>op_X = X, nn_op_X = []\<rparr>)"
    "length X = length ?X0" "ints_of u X = map (row_result ft u op X1 X2) [0..<nat n]"
    using vec_f1f2opf3_run[OF op(1) u(1) n(2) _ def, of "\<lparr>op_X = ?X0, nn_op_X = []\<rparr>" None None alu] ints_of_zeros[OF u(2) u3 n(2)] n(3)
    by (auto simp: nn_rows_ok_def nn_result_def)
  let ?s2 = "s\<lparr>p_cwd := g_cwd s, files := (files s)(data_path s f := Some X)\<rparr>"
  have free2: "free_name ?s2 x y3 t" and dirs2: "dirs_ok ?s2" using free dirs by simp_all
  have "X \<noteq> []" "int (length X) = sz * nR (g_tbls ?s2 ! t)" using X(2) n big by auto
  then obtain i where i: "add_fld (int t) (Some y3) (-1) f u (-1) ?s2 = (Ret (int i, new_fld (int t) y3 (-1) f u (-1)),
      ?s2\<lparr>p_cwd := g_cwd ?s2, g_flds := (g_flds ?s2)[i := new_fld (int t) y3 (-1) f u (-1)]\<rparr>)"
    "located (?s2\<lparr>p_cwd := g_cwd ?s2, g_flds := (g_flds ?s2)[i := new_fld (int t) y3 (-1) f u (-1)]\<rparr>) x y3 t i" "i < length (g_flds s)" "fld_name (g_flds s ! i) = []"
    using add_fld_run[OF free2 dirs2, of f X sz u] tempfile_name(1)[OF _ tmp] free u(2) sz(3) by (auto simp: data_path_def free_name_def)
  have ne: "x \<noteq> []" "y1 \<noteq> []" "y2 \<noteq> []" "y3 \<noteq> []" "op \<noteq> []" "in_range (int t) (g_tbls s)"
    using free f1 f2 op(2) by (auto simp: free_name_def chk_fld_name_def in_range_def plain_fld_def located_def f1f2_ops_def)
  have f2': "plain_fld ?s0 x y2 t ft X2" using f2 by simp
  have "f1f2opf3 alu (Some x) (Some y1) (Some y2) (Some op) (Some y3) s =
      (Ret (), ?s2\<lparr>p_cwd := g_cwd ?s2, g_flds := (g_flds ?s2)[i := new_fld (int t) y3 (-1) f u (-1)]\<rparr>)"
    using ne m X(1) i(1) op(2) u sz(3) free_name_is_tbl[OF free] n(1) fld_data_run[OF f1 dirs] fld_data_run[OF f2'] dirs
    by (simp add: f1f2opf3_def bind_def seq_def ret_def arg_given_def chk_tbl_range_def tbl_at_def lift_out_def of_option_def guard_def within_def gets_def
      file_size_def on_maps_def Let_def)
  then show ?thesis using i(2-4) X big by (intro exI[of _ i] exI[of _ X]) simp
qed

lemma plain_fld_kept:
  assumes old: "plain_fld s x y t ft X" and i: "fld_name (g_flds s ! i) = []" and new: "located s2 x y3 t i"
    and s2: "g_tbls s2 = g_tbls s" "g_flds s2 = (g_flds s)[i := r]" "g_data_dir s2 = g_data_dir s" "\<forall>p. files s p \<noteq> None \<longrightarrow> files s2 p = files s p"
  shows "plain_fld s2 x y t ft X"
proof -
  obtain j where j: "located s x y t j" "fldtype (g_flds s ! j) = ft" "nn_fld_id (g_flds s ! j) < 0" "ddir_id (g_flds s ! j) < 0"
    "filename (g_flds s ! j) \<noteq> []" "X \<noteq> []" "files s (data_path s (filename (g_flds s ! j))) = Some X"
    using old by (auto simp: plain_fld_def)
  have "j \<noteq> i" using i locatedD(3,7)[OF j(1)] by auto
  then have same: "g_flds s2 ! j = g_flds s ! j" by (simp add: s2)
  then have "located s2 x y t j" using j(1) new s2 by (simp add: located_def)
  then show ?thesis unfolding plain_fld_def data_path_def
    by (intro exI[of _ j]) (use j same s2(3,4) in \<open>simp add: data_path_def\<close>)
qed

lemma plain_fld_new:
  assumes "located s2 x y t i" and "g_flds s2 = (g_flds s)[i := new_fld (int t) y (-1) f u (-1)]" "i < length (g_flds s)"
    and "g_data_dir s2 = g_data_dir s" "files s2 (data_path s f) = Some X" "f \<noteq> []" "X \<noteq> []"
  shows "plain_fld s2 x y t u X"
  unfolding plain_fld_def by (rule exI[of _ i]) (use assms in \<open>simp add: new_fld_def data_path_def\<close>)


definition sample_col :: "string \<Rightarrow> string \<Rightarrow> FLD_REC" where
  "sample_col y f = zero_fld_rec\<lparr>tbl_id := 0, fldtype := I4, fld_name := y, filename := f\<rparr>"

definition sample_two :: q_state where
  "sample_two = sample_state\<lparr>g_flds := [sample_col ''a'' ''_a'', sample_col ''b'' ''_b'', zero_fld_rec, zero_fld_rec], env_avail := (\<lambda>_. Some 1000),
     files := (\<lambda>_. None)(''/data/_a'' := Some (unview [1, 2, 3, 2147483647 :: I4]), ''/data/_b'' := Some (unview [10, 20, -30, 1 :: I4]))\<rparr>"

lemma sample_two_simps [simp]:
  "g_tbls sample_two = [zero_tbl_rec\<lparr>tbl_name := ''t1'', nR := 4\<rparr>, zero_tbl_rec]"
  "g_flds sample_two = [sample_col ''a'' ''_a'', sample_col ''b'' ''_b'', zero_fld_rec, zero_fld_rec]"
  "g_data_dir sample_two = ''/data''" "env_avail sample_two d = Some 1000" "env_tmp sample_two = [''aaaaaa'']"
  "files sample_two = (\<lambda>_. None)(''/data/_a'' := Some (unview [1, 2, 3, 2147483647 :: I4]), ''/data/_b'' := Some (unview [10, 20, -30, 1 :: I4]))"
  by (simp_all add: sample_two_def) (simp add: sample_state_def)

lemma sample_two_ok:
  shows "dirs_ok sample_two" "free_name sample_two ''t1'' ''c'' 0"
    "plain_fld sample_two ''t1'' ''a'' 0 I4 (unview [1, 2, 3, 2147483647 :: I4])" "plain_fld sample_two ''t1'' ''b'' 0 I4 (unview [10, 20, -30, 1 :: I4])"
proof -
  have "ht_ok sample_two" by (simp add: ht_ok_def sample_two_def sample_state_def)
  moreover have "fields_ok (g_tbls sample_two) (g_ddirs sample_two) (g_flds sample_two)"
    by (simp add: sample_two_def fields_ok_def All_less_Suc local_ok_def live_tbl_def link_ok_def in_range_def Ex_less_Suc sample_col_def)
  ultimately have inv: "meta_inv sample_two" by (simp add: meta_inv_def) (simp add: sample_two_def)
  have un: "tbl_slots.unique_keys (g_tbls sample_two)" "fld_slots.unique_keys (g_flds sample_two)"
    by (simp_all add: tbl_slots.unique_keys_def fld_slots.unique_keys_def All_less_Suc fld_key_def sample_col_def)
  show "dirs_ok sample_two" by (simp add: dirs_ok_def abs_dir_def sample_two_def sample_state_def)
  show "free_name sample_two ''t1'' ''c'' 0" using inv un
    by (simp add: free_name_def chk_fld_name_def name_char_def isalnum_def isdigit_def code_def All_less_Suc fld_key_def sample_col_def Ex_less_Suc)
  have l: "located sample_two ''t1'' ''a'' 0 0" "located sample_two ''t1'' ''b'' 0 1" using inv un by (simp_all add: located_def fld_key_def sample_col_def)
  show "plain_fld sample_two ''t1'' ''a'' 0 I4 (unview [1, 2, 3, 2147483647 :: I4])" unfolding plain_fld_def
    by (rule exI[of _ 0]) (use l in \<open>simp add: sample_col_def data_path_def resolve_def unview_def le_bytes_def\<close>)
  show "plain_fld sample_two ''t1'' ''b'' 0 I4 (unview [10, 20, -30, 1 :: I4])" unfolding plain_fld_def
    by (rule exI[of _ 1]) (use l in \<open>simp add: sample_col_def data_path_def resolve_def unview_def le_bytes_def\<close>)
qed


end
