(* ===== verification/D_Keep.thy ===== *)
theory D_Keep
  imports D_Combine
begin

text \<open>
  The verbs that make columns leave consistent meta data on every outcome, also when a kernel reads outside a file.  Steps that
  touch files and the working directory only are told apart from the steps that change records, whose rules are those of the
  weakest-precondition calculus.
\<close>

subsection \<open>Steps that touch files only\<close>

definition files_only :: "'a q_prog \<Rightarrow> bool" where
  "files_only p \<longleftrightarrow> (\<forall>s. meta_of (snd (p s)) = meta_of s)"

named_theorems file_steps \<open>programs that leave the meta data alone\<close>

lemma files_only_bind [file_steps]:
  assumes "files_only p" and "\<And>a. files_only (f a)"
  shows "files_only (bind p f)"
  unfolding files_only_def
proof
  fix s
  obtain r s1 where "p s = (r, s1)" by fastforce
  moreover from this have "meta_of s1 = meta_of s" using assms(1) unfolding files_only_def by (metis snd_conv)
  ultimately show "meta_of (snd (bind p f s)) = meta_of s"
    using assms(2) by (cases r) (simp_all add: bind_def files_only_def)
qed

lemma files_only_seq [file_steps]: "files_only p \<Longrightarrow> files_only q \<Longrightarrow> files_only (seq p q)"
  unfolding seq_def by (rule files_only_bind)

lemma files_only_basic [file_steps]:
  "files_only (ret x)" "files_only bye" "files_only fault" "files_only (guard b)" "files_only (within b)" "files_only (gets g)"
  "files_only (lift_out r)" "files_only (of_option v)" "files_only (arg_given y)" "files_only (tbl_at i)" "files_only (fld_at i)"
  "files_only (ddir_at i)" "files_only (chdir c)" "files_only (rs_mmap f w)" "files_only (write_map f bs)" "files_only mkstemp"
  "files_only (unlink f)"
  by (auto simp: files_only_def prog_defs arg_given_def tbl_at_def fld_at_def ddir_at_def chdir_def rs_mmap_def write_map_def mkstemp_def
    unlink_def split: option.splits)

lemma files_only_cases [file_steps]:
  "files_only p \<Longrightarrow> files_only q \<Longrightarrow> files_only (if b then p else q)"
  "files_only p \<Longrightarrow> (\<And>y. files_only (k y)) \<Longrightarrow> files_only (case v of None \<Rightarrow> p | Some y \<Rightarrow> k y)"
  "(\<And>y z. files_only (h y z)) \<Longrightarrow> files_only (case w of (y, z) \<Rightarrow> h y z)"
  by (auto split: option.splits prod.splits)

lemma files_only_storage [file_steps]:
  "files_only (chdir_ignored c)" "files_only (chk_tbl_range i)" "files_only (chk_fld_range i)"
  by (auto simp: chdir_ignored_def chk_tbl_range_def chk_fld_range_def intro!: file_steps)

lemma files_only_dirs [file_steps]: "files_only (enter_ddir d)" "files_only leave_ddir"
  by (auto simp: enter_ddir_def leave_ddir_def intro!: file_steps)

lemma files_only_maps [file_steps]:
  "files_only (q_mmap d f w)" "files_only (get_data r w)" "files_only (mk_temp_file n)"
  by (auto simp: q_mmap_def get_data_def mk_temp_file_def open_temp_file_def mk_file_def avail_space_def get_free_space_def intro!: file_steps)

lemma files_only_data [file_steps]:
  "files_only (nn_data i r)" "files_only (mk_map n)" "files_only (on_maps path X m p)" "files_only (on_map path q X)" "files_only (file_size ft k)"
  by (auto simp: nn_data_def mk_map_def file_size_def intro!: file_steps)
    (auto simp: files_only_def on_maps_def on_map_def split: prod.splits)

subsection \<open>The invariant after a run\<close>

definition keeps_inv :: "'a q_prog \<Rightarrow> q_state \<Rightarrow> bool" where
  "keeps_inv p s \<longleftrightarrow> meta_inv (snd (p s))"

lemma meta_inv_meta_of: "meta_of s' = meta_of s \<Longrightarrow> meta_inv s' = meta_inv s"
  using meta_of_cong[of s' s] unfolding meta_inv_def ht_ok_def by metis

lemma keeps_bind_files:
  assumes "files_only p" and "meta_inv s" and "\<And>a s'. p s = (Ret a, s') \<Longrightarrow> meta_of s' = meta_of s \<Longrightarrow> meta_inv s' \<Longrightarrow> keeps_inv (f a) s'"
  shows "keeps_inv (bind p f) s"
proof -
  obtain r s1 where p: "p s = (r, s1)" by fastforce
  then have "meta_of s1 = meta_of s" using assms(1) unfolding files_only_def by (metis snd_conv)
  moreover from this have "meta_inv s1" using assms(2) meta_inv_meta_of by blast
  ultimately show ?thesis using p assms(3) by (cases r) (simp_all add: keeps_inv_def bind_def)
qed

lemma keeps_seq_files:
  "files_only p \<Longrightarrow> meta_inv s \<Longrightarrow> (\<And>s'. p s = (Ret (), s') \<Longrightarrow> meta_of s' = meta_of s \<Longrightarrow> meta_inv s' \<Longrightarrow> keeps_inv q s') \<Longrightarrow> keeps_inv (seq p q) s"
  unfolding seq_def by (rule keeps_bind_files) auto

lemma keeps_bind_wp:
  assumes "wp p Q meta_inv s" and "\<And>a s'. Q a s' \<Longrightarrow> keeps_inv (f a) s'"
  shows "keeps_inv (bind p f) s"
  using assms unfolding wp_def keeps_inv_def bind_def by (auto split: prod.splits outcome.splits)

lemma keeps_files: "files_only p \<Longrightarrow> meta_inv s \<Longrightarrow> keeps_inv p s"
  unfolding keeps_inv_def files_only_def using meta_inv_meta_of by blast

lemma mkstemp_name: "mkstemp s = (Ret f, s') \<Longrightarrow> f = ''_tempf_XXXXXX'' \<or> (\<exists>x \<in> set (env_tmp s). f = ''_tempf_'' @ x)"
  by (auto simp: mkstemp_def split: option.splits dest: mkstemp_pick_name(1))

lemma bind_Ret: "bind p f s = (Ret b, s') \<longleftrightarrow> (\<exists>a s1. p s = (Ret a, s1) \<and> f a s1 = (Ret b, s'))"
  by (auto simp: bind_def split: prod.splits outcome.splits)

lemma seq_Ret: "seq p q s = (Ret b, s') \<longleftrightarrow> (\<exists>s1. p s = (Ret (), s1) \<and> q s1 = (Ret b, s'))"
  by (auto simp: seq_def bind_Ret)

lemma files_only_Ret: "files_only p \<Longrightarrow> p s = (r, s') \<Longrightarrow> meta_of s' = meta_of s"
  unfolding files_only_def by (metis snd_conv)

lemma open_temp_file_name:
  assumes "open_temp_file cwd dir n s = (Ret f, s')"
  shows "f = ''_tempf_XXXXXX'' \<or> (\<exists>x \<in> set (env_tmp s). f = ''_tempf_'' @ x)"
proof -
  let ?pre = "if n > 0 then bind (avail_space dir) (\<lambda>a. guard (a > n)) else ret ()"
  obtain s1 s2 s3 s4 b where st: "?pre s = (Ret (), s1)" "chdir dir s1 = (Ret b, s2)" "guard b s2 = (Ret (), s3)" "mkstemp s3 = (Ret f, s4)"
    using assms unfolding open_temp_file_def by (auto simp: seq_Ret bind_Ret ret_def)
  have "files_only ?pre" by (auto simp: avail_space_def intro!: file_steps)
  then have "meta_of s3 = meta_of s"
    using st(1-3) files_only_Ret[of ?pre s] files_only_Ret[of "chdir dir" s1] files_only_Ret[of "guard b" s2] by (simp add: file_steps)
  then have "env_tmp s3 = env_tmp s" by (rule meta_of_cong)
  then show ?thesis using mkstemp_name[OF st(4)] by simp
qed

lemma mk_temp_file_result:
  assumes inv: "meta_inv s" and run: "mk_temp_file n s = (Ret (f, d), s')"
  shows "ddir_ok s d" and "length f \<le> MAX_LEN_FILE_NAME"
proof -
  let ?dir = "if g_alt_ddir_id s < 0 then bind (gets g_data_dir) (\<lambda>d. ret (d, -1))
      else bind (ddir_at (g_alt_ddir_id s)) (\<lambda>dir. if n > 0 then bind (get_free_space dir) (\<lambda>free_space.
        ret (dir, if free_space < n then -1 else g_alt_ddir_id s)) else ret (dir, g_alt_ddir_id s))"
  obtain dir s1 cwd s2 s3 where st: "?dir s = (Ret (dir, d), s1)" "gets g_cwd s1 = (Ret cwd, s2)" "open_temp_file cwd dir n s2 = (Ret f, s3)"
    using run unfolding mk_temp_file_def by (auto simp: seq_Ret bind_Ret ret_def gets_def)
  have "files_only ?dir" by (auto simp: get_free_space_def intro!: file_steps)
  then have "meta_of s2 = meta_of s" using st(1,2) files_only_Ret[of ?dir s] by (simp add: gets_def)
  then have "env_tmp s2 = env_tmp s" by (rule meta_of_cong)
  then show "length f \<le> MAX_LEN_FILE_NAME" using open_temp_file_name[OF st(3)] inv by (auto simp: meta_inv_def)
  have "d = -1 \<or> d = g_alt_ddir_id s"
    using st(1) by (auto simp: bind_Ret ret_def split: if_splits)
  then show "ddir_ok s d" using inv by (auto simp: ddir_ok_def meta_inv_def)
qed

lemma mk_map_result:
  assumes "meta_inv s" and "mk_map n s = (Ret (f, d, path, X), s')"
  shows "ddir_ok s d" and "length f \<le> MAX_LEN_FILE_NAME"
  using mk_temp_file_result[OF assms(1)] assms(2) by (fastforce simp: mk_map_def bind_Ret ret_def)+

lemma ddir_ok_meta_of: "meta_of s' = meta_of s \<Longrightarrow> ddir_ok s' d = ddir_ok s d"
  using meta_of_cong(3)[of s' s] by (simp add: ddir_ok_def)

lemma live_meta_of: "meta_of s' = meta_of s \<Longrightarrow> live_tbl (g_tbls s') t = live_tbl (g_tbls s) t"
  using meta_of_cong(2)[of s' s] by simp

subsection \<open>Adding the result\<close>

lemma keeps_add_fld:
  assumes inv: "meta_inv s" and t: "live_tbl (g_tbls s) tid" and d: "ddir_ok s d"
    and nn: "\<And>f e p N. nn_map = Some (f, e, p, N) \<Longrightarrow> ddir_ok s e \<and> length f \<le> MAX_LEN_FILE_NAME"
  shows "keeps_inv (bind (add_fld tid (Some name) d opfile ft (-1)) (\<lambda>(i, r).
     case nn_map of None \<Rightarrow> ret ()
     | Some (nn_opfile, nn_d, _, _) \<Rightarrow> bind (add_aux_fld None tid None i nn_d (Some nn_opfile) (Some ''nn'')) (\<lambda>_. ret ()))) s"
proof (cases "name = []")
  case True
  have "wp (add_fld tid (Some name) d opfile ft (-1)) (\<lambda>_ _. False) meta_inv s"
    using True inv by (simp add: add_fld_def wp_seq wp_bind wp_guard wp_arg_given)
  then show ?thesis by (rule keeps_bind_wp) simp
next
  case name: False
  have tail: "keeps_inv (case nn_map of None \<Rightarrow> ret ()
     | Some (nn_opfile, nn_d, _, _) \<Rightarrow> bind (add_aux_fld None tid None i nn_d (Some nn_opfile) (Some ''nn'')) (\<lambda>_. ret ())) s'"
    if added: "fld_added s tid name (new_fld tid name d opfile ft (-1)) i s'" for i s'
  proof (cases nn_map)
    case None
    then show ?thesis using added by (simp add: keeps_inv_def ret_def fld_added_def)
  next
    case (Some m)
    obtain f e p N where m: "nn_map = Some (f, e, p, N)" using Some by (cases m) auto
    let ?r = "new_fld tid name d opfile ft (-1)"
    obtain fs where fs: "flds_upd s (fs[nat i := ?r]) s'" "fs = erase (g_flds s) (nat i) \<or> fs = g_flds s" and inv': "meta_inv s'" and i: "in_range i (g_flds s)"
      using added unfolding fld_added_def by blast
    have "length fs = length (g_flds s)" using fs(2) by (auto simp: length_erase)
    then have r: "g_flds s' ! nat i = ?r" "in_range i (g_flds s')" using flds_updD(1)[OF fs(1)] i by (auto simp: in_range_def)
    have "unlinked (g_flds s' ! nat i)" unfolding r(1) by (simp add: unlinked_def new_fld_def)
    moreover have "0 \<le> tid" using t by (simp add: live_tbl_def in_range_def)
    moreover have "ddir_ok s' e" using nn[OF m] flds_updD(3)[OF fs(1)] by (simp add: ddir_ok_def)
    ultimately have "wp (add_aux_fld None tid None i e (Some f) (Some ''nn'')) (aux_added s' i e f) (flds_upd s' (g_flds s')) s'"
      using nn[OF m] name by (intro wp_add_aux_fld[OF meta_inv_cut[OF inv' r(2)] r(2)]) (auto simp: r(1) new_fld_def)
    then have "wp (add_aux_fld None tid None i e (Some f) (Some ''nn'')) (\<lambda>_. meta_inv) meta_inv s'"
      by (rule wp_mono) (use meta_inv_flds[OF _ inv'] meta_inv_parts(2)[OF inv'] in \<open>auto simp: aux_added_def\<close>)
    then have "keeps_inv (bind (add_aux_fld None tid None i e (Some f) (Some ''nn'')) (\<lambda>_. ret ())) s'"
      by (rule keeps_bind_wp) (simp add: keeps_inv_def ret_def)
    then show ?thesis by (simp add: m)
  qed
  show ?thesis
    by (rule keeps_bind_wp[OF wp_add_fld[OF inv t d]]) (use tail in auto)
qed

lemma keeps_arg:
  "meta_inv s \<Longrightarrow> (\<And>x. y = Some x \<Longrightarrow> x \<noteq> [] \<Longrightarrow> keeps_inv (f x) s) \<Longrightarrow> keeps_inv (bind (arg_given y) f) s"
  by (cases y) (auto simp: keeps_inv_def bind_def arg_given_def bye_def ret_def)

lemma is_tbl_keeps:
  assumes inv: "meta_inv s" and "\<And>t. live_tbl (g_tbls s) t \<Longrightarrow> keeps_inv (k t) s" and "x \<noteq> []" and tbl: "tbl = Some x"
  shows "keeps_inv (bind (is_tbl tbl) (\<lambda>(t, tbl_rec). seq (chk_tbl_range t) (k t))) s"
proof -
  obtain t r where t: "is_tbl (Some x) s = (Ret (t, r), s)" "tbl_found s x (t, r)"
    using is_tbl_result[OF meta_inv_parts(1)[OF inv], of x] by auto
  show ?thesis
  proof (cases "in_range t (g_tbls s)")
    case True
    then have "live_tbl (g_tbls s) t" using t(2) assms(3) by (auto simp: tbl_found_def live_tbl_def in_range_def)
    then show ?thesis using assms(2) t(1) True by (simp add: keeps_inv_def bind_def seq_def chk_tbl_range_def gets_def guard_def ret_def tbl)
  next
    case False
    then show ?thesis using inv t(1) by (simp add: keeps_inv_def bind_def seq_def chk_tbl_range_def gets_def guard_def bye_def tbl)
  qed
qed

lemma is_fld_same: "meta_inv s \<Longrightarrow> 0 \<le> t \<Longrightarrow> \<exists>r. is_fld None t (Some y) s = (Ret r, s)"
  using is_fld_result[OF meta_inv_parts(1,3), of s t y None] by (auto simp: no_fld_def)

lemma fld_data_keeps:
  assumes inv: "meta_inv s" and t: "0 \<le> t" and y: "f = Some y"
    and k: "\<And>a s'. meta_of s' = meta_of s \<Longrightarrow> meta_inv s' \<Longrightarrow> keeps_inv (k a) s'"
  shows "keeps_inv (bind (fld_data t f) k) s"
proof -
  obtain r where r: "is_fld None t (Some y) s = (Ret r, s)" using is_fld_same[OF inv t] by blast
  let ?rest = "\<lambda>((f_id, f_rec), (nn_id, nn_rec)). seq (chk_fld_range f_id)
    (bind (get_data f_rec False) (\<lambda>(path, X). bind (nn_data nn_id nn_rec) (\<lambda>nn_X. ret (fldtype f_rec, X, nn_X))))"
  have "files_only (?rest r)" by (auto intro!: file_steps)
  from keeps_bind_files[OF this inv, of k] k show ?thesis
    unfolding keeps_inv_def fld_data_def by (simp add: bind_def r y)
qed

lemma keeps_store:
  assumes inv: "meta_inv s" and t: "live_tbl (g_tbls s) tid" and name: "f3 = Some name"
  shows "keeps_inv (bind (file_size u n) (\<lambda>filesz.
     bind (mk_map (nat filesz)) (\<lambda>(opfile, d, path, X).
     bind (if b then bind (mk_map (nat n)) (\<lambda>m. ret (Some m)) else ret None) (\<lambda>nn_map.
     seq (on_maps path X (map_option (\<lambda>(f, d, p, N). (p, N)) nn_map) p)
    (bind (add_fld tid f3 d opfile u (-1)) (\<lambda>(i, r).
     case nn_map of None \<Rightarrow> ret ()
     | Some (nn_opfile, nn_d, _, _) \<Rightarrow> bind (add_aux_fld None tid None i nn_d (Some nn_opfile) (Some ''nn'')) (\<lambda>_. ret ()))))))) s"
proof (rule keeps_bind_files, rule file_steps, rule inv, goal_cases)
  case (1 filesz s1)
  show ?case
  proof (rule keeps_bind_files, rule file_steps, rule 1(3), clarify, goal_cases)
    case (1 opfile d path X s2)
    note m = this
    note s1 = \<open>meta_of s1 = meta_of s\<close>
    have d: "ddir_ok s d" using mk_map_result(1)[OF \<open>meta_inv s1\<close> m(1)] ddir_ok_meta_of[OF s1] by simp
    let ?nn = "if b then bind (mk_map (nat n)) (\<lambda>m. ret (Some m)) else ret None"
    have "files_only ?nn" by (auto intro!: file_steps)
    then show ?case
    proof (rule keeps_bind_files[OF _ m(3)], goal_cases)
      case (1 nn_map s3)
      note nn = this
      have files: "ddir_ok s e \<and> length f \<le> MAX_LEN_FILE_NAME" if "nn_map = Some (f, e, p, N)" for f e p N
      proof -
        have "mk_map (nat n) s2 = (Ret (f, e, p, N), s3)" using nn(1) that by (auto simp: bind_Ret ret_def split: if_splits)
        then show ?thesis using mk_map_result[OF m(3)] ddir_ok_meta_of[of s2 s] m(2) s1 by auto
      qed
      show ?case
      proof (rule keeps_seq_files, rule file_steps, rule nn(3), goal_cases)
        case (1 s4)
        then have s4: "meta_of s4 = meta_of s" using s1 m(2) nn(2) by simp
        have "live_tbl (g_tbls s4) tid" "ddir_ok s4 d" using t d live_meta_of[OF s4] ddir_ok_meta_of[OF s4] by simp_all
        then show ?case unfolding name using files ddir_ok_meta_of[OF s4] by (intro keeps_add_fld[OF 1(3)]) blast+
      qed
    qed
  qed
qed

text \<open>C10: The verb \<open>f1f2opf3\<close> leaves consistent meta data whatever happens: on success, on every error, and also when a data file is shorter
  than its field says and a kernel reads outside it.\<close>

theorem f1f2opf3_keeps_meta_inv:
  assumes "meta_inv s"
  shows "meta_inv (snd (f1f2opf3 alu tbl f1 f2 op f3 s))"
proof -
  have "keeps_inv (f1f2opf3 alu tbl f1 f2 op f3) s" unfolding f1f2opf3_def
  proof (rule keeps_arg[OF assms], rule keeps_arg[OF assms], rule keeps_arg[OF assms], rule keeps_arg[OF assms], rule keeps_arg[OF assms],
      rule is_tbl_keeps[OF assms], goal_cases)
    case (1 x y1 y2 y3 o' tid)
    then have t: "live_tbl (g_tbls s) tid" "0 \<le> tid" by (auto simp: live_tbl_def in_range_def)
    show ?case
    proof (rule keeps_bind_files, rule file_steps, rule assms, unfold Let_def, rule fld_data_keeps[OF _ t(2) 1(3)], assumption, clarify,
        rule fld_data_keeps[OF _ t(2) 1(5)], assumption, clarify, rule keeps_seq_files, rule file_steps, assumption,
        rule keeps_bind_files, rule file_steps, assumption, goal_cases)
      case prems: (1 tr s1 f1type f1_X nn_f1_X s2 f2type f2_X nn_f2_X s3 s4 ft s5)
      have s5: "meta_inv s5" "live_tbl (g_tbls s5) tid" using prems live_meta_of[of s5 s] t(1) by simp_all
      show ?case
      proof (cases ft)
        case None
        then show ?thesis using s5(1) by (simp add: keeps_inv_def fault_def)
      next
        case (Some u)
        then show ?thesis by (simp only: option.case) (rule keeps_store[OF s5 1(7)])
      qed
    qed
  qed (use assms in auto)
  then show ?thesis by (simp add: keeps_inv_def)
qed

theorem f1f2opf3_keeps_meta_inv_witness:
  "meta_inv (snd (f1f2opf3 no_alu (Some ''t1'') (Some ''a'') (Some ''b'') (Some ''+'') (Some ''c'') sample_state))"
  by (rule f1f2opf3_keeps_meta_inv[OF sample_inv])

end
