(* ===== verification/D_Single.thy ===== *)
theory D_Single
  imports D_Keep K_Search K_Reduce
begin

text \<open>
  The verb \<open>f1s1opf2\<close> combines a column with a scalar: \<open>break_into_scalars\<close> (\<open>dir_dbutils/dbauxil.c\<close>) reads one scalar or several separated by
  colons, \<open>vec_f1s1opf2\<close> (\<open>dir_helpers\<close>) makes the files of the result and runs the kernel of the operator on one block of rows
  after the other, and the verb (\<open>dir_wr_verbs\<close>) adds the field.  Reading floating-point numbers is a parameter (\<open>fscan\<close>).
\<close>

unbundle bit_operations_syntax

subsection \<open>Scalars\<close>

text \<open>\<open>strtod\<close>, the order and the conversion of \<open>double\<close> to \<open>float\<close>, and \<open>qsort\<close> of an array of \<open>double\<close>, on bit patterns.\<close>

record fscan =
  strtod_F8 :: "string \<Rightarrow> I8 \<times> string"
  less_F8 :: "I8 \<Rightarrow> I8 \<Rightarrow> bool"
  F8_to_F4 :: "I8 \<Rightarrow> I4"
  qsort_F8 :: "I8 list \<Rightarrow> I8 list"

definition FLT_MAX_bits :: I8 where "FLT_MAX_bits = 0x47EFFFFFE0000000"
definition FLT_MIN_bits :: I8 where "FLT_MIN_bits = 0x3810000000000000"

definition MAX_NUM_SCALARS :: nat where [simp]: "MAX_NUM_SCALARS = 32"

text \<open>The outputs: the number of scalars, the scalar of each type if there is one, and, if there are several, the arrays that the kernels read.\<close>

record scalars =
  num_scalar_vals :: int
  sval_I8 :: I8
  sval_I4 :: I4
  sval_I2 :: I2
  sval_I1 :: I1
  sval_F4 :: I4
  sval_F8 :: I8
  svals_I4 :: "I4 list"
  svals_I2 :: "I2 list"
  svals_I1 :: "I1 list"

definition no_scalars :: "int \<Rightarrow> scalars" where
  "no_scalars n = \<lparr>num_scalar_vals = n, sval_I8 = 0x7FFFFFFFFFFFFFFF, sval_I4 = 0x7FFFFFFF, sval_I2 = 0x7FFF, sval_I1 = 0x7F,
     sval_F4 = 0x7F7FFFFF, sval_F8 = 0x7FEFFFFFFFFFFFFF, svals_I4 = [], svals_I2 = [], svals_I1 = []\<rparr>"

text \<open>The loop over the pieces; the arrays have room for 32 values.\<close>

fun scan_all :: "(string \<Rightarrow> 'v \<times> string) \<Rightarrow> nat \<Rightarrow> string list \<Rightarrow> 'v list outcome" where
  "scan_all scan i [] = Ret []"
| "scan_all scan i (y # Y) = (if i \<ge> MAX_NUM_SCALARS then Fault else
     case scan y of (v, endptr) \<Rightarrow> if endptr \<noteq> [] then Bye else
       (case scan_all scan (i + 1) Y of Ret vs \<Rightarrow> Ret (v # vs) | Bye \<Rightarrow> Bye | Fault \<Rightarrow> Fault))"

definition scan_scalars :: "(string \<Rightarrow> 'v \<times> string) \<Rightarrow> ('v list \<Rightarrow> 'v list) \<Rightarrow> string \<Rightarrow> int \<Rightarrow> 'v list outcome" where
  "scan_scalars scan sorting str_scalar n =
     (if n = 1 then (case scan str_scalar of (v, endptr) \<Rightarrow> if endptr \<noteq> [] then Bye else Ret [v])
      else (case break_str (Some str_scalar) '':'' of None \<Rightarrow> Bye
        | Some Y \<Rightarrow> if int (length Y) \<noteq> n then Bye else
            (case scan_all scan 0 Y of Ret vs \<Rightarrow> Ret (sorting vs) | Bye \<Rightarrow> Bye | Fault \<Rightarrow> Fault)))"

definition break_into_scalars :: "fscan \<Rightarrow> string \<Rightarrow> FLD_TYPE \<Rightarrow> scalars outcome" where
  "break_into_scalars fs str_scalar ft = (let n = 1 + int (length (filter (\<lambda>c. c = CHR '':'') str_scalar)); sc = no_scalars n in
     if ft \<in> {I1, I2, I4, I8} then
       (case scan_scalars strtoll sort str_scalar n of Bye \<Rightarrow> Bye | Fault \<Rightarrow> Fault | Ret vs \<Rightarrow>
         (let fits = (\<lambda>lo hi. \<forall>v \<in> set vs. lo \<le> v \<and> v \<le> hi); sc = (if n = 1 then sc\<lparr>sval_I8 := word_of_int (hd vs)\<rparr> else sc) in
          case ft of
            I1 \<Rightarrow> if \<not> fits (- 128) 127 then Bye
                  else Ret (if n = 1 then sc\<lparr>sval_I1 := word_of_int (hd vs)\<rparr> else sc\<lparr>svals_I1 := map word_of_int vs\<rparr>)
          | I2 \<Rightarrow> if \<not> fits (- 32768) 32767 then Bye
                  else Ret (if n = 1 then sc\<lparr>sval_I2 := word_of_int (hd vs), sval_I4 := word_of_int (hd vs)\<rparr>
                    else sc\<lparr>svals_I2 := map word_of_int vs, svals_I4 := map word_of_int vs\<rparr>)
          | I4 \<Rightarrow> if \<not> fits INT_MIN INT_MAX then Bye
                  else Ret (if n = 1 then sc\<lparr>sval_I4 := word_of_int (hd vs)\<rparr> else sc\<lparr>svals_I4 := map word_of_int vs\<rparr>)
          | _ \<Rightarrow> Ret sc))
     else if ft \<in> {F4, F8} then
       (case scan_scalars (strtod_F8 fs) (qsort_F8 fs) str_scalar n of Bye \<Rightarrow> Bye | Fault \<Rightarrow> Fault | Ret vs \<Rightarrow>
         (let sc = (if n = 1 then sc\<lparr>sval_F8 := hd vs\<rparr> else sc) in
          if ft = F4 then
            (if \<exists>v \<in> set vs. less_F8 fs FLT_MAX_bits v \<or> less_F8 fs v FLT_MIN_bits then Bye
             else Ret (if n = 1 then sc\<lparr>sval_F4 := F8_to_F4 fs (hd vs)\<rparr> else sc))
          else Ret sc))
     else Bye)"

subsection \<open>Floating-point kernels\<close>

definition add_scalar_F4 :: "alu \<Rightarrow> I4 list \<Rightarrow> I4 \<Rightarrow> int \<Rightarrow> I4 kernel" where
  "add_scalar_F4 alu in1 in2 n = ewise1 (\<lambda>v. Some (add_F4 alu v in2)) in1 n"

definition sub_scalar_F4 :: "alu \<Rightarrow> I4 list \<Rightarrow> I4 \<Rightarrow> int \<Rightarrow> I4 kernel" where
  "sub_scalar_F4 alu in1 in2 n = ewise1 (\<lambda>v. Some (sub_F4 alu v in2)) in1 n"

definition mul_scalar_F4 :: "alu \<Rightarrow> I4 list \<Rightarrow> I4 \<Rightarrow> int \<Rightarrow> I4 kernel" where
  "mul_scalar_F4 alu in1 in2 n = ewise1 (\<lambda>v. Some (mul_F4 alu v in2)) in1 n"

definition div_scalar_F4 :: "alu \<Rightarrow> I4 list \<Rightarrow> I4 \<Rightarrow> int \<Rightarrow> I4 kernel" where
  "div_scalar_F4 alu in1 in2 n = ewise1 (\<lambda>v. Some (div_F4 alu v in2)) in1 n"

definition add_scalar_F8 :: "alu \<Rightarrow> I8 list \<Rightarrow> I8 \<Rightarrow> int \<Rightarrow> I8 kernel" where
  "add_scalar_F8 alu in1 in2 n = ewise1 (\<lambda>v. Some (add_F8 alu v in2)) in1 n"

definition sub_scalar_F8 :: "alu \<Rightarrow> I8 list \<Rightarrow> I8 \<Rightarrow> int \<Rightarrow> I8 kernel" where
  "sub_scalar_F8 alu in1 in2 n = ewise1 (\<lambda>v. Some (sub_F8 alu v in2)) in1 n"

definition mul_scalar_F8 :: "alu \<Rightarrow> I8 list \<Rightarrow> I8 \<Rightarrow> int \<Rightarrow> I8 kernel" where
  "mul_scalar_F8 alu in1 in2 n = ewise1 (\<lambda>v. Some (mul_F8 alu v in2)) in1 n"

definition div_scalar_F8 :: "alu \<Rightarrow> I8 list \<Rightarrow> I8 \<Rightarrow> int \<Rightarrow> I8 kernel" where
  "div_scalar_F8 alu in1 in2 n = ewise1 (\<lambda>v. Some (div_F8 alu v in2)) in1 n"

definition cmp_ge_scalar_F4 :: "alu \<Rightarrow> I4 list \<Rightarrow> I4 \<Rightarrow> int \<Rightarrow> I1 kernel" where
  "cmp_ge_scalar_F4 alu in1 in2 n = ewise1 (\<lambda>v. Some (c_bool (le_F4 alu in2 v))) in1 n"

definition cmp_le_scalar_F4 :: "alu \<Rightarrow> I4 list \<Rightarrow> I4 \<Rightarrow> int \<Rightarrow> I1 kernel" where
  "cmp_le_scalar_F4 alu in1 in2 n = ewise1 (\<lambda>v. Some (c_bool (le_F4 alu v in2))) in1 n"

definition cmp_eq_scalar_F4 :: "alu \<Rightarrow> I4 list \<Rightarrow> I4 \<Rightarrow> int \<Rightarrow> I1 kernel" where
  "cmp_eq_scalar_F4 alu in1 in2 n = ewise1 (\<lambda>v. Some (c_bool (eq_F4 alu v in2))) in1 n"

definition cmp_ne_scalar_F4 :: "alu \<Rightarrow> I4 list \<Rightarrow> I4 \<Rightarrow> int \<Rightarrow> I1 kernel" where
  "cmp_ne_scalar_F4 alu in1 in2 n = ewise1 (\<lambda>v. Some (c_bool (\<not> eq_F4 alu v in2))) in1 n"

definition cmp_gt_scalar_F4 :: "alu \<Rightarrow> I4 list \<Rightarrow> I4 \<Rightarrow> int \<Rightarrow> I1 kernel" where
  "cmp_gt_scalar_F4 alu in1 in2 n = ewise1 (\<lambda>v. Some (c_bool (lt_F4 alu in2 v))) in1 n"

definition cmp_lt_scalar_F4 :: "alu \<Rightarrow> I4 list \<Rightarrow> I4 \<Rightarrow> int \<Rightarrow> I1 kernel" where
  "cmp_lt_scalar_F4 alu in1 in2 n = ewise1 (\<lambda>v. Some (c_bool (lt_F4 alu v in2))) in1 n"

subsection \<open>One block\<close>

text \<open>The input and the output start at row \<open>lb\<close>, each counted in its own type.\<close>

definition col1 :: "('a::len word list \<Rightarrow> int \<Rightarrow> 'c::len word kernel) \<Rightarrow> byte list \<Rightarrow> int \<Rightarrow> int \<Rightarrow> (byte list, bool) prog" where
  "col1 k f1_X lb nX = seq (on_view lb (k (arr lb f1_X) nX)) (ret True)"

definition scalar_I2 :: "string \<Rightarrow> scalars \<Rightarrow> byte list \<Rightarrow> int \<Rightarrow> int \<Rightarrow> (byte list, bool) prog" where
  "scalar_I2 op sc f1_X lb nX =
    (if op = ''=='' then (if num_scalar_vals sc = 1 then col1 (\<lambda>f n. cmp_eq_scalar_I2 f (sval_I2 sc) n) f1_X lb nX else col1 (\<lambda>f n. cmp_eq_mult_scalar_I2 f n (svals_I2 sc) (num_scalar_vals sc)) f1_X lb nX)
     else if op = ''+'' then col1 (\<lambda>f n. add_scalar_I2 f (sval_I2 sc) n) f1_X lb nX
     else if op = ''-'' then col1 (\<lambda>f n. sub_scalar_I2 f (sval_I2 sc) n) f1_X lb nX
     else if op = ''*'' then col1 (\<lambda>f n. mul_scalar_I2 f (sval_I2 sc) n) f1_X lb nX
     else if op = ''/'' then col1 (\<lambda>f n. div_scalar_I2 f (sval_I2 sc) n) f1_X lb nX
     else if op = ''%'' then col1 (\<lambda>f n. rem_scalar_I2 f (sval_I2 sc) n) f1_X lb nX
     else ret False)"

text \<open>The output pointer of \<open>>>\<close> on \<open>I4\<close> is never set.\<close>

definition scalar_I4 :: "string \<Rightarrow> scalars \<Rightarrow> byte list \<Rightarrow> int \<Rightarrow> int \<Rightarrow> (byte list, bool) prog" where
  "scalar_I4 op sc f1_X lb nX =
    (if op = ''+'' then col1 (\<lambda>f n. add_scalar_I4 f (sval_I4 sc) n) f1_X lb nX
     else if op = ''-'' then col1 (\<lambda>f n. sub_scalar_I4 f (sval_I4 sc) n) f1_X lb nX
     else if op = ''*'' then col1 (\<lambda>f n. mul_scalar_I4 f (sval_I4 sc) n) f1_X lb nX
     else if op = ''/'' then col1 (\<lambda>f n. div_scalar_I4 f (sval_I4 sc) n) f1_X lb nX
     else if op = ''%'' then col1 (\<lambda>f n. rem_scalar_I4 f (sval_I4 sc) n) f1_X lb nX
     else if op = ''<<'' then col1 (\<lambda>f n. shift_left_scalar_I4 f (sval_I4 sc) n) f1_X lb nX
     else if op = ''>>'' then (if nX > 0 then fault else ret True)
     else if op = ''>='' then col1 (\<lambda>f n. cmp_ge_scalar_I4 f (sval_I4 sc) n) f1_X lb nX
     else if op = ''<='' then col1 (\<lambda>f n. cmp_le_scalar_I4 f (sval_I4 sc) n) f1_X lb nX
     else if op = ''<||>'' then (if num_scalar_vals sc = 2 then col1 (\<lambda>f n. cmp_lt_or_gt_I4 f n (svals_I4 sc ! 0) (svals_I4 sc ! 1)) f1_X lb nX else ret False)
     else if op = ''<=||>='' then (if num_scalar_vals sc = 2 then col1 (\<lambda>f n. cmp_le_or_ge_I4 f n (svals_I4 sc ! 0) (svals_I4 sc ! 1)) f1_X lb nX else ret False)
     else if op = ''>&&<'' then (if num_scalar_vals sc = 2 then col1 (\<lambda>f n. cmp_gt_and_lt_I4 f n (svals_I4 sc ! 0) (svals_I4 sc ! 1)) f1_X lb nX else ret False)
     else if op = ''>=&&<='' then (if num_scalar_vals sc = 2 then col1 (\<lambda>f n. cmp_ge_and_le_I4 f n (svals_I4 sc ! 0) (svals_I4 sc ! 1)) f1_X lb nX else ret False)
     else if op = ''=='' then (if num_scalar_vals sc = 1 then col1 (\<lambda>f n. cmp_eq_scalar_I4 f (sval_I4 sc) n) f1_X lb nX else col1 (\<lambda>f n. cmp_eq_mult_scalar_I4 f n (svals_I4 sc) (num_scalar_vals sc)) f1_X lb nX)
     else if op = ''!='' then col1 (\<lambda>f n. cmp_ne_scalar_I4 f (sval_I4 sc) n) f1_X lb nX
     else if op = ''>'' then col1 (\<lambda>f n. cmp_gt_scalar_I4 f (sval_I4 sc) n) f1_X lb nX
     else if op = ''<'' then col1 (\<lambda>f n. cmp_lt_scalar_I4 f (sval_I4 sc) n) f1_X lb nX
     else if op = ''&'' then col1 (\<lambda>f n. bwise_and_scalar_I4 f (sval_I4 sc) n) f1_X lb nX
     else if op = ''|'' then col1 (\<lambda>f n. bwise_or_scalar_I4 f (sval_I4 sc) n) f1_X lb nX
     else if op = ''^'' then col1 (\<lambda>f n. bwise_xor_scalar_I4 f (sval_I4 sc) n) f1_X lb nX
     else ret False)"

definition scalar_I8 :: "string \<Rightarrow> scalars \<Rightarrow> byte list \<Rightarrow> int \<Rightarrow> int \<Rightarrow> (byte list, bool) prog" where
  "scalar_I8 op sc f1_X lb nX =
    (if op = ''+'' then col1 (\<lambda>f n. add_scalar_I8 f (sval_I8 sc) n) f1_X lb nX
     else if op = ''-'' then col1 (\<lambda>f n. sub_scalar_I8 f (sval_I8 sc) n) f1_X lb nX
     else if op = ''*'' then col1 (\<lambda>f n. mul_scalar_I8 f (sval_I8 sc) n) f1_X lb nX
     else if op = ''/'' then col1 (\<lambda>f n. div_scalar_I8 f (sval_I8 sc) n) f1_X lb nX
     else if op = ''%'' then col1 (\<lambda>f n. rem_scalar_I8 f (sval_I8 sc) n) f1_X lb nX
     else if op = ''<<'' then col1 (\<lambda>f n. shift_left_scalar_I8 f (sval_I8 sc) n) f1_X lb nX
     else if op = ''>>'' then col1 (\<lambda>f n. shift_right_scalar_UI8 f (sval_I8 sc) n) f1_X lb nX
     else if op = ''>='' then col1 (\<lambda>f n. cmp_ge_scalar_I8 f (sval_I8 sc) n) f1_X lb nX
     else if op = ''<='' then col1 (\<lambda>f n. cmp_le_scalar_I8 f (sval_I8 sc) n) f1_X lb nX
     else if op = ''=='' then col1 (\<lambda>f n. cmp_eq_scalar_I8 f (sval_I8 sc) n) f1_X lb nX
     else if op = ''!='' then col1 (\<lambda>f n. cmp_ne_scalar_I8 f (sval_I8 sc) n) f1_X lb nX
     else if op = ''>'' then col1 (\<lambda>f n. cmp_gt_scalar_I8 f (sval_I8 sc) n) f1_X lb nX
     else if op = ''<'' then col1 (\<lambda>f n. cmp_lt_scalar_I8 f (sval_I8 sc) n) f1_X lb nX
     else if op = ''&'' then col1 (\<lambda>f n. bwise_and_scalar_I8 f (sval_I8 sc) n) f1_X lb nX
     else if op = ''|'' then col1 (\<lambda>f n. bwise_or_scalar_I8 f (sval_I8 sc) n) f1_X lb nX
     else if op = ''^'' then col1 (\<lambda>f n. bwise_xor_scalar_I8 f (sval_I8 sc) n) f1_X lb nX
     else ret False)"

definition scalar_F4 :: "alu \<Rightarrow> string \<Rightarrow> scalars \<Rightarrow> byte list \<Rightarrow> int \<Rightarrow> int \<Rightarrow> (byte list, bool) prog" where
  "scalar_F4 alu op sc f1_X lb nX =
    (if op = ''+'' then col1 (\<lambda>f n. add_scalar_F4 alu f (sval_F4 sc) n) f1_X lb nX
     else if op = ''-'' then col1 (\<lambda>f n. sub_scalar_F4 alu f (sval_F4 sc) n) f1_X lb nX
     else if op = ''*'' then col1 (\<lambda>f n. mul_scalar_F4 alu f (sval_F4 sc) n) f1_X lb nX
     else if op = ''/'' then col1 (\<lambda>f n. div_scalar_F4 alu f (sval_F4 sc) n) f1_X lb nX
     else if op = ''>='' then col1 (\<lambda>f n. cmp_ge_scalar_F4 alu f (sval_F4 sc) n) f1_X lb nX
     else if op = ''<='' then col1 (\<lambda>f n. cmp_le_scalar_F4 alu f (sval_F4 sc) n) f1_X lb nX
     else if op = ''=='' then col1 (\<lambda>f n. cmp_eq_scalar_F4 alu f (sval_F4 sc) n) f1_X lb nX
     else if op = ''!='' then col1 (\<lambda>f n. cmp_ne_scalar_F4 alu f (sval_F4 sc) n) f1_X lb nX
     else if op = ''>'' then col1 (\<lambda>f n. cmp_gt_scalar_F4 alu f (sval_F4 sc) n) f1_X lb nX
     else if op = ''<'' then col1 (\<lambda>f n. cmp_lt_scalar_F4 alu f (sval_F4 sc) n) f1_X lb nX
     else ret False)"

definition scalar_F8 :: "alu \<Rightarrow> string \<Rightarrow> scalars \<Rightarrow> byte list \<Rightarrow> int \<Rightarrow> int \<Rightarrow> (byte list, bool) prog" where
  "scalar_F8 alu op sc f1_X lb nX =
    (if op = ''+'' then col1 (\<lambda>f n. add_scalar_F8 alu f (sval_F8 sc) n) f1_X lb nX
     else if op = ''-'' then col1 (\<lambda>f n. sub_scalar_F8 alu f (sval_F8 sc) n) f1_X lb nX
     else if op = ''*'' then col1 (\<lambda>f n. mul_scalar_F8 alu f (sval_F8 sc) n) f1_X lb nX
     else if op = ''/'' then col1 (\<lambda>f n. div_scalar_F8 alu f (sval_F8 sc) n) f1_X lb nX
     else ret False)"

definition scalar_I1 :: "string \<Rightarrow> scalars \<Rightarrow> byte list \<Rightarrow> int \<Rightarrow> int \<Rightarrow> (byte list, bool) prog" where
  "scalar_I1 op sc f1_X lb nX =
    (if op = ''&'' then col1 (\<lambda>f n. bwise_and_scalar_I1 f (sval_I1 sc) n) f1_X lb nX
     else if op = ''|'' then col1 (\<lambda>f n. bwise_or_scalar_I1 f (sval_I1 sc) n) f1_X lb nX
     else if op = ''^'' then col1 (\<lambda>f n. bwise_xor_scalar_I1 f (sval_I1 sc) n) f1_X lb nX
     else if op = ''>='' then col1 (\<lambda>f n. cmp_ge_scalar_I1 f (sval_I1 sc) n) f1_X lb nX
     else if op = ''<='' then col1 (\<lambda>f n. cmp_le_scalar_I1 f (sval_I1 sc) n) f1_X lb nX
     else if op = ''=='' then (if num_scalar_vals sc = 1 then col1 (\<lambda>f n. cmp_eq_scalar_I1 f (sval_I1 sc) n) f1_X lb nX else col1 (\<lambda>f n. cmp_eq_mult_scalar_I1 f n (svals_I1 sc) (num_scalar_vals sc)) f1_X lb nX)
     else if op = ''!='' then col1 (\<lambda>f n. cmp_ne_scalar_I1 f (sval_I1 sc) n) f1_X lb nX
     else if op = ''>'' then col1 (\<lambda>f n. cmp_gt_scalar_I1 f (sval_I1 sc) n) f1_X lb nX
     else if op = ''<'' then col1 (\<lambda>f n. cmp_lt_scalar_I1 f (sval_I1 sc) n) f1_X lb nX
     else ret False)"

definition scalar_block :: "alu \<Rightarrow> FLD_TYPE \<Rightarrow> string \<Rightarrow> scalars \<Rightarrow> byte list \<Rightarrow> int \<times> int \<Rightarrow> (byte list, bool) prog" where
  "scalar_block alu ft op sc f1_X = (\<lambda>(lb, ub). let nX = ub - lb in case ft of
       I2 \<Rightarrow> scalar_I2 op sc f1_X lb nX
     | I4 \<Rightarrow> scalar_I4 op sc f1_X lb nX
     | I8 \<Rightarrow> scalar_I8 op sc f1_X lb nX
     | F4 \<Rightarrow> scalar_F4 alu op sc f1_X lb nX
     | F8 \<Rightarrow> scalar_F8 alu op sc f1_X lb nX
     | I1 \<Rightarrow> scalar_I1 op sc f1_X lb nX
     | _ \<Rightarrow> ret False)"

definition nn_copy :: "byte list option \<Rightarrow> int \<times> int \<Rightarrow> (byte list, unit) prog" where
  "nn_copy nn_f1_X = (\<lambda>(lb, ub). case nn_f1_X of None \<Rightarrow> ret () | Some n1 \<Rightarrow> on_view lb (assign_I1 (arr lb n1) (ub - lb)))"

definition scalar_cols :: "alu \<Rightarrow> scalars \<Rightarrow> FLD_TYPE \<Rightarrow> byte list \<Rightarrow> byte list option \<Rightarrow> string \<Rightarrow> (int \<times> int) list \<Rightarrow> (out_cols, unit) prog" where
  "scalar_cols alu sc ft f1_X nn_f1_X op bl =
     bind (all_blocks (\<lambda>b. seq (to_nn (nn_copy nn_f1_X b)) (to_op (scalar_block alu ft op sc f1_X b))) bl) guard"

subsection \<open>The verb\<close>

definition vec_f1s1opf2 :: "fscan \<Rightarrow> alu \<Rightarrow> int \<Rightarrow> FLD_TYPE \<Rightarrow> byte list \<Rightarrow> byte list option \<Rightarrow> string \<Rightarrow> string \<Rightarrow>
    (string \<times> int \<times> (string \<times> int \<times> string \<times> byte list) option \<times> FLD_TYPE) q_prog" where
  "vec_f1s1opf2 fs alu n ft f1_X nn_f1_X str_scalar op =
     bind (lift_out (break_into_scalars fs str_scalar ft)) (\<lambda>sc.
     bind (of_option (partition_work n 8192 (-1))) (\<lambda>(block_size, nT).
     bind (lift_out (get_type_op_fld ''f1s1opf2'' op ft ft (Some []))) (\<lambda>r. case r of None \<Rightarrow> fault | Some op_fldtype \<Rightarrow>
     let fldsz = (case get_fld_sz op_fldtype of None \<Rightarrow> INT_MAX | Some z \<Rightarrow> z) in
     bind (mk_map (nat (fldsz * n))) (\<lambda>(opfile, d, path, X).
     bind (if nn_f1_X = None then ret None else bind (mk_map (nat n)) (\<lambda>m. ret (Some m))) (\<lambda>nn_map.
     seq (on_maps path X (map_option (\<lambda>(f, d, p, N). (p, N)) nn_map) (scalar_cols alu sc ft f1_X nn_f1_X op (blocks 0 n block_size nT)))
    (ret (opfile, d, nn_map, op_fldtype)))))))"

definition f1s1_ops :: "string list" where
  "f1s1_ops = [''+'', ''-'', ''*'', ''/'', ''%'', ''&'', ''|'', ''^'', ''>'', ''<'', ''>='', ''<='', ''!='', ''=='', ''<<'', ''>>'',
     ''<||>'', ''<=||>='', ''>&&<'', ''>=&&<='']"

definition f1s1opf2 :: "fscan \<Rightarrow> alu \<Rightarrow> string option \<Rightarrow> string option \<Rightarrow> string option \<Rightarrow> string option \<Rightarrow> string option \<Rightarrow> unit q_prog" where
  "f1s1opf2 fs alu tbl f1 str op0 f2 =
     bind (arg_given tbl) (\<lambda>_. bind (arg_given f1) (\<lambda>_. bind (arg_given str) (\<lambda>str_scalar. bind (arg_given f2) (\<lambda>_. bind (arg_given op0) (\<lambda>op.
     bind (is_tbl tbl) (\<lambda>(tid, tbl_rec).
     seq (chk_tbl_range tid)
    (bind (tbl_at tid) (\<lambda>t.
     bind (fld_data tid f1) (\<lambda>(ft, f1_X, nn_f1_X).
     seq (guard (op \<in> set f1s1_ops))
    (bind (vec_f1s1opf2 fs alu (nR t) ft f1_X nn_f1_X str_scalar op) (\<lambda>(opfile, d, nn_map, u).
     bind (add_fld tid f2 d opfile u (-1)) (\<lambda>(f2_id, f2_rec).
     case nn_map of None \<Rightarrow> ret ()
     | Some (nn_opfile, nn_d, _, _) \<Rightarrow> bind (add_aux_fld None tid None f2_id nn_d (Some nn_opfile) (Some ''nn'')) (\<lambda>_. ret ())))))))))))))"

end
