(* ===== verification/D_Single_Proofs.thy ===== *)
theory D_Single_Proofs
  imports D_Single Q_Text
begin

text \<open>
  What \<open>f1s1opf2\<close> computes on integer columns with one scalar, down to the rows of the new field, and that it keeps the
  invariant of the meta data on every outcome.
\<close>

unbundle bit_operations_syntax

subsection \<open>Reading scalars\<close>

lemma dec_int_no_colon: "filter (\<lambda>c. c = CHR '':'') (dec_int c) = []"
proof -
  have "filter (\<lambda>c. c = CHR '':'') (dec_nat m) = []" for m
    using dec_nat_digits[of m] by (auto simp: filter_empty_conv list_all_iff isdigit_def code_def)
  then show ?thesis by (simp add: dec_int_def)
qed

definition in_type :: "FLD_TYPE \<Rightarrow> int \<Rightarrow> bool" where
  "in_type t c \<longleftrightarrow> - (2 ^ (width t - 1)) \<le> c \<and> c < 2 ^ (width t - 1)"

text \<open>\<open>scalar_is t sc c\<close>: there is one scalar, and as a value of type \<open>t\<close> it is \<open>c\<close>.\<close>

definition scalar_is :: "FLD_TYPE \<Rightarrow> scalars \<Rightarrow> int \<Rightarrow> bool" where
  "scalar_is t sc c \<longleftrightarrow> num_scalar_vals sc = 1 \<and> (case t of I1 \<Rightarrow> sval_I1 sc = word_of_int c | I2 \<Rightarrow> sval_I2 sc = word_of_int c
     | I4 \<Rightarrow> sval_I4 sc = word_of_int c | I8 \<Rightarrow> sval_I8 sc = word_of_int c | _ \<Rightarrow> False)"

lemma one_scalar:
  assumes "t \<in> {I1, I2, I4, I8}" and "in_type t c"
  shows "\<exists>sc. break_into_scalars fs (dec_int c) t = Ret sc \<and> scalar_is t sc c"
proof -
  have "- (2 ^ 63) \<le> c \<and> c < 2 ^ 63" using assms by (auto simp: in_type_def width_def)
  then have s: "scan_scalars strtoll sort (dec_int c) 1 = Ret [c]" by (simp add: scan_scalars_def strtoll_dec)
  show ?thesis using assms
    by (elim insertE emptyE) (simp_all add: break_into_scalars_def dec_int_no_colon s in_type_def width_def scalar_is_def no_scalars_def Let_def)
qed

subsection \<open>The kernel of an operator\<close>

text \<open>A function on words agrees with the operation on integers where that has a value.\<close>

definition agrees :: "('a::len word \<Rightarrow> 'a word \<Rightarrow> 'b::len word option) \<Rightarrow> string \<Rightarrow> bool" where
  "agrees f op \<longleftrightarrow> (\<forall>a b z. int_op LENGTH('a) op (sint a) (sint b) = Some z \<longrightarrow> f a b = Some (word_of_int z))"

lemma computes_agrees: "computes f op \<Longrightarrow> agrees f op"
  by (simp add: computes_def agrees_def)

lemma agrees_wide:
  "agrees (\<lambda>a b :: 'a::len word. c_quot True a b) ''/''" "agrees (\<lambda>a b :: 'a::len word. c_rem True a b) ''%''"
  by (auto simp: agrees_def int_op_def c_quot_def c_rem_def div_traps_def sint_0_iff split: if_splits)

lemmas agrees_all = computes_all[THEN computes_agrees]
lemmas agrees_I2 = agrees_wide computes_arith(1-3)[THEN computes_agrees]

lemma ewise1_ewise2: "ewise1 g src n = ewise2 (\<lambda>x y. g x) src (src :: 'a list) n"
proof -
  have "Option.bind a g = Option.bind a (\<lambda>x. Option.bind a (\<lambda>y. g x))" for a by (cases a) simp_all
  then show ?thesis unfolding ewise1_def ewise2_def by presburger
qed

lemmas col1_col2 = col1_def col2_def ewise1_ewise2

definition wide_ops :: "string set" where
  "wide_ops = {''+'', ''-'', ''*'', ''/'', ''%'', ''&'', ''|'', ''^'', ''<<''}"

lemmas scalar_I4_kernels = scalar_I4_def add_scalar_I4_def sub_scalar_I4_def mul_scalar_I4_def div_scalar_I4_def rem_scalar_I4_def
  cmp_ge_scalar_I4_def cmp_le_scalar_I4_def cmp_eq_scalar_I4_def cmp_ne_scalar_I4_def cmp_gt_scalar_I4_def cmp_lt_scalar_I4_def
  bwise_and_scalar_I4_def bwise_or_scalar_I4_def bwise_xor_scalar_I4_def shift_left_scalar_I4_def

lemmas scalar_I8_kernels = scalar_I8_def add_scalar_I8_def sub_scalar_I8_def mul_scalar_I8_def div_scalar_I8_def rem_scalar_I8_def
  cmp_ge_scalar_I8_def cmp_le_scalar_I8_def cmp_eq_scalar_I8_def cmp_ne_scalar_I8_def cmp_gt_scalar_I8_def cmp_lt_scalar_I8_def
  bwise_and_scalar_I8_def bwise_or_scalar_I8_def bwise_xor_scalar_I8_def shift_left_scalar_I8_def shift_right_scalar_UI8_def

lemmas scalar_I1_kernels = scalar_I1_def bwise_and_scalar_I1_def bwise_or_scalar_I1_def bwise_xor_scalar_I1_def
  cmp_ge_scalar_I1_def cmp_le_scalar_I1_def cmp_eq_scalar_I1_def cmp_ne_scalar_I1_def cmp_gt_scalar_I1_def cmp_lt_scalar_I1_def

lemmas scalar_I2_kernels = scalar_I2_def add_scalar_I2_def sub_scalar_I2_def mul_scalar_I2_def div_scalar_I2_def rem_scalar_I2_def cmp_eq_scalar_I2_def

lemma scalar_I4_wide: "op \<in> wide_ops \<Longrightarrow> \<exists>f :: I4 \<Rightarrow> I4 \<Rightarrow> I4 option. agrees f op \<and> (\<forall>X lb nX. scalar_I4 op sc X lb nX = col2 (ewise2 (\<lambda>x (y :: I4). f x (sval_I4 sc))) X X lb nX)"
  unfolding wide_ops_def by (elim insertE emptyE; hypsubst; rule exI; rule conjI, rule agrees_all, simp add: scalar_I4_kernels col1_col2)

lemma scalar_I4_cmp: "op \<in> cmp_ops \<Longrightarrow> num_scalar_vals sc = 1 \<Longrightarrow>
  \<exists>f :: I4 \<Rightarrow> I4 \<Rightarrow> I1 option. agrees f op \<and> (\<forall>X lb nX. scalar_I4 op sc X lb nX = col2 (ewise2 (\<lambda>x (y :: I4). f x (sval_I4 sc))) X X lb nX)"
  unfolding cmp_ops_def by (elim insertE emptyE; hypsubst; rule exI; rule conjI, rule agrees_all, simp add: scalar_I4_kernels col1_col2)

lemma scalar_I8_wide: "op \<in> insert ''>>'' wide_ops \<Longrightarrow>
  \<exists>f :: I8 \<Rightarrow> I8 \<Rightarrow> I8 option. agrees f op \<and> (\<forall>X lb nX. scalar_I8 op sc X lb nX = col2 (ewise2 (\<lambda>x (y :: I8). f x (sval_I8 sc))) X X lb nX)"
  unfolding wide_ops_def by (elim insertE emptyE; hypsubst; rule exI; rule conjI, rule agrees_all, simp add: scalar_I8_kernels col1_col2)

lemma scalar_I8_cmp: "op \<in> cmp_ops \<Longrightarrow>
  \<exists>f :: I8 \<Rightarrow> I8 \<Rightarrow> I1 option. agrees f op \<and> (\<forall>X lb nX. scalar_I8 op sc X lb nX = col2 (ewise2 (\<lambda>x (y :: I8). f x (sval_I8 sc))) X X lb nX)"
  unfolding cmp_ops_def by (elim insertE emptyE; hypsubst; rule exI; rule conjI, rule agrees_all, simp add: scalar_I8_kernels col1_col2)

lemma scalar_I1_cmp: "op \<in> cmp_ops \<Longrightarrow> num_scalar_vals sc = 1 \<Longrightarrow>
  \<exists>f :: I1 \<Rightarrow> I1 \<Rightarrow> I1 option. agrees f op \<and> (\<forall>X lb nX. scalar_I1 op sc X lb nX = col2 (ewise2 (\<lambda>x (y :: I1). f x (sval_I1 sc))) X X lb nX)"
  unfolding cmp_ops_def by (elim insertE emptyE; hypsubst; rule exI; rule conjI, rule agrees_all, simp add: scalar_I1_kernels col1_col2)

lemma scalar_I2_arith: "op \<in> {''+'', ''-'', ''*'', ''/'', ''%''} \<Longrightarrow>
  \<exists>f :: I2 \<Rightarrow> I2 \<Rightarrow> I2 option. agrees f op \<and> (\<forall>X lb nX. scalar_I2 op sc X lb nX = col2 (ewise2 (\<lambda>x (y :: I2). f x (sval_I2 sc))) X X lb nX)"
  by (elim insertE emptyE; hypsubst; rule exI; rule conjI, rule agrees_I2, simp add: scalar_I2_kernels col1_col2)

lemma scalar_I2_eq: "num_scalar_vals sc = 1 \<Longrightarrow>
  \<exists>f :: I2 \<Rightarrow> I2 \<Rightarrow> I1 option. agrees f ''=='' \<and> (\<forall>X lb nX. scalar_I2 ''=='' sc X lb nX = col2 (ewise2 (\<lambda>x (y :: I2). f x (sval_I2 sc))) X X lb nX)"
  by (rule exI; rule conjI, rule agrees_all, simp add: scalar_I2_kernels col1_col2)

subsection \<open>The rows\<close>

definition scalar_ops :: "FLD_TYPE \<Rightarrow> string set" where
  "scalar_ops t = (case t of I4 \<Rightarrow> wide_ops \<union> cmp_ops | I8 \<Rightarrow> insert ''>>'' wide_ops \<union> cmp_ops | I1 \<Rightarrow> cmp_ops
     | I2 \<Rightarrow> {''+'', ''-'', ''*'', ''/'', ''%''} \<union> {''==''} | _ \<Rightarrow> {})"

definition scalar_row :: "FLD_TYPE \<Rightarrow> FLD_TYPE \<Rightarrow> string \<Rightarrow> byte list \<Rightarrow> int \<Rightarrow> nat \<Rightarrow> int" where
  "scalar_row t u op X c i = as_type u (the (int_op (width t) op (ints_of t X ! i) c))"

definition defined_scalar :: "FLD_TYPE \<Rightarrow> string \<Rightarrow> byte list \<Rightarrow> int \<Rightarrow> nat \<Rightarrow> bool" where
  "defined_scalar t op X c m \<longleftrightarrow> m \<le> length (ints_of t X) \<and> (\<forall>i < m. int_op (width t) op (ints_of t X ! i) c \<noteq> None)"

lemma scalar_computed:
  fixes f :: "'a::len word \<Rightarrow> 'a word \<Rightarrow> 'b::len word option"
  assumes f: "agrees f op" and k: "scalar_block alu t op sc X1 = (\<lambda>(lb, ub). col2 (ewise2 (\<lambda>x (y :: 'a word). f x (word_of_int c))) X1 X1 lb (ub - lb))"
    and t: "ints_of t = (\<lambda>X. map sint (view X :: 'a word list))" "width t = LENGTH('a)" "in_type t c"
    and u: "ints_of u = (\<lambda>X. map sint (view X :: 'b word list))" "as_type u = (\<lambda>z. sint (word_of_int z :: 'b word))" "whole_bytes TYPE('b word)"
    and bl: "chain 0 bl n" and def: "defined_scalar t op X1 c (nat n)" and out: "nat n \<le> length (ints_of u X)"
  shows "\<exists>X'. all_blocks (scalar_block alu t op sc X1) bl X = (Ret True, X') \<and> length X' = length X \<and>
    ints_of u X' = map (scalar_row t u op X1 c) [0..<nat n] @ drop (nat n) (ints_of u X)"
proof -
  let ?z = "\<lambda>i. the (int_op (width t) op (ints_of t X1 ! i) c)"
  have "0 \<le> n" using chain_le[OF bl] .
  have len: "nat n \<le> length (view X1 :: 'a word list)" "n \<le> int (length (view X :: 'b word list))"
    using def out unfolding defined_scalar_def t(1) u(1) length_map by linarith+
  have c: "sint (word_of_int c :: 'a word) = c" using t(2,3) by (simp add: in_type_def signed_take_bit_int_eq_self sint_sbintrunc')
  have "f (view X1 ! i) (word_of_int c) = Some (word_of_int (?z i))" if "i < nat n" for i
  proof -
    have r: "ints_of t X1 ! i = sint ((view X1 :: 'a word list) ! i)" using that len(1) unfolding t(1) by (simp del: length_view)
    moreover have "int_op (width t) op (ints_of t X1 ! i) c \<noteq> None" using def that by (simp add: defined_scalar_def)
    ultimately show ?thesis using f c unfolding agrees_def t(2) by auto
  qed
  then obtain X' where X': "all_blocks (scalar_block alu t op sc X1) bl X = (Ret True, X')" "length X' = length X"
    "view X' = map (\<lambda>i. word_of_int (?z i)) [0..<nat n] @ drop (nat n) (view X :: 'b word list)"
    using col2_blocks[OF bl u(3) len(1) len(1) len(2), of "\<lambda>x y. f x (word_of_int c)" "\<lambda>i. word_of_int (?z i)"] k by auto
  have "ints_of u X' = map (scalar_row t u op X1 c) [0..<nat n] @ drop (nat n) (ints_of u X)"
    unfolding u(1) X'(3) map_append drop_map map_map scalar_row_def u(2) comp_def ..
  then show ?thesis using X'(1,2) by blast
qed

lemma type_facts_I2: "ints_of I2 = (\<lambda>X. map sint (view X :: I2 list))" "width I2 = LENGTH(16)" "as_type I2 = (\<lambda>z. sint (word_of_int z :: I2))"
  by (simp_all add: fun_eq_iff ints_of_def width_def as_type_def)

lemma scalar_rows:
  assumes op: "op \<in> scalar_ops t" and ty: "get_type_op_fld ''f1s1opf2'' op t t aux = Ret (Some u)" and sc: "scalar_is t sc c" "in_type t c"
    and bl: "chain 0 bl n" and def: "defined_scalar t op X1 c (nat n)" and out: "nat n \<le> length (ints_of u X)"
  shows "\<exists>X'. all_blocks (scalar_block alu t op sc X1) bl X = (Ret True, X') \<and> length X' = length X \<and>
    ints_of u X' = map (scalar_row t u op X1 c) [0..<nat n] @ drop (nat n) (ints_of u X)"
proof -
  note ty_defs = get_type_op_fld_def type_f1f2_def wide_ops_def cmp_ops_def
  note rows = scalar_computed[OF _ _ _ _ sc(2) _ _ _ bl def out, where alu = alu and sc = sc] scalar_block_def type_facts type_facts_I2
  have one: "num_scalar_vals sc = 1" using sc(1) by (simp add: scalar_is_def)
  consider (w4) "t = I4" "op \<in> wide_ops" | (c4) "t = I4" "op \<in> cmp_ops" | (w8) "t = I8" "op \<in> insert ''>>'' wide_ops" | (c8) "t = I8" "op \<in> cmp_ops"
    | (c1) "t = I1" "op \<in> cmp_ops" | (a2) "t = I2" "op \<in> {''+'', ''-'', ''*'', ''/'', ''%''}" | (e2) "t = I2" "op = ''==''"
    using op by (auto simp: scalar_ops_def split: FLD_TYPE.splits)
  then show ?thesis
  proof cases
    case w4
    moreover have "u = I4" using w4 ty by (auto simp: ty_defs)
    moreover have "sval_I4 sc = word_of_int c" using sc(1) w4 by (simp add: scalar_is_def)
    ultimately show ?thesis using scalar_I4_wide[OF w4(2), of sc] by (elim exE conjE) (rule rows(1), auto simp: rows)
  next
    case c4
    moreover have "u = I1" using c4 ty by (auto simp: ty_defs)
    moreover have "sval_I4 sc = word_of_int c" using sc(1) c4 by (simp add: scalar_is_def)
    ultimately show ?thesis using scalar_I4_cmp[OF c4(2) one] by (elim exE conjE) (rule rows(1), auto simp: rows)
  next
    case w8
    moreover have "u = I8" using w8 ty by (auto simp: ty_defs)
    moreover have "sval_I8 sc = word_of_int c" using sc(1) w8 by (simp add: scalar_is_def)
    ultimately show ?thesis using scalar_I8_wide[OF w8(2), of sc] by (elim exE conjE) (rule rows(1), auto simp: rows)
  next
    case c8
    moreover have "u = I1" using c8 ty by (auto simp: ty_defs)
    moreover have "sval_I8 sc = word_of_int c" using sc(1) c8 by (simp add: scalar_is_def)
    ultimately show ?thesis using scalar_I8_cmp[OF c8(2), of sc] by (elim exE conjE) (rule rows(1), auto simp: rows)
  next
    case c1
    moreover have "u = I1" using c1 ty by (auto simp: ty_defs)
    moreover have "sval_I1 sc = word_of_int c" using sc(1) c1 by (simp add: scalar_is_def)
    ultimately show ?thesis using scalar_I1_cmp[OF c1(2) one] by (elim exE conjE) (rule rows(1), auto simp: rows)
  next
    case a2
    moreover have "u = I2" using a2 ty by (auto simp: ty_defs)
    moreover have "sval_I2 sc = word_of_int c" using sc(1) a2 by (simp add: scalar_is_def)
    ultimately show ?thesis using scalar_I2_arith[OF a2(2), of sc] by (elim exE conjE) (rule rows(1), auto simp: rows)
  next
    case e2
    moreover have "u = I1" using e2 ty by (auto simp: ty_defs)
    moreover have "sval_I2 sc = word_of_int c" using sc(1) e2 by (simp add: scalar_is_def)
    ultimately show ?thesis using scalar_I2_eq[OF one] by (elim exE conjE) (rule rows(1), auto simp: rows)
  qed
qed

end
