(* ===== verification/D_Single_Verb.thy ===== *)
theory D_Single_Verb
  imports D_Single_Proofs
begin

text \<open>
  The verb \<open>f1s1opf2\<close> over the store: its exact effect with one integer scalar on a field without an \<open>nn\<close> field, and the
  meta data it leaves on every outcome.
\<close>

subsection \<open>Both columns of the result\<close>

lemma assign_memcpy: "assign_I1 src nX = memcpy_I1 src nX"
  by (simp add: assign_I1_def memcpy_I1_def)

lemma nn_copy_block: "nn_copy nn_X = nn_block nn_X None"
  by (auto simp: fun_eq_iff nn_copy_def nn_block_def assign_memcpy Let_def split: option.splits)

text \<open>A loop that writes both columns block by block writes them as two loops would.\<close>

lemma two_columns:
  assumes "for_each f bl N = (Ret (), N')" and "all_blocks g bl X = (Ret b, X')"
  shows "all_blocks (\<lambda>x. seq (to_nn (f x)) (to_op (g x))) bl \<lparr>op_X = X, nn_op_X = N\<rparr> = (Ret b, \<lparr>op_X = X', nn_op_X = N'\<rparr>)"
  using assms
proof (induction bl arbitrary: N X b)
  case Nil
  then show ?case by (simp add: prog_defs)
next
  case (Cons x bl)
  obtain N1 where N1: "f x N = (Ret (), N1)" "for_each f bl N1 = (Ret (), N')"
    using Cons.prems(1) by (auto simp: seq_Ret)
  obtain ok X1 rest where X1: "g x X = (Ret ok, X1)" "all_blocks g bl X1 = (Ret rest, X')" "b = (ok \<and> rest)"
    using Cons.prems(2) by (auto simp: bind_Ret ret_def)
  show ?case using Cons.IH[OF N1(2) X1(2)] N1(1) X1(1,3) by (simp add: prog_defs to_nn_def to_op_def)
qed

lemma scalar_cols_run:
  assumes "op \<in> scalar_ops t" and "get_type_op_fld ''f1s1opf2'' op t t aux = Ret (Some u)" and "scalar_is t sc c" "in_type t c"
    and "chain 0 bl n" and "defined_scalar t op X1 c (nat n)" and "nat n \<le> length (ints_of u X)" and "nn_rows_ok nn_X None (nat n) N"
  shows "\<exists>X'. scalar_cols alu sc t X1 nn_X op bl \<lparr>op_X = X, nn_op_X = N\<rparr> = (Ret (), \<lparr>op_X = X', nn_op_X = nn_result nn_X None (nat n) N\<rparr>) \<and>
    length X' = length X \<and> ints_of u X' = map (scalar_row t u op X1 c) [0..<nat n] @ drop (nat n) (ints_of u X)"
proof -
  obtain X' where X': "all_blocks (scalar_block alu t op sc X1) bl X = (Ret True, X')" "length X' = length X"
    "ints_of u X' = map (scalar_row t u op X1 c) [0..<nat n] @ drop (nat n) (ints_of u X)"
    using scalar_rows[OF assms(1-7)] by blast
  have "scalar_cols alu sc t X1 nn_X op bl \<lparr>op_X = X, nn_op_X = N\<rparr> = (Ret (), \<lparr>op_X = X', nn_op_X = nn_result nn_X None (nat n) N\<rparr>)"
    using two_columns[OF nn_blocks[OF assms(5,8)] X'(1)] unfolding scalar_cols_def nn_copy_block by (simp add: bind_def guard_def ret_def)
  then show ?thesis using X'(2,3) by blast
qed

subsection \<open>One scalar\<close>

lemma scalar_result_type:
  assumes "op \<in> scalar_ops t" "get_type_op_fld ''f1s1opf2'' op t t aux = Ret (Some u)" "get_fld_sz u = Some sz"
  shows "t \<in> {I1, I2, I4, I8}" "u \<in> {I1, I2, I4, I8}" "0 < sz" "sz \<le> 8"
  using assms by (auto simp: scalar_ops_def get_type_op_fld_def type_f1f2_def wide_ops_def cmp_ops_def split: FLD_TYPE.splits if_splits)

lemma zero_rows:
  assumes "get_fld_sz u = Some sz" "u \<in> {I1, I2, I4, I8}" "0 < n"
  shows "length (ints_of u (replicate (nat (sz * n)) 0)) = nat n"
  using assms by (auto simp: ints_of_def nat_mult_distrib)

lemma dec_int_ne: "dec_int c \<noteq> []"
  using dec_nat_digits by (auto simp: dec_int_def)

lemma vec_f1s1opf2_run:
  assumes dirs: "dirs_ok s" and n: "0 < n" "n < 2 ^ 29"
    and op: "op \<in> scalar_ops ft" and u: "get_type_op_fld ''f1s1opf2'' op ft ft (Some []) = Ret (Some u)" "get_fld_sz u = Some sz"
    and c: "in_type ft c" and def: "defined_scalar ft op X1 c (nat n)"
    and space: "env_avail s (g_data_dir s) = Some sp" "sz * n < int sp" and tmp: "mkstemp_pick (files s) (g_data_dir s) (env_tmp s) = Some f"
  shows "\<exists>X. vec_f1s1opf2 fs alu n ft X1 None (dec_int c) op s =
      (Ret (f, -1, None, u), s\<lparr>files := (files s)(data_path s f := Some X), p_cwd := g_cwd s\<rparr>) \<and>
    ints_of u X = map (scalar_row ft u op X1 c) [0..<nat n] \<and> int (length X) = sz * n"
proof -
  note ty = scalar_result_type[OF op u]
  have big: "0 < sz * n" "sz * n \<le> 2 ^ 32 - 1"
    using n ty(3,4) mult_mono[of sz 8 n "2 ^ 29 - 1"] by (auto simp del: mult_le_cancel_left_pos)
  obtain sc where sc: "break_into_scalars fs (dec_int c) ft = Ret sc" "scalar_is ft sc c" using one_scalar[OF ty(1) c, of fs] by blast
  obtain block_size nT where p: "partition_work n 8192 (-1) = Some (block_size, nT)" using partition_unlimited[OF _ n(1), of 8192] n(2) by auto
  have bl: "chain 0 (blocks 0 n block_size nT) n" using blocks_chain[of n 0 8192 "-1" block_size nT] p by simp
  let ?X0 = "replicate (nat (sz * n)) 0 :: byte list"
  have m: "mk_map (nat (sz * n)) s = (Ret (f, -1, data_path s f, ?X0), s\<lparr>files := (files s)(data_path s f := Some ?X0), p_cwd := g_cwd s\<rparr>)"
    using mk_map_run[of s "nat (sz * n)" sp f] dirs big space tmp by simp
  obtain X where X: "scalar_cols alu sc ft X1 None op (blocks 0 n block_size nT) \<lparr>op_X = ?X0, nn_op_X = []\<rparr> = (Ret (), \<lparr>op_X = X, nn_op_X = []\<rparr>)"
    "length X = length ?X0" "ints_of u X = map (scalar_row ft u op X1 c) [0..<nat n]"
    using scalar_cols_run[OF op u(1) sc(2) c bl def, of ?X0 None "[]" alu] zero_rows[OF u(2) ty(2) n(1)]
    by (auto simp: nn_rows_ok_def nn_result_def)
  have "vec_f1s1opf2 fs alu n ft X1 None (dec_int c) op s = (Ret (f, -1, None, u), s\<lparr>files := (files s)(data_path s f := Some X), p_cwd := g_cwd s\<rparr>)"
    using sc(1) p u m X(1) by (simp add: vec_f1s1opf2_def bind_def seq_def ret_def lift_out_def of_option_def on_maps_def Let_def)
  then show ?thesis using X(2,3) big by (intro exI[of _ X]) simp
qed

lemma f1s1opf2_run:
  assumes f1: "plain_fld s x y1 t ft X1" and free: "free_name s x y2 t" and dirs: "dirs_ok s"
    and n: "n = nR (g_tbls s ! t)" "0 < n" "n < 2 ^ 29"
    and op: "op \<in> scalar_ops ft" and u: "get_type_op_fld ''f1s1opf2'' op ft ft (Some []) = Ret (Some u)" "get_fld_sz u = Some sz"
    and c: "in_type ft c" and def: "defined_scalar ft op X1 c (nat n)"
    and space: "env_avail s (g_data_dir s) = Some sp" "sz * n < int sp" and tmp: "mkstemp_pick (files s) (g_data_dir s) (env_tmp s) = Some f"
  shows "\<exists>i X. f1s1opf2 fs alu (Some x) (Some y1) (Some (dec_int c)) (Some op) (Some y2) s =
      (Ret (), s\<lparr>files := (files s)(data_path s f := Some X), p_cwd := g_cwd s, g_flds := (g_flds s)[i := new_fld (int t) y2 (-1) f u (-1)]\<rparr>) \<and>
    ints_of u X = map (scalar_row ft u op X1 c) [0..<nat n] \<and> int (length X) = sz * n \<and> i < length (g_flds s) \<and> fld_name (g_flds s ! i) = [] \<and>
    located (s\<lparr>files := (files s)(data_path s f := Some X), p_cwd := g_cwd s, g_flds := (g_flds s)[i := new_fld (int t) y2 (-1) f u (-1)]\<rparr>) x y2 t i"
proof -
  note ty = scalar_result_type[OF op u]
  have big: "0 < sz * n" using n(2) ty(3) by simp
  have op2: "op \<in> set f1s1_ops" using op by (auto simp: scalar_ops_def f1s1_ops_def wide_ops_def cmp_ops_def split: FLD_TYPE.splits)
  let ?s0 = "s\<lparr>p_cwd := g_cwd s\<rparr>"
  obtain X where v: "vec_f1s1opf2 fs alu n ft X1 None (dec_int c) op ?s0 =
      (Ret (f, -1, None, u), ?s0\<lparr>files := (files s)(data_path s f := Some X), p_cwd := g_cwd s\<rparr>)"
    and X: "ints_of u X = map (scalar_row ft u op X1 c) [0..<nat n]" "int (length X) = sz * n"
    using vec_f1s1opf2_run[of ?s0 n op ft u sz c X1 sp f fs alu] dirs n op u c def space tmp by auto
  let ?s2 = "s\<lparr>files := (files s)(data_path s f := Some X), p_cwd := g_cwd s\<rparr>"
  have free2: "free_name ?s2 x y2 t" and dirs2: "dirs_ok ?s2" using free dirs by simp_all
  have "X \<noteq> []" "int (length X) = sz * nR (g_tbls ?s2 ! t)" using X(2) n big by auto
  then obtain i where i: "add_fld (int t) (Some y2) (-1) f u (-1) ?s2 = (Ret (int i, new_fld (int t) y2 (-1) f u (-1)),
      ?s2\<lparr>p_cwd := g_cwd ?s2, g_flds := (g_flds ?s2)[i := new_fld (int t) y2 (-1) f u (-1)]\<rparr>)"
    "located (?s2\<lparr>p_cwd := g_cwd ?s2, g_flds := (g_flds ?s2)[i := new_fld (int t) y2 (-1) f u (-1)]\<rparr>) x y2 t i" "i < length (g_flds s)" "fld_name (g_flds s ! i) = []"
    using add_fld_run[OF free2 dirs2, of f X sz u] tempfile_name(1)[OF _ tmp] free u(2) ty(2) by (auto simp: data_path_def free_name_def)
  have ne: "x \<noteq> []" "y1 \<noteq> []" "y2 \<noteq> []" "op \<noteq> []" "dec_int c \<noteq> []" "in_range (int t) (g_tbls s)"
    using free f1 op2 by (auto simp: free_name_def chk_fld_name_def in_range_def plain_fld_def located_def f1s1_ops_def dec_int_ne)
  have "f1s1opf2 fs alu (Some x) (Some y1) (Some (dec_int c)) (Some op) (Some y2) s =
      (Ret (), ?s2\<lparr>p_cwd := g_cwd ?s2, g_flds := (g_flds ?s2)[i := new_fld (int t) y2 (-1) f u (-1)]\<rparr>)"
    using ne v i(1) op2 free_name_is_tbl[OF free] n(1) fld_data_run[OF f1 dirs]
    by (simp add: f1s1opf2_def bind_def seq_def ret_def arg_given_def chk_tbl_range_def tbl_at_def of_option_def guard_def within_def gets_def)
  then show ?thesis using i(2-4) X by (intro exI[of _ i] exI[of _ X]) simp
qed

text \<open>C11: The verb \<open>f1s1opf2\<close> with one scalar, on an integer field without an \<open>nn\<close> field, for the operators of \<open>scalar_ops\<close>: arithmetic, bit
  operators, the left shift and comparisons on \<open>I4\<close> and \<open>I8\<close>, the right shift on \<open>I8\<close> only (on \<open>I4\<close> the code writes through a null pointer), comparisons
  on \<open>I1\<close>, arithmetic and equality on \<open>I2\<close>.  The scalar is given in decimal and lies
  in the range of the type of the field, and the table has fewer than \<open>2^29\<close> rows.  With a free name for the result, a free slot, room on the disk and an
  operation that has a value in every row, the verb succeeds.  The state afterwards is the state before with one new file and one empty
  slot of the field table filled with the record of the new field, of the type \<open>get_type_op_fld\<close> says, and nothing else changed but the
  current directory.  The rows of the new field are the operation on the rows of the field and the scalar, wrapped to that type.\<close>

theorem f1s1opf2_adds:
  assumes "plain_fld s x y1 t ft X1" "free_name s x y2 t" "dirs_ok s" and "n = nR (g_tbls s ! t)" "0 < n" "n < 2 ^ 29"
    and "op \<in> scalar_ops ft" "get_type_op_fld ''f1s1opf2'' op ft ft (Some []) = Ret (Some u)" "get_fld_sz u = Some sz"
    and "in_type ft c" "defined_scalar ft op X1 c (nat n)" and "env_avail s (g_data_dir s) = Some sp" "sz * n < int sp"
    and "mkstemp_pick (files s) (g_data_dir s) (env_tmp s) = Some f"
  shows "\<exists>s2 i X. f1s1opf2 fs alu (Some x) (Some y1) (Some (dec_int c)) (Some op) (Some y2) s = (Ret (), s2) \<and>
    s2 = s\<lparr>files := (files s)(data_path s f := Some X), p_cwd := g_cwd s, g_flds := (g_flds s)[i := new_fld (int t) y2 (-1) f u (-1)]\<rparr> \<and>
    i < length (g_flds s) \<and> fld_name (g_flds s ! i) = [] \<and> files s (data_path s f) = None \<and>
    plain_fld s2 x y2 t u X \<and> ints_of u X = map (scalar_row ft u op X1 c) [0..<nat n] \<and>
    plain_fld s2 x y1 t ft X1 \<and> (\<forall>p. files s p \<noteq> None \<longrightarrow> files s2 p = files s p)"
proof -
  obtain i X where run: "f1s1opf2 fs alu (Some x) (Some y1) (Some (dec_int c)) (Some op) (Some y2) s =
      (Ret (), s\<lparr>files := (files s)(data_path s f := Some X), p_cwd := g_cwd s, g_flds := (g_flds s)[i := new_fld (int t) y2 (-1) f u (-1)]\<rparr>)"
    and X: "ints_of u X = map (scalar_row ft u op X1 c) [0..<nat n]" "int (length X) = sz * n" and i: "i < length (g_flds s)" "fld_name (g_flds s ! i) = []"
    and loc: "located (s\<lparr>files := (files s)(data_path s f := Some X), p_cwd := g_cwd s, g_flds := (g_flds s)[i := new_fld (int t) y2 (-1) f u (-1)]\<rparr>) x y2 t i"
    using f1s1opf2_run[OF assms, of fs alu] by blast
  let ?s2 = "s\<lparr>files := (files s)(data_path s f := Some X), p_cwd := g_cwd s, g_flds := (g_flds s)[i := new_fld (int t) y2 (-1) f u (-1)]\<rparr>"
  have fresh: "files s (data_path s f) = None" using mkstemp_pick_name(2)[OF assms(14)] by (simp add: data_path_def)
  then have files: "\<forall>p. files s p \<noteq> None \<longrightarrow> files ?s2 p = files s p" by auto
  have f: "f \<noteq> []" using tempfile_name(2)[OF _ assms(14)] assms(2) by (simp add: free_name_def)
  have "0 < sz * n" using assms(5) scalar_result_type(3)[OF assms(7-9)] by simp
  then have "X \<noteq> []" using X(2) by auto
  then have "plain_fld ?s2 x y2 t u X" by (intro plain_fld_new[OF loc _ i(1) _ _ f]) simp_all
  moreover have "plain_fld ?s2 x y1 t ft X1" using plain_fld_kept[OF assms(1) i(2) loc _ _ _ files] by simp
  ultimately show ?thesis using run X(1) i fresh files by blast
qed

definition no_fscan :: fscan where
  "no_fscan = \<lparr>strtod_F8 = (\<lambda>s. (0, s)), less_F8 = (\<lambda>_ _. False), F8_to_F4 = (\<lambda>_. 0), qsort_F8 = (\<lambda>vs. vs)\<rparr>"

theorem f1s1opf2_adds_witness:
  "\<exists>s2 X. f1s1opf2 no_fscan no_alu (Some ''t1'') (Some ''a'') (Some (dec_int 2)) (Some ''*'') (Some ''c'') sample_two = (Ret (), s2) \<and>
    plain_fld s2 ''t1'' ''c'' 0 I4 X \<and> ints_of I4 X = [2, 4, 6, -2]"
proof -
  let ?X1 = "unview [1, 2, 3, 2147483647 :: I4]"
  have n: "4 = nR (g_tbls sample_two ! 0)" "(0 :: int) < 4" "(4 :: int) < 2 ^ 29" by simp_all
  have o: "''*'' \<in> scalar_ops I4" by (simp add: scalar_ops_def wide_ops_def)
  have t: "get_type_op_fld ''f1s1opf2'' ''*'' I4 I4 (Some []) = Ret (Some I4)" "get_fld_sz I4 = Some 4" by (simp_all add: get_type_op_fld_def type_f1f2_def)
  have c: "in_type I4 2" by (simp add: in_type_def width_def)
  have i: "ints_of I4 ?X1 = [1, 2, 3, 2147483647]" by (simp add: ints_of_def)
  have d: "defined_scalar I4 ''*'' ?X1 2 (nat 4)" by (simp add: defined_scalar_def i int_op_def)
  have a: "env_avail sample_two (g_data_dir sample_two) = Some 1000" "4 * 4 < int 1000" by simp_all
  have m: "mkstemp_pick (files sample_two) (g_data_dir sample_two) (env_tmp sample_two) = Some ''_tempf_aaaaaa''" by (simp add: resolve_def)
  obtain s2 X where s2: "f1s1opf2 no_fscan no_alu (Some ''t1'') (Some ''a'') (Some (dec_int 2)) (Some ''*'') (Some ''c'') sample_two = (Ret (), s2)"
    "plain_fld s2 ''t1'' ''c'' 0 I4 X" "ints_of I4 X = map (scalar_row I4 I4 ''*'' ?X1 2) [0..<nat 4]"
    using f1s1opf2_adds[OF sample_two_ok(3,2,1) n o t c d a m, of no_fscan no_alu] by blast
  have "map (scalar_row I4 I4 ''*'' ?X1 2) [0..<nat 4] = [2, 4, 6, -2]"
    by (simp add: scalar_row_def i int_op_def width_def as_type_def eval_nat_numeral)
  then show ?thesis using s2 by (intro exI[of _ s2] exI[of _ X]) simp
qed

subsection \<open>The meta data\<close>

lemma files_only_vec [file_steps]: "files_only (vec_f1s1opf2 fs alu n ft X nn_X str op)"
  unfolding vec_f1s1opf2_def Let_def by (auto intro!: file_steps split: option.splits)

lemma vec_f1s1opf2_result:
  assumes inv: "meta_inv s" and run: "vec_f1s1opf2 fs alu n ft X nn_X str op s = (Ret (opfile, d, nn_map, u), s')"
  shows "ddir_ok s d" and "nn_map = Some (f, e, p, N) \<Longrightarrow> ddir_ok s e \<and> length f \<le> MAX_LEN_FILE_NAME"
proof -
  let ?nn = "if nn_X = None then ret None else bind (mk_map (nat n)) (\<lambda>m. ret (Some m))"
  obtain k path X0 s1 s2 where st: "mk_map k s = (Ret (opfile, d, path, X0), s1)" "?nn s1 = (Ret nn_map, s2)"
    using run unfolding vec_f1s1opf2_def Let_def
    by (clarsimp simp: bind_Ret lift_out_def of_option_def bye_def split: option.split_asm)
      (clarsimp simp: bind_Ret seq_Ret ret_def fault_def, blast)+
  show "ddir_ok s d" by (rule mk_map_result(1)[OF inv st(1)])
  have s1: "meta_of s1 = meta_of s" using st(1) files_only_Ret[of "mk_map k" s "Ret (opfile, d, path, X0)" s1] by (simp add: file_steps)
  then have "meta_inv s1" using inv meta_inv_meta_of by blast
  then show "ddir_ok s e \<and> length f \<le> MAX_LEN_FILE_NAME" if "nn_map = Some (f, e, p, N)"
    using mk_map_result[of s1 "nat n" f e p N s2] st(2) that ddir_ok_meta_of[OF s1] by (auto simp: bind_Ret ret_def split: if_splits)
qed

text \<open>C12: The verb \<open>f1s1opf2\<close> leaves consistent meta data whatever happens, for every field type, operator and scalar text: on success, on every
  error, and also when the scalars overflow their arrays or a kernel reads or writes outside a column.\<close>

theorem f1s1opf2_keeps_meta_inv:
  assumes "meta_inv s"
  shows "meta_inv (snd (f1s1opf2 fs alu tbl f1 str op f2 s))"
proof -
  have "keeps_inv (f1s1opf2 fs alu tbl f1 str op f2) s" unfolding f1s1opf2_def
  proof (rule keeps_arg[OF assms], rule keeps_arg[OF assms], rule keeps_arg[OF assms], rule keeps_arg[OF assms], rule keeps_arg[OF assms],
      rule is_tbl_keeps[OF assms], goal_cases)
    case (1 x y1 str' y2 o' tid)
    then have t: "live_tbl (g_tbls s) tid" "0 \<le> tid" by (auto simp: live_tbl_def in_range_def)
    show ?case
    proof (rule keeps_bind_files, rule file_steps, rule assms, rule fld_data_keeps[OF _ t(2) 1(3)], assumption, clarify,
        rule keeps_seq_files, rule file_steps, assumption, rule keeps_bind_files, rule file_steps, assumption, clarify, goal_cases)
      case prems: (1 tr s1 ft f1_X nn_X s2 s3 opfile d nn_map u s4)
      then have s4: "meta_of s4 = meta_of s3" "meta_of s4 = meta_of s" by simp_all
      note res = vec_f1s1opf2_result[OF _ prems(9)]
      show ?case unfolding 1(7)
        by (rule keeps_add_fld) (use prems t(1) live_meta_of[OF s4(2)] res ddir_ok_meta_of[OF s4(1)] in simp_all)
    qed
  qed (use assms in auto)
  then show ?thesis by (simp add: keeps_inv_def)
qed

theorem f1s1opf2_keeps_meta_inv_witness:
  "meta_inv (snd (f1s1opf2 no_fscan no_alu (Some ''t1'') (Some ''a'') (Some ''1:2'') (Some ''=='') (Some ''c'') sample_state))"
  by (rule f1s1opf2_keeps_meta_inv[OF sample_inv])

end
