(* ===== verification/D_Join.thy ===== *)
theory D_Join
  imports D_Keep K_Join
begin

text \<open>
  The verb \<open>srt_join\<close> (\<open>dir_wr_verbs/srt_join.c\<close>) over the store: it looks up the fields, asks \<open>f_to_s\<close> whether the link fields are in
  ascending order, maps the columns, makes the files of the values and of the \<open>nn\<close> column, joins block by block with the kernel
  of the three types, and adds the field, with an \<open>nn\<close> field when a row was not found.
\<close>

subsection \<open>Temporary files whose status is not looked at\<close>

text \<open>What a call of \<open>open_temp_file\<close> leaves in the buffer for the name (\<open>None\<close>: not initialised), and whether it succeeds.\<close>

definition open_temp_left :: "string \<Rightarrow> string \<Rightarrow> nat \<Rightarrow> (string option \<times> bool) q_prog" where
  "open_temp_left cwd dir filesize =
     bind (ignore (if filesize > 0 then bind (avail_space dir) (\<lambda>space_available. guard (space_available > filesize)) else ret ())) (\<lambda>r.
     if r = None then ret (None, False) else
     bind (chdir dir) (\<lambda>ok. if \<not> ok then ret (None, False) else
     bind mkstemp (\<lambda>fname.
     bind (chdir cwd) (\<lambda>back.
     ret (Some fname, back)))))"

definition mk_temp_left :: "nat \<Rightarrow> (string option \<times> int) q_prog" where
  "mk_temp_left filesz =
     bind (gets g_alt_ddir_id) (\<lambda>alt.
     bind (ignore (if alt < 0 then bind (gets g_data_dir) (\<lambda>d. ret (d, -1))
           else bind (ddir_at alt) (\<lambda>dir.
             if filesz > 0 then bind (get_free_space dir) (\<lambda>free_space.
               ret (dir, if free_space < filesz then -1 else alt))
             else ret (dir, alt)))) (\<lambda>r. case r of None \<Rightarrow> ret (None, INT_MAX) | Some (dir, d) \<Rightarrow>
     bind (gets g_cwd) (\<lambda>cwd.
     bind (open_temp_left cwd dir filesz) (\<lambda>(opfile, ok). case opfile of None \<Rightarrow> ret (None, d) | Some f \<Rightarrow>
     if ok then bind (ignore (mk_file cwd dir f filesz)) (\<lambda>_. ret (Some f, d)) else ret (Some f, d)))))"

definition named :: "string option \<Rightarrow> string q_prog" where
  "named f = (case f of None \<Rightarrow> fault | Some x \<Rightarrow> ret x)"

subsection \<open>The blocks\<close>

text \<open>The mapped output files and the flag.  A kernel gets the values as an array of its own type.\<close>

record join_cols =
  jc_val :: "byte list"
  jc_nn :: "byte list"
  jc_any :: bool

definition on_join :: "('v::len word, unit) join_prog \<Rightarrow> (join_cols, unit) prog" where
  "on_join p = (\<lambda>c. case p \<lparr>j_val = view (jc_val c), j_nn = jc_nn c, j_any_null = jc_any c\<rparr> of (r, s) \<Rightarrow>
     let new = unview (j_val s) in (r, \<lparr>jc_val = new @ drop (length new) (jc_val c), jc_nn = j_nn s, jc_any = j_any_null s\<rparr>))"

text \<open>The types are those of the source link, the value and the destination link; the status of a kernel is not looked at.\<close>

definition join_block :: "FLD_TYPE \<Rightarrow> FLD_TYPE \<Rightarrow> FLD_TYPE \<Rightarrow> byte list \<Rightarrow> byte list option \<Rightarrow> nat \<Rightarrow> byte list \<Rightarrow> int \<Rightarrow> int \<times> int \<Rightarrow> (join_cols, unit) prog" where
  "join_block sl sv dl src_lnk_X src_val_X src_nR dst_lnk_X op = (\<lambda>(lb, ub). let core = (\<lambda>p. bind (ignore p) (\<lambda>_. ret ())) in
     case (sl, sv, dl) of
       (I4, I4, I4) \<Rightarrow> core (on_join (core_srt_join_I_I_I (view src_lnk_X) (map_option view src_val_X) src_nR (view dst_lnk_X) (nat lb) (nat ub) op))
     | (I4, I4, I8) \<Rightarrow> core (on_join (core_srt_join_I_I_L (view src_lnk_X) (map_option view src_val_X) src_nR (view dst_lnk_X) (nat lb) (nat ub) op))
     | (I4, I8, I4) \<Rightarrow> core (on_join (core_srt_join_I_L_I (view src_lnk_X) (map_option view src_val_X) src_nR (view dst_lnk_X) (nat lb) (nat ub) op))
     | (I4, I8, I8) \<Rightarrow> core (on_join (core_srt_join_I_L_L (view src_lnk_X) (map_option view src_val_X) src_nR (view dst_lnk_X) (nat lb) (nat ub) op))
     | (I8, I4, I4) \<Rightarrow> core (on_join (core_srt_join_L_I_I (view src_lnk_X) (map_option view src_val_X) src_nR (view dst_lnk_X) (nat lb) (nat ub) op))
     | (I8, I4, I8) \<Rightarrow> core (on_join (core_srt_join_L_I_L (view src_lnk_X) (map_option view src_val_X) src_nR (view dst_lnk_X) (nat lb) (nat ub) op))
     | (I8, I8, I4) \<Rightarrow> core (on_join (core_srt_join_L_L_I (view src_lnk_X) (map_option view src_val_X) src_nR (view dst_lnk_X) (nat lb) (nat ub) op))
     | (I8, I8, I8) \<Rightarrow> core (on_join (core_srt_join_L_L_L (view src_lnk_X) (map_option view src_val_X) src_nR (view dst_lnk_X) (nat lb) (nat ub) op))
     | _ \<Rightarrow> bye)"

definition on_join_maps :: "string \<Rightarrow> string \<Rightarrow> byte list \<Rightarrow> byte list \<Rightarrow> (join_cols, unit) prog \<Rightarrow> bool q_prog" where
  "on_join_maps path nn_path X N p = (\<lambda>s. case p \<lparr>jc_val = X, jc_nn = N, jc_any = False\<rparr> of (r, c) \<Rightarrow>
     ((case r of Ret _ \<Rightarrow> Ret (jc_any c) | Bye \<Rightarrow> Bye | Fault \<Rightarrow> Fault),
      s\<lparr>files := (files s)(path := Some (jc_val c), nn_path := Some (jc_nn c))\<rparr>))"

subsection \<open>The verb\<close>

definition val_given :: "string option \<Rightarrow> bool" where
  "val_given x = (case x of None \<Rightarrow> False | Some y \<Rightarrow> y \<noteq> [])"

definition join_fld :: "int \<Rightarrow> string option \<Rightarrow> FLD_REC q_prog" where
  "join_fld tid f = bind (is_fld None tid f) (\<lambda>((f_id, f_rec), _). seq (chk_fld_range f_id) (ret f_rec))"

definition chk_ascending :: "'d fpu \<Rightarrow> int \<Rightarrow> string option \<Rightarrow> string option \<Rightarrow> unit q_prog" where
  "chk_ascending fpu g_num_cores tbl fld =
     bind (ext_f_to_s fpu g_num_cores tbl fld (Some ''is_sorted'')) (\<lambda>str_rslt. guard (str_rslt = ''ascending''))"

text \<open>The files of the result, from the choice of its type on.\<close>

definition join_store :: "FLD_TYPE \<Rightarrow> FLD_TYPE \<Rightarrow> FLD_TYPE \<Rightarrow> byte list \<Rightarrow> byte list option \<Rightarrow> int \<Rightarrow> byte list \<Rightarrow> int \<Rightarrow> int \<Rightarrow> int \<Rightarrow> string option \<Rightarrow> unit q_prog" where
  "join_store sl sv dl src_lnk_X src_val_X src_nR dst_lnk_X dst_nR ijoin_op dst_tid dst_val =
     bind (of_option (get_fld_sz sv)) (\<lambda>fldsz.
     bind (mk_temp_left (nat (fldsz * dst_nR))) (\<lambda>(opfile, d).
     bind (of_option (get_fld_sz I1)) (\<lambda>nn_sz.
     bind (mk_temp_left (nat (nn_sz * dst_nR))) (\<lambda>(nn_opfile, nn_d).
     bind (named opfile) (\<lambda>f.
     bind (q_mmap d f True) (\<lambda>(path, X).
     bind (named nn_opfile) (\<lambda>nn_f.
     bind (q_mmap nn_d nn_f True) (\<lambda>(nn_path, N).
     bind (of_option (partition_work dst_nR 1024 (-1))) (\<lambda>(block_size, nT).
     bind (on_join_maps path nn_path X N
       (for_each (join_block sl sv dl src_lnk_X src_val_X (nat src_nR) dst_lnk_X ijoin_op) (blocks 0 dst_nR block_size nT))) (\<lambda>is_any_null.
     bind (add_fld dst_tid dst_val d f sv (-1)) (\<lambda>(dst_val_id, dst_val_rec).
     if is_any_null then bind (add_aux_fld None dst_tid None dst_val_id nn_d (Some nn_f) (Some ''nn'')) (\<lambda>_. ret ())
     else unlink nn_f)))))))))))"

definition srt_join :: "'d fpu \<Rightarrow> int \<Rightarrow> string option \<Rightarrow> string option \<Rightarrow> string option \<Rightarrow> string option \<Rightarrow> string option \<Rightarrow> string option \<Rightarrow> string option \<Rightarrow> unit q_prog" where
  "srt_join fpu g_num_cores src_tbl src_lnk src_val dst_tbl dst_lnk dst_val op =
     bind (of_option (mk_mjoin_op op)) (\<lambda>ijoin_op.
     seq (guard (val_given src_val \<noteq> (op = Some ''cnt'')))
    (bind (is_tbl src_tbl) (\<lambda>(src_tid, src_tbl_rec).
     seq (chk_tbl_range src_tid)
    (bind (tbl_at src_tid) (\<lambda>src.
     bind (is_tbl dst_tbl) (\<lambda>(dst_tid, dst_tbl_rec).
     seq (chk_tbl_range dst_tid)
    (bind (tbl_at dst_tid) (\<lambda>dst.
     bind (join_fld src_tid src_lnk) (\<lambda>sl_rec.
     bind (if val_given src_val then join_fld src_tid src_val else ret zero_fld_rec) (\<lambda>sv_rec.
     bind (join_fld dst_tid dst_lnk) (\<lambda>dl_rec.
     seq (chk_ascending fpu g_num_cores src_tbl src_lnk)
    (seq (chk_ascending fpu g_num_cores dst_tbl dst_lnk)
    (bind (get_data sl_rec False) (\<lambda>(sl_path, src_lnk_X).
     bind (if val_given src_val then bind (get_data sv_rec False) (\<lambda>(sv_path, X). ret (Some X)) else ret None) (\<lambda>src_val_X.
     bind (get_data dl_rec False) (\<lambda>(dl_path, dst_lnk_X).
     join_store (fldtype sl_rec)
       (if ijoin_op = MJOIN_OP_CNT then (if nR src < INT_MAX then I4 else I8) else fldtype sv_rec) (fldtype dl_rec)
       src_lnk_X src_val_X (nR src) dst_lnk_X (nR dst) ijoin_op dst_tid dst_val))))))))))))))))"

end
