(* ===== verification/D_Join_Proofs.thy ===== *)
theory D_Join_Proofs
  imports D_Join
begin

text \<open>
  What \<open>srt_join\<close> computes: the kernels on the mapped bytes, joined block by block, against a specification on integers.
\<close>

unbundle bit_operations_syntax

subsection \<open>Names that are left behind\<close>

lemma ignore_Ret: "ignore p s = (Ret (Some a), s') \<longleftrightarrow> p s = (Ret a, s')"
  by (auto simp: ignore_def split: prod.splits outcome.splits)

lemma open_temp_left_run:
  assumes "open_temp_file cwd dir n s = (Ret f, s')"
  shows "open_temp_left cwd dir n s = (Ret (Some f, True), s')"
proof -
  let ?p = "if n > 0 then bind (avail_space dir) (\<lambda>space_available. guard (space_available > n)) else ret () :: unit q_prog"
  obtain s1 ok s2 s3 s4 b where st: "?p s = (Ret (), s1)" "chdir dir s1 = (Ret ok, s2)" "guard ok s2 = (Ret (), s3)" "mkstemp s3 = (Ret f, s4)"
    "chdir cwd s4 = (Ret b, s')" "b"
    using assms unfolding open_temp_file_def by (auto simp: seq_Ret bind_Ret ret_def guard_def bye_def split: if_splits)
  have "ignore ?p s = (Ret (Some ()), s1)" using st(1) by (simp add: ignore_Ret)
  moreover have "ok" "s3 = s2" using st(3) by (auto simp: guard_def ret_def bye_def split: if_splits)
  ultimately show ?thesis using st unfolding open_temp_left_def by (simp add: bind_def ret_def)
qed

lemma mk_temp_left_run:
  assumes "mk_temp_file n s = (Ret (f, d), s')"
  shows "mk_temp_left n s = (Ret (Some f, d), s')"
proof -
  let ?dir = "if g_alt_ddir_id s < 0 then bind (gets g_data_dir) (\<lambda>d. ret (d, -1))
      else bind (ddir_at (g_alt_ddir_id s)) (\<lambda>dir. if n > 0 then bind (get_free_space dir) (\<lambda>free_space.
        ret (dir, if free_space < n then -1 else g_alt_ddir_id s)) else ret (dir, g_alt_ddir_id s))"
  obtain dir s1 s2 where st: "?dir s = (Ret (dir, d), s1)" "open_temp_file (g_cwd s1) dir n s1 = (Ret f, s2)" "mk_file (g_cwd s1) dir f n s2 = (Ret (), s')"
    using assms unfolding mk_temp_file_def by (auto simp: seq_Ret bind_Ret ret_def gets_def)
  have "ignore ?dir s = (Ret (Some (dir, d)), s1)" "ignore (mk_file (g_cwd s1) dir f n) s2 = (Ret (Some ()), s')" using st by (simp_all add: ignore_Ret)
  then show ?thesis using open_temp_left_run[OF st(2)] unfolding mk_temp_left_def by (simp add: bind_def ret_def gets_def)
qed

subsection \<open>The specification\<close>

text \<open>The values of the source rows with a link; a missing value column counts as ones.\<close>

definition matching :: "int list \<Rightarrow> int list option \<Rightarrow> int \<Rightarrow> int list" where
  "matching src vals v = map (\<lambda>j. case vals of None \<Rightarrow> 1 | Some vs \<Rightarrow> vs ! j) (filter (\<lambda>j. src ! j = v) [0..<length src])"

text \<open>\<open>max\<close> starts at zero because its initialisation does nothing.\<close>

definition int_join :: "string \<Rightarrow> int list \<Rightarrow> int" where
  "int_join op ks = (if op = ''sum'' \<or> op = ''cnt'' then sum_list ks
     else if op = ''max'' then fold max ks 0
     else if op = ''or'' then fold (OR) ks 0
     else fold (\<lambda>k _. k) ks 0)"

definition join_ops :: "string set" where
  "join_ops = {''sum'', ''max'', ''or'', ''reg''}"

definition join_row_value :: "FLD_TYPE \<Rightarrow> string \<Rightarrow> int list \<Rightarrow> int list option \<Rightarrow> int \<Rightarrow> int" where
  "join_row_value sv op src vals v = as_type sv (int_join op (matching src vals v))"

lemma fold_sum: "fold (\<lambda>j a. a + (g j :: 'v::len word)) js a = a + sum_list (map g js)"
  by (induction js arbitrary: a) (simp_all add: algebra_simps)

lemma of_int_sum_list: "(of_int (sum_list ks) :: 'v::len word) = sum_list (map of_int ks)"
  by (induction ks) simp_all

lemma fold_sint:
  assumes "\<And>j a. sint (f j a :: 'v::len word) = h (k j) (sint a)"
  shows "sint (fold f js a) = fold h (map k js) (sint a)"
  using assms by (induction js arbitrary: a) simp_all

lemma sint_word: "sint (word_of_int (sint (w :: 'v::len word)) :: 'v word) = sint w"
  by simp

lemma row_value_int:
  fixes vals :: "'v::len word list option"
  assumes "(case vals of None \<Rightarrow> op = ''cnt'' | Some vs \<Rightarrow> op \<in> join_ops \<and> length vs = length src)" and "mk_mjoin_op (Some op) = Some iop"
  shows "sint (row_value iop src vals v) = sint (word_of_int (int_join op (matching src (map_option (map sint) vals) v)) :: 'v word)"
proof (cases vals)
  case None
  then have o: "op = ''cnt''" "iop = MJOIN_OP_CNT" using assms by (auto simp: mk_mjoin_op_def)
  have "join_step iop vals = (\<lambda>j a. a + 1)" by (simp add: fun_eq_iff join_step_def None o)
  then show ?thesis
    using fold_sum[of "\<lambda>_ :: nat. 1 :: 'v word"] by (simp add: row_value_def int_join_def matching_def None o of_int_sum_list comp_def)
next
  case (Some vs)
  let ?js = "filter (\<lambda>j. src ! j = v) [0..<length src]"
  have len: "length vs = length src" using assms(1) Some by simp
  have m: "matching src (map_option (map sint) vals) v = map (\<lambda>j. sint (vs ! j)) ?js" using len by (simp add: matching_def Some)
  consider "op = ''sum''" "iop = MJOIN_OP_SUM" | "op = ''max''" "iop = MJOIN_OP_MAX" | "op = ''or''" "iop = MJOIN_OP_OR" | "op = ''reg''" "iop = MJOIN_OP_REG"
    using assms Some by (auto simp: join_ops_def mk_mjoin_op_def)
  then show ?thesis
  proof cases
    case 1
    have "join_step iop vals = (\<lambda>j a. a + vs ! j)" by (simp add: fun_eq_iff join_step_def mjoin_def Some 1)
    then show ?thesis using fold_sum[of "\<lambda>j. vs ! j"] by (simp add: row_value_def int_join_def m 1 of_int_sum_list comp_def)
  next
    case 2
    have "sint (join_step iop vals j a) = max (sint (vs ! j)) (sint a)" for j a by (simp add: join_step_def mjoin_def Some 2 word_sless_alt)
    from fold_sint[where f = "join_step iop vals" and h = "max" and k = "\<lambda>j. sint (vs ! j)", OF this, of ?js 0] show ?thesis
      unfolding row_value_def m using 2 by (simp add: int_join_def) (metis sint_word)
  next
    case 3
    have "sint (join_step iop vals j a) = sint (vs ! j) OR sint a" for j a by (simp add: join_step_def mjoin_def Some 3 signed_or_eq or.commute)
    from fold_sint[where f = "join_step iop vals" and h = "(OR)" and k = "\<lambda>j. sint (vs ! j)", OF this, of ?js 0] show ?thesis
      unfolding row_value_def m using 3 by (simp add: int_join_def) (metis sint_word)
  next
    case 4
    have "sint (join_step iop vals j a) = (\<lambda>k _. k) (sint (vs ! j)) (sint a)" for j a by (simp add: join_step_def mjoin_def Some 4)
    from fold_sint[where f = "join_step iop vals" and h = "\<lambda>k _. k" and k = "\<lambda>j. sint (vs ! j)", OF this, of ?js 0] show ?thesis
      unfolding row_value_def m using 4 by (simp add: int_join_def) (metis sint_word)
  qed
qed

subsection \<open>The blocks\<close>

lemma wp_chain:
  assumes "chain a bl b" and "I a s" and "\<And>lb ub s. a \<le> lb \<Longrightarrow> lb < ub \<Longrightarrow> ub \<le> b \<Longrightarrow> I lb s \<Longrightarrow> wp (f (lb, ub)) (\<lambda>_. I ub) E s"
  shows "wp (for_each f bl) (\<lambda>_. I b) E s"
  using assms
proof (induction a bl b arbitrary: s rule: chain.induct)
  case (1 a b)
  then show ?case by (simp add: wp_simps)
next
  case (2 a lb ub bl b)
  then have c: "lb = a" "lb < ub" "chain ub bl b" and "ub \<le> b" using chain_le[of ub bl b] by auto
  have "wp (f (lb, ub)) (\<lambda>_. I ub) E s" using 2(4)[of lb ub s] c \<open>ub \<le> b\<close> 2(3) by simp
  then have "wp (f (lb, ub)) (\<lambda>_. wp (for_each f bl) (\<lambda>_. I b) E) E s"
    by (rule wp_mono) (use 2(1)[OF c(3)] 2(4) c in auto)
  then show ?case by (simp add: wp_seq)
qed

abbreviation cols_state :: "join_cols \<Rightarrow> 'v::len word join_state" where
  "cols_state c \<equiv> \<lparr>j_val = view (jc_val c), j_nn = jc_nn c, j_any_null = jc_any c\<rparr>"

lemma wp_on_join:
  fixes p :: "('v::len word, unit) join_prog"
  assumes w: "whole_bytes TYPE('v word)" and "wp p (\<lambda>_. joined op src vals dst ub 0) (\<lambda>_. False) (cols_state c)"
    and len: "length (view (jc_val c) :: 'v word list) = length dst"
  shows "wp (on_join p) (\<lambda>_ c'. joined op src vals dst ub 0 (cols_state c' :: 'v word join_state) \<and> length (jc_val c') = length (jc_val c)) (\<lambda>_. False) c"
proof -
  obtain s where s: "p (cols_state c) = (Ret (), s)" "joined op src vals dst ub 0 s"
    using assms(2) by (auto simp: wp_def split: prod.splits outcome.splits)
  let ?new = "unview (j_val s)"
  have l: "length (j_val s) = length dst" using s(2) by (simp add: joined_def)
  let ?k = "LENGTH('v) div 8"
  have k: "0 < ?k" "length (jc_val c) div ?k = length dst" using len w by (simp_all add: whole_bytes_def)
  then have eq: "length (jc_val c) = length dst * ?k + length (jc_val c) mod ?k" by (metis div_mult_mod_eq)
  then have le: "length ?new \<le> length (jc_val c)" using l by simp
  have "length (drop (length ?new) (jc_val c)) = length (jc_val c) mod ?k" using l eq by simp
  then have short: "length (drop (length ?new) (jc_val c)) < ?k" using k(1) by simp
  have "view (drop (length ?new) (jc_val c)) = ([] :: 'v word list)"
    using short by (subst view.simps) (simp add: Let_def)
  then have "view (?new @ drop (length ?new) (jc_val c)) = j_val s" using view_unview_append[OF w, of "j_val s"] by simp
  moreover have "joined op src vals dst ub 0 \<lparr>j_val = j_val s, j_nn = j_nn s, j_any_null = j_any_null s\<rparr>" using s(2) unfolding joined_def by simp
  ultimately show ?thesis using le unfolding wp_def on_join_def Let_def s(1) by simp
qed

lemma zero_bytes: "i < n * (LENGTH('v) div 8) \<Longrightarrow> unview (replicate n (0 :: 'v::len word)) ! i = 0"
proof -
  assume i: "i < n * (LENGTH('v) div 8)"
  have "set (unview (replicate n (0 :: 'v word))) \<subseteq> {0}" by (auto simp: unview_def le_bytes_def)
  moreover have "unview (replicate n (0 :: 'v word)) ! i \<in> set (unview (replicate n (0 :: 'v word)))" using i by (intro nth_mem) simp
  ultimately show ?thesis by blast
qed

text \<open>The eight kernels are one on the integers of the links.\<close>

definition join_types :: "FLD_TYPE set" where
  "join_types = {I4, I8}"

definition core_I4 :: "int list \<Rightarrow> I4 list option \<Rightarrow> nat \<Rightarrow> int list \<Rightarrow> nat \<Rightarrow> nat \<Rightarrow> int \<Rightarrow> (I4, unit) join_prog" where
  "core_I4 = core_srt_join 4294967295 INT_MAX INT_MIN"

definition core_I8 :: "int list \<Rightarrow> I8 list option \<Rightarrow> nat \<Rightarrow> int list \<Rightarrow> nat \<Rightarrow> nat \<Rightarrow> int \<Rightarrow> (I8, unit) join_prog" where
  "core_I8 = core_srt_join (- 1) LLONG_MAX LLONG_MIN"

lemma join_block_core:
  assumes "sl \<in> join_types" "dl \<in> join_types"
  shows "join_block sl I4 dl SL SV n DL op (lb, ub) =
      bind (ignore (on_join (core_I4 (ints_of sl SL) (map_option view SV) n (ints_of dl DL) (nat lb) (nat ub) op))) (\<lambda>_. ret ())"
    and "join_block sl I8 dl SL SV n DL op (lb, ub) =
      bind (ignore (on_join (core_I8 (ints_of sl SL) (map_option view SV) n (ints_of dl DL) (nat lb) (nat ub) op))) (\<lambda>_. ret ())"
  using assms by (auto simp: join_types_def join_block_def ints_of_def core_I4_def core_I8_def core_srt_join_I_I_I_def core_srt_join_I_I_L_def
    core_srt_join_I_L_I_def core_srt_join_I_L_L_def core_srt_join_L_I_I_def core_srt_join_L_I_L_def core_srt_join_L_L_I_def core_srt_join_L_L_L_def)

lemma all_joined:
  fixes core :: "int list \<Rightarrow> 'v::len word list option \<Rightarrow> nat \<Rightarrow> int list \<Rightarrow> nat \<Rightarrow> nat \<Rightarrow> int \<Rightarrow> ('v word, unit) join_prog"
  assumes w: "whole_bytes TYPE('v word)" and k: "core = core_srt_join and_n min_n max_n" "init_free and_n max_n iop" and ok: "src_ok iop src vals" and dst: "sorted dst"
    and bl: "chain 0 bl (int (length dst))" and X: "length X = length dst * (LENGTH('v) div 8)" "set X \<subseteq> {0}" and N: "length N = length dst"
  shows "wp (for_each (\<lambda>(lb, ub). bind (ignore (on_join (core src vals (length src) dst (nat lb) (nat ub) iop))) (\<lambda>_. ret ())) bl)
    (\<lambda>_ c. joined iop src vals dst (length dst) 0 (cols_state c :: 'v word join_state) \<and> length (jc_val c) = length X) (\<lambda>_. False)
    \<lparr>jc_val = X, jc_nn = N, jc_any = False\<rparr>"
proof -
  let ?I = "\<lambda>a c. joined iop src vals dst (nat a) 0 (cols_state c :: 'v word join_state) \<and> length (jc_val c) = length X"
  have len: "length (view Y :: 'v word list) = length dst" if "length Y = length X" for Y using w X(1) that by (simp add: whole_bytes_def)
  have "X = unview (replicate (length dst) (0 :: 'v word))"
    using X w by (intro nth_equalityI) (auto simp: subset_iff zero_bytes dest: nth_mem)
  then have "view X = replicate (length dst) (0 :: 'v word)" using w by simp
  then have start: "?I 0 \<lparr>jc_val = X, jc_nn = N, jc_any = False\<rparr>" using N by (simp add: joined_def)
  have "wp (for_each (\<lambda>(lb, ub). bind (ignore (on_join (core src vals (length src) dst (nat lb) (nat ub) iop))) (\<lambda>_. ret ())) bl)
      (\<lambda>_. ?I (int (length dst))) (\<lambda>_. False) \<lparr>jc_val = X, jc_nn = N, jc_any = False\<rparr>"
  proof (rule wp_chain[where I = ?I, OF bl start])
    fix lb ub c assume b: "0 \<le> lb" "lb < ub" "ub \<le> int (length dst)" and I: "?I lb c"
    have "wp (core src vals (length src) dst (nat lb) (nat ub) iop) (\<lambda>_. joined iop src vals dst (nat ub) 0) (\<lambda>_. False) (cols_state c)"
      unfolding k(1) using b I by (intro wp_core_srt_join[OF ok dst k(2)]) auto
    from wp_on_join[OF w this] len[of "jc_val c"] I
    show "wp ((\<lambda>(lb, ub). bind (ignore (on_join (core src vals (length src) dst (nat lb) (nat ub) iop))) (\<lambda>_. ret ())) (lb, ub)) (\<lambda>_. ?I ub) (\<lambda>_. False) c"
      by (auto simp: wp_simps elim!: wp_mono)
  qed
  then show ?thesis by simp
qed

lemma joined_cols:
  assumes "joined iop src vals dst (length dst) 0 (cols_state c :: 'v::len word join_state)"
  shows "map sint (view (jc_val c) :: 'v word list) = map (\<lambda>v. sint (row_value iop src vals v)) dst"
    and "jc_nn c = map (\<lambda>v. c_bool (v \<in> set src)) dst" and "jc_any c \<longleftrightarrow> \<not> set dst \<subseteq> set src"
proof -
  note j = assms[unfolded joined_def, simplified]
  show "map sint (view (jc_val c) :: 'v word list) = map (\<lambda>v. sint (row_value iop src vals v)) dst"
    by (intro nth_equalityI) (use j in \<open>simp_all del: length_view\<close>)
  show "jc_nn c = map (\<lambda>v. c_bool (v \<in> set src)) dst" by (intro nth_equalityI) (use j in simp_all)
  show "jc_any c \<longleftrightarrow> \<not> set dst \<subseteq> set src" using j by (auto simp: subset_iff in_set_conv_nth)
qed

definition join_source :: "FLD_TYPE \<Rightarrow> string \<Rightarrow> int list \<Rightarrow> byte list option \<Rightarrow> bool" where
  "join_source sv op src SV \<longleftrightarrow> sv \<in> join_types \<and>
     (case SV of None \<Rightarrow> op = ''cnt'' | Some V \<Rightarrow> op \<in> join_ops \<and> length (ints_of sv V) = length src)"

lemma source_ok:
  assumes "sorted src" and "case SV of None \<Rightarrow> op = ''cnt'' | Some V \<Rightarrow> op \<in> join_ops \<and> length (view V :: 'v::len word list) = length src"
    and "mk_mjoin_op (Some op) = Some iop" and "max_n \<le> 0"
  shows "src_ok iop src (map_option view SV :: 'v word list option)" "init_free and_n max_n iop"
    "sint (row_value iop src (map_option view SV :: 'v word list option) v) =
       sint (word_of_int (int_join op (matching src (map_option (\<lambda>V. map sint (view V :: 'v word list)) SV) v)) :: 'v word)"
  using assms row_value_int[where vals = "map_option view SV :: 'v word list option" and op = op and src = src and iop = iop and v = v]
  by (auto simp: src_ok_def init_free_def join_ops_def mk_mjoin_op_def option.map_comp comp_def split: option.splits simp del: length_view)

lemma join_blocks_typed:
  fixes core :: "int list \<Rightarrow> 'v::len word list option \<Rightarrow> nat \<Rightarrow> int list \<Rightarrow> nat \<Rightarrow> nat \<Rightarrow> int \<Rightarrow> ('v word, unit) join_prog"
  assumes k: "core = core_srt_join and_n min_n max_n" "max_n \<le> 0" and sv: "whole_bytes TYPE('v word)" "ints_of sv = (\<lambda>X. map sint (view X :: 'v word list))"
      "as_type sv = (\<lambda>z. sint (word_of_int z :: 'v word))" "sz = int (LENGTH('v) div 8)"
    and f: "f = (\<lambda>(lb, ub). bind (ignore (on_join (core src (map_option view SV) (length src) dst (nat lb) (nat ub) iop))) (\<lambda>_. ret ()))"
    and src: "join_source sv op src SV" and op: "mk_mjoin_op (Some op) = Some iop"
    and srt: "sorted src" "sorted dst" and n: "n = length dst" "chain 0 bl (int n)" "length N = n"
  shows "\<exists>c. for_each f bl \<lparr>jc_val = replicate (nat (sz * int n)) 0, jc_nn = N, jc_any = False\<rparr> = (Ret (), c) \<and> length (jc_val c) = nat (sz * int n) \<and>
    ints_of sv (jc_val c) = map (join_row_value sv op src (map_option (ints_of sv) SV)) dst \<and>
    jc_nn c = map (\<lambda>v. c_bool (v \<in> set src)) dst \<and> (jc_any c \<longleftrightarrow> \<not> set dst \<subseteq> set src)"
proof -
  let ?X = "replicate (nat (sz * int n)) 0 :: byte list"
  have s: "case SV of None \<Rightarrow> op = ''cnt'' | Some V \<Rightarrow> op \<in> join_ops \<and> length (view V :: 'v word list) = length src"
    using src unfolding join_source_def sv(2) by (auto split: option.splits simp del: length_view)
  note ok = source_ok[OF srt(1) s op k(2)]
  have X: "length ?X = length dst * (LENGTH('v) div 8)" "set ?X \<subseteq> {0}" using n(1) sv(4) by (auto simp: nat_mult_distrib)
  have "wp (for_each f bl) (\<lambda>_ c. joined iop src (map_option view SV) dst (length dst) 0 (cols_state c :: 'v word join_state) \<and>
      length (jc_val c) = length ?X) (\<lambda>_. False) \<lparr>jc_val = ?X, jc_nn = N, jc_any = False\<rparr>"
    unfolding f by (rule all_joined[OF sv(1) k(1) ok(2,1) srt(2) _ X]) (use n in simp_all)
  from wp_Ret_result[OF this] obtain c where c: "for_each f bl \<lparr>jc_val = ?X, jc_nn = N, jc_any = False\<rparr> = (Ret (), c)"
    "joined iop src (map_option view SV) dst (length dst) 0 (cols_state c :: 'v word join_state)" "length (jc_val c) = length ?X" by auto
  have "ints_of sv (jc_val c) = map (join_row_value sv op src (map_option (ints_of sv) SV)) dst"
    using joined_cols(1)[OF c(2)] unfolding join_row_value_def sv(2,3) ok(3) .
  then show ?thesis using c joined_cols(2,3)[OF c(2)] by (intro exI[of _ c]) simp
qed

lemma join_blocks_run:
  assumes t: "sl \<in> join_types" "dl \<in> join_types" and src: "join_source sv op (ints_of sl SL) SV" and op: "mk_mjoin_op (Some op) = Some iop"
    and srt: "sorted (ints_of sl SL)" "sorted (ints_of dl DL)" and n: "n = length (ints_of dl DL)" "chain 0 bl (int n)" "length N = n"
    and sz: "get_fld_sz sv = Some sz"
  shows "\<exists>c. for_each (join_block sl sv dl SL SV (length (ints_of sl SL)) DL iop) bl \<lparr>jc_val = replicate (nat (sz * int n)) 0, jc_nn = N, jc_any = False\<rparr> = (Ret (), c) \<and>
    length (jc_val c) = nat (sz * int n) \<and>
    ints_of sv (jc_val c) = map (join_row_value sv op (ints_of sl SL) (map_option (ints_of sv) SV)) (ints_of dl DL) \<and>
    jc_nn c = map (\<lambda>v. c_bool (v \<in> set (ints_of sl SL))) (ints_of dl DL) \<and> (jc_any c \<longleftrightarrow> \<not> set (ints_of dl DL) \<subseteq> set (ints_of sl SL))"
proof -
  consider (four) "sv = I4" "sz = 4" | (eight) "sv = I8" "sz = 8" using src sz by (auto simp: join_source_def join_types_def)
  then show ?thesis
  proof cases
    case four
    show ?thesis
      by (rule join_blocks_typed[OF core_I4_def _ _ _ _ _ _ src op srt n]) (simp_all add: four type_facts fun_eq_iff join_block_core(1)[OF t])
  next
    case eight
    show ?thesis
      by (rule join_blocks_typed[OF core_I8_def _ _ _ _ _ _ src op srt n]) (simp_all add: eight type_facts fun_eq_iff join_block_core(2)[OF t])
  qed
qed

end
