(* ===== verification/D_Join_Verb.thy ===== *)
theory D_Join_Verb
  imports D_Join_Proofs
begin

text \<open>
  The verb \<open>srt_join\<close> over the store: its exact effect on link fields that are in ascending order, and the meta data it leaves on every
  outcome.
\<close>

subsection \<open>Adding the \<open>nn\<close> field\<close>

lemma add_aux_fld_run:
  assumes dirs: "dirs_ok s" and t: "t < length (g_tbls s)" and i: "i < length (g_flds s)" "nn_fld_id (g_flds s ! i) < 0" "fld_name (g_flds s ! i) = y" "y \<noteq> []"
    and a: "mk_name_aux_fld (Some y) nn \<noteq> None" and f: "files s (data_path s f) = Some N" "nR (g_tbls s ! t) = int (length N)" "f \<noteq> []" "length f \<le> MAX_LEN_FILE_NAME"
    and free: "\<exists>j < length (g_flds s). fld_name (g_flds s ! j) = []"
  shows "\<exists>k < length (g_flds s). fld_name (g_flds s ! k) = [] \<and> add_aux_fld None (int t) None (int i) (-1) (Some f) (Some ''nn'') s = (Ret (int k),
    s\<lparr>p_cwd := g_cwd s, g_flds := (g_flds s)[i := (g_flds s ! i)\<lparr>nn_fld_id := int k\<rparr>, k := aux_rec (int i) (int t) y (-1) f]\<rparr>)"
proof -
  let ?s1 = "s\<lparr>p_cwd := g_cwd s\<rparr>"
  have name: "mk_name_aux_fld (Some y) nn = Some (''_nn_'' @ y)" using a by (auto split: if_splits)
  obtain k where k: "k < length (g_flds s)" "fld_name (g_flds s ! k) = []" "get_empty_fld (Some (''_nn_'' @ y)) ?s1 = (Ret (int k), ?s1)"
    using get_empty_fld_run[of ?s1 "Some (''_nn_'' @ y)"] free by auto
  have "i \<noteq> k" using k(2) i(3,4) by auto
  then have upd: "(g_flds s)[k := zero_fld_rec, i := (g_flds s ! i)\<lparr>nn_fld_id := int k\<rparr>, k := r] = (g_flds s)[i := (g_flds s ! i)\<lparr>nn_fld_id := int k\<rparr>, k := r]" for r
    by (simp add: list_update_swap)
  have "q_mmap (-1) f False s = (Ret (data_path s f, N), ?s1)" by (rule q_mmap_run[OF dirs f(1)])
  then have "link_aux (-1) f (int t, int i, nn_fld_id (g_flds s ! i)) s = (Ret (int k),
      s\<lparr>p_cwd := g_cwd s, g_flds := (g_flds s)[i := (g_flds s ! i)\<lparr>nn_fld_id := int k\<rparr>, k := aux_rec (int i) (int t) y (-1) f]\<rparr>)"
    using t i k name f(2,4) \<open>i \<noteq> k\<close>
    by (simp add: link_aux_def prog_defs tbl_at_def fld_at_def set_fld_def in_range_def upd aux_rec_def del: mk_name_aux_fld.simps)
  then have "add_aux_fld None (int t) None (int i) (-1) (Some f) (Some ''nn'') s = (Ret (int k),
      s\<lparr>p_cwd := g_cwd s, g_flds := (g_flds s)[i := (g_flds s ! i)\<lparr>nn_fld_id := int k\<rparr>, k := aux_rec (int i) (int t) y (-1) f]\<rparr>)"
    using i(1,2) f(3) by (simp add: add_aux_fld_def prog_defs arg_given_def fld_at_def in_range_def unstr_auxtype_def)
  then show ?thesis using k(1,2) by blast
qed

subsection \<open>The files of the result\<close>

lemma mkstemp_pick_contents: "mkstemp_pick (fs(p := Some a)) dir tmp = mkstemp_pick (fs(p := Some b)) dir tmp"
  by (induction tmp) auto

text \<open>What the join leaves: the new field, the file of its rows and the file of the \<open>nn\<close> column; without rows that are not found the
  name of the latter is unlinked in the working directory.\<close>

definition join_effect :: "q_state \<Rightarrow> nat \<Rightarrow> string \<Rightarrow> FLD_TYPE \<Rightarrow> string \<Rightarrow> string \<Rightarrow> bool \<Rightarrow> byte list \<Rightarrow> byte list \<Rightarrow> q_state \<Rightarrow> bool" where
  "join_effect s t y sv f f' found X N s2 \<longleftrightarrow> (\<exists>i k. i < length (g_flds s) \<and> fld_name (g_flds s ! i) = [] \<and> k < length (g_flds s) \<and> fld_name (g_flds s ! k) = [] \<and> k \<noteq> i \<and>
     (let fs = (files s)(data_path s f := Some X, data_path s f' := Some N); r = new_fld (int t) y (-1) f sv (-1) in
      s2 = (if found then s\<lparr>files := fs(resolve (g_cwd s) f' := None), p_cwd := g_cwd s, g_flds := (g_flds s)[i := r]\<rparr>
        else s\<lparr>files := fs, p_cwd := g_cwd s, g_flds := (g_flds s)[i := r\<lparr>nn_fld_id := int k\<rparr>, k := aux_rec (int i) (int t) y (-1) f']\<rparr>)))"

lemma join_effect_cwd [simp]: "join_effect (s\<lparr>p_cwd := c\<rparr>) t y sv f f' found X N s2 = join_effect s t y sv f f' found X N s2"
  by (simp add: join_effect_def Let_def)

lemma join_store_run:
  assumes ty: "sl \<in> join_types" "dl \<in> join_types" and src: "join_source sv op (ints_of sl SL) SV" and op: "mk_mjoin_op (Some op) = Some iop"
    and srt: "sorted (ints_of sl SL)" "sorted (ints_of dl DL)" and sz: "get_fld_sz sv = Some sz"
    and free: "free_name s x y t" and dirs: "dirs_ok s" and n: "n = nR (g_tbls s ! t)" "0 < n" "n < 2 ^ 29" "nat n = length (ints_of dl DL)"
    and space: "env_avail s (g_data_dir s) = Some sp" "sz * n < int sp" and tmp: "mkstemp_pick (files s) (g_data_dir s) (env_tmp s) = Some f"
    and tmp': "mkstemp_pick ((files s)(data_path s f := Some [])) (g_data_dir s) (env_tmp s) = Some f'"
    and aux: "mk_name_aux_fld (Some y) nn \<noteq> None" and two: "\<exists>i j. i < j \<and> j < length (g_flds s) \<and> fld_name (g_flds s ! i) = [] \<and> fld_name (g_flds s ! j) = []"
  shows "\<exists>X s2. join_store sl sv dl SL SV (int (length (ints_of sl SL))) DL n iop (int t) (Some y) s = (Ret (), s2) \<and>
    join_effect s t y sv f f' (set (ints_of dl DL) \<subseteq> set (ints_of sl SL)) X (map (\<lambda>v. c_bool (v \<in> set (ints_of sl SL))) (ints_of dl DL)) s2 \<and>
    ints_of sv X = map (join_row_value sv op (ints_of sl SL) (map_option (ints_of sv) SV)) (ints_of dl DL) \<and> int (length X) = sz * n"
proof -
  let ?src = "ints_of sl SL" and ?dst = "ints_of dl DL" and ?P = "data_path s f" and ?P' = "data_path s f'"
  have sv: "sz = 4 \<or> sz = 8" "sv \<noteq> B" using src sz by (auto simp: join_source_def join_types_def)
  then have big: "0 < sz * n" "sz * n \<le> 2 ^ 32 - 1" "n < int sp" using n(2,3) space(2) by auto
  let ?X0 = "replicate (nat (sz * n)) 0 :: byte list" and ?N0 = "replicate (nat n) 0 :: byte list"
  let ?s1 = "s\<lparr>files := (files s)(?P := Some ?X0), p_cwd := g_cwd s\<rparr>"
  let ?s2 = "s\<lparr>files := (files s)(?P := Some ?X0, ?P' := Some ?N0), p_cwd := g_cwd s\<rparr>"
  have t1: "mk_temp_left (nat (sz * n)) s = (Ret (Some f, -1), ?s1)"
    using mk_temp_file_run[OF dirs _ _ space(1) _ tmp, of "nat (sz * n)"] big space(2) by (intro mk_temp_left_run) simp
  have tmp1: "mkstemp_pick (files ?s1) (g_data_dir ?s1) (env_tmp ?s1) = Some f'"
    using tmp' mkstemp_pick_contents[of "files s" ?P ?X0 "g_data_dir s" "env_tmp s" "[]"] by simp
  have t2: "mk_temp_left (nat n) ?s1 = (Ret (Some f', -1), ?s2)"
    using mk_temp_file_run[OF _ _ _ _ _ tmp1, of "nat n" sp] dirs n(2,3) space(1) big(3)
    by (intro mk_temp_left_run) (simp add: data_path_def)
  have ne: "?P' \<noteq> ?P" using mkstemp_pick_name(2)[OF tmp'] by (auto simp: data_path_def)
  have m1: "q_mmap (-1) f True ?s2 = (Ret (?P, ?X0), ?s2)" and m2: "q_mmap (-1) f' True ?s2 = (Ret (?P', ?N0), ?s2)"
    using q_mmap_run[of ?s2 f ?X0 True] q_mmap_run[of ?s2 f' ?N0 True] dirs ne by (simp_all add: data_path_def)
  obtain bs nT where p: "partition_work n 1024 (-1) = Some (bs, nT)" using partition_unlimited[OF _ n(2), of 1024] n(3) by auto
  have bl: "chain 0 (blocks 0 n bs nT) (int (nat n))" using blocks_chain[of n 0 1024 "-1" bs nT] p n(2) by simp
  obtain c where c: "for_each (join_block sl sv dl SL SV (length ?src) DL iop) (blocks 0 n bs nT) \<lparr>jc_val = ?X0, jc_nn = ?N0, jc_any = False\<rparr> = (Ret (), c)"
    "length (jc_val c) = nat (sz * n)" "ints_of sv (jc_val c) = map (join_row_value sv op ?src (map_option (ints_of sv) SV)) ?dst"
    "jc_nn c = map (\<lambda>v. c_bool (v \<in> set ?src)) ?dst" "jc_any c \<longleftrightarrow> \<not> set ?dst \<subseteq> set ?src"
    using join_blocks_run[OF ty src op srt n(4) bl _ sz, of ?N0] n(2) by auto
  let ?fs = "(files s)(?P := Some (jc_val c), ?P' := Some (jc_nn c))"
  let ?s3 = "s\<lparr>files := ?fs, p_cwd := g_cwd s\<rparr>" and ?r = "new_fld (int t) y (-1) f sv (-1)"
  have maps: "on_join_maps ?P ?P' ?X0 ?N0 (for_each (join_block sl sv dl SL SV (length ?src) DL iop) (blocks 0 n bs nT)) ?s2 = (Ret (jc_any c), ?s3)"
    using ne by (simp add: on_join_maps_def c(1) fun_upd_twist)
  have free3: "free_name ?s3 x y t" and dirs3: "dirs_ok ?s3" using free dirs by simp_all
  have X: "jc_val c \<noteq> []" "int (length (jc_val c)) = sz * nR (g_tbls ?s3 ! t)" using c(2) n big by auto
  obtain i where i: "add_fld (int t) (Some y) (-1) f sv (-1) ?s3 = (Ret (int i, ?r), ?s3\<lparr>p_cwd := g_cwd ?s3, g_flds := (g_flds ?s3)[i := ?r]\<rparr>)"
    "i < length (g_flds s)" "fld_name (g_flds s ! i) = []"
    using add_fld_run[OF free3 dirs3 _ X sz sv(2), of f] tempfile_name(1)[OF _ tmp] free ne by (auto simp: data_path_def free_name_def)
  let ?s4 = "s\<lparr>files := ?fs, p_cwd := g_cwd s, g_flds := (g_flds s)[i := ?r]\<rparr>"
  obtain j where j: "j < length (g_flds s)" "fld_name (g_flds s ! j) = []" "j \<noteq> i" using two by (metis less_trans nat_neq_iff)
  have start: "join_store sl sv dl SL SV (int (length ?src)) DL n iop (int t) (Some y) s =
      (if jc_any c then bind (add_aux_fld None (int t) None (int i) (-1) (Some f') (Some ''nn'')) (\<lambda>_. ret ()) else unlink f') ?s4"
    using t1 t2 m1 m2 p maps i(1) sz by (simp add: join_store_def bind_def ret_def of_option_def named_def)
  show ?thesis
  proof (cases "jc_any c")
    case False
    then have "join_store sl sv dl SL SV (int (length ?src)) DL n iop (int t) (Some y) s =
        (Ret (), s\<lparr>files := ?fs(resolve (g_cwd s) f' := None), p_cwd := g_cwd s, g_flds := (g_flds s)[i := ?r]\<rparr>)"
      using start by (simp add: unlink_def prog_defs)
    then show ?thesis using c False i j X(2) n(1) by (intro exI[of _ "jc_val c"]) (auto simp: join_effect_def Let_def)
  next
    case True
    have y: "y \<noteq> []" "t < length (g_tbls s)" using free by (auto simp: free_name_def chk_fld_name_def)
    have fr: "\<exists>j < length (g_flds ?s4). fld_name (g_flds ?s4 ! j) = []" using j by (intro exI[of _ j]) simp
    have f': "f' \<noteq> []" "length f' \<le> MAX_LEN_FILE_NAME" using tempfile_name[of ?s1 f'] tmp1 free
      by (auto simp: free_name_def meta_only_updates[OF meta_only_meta_inv])
    have rows: "nR (g_tbls s ! t) = int (length ?dst)" using n(1,2,4) by linarith
    obtain k where k: "k < length (g_flds s)" "fld_name (g_flds ?s4 ! k) = []" "add_aux_fld None (int t) None (int i) (-1) (Some f') (Some ''nn'') ?s4 = (Ret (int k),
        ?s4\<lparr>p_cwd := g_cwd s, g_flds := (g_flds ?s4)[i := ?r\<lparr>nn_fld_id := int k\<rparr>, k := aux_rec (int i) (int t) y (-1) f']\<rparr>)"
      using add_aux_fld_run[of ?s4 t i y f' "jc_nn c"] dirs y i(2) aux fr f' rows c(4) by (auto simp: new_fld_def data_path_def)
    have "k \<noteq> i" using k(2) i(2) y(1) by (auto simp: new_fld_def)
    then show ?thesis using start True k c i X(2) n(1) by (intro exI[of _ "jc_val c"]) (auto simp: join_effect_def Let_def prog_defs)
  qed
qed

subsection \<open>The verb\<close>

lemma bind_step: "p s = (Ret a, s') \<Longrightarrow> f a s' = z \<Longrightarrow> bind p f s = z"
  by (simp add: bind_def)

lemma seq_step: "p s = (Ret (), s') \<Longrightarrow> q s' = z \<Longrightarrow> seq p q s = z"
  by (simp add: seq_def bind_def)

text \<open>A field without an \<open>nn\<close> field whose record says that it is in ascending order.\<close>

definition link_fld :: "q_state \<Rightarrow> string \<Rightarrow> string \<Rightarrow> nat \<Rightarrow> FLD_TYPE \<Rightarrow> byte list \<Rightarrow> bool" where
  "link_fld s x y t ft X \<longleftrightarrow> plain_fld s x y t ft X \<and> (\<forall>i. located s x y t i \<longrightarrow> sort_type (g_flds s ! i) = ascending)"

lemma link_fld_cwd [simp]: "link_fld (s\<lparr>p_cwd := c\<rparr>) x y t ft X = link_fld s x y t ft X"
  by (simp add: link_fld_def)

lemma plain_fldE:
  assumes "plain_fld s x y t ft X"
  obtains i where "located s x y t i" "fldtype (g_flds s ! i) = ft" "nn_fld_id (g_flds s ! i) < 0" "ddir_id (g_flds s ! i) < 0"
    "filename (g_flds s ! i) \<noteq> []" "X \<noteq> []" "files s (data_path s (filename (g_flds s ! i))) = Some X"
  using assms by (auto simp: plain_fld_def)

lemma join_fld_run:
  assumes "plain_fld s x y t ft X" and "dirs_ok s"
  shows "\<exists>r path. join_fld (int t) (Some y) s = (Ret r, s) \<and> fldtype r = ft \<and>
    get_data r False (s\<lparr>p_cwd := g_cwd s\<rparr>) = (Ret (path, X), s\<lparr>p_cwd := g_cwd s\<rparr>)"
  using assms(1)
proof (rule plain_fldE)
  fix i assume i: "located s x y t i" "fldtype (g_flds s ! i) = ft" "ddir_id (g_flds s ! i) < 0"
    "filename (g_flds s ! i) \<noteq> []" "X \<noteq> []" "files s (data_path s (filename (g_flds s ! i))) = Some X"
  have "join_fld (int t) (Some y) s = (Ret (g_flds s ! i), s)"
    using locatedD(5)[OF i(1)] by (simp add: join_fld_def prog_defs located_is_fld[OF i(1)] chk_fld_range_def)
  moreover have "get_data (g_flds s ! i) False (s\<lparr>p_cwd := g_cwd s\<rparr>) = (Ret (data_path s (filename (g_flds s ! i)), X), s\<lparr>p_cwd := g_cwd s\<rparr>)"
    using get_data_run[of "s\<lparr>p_cwd := g_cwd s\<rparr>" "g_flds s ! i" X False] assms(2) i by simp
  ultimately show ?thesis using i(2) by blast
qed

lemma chk_ascending_run:
  assumes "link_fld s x y t ft X" and dirs: "dirs_ok s"
  shows "chk_ascending fpu cores (Some x) (Some y) s = (Ret (), s\<lparr>p_cwd := g_cwd s\<rparr>)"
proof -
  have "plain_fld s x y t ft X" using assms(1) by (simp add: link_fld_def)
  then show ?thesis
  proof (rule plain_fldE)
    fix i assume i: "located s x y t i" "nn_fld_id (g_flds s ! i) < 0" "ddir_id (g_flds s ! i) < 0"
      "filename (g_flds s ! i) \<noteq> []" "X \<noteq> []" "files s (data_path s (filename (g_flds s ! i))) = Some X"
    have "is_fld (Some x) (-1) (Some y) s = is_fld (Some x) (int t) (Some y) s"
      unfolding is_fld_def by (simp add: bind_def located_is_tbl[OF i(1)] ret_def)
    moreover have "sort_type (g_flds s ! i) = ascending" using assms(1) i(1) by (simp add: link_fld_def)
    ultimately show ?thesis
      using locatedD(2,3,5)[OF i(1)] i(2) get_data_run[OF dirs i(4,3,6,5), of False]
      by (simp add: chk_ascending_def ext_f_to_s_def is_sorted_fld_def prog_defs arg_given_def located_is_tbl[OF i(1)] located_is_fld[OF i(1)] fld_at_def)
  qed
qed

text \<open>The value column of a join; \<open>cnt\<close> has none.\<close>

definition val_fld :: "q_state \<Rightarrow> string \<Rightarrow> nat \<Rightarrow> string \<Rightarrow> string option \<Rightarrow> FLD_TYPE \<Rightarrow> byte list option \<Rightarrow> bool" where
  "val_fld s x t op v sv SV \<longleftrightarrow> (case v of
       None \<Rightarrow> SV = None \<and> op = ''cnt'' \<and> sv = I4 \<and> nR (g_tbls s ! t) < INT_MAX
     | Some y \<Rightarrow> op \<in> join_ops \<and> (\<exists>V. SV = Some V \<and> plain_fld s x y t sv V))"

lemma join_values_run:
  assumes "val_fld s x t op v sv SV" and "dirs_ok s" and "mk_mjoin_op (Some op) = Some iop"
  shows "\<exists>r. (if val_given v then join_fld (int t) v else ret zero_fld_rec) s = (Ret r, s) \<and>
    (if val_given v then bind (get_data r False) (\<lambda>(sv_path, X). ret (Some X)) else ret None) (s\<lparr>p_cwd := g_cwd s\<rparr>) = (Ret SV, s\<lparr>p_cwd := g_cwd s\<rparr>) \<and>
    (if iop = MJOIN_OP_CNT then (if nR (g_tbls s ! t) < INT_MAX then I4 else I8) else fldtype r) = sv \<and> val_given v = (op \<noteq> ''cnt'')"
proof (cases v)
  case None
  then show ?thesis using assms(1,3) by (auto simp: val_fld_def val_given_def ret_def mk_mjoin_op_def)
next
  case (Some y)
  then obtain V where V: "SV = Some V" "plain_fld s x y t sv V" "op \<in> join_ops" using assms(1) by (auto simp: val_fld_def)
  have "y \<noteq> []" using V(2) by (auto simp: plain_fld_def located_def)
  then show ?thesis using join_fld_run[OF V(2) assms(2)] Some V assms(3)
    by (auto simp: val_given_def join_ops_def mk_mjoin_op_def bind_def ret_def)
qed

text \<open>C13: The verb \<open>srt_join\<close> on link fields that are in ascending order and recorded as such, without \<open>nn\<close> fields, into a destination table of
  fewer than \<open>2^29\<close> rows, for every combination of \<open>int\<close> and \<open>long long\<close> links and values and the
  operations \<open>sum\<close>, \<open>or\<close>, \<open>reg\<close>, \<open>cnt\<close> and \<open>max\<close> (which starts at zero).  With a free name, two free slots and room on the disk the
  verb succeeds.  Each row of the new field is the combination of the values of all source rows with the same link, wrapped to the
  type of the values, however the rows are cut into blocks.  If every destination link occurs in the source the field has no \<open>nn\<close>
  field; otherwise its \<open>nn\<close> field marks exactly the rows that were found.  Nothing else of the meta data changes.  In the first case
  the file of the \<open>nn\<close> column is unlinked in the working directory, not in the data directory where it was made.\<close>

theorem srt_join_adds:
  assumes "link_fld s xs ysl ts sl SL" "link_fld s xd ydl td dl DL" "val_fld s xs ts op v sv SV" and "sl \<in> join_types" "dl \<in> join_types"
    and "join_source sv op (ints_of sl SL) SV" "sorted (ints_of sl SL)" "sorted (ints_of dl DL)"
    and "nR (g_tbls s ! ts) = int (length (ints_of sl SL))" "n = nR (g_tbls s ! td)" "0 < n" "n < 2 ^ 29" "nat n = length (ints_of dl DL)"
    and "free_name s xd y td" "mk_name_aux_fld (Some y) nn \<noteq> None" "dirs_ok s"
    and "\<exists>i j. i < j \<and> j < length (g_flds s) \<and> fld_name (g_flds s ! i) = [] \<and> fld_name (g_flds s ! j) = []"
    and "get_fld_sz sv = Some sz" "env_avail s (g_data_dir s) = Some sp" "sz * n < int sp"
    and "mkstemp_pick (files s) (g_data_dir s) (env_tmp s) = Some f"
    and "mkstemp_pick ((files s)(data_path s f := Some [])) (g_data_dir s) (env_tmp s) = Some f'"
  shows "\<exists>X s2. srt_join fpu cores (Some xs) (Some ysl) v (Some xd) (Some ydl) (Some y) (Some op) s = (Ret (), s2) \<and>
    join_effect s td y sv f f' (set (ints_of dl DL) \<subseteq> set (ints_of sl SL)) X (map (\<lambda>v. c_bool (v \<in> set (ints_of sl SL))) (ints_of dl DL)) s2 \<and>
    ints_of sv X = map (join_row_value sv op (ints_of sl SL) (map_option (ints_of sv) SV)) (ints_of dl DL)"
proof -
  let ?s0 = "s\<lparr>p_cwd := g_cwd s\<rparr>"
  obtain iop where iop: "mk_mjoin_op (Some op) = Some iop"
    using assms(6) by (auto simp: join_source_def join_ops_def mk_mjoin_op_def split: option.splits)
  have p: "plain_fld s xs ysl ts sl SL" "plain_fld s xd ydl td dl DL" using assms(1,2) by (simp_all add: link_fld_def)
  obtain ts' where ts': "located s xs ysl ts ts'" using p(1) by (auto simp: plain_fld_def)
  obtain r1 p1 where r1: "join_fld (int ts) (Some ysl) s = (Ret r1, s)" "fldtype r1 = sl" "get_data r1 False ?s0 = (Ret (p1, SL), ?s0)"
    using join_fld_run[OF p(1) assms(16)] by blast
  obtain r2 p2 where r2: "join_fld (int td) (Some ydl) s = (Ret r2, s)" "fldtype r2 = dl" "get_data r2 False ?s0 = (Ret (p2, DL), ?s0)"
    using join_fld_run[OF p(2) assms(16)] by blast
  obtain rv where rv: "(if val_given v then join_fld (int ts) v else ret zero_fld_rec) s = (Ret rv, s)"
    "(if val_given v then bind (get_data rv False) (\<lambda>(sv_path, X). ret (Some X)) else ret None) ?s0 = (Ret SV, ?s0)"
    "(if iop = MJOIN_OP_CNT then (if nR (g_tbls s ! ts) < INT_MAX then I4 else I8) else fldtype rv) = sv" "val_given v = (op \<noteq> ''cnt'')"
    using join_values_run[OF assms(3,16) iop] by blast
  have a1: "chk_ascending fpu cores (Some xs) (Some ysl) s = (Ret (), ?s0)" by (rule chk_ascending_run[OF assms(1,16)])
  have a2: "chk_ascending fpu cores (Some xd) (Some ydl) ?s0 = (Ret (), ?s0)"
    using chk_ascending_run[of ?s0 xd ydl td dl DL fpu cores] assms(2,16) by simp
  obtain X s2 where X: "join_store sl sv dl SL SV (int (length (ints_of sl SL))) DL n iop (int td) (Some y) ?s0 = (Ret (), s2)"
    "join_effect ?s0 td y sv f f' (set (ints_of dl DL) \<subseteq> set (ints_of sl SL)) X (map (\<lambda>v. c_bool (v \<in> set (ints_of sl SL))) (ints_of dl DL)) s2"
    "ints_of sv X = map (join_row_value sv op (ints_of sl SL) (map_option (ints_of sv) SV)) (ints_of dl DL)"
    using join_store_run[OF assms(4,5,6) iop assms(7,8,18), of ?s0 xd y td n sp f f'] assms(10-17,19-22) by auto
  have t: "in_range (int ts) (g_tbls s)" "in_range (int td) (g_tbls s)" using locatedD(1)[OF ts'] ts' assms(14) by (auto simp: in_range_def located_def free_name_def)
  have "srt_join fpu cores (Some xs) (Some ysl) v (Some xd) (Some ydl) (Some y) (Some op) s = (Ret (), s2)"
  proof -
    have ok: "of_option (mk_mjoin_op (Some op)) s = (Ret iop, s)" "guard (val_given v \<noteq> (Some op = Some ''cnt'')) s = (Ret (), s)"
      "chk_tbl_range (int ts) s = (Ret (), s)" "chk_tbl_range (int td) s = (Ret (), s)" "tbl_at (int ts) s = (Ret (g_tbls s ! ts), s)" "tbl_at (int td) s = (Ret (g_tbls s ! td), s)"
      using iop t rv(4) by (simp_all add: of_option_def guard_def ret_def chk_tbl_range_def tbl_at_def gets_def bind_def)
    show ?thesis unfolding srt_join_def
      by (rule bind_step, rule ok(1), rule seq_step, rule ok(2), rule bind_step, rule located_is_tbl[OF ts'], unfold prod.case,
        rule seq_step, rule ok(3), rule bind_step, rule ok(5), rule bind_step, rule free_name_is_tbl[OF assms(14)], unfold prod.case,
        rule seq_step, rule ok(4), rule bind_step, rule ok(6), rule bind_step, rule r1(1), rule bind_step, rule rv(1), rule bind_step, rule r2(1),
        rule seq_step, rule a1, rule seq_step, rule a2, rule bind_step, rule r1(3), unfold prod.case, rule bind_step, rule rv(2),
        rule bind_step, rule r2(3), unfold prod.case rv(3)) (simp only: r1(2) r2(2) assms(9) assms(10)[symmetric] X(1))
  qed
  then show ?thesis using X(2,3) by simp blast
qed

text \<open>Two tables of which the second has a link that the first does not have.\<close>

definition sample_link :: "int \<Rightarrow> string \<Rightarrow> string \<Rightarrow> FLD_REC" where
  "sample_link t y f = zero_fld_rec\<lparr>tbl_id := t, fldtype := I4, fld_name := y, filename := f, sort_type := ascending\<rparr>"

definition sample_tables :: q_state where
  "sample_tables = sample_state\<lparr>g_tbls := [zero_tbl_rec\<lparr>tbl_name := ''t1'', nR := 4\<rparr>, zero_tbl_rec\<lparr>tbl_name := ''t2'', nR := 3\<rparr>],
     g_flds := [sample_link 0 ''a'' ''_a'', sample_link 0 ''b'' ''_b'', sample_link 1 ''k'' ''_k'', zero_fld_rec, zero_fld_rec],
     env_avail := (\<lambda>_. Some 1000), env_tmp := [''aaaaaa'', ''bbbbbb''],
     files := (\<lambda>_. None)(''/data/_a'' := Some (unview [1, 2, 2, 5 :: I4]), ''/data/_b'' := Some (unview [10, 20, 30, 40 :: I4]), ''/data/_k'' := Some (unview [2, 5, 9 :: I4]))\<rparr>"

lemma sample_tables_simps [simp]:
  "g_tbls sample_tables = [zero_tbl_rec\<lparr>tbl_name := ''t1'', nR := 4\<rparr>, zero_tbl_rec\<lparr>tbl_name := ''t2'', nR := 3\<rparr>]"
  "g_flds sample_tables = [sample_link 0 ''a'' ''_a'', sample_link 0 ''b'' ''_b'', sample_link 1 ''k'' ''_k'', zero_fld_rec, zero_fld_rec]"
  "g_data_dir sample_tables = ''/data''" "env_avail sample_tables d = Some 1000" "env_tmp sample_tables = [''aaaaaa'', ''bbbbbb'']"
  "files sample_tables = (\<lambda>_. None)(''/data/_a'' := Some (unview [1, 2, 2, 5 :: I4]), ''/data/_b'' := Some (unview [10, 20, 30, 40 :: I4]), ''/data/_k'' := Some (unview [2, 5, 9 :: I4]))"
  by (simp_all add: sample_tables_def) (simp add: sample_state_def)

lemma sample_tables_ok:
  shows "dirs_ok sample_tables" "free_name sample_tables ''t2'' ''c'' 1"
    "link_fld sample_tables ''t1'' ''a'' 0 I4 (unview [1, 2, 2, 5 :: I4])" "plain_fld sample_tables ''t1'' ''b'' 0 I4 (unview [10, 20, 30, 40 :: I4])"
    "link_fld sample_tables ''t2'' ''k'' 1 I4 (unview [2, 5, 9 :: I4])"
proof -
  have "ht_ok sample_tables" by (simp add: ht_ok_def sample_tables_def sample_state_def)
  moreover have "fields_ok (g_tbls sample_tables) (g_ddirs sample_tables) (g_flds sample_tables)"
    by (simp add: sample_tables_def fields_ok_def All_less_Suc local_ok_def live_tbl_def link_ok_def in_range_def Ex_less_Suc sample_link_def)
  ultimately have inv: "meta_inv sample_tables" by (simp add: meta_inv_def) (simp add: sample_tables_def)
  have un: "tbl_slots.unique_keys (g_tbls sample_tables)" "fld_slots.unique_keys (g_flds sample_tables)"
    by (simp_all add: tbl_slots.unique_keys_def fld_slots.unique_keys_def All_less_Suc fld_key_def sample_link_def)
  show "dirs_ok sample_tables" by (simp add: dirs_ok_def abs_dir_def sample_tables_def sample_state_def)
  show "free_name sample_tables ''t2'' ''c'' 1" using inv un
    by (simp add: free_name_def chk_fld_name_def name_char_def isalnum_def isdigit_def code_def All_less_Suc fld_key_def sample_link_def Ex_less_Suc)
  have l: "located sample_tables ''t1'' ''a'' 0 0" "located sample_tables ''t1'' ''b'' 0 1" "located sample_tables ''t2'' ''k'' 1 2"
    using inv un by (simp_all add: located_def fld_key_def sample_link_def)
  have srt: "sort_type (g_flds sample_tables ! i) = ascending" if "located sample_tables x y t i" for x y t i
  proof -
    have "i < 5" "fld_name (g_flds sample_tables ! i) \<noteq> []" using that by (auto simp: located_def fld_key_def)
    then have "i = 0 \<or> i = 1 \<or> i = 2" by (auto simp: numeral_eq_Suc less_Suc_eq)
    then show ?thesis by (auto simp: sample_link_def)
  qed
  show "plain_fld sample_tables ''t1'' ''b'' 0 I4 (unview [10, 20, 30, 40 :: I4])" unfolding plain_fld_def
    by (rule exI[of _ 1]) (use l in \<open>simp add: sample_link_def data_path_def resolve_def unview_def le_bytes_def\<close>)
  have "plain_fld sample_tables ''t1'' ''a'' 0 I4 (unview [1, 2, 2, 5 :: I4])" unfolding plain_fld_def
    by (rule exI[of _ 0]) (use l in \<open>simp add: sample_link_def data_path_def resolve_def unview_def le_bytes_def\<close>)
  then show "link_fld sample_tables ''t1'' ''a'' 0 I4 (unview [1, 2, 2, 5 :: I4])" using srt by (simp add: link_fld_def)
  have "plain_fld sample_tables ''t2'' ''k'' 1 I4 (unview [2, 5, 9 :: I4])" unfolding plain_fld_def
    by (rule exI[of _ 2]) (use l in \<open>simp add: sample_link_def data_path_def resolve_def unview_def le_bytes_def\<close>)
  then show "link_fld sample_tables ''t2'' ''k'' 1 I4 (unview [2, 5, 9 :: I4])" using srt by (simp add: link_fld_def)
qed

theorem srt_join_adds_witness:
  "\<exists>X s2. srt_join no_fpu 4 (Some ''t1'') (Some ''a'') (Some ''b'') (Some ''t2'') (Some ''k'') (Some ''c'') (Some ''sum'') sample_tables = (Ret (), s2) \<and>
    join_effect sample_tables 1 ''c'' I4 ''_tempf_aaaaaa'' ''_tempf_bbbbbb'' False X [1, 1, 0] s2 \<and> ints_of I4 X = [50, 40, 0]"
proof -
  let ?SL = "unview [1, 2, 2, 5 :: I4]" and ?SV = "unview [10, 20, 30, 40 :: I4]" and ?DL = "unview [2, 5, 9 :: I4]"
  have i: "ints_of I4 ?SL = [1, 2, 2, 5]" "ints_of I4 ?SV = [10, 20, 30, 40]" "ints_of I4 ?DL = [2, 5, 9]" by (simp_all add: ints_of_def)
  have v: "val_fld sample_tables ''t1'' 0 ''sum'' (Some ''b'') I4 (Some ?SV)" using sample_tables_ok(4) by (simp add: val_fld_def join_ops_def)
  have ty: "I4 \<in> join_types" by (simp add: join_types_def)
  have src: "join_source I4 ''sum'' (ints_of I4 ?SL) (Some ?SV)" by (simp add: join_source_def i join_types_def join_ops_def)
  have srt: "sorted (ints_of I4 ?SL)" "sorted (ints_of I4 ?DL)" by (simp_all add: i)
  have n: "nR (g_tbls sample_tables ! 0) = int (length (ints_of I4 ?SL))" "3 = nR (g_tbls sample_tables ! 1)" "(0 :: int) < 3" "(3 :: int) < 2 ^ 29"
    "nat 3 = length (ints_of I4 ?DL)" by (simp_all add: i)
  have a: "mk_name_aux_fld (Some ''c'') nn \<noteq> None" by code_simp
  have two: "\<exists>i j. i < j \<and> j < length (g_flds sample_tables) \<and> fld_name (g_flds sample_tables ! i) = [] \<and> fld_name (g_flds sample_tables ! j) = []"
    by (intro exI[of _ 3] exI[of _ 4]) simp
  have z: "get_fld_sz I4 = Some 4" "env_avail sample_tables (g_data_dir sample_tables) = Some 1000" "4 * 3 < int 1000" by simp_all
  have m: "mkstemp_pick (files sample_tables) (g_data_dir sample_tables) (env_tmp sample_tables) = Some ''_tempf_aaaaaa''"
    "mkstemp_pick ((files sample_tables)(data_path sample_tables ''_tempf_aaaaaa'' := Some [])) (g_data_dir sample_tables) (env_tmp sample_tables) = Some ''_tempf_bbbbbb''"
    by (simp_all add: resolve_def data_path_def)
  obtain X s2 where s2: "srt_join no_fpu 4 (Some ''t1'') (Some ''a'') (Some ''b'') (Some ''t2'') (Some ''k'') (Some ''c'') (Some ''sum'') sample_tables = (Ret (), s2)"
    "join_effect sample_tables 1 ''c'' I4 ''_tempf_aaaaaa'' ''_tempf_bbbbbb'' (set (ints_of I4 ?DL) \<subseteq> set (ints_of I4 ?SL)) X
       (map (\<lambda>v. c_bool (v \<in> set (ints_of I4 ?SL))) (ints_of I4 ?DL)) s2"
    "ints_of I4 X = map (join_row_value I4 ''sum'' (ints_of I4 ?SL) (map_option (ints_of I4) (Some ?SV))) (ints_of I4 ?DL)"
    using srt_join_adds[OF sample_tables_ok(3,5) v ty ty src srt n sample_tables_ok(2) a sample_tables_ok(1) two z m, of no_fpu 4] by blast
  have "map (join_row_value I4 ''sum'' (ints_of I4 ?SL) (map_option (ints_of I4) (Some ?SV))) (ints_of I4 ?DL) = [50, 40, 0]"
    by (simp add: i join_row_value_def matching_def int_join_def as_type_def eval_nat_numeral)
  then show ?thesis using s2 by (intro exI[of _ X] exI[of _ s2]) (simp add: i)
qed

subsection \<open>The meta data\<close>

lemma files_only_ignore [file_steps]: "files_only p \<Longrightarrow> files_only (ignore p)"
  unfolding files_only_def ignore_def by (auto split: prod.splits outcome.splits) (metis snd_conv)+

lemma files_only_join [file_steps]:
  "files_only (is_tbl x)" "files_only (is_fld x t y)" "files_only (join_fld t y)" "files_only (named f)" "files_only (mk_temp_left n)" "files_only (on_join_maps p q X N r)"
proof -
  show t: "files_only (is_tbl x)" for x
    by (auto simp: is_tbl_def probe_start_def circ_scan_def intro!: file_steps)
  show f: "files_only (is_fld x t y)" for x t y
    by (auto simp: is_fld_def with_nn_def no_fld_def probe_start_def circ_scan_def intro!: file_steps t)
  show "files_only (join_fld t y)" by (auto simp: join_fld_def intro!: file_steps f)
  show "files_only (named f)" by (auto simp: named_def intro!: file_steps)
  show "files_only (mk_temp_left n)"
    by (auto simp: mk_temp_left_def open_temp_left_def mk_file_def avail_space_def get_free_space_def intro!: file_steps files_only_ignore)
  show "files_only (on_join_maps p q X N r)" by (auto simp: files_only_def on_join_maps_def split: prod.splits)
qed

text \<open>Steps that may change fields but keep the invariant and the tables.\<close>

definition tbls_kept :: "'a q_prog \<Rightarrow> bool" where
  "tbls_kept p \<longleftrightarrow> (\<forall>s. meta_inv s \<longrightarrow> meta_inv (snd (p s)) \<and> g_tbls (snd (p s)) = g_tbls s)"

named_theorems kept_steps \<open>programs that keep the invariant and the tables\<close>

lemma files_only_kept: "files_only p \<Longrightarrow> tbls_kept p"
  unfolding files_only_def tbls_kept_def using meta_inv_meta_of meta_of_cong(2) by metis

lemma tbls_kept_bind [kept_steps]: "tbls_kept p \<Longrightarrow> (\<And>a. tbls_kept (f a)) \<Longrightarrow> tbls_kept (bind p f)"
  unfolding tbls_kept_def bind_def by (auto split: prod.splits outcome.splits)

lemma tbls_kept_seq [kept_steps]: "tbls_kept p \<Longrightarrow> tbls_kept q \<Longrightarrow> tbls_kept (seq p q)"
  unfolding seq_def by (rule tbls_kept_bind)

lemma tbls_kept_cases [kept_steps]:
  "tbls_kept p \<Longrightarrow> tbls_kept q \<Longrightarrow> tbls_kept (if b then p else q)" "(\<And>y z. tbls_kept (h y z)) \<Longrightarrow> tbls_kept (case w of (y, z) \<Rightarrow> h y z)"
  by (auto split: prod.splits)

lemma tbls_kept_sort_type [kept_steps]: "tbls_kept (set_fld i (\<lambda>r. r\<lparr>sort_type := st\<rparr>))"
  unfolding tbls_kept_def
proof (intro allI impI)
  fix s assume inv: "meta_inv s"
  show "meta_inv (snd (set_fld i (\<lambda>r. r\<lparr>sort_type := st\<rparr>) s)) \<and> g_tbls (snd (set_fld i (\<lambda>r. r\<lparr>sort_type := st\<rparr>) s)) = g_tbls s"
  proof (cases "in_range i (g_flds s)")
    case True
    let ?r = "g_flds s ! nat i"
    have "local_ok (g_tbls s) (g_ddirs s) ?r" using fields_ok_local[OF meta_inv_parts(2)[OF inv]] True by (simp add: in_range_nat)
    then have "meta_inv (s\<lparr>g_flds := (g_flds s)[nat i := ?r\<lparr>sort_type := st\<rparr>]\<rparr>)"
      by (intro store_links_inv[OF inv True]) (auto simp: same_links_def local_ok_def)
    then show ?thesis using True by (simp add: set_fld_def)
  qed (use inv in \<open>simp add: set_fld_def\<close>)
qed

lemma tbls_kept_ascending [kept_steps]: "tbls_kept (chk_ascending fpu cores tbl fld)"
proof -
  have "tbls_kept (is_sorted_fld i r k X n)" for i r k X n
    unfolding is_sorted_fld_def sorted_data_def by (auto intro!: kept_steps intro: files_only_kept file_steps split: FLD_TYPE.splits)
  moreover have "bind (arg_given (Some ''is_sorted'')) f = f ''is_sorted''" for f :: "string \<Rightarrow> string q_prog" by (simp add: arg_given_def bind_def ret_def fun_eq_iff)
  ultimately show ?thesis unfolding chk_ascending_def ext_f_to_s_def
    by (auto intro!: kept_steps intro: files_only_kept file_steps)
qed

lemma keeps_bind_kept:
  assumes "tbls_kept p" and "meta_inv s" and "\<And>a s'. p s = (Ret a, s') \<Longrightarrow> meta_inv s' \<Longrightarrow> g_tbls s' = g_tbls s \<Longrightarrow> keeps_inv (f a) s'"
  shows "keeps_inv (bind p f) s"
proof -
  obtain r s1 where p: "p s = (r, s1)" by fastforce
  then have "meta_inv s1" "g_tbls s1 = g_tbls s" using assms(1,2) unfolding tbls_kept_def by (metis snd_conv)+
  then show ?thesis using p assms(3) by (cases r) (simp_all add: keeps_inv_def bind_def)
qed

lemma keeps_seq_kept:
  "tbls_kept p \<Longrightarrow> meta_inv s \<Longrightarrow> (\<And>s'. p s = (Ret (), s') \<Longrightarrow> meta_inv s' \<Longrightarrow> g_tbls s' = g_tbls s \<Longrightarrow> keeps_inv q s') \<Longrightarrow> keeps_inv (seq p q) s"
  unfolding seq_def by (rule keeps_bind_kept) auto

lemma open_temp_left_name:
  assumes "open_temp_left cwd dir n s = (Ret (Some f, ok), s')"
  shows "f = ''_tempf_XXXXXX'' \<or> (\<exists>x \<in> set (env_tmp s). f = ''_tempf_'' @ x)"
proof -
  let ?pre = "ignore (if n > 0 then bind (avail_space dir) (\<lambda>a. guard (a > n)) else ret ())"
  obtain r s1 s2 s3 b where st: "?pre s = (Ret r, s1)" "chdir dir s1 = (Ret b, s2)" "mkstemp s2 = (Ret f, s3)"
    using assms unfolding open_temp_left_def by (auto simp: bind_Ret ret_def split: if_splits)
  have "files_only ?pre" by (auto simp: avail_space_def intro!: file_steps)
  then have "meta_of s2 = meta_of s" using st(1,2) files_only_Ret[of ?pre s] files_only_Ret[of "chdir dir" s1] by (simp add: file_steps)
  then have "env_tmp s2 = env_tmp s" by (rule meta_of_cong)
  then show ?thesis using mkstemp_name[OF st(3)] by simp
qed

lemma mk_temp_left_result:
  assumes inv: "meta_inv s" and run: "mk_temp_left n s = (Ret (Some f, d), s')"
  shows "ddir_ok s d" and "length f \<le> MAX_LEN_FILE_NAME"
proof -
  let ?dir = "if g_alt_ddir_id s < 0 then bind (gets g_data_dir) (\<lambda>d. ret (d, -1))
      else bind (ddir_at (g_alt_ddir_id s)) (\<lambda>dir. if n > 0 then bind (get_free_space dir) (\<lambda>free_space.
        ret (dir, if free_space < n then -1 else g_alt_ddir_id s)) else ret (dir, g_alt_ddir_id s))"
  obtain dir s1 ok s2 where st: "ignore ?dir s = (Ret (Some (dir, d)), s1)" "open_temp_left (g_cwd s1) dir n s1 = (Ret (Some f, ok), s2)"
    using run unfolding mk_temp_left_def
    by (auto simp: bind_Ret[of "gets _"] gets_def bind_Ret[of "ignore ?dir"]) (auto simp: bind_Ret ret_def split: option.splits if_splits prod.splits)
  have "files_only ?dir" by (auto simp: get_free_space_def intro!: file_steps)
  moreover have dir: "?dir s = (Ret (dir, d), s1)" using st(1) by (simp only: ignore_Ret)
  ultimately have "meta_of s1 = meta_of s" using files_only_Ret[of ?dir s] by blast
  then have "env_tmp s1 = env_tmp s" by (rule meta_of_cong)
  then show "length f \<le> MAX_LEN_FILE_NAME" using open_temp_left_name[OF st(2)] inv by (auto simp: meta_inv_def)
  have "d = -1 \<or> d = g_alt_ddir_id s" using dir by (auto simp: bind_Ret ret_def split: if_splits)
  then show "ddir_ok s d" using inv by (auto simp: ddir_ok_def meta_inv_def)
qed

lemma named_Ret: "named f s = (Ret x, s') \<Longrightarrow> f = Some x"
  by (auto simp: named_def ret_def fault_def split: option.splits)

lemma keeps_add_joined:
  assumes inv: "meta_inv s" and t: "live_tbl (g_tbls s) tid" and d: "ddir_ok s d" "ddir_ok s e" "length g \<le> MAX_LEN_FILE_NAME"
  shows "keeps_inv (bind (add_fld tid dst_val d f u (-1)) (\<lambda>(i, r).
     if b then bind (add_aux_fld None tid None i e (Some g) (Some ''nn'')) (\<lambda>_. ret ()) else unlink g)) s"
proof (cases dst_val)
  case None
  have "wp (add_fld tid dst_val d f u (-1)) (\<lambda>_ _. False) meta_inv s"
    using inv None by (simp add: add_fld_def wp_seq wp_bind wp_guard wp_arg_given)
  then show ?thesis by (rule keeps_bind_wp) simp
next
  case (Some name)
  show ?thesis
  proof (cases b)
    case True
    then show ?thesis using keeps_add_fld[OF inv t d(1), of "Some (g, e, [], [])" name f u] d(2,3) Some by simp
  next
    case False
    show ?thesis unfolding Some
      by (rule keeps_bind_wp[OF wp_add_fld[OF inv t d(1)]])
        (auto simp: False fld_added_def intro!: keeps_files file_steps)
  qed
qed

lemma join_store_keeps:
  assumes inv: "meta_inv s" and t: "live_tbl (g_tbls s) tid"
  shows "keeps_inv (join_store sl sv dl SL SV m DL n iop tid dst_val) s"
  unfolding join_store_def
proof (rule keeps_bind_files, rule file_steps, rule inv, rule keeps_bind_files, rule file_steps, assumption, clarify,
    rule keeps_bind_files, rule file_steps, assumption, rule keeps_bind_files, rule file_steps, assumption, clarify,
    rule keeps_bind_files, rule file_steps, assumption, rule keeps_bind_files, rule file_steps, assumption, clarify,
    rule keeps_bind_files, rule file_steps, assumption, rule keeps_bind_files, rule file_steps, assumption, clarify,
    rule keeps_bind_files, rule file_steps, assumption, clarify, rule keeps_bind_files, rule file_steps, assumption, goal_cases)
  case (1 fldsz s1 opfile d s2 nn_sz s3 nn_opfile nn_d s4 f s5 path X s6 nn_f s7 nn_path N s8 block_size nT s9 any s10)
  have m: "meta_of s10 = meta_of s1" "meta_of s10 = meta_of s3" "meta_of s10 = meta_of s" using 1 by simp_all
  have "opfile = Some f" "nn_opfile = Some nn_f" using 1 named_Ret by blast+
  then have "ddir_ok s10 d" "ddir_ok s10 nn_d" "length nn_f \<le> MAX_LEN_FILE_NAME"
    using mk_temp_left_result[of s1 _ f d s2] mk_temp_left_result[of s3 _ nn_f nn_d s4] 1 ddir_ok_meta_of[OF m(1)] ddir_ok_meta_of[OF m(2)] by blast+
  then show ?case using 1 t live_meta_of[OF m(3)] by (intro keeps_add_joined) simp_all
qed

lemma found_live:
  assumes "meta_inv s" "is_tbl (Some x) s = (Ret (t, r), s')" "x \<noteq> []" and "chk_tbl_range t s1 = (Ret (), s2)" "g_tbls s1 = g_tbls s"
  shows "live_tbl (g_tbls s) t"
proof -
  have "tbl_found s x (t, r)" using is_tbl_result[OF meta_inv_parts(1)[OF assms(1)], of x] assms(2) by auto
  moreover have "in_range t (g_tbls s)" using assms(4,5) by (auto simp: chk_tbl_range_def bind_def gets_def guard_def ret_def bye_def split: if_splits)
  ultimately show ?thesis using assms(3) by (auto simp: tbl_found_def live_tbl_def in_range_def)
qed

lemma ascending_named: "chk_ascending fpu cores tbl fld s = (Ret (), s') \<Longrightarrow> \<exists>x. tbl = Some x \<and> x \<noteq> []"
  by (cases tbl) (auto simp: chk_ascending_def ext_f_to_s_def bind_def arg_given_def bye_def split: if_splits)

lemmas keeps_read = keeps_bind_kept[OF files_only_kept]
lemmas keeps_test = keeps_seq_kept[OF files_only_kept]

text \<open>C14: The verb \<open>srt_join\<close> leaves consistent meta data whatever happens: on success, on every error, and also when \<open>mk_temp_file\<close> fails and its
  status is dropped, or a kernel reads or writes outside a column.\<close>

theorem srt_join_keeps_meta_inv:
  assumes "meta_inv s"
  shows "meta_inv (snd (srt_join fpu cores src_tbl src_lnk src_val dst_tbl dst_lnk dst_val op s))"
proof -
  have "keeps_inv (srt_join fpu cores src_tbl src_lnk src_val dst_tbl dst_lnk dst_val op) s" unfolding srt_join_def
  proof (rule keeps_read, rule file_steps, rule assms, rule keeps_test, rule file_steps, assumption, rule keeps_read, rule file_steps, assumption, clarify,
      rule keeps_test, rule file_steps, assumption, rule keeps_read, rule file_steps, assumption, rule keeps_read, rule file_steps, assumption, clarify,
      rule keeps_test, rule file_steps, assumption, rule keeps_read, rule file_steps, assumption, rule keeps_read, rule file_steps, assumption,
      rule keeps_read, (intro file_steps)[1], assumption, rule keeps_read, rule file_steps, assumption,
      rule keeps_seq_kept, rule kept_steps, assumption, rule keeps_seq_kept, rule kept_steps, assumption,
      rule keeps_read, rule file_steps, assumption, clarify, rule keeps_read, (intro file_steps)[1], assumption,
      rule keeps_read, rule file_steps, assumption, clarify, goal_cases)
    case prems: (1 iop s1 s2 src_tid src_tbl_rec s3 s4 src s5 dst_tid dst_tbl_rec s6 s7 dst s8 sl_rec s9 sv_rec s10 dl_rec s11 s12 s13 sl_path SL s14 SV s15 dl_path DL s16)
    obtain x where x: "dst_tbl = Some x" "x \<noteq> []" using ascending_named prems by blast
    have "live_tbl (g_tbls s5) dst_tid" using found_live[of s5 x dst_tid dst_tbl_rec s6 s6 s7] prems x by simp
    then show ?case using prems by (intro join_store_keeps) simp_all
  qed
  then show ?thesis by (simp add: keeps_inv_def)
qed

theorem srt_join_keeps_meta_inv_witness:
  "meta_inv (snd (srt_join no_fpu 4 (Some ''t1'') (Some ''f'') None (Some ''t1'') (Some ''f'') (Some ''g'') (Some ''cnt'') sample_state))"
  by (rule srt_join_keeps_meta_inv[OF sample_inv])

end
