(* ===== verification/Hash_Spooky.thy ===== *)
theory Hash_Spooky
  imports D_Bytes Q_Blocks
begin

text \<open>
  \<open>approxalgos/ApproxUnique/src/spooky_hash.c\<close>: the 128-bit hash of a message, at once and in pieces.  The variables \<open>h0\<close>, \<open>h1\<close>, \<dots>
  are a list of words; a statement of the mixing functions is a function on that list.  The machine is little endian and
  reads words at any address.  The theory shows that mixing loses no information, what the case distinction on
  the last bytes of a short message computes, and when feeding a message in pieces gives the hash of the message.
\<close>

unbundle bit_operations_syntax

type_synonym u64 = "64 word"

subsection \<open>Mixing\<close>

definition SC_CONST :: u64 where "SC_CONST = 0xdeadbeefdeadbeef"

definition rot64 :: "u64 \<Rightarrow> nat \<Rightarrow> u64" where
  "rot64 x k = push_bit k x OR drop_bit (64 - k) x"

text \<open>The statements \<open>*hi += v\<close>, \<open>*hi += *hj\<close>, \<open>*hi ^= *hj\<close> and \<open>*hi = rot64(*hi, k)\<close>, and a sequence of statements.\<close>

definition add_val :: "nat \<Rightarrow> u64 \<Rightarrow> u64 list \<Rightarrow> u64 list" where
  "add_val i v h = h[i := h ! i + v]"

definition add_to :: "nat \<Rightarrow> nat \<Rightarrow> u64 list \<Rightarrow> u64 list" where
  "add_to i j h = h[i := h ! i + h ! j]"

definition xor_to :: "nat \<Rightarrow> nat \<Rightarrow> u64 list \<Rightarrow> u64 list" where
  "xor_to i j h = h[i := h ! i XOR h ! j]"

definition rot_at :: "nat \<Rightarrow> nat \<Rightarrow> u64 list \<Rightarrow> u64 list" where
  "rot_at i k h = h[i := rot64 (h ! i) k]"

definition steps :: "('h \<Rightarrow> 'h) list \<Rightarrow> 'h \<Rightarrow> 'h" where
  "steps fs h = fold (\<lambda>f. f) fs h"

text \<open>The lines of each mixing function differ in the amount of the rotation only.\<close>

definition mix :: "u64 list \<Rightarrow> u64 list \<Rightarrow> u64 list" where
  "mix data = steps (concat (map
     (\<lambda>(i, k). [add_val i (data ! i), xor_to ((i + 2) mod 12) ((i + 10) mod 12), xor_to ((i + 11) mod 12) i, rot_at i k,
        add_to ((i + 11) mod 12) ((i + 1) mod 12)])
     (enumerate 0 [11, 32, 43, 31, 17, 28, 39, 57, 55, 54, 22, 46])))"

definition endPartial :: "u64 list \<Rightarrow> u64 list" where
  "endPartial = steps (concat (map
     (\<lambda>(i, k). [add_to ((i + 11) mod 12) ((i + 1) mod 12), xor_to ((i + 2) mod 12) ((i + 11) mod 12), rot_at ((i + 1) mod 12) k])
     (enumerate 0 [44, 15, 34, 21, 38, 33, 10, 13, 38, 53, 42, 54])))"

definition end_mix :: "u64 list \<Rightarrow> u64 list" where
  "end_mix h = endPartial (endPartial (endPartial h))"

definition short_mix :: "u64 list \<Rightarrow> u64 list" where
  "short_mix = steps (concat (map
     (\<lambda>(i, k). [rot_at (i mod 4) k, add_to (i mod 4) ((i + 1) mod 4), xor_to ((i + 2) mod 4) (i mod 4)])
     (enumerate 2 [50, 52, 30, 41, 54, 48, 38, 37, 62, 34, 5, 36])))"

definition short_end :: "u64 list \<Rightarrow> u64 list" where
  "short_end = steps (concat (map
     (\<lambda>(i, k). [xor_to (i mod 4) ((i + 3) mod 4), rot_at ((i + 3) mod 4) k, add_to (i mod 4) ((i + 3) mod 4)])
     (enumerate 3 [15, 52, 26, 51, 28, 9, 47, 54, 32, 25, 63])))"

subsection \<open>Short messages\<close>

text \<open>The loop over the complete sets of 32 bytes: the variables \<open>a\<close>, \<open>b\<close>, \<open>c\<close>, \<open>d\<close> and the bytes that are left.\<close>

definition short_set :: "u64 list \<Rightarrow> byte list \<Rightarrow> u64 list" where
  "short_set h p = (let w = view p in
     steps [add_val 2 (w ! 0), add_val 3 (w ! 1), short_mix, add_val 0 (w ! 2), add_val 1 (w ! 3)] h)"

fun short_sets :: "u64 list \<Rightarrow> byte list \<Rightarrow> u64 list \<times> byte list" where
  "short_sets h p = (if 32 \<le> length p then short_sets (short_set h (take 32 p)) (drop 32 p) else (h, p))"

declare short_sets.simps [simp del]

text \<open>\<open>((uint64_t)u.p8[i]) << k\<close>, when the switch on the remainder reaches the case that adds it.\<close>

definition byte_at :: "byte list \<Rightarrow> nat \<Rightarrow> nat \<Rightarrow> u64" where
  "byte_at p i k = (if i < length p then push_bit k (ucast (p ! i)) else 0)"

text \<open>The switch on the number of remaining bytes: what is added to \<open>c\<close> and \<open>d\<close>.\<close>

definition short_tail :: "byte list \<Rightarrow> u64 \<times> u64" where
  "short_tail p = (
     if 12 \<le> length p then (le_word (take 8 p), byte_at p 14 48 + byte_at p 13 40 + byte_at p 12 32 + ucast (le_word (take 4 (drop 8 p)) :: 32 word))
     else if 8 \<le> length p then (le_word (take 8 p), byte_at p 10 16 + byte_at p 9 8 + byte_at p 8 0)
     else if 4 \<le> length p then (byte_at p 6 48 + byte_at p 5 40 + byte_at p 4 32 + ucast (le_word (take 4 p) :: 32 word), 0)
     else if 1 \<le> length p then (byte_at p 2 16 + byte_at p 1 8 + byte_at p 0 0, 0)
     else (SC_CONST, SC_CONST))"

definition spooky_shorthash :: "byte list \<Rightarrow> u64 \<Rightarrow> u64 \<Rightarrow> u64 \<times> u64" where
  "spooky_shorthash message hash1 hash2 = (let
     h = [hash1, hash2, SC_CONST, SC_CONST];
     (h, p) = (if length message > 15 then
        (let (h, p) = short_sets h message in
         if 16 \<le> length p then (let w = view (take 16 p) in (steps [add_val 2 (w ! 0), add_val 3 (w ! 1), short_mix] h, drop 16 p)) else (h, p))
       else (h, message));
     h = h[3 := push_bit 56 (of_nat (length message))];
     (c, d) = short_tail p;
     h = short_end (add_val 3 d (add_val 2 c h))
   in (h ! 0, h ! 1))"

subsection \<open>Messages in pieces\<close>

definition SC_BLOCKSIZE :: nat where [simp]: "SC_BLOCKSIZE = 96"
definition SC_BUFSIZE :: nat where [simp]: "SC_BUFSIZE = 192"

record spooky_state =
  m_data :: "byte list"
  m_state :: "u64 list"
  m_length :: nat
  m_remainder :: nat

definition spooky_init :: "u64 \<Rightarrow> u64 \<Rightarrow> spooky_state \<Rightarrow> spooky_state" where
  "spooky_init seed1 seed2 st = st\<lparr>m_length := 0, m_remainder := 0, m_state := (m_state st)[0 := seed1, 1 := seed2]\<rparr>"

text \<open>The initial variables of a long message.\<close>

definition init_vars :: "u64 \<Rightarrow> u64 \<Rightarrow> u64 list" where
  "init_vars seed1 seed2 = concat (replicate 4 [seed1, seed2, SC_CONST])"

text \<open>The loop over the whole blocks of 96 bytes: the variables and the bytes that are left.\<close>

fun mix_blocks :: "u64 list \<Rightarrow> byte list \<Rightarrow> u64 list \<times> byte list" where
  "mix_blocks h p = (if SC_BLOCKSIZE \<le> length p then mix_blocks (mix (view (take SC_BLOCKSIZE p)) h) (drop SC_BLOCKSIZE p) else (h, p))"

declare mix_blocks.simps [simp del]

definition spooky_update :: "byte list \<Rightarrow> spooky_state \<Rightarrow> spooky_state" where
  "spooky_update message st = (let
     newLength = (length message + m_remainder st) mod 2 ^ 64;
     total = (length message + m_length st) mod 2 ^ 64
   in if newLength < SC_BUFSIZE then
     st\<lparr>m_data := copy_at (m_data st) (m_remainder st) message, m_length := total, m_remainder := newLength mod 256\<rparr>
   else let
     h = (if m_length st < SC_BUFSIZE then init_vars (m_state st ! 0) (m_state st ! 1) else m_state st);
     (h, data, p) = (if m_remainder st \<noteq> 0 then
        (let prefix = (SC_BUFSIZE - m_remainder st) mod 256;
             data = copy_at (m_data st) (m_remainder st) (take prefix message)
         in (mix (view (drop SC_BLOCKSIZE data)) (mix (view (take SC_BLOCKSIZE data)) h), data, drop prefix message))
       else (h, m_data st, message));
     (h, rest) = mix_blocks h p
   in st\<lparr>m_length := total, m_remainder := length rest mod 256, m_data := copy_at data 0 rest, m_state := h\<rparr>)"

text \<open>The last partial block, filled with zeros, with its length in the last byte.\<close>

definition last_block :: "byte list \<Rightarrow> byte list" where
  "last_block p = (p @ replicate (SC_BLOCKSIZE - length p) 0)[SC_BLOCKSIZE - 1 := of_nat (length p)]"

definition spooky_final :: "spooky_state \<Rightarrow> u64 \<Rightarrow> u64 \<Rightarrow> spooky_state \<times> u64 \<times> u64" where
  "spooky_final st hash1 hash2 =
     (if m_length st < SC_BUFSIZE then (st, spooky_shorthash (take (m_length st) (m_data st)) hash1 hash2)
      else let
        (h, first, data, rem) = (if m_remainder st \<ge> SC_BLOCKSIZE
           then (mix (view (take SC_BLOCKSIZE (m_data st))) (m_state st), take SC_BLOCKSIZE (m_data st), drop SC_BLOCKSIZE (m_data st),
             m_remainder st - SC_BLOCKSIZE)
           else (m_state st, [], m_data st, m_remainder st));
        block = last_block (take rem data);
        h = end_mix (mix (view block) h)
      in (st\<lparr>m_data := first @ block @ drop SC_BLOCKSIZE data\<rparr>, h ! 0, h ! 1))"

definition spooky_hash128 :: "byte list \<Rightarrow> u64 \<Rightarrow> u64 \<Rightarrow> u64 \<times> u64" where
  "spooky_hash128 message hash1 hash2 =
     (if length message < SC_BUFSIZE then spooky_shorthash message hash1 hash2
      else let (h, rest) = mix_blocks (init_vars hash1 hash2) message;
        h = end_mix (mix (view (last_block rest)) h)
      in (h ! 0, h ! 1))"

definition spooky_hash64 :: "byte list \<Rightarrow> u64 \<Rightarrow> u64" where
  "spooky_hash64 message seed = fst (spooky_hash128 message seed seed)"

definition spooky_hash32 :: "byte list \<Rightarrow> 32 word \<Rightarrow> 32 word" where
  "spooky_hash32 message seed = ucast (fst (spooky_hash128 message (ucast seed) (ucast seed)))"

subsection \<open>Mixing loses no information\<close>

definition words :: "nat \<Rightarrow> u64 list set" where
  "words n = {h. length h = n}"

lemma finite_words: "finite (words n)"
  using finite_lists_length_eq[of "UNIV :: u64 set" n] by (simp add: words_def)

lemma bij_words:
  assumes "\<And>h. length (f h) = length h" and "\<And>h. h \<in> words n \<Longrightarrow> g (f h) = h"
  shows "bij_betw f (words n) (words n)"
proof -
  have "inj_on f (words n)" using assms(2) by (rule inj_on_inverseI)
  moreover have "f ` words n \<subseteq> words n" using assms(1) by (auto simp: words_def)
  ultimately show ?thesis using finite_words[of n] by (simp add: bij_betw_def endo_inj_surj)
qed

lemma rot64_inverse:
  assumes "k \<le> 64"
  shows "rot64 (rot64 x k) (64 - k) = x"
proof (rule bit_word_eqI)
  fix n assume "n < LENGTH(64)"
  then show "bit (rot64 (rot64 x k) (64 - k)) n = bit x n"
    using assms by (auto simp: rot64_def bit_simps not_le dest: bit_imp_le_length)
qed

lemma step_lengths [simp]:
  "length (add_val i v h) = length h" "length (add_to i j h) = length h" "length (xor_to i j h) = length h" "length (rot_at i k h) = length h"
  by (simp_all add: add_val_def add_to_def xor_to_def rot_at_def)

lemma xor_twice: "(x XOR y) XOR y = (x :: u64)"
  by (simp add: xor.assoc)

lemma steps_bij:
  assumes "i < n"
  shows "bij_betw (add_val i v) (words n) (words n)"
    and "j \<noteq> i \<Longrightarrow> bij_betw (add_to i j) (words n) (words n)"
    and "j \<noteq> i \<Longrightarrow> bij_betw (xor_to i j) (words n) (words n)"
    and "k \<le> 64 \<Longrightarrow> bij_betw (rot_at i k) (words n) (words n)"
proof -
  show "bij_betw (add_val i v) (words n) (words n)"
    by (rule bij_words[of _ _ "\<lambda>h. h[i := h ! i - v]"]) (use assms in \<open>simp_all add: add_val_def words_def\<close>)
  show "bij_betw (add_to i j) (words n) (words n)" if "j \<noteq> i"
    by (rule bij_words[of _ _ "\<lambda>h. h[i := h ! i - h ! j]"]) (use assms that in \<open>simp_all add: add_to_def words_def\<close>)
  show "bij_betw (xor_to i j) (words n) (words n)" if "j \<noteq> i"
    by (rule bij_words[of _ _ "\<lambda>h. h[i := h ! i XOR h ! j]"]) (use assms that in \<open>simp_all add: xor_to_def words_def xor_twice\<close>)
  show "bij_betw (rot_at i k) (words n) (words n)" if "k \<le> 64"
    by (rule bij_words[of _ _ "rot_at i (64 - k)"]) (use assms that in \<open>simp_all add: rot_at_def words_def rot64_inverse\<close>)
qed

lemma steps_Nil [simp]: "steps [] h = h"
  by (simp add: steps_def)

lemma steps_Cons [simp]: "steps (f # fs) h = steps fs (f h)"
  by (simp add: steps_def)

lemma bij_steps: "\<forall>f \<in> set fs. bij_betw f (words n) (words n) \<Longrightarrow> bij_betw (steps fs) (words n) (words n)"
proof (induction fs)
  case (Cons f fs)
  then have "bij_betw (steps fs \<circ> f) (words n) (words n)" by (intro bij_betw_trans[of f]) simp_all
  moreover have "steps fs \<circ> f = steps (f # fs)" by (simp add: fun_eq_iff)
  ultimately show ?case by (simp only:)
qed (simp add: bij_betw_def inj_on_def)

text \<open>C30: The mixing functions lose no information: on the variables of the hash each of them is a bijection, \<open>mix\<close> for every block
  of data.\<close>

theorem mixing_is_bijective:
  "bij_betw (mix data) (words 12) (words 12) \<and> bij_betw endPartial (words 12) (words 12) \<and> bij_betw end_mix (words 12) (words 12) \<and>
   bij_betw short_mix (words 4) (words 4) \<and> bij_betw short_end (words 4) (words 4)"
proof (intro conjI)
  show "bij_betw (mix data) (words 12) (words 12)" unfolding mix_def
    by (rule bij_steps) (simp add: steps_bij)
  show e: "bij_betw endPartial (words 12) (words 12)" unfolding endPartial_def
    by (rule bij_steps) (simp add: steps_bij)
  have "end_mix = endPartial \<circ> (endPartial \<circ> endPartial)" by (simp add: fun_eq_iff end_mix_def)
  then show "bij_betw end_mix (words 12) (words 12)" using bij_betw_trans[OF bij_betw_trans[OF e e] e] by (simp only:)
  show "bij_betw short_mix (words 4) (words 4)" unfolding short_mix_def
    by (rule bij_steps) (simp add: steps_bij)
  show "bij_betw short_end (words 4) (words 4)" unfolding short_end_def
    by (rule bij_steps) (simp add: steps_bij)
qed

subsection \<open>The last bytes of a short message\<close>

lemma le_word_Nil [simp]: "le_word [] = 0"
  by (simp add: le_word_def)

lemma le_word_Cons: "(le_word (b # bs) :: 'a::len word) = ucast b + push_bit 8 (le_word bs)"
  by (simp add: le_word_def push_bit_eq_mult of_int_uint mult.commute)

lemma le_word_append: "(le_word (xs @ ys) :: 'a::len word) = le_word xs + push_bit (8 * length xs) (le_word ys)"
  by (induction xs) (simp_all add: le_word_Cons push_bit_add add.assoc)

lemma le_word_replicate [simp]: "(le_word (replicate n 0) :: 'a::len word) = 0"
  by (induction n) (simp_all add: le_word_Cons)

lemma le_word_zeros: "(le_word (xs @ replicate n 0) :: 'a::len word) = le_word xs"
  by (simp add: le_word_append)

lemma ucast_le_word: "length xs \<le> 4 \<Longrightarrow> ucast (le_word xs :: 32 word) = (le_word xs :: u64)"
  by (rule bit_word_eqI) (auto simp: bit_le_word bit_simps)

lemma byte_sums:
  assumes "length q \<le> 4"
  shows "(le_word q :: u64) = byte_at q 0 0 + byte_at q 1 8 + byte_at q 2 16 + byte_at q 3 24"
  using assms by (auto simp: byte_at_def le_word_Cons push_bit_add length_Suc_conv numeral_eq_Suc le_Suc_eq)

lemma byte_at_drop: "push_bit n (byte_at (drop m p) i k) = byte_at p (m + i) (k + n)"
  by (simp add: byte_at_def add.commute less_diff_conv2 push_bit_push_bit)

lemma byte_at_beyond: "length p \<le> i \<Longrightarrow> byte_at p i k = 0"
  by (simp add: byte_at_def)

lemma last_bytes:
  assumes "length p \<le> m + 3"
  shows "push_bit n (le_word (drop m p) :: u64) = byte_at p (m + 2) (16 + n) + byte_at p (m + 1) (8 + n) + byte_at p m n"
proof -
  have "length (drop m p) \<le> 4" "byte_at (drop m p) 3 24 = 0" using assms by (simp_all add: byte_at_beyond)
  from byte_sums[OF this(1)] this(2) show ?thesis
    by (simp add: push_bit_add byte_at_drop add.commute add.left_commute)
qed

lemma le_word_split: "(le_word p :: u64) = le_word (take k p) + push_bit (8 * k) (le_word (drop k p))" if "k \<le> length p"
  using le_word_append[of "take k p" "drop k p"] that by (simp add: min.absorb2)

text \<open>The switch on the last bytes of a short message, with its cases that fall through, adds to the two variables the little
  endian words of the last bytes filled up with zeros to 16; with no bytes left it adds the constant.\<close>

theorem short_tail_padded:
  assumes "length p < 16"
  shows "short_tail p = (if p = [] then (SC_CONST, SC_CONST)
    else (le_word (take 8 (p @ replicate (16 - length p) 0)), le_word (drop 8 (p @ replicate (16 - length p) 0))))"
proof -
  have fst8: "(le_word (take 8 (p @ replicate (16 - length p) 0)) :: u64) = (if 8 \<le> length p then le_word (take 8 p) else le_word p)"
    by (simp add: le_word_zeros)
  have snd8: "(le_word (drop 8 (p @ replicate (16 - length p) 0)) :: u64) = le_word (drop 8 p)"
    by (simp add: le_word_zeros)
  consider (a) "12 \<le> length p" | (b) "8 \<le> length p" "length p < 12" | (c) "4 \<le> length p" "length p < 8" | (d) "1 \<le> length p" "length p < 4" | (e) "p = []"
    by (cases p) force+
  then show ?thesis
  proof cases
    case a
    then have "4 \<le> length (drop 8 p)" by simp
    from le_word_split[OF this] show ?thesis using a assms last_bytes[of p 12 32]
      by (auto simp: short_tail_def fst8 snd8 ucast_le_word le_word_zeros add.commute)
  next
    case b
    then show ?thesis using last_bytes[of p 8 0] by (auto simp: short_tail_def fst8 snd8 le_word_zeros)
  next
    case c
    then show ?thesis using le_word_split[of 4 p] last_bytes[of p 4 32]
      by (auto simp: short_tail_def fst8 snd8 ucast_le_word le_word_zeros add.commute)
  next
    case d
    then show ?thesis using last_bytes[of p 0 0] by (auto simp: short_tail_def fst8 snd8 le_word_zeros numeral_2_eq_2)
  qed (simp add: short_tail_def)
qed

theorem short_tail_padded_witness:
  "short_tail [1, 2, 3, 4, 5] = (le_word [1, 2, 3, 4, 5, 0, 0, 0], le_word [0, 0, 0, 0, 0, 0, 0, 0])"
  using short_tail_padded[of "[1, 2, 3, 4, 5]"] by (simp add: numeral_eq_Suc)

subsection \<open>Feeding a message in pieces\<close>

interpretation sp: block_stream "\<lambda>h p. mix (view p) h" 96 mix_blocks
  by unfold_locales (simp_all add: mix_blocks.simps)

lemma steps_length: "\<forall>f \<in> set fs. \<forall>h. length (f h) = length h \<Longrightarrow> length (steps fs h) = length h"
  by (induction fs arbitrary: h) simp_all

lemma mix_length [simp]: "length (mix d h) = length h"
  unfolding mix_def by (rule steps_length) simp

lemma mix_blocks_length [simp]: "length (fst (mix_blocks h p)) = length h"
proof (induction h p rule: mix_blocks.induct)
  case (1 h p)
  then show ?case by (cases "96 \<le> length p") (simp_all add: mix_blocks.simps[of h p])
qed

lemma init_vars_length [simp]: "length (init_vars a b) = 12"
  by (simp add: init_vars_def eval_nat_numeral)

lemma two_blocks: "length d = 192 \<Longrightarrow> mix_blocks h (d @ p) = mix_blocks (mix (view (drop 96 d)) (mix (view (take 96 d)) h)) p"
  using sp.run_more[of "d @ p" h] sp.run_more[of "drop 96 d @ p"] by simp

text \<open>\<open>fed st a b m\<close>: the state has been initialised with the seeds and fed the bytes \<open>m\<close>; it keeps the bytes after some whole
  blocks, and the variables after these blocks.\<close>

definition fed :: "spooky_state \<Rightarrow> u64 \<Rightarrow> u64 \<Rightarrow> byte list \<Rightarrow> bool" where
  "fed st a b m \<longleftrightarrow> length (m_data st) = 192 \<and> length (m_state st) = 12 \<and> m_length st = length m \<and> m_remainder st < 192 \<and>
     (\<exists>bl. m = bl @ take (m_remainder st) (m_data st) \<and> 96 dvd length bl \<and>
       (if length m < 192 then bl = [] \<and> m_state st ! 0 = a \<and> m_state st ! 1 = b else m_state st = fst (mix_blocks (init_vars a b) bl)))"

lemma fedI:
  assumes "length (m_data st) = 192" "length (m_state st) = 12" "m_length st = length m" "m_remainder st < 192"
    and "m = bl @ rest" "take (m_remainder st) (m_data st) = rest" "96 dvd length bl"
    and "if length m < 192 then bl = [] \<and> m_state st ! 0 = a \<and> m_state st ! 1 = b else m_state st = fst (mix_blocks (init_vars a b) bl)"
  shows "fed st a b m"
  unfolding fed_def using assms by (intro conjI exI[of _ bl]) simp_all

lemma fed_init:
  assumes "length (m_data st) = 192" "length (m_state st) = 12"
  shows "fed (spooky_init a b st) a b []"
  using assms by (simp add: fed_def spooky_init_def)

lemma fed_update_short:
  assumes fed: "fed st a b m" and len: "length (m @ p) < 2 ^ 64" and short: "length p + m_remainder st < 192"
  shows "fed (spooky_update p st) a b (m @ p)"
proof -
  obtain bl where bl: "m = bl @ take (m_remainder st) (m_data st)" "96 dvd length bl"
    "if length m < 192 then bl = [] \<and> m_state st ! 0 = a \<and> m_state st ! 1 = b else m_state st = fst (mix_blocks (init_vars a b) bl)"
    and st: "length (m_data st) = 192" "length (m_state st) = 12" "m_length st = length m" "m_remainder st < 192"
    using fed by (auto simp: fed_def)
  have up: "spooky_update p st = st\<lparr>m_data := copy_at (m_data st) (m_remainder st) p, m_length := length (m @ p),
      m_remainder := m_remainder st + length p\<rparr>" (is "_ = ?st")
    using short len st(3) by (simp add: spooky_update_def Let_def add.commute)
  have new: "m @ p = bl @ take (m_remainder st + length p) (copy_at (m_data st) (m_remainder st) p)"
    using bl(1) short st(1) copy_at_take[of "m_remainder st" p "m_data st"] by simp
  have vars: "if length (m @ p) < 192 then bl = [] \<and> m_state st ! 0 = a \<and> m_state st ! 1 = b else m_state st = fst (mix_blocks (init_vars a b) bl)"
  proof (cases "length m < 192")
    case True
    then have "bl = []" using bl(3) by (simp only: if_True)
    then have "length (m @ p) < 192" using arg_cong[OF bl(1), of length] short st by simp
    then show ?thesis using True bl(3) by (simp only: if_True)
  next
    case False
    then show ?thesis using bl(3) by simp
  qed
  show ?thesis unfolding up
    by (rule fedI[OF _ _ _ _ new _ bl(2)]) (use st short vars in \<open>simp_all split: if_splits\<close>)
qed

lemma fed_update_long:
  assumes fed: "fed st a b m" and len: "length (m @ p) < 2 ^ 64" and long: "192 \<le> length p + m_remainder st"
  shows "fed (spooky_update p st) a b (m @ p)"
proof -
  let ?k = "m_remainder st" and ?h = "if m_length st < 192 then init_vars (m_state st ! 0) (m_state st ! 1) else m_state st"
  obtain bl where bl: "m = bl @ take ?k (m_data st)" "96 dvd length bl"
    "if length m < 192 then bl = [] \<and> m_state st ! 0 = a \<and> m_state st ! 1 = b else m_state st = fst (mix_blocks (init_vars a b) bl)"
    and st: "length (m_data st) = 192" "length (m_state st) = 12" "m_length st = length m" "?k < 192"
    using fed by (auto simp: fed_def)
  have h: "?h = fst (mix_blocks (init_vars a b) bl)" using bl(3) st(3) by (auto simp: sp.run_short)
  define data where "data = (if ?k \<noteq> 0 then copy_at (m_data st) ?k (take (192 - ?k) p) else m_data st)"
  define r where "r = mix_blocks ?h (take ?k (m_data st) @ p)"
  have data: "length data = 192" using st long by (simp add: data_def)
  have rest: "length (snd r) < 96" using sp.rest_length[of ?h "take ?k (m_data st) @ p"] by (simp add: r_def)
  have full: "copy_at (m_data st) ?k (take (192 - ?k) p) = take ?k (m_data st) @ take (192 - ?k) p"
    using long st by (intro copy_at_full) simp
  have two: "mix_blocks (mix (view (drop 96 data)) (mix (view (take 96 data)) ?h)) (drop (192 - ?k) p) = r" if "?k \<noteq> 0"
    using two_blocks[OF data, of ?h "drop (192 - ?k) p"] that by (simp add: data_def full r_def)
  have "?k \<le> length m" using arg_cong[OF bl(1), of length] st by simp
  then have nl: "(length p + ?k) mod 2 ^ 64 = length p + ?k" "(length p + m_length st) mod 2 ^ 64 = length (m @ p)"
    using len st(3) by simp_all
  have up: "spooky_update p st = st\<lparr>m_length := length (m @ p), m_remainder := length (snd r), m_data := copy_at data 0 (snd r), m_state := fst r\<rparr>"
  proof (cases "?k = 0")
    case True
    then show ?thesis using long nl rest by (simp add: spooky_update_def data_def r_def case_prod_unfold Let_def)
  next
    case False
    then show ?thesis using long nl rest two data_def st(4) by (simp add: spooky_update_def case_prod_unfold Let_def)
  qed
  obtain bl2 where bl2: "take ?k (m_data st) @ p = bl2 @ snd r" "96 dvd length bl2" "fst r = fst (mix_blocks ?h bl2)"
    using sp.run_split[of "take ?k (m_data st) @ p" ?h] by (auto simp: r_def)
  have split: "m @ p = (bl @ bl2) @ snd r" using bl(1) bl2(1) by (metis append.assoc)
  have "192 \<le> length (m @ p)" using arg_cong[OF bl(1), of length] long st by simp
  moreover have "fst r = fst (mix_blocks (init_vars a b) (bl @ bl2))" using sp.run_whole[OF bl(2)] bl2(3) h by simp
  moreover have "length (fst r) = 12" using st(2) by (simp add: r_def)
  ultimately show ?thesis unfolding up
    by (intro fedI[OF _ _ _ _ split]) (use st rest data bl(2) bl2(2) copy_at_take[of 0 "snd r" data] in \<open>simp_all\<close>)
qed

lemma fed_update: "fed st a b m \<Longrightarrow> length (m @ p) < 2 ^ 64 \<Longrightarrow> fed (spooky_update p st) a b (m @ p)"
  using fed_update_short fed_update_long by (metis not_le)

lemma fed_updates: "fed st a b m \<Longrightarrow> length (m @ concat ps) < 2 ^ 64 \<Longrightarrow> fed (fold spooky_update ps st) a b (m @ concat ps)"
proof (induction ps arbitrary: st m)
  case (Cons p ps)
  then have "fed (spooky_update p st) a b (m @ p)" by (intro fed_update) simp_all
  then show ?case using Cons.IH[of "spooky_update p st" "m @ p"] Cons.prems(2) by simp
qed simp

lemma fed_final:
  assumes "fed st a b m"
  shows "snd (spooky_final st x y) = (if length m < 192 then spooky_shorthash m x y else spooky_hash128 m a b)"
proof -
  let ?k = "m_remainder st"
  obtain bl where bl: "m = bl @ take ?k (m_data st)" "96 dvd length bl"
    "if length m < 192 then bl = [] \<and> m_state st ! 0 = a \<and> m_state st ! 1 = b else m_state st = fst (mix_blocks (init_vars a b) bl)"
    and st: "length (m_data st) = 192" "length (m_state st) = 12" "m_length st = length m" "?k < 192"
    using assms by (auto simp: fed_def)
  show ?thesis
  proof (cases "length m < 192")
    case True
    then have "m = take ?k (m_data st)" using bl by (simp only: if_True append_Nil)
    then have "take (length m) (m_data st) = m" using st(4) by (metis length_take min.absorb2 min.commute less_imp_le st(1))
    then show ?thesis using True st(3) by (simp add: spooky_final_def)
  next
    case False
    then have h: "m_state st = fst (mix_blocks (init_vars a b) bl)" using bl(3) by (simp only: if_False)
    have all: "mix_blocks (init_vars a b) m = mix_blocks (m_state st) (take ?k (m_data st))"
      using sp.run_whole[OF bl(2), of "init_vars a b" "take ?k (m_data st)"] by (simp only: bl(1)[symmetric] h[symmetric])
    show ?thesis
    proof (cases "96 \<le> ?k")
      case True
      then have "mix_blocks (m_state st) (take ?k (m_data st)) = (mix (view (take 96 (m_data st))) (m_state st), take (?k - 96) (drop 96 (m_data st)))"
        using st sp.run_more[of "take ?k (m_data st)" "m_state st"] by (simp add: sp.run_short min_def drop_take)
      then show ?thesis using True False st(3) all by (simp add: spooky_final_def spooky_hash128_def Let_def)
    next
      case short: False
      then show ?thesis using False st all by (simp add: spooky_final_def spooky_hash128_def sp.run_short Let_def)
    qed
  qed
qed

text \<open>C6: Hashing a message in pieces: after \<open>spooky_init\<close> and any number of calls of \<open>spooky_update\<close>, \<open>spooky_final\<close> gives the hash that
  \<open>spooky_hash128\<close> gives for the whole message and the seeds, if the message has 192 bytes or more.  For a shorter
  message \<open>spooky_final\<close> does not use the seeds given to \<open>spooky_init\<close>, but whatever its output arguments hold when
  it is called.\<close>

theorem spooky_pieces:
  assumes "length (m_data st) = 192" "length (m_state st) = 12" and "length (concat ps) < 2 ^ 64"
  shows "snd (spooky_final (fold spooky_update ps (spooky_init seed1 seed2 st)) x y) =
    (if length (concat ps) < 192 then spooky_hash128 (concat ps) x y else spooky_hash128 (concat ps) seed1 seed2)"
proof -
  have "fed (fold spooky_update ps (spooky_init seed1 seed2 st)) seed1 seed2 ([] @ concat ps)"
    using assms by (intro fed_updates fed_init) simp_all
  from fed_final[OF this, of x y] show ?thesis by (simp add: spooky_hash128_def)
qed

theorem spooky_pieces_witness:
  "snd (spooky_final (fold spooky_update [replicate 150 1, replicate 200 2, []] (spooky_init 7 8
     \<lparr>m_data = replicate 192 0, m_state = replicate 12 0, m_length = 5, m_remainder = 3\<rparr>)) 0 0) =
   spooky_hash128 (replicate 150 1 @ replicate 200 2) 7 8"
  using spooky_pieces[of "\<lparr>m_data = replicate 192 0, m_state = replicate 12 0, m_length = 5, m_remainder = 3\<rparr>"
      "[replicate 150 1, replicate 200 2, []]" 7 8 0 0] by simp

end
