(* ===== verification/Approx_Unique.thy ===== *)
theory Approx_Unique
  imports Hash_Spooky Approx_Frequent
begin

text \<open>
  \<open>approxalgos/ApproxUnique\<close>: the estimate of the number of different values of a column.  Every selected value is hashed; the
  upper bits of the hash choose one of 65536 bins, and a bin keeps the greatest number of trailing zeros seen, plus
  one.  While too many bins are unused, neighbours are merged.  The estimate is computed in \<open>double\<close> arithmetic.  The seed, which
  the code takes from the clock, is an argument; allocation succeeds.
\<close>

unbundle bit_operations_syntax

subsection \<open>Rank and bin of a hash value\<close>

text \<open>\<open>__builtin_ctzll\<close>, the number of trailing zeros of a word other than zero.\<close>

definition ctzll :: "u64 \<Rightarrow> nat" where
  "ctzll w = length (takeWhile (\<lambda>i. \<not> bit w i) [0..<64])"

definition determine_rho_loc :: "u64 \<Rightarrow> nat \<Rightarrow> (int \<times> nat) outcome" where
  "determine_rho_loc hash_val m = (if hash_val = 0 then Bye else
     let rho = int (ctzll hash_val) + 1;
         uint_hash_val = ucast (drop_bit (64 - 20) hash_val) :: 32 word;
         loc = unat (uint_hash_val AND of_nat (m - 1))
     in if rho > 64 - 20 then Bye else Ret (rho, loc))"

subsection \<open>One pass over the data\<close>

definition BLOCK_SIZE :: int where [simp]: "BLOCK_SIZE = 1048576"

text \<open>\<open>x[i]\<close> for a 64-bit index, and the test of \<open>cfld[i]\<close>; with no selection every row is selected.\<close>

definition elem_at :: "'a list \<Rightarrow> int \<Rightarrow> ('s, 'a) prog" where
  "elem_at xs i = seq (Q_Prelude.within (in_range i xs)) (ret (xs ! nat i))"

definition row_selected :: "I1 list option \<Rightarrow> int \<Rightarrow> ('s, bool) prog" where
  "row_selected cfld i = (case cfld of None \<Rightarrow> ret True | Some c \<Rightarrow> bind (elem_at c i) (\<lambda>v. ret (v \<noteq> 0)))"

text \<open>The loop that computes the hash values of a block, and the loop that updates \<open>max_rho\<close>.\<close>

definition hash_rows :: "u64 \<Rightarrow> I4 list \<Rightarrow> I1 list option \<Rightarrow> int \<Rightarrow> nat \<Rightarrow> (u64 list, unit) prog" where
  "hash_rows seed x cfld lb n = for_each (\<lambda>ii. bind (row_selected cfld (lb + int ii)) (\<lambda>sel.
     if sel then bind (elem_at x (lb + int ii)) (\<lambda>v. put_at ii (spooky_hash64 (le_bytes v) seed)) else ret ())) [0..<n]"

definition rho_rows :: "u64 list \<Rightarrow> nat \<Rightarrow> I1 list option \<Rightarrow> int \<Rightarrow> nat \<Rightarrow> (int list, unit) prog" where
  "rho_rows hashval m cfld lb n = for_each (\<lambda>ii. bind (row_selected cfld (lb + int ii)) (\<lambda>sel.
     if sel then bind (elem_at hashval (int ii)) (\<lambda>h. bind (lift_out (determine_rho_loc h m)) (\<lambda>(rho, loc).
        bind (gets id) (\<lambda>max_rho. bind (elem_at max_rho (int loc)) (\<lambda>r. if r < rho then put_at loc rho else ret ()))))
     else ret ())) [0..<n]"

text \<open>A block: its boundaries are computed from an \<open>int\<close> product.  The state is \<open>max_rho\<close> and \<open>hashval\<close>.\<close>

definition uniq_block :: "u64 \<Rightarrow> I4 list \<Rightarrow> I1 list option \<Rightarrow> int \<Rightarrow> nat \<Rightarrow> int \<Rightarrow> (int list \<times> u64 list, unit) prog" where
  "uniq_block seed x cfld siz m c = (\<lambda>(max_rho, hashval). let
     lb = to_int32 (c * BLOCK_SIZE);
     ub = (if lb + BLOCK_SIZE > siz then siz else lb + BLOCK_SIZE);
     n = nat (ub - lb)
   in case hash_rows seed x cfld lb n hashval of
        (Ret _, hashval) \<Rightarrow> (case rho_rows hashval m cfld lb n max_rho of (r, max_rho) \<Rightarrow> (r, max_rho, hashval))
      | (Bye, hashval) \<Rightarrow> (Bye, max_rho, hashval) | (Fault, hashval) \<Rightarrow> (Fault, max_rho, hashval))"

definition num_blocks :: "int \<Rightarrow> int" where
  "num_blocks siz = (let nb = to_int32 (siz div BLOCK_SIZE) in if to_int32 (nb * BLOCK_SIZE) \<noteq> siz then to_int32 (nb + 1) else nb)"

subsection \<open>Merging bins\<close>

definition count_zero :: "nat \<Rightarrow> int list \<Rightarrow> nat" where
  "count_zero m max_rho = length (filter (\<lambda>r. r = 0) (take m max_rho))"

text \<open>The loop that merges neighbours in place; an access outside the array is \<open>None\<close>.\<close>

function merge_pairs :: "nat \<Rightarrow> nat \<Rightarrow> nat \<Rightarrow> int list \<Rightarrow> (nat \<times> int list) option" where
  "merge_pairs m ii jj max_rho = (if ii < m then
     (if ii + 1 < length max_rho \<and> jj < length max_rho
      then merge_pairs m (ii + 2) (jj + 1) (max_rho[jj := if max_rho ! ii \<ge> max_rho ! (ii + 1) then max_rho ! ii else max_rho ! (ii + 1)])
      else None)
     else Some (jj, max_rho))"
  by pat_completeness auto
termination by (relation "measure (\<lambda>(m, ii, jj, r). m - ii)") auto

declare merge_pairs.simps [simp del]

text \<open>The outer loop; the number of bins is halved as long as it is even.\<close>

function merge_bins :: "nat \<Rightarrow> int list \<Rightarrow> (nat \<times> int list) option" where
  "merge_bins m max_rho = (if count_zero m max_rho > m div 100 \<and> m > 128 then
     (case merge_pairs m 0 0 max_rho of None \<Rightarrow> None | Some (m', max_rho') \<Rightarrow> if m' < m then merge_bins m' max_rho' else None)
     else Some (m, max_rho))"
  by pat_completeness auto
termination by (relation "measure fst") auto

declare merge_bins.simps [simp del]

subsection \<open>The estimate\<close>

text \<open>The square root, rounded: the integer root of a number, digit by digit, with enough digits that what is cut
  off does not change the rounding.\<close>

primrec root_digits :: "nat \<Rightarrow> int \<Rightarrow> int \<Rightarrow> int" where
  "root_digits 0 n r = r"
| "root_digits (Suc b) n r = root_digits b n (if (r + 2 ^ b) ^ 2 \<le> n then r + 2 ^ b else r)"

definition sqrt_double :: "nat \<Rightarrow> rat" where
  "sqrt_double m = (let r = root_digits 70 (int m * 4 ^ 60) 0 in
     double (if r ^ 2 = int m * 4 ^ 60 then of_int r / 2 ^ 60 else of_int (2 * r + 1) / 2 ^ 61))"

definition accuracy_percent :: "nat \<Rightarrow> rat" where
  "accuracy_percent m = double (double (double (double (104 / 100) / sqrt_double m) * 3) * 100)"

definition harmonic :: "int list \<Rightarrow> rat" where
  "harmonic rs = double (1 / fold (\<lambda>r t. double (t + pow2 (- r))) rs 0)"

definition alpha_m :: "nat \<Rightarrow> rat" where
  "alpha_m m = double (double (7213 / 10000) / double (1 + double (double (1079 / 1000) / of_nat m)))"

definition estimate_value :: "int list \<Rightarrow> rat" where
  "estimate_value rs = (let m = length rs in double (double (alpha_m m * of_nat (m ^ 2)) * harmonic rs))"

text \<open>The conversion to \<open>int\<close> is undefined outside its range.\<close>

definition estimate :: "int list \<Rightarrow> int option" where
  "estimate rs = (let v = \<lfloor>estimate_value rs\<rfloor> in if v \<le> INT_MAX then Some v else None)"

subsection \<open>approx_unique\<close>

text \<open>The outputs; \<open>None\<close> is a \<open>NULL\<close> pointer, through which a write is a fault.\<close>

record uniq_out =
  u_y :: "int option"
  u_acc :: "rat option"
  u_good :: "int option"

definition put_y :: "int \<Rightarrow> (uniq_out, unit) prog" where
  "put_y v = bind (gets u_y) (\<lambda>p. seq (Q_Prelude.within (p \<noteq> None)) (modify (\<lambda>u. u\<lparr>u_y := Some v\<rparr>)))"

definition put_acc :: "rat \<Rightarrow> (uniq_out, unit) prog" where
  "put_acc v = bind (gets u_acc) (\<lambda>p. seq (Q_Prelude.within (p \<noteq> None)) (modify (\<lambda>u. u\<lparr>u_acc := Some v\<rparr>)))"

definition put_good :: "int \<Rightarrow> (uniq_out, unit) prog" where
  "put_good v = bind (gets u_good) (\<lambda>p. seq (Q_Prelude.within (p \<noteq> None)) (modify (\<lambda>u. u\<lparr>u_good := Some v\<rparr>)))"

definition no_estimate :: "int \<Rightarrow> (uniq_out, unit) prog" where
  "no_estimate good = seq (put_good good) (seq (put_acc 100) (put_y (- 1)))"

definition final_computation :: "nat \<Rightarrow> int list \<Rightarrow> (uniq_out, unit) prog" where
  "final_computation m max_rho = (if count_zero m max_rho < m div 100
     then seq (put_good 1) (seq (put_acc (accuracy_percent m))
       (case estimate (take m max_rho) of None \<Rightarrow> fault | Some v \<Rightarrow> put_y v))
     else no_estimate (- 2))"

definition NUM_BINS :: nat where [simp]: "NUM_BINS = 65536"

definition approx_unique :: "u64 \<Rightarrow> I4 list option \<Rightarrow> I1 list option \<Rightarrow> int \<Rightarrow> (uniq_out, unit) prog" where
  "approx_unique seed x cfld siz =
     seq (put_y (- 1)) (seq (put_acc 100) (seq (put_good (- 1))
    (case x of None \<Rightarrow> bye | Some xs \<Rightarrow>
     seq (guard (siz > 0))
    (case for_each (uniq_block seed xs cfld siz NUM_BINS) (map int [0..<nat (num_blocks siz)])
            (replicate NUM_BINS 0, replicate (nat BLOCK_SIZE) 0) of
       (Fault, _) \<Rightarrow> fault
     | (Bye, _) \<Rightarrow> no_estimate (- 3)
     | (Ret _, max_rho, _) \<Rightarrow> (case merge_bins NUM_BINS max_rho of None \<Rightarrow> fault | Some (m, max_rho) \<Rightarrow> final_computation m max_rho)))))"

end
