(* ===== verification/Approx_Unique_Proofs.thy ===== *)
theory Approx_Unique_Proofs
  imports Approx_Unique
begin

text \<open>
  What \<open>approx_unique\<close> computes: the greatest rank per bin of the set of selected values, merged until few bins are
  unused.  The pass over the data is reduced to a fold over the selected values; the locale \<open>rank_bins\<close> holds what the bins
  need to know of the function that gives the rank and the bin of a value.
\<close>

unbundle bit_operations_syntax

subsection \<open>Trailing zeros\<close>

lemma ctzll_least:
  assumes "w \<noteq> 0"
  shows "ctzll w < 64" and "bit w (ctzll w)" and "\<And>i. i < ctzll w \<Longrightarrow> \<not> bit w i"
proof -
  let ?p = "\<lambda>i. \<not> bit w i"
  obtain i where i: "bit w i" using assms by (auto simp: bit_eq_iff)
  then have "i \<in> set [0..<64]" using bit_imp_le_length[of w i] by simp
  then have "takeWhile ?p [0..<64] \<noteq> [0..<64]" using i by (auto simp: takeWhile_eq_all_conv)
  then have "length (takeWhile ?p [0..<64]) \<noteq> 64" using takeWhile_eq_take[of ?p "[0..<64]"] by auto
  then show l: "ctzll w < 64" using length_takeWhile_le[of ?p "[0..<64]"] by (simp add: ctzll_def)
  show "bit w (ctzll w)" using nth_length_takeWhile[of ?p "[0..<64]"] l by (simp add: ctzll_def)
  show "\<not> bit w j" if "j < ctzll w" for j
  proof -
    have "takeWhile ?p [0..<64] ! j \<in> set (takeWhile ?p [0..<64])" using that by (intro nth_mem) (simp add: ctzll_def)
    moreover have "takeWhile ?p [0..<64] ! j = j" using that l takeWhile_nth[of j ?p "[0..<64]"] by (simp add: ctzll_def)
    ultimately show ?thesis using set_takeWhileD by fastforce
  qed
qed

lemma dvd_bits: "2 ^ n dvd uint (w :: u64) \<longleftrightarrow> (\<forall>i < n. \<not> bit w i)"
proof -
  have "2 ^ n dvd uint w \<longleftrightarrow> take_bit n (uint w) = 0" by (simp add: take_bit_eq_0_iff)
  also have "\<dots> \<longleftrightarrow> (\<forall>i < n. \<not> bit w i)" by (auto simp: bit_eq_iff bit_simps dest: bit_imp_le_length)
  finally show ?thesis .
qed

lemma ctzll_dvd:
  assumes "w \<noteq> 0"
  shows "2 ^ n dvd uint w \<longleftrightarrow> n \<le> ctzll w"
  using ctzll_least[OF assms] by (metis dvd_bits linorder_not_less order_less_le_trans)

lemma determine_rho_loc_run:
  assumes "k \<le> 20"
  shows "case determine_rho_loc h (2 ^ k) of
      Ret (rho, loc) \<Rightarrow> 1 \<le> rho \<and> rho \<le> 44 \<and> 2 ^ (nat rho - 1) dvd uint h \<and> \<not> 2 ^ nat rho dvd uint h \<and>
        int loc = uint h div 2 ^ 44 mod 2 ^ k
    | Bye \<Rightarrow> 2 ^ 44 dvd uint h
    | Fault \<Rightarrow> False"
proof -
  have loc: "int (unat ((ucast (drop_bit 44 h) :: 32 word) AND of_nat (2 ^ k - 1))) = uint h div 2 ^ 44 mod 2 ^ k"
  proof -
    have "of_nat (2 ^ k - 1) = (mask k :: 32 word)" by (simp add: mask_eq_exp_minus_1 of_nat_diff)
    then have "int (unat ((ucast (drop_bit 44 h) :: 32 word) AND of_nat (2 ^ k - 1))) = uint (take_bit k (ucast (drop_bit 44 h) :: 32 word))"
      by (simp add: take_bit_eq_mask)
    also have "\<dots> = take_bit k (uint (ucast (drop_bit 44 h) :: 32 word))" by (simp add: unsigned_take_bit_eq)
    also have "\<dots> = take_bit k (drop_bit 44 (uint h))" using assms
      by (simp add: unsigned_ucast_eq unsigned_drop_bit_eq) (auto simp: bit_eq_iff bit_simps dest: bit_imp_le_length)
    finally show ?thesis by (simp add: take_bit_eq_mod drop_bit_eq_div)
  qed
  show ?thesis
  proof (cases "h = 0")
    case False
    note c = ctzll_dvd[OF False]
    show ?thesis using False loc c[of 44] c[of "ctzll h"] c[of "Suc (ctzll h)"] by (auto simp: determine_rho_loc_def Let_def nat_add_distrib)
  qed (simp add: determine_rho_loc_def)
qed

text \<open>The rank of a hash value is the number of its trailing zeros plus one, and its bin is given by its upper 20 bits modulo
  the number of bins; the value is refused exactly when it is a multiple of \<open>2 ^ 44\<close>.\<close>

theorem determine_rho_loc_spec:
  assumes "k \<le> 20"
  shows "case determine_rho_loc h (2 ^ k) of
      Ret (rho, loc) \<Rightarrow> 1 \<le> rho \<and> rho \<le> 44 \<and> 2 ^ (nat rho - 1) dvd uint h \<and> \<not> 2 ^ nat rho dvd uint h \<and>
        int loc = uint h div 2 ^ 44 mod 2 ^ k
    | Bye \<Rightarrow> 2 ^ 44 dvd uint h
    | Fault \<Rightarrow> False"
  using assms by (rule determine_rho_loc_run)

theorem determine_rho_loc_spec_witness:
  "case determine_rho_loc 0x8001000000000008 (2 ^ 16) of
      Ret (rho, loc) \<Rightarrow> 1 \<le> rho \<and> rho \<le> 44 \<and> 2 ^ (nat rho - 1) dvd uint (0x8001000000000008 :: u64) \<and> \<not> 2 ^ nat rho dvd uint (0x8001000000000008 :: u64) \<and>
        int loc = uint (0x8001000000000008 :: u64) div 2 ^ 44 mod 2 ^ 16
    | Bye \<Rightarrow> 2 ^ 44 dvd uint (0x8001000000000008 :: u64)
    | Fault \<Rightarrow> False"
  by (rule determine_rho_loc_spec) simp

subsection \<open>The greatest rank of a bin\<close>

text \<open>Bin \<open>b\<close> after \<open>k\<close> rounds of merging, for the set \<open>V\<close> of values.\<close>

definition bin_max :: "('a \<Rightarrow> (int \<times> nat) outcome) \<Rightarrow> 'a set \<Rightarrow> nat \<Rightarrow> nat \<Rightarrow> int" where
  "bin_max rl V k b = Max (insert 0 {r. \<exists>v \<in> V. \<exists>l. rl v = Ret (r, l) \<and> l div 2 ^ k = b})"

definition sketch :: "('a \<Rightarrow> (int \<times> nat) outcome) \<Rightarrow> 'a set \<Rightarrow> nat \<Rightarrow> int list" where
  "sketch rl V k = map (bin_max rl V k) [0..<2 ^ (16 - k)]"

text \<open>The update of \<open>max_rho\<close> for one value.\<close>

definition put_max :: "('a \<Rightarrow> (int \<times> nat) outcome) \<Rightarrow> 'a \<Rightarrow> (int list, unit) prog" where
  "put_max rl v = bind (lift_out (rl v)) (\<lambda>(rho, loc).
     bind (gets id) (\<lambda>max_rho. bind (elem_at max_rho (int loc)) (\<lambda>r. if r < rho then put_at loc rho else ret ())))"

lemma finite_ranks: "finite V \<Longrightarrow> finite {r :: int. \<exists>v \<in> V. \<exists>l. rl v = Ret (r, l) \<and> P l}"
  by (rule finite_subset[of _ "(\<lambda>v. case rl v of Ret (r, l) \<Rightarrow> r | _ \<Rightarrow> 0) ` V"]) force+

lemma bin_max_insert:
  assumes "finite V"
  shows "bin_max rl (insert v V) k b = (case rl v of Ret (r, l) \<Rightarrow> if l div 2 ^ k = b then max r (bin_max rl V k b) else bin_max rl V k b | _ \<Rightarrow> bin_max rl V k b)"
proof (cases "\<exists>r l. rl v = Ret (r, l) \<and> l div 2 ^ k = b")
  case True
  then obtain r l where r: "rl v = Ret (r, l)" "l div 2 ^ k = b" by blast
  then have "insert 0 {r. \<exists>v' \<in> insert v V. \<exists>l. rl v' = Ret (r, l) \<and> l div 2 ^ k = b} =
    insert r (insert 0 {r. \<exists>v \<in> V. \<exists>l. rl v = Ret (r, l) \<and> l div 2 ^ k = b})" by auto
  then show ?thesis using r finite_ranks[OF assms, of rl "\<lambda>l. l div 2 ^ k = b"] by (simp add: bin_max_def)
next
  case False
  then have "{r. \<exists>v' \<in> insert v V. \<exists>l. rl v' = Ret (r, l) \<and> l div 2 ^ k = b} = {r. \<exists>v \<in> V. \<exists>l. rl v = Ret (r, l) \<and> l div 2 ^ k = b}" by auto
  then show ?thesis using False by (auto simp: bin_max_def split: outcome.splits)
qed

lemma bin_max_empty: "bin_max rl {} k b = 0"
  by (simp add: bin_max_def)

lemma bin_max_ge0: "finite V \<Longrightarrow> 0 \<le> bin_max rl V k b"
  using finite_ranks[of V rl "\<lambda>l. l div 2 ^ k = b"] by (simp add: bin_max_def)

lemma bin_max_merge:
  assumes "finite V"
  shows "bin_max rl V (Suc k) b = max (bin_max rl V k (2 * b)) (bin_max rl V k (2 * b + 1))"
  using assms
proof (induction V)
  case (insert v V)
  have "l div 2 ^ Suc k = b \<longleftrightarrow> l div 2 ^ k = 2 * b \<or> l div 2 ^ k = 2 * b + 1" for l :: nat
    by (simp add: div_mult2_eq mult.commute[of 2]) arith
  then show ?case using insert by (auto simp: bin_max_insert max_def split: outcome.splits)
qed (simp add: bin_max_empty)

lemma sketch_length [simp]: "length (sketch rl V k) = 2 ^ (16 - k)"
  by (simp add: sketch_def)

lemma sketch_nth: "b < 2 ^ (16 - k) \<Longrightarrow> sketch rl V k ! b = bin_max rl V k b"
  by (simp add: sketch_def)

locale rank_bins =
  fixes rl :: "'a \<Rightarrow> (int \<times> nat) outcome"
  assumes not_fault: "rl v \<noteq> Fault"
    and rank_bin: "rl v = Ret (r, l) \<Longrightarrow> 0 < r \<and> l < 2 ^ 16"
begin

lemma put_max_run:
  assumes "finite V"
  shows "put_max rl v (sketch rl V 0) = (case rl v of Bye \<Rightarrow> (Bye, sketch rl V 0) | _ \<Rightarrow> (Ret (), sketch rl (insert v V) 0))"
proof (cases "rl v")
  case (Ret p)
  obtain r l where p: "p = (r, l)" by fastforce
  then have l: "l < 2 ^ 16" using rank_bin Ret by blast
  let ?old = "sketch rl V 0" and ?new = "sketch rl (insert v V) 0"
  have "?new = (if ?old ! l < r then ?old[l := r] else ?old)"
    by (rule nth_equalityI) (use Ret p l assms in \<open>auto simp: sketch_nth bin_max_insert nth_list_update max_def\<close>)
  then show ?thesis using Ret p l
    by (simp add: put_max_def prog_defs elem_at_def in_range_def put_at_def)
next
  case Bye
  then show ?thesis by (simp add: put_max_def prog_defs)
qed (simp add: not_fault)

lemma put_all:
  "finite V \<Longrightarrow> if \<exists>v \<in> set vs. rl v = Bye then fst (for_each (put_max rl) vs (sketch rl V 0)) = Bye
    else for_each (put_max rl) vs (sketch rl V 0) = (Ret (), sketch rl (V \<union> set vs) 0)"
proof (induction vs arbitrary: V)
  case (Cons v vs)
  show ?case
  proof (cases "rl v = Bye")
    case True
    then show ?thesis using put_max_run[OF Cons.prems, of v] by (simp add: seq_def bind_def)
  next
    case False
    then have "put_max rl v (sketch rl V 0) = (Ret (), sketch rl (insert v V) 0)"
      using put_max_run[OF Cons.prems, of v] by (simp split: outcome.splits)
    then show ?thesis using False Cons.IH[of "insert v V"] Cons.prems by (simp add: seq_def bind_def)
  qed
qed (simp add: ret_def)

end

subsection \<open>The pass over the data\<close>

definition rho_loc :: "u64 \<Rightarrow> I4 \<Rightarrow> (int \<times> nat) outcome" where
  "rho_loc seed v = determine_rho_loc (spooky_hash64 (le_bytes v) seed) NUM_BINS"

lemma rho_loc_cases: "rho_loc seed v = Bye \<or> (\<exists>r l. rho_loc seed v = Ret (r, l) \<and> 0 < r \<and> r \<le> 44 \<and> l < 2 ^ 16)"
proof -
  have "int loc = a mod 2 ^ 16 \<Longrightarrow> loc < 2 ^ 16" for loc and a :: int
    using pos_mod_bound[of "2 ^ 16" a] by simp
  then show ?thesis using determine_rho_loc_run[of 16 "spooky_hash64 (le_bytes v) seed"]
    by (auto simp: rho_loc_def split: outcome.splits)
qed

interpretation uniq: rank_bins "rho_loc seed" for seed
  using rho_loc_cases by unfold_locales (metis outcome.distinct(1,3,5) outcome.inject prod.inject)+

text \<open>The rows that are selected, and their values.\<close>

definition row_sel :: "I1 list option \<Rightarrow> nat \<Rightarrow> bool" where
  "row_sel cfld i \<longleftrightarrow> (case cfld of None \<Rightarrow> True | Some c \<Rightarrow> c ! i \<noteq> 0)"

definition rows_given :: "I4 list \<Rightarrow> I1 list option \<Rightarrow> nat \<Rightarrow> bool" where
  "rows_given xs cfld n \<longleftrightarrow> n \<le> length xs \<and> (case cfld of None \<Rightarrow> True | Some c \<Rightarrow> n \<le> length c)"

definition values_of :: "I4 list \<Rightarrow> I1 list option \<Rightarrow> nat list \<Rightarrow> I4 list" where
  "values_of xs cfld is = map (\<lambda>i. xs ! i) (filter (row_sel cfld) is)"

lemma row_selected_run: "rows_given xs cfld n \<Longrightarrow> i < n \<Longrightarrow> row_selected cfld (int i) = ret (row_sel cfld i)"
  by (auto simp: row_selected_def rows_given_def row_sel_def elem_at_def in_range_def prog_defs fun_eq_iff split: option.splits)

lemma elem_at_run: "i < length xs \<Longrightarrow> elem_at xs (int i) = ret (xs ! i)"
  by (simp add: elem_at_def in_range_def prog_defs fun_eq_iff)

lemma bind_ret [simp]: "bind (ret a) f = f a"
  by (simp add: bind_def ret_def fun_eq_iff)

lemma hash_rows_run:
  assumes "rows_given xs cfld (lb + n)" and "n \<le> length hv"
  shows "\<exists>hv'. hash_rows seed xs cfld (int lb) n hv = (Ret (), hv') \<and> length hv' = length hv \<and>
    (\<forall>i < n. row_sel cfld (lb + i) \<longrightarrow> hv' ! i = spooky_hash64 (le_bytes (xs ! (lb + i))) seed)"
  using assms
proof (induction n)
  case 0
  then show ?case by (simp add: hash_rows_def ret_def)
next
  case (Suc n)
  then obtain hv' where hv': "hash_rows seed xs cfld (int lb) n hv = (Ret (), hv')" "length hv' = length hv"
    "\<forall>i < n. row_sel cfld (lb + i) \<longrightarrow> hv' ! i = spooky_hash64 (le_bytes (xs ! (lb + i))) seed"
    by (auto simp: rows_given_def split: option.splits)
  have row: "row_selected cfld (int lb + int n) = ret (row_sel cfld (lb + n))"
    using row_selected_run[OF Suc.prems(1), of "lb + n"] by simp
  have el: "elem_at xs (int lb + int n) = ret (xs ! (lb + n))"
    using elem_at_run[of "lb + n" xs] Suc.prems(1) by (simp add: rows_given_def)
  define w where "w = (if row_sel cfld (lb + n) then hv'[n := spooky_hash64 (le_bytes (xs ! (lb + n))) seed] else hv')"
  have "hash_rows seed xs cfld (int lb) (Suc n) hv = (Ret (), w)"
    using hv' Suc.prems(2) by (simp add: hash_rows_def for_each_snoc row el w_def) (simp add: seq_def bind_def put_at_def ret_def)
  then show ?case using hv'(2,3) Suc.prems(2) by (auto simp: w_def less_Suc_eq)
qed

lemma for_each_filter:
  "(\<And>i. i \<in> set is \<Longrightarrow> f i = (if P i then g (v i) else ret ())) \<Longrightarrow> for_each f is = for_each g (map v (filter P is))"
  by (induction "is") (simp_all add: seq_def)

lemma for_each_append: "for_each f (xs @ ys) = seq (for_each f xs) (for_each f ys)"
  by (induction xs) (simp_all add: seq_def fun_eq_iff bind_def ret_def split: prod.splits outcome.splits)

lemma rho_rows_run:
  assumes "rows_given xs cfld (lb + n)" and "n \<le> length hv"
    and "\<forall>i < n. row_sel cfld (lb + i) \<longrightarrow> hv ! i = spooky_hash64 (le_bytes (xs ! (lb + i))) seed"
  shows "rho_rows hv NUM_BINS cfld (int lb) n = for_each (put_max (rho_loc seed)) (values_of xs cfld [lb..<lb + n])"
proof -
  have "rho_rows hv NUM_BINS cfld (int lb) n = for_each (put_max (rho_loc seed)) (map (\<lambda>i. xs ! (lb + i)) (filter (\<lambda>i. row_sel cfld (lb + i)) [0..<n]))"
    unfolding rho_rows_def
  proof (rule for_each_filter, goal_cases)
    case (1 i)
    then have i: "i < n" by simp
    have row: "row_selected cfld (int lb + int i) = ret (row_sel cfld (lb + i))"
      using row_selected_run[OF assms(1), of "lb + i"] i by simp
    have el: "elem_at hv (int i) = ret (hv ! i)" using elem_at_run[of i hv] assms(2) i by simp
    show ?case using assms(3) i by (auto simp: row el put_max_def rho_loc_def)
  qed
  also have "map (\<lambda>i. xs ! (lb + i)) (filter (\<lambda>i. row_sel cfld (lb + i)) [0..<n]) = values_of xs cfld [lb..<lb + n]"
    using map_add_upt[of lb n, symmetric] by (simp add: values_of_def filter_map o_def add.commute)
  finally show ?thesis .
qed

text \<open>The rows of a block; the blocks together are all rows.\<close>

definition block_rows :: "nat \<Rightarrow> nat \<Rightarrow> nat list" where
  "block_rows n c = [c * 1048576..<min (Suc c * 1048576) n]"

lemma block_rows_cover: "concat (map (block_rows n) [0..<k]) = [0..<min (k * 1048576) n]"
proof (induction k)
  case (Suc k)
  have "[0..<min (k * 1048576) n] @ block_rows n k = [0..<min (Suc k * 1048576) n]"
  proof (cases "k * 1048576 \<le> n")
    case True
    then have "k * 1048576 + (min (Suc k * 1048576) n - k * 1048576) = min (Suc k * 1048576) n" by simp
    then show ?thesis using upt_add_eq_append[of 0 "k * 1048576" "min (Suc k * 1048576) n - k * 1048576"] True
      by (simp add: block_rows_def)
  qed (simp add: block_rows_def)
  then show ?case using Suc by simp
qed simp

lemma uniq_block_run:
  assumes "rows_given xs cfld n" and "n < 2 ^ 31" and "c * 1048576 < n" and "length hv = 1048576"
  shows "\<exists>hv'. length hv' = 1048576 \<and> uniq_block seed xs cfld (int n) NUM_BINS (int c) (mr, hv) =
    (case for_each (put_max (rho_loc seed)) (values_of xs cfld (block_rows n c)) mr of (r, mr') \<Rightarrow> (r, mr', hv'))"
proof -
  let ?lb = "c * 1048576"
  let ?k = "min (Suc c * 1048576) n - ?lb"
  have lb: "to_int32 (int c * BLOCK_SIZE) = int ?lb" using assms(2,3) by (subst to_int32_id) simp_all
  have k: "?k \<le> 1048576" "?lb + ?k = min (Suc c * 1048576) n" using assms(3) by auto
  have ub: "nat ((if int ?lb + BLOCK_SIZE > int n then int n else int ?lb + BLOCK_SIZE) - int ?lb) = ?k" using assms(3) by auto
  have given: "rows_given xs cfld (?lb + ?k)" using assms(1) k(2) by (auto simp: rows_given_def split: option.splits)
  obtain hv' where hv': "hash_rows seed xs cfld (int ?lb) ?k hv = (Ret (), hv')" "length hv' = length hv"
    "\<forall>i < ?k. row_sel cfld (?lb + i) \<longrightarrow> hv' ! i = spooky_hash64 (le_bytes (xs ! (?lb + i))) seed"
    using hash_rows_run[OF given, of hv seed] k(1) assms(4) by auto
  have "rho_rows hv' NUM_BINS cfld (int ?lb) ?k = for_each (put_max (rho_loc seed)) (values_of xs cfld [?lb..<?lb + ?k])"
    by (rule rho_rows_run[OF given _ hv'(3)]) (use k(1) hv'(2) assms(4) in simp)
  then show ?thesis using hv' assms(4) unfolding uniq_block_def lb Let_def split_conv ub k(2) block_rows_def
    by (intro exI[of _ hv']) simp
qed

lemma uniq_blocks_run:
  assumes "rows_given xs cfld n" and "n < 2 ^ 31" and "\<forall>c \<in> set cs. c * 1048576 < n" and "length hv = 1048576"
  shows "\<exists>hv'. for_each (uniq_block seed xs cfld (int n) NUM_BINS) (map int cs) (mr, hv) =
    (case for_each (put_max (rho_loc seed)) (concat (map (\<lambda>c. values_of xs cfld (block_rows n c)) cs)) mr of (r, mr') \<Rightarrow> (r, mr', hv'))"
  using assms(3,4)
proof (induction cs arbitrary: mr hv)
  case (Cons c cs)
  let ?put = "\<lambda>vs. for_each (put_max (rho_loc seed)) vs" and ?v = "\<lambda>c. values_of xs cfld (block_rows n c)"
  obtain hv' where hv': "length hv' = 1048576"
    "uniq_block seed xs cfld (int n) NUM_BINS (int c) (mr, hv) = (case ?put (?v c) mr of (r, mr') \<Rightarrow> (r, mr', hv'))"
    using uniq_block_run[OF assms(1,2), of c hv seed mr] Cons.prems by auto
  show ?case
  proof (cases "?put (?v c) mr")
    case (Pair r mr')
    then show ?thesis using hv' Cons.IH[of hv' mr'] Cons.prems
      by (cases r) (auto simp: for_each_append seq_def bind_def split: prod.splits)
  qed
qed (simp add: ret_def)

lemma num_blocks_rows:
  assumes "0 < n" "n < 2 ^ 31"
  shows "n \<le> nat (num_blocks (int n)) * 1048576" and "\<forall>c < nat (num_blocks (int n)). c * 1048576 < n"
proof -
  define Q where "Q = n div 1048576"
  have q: "Q * 1048576 \<le> n" "n < (Q + 1) * 1048576" "Q < 2048"
    using assms div_mult_mod_eq[of n 1048576] by (simp_all add: Q_def less_mult_imp_div_less)
  have d: "int n div BLOCK_SIZE = int Q" by (simp add: Q_def zdiv_int)
  have i: "to_int32 (int Q) = int Q" "to_int32 (int Q * BLOCK_SIZE) = int (Q * 1048576)" "to_int32 (int Q + 1) = int Q + 1"
    using q assms(2) by (simp_all add: to_int32_id)
  have nb: "nat (num_blocks (int n)) = (if Q * 1048576 \<noteq> n then Q + 1 else Q)"
    unfolding num_blocks_def d Let_def i of_nat_eq_iff by (simp add: nat_add_distrib)
  show "n \<le> nat (num_blocks (int n)) * 1048576" unfolding nb using q by auto
  show "\<forall>c < nat (num_blocks (int n)). c * 1048576 < n"
  proof (intro allI impI)
    fix c assume "c < nat (num_blocks (int n))"
    then show "c * 1048576 < n" unfolding nb using q(1) by (auto split: if_splits simp: less_Suc_eq)
  qed
qed

text \<open>All blocks: the sketch of the set of selected values, or the refusal of one of them.\<close>

lemma pass_run:
  assumes "rows_given xs cfld n" and "0 < n" "n < 2 ^ 31"
  shows "\<exists>mr hv. for_each (uniq_block seed xs cfld (int n) NUM_BINS) (map int [0..<nat (num_blocks (int n))])
      (replicate NUM_BINS 0, replicate (nat BLOCK_SIZE) 0) =
    (if \<exists>v \<in> set (values_of xs cfld [0..<n]). rho_loc seed v = Bye then (Bye, mr, hv)
     else (Ret (), sketch (rho_loc seed) (set (values_of xs cfld [0..<n])) 0, hv))"
proof -
  let ?cs = "[0..<nat (num_blocks (int n))]" and ?s0 = "replicate NUM_BINS (0 :: int)"
  have vals: "concat (map (\<lambda>c. values_of xs cfld (block_rows n c)) ?cs) = values_of xs cfld [0..<n]"
  proof -
    have "concat (map (\<lambda>c. values_of xs cfld (block_rows n c)) ?cs) = values_of xs cfld (concat (map (block_rows n) ?cs))"
      by (simp add: values_of_def filter_concat map_concat o_def)
    then show ?thesis using num_blocks_rows(1)[OF assms(2,3)] by (simp add: block_rows_cover min.absorb2)
  qed
  have s0: "?s0 = sketch (rho_loc seed) {} 0"
    by (rule nth_equalityI) (simp_all add: sketch_nth bin_max_empty)
  obtain hv where hv: "for_each (uniq_block seed xs cfld (int n) NUM_BINS) (map int ?cs) (?s0, replicate (nat BLOCK_SIZE) 0) =
      (case for_each (put_max (rho_loc seed)) (values_of xs cfld [0..<n]) ?s0 of (r, mr') \<Rightarrow> (r, mr', hv))"
    using uniq_blocks_run[OF assms(1,3), of ?cs "replicate (nat BLOCK_SIZE) 0" seed ?s0] num_blocks_rows(2)[OF assms(2,3)] vals by auto
  show ?thesis using uniq.put_all[of "{}" "values_of xs cfld [0..<n]" seed] unfolding hv unfolding s0
    by (cases "for_each (put_max (rho_loc seed)) (values_of xs cfld [0..<n]) (sketch (rho_loc seed) {} 0)") (auto split: if_splits)
qed

subsection \<open>Merging\<close>

lemma merge_pairs_run:
  assumes "2 * h \<le> length orig" and "jj \<le> h" and "length mr = length orig"
    and "\<forall>j < jj. mr ! j = max (orig ! (2 * j)) (orig ! (2 * j + 1))" and "\<forall>i. jj \<le> i \<longrightarrow> i < length orig \<longrightarrow> mr ! i = orig ! i"
  shows "\<exists>mr'. merge_pairs (2 * h) (2 * jj) jj mr = Some (h, mr') \<and> length mr' = length orig \<and>
    (\<forall>j < h. mr' ! j = max (orig ! (2 * j)) (orig ! (2 * j + 1)))"
  using assms(2-5)
proof (induction "h - jj" arbitrary: jj mr)
  case 0
  then show ?case by (simp add: merge_pairs.simps[of _ _ _ mr])
next
  case (Suc d)
  let ?mr = "mr[jj := if mr ! (2 * jj) \<ge> mr ! (2 * jj + 1) then mr ! (2 * jj) else mr ! (2 * jj + 1)]"
  have j: "jj < h" "2 * jj + 1 < length orig" using Suc.hyps(2) assms(1) by simp_all
  have "mr ! (2 * jj) = orig ! (2 * jj)" "mr ! (2 * jj + 1) = orig ! (2 * jj + 1)" using Suc.prems(4) j by simp_all
  then have "\<forall>j < Suc jj. ?mr ! j = max (orig ! (2 * j)) (orig ! (2 * j + 1))"
    using Suc.prems(2,3) j by (auto simp: less_Suc_eq nth_list_update max_def)
  moreover have "merge_pairs (2 * h) (2 * jj) jj mr = merge_pairs (2 * h) (2 * Suc jj) (Suc jj) ?mr"
    using j Suc.prems(2) by (simp add: merge_pairs.simps[of _ _ _ mr])
  ultimately show ?case using Suc.hyps(1)[of "Suc jj" ?mr] Suc.hyps(2) Suc.prems j by simp
qed

lemma merge_sketch:
  assumes "finite V" and "k < 16" and "take (2 ^ (16 - k)) mr = sketch rl V k" and "length mr = 65536"
  shows "\<exists>mr'. merge_pairs (2 ^ (16 - k)) 0 0 mr = Some (2 ^ (16 - Suc k), mr') \<and> length mr' = 65536 \<and>
    take (2 ^ (16 - Suc k)) mr' = sketch rl V (Suc k)"
proof -
  let ?h = "2 ^ (16 - Suc k) :: nat"
  have m: "2 ^ (16 - k) = 2 * ?h" using assms(2) by (simp add: Suc_diff_Suc flip: power_Suc)
  have "2 ^ (16 - k) \<le> (2 :: nat) ^ 16" by (rule power_increasing) simp_all
  then have le: "2 * ?h \<le> length mr" using assms(4) m by simp
  have nth: "mr ! i = bin_max rl V k i" if "i < 2 * ?h" for i
    using that m le arg_cong[OF assms(3), of "\<lambda>xs. xs ! i"] by (simp add: sketch_nth)
  obtain mr' where mr': "merge_pairs (2 * ?h) 0 0 mr = Some (?h, mr')" "length mr' = length mr"
    "\<forall>j < ?h. mr' ! j = max (mr ! (2 * j)) (mr ! (2 * j + 1))"
    using merge_pairs_run[OF le, of 0 mr] by auto
  have "take ?h mr' = sketch rl V (Suc k)"
    by (rule nth_equalityI) (use mr' le nth in \<open>auto simp: sketch_nth bin_max_merge[OF assms(1)]\<close>)
  then show ?thesis using mr' assms(4) m by simp
qed

text \<open>The number of rounds: until at most one bin in hundred is unused, and at most nine.\<close>

definition few_unused :: "int list \<Rightarrow> bool" where
  "few_unused S \<longleftrightarrow> count_zero (length S) S \<le> length S div 100"

definition rounds :: "('a \<Rightarrow> (int \<times> nat) outcome) \<Rightarrow> 'a set \<Rightarrow> nat" where
  "rounds rl V = (LEAST k. k = 9 \<or> few_unused (sketch rl V k))"

lemma rounds_le: "rounds rl V \<le> 9"
  unfolding rounds_def by (rule Least_le) simp

lemma merge_bins_run:
  assumes "finite V" and "k \<le> rounds rl V" and "take (2 ^ (16 - k)) mr = sketch rl V k" and "length mr = 65536"
  shows "\<exists>mr'. merge_bins (2 ^ (16 - k)) mr = Some (2 ^ (16 - rounds rl V), mr') \<and> length mr' = 65536 \<and>
    take (2 ^ (16 - rounds rl V)) mr' = sketch rl V (rounds rl V)"
  using assms(2-4)
proof (induction "rounds rl V - k" arbitrary: k mr)
  case 0
  then have k: "k = rounds rl V" by simp
  have stop: "k = 9 \<or> few_unused (sketch rl V k)" unfolding k rounds_def by (rule LeastI[of _ 9]) simp
  have "count_zero (2 ^ (16 - k)) mr = count_zero (length (sketch rl V k)) (sketch rl V k)" using 0(3) by (simp add: count_zero_def)
  then have "merge_bins (2 ^ (16 - k)) mr = Some (2 ^ (16 - k), mr)" using stop by (auto simp: merge_bins.simps[of _ mr] few_unused_def)
  then show ?case using 0 k by simp
next
  case (Suc d)
  then have k: "k < rounds rl V" by simp
  then have k9: "k < 9" using rounds_le[of rl V] by simp
  have more: "\<not> few_unused (sketch rl V k)" using not_less_Least[OF k[unfolded rounds_def]] by simp
  have "count_zero (2 ^ (16 - k)) mr = count_zero (length (sketch rl V k)) (sketch rl V k)" using Suc.prems(2) by (simp add: count_zero_def)
  moreover have "(2 :: nat) ^ 7 < 2 ^ (16 - k)" using k9 by (intro power_strict_increasing) simp_all
  moreover obtain mr' where mr': "merge_pairs (2 ^ (16 - k)) 0 0 mr = Some (2 ^ (16 - Suc k), mr')" "length mr' = 65536"
    "take (2 ^ (16 - Suc k)) mr' = sketch rl V (Suc k)" using merge_sketch[OF assms(1) _ Suc.prems(2,3)] k9 by auto
  moreover have "(2 :: nat) ^ (16 - Suc k) < 2 ^ (16 - k)" using k9 by (intro power_strict_increasing) simp_all
  ultimately have "merge_bins (2 ^ (16 - k)) mr = merge_bins (2 ^ (16 - Suc k)) mr'"
    using more by (simp add: merge_bins.simps[of _ mr] few_unused_def)
  then show ?case using Suc.hyps(1)[of "Suc k" mr'] Suc.hyps(2) mr' k by simp
qed

subsection \<open>The outcome\<close>

text \<open>What the function promises: it depends on the set of values only.\<close>

definition uniq_spec :: "u64 \<Rightarrow> I4 set \<Rightarrow> unit outcome \<times> uniq_out" where
  "uniq_spec seed V = (if \<exists>v \<in> V. rho_loc seed v = Bye then (Ret (), \<lparr>u_y = Some (- 1), u_acc = Some 100, u_good = Some (- 3)\<rparr>)
     else let S = sketch (rho_loc seed) V (rounds (rho_loc seed) V) in
       if count_zero (length S) S < length S div 100
       then (case estimate S of
           Some v \<Rightarrow> (Ret (), \<lparr>u_y = Some v, u_acc = Some (accuracy_percent (length S)), u_good = Some 1\<rparr>)
         | None \<Rightarrow> (Fault, \<lparr>u_y = Some (- 1), u_acc = Some (accuracy_percent (length S)), u_good = Some 1\<rparr>))
       else (Ret (), \<lparr>u_y = Some (- 1), u_acc = Some 100, u_good = Some (- 2)\<rparr>))"

definition out_given :: "uniq_out \<Rightarrow> bool" where
  "out_given u \<longleftrightarrow> u_y u \<noteq> None \<and> u_acc u \<noteq> None \<and> u_good u \<noteq> None"

lemmas put_defs = put_y_def put_acc_def put_good_def prog_defs

lemma three_puts: "out_given u \<Longrightarrow> seq (put_y a) (seq (put_acc b) (seq (put_good c) q)) u = q \<lparr>u_y = Some a, u_acc = Some b, u_good = Some c\<rparr>"
  by (cases u) (auto simp: put_defs out_given_def)

lemma no_estimate_run: "out_given u \<Longrightarrow> no_estimate g u = (Ret (), \<lparr>u_y = Some (- 1), u_acc = Some 100, u_good = Some g\<rparr>)"
  by (cases u) (auto simp: no_estimate_def put_defs out_given_def)

lemma start_run:
  assumes "out_given u"
  shows "approx_unique seed x cfld siz u = (case x of None \<Rightarrow> bye | Some xs \<Rightarrow> seq (guard (siz > 0))
    (case for_each (uniq_block seed xs cfld siz NUM_BINS) (map int [0..<nat (num_blocks siz)])
            (replicate NUM_BINS 0, replicate (nat BLOCK_SIZE) 0) of
       (Fault, _) \<Rightarrow> fault
     | (Bye, _) \<Rightarrow> no_estimate (- 3)
     | (Ret _, max_rho, _) \<Rightarrow> (case merge_bins NUM_BINS max_rho of None \<Rightarrow> fault | Some (m, max_rho) \<Rightarrow> final_computation m max_rho)))
    \<lparr>u_y = Some (- 1), u_acc = Some 100, u_good = Some (- 1)\<rparr>"
  unfolding approx_unique_def using assms by (rule three_puts)

lemma final_run:
  assumes "take m mr = S" and "length S = m"
  shows "final_computation m mr \<lparr>u_y = Some (- 1), u_acc = Some 100, u_good = Some (- 1)\<rparr> =
    (if count_zero (length S) S < length S div 100
       then (case estimate S of
           Some v \<Rightarrow> (Ret (), \<lparr>u_y = Some v, u_acc = Some (accuracy_percent (length S)), u_good = Some 1\<rparr>)
         | None \<Rightarrow> (Fault, \<lparr>u_y = Some (- 1), u_acc = Some (accuracy_percent (length S)), u_good = Some 1\<rparr>))
       else (Ret (), \<lparr>u_y = Some (- 1), u_acc = Some 100, u_good = Some (- 2)\<rparr>))"
proof -
  have "count_zero m mr = count_zero (length S) S" using assms by (simp add: count_zero_def)
  then show ?thesis using assms
    by (simp add: final_computation_def no_estimate_run out_given_def split: option.split)
      (simp add: put_defs)
qed

lemma approx_unique_run:
  assumes "rows_given xs cfld n" and "0 < n" "n < 2 ^ 31" and "out_given u"
  shows "approx_unique seed (Some xs) cfld (int n) u = uniq_spec seed (set (values_of xs cfld [0..<n]))"
proof -
  let ?V = "set (values_of xs cfld [0..<n])" and ?rl = "rho_loc seed"
  let ?S = "sketch ?rl ?V 0"
  obtain mr' where "merge_bins (2 ^ (16 - 0)) ?S = Some (2 ^ (16 - rounds ?rl ?V), mr')"
    "take (2 ^ (16 - rounds ?rl ?V)) mr' = sketch ?rl ?V (rounds ?rl ?V)"
    using merge_bins_run[of ?V 0 ?rl ?S] by auto
  then have m: "merge_bins NUM_BINS ?S = Some (2 ^ (16 - rounds ?rl ?V), mr')"
    and f: "take (2 ^ (16 - rounds ?rl ?V)) mr' = sketch ?rl ?V (rounds ?rl ?V)" by simp_all
  obtain mr hv where p: "for_each (uniq_block seed xs cfld (int n) NUM_BINS) (map int [0..<nat (num_blocks (int n))])
      (replicate NUM_BINS 0, replicate (nat BLOCK_SIZE) 0) =
    (if \<exists>v \<in> ?V. ?rl v = Bye then (Bye, mr, hv) else (Ret (), ?S, hv))"
    using pass_run[OF assms(1-3)] by blast
  have g: "seq (guard (int n > 0)) q = (q :: (uniq_out, unit) prog)" for q
    using assms(2) by (simp add: prog_defs fun_eq_iff split: prod.splits outcome.splits)
  show ?thesis
  proof (cases "\<exists>v \<in> ?V. ?rl v = Bye")
    case True
    then show ?thesis unfolding start_run[OF assms(4)] option.case g p
      by (simp only: if_True prod.case outcome.case uniq_spec_def) (simp add: no_estimate_run out_given_def)
  next
    case False
    then show ?thesis unfolding start_run[OF assms(4)] option.case g p
      by (simp only: if_False prod.case outcome.case uniq_spec_def m option.case Let_def final_run[OF f sketch_length])
  qed
qed

text \<open>C4: The outcome of \<open>approx_unique\<close> for fewer than \<open>2 ^ 31\<close> rows is the specified one: it refuses when the hash of a selected
  value is a multiple of \<open>2 ^ 44\<close>; otherwise it computes the greatest rank per bin of the set of selected values, with the
  bins merged as long as more than one in hundred is unused, and gives the estimate if fewer than one in hundred is
  unused then.\<close>

theorem approx_unique_outcome:
  assumes "rows_given xs cfld n" and "0 < n" "n < 2 ^ 31" and "out_given u"
  shows "approx_unique seed (Some xs) cfld (int n) u = uniq_spec seed (set (values_of xs cfld [0..<n]))"
  using assms by (rule approx_unique_run)

theorem approx_unique_outcome_witness:
  "approx_unique 17 (Some [5, 7, 5, 9]) (Some [1, 1, 2, 0]) 4 \<lparr>u_y = Some 0, u_acc = Some 0, u_good = Some 0\<rparr> = uniq_spec 17 {5, 7}"
  using approx_unique_outcome[of "[5, 7, 5, 9]" "Some [1, 1, 2, 0]" 4 "\<lparr>u_y = Some 0, u_acc = Some 0, u_good = Some 0\<rparr>" 17]
  by (simp add: rows_given_def out_given_def values_of_def row_sel_def insert_commute upt_rec[of _ "4 :: nat"])

text \<open>C5: Order and repetition do not matter, nor how the values are spread over rows and blocks: two columns whose selected
  rows hold the same set of values give the same outcome, when both calls use the same seed (the code takes it from the clock)
  and each column has fewer than \<open>2^31\<close> rows.\<close>

theorem approx_unique_same_set:
  assumes "rows_given xs cfld n" "0 < n" "n < 2 ^ 31" "out_given u" and "rows_given xs' cfld' n'" "0 < n'" "n' < 2 ^ 31" "out_given u'"
    and "set (values_of xs cfld [0..<n]) = set (values_of xs' cfld' [0..<n'])"
  shows "approx_unique seed (Some xs) cfld (int n) u = approx_unique seed (Some xs') cfld' (int n') u'"
  using approx_unique_run[OF assms(1-4)] approx_unique_run[OF assms(5-8)] assms(9) by simp

theorem approx_unique_same_set_witness:
  "approx_unique 17 (Some [5, 7, 5, 9]) (Some [1, 1, 2, 0]) 4 \<lparr>u_y = Some 0, u_acc = Some 0, u_good = Some 0\<rparr> =
   approx_unique 17 (Some [7, 5]) None 2 \<lparr>u_y = Some 1, u_acc = Some 0, u_good = Some 3\<rparr>"
  using approx_unique_same_set[of "[5, 7, 5, 9]" "Some [1, 1, 2, 0]" 4 "\<lparr>u_y = Some 0, u_acc = Some 0, u_good = Some 0\<rparr>"
      "[7, 5]" None 2 "\<lparr>u_y = Some 1, u_acc = Some 0, u_good = Some 3\<rparr>" 17]
  by (simp add: rows_given_def out_given_def values_of_def row_sel_def insert_commute upt_rec[of _ "4 :: nat"] upt_rec[of _ "2 :: nat"])

subsection \<open>Errors\<close>

lemma elem_at_negative: "i < 0 \<Longrightarrow> elem_at xs i = fault"
  by (simp add: elem_at_def in_range_def prog_defs fun_eq_iff)

lemma for_each_faulty: "x \<in> set xs \<Longrightarrow> (\<And>s. fst (f x s) = Fault) \<Longrightarrow> fst (for_each f xs s) \<in> {Bye, Fault}"
proof (induction xs arbitrary: s)
  case (Cons y ys)
  show ?case
  proof (cases "f y s")
    case (Pair r s')
    have "r = Fault" if "y = x" using Cons.prems(2)[of s] Pair that by simp
    then show ?thesis using Cons.IH[of s'] Cons.prems Pair by (cases r) (auto simp: seq_def bind_def)
  qed
qed simp

text \<open>The product of the number of a block and the block size wraps around at block 2048.\<close>

lemma block_2048:
  assumes "0 \<le> siz"
  shows "fst (uniq_block seed xs cfld siz m 2048 s) = Fault"
proof -
  have lb: "to_int32 (2048 * BLOCK_SIZE) = - 2147483648" by (simp add: to_int32_def)
  have "hash_rows seed xs cfld (- 2147483648) (Suc n) hv = (Fault, hv)" for n and hv :: "u64 list"
    by (simp add: hash_rows_def upt_conv_Cons row_selected_def elem_at_negative seq_def del: upt_Suc split: option.split)
      (simp add: bind_def fault_def)
  moreover have "nat ((if - 2147483648 + BLOCK_SIZE > siz then siz else - 2147483648 + BLOCK_SIZE) - - 2147483648) = Suc 1048575"
    using assms by simp
  ultimately show ?thesis by (cases s) (simp only: uniq_block_def lb Let_def prod.case outcome.case fst_conv)
qed

lemma num_blocks_big:
  assumes "2 ^ 31 \<le> siz" "siz < 2 ^ 50"
  shows "2048 < num_blocks siz"
proof -
  have q: "2048 \<le> siz div BLOCK_SIZE" "siz div BLOCK_SIZE < 2 ^ 30"
    using assms zdiv_mono1[of "2 ^ 31" siz BLOCK_SIZE] by (simp_all add: div_less_iff_less_mult)
  have "to_int32 (siz div BLOCK_SIZE * BLOCK_SIZE) \<noteq> siz" using to_int32_range[of "siz div BLOCK_SIZE * BLOCK_SIZE"] assms(1) by simp
  then show ?thesis using q by (simp add: num_blocks_def Let_def to_int32_id)
qed

text \<open>C20: The errors of \<open>approx_unique\<close>: without data or with a size that is not positive the status is \<open>-1\<close> and the outputs say so; an output
  that is \<open>NULL\<close> is written before it is checked; and with \<open>2 ^ 31\<close> rows or more no estimate is given, because the start of block 2048
  is computed in \<open>int\<close> and the row before the beginning of the column is read, unless a hash value is refused first.\<close>

theorem approx_unique_errors:
  "(out_given u \<longrightarrow> x = None \<or> siz \<le> 0 \<longrightarrow>
     approx_unique seed x cfld siz u = (Bye, \<lparr>u_y = Some (- 1), u_acc = Some 100, u_good = Some (- 1)\<rparr>)) \<and>
   (\<not> out_given u \<longrightarrow> fst (approx_unique seed x cfld siz u) = Fault) \<and>
   (out_given u \<longrightarrow> 2 ^ 31 \<le> siz \<longrightarrow> siz < 2 ^ 50 \<longrightarrow> x \<noteq> None \<longrightarrow>
     approx_unique seed x cfld siz u \<in> {(Fault, \<lparr>u_y = Some (- 1), u_acc = Some 100, u_good = Some (- 1)\<rparr>),
       (Ret (), \<lparr>u_y = Some (- 1), u_acc = Some 100, u_good = Some (- 3)\<rparr>)})"
proof (intro conjI impI)
  show "approx_unique seed x cfld siz u = (Bye, \<lparr>u_y = Some (- 1), u_acc = Some 100, u_good = Some (- 1)\<rparr>)" if "out_given u" "x = None \<or> siz \<le> 0"
    unfolding start_run[OF that(1)] using that(2) by (auto simp: guard_def bye_def seq_def bind_def split: option.split)
  show "fst (approx_unique seed x cfld siz u) = Fault" if "\<not> out_given u"
    using that by (cases "u_y u"; cases "u_acc u"; cases "u_good u") (simp_all add: approx_unique_def out_given_def put_defs)
  assume a: "out_given u" "2 ^ 31 \<le> siz" "siz < 2 ^ 50" "x \<noteq> None"
  then obtain xs where x: "x = Some xs" by auto
  let ?r = "for_each (uniq_block seed xs cfld siz NUM_BINS) (map int [0..<nat (num_blocks siz)]) (replicate NUM_BINS 0, replicate (nat BLOCK_SIZE) 0)"
  have "(2048 :: int) \<in> set (map int [0..<nat (num_blocks siz)])" using num_blocks_big[OF a(2,3)] by (auto intro: image_eqI[of _ _ 2048])
  then have "fst ?r \<in> {Bye, Fault}" by (rule for_each_faulty) (use block_2048 a(2) in simp)
  moreover have g: "seq (guard (siz > 0)) q = (q :: (uniq_out, unit) prog)" for q
    using a(2) by (simp add: prog_defs fun_eq_iff split: prod.splits outcome.splits)
  ultimately show "approx_unique seed x cfld siz u \<in> {(Fault, \<lparr>u_y = Some (- 1), u_acc = Some 100, u_good = Some (- 1)\<rparr>),
       (Ret (), \<lparr>u_y = Some (- 1), u_acc = Some 100, u_good = Some (- 3)\<rparr>)}"
    unfolding start_run[OF a(1)] x option.case g
    by (cases ?r) (auto simp only: prod.case outcome.case fst_conv insert_iff empty_iff, simp_all add: fault_def no_estimate_run out_given_def)
qed

theorem approx_unique_errors_witness:
  "approx_unique 17 None None 3 \<lparr>u_y = Some 0, u_acc = Some 0, u_good = Some 0\<rparr> = (Bye, \<lparr>u_y = Some (- 1), u_acc = Some 100, u_good = Some (- 1)\<rparr>) \<and>
   fst (approx_unique 17 (Some [1]) None 1 \<lparr>u_y = None, u_acc = Some 0, u_good = Some 0\<rparr>) = Fault"
  using approx_unique_errors[of "\<lparr>u_y = Some 0, u_acc = Some 0, u_good = Some 0\<rparr>" None 3 17 None]
    approx_unique_errors[of "\<lparr>u_y = None, u_acc = Some 0, u_good = Some 0\<rparr>" "Some [1]" 1 17 None] by (simp add: out_given_def)

text \<open>The loop that merges stops as soon as at most one bin in hundred is unused, but the estimate needs fewer than one in hundred: with
  exactly that number unused the function gives up although it could merge further.\<close>

lemma merge_boundary:
  assumes "count_zero m mr = m div 100"
  shows "merge_bins m mr = Some (m, mr) \<and> final_computation m mr = no_estimate (- 2)"
  using assms by (simp add: merge_bins.simps[of m mr] final_computation_def)

end
