(* ===== verification/Approx_Unique_Estimate.thy ===== *)
theory Approx_Unique_Estimate
  imports Approx_Unique_Proofs Approx_Frequent_Proofs
begin

text \<open>
  The estimate of \<open>approx_unique\<close> against its formula: the rounding errors of the sum over the bins and of the operations on it,
  and the range in which the conversion to \<open>int\<close> is defined.
\<close>

subsection \<open>Rounding errors of a computation\<close>

text \<open>\<open>near k x y\<close>: \<open>x\<close> differs from the exact value \<open>y\<close> by at most \<open>k\<close> roundings.\<close>

definition ulp :: rat where "ulp = 1 - 1 / 2 ^ 53"

definition near :: "nat \<Rightarrow> rat \<Rightarrow> rat \<Rightarrow> bool" where
  "near k x y \<longleftrightarrow> 0 < y \<and> y * ulp ^ k \<le> x \<and> x * ulp ^ k \<le> y"

lemma ulp_range: "0 < ulp" "ulp \<le> 1"
  by (simp_all add: ulp_def)

lemma ulp_power: "0 < ulp ^ k" "ulp ^ k \<le> 1"
  using ulp_range by (simp_all add: power_le_one)

lemma near_pos: "near k x y \<Longrightarrow> 0 < x"
  using ulp_power[of k] by (metis near_def mult_pos_pos order_less_le_trans)

lemma near_refl: "0 < x \<Longrightarrow> near k x x"
  using ulp_power[of k] mult_left_le[of "ulp ^ k" x] by (simp add: near_def)

lemma near_trans: "near j x y \<Longrightarrow> near k y z \<Longrightarrow> near (j + k) x z"
proof -
  assume a: "near j x y" "near k y z"
  have "z * ulp ^ k * ulp ^ j \<le> y * ulp ^ j" "x * ulp ^ j * ulp ^ k \<le> y * ulp ^ k"
    using a ulp_power by (auto simp: near_def intro!: mult_right_mono less_imp_le)
  then show ?thesis using a by (auto simp: near_def power_add mult.assoc mult.commute[of "ulp ^ j"])
qed

lemma near_mono: "near j x y \<Longrightarrow> j \<le> k \<Longrightarrow> near k x y"
  using near_trans[of j x y "k - j" y] near_refl[of y] by (simp add: near_def)

lemma near_double: "0 < x \<Longrightarrow> near 1 (double x) x"
proof -
  assume x: "0 < x"
  have "double x * ulp \<le> x * (1 + 1 / 2 ^ 53) * ulp"
    using double_bounds(2)[OF x] ulp_range by (intro mult_right_mono) simp_all
  also have "\<dots> = x * ((1 + 1 / 2 ^ 53) * ulp)" by (simp only: mult.assoc)
  also have "\<dots> \<le> x * 1" using x by (intro mult_left_mono) (simp_all add: ulp_def)
  finally show ?thesis using double_bounds(1)[OF x] x by (simp add: near_def ulp_def)
qed

lemma near_round: "near k x y \<Longrightarrow> near (Suc k) (double x) y"
  using near_trans[OF near_double[OF near_pos], of k x y k y] by simp

lemma near_mult:
  assumes "near j x y" "near k x' y'"
  shows "near (j + k) (x * x') (y * y')"
proof -
  have p: "0 < x" "0 < x'" "0 < y" "0 < y'" using assms near_pos by (auto simp: near_def)
  have "(y * ulp ^ j) * (y' * ulp ^ k) \<le> x * x'" "(x * ulp ^ j) * (x' * ulp ^ k) \<le> y * y'"
    using assms p ulp_power[of j] ulp_power[of k] by (auto simp: near_def intro!: mult_mono)
  then show ?thesis using p by (simp add: near_def power_add mult.commute mult.left_commute)
qed

lemma near_inverse:
  assumes "near k x y"
  shows "near k (1 / x) (1 / y)"
  using assms near_pos[OF assms] by (simp add: near_def divide_simps mult.commute)

lemma near_divide: "near j x y \<Longrightarrow> near k x' y' \<Longrightarrow> near (j + k) (x / x') (y / y')"
  using near_mult[OF _ near_inverse, of j x y k x' y'] by simp

lemma near_add: "near k x y \<Longrightarrow> near k x' y' \<Longrightarrow> near k (x + x') (y + y')"
  by (auto simp: near_def distrib_right)

text \<open>The error in figures.\<close>

lemma ulp_bernoulli: "1 - of_nat k / 2 ^ 53 \<le> ulp ^ k"
proof (induction k)
  case (Suc k)
  have "(1 - of_nat k / 2 ^ 53) * ulp \<le> ulp ^ k * ulp" using Suc ulp_range by (intro mult_right_mono) simp_all
  moreover have "1 - of_nat (Suc k) / 2 ^ 53 \<le> (1 - of_nat k / 2 ^ 53) * ulp"
    by (simp add: ulp_def algebra_simps add_divide_distrib)
  ultimately show ?case by (simp add: mult.commute)
qed simp

lemma near_error:
  assumes "near k x y" and "k \<le> 2 ^ 17"
  shows "\<bar>x - y\<bar> \<le> y / 2 ^ 35"
proof -
  have "(of_nat k :: rat) \<le> 2 ^ 17" using assms(2) by (metis of_nat_le_iff of_nat_numeral of_nat_power)
  then have "1 - 1 / 2 ^ 36 \<le> 1 - of_nat k / (2 ^ 53 :: rat)" by simp
  also have "\<dots> \<le> ulp ^ k" by (rule ulp_bernoulli)
  finally have u: "1 - 1 / 2 ^ 36 \<le> ulp ^ k" .
  have y: "0 < y" "0 < x" using assms(1) near_pos by (auto simp: near_def)
  have "y * (1 - 1 / 2 ^ 36) \<le> y * ulp ^ k" "x * (1 - 1 / 2 ^ 36) \<le> x * ulp ^ k"
    using y mult_left_mono[OF u] less_imp_le by blast+
  then have "y * (1 - 1 / 2 ^ 36) \<le> x" "x * (1 - 1 / 2 ^ 36) \<le> y"
    using assms(1) unfolding near_def by (meson order_trans)+
  then have "x - y \<le> y / 2 ^ 35" "- (x - y) \<le> y / 2 ^ 35" using y by (simp_all add: field_simps)
  then show ?thesis by (rule abs_leI)
qed

subsection \<open>The formula\<close>

definition rank_sum :: "int list \<Rightarrow> rat" where
  "rank_sum rs = sum_list (map (\<lambda>r. pow2 (- r)) rs)"

definition hyperloglog :: "int list \<Rightarrow> rat" where
  "hyperloglog rs = (let m = of_nat (length rs) in (7213 / 10000) / (1 + (1079 / 1000) / m) * m ^ 2 * (1 / rank_sum rs))"

lemma near_fold: "near k t s \<Longrightarrow> near (k + length rs) (fold (\<lambda>r t. double (t + pow2 (- r))) rs t) (s + rank_sum rs)"
proof (induction rs arbitrary: k t s)
  case (Cons r rs)
  have "near k (t + pow2 (- r)) (s + pow2 (- r))" by (intro near_add Cons.prems near_refl pow2_pos)
  from Cons.IH[OF near_round[OF this]] show ?case by (simp add: rank_sum_def add.assoc)
qed (simp add: rank_sum_def)

lemma near_rank_sum:
  assumes "rs \<noteq> []"
  shows "near (length rs) (fold (\<lambda>r t. double (t + pow2 (- r))) rs 0) (rank_sum rs)"
proof -
  obtain r qs where rs: "rs = r # qs" using assms by (cases rs) auto
  have "near (1 + length qs) (fold (\<lambda>r t. double (t + pow2 (- r))) qs (double (pow2 (- r)))) (pow2 (- r) + rank_sum qs)"
    by (intro near_fold near_double pow2_pos)
  then show ?thesis by (simp add: rs rank_sum_def)
qed

lemma near_alpha: "0 < m \<Longrightarrow> near 5 (alpha_m m) ((7213 / 10000) / (1 + (1079 / 1000) / of_nat m))"
proof -
  assume m: "0 < m"
  have "near (1 + 0) (double (1079 / 1000) / of_nat m) ((1079 / 1000) / of_nat m)" using m by (intro near_divide near_double near_refl) simp_all
  then have "near 2 (double (double (1079 / 1000) / of_nat m)) ((1079 / 1000) / of_nat m)" using near_round[of 1] by (simp add: numeral_2_eq_2)
  then have "near 2 (1 + double (double (1079 / 1000) / of_nat m)) (1 + (1079 / 1000) / of_nat m)" by (intro near_add near_refl) simp_all
  then have "near 3 (double (1 + double (double (1079 / 1000) / of_nat m))) (1 + (1079 / 1000) / of_nat m)"
    using near_round[of 2] by (simp add: numeral_3_eq_3)
  then have "near (1 + 3) (double (7213 / 10000) / double (1 + double (double (1079 / 1000) / of_nat m))) ((7213 / 10000) / (1 + (1079 / 1000) / of_nat m))"
    by (intro near_divide near_double) simp_all
  from near_round[OF this] show ?thesis by (simp add: alpha_m_def)
qed

lemma near_estimate:
  assumes "rs \<noteq> []"
  shows "near (length rs + 8) (estimate_value rs) (hyperloglog rs)"
proof -
  let ?m = "length rs"
  have m: "0 < ?m" using assms by simp
  have h: "near (Suc ?m) (harmonic rs) (1 / rank_sum rs)" unfolding harmonic_def by (intro near_round near_inverse near_rank_sum assms)
  have "near (5 + 0) (alpha_m ?m * of_nat (?m ^ 2)) ((7213 / 10000) / (1 + (1079 / 1000) / of_nat ?m) * of_nat (?m ^ 2))"
    using m by (intro near_mult near_alpha near_refl) simp_all
  from near_round[OF near_mult[OF near_round[OF this] h]] show ?thesis
    by (simp add: estimate_value_def hyperloglog_def Let_def add.commute)
qed

lemma estimate_close:
  assumes "rs \<noteq> []" "length rs \<le> 65536"
  shows "\<bar>estimate_value rs - hyperloglog rs\<bar> \<le> hyperloglog rs / 2 ^ 35"
  by (rule near_error[OF near_estimate]) (use assms in simp_all)

lemma estimate_cases: "estimate rs = (if estimate_value rs < 2 ^ 31 then Some \<lfloor>estimate_value rs\<rfloor> else None)"
proof -
  have "\<lfloor>estimate_value rs\<rfloor> \<le> INT_MAX \<longleftrightarrow> \<lfloor>estimate_value rs\<rfloor> < 2 ^ 31" by (simp add: zle_diff1_eq[symmetric])
  also have "\<dots> \<longleftrightarrow> estimate_value rs < 2 ^ 31" by (simp add: floor_less_iff)
  finally show ?thesis by (simp add: estimate_def Let_def)
qed

lemma rank_sum_bounds:
  "\<forall>r \<in> set rs. lo \<le> r \<and> r \<le> hi \<Longrightarrow> of_nat (length rs) * pow2 (- hi) \<le> rank_sum rs \<and> rank_sum rs \<le> of_nat (length rs) * pow2 (- lo)"
proof (induction rs)
  case (Cons r rs)
  have "pow2 (- hi) \<le> pow2 (- r)" "pow2 (- r) \<le> pow2 (- lo)" using Cons.prems by (auto simp: pow2_def intro!: power_int_increasing)
  moreover have "rank_sum (r # rs) = pow2 (- r) + rank_sum rs" "rat_of_nat (length (r # rs)) = 1 + of_nat (length rs)"
    by (simp_all add: rank_sum_def)
  ultimately show ?case using Cons by (auto simp: distrib_right intro: add_mono)
qed (simp add: rank_sum_def)

lemma rank_sum_pos: "rs \<noteq> [] \<Longrightarrow> 0 < rank_sum rs"
  using near_rank_sum[of rs] by (simp add: near_def)

lemma pow2_limits: "pow2 (- 15) = 1 / 2 ^ 15" "pow2 (- 16) = 1 / 2 ^ 16"
  by (simp_all add: pow2_def power_int_def power_one_over)

lemma small_ranks:
  assumes "rs \<noteq> []" "length rs \<le> 65536" and "\<forall>r \<in> set rs. r \<le> 15"
  shows "hyperloglog rs \<le> 7213 / 10000 * 2 ^ 31"
proof -
  let ?m = "rat_of_nat (length rs)"
  have "?m \<le> of_nat 65536" using assms(2) unfolding of_nat_le_iff .
  then have m: "0 < ?m" "?m \<le> 65536" using assms(1) by simp_all
  have s: "?m / 2 ^ 15 \<le> rank_sum rs"
    using rank_sum_bounds[of rs "Min (set rs)" 15] assms unfolding pow2_limits by simp
  have "(7213 / 10000) / (1 + (1079 / 1000) / ?m) \<le> (7213 / 10000) / 1" using m by (intro divide_left_mono) (simp_all add: add_pos_nonneg)
  then have "hyperloglog rs \<le> 7213 / 10000 * ?m ^ 2 * (1 / rank_sum rs)"
    using m rank_sum_pos[OF assms(1)] unfolding hyperloglog_def Let_def by (intro mult_right_mono) simp_all
  also have "\<dots> \<le> 7213 / 10000 * ?m ^ 2 * (1 / (?m / 2 ^ 15))"
    using s m by (intro mult_left_mono divide_left_mono) (simp_all add: rank_sum_pos[OF assms(1)])
  also have "\<dots> = 7213 / 10000 * (?m * 2 ^ 15)" using m by (simp add: power2_eq_square)
  also have "\<dots> \<le> 7213 / 10000 * 2 ^ 31" using m by simp
  finally show ?thesis .
qed

lemma great_ranks:
  assumes "length rs = 65536" and "\<forall>r \<in> set rs. 16 \<le> r"
  shows "7 / 10 * 2 ^ 32 \<le> hyperloglog rs"
proof -
  have ne: "rs \<noteq> []" using assms(1) by auto
  have s: "rank_sum rs \<le> 1"
    using rank_sum_bounds[of rs 16 "Max (set rs)"] assms ne unfolding pow2_limits by simp
  have "7 / 10 * 2 ^ 32 * 1 \<le> (7213 / 10000) / (1 + (1079 / 1000) / 65536) * 65536 ^ 2 * (1 / rank_sum rs)"
    using s rank_sum_pos[OF ne] by (intro mult_mono) simp_all
  then show ?thesis using assms(1) by (simp add: hyperloglog_def Let_def)
qed

text \<open>C21: The estimate is the formula of the algorithm with a relative error of at most \<open>2 ^ (- 35)\<close> from all roundings together, truncated
  to an integer, when it is below \<open>2 ^ 31\<close>; the conversion to \<open>int\<close> is undefined otherwise.  It is defined when no rank is greater
  than 15, and undefined when there are 65536 bins and every rank is 16 or more.\<close>

theorem estimate_error:
  assumes "rs \<noteq> []" "length rs \<le> 65536"
  shows "(\<exists>v. \<bar>v - hyperloglog rs\<bar> \<le> hyperloglog rs / 2 ^ 35 \<and> estimate rs = (if v < 2 ^ 31 then Some \<lfloor>v\<rfloor> else None)) \<and>
    ((\<forall>r \<in> set rs. r \<le> 15) \<longrightarrow> estimate rs \<noteq> None) \<and> (length rs = 65536 \<and> (\<forall>r \<in> set rs. 16 \<le> r) \<longrightarrow> estimate rs = None)"
proof (intro conjI impI)
  note e = estimate_close[OF assms]
  show "\<exists>v. \<bar>v - hyperloglog rs\<bar> \<le> hyperloglog rs / 2 ^ 35 \<and> estimate rs = (if v < 2 ^ 31 then Some \<lfloor>v\<rfloor> else None)"
    using e estimate_cases by blast
  show "estimate rs \<noteq> None" if "\<forall>r \<in> set rs. r \<le> 15"
    using small_ranks[OF assms that] abs_le_D1[OF e] by (simp add: estimate_cases)
  show "estimate rs = None" if "length rs = 65536 \<and> (\<forall>r \<in> set rs. 16 \<le> r)"
    using great_ranks[of rs] that abs_le_D2[OF e] by (simp add: estimate_cases)
qed

theorem estimate_error_witness: "estimate (replicate 128 3) \<noteq> None \<and> estimate (replicate 65536 16) = None"
  using estimate_error[of "replicate 128 3"] estimate_error[of "replicate 65536 16"] by simp

subsection \<open>The reported accuracy\<close>

lemma root_digits_run: "0 \<le> r \<Longrightarrow> r\<^sup>2 \<le> n \<Longrightarrow> n < (r + 2 ^ b)\<^sup>2 \<Longrightarrow> 0 \<le> root_digits b n r \<and> (root_digits b n r)\<^sup>2 \<le> n \<and> n < (root_digits b n r + 1)\<^sup>2"
proof (induction b arbitrary: r)
  case (Suc b)
  have two: "r + 2 ^ Suc b = r + 2 ^ b + 2 ^ b" by simp
  show ?case
  proof (cases "(r + 2 ^ b)\<^sup>2 \<le> n")
    case True
    then show ?thesis using Suc.IH[of "r + 2 ^ b"] Suc.prems(1,3) unfolding two by simp
  next
    case False
    then show ?thesis using Suc.IH[of r] Suc.prems(1,2) by simp
  qed
qed simp

lemma near_midpoint:
  assumes r: "2 ^ 60 \<le> R" and n: "R\<^sup>2 \<le> N" "N \<le> R\<^sup>2 + 2 * R"
  shows "near 1 ((R + 1 / 2)\<^sup>2) (N :: rat)"
proof -
  have big: "R * 2 ^ 60 \<le> R\<^sup>2" unfolding power2_eq_square using r by (intro mult_left_mono) simp_all
  have sq: "(R + 1 / 2)\<^sup>2 = R\<^sup>2 + R + 1 / 4" by (simp add: power2_eq_square algebra_simps)
  have "0 < N" using big n(1) r by simp
  moreover have "N * ulp \<le> R\<^sup>2 + R + 1 / 4" "(R\<^sup>2 + R + 1 / 4) * ulp \<le> N"
    using big n r by (simp_all add: ulp_def right_diff_distrib)
  ultimately show ?thesis by (simp add: near_def sq)
qed

lemma near_square: "near k x y \<Longrightarrow> near (2 * k) (x\<^sup>2) (y\<^sup>2)"
  using near_mult[of k x y k x y] by (simp add: power2_eq_square mult_2)

lemma near_sqrt:
  assumes "0 < m" "m < 2 ^ 20"
  shows "near 3 ((sqrt_double m)\<^sup>2) (of_nat m)" and "0 < sqrt_double m"
proof -
  define N where "N = int m * 4 ^ 60"
  define r where "r = root_digits 70 N 0"
  define q where "q = (if r\<^sup>2 = N then of_int r / 2 ^ 60 else of_int (2 * r + 1) / 2 ^ 61 :: rat)"
  have "N < (0 + 2 ^ 70)\<^sup>2" using assms(2) by (simp add: N_def)
  then have r: "0 \<le> r" "r\<^sup>2 \<le> N" "N < (r + 1)\<^sup>2" using root_digits_run[of 0 N 70] assms(1) by (simp_all add: r_def N_def)
  have "(2 ^ 60)\<^sup>2 \<le> N" using assms(1) by (simp add: N_def)
  then have "(2 ^ 60)\<^sup>2 < (r + 1)\<^sup>2" using r(3) by (rule order_le_less_trans)
  then have big: "2 ^ 60 \<le> r" using power2_less_imp_less[of "2 ^ 60" "r + 1"] r(1) by simp
  have "(of_int (2 ^ 60) :: rat) \<le> of_int r" "of_int (r\<^sup>2) \<le> (of_int N :: rat)" "(of_int N :: rat) \<le> of_int (r\<^sup>2 + 2 * r)"
    unfolding of_int_le_iff using big r(2,3) by (simp_all add: power2_eq_square algebra_simps)
  then have mid: "near 1 ((of_int r + 1 / 2)\<^sup>2) (of_int N :: rat)" by (intro near_midpoint) simp_all
  have N: "(of_int N :: rat) = of_nat m * (2 ^ 60)\<^sup>2" by (simp add: N_def)
  have pos: "0 < q" using big by (simp add: q_def add_pos_pos)
  have "near 1 (q\<^sup>2) (of_nat m)"
  proof (cases "r\<^sup>2 = N")
    case True
    then have "(of_int r)\<^sup>2 = (of_nat m * (2 ^ 60)\<^sup>2 :: rat)" using N by (metis of_int_power)
    then have "q\<^sup>2 = of_nat m" using True by (simp add: q_def power_divide)
    then show ?thesis using assms(1) near_refl by simp
  next
    case False
    then have "q = (of_int r + 1 / 2) * (1 / 2 ^ 60)" by (simp add: q_def field_simps)
    then have "q\<^sup>2 = (of_int r + 1 / 2)\<^sup>2 * (1 / 2 ^ 60)\<^sup>2" by (simp only: power_mult_distrib)
    moreover have "of_int N * (1 / 2 ^ 60)\<^sup>2 = (of_nat m :: rat)" by (simp add: N power_divide)
    ultimately show ?thesis using near_mult[OF mid near_refl[of "(1 / 2 ^ 60)\<^sup>2" 0]] by simp
  qed
  moreover have s: "sqrt_double m = double q" by (simp add: sqrt_double_def q_def r_def N_def Let_def)
  ultimately show "near 3 ((sqrt_double m)\<^sup>2) (of_nat m)"
    using near_trans[OF near_square[OF near_double[OF pos]]] by (simp add: numeral_3_eq_3 numeral_2_eq_2)
  show "0 < sqrt_double m" using near_pos[OF near_double[OF pos]] s by simp
qed

lemma near_accuracy:
  assumes "0 < m" "m < 2 ^ 20"
  shows "near 11 ((accuracy_percent m)\<^sup>2) (312\<^sup>2 / of_nat m)" and "0 < accuracy_percent m"
proof -
  let ?s = "sqrt_double m"
  note s = near_sqrt[OF assms]
  have "near (1 + 0) (double (104 / 100) / ?s) ((104 / 100) / ?s)" using s(2) by (intro near_divide near_double near_refl) simp_all
  from near_round[OF near_mult[OF near_round[OF this] near_refl[of 3 0]]]
  have "near (3 + 0) (double (double (double (104 / 100) / ?s) * 3) * 100) ((104 / 100) / ?s * 3 * 100)"
    by (intro near_mult near_refl) (simp_all add: numeral_3_eq_3)
  from near_round[OF this] have a: "near 4 (accuracy_percent m) (312 / ?s)" by (simp add: accuracy_percent_def)
  then show "0 < accuracy_percent m" by (rule near_pos)
  have "near (8 + 3) ((accuracy_percent m)\<^sup>2) (312\<^sup>2 * (1 / of_nat m))"
  proof (rule near_trans)
    show "near 8 ((accuracy_percent m)\<^sup>2) (312\<^sup>2 * (1 / ?s\<^sup>2))" using near_square[OF a] by (simp add: power_divide)
    have "near (0 + 3) (312\<^sup>2 * (1 / ?s\<^sup>2)) (312\<^sup>2 * (1 / of_nat m))" by (intro near_mult near_refl near_inverse s(1)) simp
    then show "near 3 (312\<^sup>2 * (1 / ?s\<^sup>2)) (312\<^sup>2 * (1 / of_nat m))" by simp
  qed
  then show "near 11 ((accuracy_percent m)\<^sup>2) (312\<^sup>2 / of_nat m)" by simp
qed

text \<open>The percentage that \<open>approx_unique\<close> reports with an estimate from \<open>m\<close> bins is \<open>3 * 1.04 / sqrt m * 100\<close> up to rounding (stated for
  the squares); for the numbers of bins it can end with, from 128 to 65536, it is below 28.\<close>

theorem reported_accuracy:
  assumes "7 \<le> k" "k \<le> 16"
  shows "\<bar>(accuracy_percent (2 ^ k))\<^sup>2 - (3 * 104)\<^sup>2 / 2 ^ k\<bar> \<le> (3 * 104)\<^sup>2 / 2 ^ k / 2 ^ 35 \<and>
    0 < accuracy_percent (2 ^ k) \<and> accuracy_percent (2 ^ k) < 28"
proof -
  have "k < 20" using assms by simp
  then have m: "(0 :: nat) < 2 ^ k" "(2 :: nat) ^ k < 2 ^ 20" by (simp, intro power_strict_increasing) simp_all
  have e: "\<bar>(accuracy_percent (2 ^ k))\<^sup>2 - 312\<^sup>2 / of_nat (2 ^ k)\<bar> \<le> 312\<^sup>2 / of_nat (2 ^ k) / 2 ^ 35"
    by (rule near_error[OF near_accuracy(1)[OF m]]) simp
  have "(2 :: rat) ^ 7 \<le> 2 ^ k" using assms(1) by (intro power_increasing) simp_all
  then have "312\<^sup>2 / of_nat (2 ^ k) \<le> 312\<^sup>2 / (128 :: rat)" by (intro divide_left_mono) simp_all
  then have "(accuracy_percent (2 ^ k))\<^sup>2 < 28\<^sup>2" using abs_le_D1[OF e] by simp
  then have "accuracy_percent (2 ^ k) < 28" by (rule power2_less_imp_less) simp
  then show ?thesis using e near_accuracy(2)[OF m] by simp
qed

theorem reported_accuracy_witness: "0 < accuracy_percent (2 ^ 7) \<and> accuracy_percent (2 ^ 7) < 28"
  using reported_accuracy[of 7] by simp

end
