(* ===== verification/Spec2Isabelle.thy ===== *)
theory Spec2Isabelle
  imports Q_Machine Q_Located Q_Digest Q_Text Approx_Frequent_Proofs K_Vector K_Search K_Bits K_Join K_Scan
    K_Sort_Proofs Approx_Frequent_Sort Approx_Quantile_Spec K_Gather D_Verbs D_Vector_Proofs D_Keep D_Single_Verb D_Join_Verb Approx_Unique_Estimate
begin

text \<open>
  A verification development for the column store \<open>q\<close> and its approximate algorithms.

  \<^bold>\<open>The program.\<close>  \<open>q\<close> (\<open>src/src/q.c\<close>) is called once per command.  Its state is meta data in memory
  mapped files: an array of tables, an array of fields, two hash arrays that tell where a
  look-up starts, and a list of data directories; the data of a field is a file in one of
  these directories.  A \<^emph>\<open>verb\<close> looks up tables and fields by name, changes their records
  and creates, maps or unlinks files.  A field may have an auxiliary \<^emph>\<open>nn\<close> field that marks
  the rows with a value.  \<open>src/approxalgos\<close> holds stand-alone streaming algorithms that are
  called on columns.

  \<^bold>\<open>Conventions.\<close>  \<open>Q_Prelude\<close> models the calling convention shared by the C functions: a
  program maps a state to an outcome and a state; the outcome is a value (\<open>Ret\<close>), the error exit
  to the label \<open>BYE\<close> (\<open>Bye\<close>, the state changes made so far stay), or an access outside an array
  (\<open>Fault\<close>).  \<open>wp\<close> is its weakest precondition; the rules of each verb are collected in
  \<open>wp_simps\<close>.  A \<open>NULL\<close> string is \<open>None\<close>; an int that indexes an array is an \<open>int\<close> and is checked
  against the array; hash arithmetic is on words of the width of the source.

  \<^bold>\<open>Theories and sources.\<close>
  \<^item> \<open>Q_CString\<close>, \<open>Q_Text\<close>: \<open>dir_utils/auxil.c\<close>, \<open>extract_S.c\<close>, over lists of characters, with
    what they use of the C library; cutting, joining, printing and reading back.
  \<^item> \<open>Q_Types\<close>: \<open>qtypes.h\<close>, \<open>dir_dbutils/aux_meta.c\<close>; records, enumerations, names of types.
  \<^item> \<open>Q_Hash\<close>, \<open>Q_Digest\<close>: \<open>md5c.c\<close> (with the 64-bit \<open>UINT4\<close> of this code), \<open>mddriver.c\<close>,
    \<open>hash_string.c\<close>, \<open>mix.c\<close>; the streaming digest is the block function folded over the
    padded message, in whatever pieces it is fed.
  \<^item> \<open>Q_Store\<close>: the state record and the file layer (\<open>mmap.c\<close>, \<open>mk_file.c\<close>, \<open>mk_temp_file.c\<close>,
    \<open>open_temp_file.c\<close>, parts of \<open>dbauxil.c\<close>).  The file system is a map from a directory and a
    name to the bytes; free space and random names are inputs of the state.
  \<^item> \<open>Q_Lookup\<close>: \<open>is_tbl.c\<close>, \<open>is_fld.c\<close> and the search for free slots.  The locale
    \<open>slot_array\<close> is the contract of an array with blank slots searched circularly; it is
    interpreted for tables and for fields.
  \<^item> \<open>Q_Verbs\<close>: one definition per verb of \<open>dir_wr_verbs\<close> and \<open>dir_ro_verbs\<close>.
  \<^item> \<open>Q_Invariant\<close>, \<open>Q_Preserve\<close>, \<open>Q_Safety\<close>, \<open>Q_Moves\<close>: the invariant \<open>meta_inv\<close> of the meta data
    and the rules that each verb keeps it and does not fault; \<open>Q_Located\<close>: exact effects of
    verbs on a field addressed by unique names.
  \<^item> \<open>Q_Machine\<close>: \<open>init_meta_data\<close>, the dispatch of \<open>q.c\<close> and sequences of calls, interleaved
    with changes of files by other programs, as an inductive relation; the locale
    \<open>invariant_machine\<close> turns a step-wise invariant into safety of every reachable state.
  \<^item> \<open>Approx_Frequent\<close>, \<open>Approx_Frequent_Proofs\<close>: \<open>approxalgos/ApproxFrequent\<close>, the counters for
    frequent elements and their error guarantee; sorting a packet is a parameter, \<open>double\<close> arithmetic
    rounds to 53 bits with ties to even, and the frequencies are \<open>int\<close> values that wrap around: the
    guarantee is for fewer than \<open>2^31\<close> selected elements.
  \<^item> \<open>K_Prelude\<close>, \<open>K_Vector\<close>: the per-type loops of \<open>AUX\<close> for arithmetic, bitwise, comparison, scalar and
    conversion operators on integer columns, one definition per file over words of the type's
    width; overflow wraps, division traps, a row outside an array is a fault.
  \<^item> \<open>K_Search\<close>: \<open>bin_search_*.c\<close>, \<open>cmp_eq_mult_scalar_*.c\<close>, \<open>which_bin_*.c\<close>; positions and membership.
  \<^item> \<open>K_Bits\<close>: \<open>conv_I1_to_B.c\<close>, \<open>conv_B_to_I1.c\<close>, \<open>bitcount_*.c\<close>, \<open>f_to_s_sum_B.c\<close>; bit vectors.
  \<^item> \<open>K_Join\<close>: \<open>core_srt_join_*.c\<close>; the merge of two
    sorted link columns against a specification by groups.
  \<^item> \<open>K_Scan\<close>: \<open>is_sorted_alldef_*.c\<close>, \<open>uniq*.c\<close>, \<open>union_*.c\<close>; loops that compare neighbouring rows.
  \<^item> \<open>K_Sort\<close>, \<open>K_Sort_Proofs\<close>: \<open>qsort_*.c\<close>, the quicksort with an explicit stack that leaves short
    segments to an insertion sort without bound check.  The locale \<open>sort_key\<close> is the order the
    proofs need; it is interpreted for both directions, with and without an index.
  \<^item> \<open>Approx_Frequent_Sort\<close>: the guarantee of the frequent elements with the quicksort of their own
    directory as the sort of a packet.
  \<^item> \<open>Approx_Quantile\<close>, \<open>Approx_Quantile_Proofs\<close>, \<open>Approx_Quantile_Rank\<close>, \<open>Approx_Quantile_Spec\<close>:
    \<open>approxalgos/ApproxQuantile\<close>, weighted buffers that are collapsed in pairs; the invariant of the
    buffers, the error of all collapses, and with it the rank error of every quantile.  The locale
    \<open>packet_source\<close> is the contract of cutting the input into packets, with and without a
    selection.  The weights are \<open>int\<close> values that wrap around, so that the theorems are for up to \<open>2^31\<close>
    packets (always so below \<open>2^44\<close> elements); \<open>Collapse_overflow\<close> shows what happens beyond.  \<open>Approx_Rounding\<close>: \<open>double\<close> arithmetic is monotone and exact on small numbers.
  \<^item> \<open>K_Reduce\<close>: \<open>f_to_s_*.c\<close>, \<open>nn_f_to_s_*.c\<close>, \<open>s_to_f_*.c\<close>, \<open>assign_*.c\<close>, \<open>cum_*.c\<close>, \<open>count*.c\<close>; sums, extrema,
    sequences, running sums and counters as folds over the rows.
  \<^item> \<open>K_Gather\<close>: \<open>pos_*.c\<close>, \<open>xfer_*.c\<close>, \<open>core_wisifxthenyelsez_*.c\<close>; reading along a column of positions and
    choosing between columns, with \<open>nn\<close> columns that may be missing.
  \<^item> \<open>D_Bytes\<close>: the bytes of a mapped file as an array of words and back, and the cut of the rows into
    blocks that cover them.
  \<^item> \<open>D_Scalar\<close>: \<open>dir_helpers/par_f_to_s.c\<close> with the floating-point reductions; the floating-point unit is a
    record of parameters.  The locale \<open>extremum\<close> is what minimum and maximum share, interpreted for both.
  \<^item> \<open>D_Fill\<close>: \<open>dir_helpers/par_s_to_f.c\<close>, \<open>extract_*.c\<close>; filling a column from a text.
  \<^item> \<open>D_Verbs\<close>: \<open>dir_wr_verbs/ext_s_to_f.c\<close>, \<open>dir_helpers/ext_f_to_s.c\<close>; the verbs over the store, with exact runs of
    the storage functions, and what one verb finds after the other.
  \<^item> \<open>D_Vector\<close>, \<open>D_Vector_Proofs\<close>: \<open>dir_dbutils/get_type_op_fld.c\<close>, \<open>dir_helpers/vec_f1f2opf3.c\<close>; two columns combined row by
    row, against an operation on integers; floating-point arithmetic is a record of parameters.
  \<^item> \<open>D_Combine\<close>, \<open>D_Keep\<close>: \<open>dir_wr_verbs/f1f2opf3.c\<close>, the verb over the store; its exact effect on fields without \<open>nn\<close>
    fields, and that it keeps the invariant of the meta data on every outcome.
  \<^item> \<open>D_Single\<close>, \<open>D_Single_Proofs\<close>, \<open>D_Single_Verb\<close>: \<open>dir_wr_verbs/f1s1opf2.c\<close>, \<open>dir_helpers/vec_f1s1opf2.c\<close>, \<open>break_into_scalars\<close>; a column
    and a scalar, shown to be the operation on integers in every row, and the invariant of the meta data on every outcome.
  \<^item> \<open>D_Join\<close>, \<open>D_Join_Proofs\<close>, \<open>D_Join_Verb\<close>: \<open>dir_wr_verbs/srt_join.c\<close>, the join over the store; the kernels on mapped bytes refine a
    specification on integers, with the exact effect of the verb and the invariant of the meta data on every outcome.
  \<^item> \<open>Q_Blocks\<close>: the locale \<open>block_stream\<close>, the contract of a loop that consumes a message in blocks, interpreted for both hash
    functions.
  \<^item> \<open>Hash_Spooky\<close>: \<open>approxalgos/ApproxUnique/src/spooky_hash.c\<close>; mixing is a bijection, and a message in pieces has the hash of the
    whole message, with the exception of short messages.
  \<^item> \<open>Approx_Unique\<close>, \<open>Approx_Unique_Proofs\<close>, \<open>Approx_Unique_Estimate\<close>: \<open>approx_unique.c\<close>, \<open>determine_rho_loc.c\<close>; the number of different
    values.  The locale \<open>rank_bins\<close> is what the bins need to know of rank and bin of a value.  The outcome is a function of the
    set of selected values; the estimate is its formula up to a bounded rounding error.

  \<^bold>\<open>Bounds and fuel.\<close>  Every loop is a total function; no fuel is used.  The recursions that
  are not structural have a termination proof from the loop variable or the length of the
  rest.  \<open>q_safe\<close> lists the inputs a caller must avoid for a verb to stay inside its arrays;
  what happens on some of them is stated as a theorem of its own.

  \<^bold>\<open>Not modelled.\<close>  The other verbs that map data files and run a kernel for each type, the
  floating-point kernels but for the reductions and the arithmetic and comparison of two columns, reading and printing of files in text form, the web server, the LevelDB and GPU
  experiments and the superseded copies of the program under \<open>q-base\<close> and \<open>qtils\<close>.
  They are I/O and dispatch around kernels, floating-point arithmetic, or not part of the
  program that \<open>src/src\<close> builds.
\<close>

section \<open>The meta data of the store\<close>

text \<open>C1: From an initialised store, whatever calls with allowed inputs and whatever changes
  of the files by other programs come in between, a further call never reads or writes
  outside an array, and on success as on error leaves consistent meta data.\<close>

theorem calls_are_safe:
  assumes "q_reach s" and "q_safe c (snd (q_begin alt s))"
  shows "fst (q_call (alt, c) s) \<noteq> Fault \<and> meta_inv (snd (q_call (alt, c) s))"
  using q_machine.step_no_fault[OF q_reach_inv[OF assms(1)], of "(alt, c)"]
    q_machine.step_inv[OF q_reach_inv[OF assms(1)], of "(alt, c)"] assms(2) by simp

theorem calls_are_safe_witness:
  "fst (q_call (Some ''/d2'', Rename_fld ''t1'' ''f1'' ''f2'') (init_meta_data sample_state)) \<noteq> Fault \<and>
   meta_inv (snd (q_call (Some ''/d2'', Rename_fld ''t1'' ''f1'' ''f2'') (init_meta_data sample_state)))"
  using calls_are_safe[OF sample_reach, of "Rename_fld ''t1'' ''f1'' ''f2''" "Some ''/d2''"] by simp

text \<open>C29: With unique names, a look-up of a table or a field returns exactly what a plain
  search of the array would: the hash function, the hash arrays and the position where
  the circular probe starts do not influence the answer, and nothing is changed.\<close>

theorem lookup_is_search:
  assumes "ht_ok s" and "nn_links_ok (g_flds s)" and "tbl_slots.unique_keys (g_tbls s)"
    and "fld_slots.unique_keys (g_flds s)" and "x \<noteq> []" and "y \<noteq> []" and "t \<ge> 0"
  shows "is_tbl (Some x) s = (Ret (tbl_answer (g_tbls s) x), s) \<and>
         is_fld tbl t (Some y) s = (Ret (fld_answer s t y), s)"
  using is_tbl_lookup[OF assms(1,3,5)] is_fld_lookup[OF assms(1,2,4,7,6)] by blast

theorem lookup_is_search_witness:
  "is_tbl (Some ''t1'') sample_state = (Ret (0, zero_tbl_rec\<lparr>tbl_name := ''t1'', nR := 4\<rparr>), sample_state) \<and>
   is_fld None 0 (Some ''f1'') sample_state = (Ret ((0, sample_fld), (1, sample_nn)), sample_state)"
proof -
  have "is_tbl (Some ''t1'') sample_state = (Ret (tbl_answer (g_tbls sample_state) ''t1''), sample_state) \<and>
    is_fld None 0 (Some ''f1'') sample_state = (Ret (fld_answer sample_state 0 ''f1''), sample_state)"
    using meta_inv_parts[OF sample_inv] sample_unique by (intro lookup_is_search) simp_all
  then show ?thesis unfolding sample_answers .
qed

text \<open>C25: \<open>add_tbl\<close> never faults; it fails only for one of the four reasons of \<open>tbl_refused\<close> (a
  negative row count, a bad name, an old table of that name in use as a dictionary, no
  free slot) and then leaves the meta data untouched; on success the table has the name
  and row count asked for, is the answer of \<open>is_tbl\<close> and \<open>get_nR\<close> from then on, the fields of
  a replaced table are gone, names stay unique and all other tables and fields are as
  before.\<close>

theorem add_tbl_effect:
  assumes "meta_inv s" and "tbl_slots.unique_keys (g_tbls s)" and "x \<noteq> []"
  shows "case add_tbl (Some x) v s of
      (Ret (t, r), s') \<Rightarrow> tbl_added s x (rows_of v) t r s' \<and> tbl_slots.unique_keys (g_tbls s') \<and>
         is_tbl (Some x) s' = (Ret (t, r), s') \<and> get_nR (Some x) s' = (Ret (rows_of v), s')
    | (Bye, s') \<Rightarrow> tbl_refused s x v \<and> meta_of s' = meta_of s
    | (Fault, s') \<Rightarrow> False"
proof -
  have "tbl_slots.unique_keys (g_tbls s') \<and> is_tbl (Some x) s' = (Ret (t, r), s') \<and>
      get_nR (Some x) s' = (Ret (rows_of v), s')"
    if a: "tbl_added s x (rows_of v) t r s'" for t r s'
  proof -
    have u: "tbl_slots.unique_keys (g_tbls s')" by (rule tbl_added_unique[OF a assms(2,3)])
    moreover have "tbl_answer (g_tbls s') x = (t, r)" by (rule tbl_added_answer[OF a u assms(3)])
    moreover have "ht_ok s'" "in_range t (g_tbls s')" "g_tbls s' ! nat t = r" "nR r = rows_of v"
      using a meta_inv_parts(1) by (auto simp: tbl_added_def in_range_nat)
    ultimately show ?thesis
      using is_tbl_lookup[OF _ u assms(3)] by (simp add: get_nR_run)
  qed
  then show ?thesis
    using wp_add_tbl[OF assms(1,3), of v] by (auto simp: wp_def split: prod.splits outcome.splits)
qed

theorem add_tbl_effect_witness:
  "case add_tbl (Some ''t2'') (Some ''7'') sample_state of
      (Ret (t, r), s') \<Rightarrow> tbl_added sample_state ''t2'' (rows_of (Some ''7'')) t r s' \<and>
         tbl_slots.unique_keys (g_tbls s') \<and> is_tbl (Some ''t2'') s' = (Ret (t, r), s') \<and>
         get_nR (Some ''t2'') s' = (Ret (rows_of (Some ''7'')), s')
    | (Bye, s') \<Rightarrow> tbl_refused sample_state ''t2'' (Some ''7'') \<and> meta_of s' = meta_of sample_state
    | (Fault, s') \<Rightarrow> False"
  by (rule add_tbl_effect[OF sample_inv sample_unique(1)]) simp

text \<open>C26: Deleting a table that a field uses as its dictionary fails and changes nothing;
  deleting any other table succeeds and erases the table and exactly its own fields.\<close>

theorem del_tbl_effect:
  assumes "meta_inv s" and "in_range t (g_tbls s)"
  shows "\<exists>s'. if \<exists>i < length (g_flds s). dict_tbl_id (g_flds s ! i) = t
    then del_tbl tbl t s = (Bye, s') \<and> meta_of s' = meta_of s
    else del_tbl tbl t s = (Ret (), s') \<and> meta_inv s' \<and>
      g_tbls s' = (g_tbls s)[nat t := zero_tbl_rec] \<and> g_ddirs s' = g_ddirs s \<and>
      g_flds s' = map (\<lambda>f. if tbl_id f = t then zero_fld_rec else f) (g_flds s)"
    (is "\<exists>s'. if ?used then _ else _")
proof (cases ?used)
  case True
  then have "wp (del_tbl_id t) (\<lambda>_ _. False) (\<lambda>s'. s' = s) s"
    by (intro wp_del_tbl_id[OF assms]) auto
  then have "wp (del_tbl tbl t) (\<lambda>_ _. False) (\<lambda>s'. s' = s) s"
    using assms(2) by (simp add: del_tbl_given_id in_range_def)
  then show ?thesis using True by (auto dest: wp_Bye_result)
next
  case False
  then have "wp (del_tbl_id t) (\<lambda>_ s'. tbl_dropped t s s' \<and> meta_inv s') (\<lambda>_. False) s"
    by (intro wp_del_tbl_id[OF assms]) auto
  then have "wp (del_tbl tbl t) (\<lambda>_ s'. tbl_dropped t s s' \<and> meta_inv s') (\<lambda>_. False) s"
    using assms(2) by (simp add: del_tbl_given_id in_range_def)
  then obtain s' where "del_tbl tbl t s = (Ret (), s')" "tbl_dropped t s s'" "meta_inv s'"
    by (auto dest: wp_Ret_result)
  then show ?thesis
    using False tbl_droppedD[of t s s'] by (intro exI[of _ s']) (simp add: purge_def)
qed

theorem del_tbl_effect_witness:
  "\<exists>s'. del_tbl None 0 sample_state = (Ret (), s') \<and> g_tbls s' = [zero_tbl_rec, zero_tbl_rec] \<and>
     g_flds s' = replicate 4 zero_fld_rec"
  using del_tbl_effect[OF sample_inv, of 0 None]
  by (simp add: in_range_def Ex_less_Suc sample_fld_def sample_nn_def numeral_eq_Suc) blast

text \<open>C27: Deleting a field by name erases the field and its nn field and nothing else; an
  nn field cannot be deleted directly while its primary field exists: the call fails and
  the meta data stays as it was.\<close>

theorem del_fld_effect:
  assumes "meta_inv s" and "tbl_slots.unique_keys (g_tbls s)" and "fld_slots.unique_keys (g_flds s)"
    and "x \<noteq> []" and "y \<noteq> []"
    and "tbl_slots.lookup (g_tbls s) x = Some t" and "fld_slots.lookup (g_flds s) (int t, y) = Some i"
  shows "\<exists>s'. if auxtype (g_flds s ! i) = undef
    then del_fld (Some x) (-1) (Some y) (-1) True s = (Ret (), s') \<and> meta_inv s' \<and>
      flds_upd s (erase (g_flds s) i) s'
    else del_fld (Some x) (-1) (Some y) (-1) True s = (Bye, s') \<and> meta_of s' = meta_of s"
proof -
  have i: "in_range (int i) (g_flds s)"
    using find_from_Some[OF assms(7)[unfolded fld_slots.lookup_def]] by (simp add: in_range_def)
  have run: "wp (del_fld (Some x) (-1) (Some y) (-1) True) Q E s =
      wp (del_fld None (int t) None (int i) True) Q E s" for Q E
    by (rule wp_del_fld_named[OF assms])
  show ?thesis
  proof (cases "auxtype (g_flds s ! i)")
    case undef
    then have "wp (del_fld None (int t) None (int i) True)
        (\<lambda>_ s'. flds_upd s (erase (g_flds s) i) s') (\<lambda>_. False) s"
      using wp_del_fld_id[OF assms(1) _ i, of "int t" True None None "\<lambda>_. False"] by simp
    then show ?thesis
      using wp_Ret_result[OF run[THEN iffD2]] meta_inv_erase[OF assms(1) i] undef by fastforce
  next
    case nn
    then have "wp (del_fld None (int t) None (int i) True) (\<lambda>_ _. False) (\<lambda>s'. s' = s) s"
      using wp_del_fld_aux[OF assms(1) _ i, of "int t"] by simp
    then show ?thesis
      using wp_Bye_result[OF run[THEN iffD2]] nn by fastforce
  qed
qed

theorem del_fld_effect_witness:
  "\<exists>s'. del_fld (Some ''t1'') (-1) (Some ''f1'') (-1) True sample_state = (Ret (), s') \<and> meta_inv s' \<and>
     flds_upd sample_state (replicate 4 zero_fld_rec) s'"
proof -
  have "tbl_slots.lookup (g_tbls sample_state) ''t1'' = Some 0"
    "fld_slots.lookup (g_flds sample_state) (int 0, ''f1'') = Some 0"
    by (simp_all add: tbl_slots.lookup_def fld_slots.lookup_def find_from.simps fld_key_def sample_fld_def)
  from del_fld_effect[OF sample_inv sample_unique _ _ this]
  show ?thesis by (simp add: sample_fld_def erase_def numeral_eq_Suc)
qed

text \<open>C28: \<open>add_fld\<close> on a live table either fails with consistent meta data or stores exactly the
  record asked for: an older field of that name and its nn field are erased, every other
  field and all tables are kept, field names stay unique and \<open>is_fld\<close> finds the new field,
  which has no nn field yet.\<close>

theorem add_fld_effect:
  assumes "meta_inv s" and "fld_slots.unique_keys (g_flds s)" and "live_tbl (g_tbls s) tid"
    and "ddir_ok s d" and "name \<noteq> []"
  shows "case add_fld tid (Some name) d fname ft len s of
      (Ret (i, r), s') \<Rightarrow> r = new_fld tid name d fname ft len \<and> fld_added s tid name r i s' \<and>
         fld_slots.unique_keys (g_flds s') \<and>
         is_fld None tid (Some name) s' = (Ret ((i, r), (INT_MIN, zero_fld_rec)), s')
    | (Bye, s') \<Rightarrow> meta_inv s'
    | (Fault, s') \<Rightarrow> False"
proof -
  have "fld_slots.unique_keys (g_flds s') \<and>
      is_fld None tid (Some name) s' = (Ret ((i, r), (INT_MIN, zero_fld_rec)), s')"
    if r: "r = new_fld tid name d fname ft len" and a: "fld_added s tid name r i s'" for i r s'
  proof -
    have k: "fld_key r = (tid, name)" "nn_fld_id r = INT_MIN" by (simp_all add: r new_fld_def fld_key_def)
    have inv: "meta_inv s'" and t: "tid \<ge> 0" using a assms(3) by (auto simp: fld_added_def live_tbl_def in_range_def)
    note u = fld_added_unique[OF a assms(2) k(1) assms(5)]
    show ?thesis
      using u is_fld_lookup[OF meta_inv_parts(1,3)[OF inv] u t assms(5), of None]
        fld_added_answer[OF a u k(1) assms(5)] k(2) by (simp add: nn_of_def)
  qed
  then show ?thesis
    using wp_add_fld[OF assms(1,3,4), of name fname ft len]
    by (auto simp: wp_def split: prod.splits outcome.splits)
qed

theorem add_fld_effect_witness:
  "case add_fld 0 (Some ''f2'') (-1) ''_c'' I8 (-1) sample_state of
      (Ret (i, r), s') \<Rightarrow> r = new_fld 0 ''f2'' (-1) ''_c'' I8 (-1) \<and> fld_added sample_state 0 ''f2'' r i s' \<and>
         fld_slots.unique_keys (g_flds s') \<and>
         is_fld None 0 (Some ''f2'') s' = (Ret ((i, r), (INT_MIN, zero_fld_rec)), s')
    | (Bye, s') \<Rightarrow> meta_inv s'
    | (Fault, s') \<Rightarrow> False"
  by (rule add_fld_effect[OF sample_inv sample_unique(2)])
    (simp_all add: live_tbl_def in_range_def ddir_ok_def)

text \<open>After \<open>set_nR\<close> with a positive decimal number, \<open>get_nR\<close> reports that number, and
  nothing but the row count of this table has changed; other inputs are refused.\<close>

theorem set_nR_get_nR:
  assumes "meta_inv s" and "tbl_slots.unique_keys (g_tbls s)" and "x \<noteq> []"
    and "tbl_slots.lookup (g_tbls s) x = Some t"
  shows "\<exists>s'. if v \<noteq> [] \<and> fst (strtoll v) > 0
    then set_nR (Some x) (Some v) s = (Ret (), s') \<and> get_nR (Some x) s' = (Ret (fst (strtoll v)), s') \<and>
      s' = s\<lparr>g_tbls := (g_tbls s)[t := (g_tbls s ! t)\<lparr>nR := fst (strtoll v)\<rparr>]\<rparr>
    else set_nR (Some x) (Some v) s = (Bye, s') \<and> s' = s"
proof -
  let ?ts = "(g_tbls s)[t := (g_tbls s ! t)\<lparr>nR := fst (strtoll v)\<rparr>]"
  let ?s' = "s\<lparr>g_tbls := ?ts\<rparr>"
  have t: "t < length (g_tbls s)" "in_range (int t) (g_tbls s)" "tbl_name (g_tbls s ! t) = x"
    using find_from_Some[OF assms(4)[unfolded tbl_slots.lookup_def]] by (auto simp: in_range_def)
  have "is_tbl (Some x) s = (Ret (int t, g_tbls s ! t), s)"
    using is_tbl_lookup[OF meta_inv_parts(1)[OF assms(1)] assms(2,3)] assms(4) by (simp add: tbl_answer_def)
  moreover have "get_nR (Some x) ?s' = (Ret (fst (strtoll v)), ?s')"
  proof -
    have other: "tbl_name (g_tbls s ! j) \<noteq> x" if "j < length (g_tbls s)" "j \<noteq> t" for j
      using assms(2,3) t that by (auto simp: tbl_slots.unique_keys_def)
    then have u: "tbl_slots.unique_keys ?ts" using t by (intro tbl_slots.unique_store[OF assms(2)]) auto
    have "ht_ok ?s'" using meta_inv_parts(1)[OF assms(1)] by (simp add: ht_ok_def)
    then have "is_tbl (Some x) ?s' = (Ret (int t, ?ts ! t), ?s')"
      using is_tbl_lookup[of ?s' x] u assms(3) tbl_lookup_Some[OF u assms(3), of t] t by (simp add: tbl_answer_def)
    then show ?thesis using get_nR_run[of x ?s' "int t"] t by simp
  qed
  ultimately show ?thesis
    using assms(3) t(1,2)
    by (auto simp: set_nR_def bind_def seq_def arg_given_def guard_def ret_def bye_def chk_tbl_range_def
        gets_def set_tbl_def)
qed

theorem set_nR_get_nR_witness:
  "\<exists>s'. set_nR (Some ''t1'') (Some ''12'') sample_state = (Ret (), s') \<and> get_nR (Some ''t1'') s' = (Ret 12, s')"
proof -
  have "tbl_slots.lookup (g_tbls sample_state) ''t1'' = Some 0"
    by (simp add: tbl_slots.lookup_def find_from.simps)
  moreover have "fst (strtoll ''12'') = 12" by code_simp
  ultimately show ?thesis
    using set_nR_get_nR[OF sample_inv sample_unique(1), of "''t1''" 0 "''12''"] by auto
qed

text \<open>Setting the sort type of a field by its string form and reading it back gives the
  same string, the field stays where its names locate it, and nothing else changes.\<close>

theorem set_meta_get_meta:
  assumes "located s x y t i"
  shows "\<exists>s'. set_meta (Some x) (Some y) (Some ''sort_type'') (Some (mk_str_sort_type st)) s = (Ret (), s') \<and>
     get_meta (Some x) (Some y) (Some ''sort_type'') s' = (Ret (mk_str_sort_type st), s') \<and>
     located s' x y t i \<and> s' = s\<lparr>g_flds := (g_flds s)[i := (g_flds s ! i)\<lparr>sort_type := st\<rparr>]\<rparr>"
proof -
  let ?s' = "s\<lparr>g_flds := (g_flds s)[i := (g_flds s ! i)\<lparr>sort_type := st\<rparr>]\<rparr>"
  have i: "i < length (g_flds s)" using assms by (simp add: located_def)
  have "local_ok (g_tbls s) (g_ddirs s) (g_flds s ! i)"
    using fields_ok_local[OF meta_inv_parts(2)[OF locatedD(1)[OF assms]] i] .
  then have l: "located ?s' x y t i"
    by (intro located_set_attr[OF assms]) (simp_all add: same_links_def local_ok_def fld_key_def)
  show ?thesis
    using set_sort_type_run[OF assms] get_sort_type_run[OF l] l i by simp
qed

theorem set_meta_get_meta_witness:
  "\<exists>s'. set_meta (Some ''t1'') (Some ''f1'') (Some ''sort_type'') (Some ''ascending'') sample_state = (Ret (), s') \<and>
     get_meta (Some ''t1'') (Some ''f1'') (Some ''sort_type'') s' = (Ret ''ascending'', s')"
proof -
  have "located sample_state ''t1'' ''f1'' 0 0"
    using sample_inv sample_unique by (simp add: located_def fld_key_def) (simp add: sample_fld_def)
  from set_meta_get_meta[OF this, of ascending] show ?thesis by auto
qed

text \<open>\<open>drop_nn_fld\<close> always succeeds on an existing field: afterwards \<open>is_nn_fld\<close> reports that
  there is no nn field, the slot of the old nn field is free, and the field, all other
  fields and all tables are otherwise unchanged.\<close>

theorem drop_nn_then_is_nn:
  assumes "located s x y t i"
  shows "\<exists>s'. drop_nn_fld (Some x) (Some y) s = (Ret (), s') \<and>
     is_nn_fld (Some x) (Some y) s' = (Ret (-1, ''0,-1''), s') \<and>
     meta_inv s' \<and> flds_upd s (drop_nn (g_flds s) i) s'"
proof -
  obtain s' where s': "drop_nn_fld (Some x) (Some y) s = (Ret (), s')" "flds_upd s (drop_nn (g_flds s) i) s'" "meta_inv s'"
    using wp_Ret_result[OF wp_drop_nn_fld[OF assms]] by auto
  have l: "located s' x y t i" "nn_fld_id (g_flds s' ! i) = -1"
    using located_dropped[OF assms s'(2,3)] by auto
  show ?thesis using s' is_nn_fld_run[OF l(1)] l(2) by (auto simp: Let_def)
qed

theorem drop_nn_then_is_nn_witness:
  "\<exists>s'. drop_nn_fld (Some ''t1'') (Some ''f1'') sample_state = (Ret (), s') \<and>
     flds_upd sample_state [sample_fld\<lparr>nn_fld_id := -1\<rparr>, zero_fld_rec, zero_fld_rec, zero_fld_rec] s'"
proof -
  have "located sample_state ''t1'' ''f1'' 0 0"
    using sample_inv sample_unique by (simp add: located_def fld_key_def) (simp add: sample_fld_def)
  from drop_nn_then_is_nn[OF this] show ?thesis
    by (auto simp: drop_nn_def) (simp add: sample_fld_def)
qed

text \<open>C40: Renaming a table to the name of a table that serves as a dictionary reports success
  and leaves two tables of the same name: \<open>rename_tbl\<close> drops the status of \<open>del_tbl\<close>, which
  refuses to delete the dictionary.\<close>

theorem rename_tbl_duplicates:
  assumes "meta_inv s" and "tbl_slots.unique_keys (g_tbls s)" and "x \<noteq> []" and "y \<noteq> []" and "x \<noteq> y"
    and "tbl_slots.lookup (g_tbls s) x = Some t" and "tbl_slots.lookup (g_tbls s) y = Some u"
    and "chk_tbl_name (Some y)" and "\<exists>i < length (g_flds s). dict_tbl_id (g_flds s ! i) = int u"
  shows "\<exists>s'. rename_tbl (Some x) (Some y) s = (Ret (), s') \<and> t \<noteq> u \<and>
     tbl_name (g_tbls s' ! t) = y \<and> tbl_name (g_tbls s' ! u) = y \<and> \<not> tbl_slots.unique_keys (g_tbls s')"
proof -
  let ?s' = "s\<lparr>g_tbls := (g_tbls s)[t := (g_tbls s ! t)\<lparr>tbl_name := y\<rparr>]\<rparr>"
  have t: "t < length (g_tbls s)" "tbl_name (g_tbls s ! t) = x" "u < length (g_tbls s)" "tbl_name (g_tbls s ! u) = y"
    using find_from_Some[OF assms(6)[unfolded tbl_slots.lookup_def]]
      find_from_Some[OF assms(7)[unfolded tbl_slots.lookup_def]] by auto
  have ans: "is_tbl (Some x) s = (Ret (int t, g_tbls s ! t), s)" "is_tbl (Some y) s = (Ret (int u, g_tbls s ! u), s)"
    using is_tbl_lookup[OF meta_inv_parts(1)[OF assms(1)] assms(2)] assms(3,4,6,7) by (simp_all add: tbl_answer_def)
  have "wp (del_tbl_id (int u)) (\<lambda>_ _. False) (\<lambda>s'. s' = s) s"
    using t assms(9) by (intro wp_del_tbl_id[OF assms(1)]) (auto simp: in_range_def)
  then have "wp (del_tbl None (int u)) (\<lambda>_ _. False) (\<lambda>s'. s' = s) s" by (simp add: del_tbl_given_id)
  then have "del_tbl None (int u) s = (Bye, s)" using wp_Bye_result by fastforce
  then have "rename_tbl (Some x) (Some y) s = (Ret (), ?s')"
    using ans t assms(3,4,5,8)
    by (simp add: rename_tbl_def bind_def seq_def arg_given_def ret_def guard_def chk_tbl_range_def gets_def
        in_range_def ignore_def set_tbl_def)
  then show ?thesis
    using t assms(4,5) by (intro exI[of _ ?s']) (auto simp: nth_list_update tbl_slots.unique_keys_def)
qed

theorem rename_tbl_duplicates_witness:
  "\<exists>s'. rename_tbl (Some ''t1'') (Some ''d1'') sample_dict = (Ret (), s') \<and>
     tbl_name (g_tbls s' ! 0) = ''d1'' \<and> tbl_name (g_tbls s' ! 1) = ''d1''"
proof -
  have "tbl_slots.lookup (g_tbls sample_dict) ''t1'' = Some 0" "tbl_slots.lookup (g_tbls sample_dict) ''d1'' = Some 1"
    by (simp_all add: sample_dict_def tbl_slots.lookup_def find_from.simps)
  moreover have "\<exists>i < length (g_flds sample_dict). dict_tbl_id (g_flds sample_dict ! i) = int 1"
    by (simp add: sample_dict_def Ex_less_Suc)
  moreover have "chk_tbl_name (Some ''d1'')" by code_simp
  ultimately show ?thesis
    using rename_tbl_duplicates[OF sample_dict_inv sample_dict_unique, of "''t1''" "''d1''" 0 1] by auto
qed

text \<open>Setting a field attribute without naming a field reads and writes outside the field
  array: the id stays \<open>INT_MIN\<close>, and only \<open>is_dict_tbl\<close> and \<open>disp_name\<close> look at its sign.\<close>

theorem set_meta_without_field:
  assumes "meta_inv s" and "tbl_slots.unique_keys (g_tbls s)" and "x \<noteq> []"
    and "tbl_slots.lookup (g_tbls s) x = Some t"
  shows "set_meta (Some x) (Some []) (Some ''sort_type'') (Some (mk_str_sort_type st)) s = (Fault, s)"
proof -
  have "is_tbl (Some x) s = (Ret (int t, g_tbls s ! t), s)"
    using is_tbl_lookup[OF meta_inv_parts(1)[OF assms(1)] assms(2,3)] assms(4) by (simp add: tbl_answer_def)
  moreover have "in_range (int t) (g_tbls s)"
    using find_from_Some[OF assms(4)[unfolded tbl_slots.lookup_def]] by (simp add: in_range_def)
  moreover have "mk_str_sort_type st \<noteq> []" by (cases st) simp_all
  ultimately show ?thesis
    by (simp add: set_meta_def int_set_meta_def set_sort_type_def unstr_mk_sort_type bind_def seq_def arg_given_def
        of_option_def ret_def chk_tbl_range_def gets_def guard_def set_fld_def)
qed

theorem set_meta_without_field_witness:
  "set_meta (Some ''t1'') (Some []) (Some ''sort_type'') (Some ''unsorted'') sample_state = (Fault, sample_state)"
proof -
  have "tbl_slots.lookup (g_tbls sample_state) ''t1'' = Some 0"
    by (simp add: tbl_slots.lookup_def find_from.simps)
  from set_meta_without_field[OF sample_inv sample_unique(1) _ this, of unsorted] show ?thesis by simp
qed

end
